(* ===== verification/Bobi_Prelude.thy ===== *)
theory Bobi_Prelude
  imports Main "HOL-Library.Code_Target_Nat"
begin

text \<open>
  Shared vocabulary of the development: the Python text operations the modelled modules use
  (\<open>str(int)\<close>, \<open>int(str)\<close>, \<open>str.strip\<close>, \<open>str.split\<close>, \<open>str.join\<close>), the Python
  \<open>dict\<close> as an association list in insertion order, generic lemmas on lists and on sorted lists of
  finite sets, and the \<^theory_text>\<open>named_theorems\<close> collections the component theories
  fill.

  A Python string is a \<open>string\<close> (a list of characters).  All the text the modelled code parses is
  ASCII; a character outside ASCII only occurs in labels the code passes through untouched.
\<close>

named_theorems py_text \<open>facts on the Python text operations\<close>
named_theorems sql_table \<open>facts on table reads and writes\<close>
named_theorems frame \<open>what an operation leaves unchanged\<close>

subsection \<open>Python text operations\<close>

definition is_space :: "char \<Rightarrow> bool" where
  "is_space c = (let k = (of_char c :: nat) in (9 \<le> k \<and> k \<le> 13) \<or> (28 \<le> k \<and> k \<le> 32))"

definition py_strip :: "string \<Rightarrow> string" where
  "py_strip s = rev (dropWhile is_space (rev (dropWhile is_space s)))"

definition lower_char :: "char \<Rightarrow> char" where
  "lower_char c = (let k = (of_char c :: nat) in if 65 \<le> k \<and> k \<le> 90 then char_of (k + 32) else c)"

definition py_lower :: "string \<Rightarrow> string" where
  "py_lower s = map lower_char s"

fun split_char :: "char \<Rightarrow> string \<Rightarrow> string list" where
  "split_char sep [] = [[]]"
| "split_char sep (x # xs) =
     (if x = sep then [] # split_char sep xs
      else (case split_char sep xs of [] \<Rightarrow> [[x]] | y # ys \<Rightarrow> (x # y) # ys))"

fun join_with :: "string \<Rightarrow> string list \<Rightarrow> string" where
  "join_with sep [] = []"
| "join_with sep [x] = x"
| "join_with sep (x # y # ys) = x @ sep @ join_with sep (y # ys)"

text \<open>\<open>s.split(sep, 1)\<close> on a text that contains \<open>sep\<close>: what is before and after its first occurrence.\<close>

definition split_once :: "char \<Rightarrow> string \<Rightarrow> string \<times> string" where
  "split_once sep s = (takeWhile (\<lambda>c. c \<noteq> sep) s, tl (dropWhile (\<lambda>c. c \<noteq> sep) s))"

definition digit_char :: "nat \<Rightarrow> char" where
  "digit_char d = char_of (48 + d)"

definition digit_val :: "char \<Rightarrow> nat option" where
  "digit_val c = (let k = of_char c in if 48 \<le> k \<and> k \<le> 57 then Some (k - 48) else None)"

fun str_nat :: "nat \<Rightarrow> string" where
  "str_nat n = (if n < 10 then [digit_char n] else str_nat (n div 10) @ [digit_char (n mod 10)])"

declare str_nat.simps [simp del]

definition str_int :: "int \<Rightarrow> string" where
  "str_int i = (if i < 0 then CHR ''-'' # str_nat (nat (- i)) else str_nat (nat i))"

text \<open>
  \<open>int(s)\<close>: white space is stripped, one sign is accepted, then digits in which a single
  underscore may separate two digits; anything else is a \<open>ValueError\<close> (\<open>None\<close>).
\<close>

fun int_digits :: "nat \<Rightarrow> bool \<Rightarrow> string \<Rightarrow> nat option" where
  "int_digits acc ok [] = (if ok then Some acc else None)"
| "int_digits acc ok (c # cs) =
     (case digit_val c of
        Some d \<Rightarrow> int_digits (10 * acc + d) True cs
      | None \<Rightarrow> if c = CHR ''_'' \<and> ok then int_digits acc False cs else None)"

definition py_int :: "string \<Rightarrow> int option" where
  "py_int s =
     (case py_strip s of
        [] \<Rightarrow> None
      | c # cs \<Rightarrow>
          if c = CHR ''-'' then map_option (\<lambda>n. - int n) (int_digits 0 False cs)
          else if c = CHR ''+'' then map_option int (int_digits 0 False cs)
          else map_option int (int_digits 0 False (c # cs)))"

subsection \<open>Decimal numerals\<close>

definition is_digit :: "char \<Rightarrow> bool" where
  "is_digit c = (let k = (of_char c :: nat) in 48 \<le> k \<and> k \<le> 57)"

lemma of_char_digit_char [simp]: "d < 10 \<Longrightarrow> (of_char (digit_char d) :: nat) = 48 + d"
  by (simp add: digit_char_def of_char_of)

lemma digit_val_digit_char [simp]: "d < 10 \<Longrightarrow> digit_val (digit_char d) = Some d"
  by (simp add: digit_val_def)

lemma is_digit_digit_char [simp]: "d < 10 \<Longrightarrow> is_digit (digit_char d)"
  by (simp add: is_digit_def)

lemma str_nat_digits: "\<forall>c \<in> set (str_nat n). is_digit c"
proof (induction n rule: str_nat.induct)
  case (1 n)
  then show ?case by (cases "n < 10") (auto simp: str_nat.simps [of n])
qed

lemma str_nat_not_Nil [simp]: "str_nat n \<noteq> []"
  by (subst str_nat.simps) simp

lemma is_digit_not_sep:
  "is_digit c \<Longrightarrow> c \<noteq> CHR ''-'' \<and> c \<noteq> CHR '','' \<and> c \<noteq> CHR ''+'' \<and> \<not> is_space c"
  by (auto simp: is_digit_def is_space_def Let_def)

lemma int_digits_append:
  "\<forall>c \<in> set ds. is_digit c \<Longrightarrow> d < 10 \<Longrightarrow>
   int_digits acc ok (ds @ [digit_char d]) =
     (if ds = [] then Some (10 * acc + d)
      else map_option (\<lambda>n. 10 * n + d) (int_digits acc ok ds))"
proof (induction ds arbitrary: acc ok)
  case Nil
  then show ?case by simp
next
  case (Cons c ds)
  then have "is_digit c" by simp
  then obtain v where v: "digit_val c = Some v"
    by (auto simp: is_digit_def digit_val_def Let_def)
  show ?case using Cons v by (cases "ds = []") simp_all
qed

lemma int_digits_str_nat: "int_digits 0 False (str_nat n) = Some n"
proof (induction n rule: str_nat.induct)
  case (1 n)
  show ?case
  proof (cases "n < 10")
    case True
    then show ?thesis by (simp add: str_nat.simps [of n])
  next
    case False
    with 1 have ih: "int_digits 0 False (str_nat (n div 10)) = Some (n div 10)" by simp
    have "int_digits 0 False (str_nat (n div 10) @ [digit_char (n mod 10)]) = Some n"
      using ih int_digits_append [OF str_nat_digits, of "n mod 10" 0 False "n div 10"]
      by (simp add: mult.commute)
    with False show ?thesis by (simp add: str_nat.simps [of n])
  qed
qed

lemma dropWhile_id: "\<forall>c \<in> set s. \<not> P c \<Longrightarrow> dropWhile P s = s"
  by (cases s) auto

lemma py_strip_id: "\<forall>c \<in> set s. \<not> is_space c \<Longrightarrow> py_strip s = s"
  by (simp add: py_strip_def dropWhile_id)

lemma py_strip_str_nat [simp]: "py_strip (str_nat n) = str_nat n"
  using str_nat_digits is_digit_not_sep by (blast intro: py_strip_id)

lemma py_int_str_nat [py_text]: "py_int (str_nat n) = Some (int n)"
proof -
  obtain c cs where cs: "str_nat n = c # cs" by (cases "str_nat n") auto
  with str_nat_digits [of n] have "is_digit c" by simp
  then have "c \<noteq> CHR ''-''" and "c \<noteq> CHR ''+''" using is_digit_not_sep by auto
  then show ?thesis using int_digits_str_nat [of n] cs py_strip_str_nat [of n]
    by (simp add: py_int_def del: py_strip_str_nat)
qed

lemma py_int_str_int [py_text]: "0 \<le> i \<Longrightarrow> py_int (str_int i) = Some i"
  by (simp add: str_int_def py_int_str_nat)

lemma str_int_digits: "0 \<le> i \<Longrightarrow> \<forall>c \<in> set (str_int i). is_digit c"
  by (simp add: str_int_def str_nat_digits)

lemma str_int_not_Nil [simp]: "str_int i \<noteq> []"
  by (simp add: str_int_def)

subsection \<open>Splitting and joining\<close>

lemma split_char_not_Nil [simp]: "split_char sep s \<noteq> []"
  by (induction s) (auto split: list.splits)

lemma split_char_word: "sep \<notin> set x \<Longrightarrow> split_char sep x = [x]"
  by (induction x) auto

lemma split_char_append:
  "sep \<notin> set x \<Longrightarrow> split_char sep (x @ sep # rest) = x # split_char sep rest"
  by (induction x) auto

lemma split_join [py_text]:
  "xs \<noteq> [] \<Longrightarrow> \<forall>x \<in> set xs. sep \<notin> set x \<Longrightarrow> split_char sep (join_with [sep] xs) = xs"
  by (induction "[sep]" xs rule: join_with.induct) (auto simp: split_char_word split_char_append)

lemma split_once_append [py_text]:
  "sep \<notin> set a \<Longrightarrow> split_once sep (a @ sep # b) = (a, b)"
proof -
  assume "sep \<notin> set a"
  then have "takeWhile (\<lambda>c. c \<noteq> sep) a = a" and "dropWhile (\<lambda>c. c \<noteq> sep) a = []"
    by (auto simp: takeWhile_eq_all_conv dropWhile_eq_Nil_conv)
  then show ?thesis
    by (simp add: split_once_def takeWhile_append dropWhile_append)
qed

subsection \<open>Python dictionaries as association lists\<close>

text \<open>
  A \<open>dict\<close> whose iteration order the code can see is an association list in insertion order;
  \<open>d.get(k)\<close> is \<open>map_of d k\<close>, \<open>d[k] = v\<close> replaces in place or appends.
\<close>

fun dict_put :: "'k \<Rightarrow> 'v \<Rightarrow> ('k \<times> 'v) list \<Rightarrow> ('k \<times> 'v) list" where
  "dict_put k v [] = [(k, v)]"
| "dict_put k v ((k', v') # d) = (if k' = k then (k, v) # d else (k', v') # dict_put k v d)"

text \<open>\<open>d.setdefault(k, []).append(x)\<close>.\<close>

definition dict_push :: "'k \<Rightarrow> 'v \<Rightarrow> ('k \<times> 'v list) list \<Rightarrow> ('k \<times> 'v list) list" where
  "dict_push k x d = dict_put k ((case map_of d k of None \<Rightarrow> [] | Some l \<Rightarrow> l) @ [x]) d"

lemma map_of_dict_put [simp]: "map_of (dict_put k v d) = (map_of d)(k \<mapsto> v)"
  by (induction d) (auto simp: fun_eq_iff)

lemma keys_dict_put [simp]: "fst ` set (dict_put k v d) = insert k (fst ` set d)"
  using map_of_dict_put [of k v d] by (metis dom_fun_upd dom_map_of_conv_image_fst option.simps(3))

lemma distinct_dict_put: "distinct (map fst d) \<Longrightarrow> distinct (map fst (dict_put k v d))"
proof (induction d)
  case (Cons p d)
  then have "distinct (map fst (dict_put k v d))" by simp
  moreover have "fst p \<noteq> k \<Longrightarrow> fst p \<notin> fst ` set (dict_put k v d)"
    using Cons.prems by (simp only: keys_dict_put) auto
  ultimately show ?case using Cons.prems by (cases p) auto
qed simp

lemma map_of_dict_push:
  "map_of (dict_push k x d) = (map_of d)(k \<mapsto> (case map_of d k of None \<Rightarrow> [] | Some l \<Rightarrow> l) @ [x])"
  by (simp add: dict_push_def)

lemma map_of_rev_distinct: "distinct (map fst xs) \<Longrightarrow> map_of (rev xs) = map_of xs"
  using map_of_inject_set [of "rev xs" xs] by (simp add: rev_map [symmetric])

subsection \<open>Sorted lists of finite sets\<close>

lemma set_take_sorted_list: "finite A \<Longrightarrow> set (take n (sorted_list_of_set A)) \<subseteq> A"
  using set_take_subset by fastforce

lemma length_sorted_list [simp]: "length (sorted_list_of_set A) = card A"
  by simp

lemma set_take_all: "length xs \<le> n \<Longrightarrow> set (take n xs) = set xs"
  by simp

lemma card_set_take: "distinct xs \<Longrightarrow> n \<le> length xs \<Longrightarrow> card (set (take n xs)) = n"
  by (simp add: distinct_card min_absorb2)

end
