(* ===== verification/Cpuset.thy ===== *)
theory Cpuset
  imports Bobi_Prelude
begin

text \<open>
  The cpuset notation of \<open>app/core_pool.py\<close>: \<open>parse_cpuset\<close> reads the lists Docker and the
  kernel write (\<open>8-11,20-23\<close>), \<open>fmt_cpuset\<close> prints a set of cores in the compact form.  The main
  fact is the round trip; every consumer of a cpuset (the pool of a node, the pin of a container)
  relies on it.
\<close>

definition parse_part :: "string \<Rightarrow> int set" where
  "parse_part p =
     (let part = py_strip p in
      if part = [] then {}
      else if CHR ''-'' \<in> set part then
        (case split_once (CHR ''-'') part of (a, b) \<Rightarrow>
          (case (py_int a, py_int b) of
             (Some x, Some y) \<Rightarrow> set [x..y]
           | _ \<Rightarrow> {}))
      else (case py_int part of Some n \<Rightarrow> {n} | None \<Rightarrow> {}))"

definition parse_cpuset :: "string \<Rightarrow> int set" where
  "parse_cpuset s = fold (\<lambda>p out. out \<union> parse_part p) (split_char (CHR '','') s) {}"

definition fmt_run :: "int \<Rightarrow> int \<Rightarrow> string" where
  "fmt_run start prev = (if start = prev then str_int start else str_int start @ ''-'' @ str_int prev)"

fun fmt_runs :: "int \<Rightarrow> int \<Rightarrow> int list \<Rightarrow> string list" where
  "fmt_runs start prev [] = [fmt_run start prev]"
| "fmt_runs start prev (c # cs) =
     (if c = prev + 1 then fmt_runs start c cs else fmt_run start prev # fmt_runs c c cs)"

definition fmt_cpuset :: "int set \<Rightarrow> string" where
  "fmt_cpuset cores =
     (case sorted_list_of_set cores of
        [] \<Rightarrow> []
      | c # cs \<Rightarrow> join_with '','' (fmt_runs c c cs))"

subsection \<open>Parsing\<close>

lemma fold_Un: "fold (\<lambda>p out. out \<union> f p) ps A = A \<union> (\<Union>p \<in> set ps. f p)"
  by (induction ps arbitrary: A) auto

lemma parse_cpuset_eq: "parse_cpuset s = (\<Union>p \<in> set (split_char (CHR '','') s). parse_part p)"
  by (simp add: parse_cpuset_def fold_Un)

lemma finite_parse_part [simp]: "finite (parse_part p)"
  by (simp add: parse_part_def Let_def split: option.splits prod.splits)

lemma finite_parse_cpuset [simp]: "finite (parse_cpuset s)"
  by (simp add: parse_cpuset_eq)

lemma parse_cpuset_Nil [simp]: "parse_cpuset [] = {}"
  by (simp add: parse_cpuset_eq parse_part_def py_strip_def)

lemma py_int_nonneg:
  assumes "CHR ''-'' \<notin> set s" and "py_int s = Some i"
  shows "0 \<le> i"
proof -
  have "set (py_strip s) \<subseteq> set s"
    unfolding py_strip_def by (auto dest!: set_dropWhileD)
  with assms show ?thesis
    by (auto simp: py_int_def split: list.splits if_splits)
qed

lemma parse_part_nonneg: "c \<in> parse_part p \<Longrightarrow> 0 \<le> c"
proof -
  assume c: "c \<in> parse_part p"
  let ?s = "py_strip p" and ?a = "fst (split_once (CHR ''-'') (py_strip p))"
  have na: "CHR ''-'' \<notin> set ?a" by (auto simp: split_once_def dest: set_takeWhileD)
  show ?thesis
  proof (cases "CHR ''-'' \<in> set ?s")
    case True
    with c obtain x y where "py_int ?a = Some x" and "x \<le> c"
      by (auto simp: parse_part_def Let_def split: prod.splits option.splits if_splits)
    with py_int_nonneg [OF na] show ?thesis by fastforce
  next
    case False
    with c obtain x where "py_int ?s = Some x" and "c = x"
      by (auto simp: parse_part_def Let_def split: option.splits if_splits)
    with py_int_nonneg [OF False] show ?thesis by simp
  qed
qed

lemma parse_cpuset_nonneg: "c \<in> parse_cpuset s \<Longrightarrow> 0 \<le> c"
  by (auto simp: parse_cpuset_eq dest: parse_part_nonneg)

subsection \<open>Printing\<close>

lemma fmt_cpuset_empty [simp]: "fmt_cpuset {} = []"
  by (simp add: fmt_cpuset_def)

lemma fmt_runs_not_Nil [simp]: "fmt_runs s p cs \<noteq> []"
  by (induction s p cs rule: fmt_runs.induct) auto

lemma fmt_run_no_comma:
  assumes "0 \<le> s" and "0 \<le> p"
  shows "CHR '','' \<notin> set (fmt_run s p)"
  using str_int_digits [OF assms(1)] str_int_digits [OF assms(2)] is_digit_not_sep
  by (auto simp: fmt_run_def)

lemma parse_fmt_run:
  assumes "0 \<le> s" and "s \<le> p"
  shows "parse_part (fmt_run s p) = {s..p}"
proof -
  from assms have p: "0 \<le> p" by simp
  note ds = str_int_digits [OF assms(1)] and dp = str_int_digits [OF p]
  have ws: "\<forall>c \<in> set (fmt_run s p). \<not> is_space c"
    using ds dp is_digit_not_sep by (auto simp: fmt_run_def is_space_def)
  have nd: "CHR ''-'' \<notin> set (str_int s)" using ds is_digit_not_sep by blast
  show ?thesis
  proof (cases "s = p")
    case True
    then show ?thesis using nd assms ws
      by (simp add: parse_part_def py_strip_id fmt_run_def py_int_str_int)
  next
    case False
    then have eq: "fmt_run s p = str_int s @ CHR ''-'' # str_int p" by (simp add: fmt_run_def)
    have "py_strip (fmt_run s p) = fmt_run s p" using ws by (rule py_strip_id)
    then show ?thesis using nd assms p eq
      by (simp add: parse_part_def split_once_append py_int_str_int)
  qed
qed

lemma fmt_runs_no_comma:
  "0 \<le> s \<Longrightarrow> s \<le> p \<Longrightarrow> sorted_wrt (<) (p # cs) \<Longrightarrow>
   \<forall>x \<in> set (fmt_runs s p cs). CHR '','' \<notin> set x"
  by (induction s p cs rule: fmt_runs.induct) (auto simp: fmt_run_no_comma)

lemma parse_fmt_runs:
  "0 \<le> s \<Longrightarrow> s \<le> p \<Longrightarrow> sorted_wrt (<) (p # cs) \<Longrightarrow>
   (\<Union>x \<in> set (fmt_runs s p cs). parse_part x) = {s..p} \<union> set cs"
proof (induction s p cs rule: fmt_runs.induct)
  case (1 start prev)
  then show ?case by (simp add: parse_fmt_run)
next
  case (2 start prev c cs)
  show ?case
  proof (cases "c = prev + 1")
    case True
    with 2 have "(\<Union>x \<in> set (fmt_runs start c cs). parse_part x) = {start..c} \<union> set cs" by simp
    moreover have "{start..c} = insert c {start..prev}" using True 2 by auto
    ultimately show ?thesis using True by simp
  next
    case False
    with 2 have "(\<Union>x \<in> set (fmt_runs c c cs). parse_part x) = {c..c} \<union> set cs" by auto
    then show ?thesis using False 2 by (simp add: parse_fmt_run)
  qed
qed

lemma parse_fmt_cpuset [simp, py_text]:
  assumes "finite S" and "\<forall>c \<in> S. 0 \<le> c"
  shows "parse_cpuset (fmt_cpuset S) = S"
proof (cases "sorted_list_of_set S")
  case Nil
  with assms(1) have "S = {}" by (simp add: sorted_list_of_set_eq_Nil_iff)
  then show ?thesis by simp
next
  case (Cons c cs)
  with assms(1) have set: "set (c # cs) = S" by (metis set_sorted_list_of_set)
  have sw: "sorted_wrt (<) (c # cs)" using Cons by (metis strict_sorted_list_of_set)
  from set assms(2) have c0: "0 \<le> c" by auto
  have nc: "\<forall>x \<in> set (fmt_runs c c cs). CHR '','' \<notin> set x"
    using c0 sw by (intro fmt_runs_no_comma) auto
  have "parse_cpuset (fmt_cpuset S) = (\<Union>x \<in> set (fmt_runs c c cs). parse_part x)"
    using Cons nc by (simp add: parse_cpuset_eq fmt_cpuset_def split_join)
  also have "\<dots> = {c..c} \<union> set cs" using c0 sw by (intro parse_fmt_runs) auto
  finally show ?thesis using set by simp
qed

lemma fmt_cpuset_Nil_iff: "finite S \<Longrightarrow> fmt_cpuset S = [] \<longleftrightarrow> S = {}"
proof (cases "sorted_list_of_set S")
  case (Cons c cs)
  have "join_with '','' xs \<noteq> []" if "xs \<noteq> []" "\<forall>x \<in> set xs. x \<noteq> []" for xs :: "string list"
    using that by (induction "'',''" xs rule: join_with.induct) auto
  moreover have "\<forall>x \<in> set (fmt_runs s p ds). x \<noteq> []" for s p ds
    by (induction s p ds rule: fmt_runs.induct) (auto simp: fmt_run_def)
  ultimately show ?thesis using Cons by (auto simp: fmt_cpuset_def)
qed (simp add: fmt_cpuset_def sorted_list_of_set_eq_Nil_iff)

end
