(* ===== verification/Pool_State.thy ===== *)
theory Pool_State
  imports Complex_Main Cpuset
begin

text \<open>
  The state the core allocator of \<open>app/core_pool.py\<close> works on: the rows of the tables \<open>nodes\<close>,
  \<open>containers\<close> and \<open>node_core_alloc\<close> (one row per reserved core, primary key
  \<open>(node_id, core)\<close>), the settings, and the alerts it posts.  What the hardware probes report
  (hyper-threading map, NUMA maps, isolated band of a node) comes from outside the program; the
  state holds what the cached readers return for each node.
\<close>

datatype pval = PInt int | PStr string

record alert =
  al_key :: string
  al_level :: string
  al_node :: "int option"
  al_vmid :: "int option"
  al_kind :: string
  al_params :: "(string \<times> pval) list"

record node =
  node_id :: int
  node_name :: string
  compute_cpuset :: string
  capabilities :: "string list"
  cpu_count :: int

record container =
  ct_vmid :: int
  ct_node :: int
  ct_hostname :: string
  ct_status :: string
  ct_mtl :: bool \<comment> \<open>\<open>is_mtl_type\<close> of the deployed plugin type\<close>

datatype sval = SInt int | SText string

type_synonym alloc_row = "int \<times> int \<times> int" \<comment> \<open>\<open>node_id\<close>, \<open>core\<close>, \<open>vmid\<close>\<close>
type_synonym cpu_map = "(int \<times> int) list" \<comment> \<open>logical cpu, and its physical core or NUMA node\<close>

record pool_db =
  nodes :: "node list"
  containers :: "container list"
  core_alloc :: "alloc_row list"
  settings :: "(string \<times> sval) list"
  node_settings :: "((int \<times> string) \<times> sval) list"
  alerts :: "alert list"
  core_maps :: "int \<Rightarrow> cpu_map"
  numa_maps :: "int \<Rightarrow> cpu_map"
  isolated_of :: "int \<Rightarrow> int set option"
  gpu_numas :: "int \<Rightarrow> cpu_map"
  own_latency :: "int \<Rightarrow> rat option" \<comment> \<open>\<open>metrics.own_latency_cache\<close>, milliseconds\<close>

subsection \<open>Rows\<close>

definition db_get_node :: "pool_db \<Rightarrow> int \<Rightarrow> node option" where
  "db_get_node db nid = find (\<lambda>n. node_id n = nid) (nodes db)"

definition db_get_container :: "pool_db \<Rightarrow> int \<Rightarrow> container option" where
  "db_get_container db v = find (\<lambda>c. ct_vmid c = v) (containers db)"

definition db_update_cpuset :: "pool_db \<Rightarrow> int \<Rightarrow> string \<Rightarrow> pool_db" where
  "db_update_cpuset db nid s =
     db\<lparr>nodes := map (\<lambda>n. if node_id n = nid then n\<lparr>compute_cpuset := s\<rparr> else n) (nodes db)\<rparr>"

definition node_cpuset :: "pool_db \<Rightarrow> int \<Rightarrow> string" where
  "node_cpuset db nid = (case db_get_node db nid of None \<Rightarrow> [] | Some n \<Rightarrow> compute_cpuset n)"

text \<open>\<open>(node or {}).get("name", node_id)\<close> and \<open>(node or {}).get("name") or node_id\<close>.\<close>

definition node_name_get :: "pool_db \<Rightarrow> int \<Rightarrow> pval" where
  "node_name_get db nid = (case db_get_node db nid of None \<Rightarrow> PInt nid | Some n \<Rightarrow> PStr (node_name n))"

definition node_name_or :: "pool_db \<Rightarrow> int \<Rightarrow> pval" where
  "node_name_or db nid =
     (case db_get_node db nid of
        None \<Rightarrow> PInt nid
      | Some n \<Rightarrow> if node_name n = [] then PInt nid else PStr (node_name n))"

subsection \<open>Settings\<close>

text \<open>\<open>settings.get(key)\<close> and \<open>settings.setting_for(key, node_id)\<close>: the node override first.\<close>

definition setting :: "pool_db \<Rightarrow> string \<Rightarrow> sval option" where
  "setting db k = map_of (settings db) k"

definition setting_for :: "pool_db \<Rightarrow> string \<Rightarrow> int option \<Rightarrow> sval option" where
  "setting_for db k nid =
     (case nid of
        None \<Rightarrow> setting db k
      | Some i \<Rightarrow> (case map_of (node_settings db) (i, k) of Some v \<Rightarrow> Some v | None \<Rightarrow> setting db k))"

text \<open>\<open>int(v or d)\<close>; \<open>None\<close> is the \<open>ValueError\<close>.\<close>

definition int_or :: "sval option \<Rightarrow> int \<Rightarrow> int option" where
  "int_or v d =
     (case v of
        None \<Rightarrow> Some d
      | Some (SInt i) \<Rightarrow> Some (if i = 0 then d else i)
      | Some (SText s) \<Rightarrow> if s = [] then Some d else py_int s)"

subsection \<open>The table \<open>node_core_alloc\<close>\<close>

abbreviation row_key :: "alloc_row \<Rightarrow> int \<times> int" where
  "row_key r \<equiv> (fst r, fst (snd r))"

text \<open>The primary key: no two rows for the same core of the same node.\<close>

definition pk_ok :: "alloc_row list \<Rightarrow> bool" where
  "pk_ok t = distinct (map row_key t)"

text \<open>\<open>{core: vmid}\<close> of one node.\<close>

definition allocated :: "pool_db \<Rightarrow> int \<Rightarrow> (int \<times> int) list" where
  "allocated db nid = map snd (filter (\<lambda>r. fst r = nid) (core_alloc db))"

definition delete_vmid_rows :: "int \<Rightarrow> alloc_row list \<Rightarrow> alloc_row list" where
  "delete_vmid_rows v t = filter (\<lambda>(n, c, w). w \<noteq> v) t"

text \<open>
  \<open>executemany("INSERT \<dots>")\<close>: the rows are inserted one after the other; the first one whose key
  is taken raises \<open>IntegrityError\<close> (\<open>False\<close>), and the rows inserted before it stay.
\<close>

fun insert_rows :: "alloc_row list \<Rightarrow> alloc_row list \<Rightarrow> alloc_row list \<times> bool" where
  "insert_rows t [] = (t, True)"
| "insert_rows t (r # rs) =
     (if row_key r \<in> set (map row_key t) then (t, False) else insert_rows (t @ [r]) rs)"

text \<open>The cores one container holds on one node, and who holds a core.\<close>

definition cores_of :: "pool_db \<Rightarrow> int \<Rightarrow> int \<Rightarrow> int set" where
  "cores_of db nid v = fst ` Set.filter (\<lambda>cv. snd cv = v) (set (allocated db nid))"

text \<open>What an operation can raise: a primary key violation, or the refusal of a saturated pool.\<close>

datatype pool_error = IntegrityError | PoolSature string

subsection \<open>Alerts\<close>

definition add_alert :: "string \<Rightarrow> string \<Rightarrow> int option \<Rightarrow> int option \<Rightarrow> string \<Rightarrow>
    (string \<times> pval) list \<Rightarrow> pool_db \<Rightarrow> pool_db" where
  "add_alert key level nid v kind ps db =
     db\<lparr>alerts := alerts db @ [\<lparr>al_key = key, al_level = level, al_node = nid, al_vmid = v,
                               al_kind = kind, al_params = ps\<rparr>]\<rparr>"

definition em_dash :: string where
  "em_dash = [CHR 0xE2, CHR 0x80, CHR 0x94]"

text \<open>\<open>_noms_vmids\<close>: the containers named, in order of their number.\<close>

definition noms_vmids :: "pool_db \<Rightarrow> int set \<Rightarrow> string" where
  "noms_vmids db vs =
     (let out = map (\<lambda>v.
            let hn = (case db_get_container db v of None \<Rightarrow> [] | Some c \<Rightarrow> ct_hostname c)
            in (if hn = [] then ''?'' else hn) @ '' ('' @ str_int v @ '')'') (sorted_list_of_set vs);
          s = join_with '', '' out
      in if s = [] then em_dash else s)"

subsection \<open>Facts on the table\<close>

lemma mem_allocated [sql_table]: "(c, v) \<in> set (allocated db nid) \<longleftrightarrow> (nid, c, v) \<in> set (core_alloc db)"
  by (force simp: allocated_def)

lemma cores_of_iff [sql_table]: "c \<in> cores_of db nid v \<longleftrightarrow> (nid, c, v) \<in> set (core_alloc db)"
  by (force simp: cores_of_def mem_allocated [symmetric])

lemma finite_cores_of [simp]: "finite (cores_of db nid v)"
  by (simp add: cores_of_def)

lemma pk_owner_unique:
  "pk_ok t \<Longrightarrow> (n, c, v) \<in> set t \<Longrightarrow> (n, c, w) \<in> set t \<Longrightarrow> v = w"
proof -
  assume pk: "pk_ok t" and a: "(n, c, v) \<in> set t" and b: "(n, c, w) \<in> set t"
  from pk have "inj_on row_key (set t)" by (simp add: pk_ok_def distinct_map)
  then have "(n, c, v) = (n, c, w)" by (rule inj_onD) (use a b in simp_all)
  then show "v = w" by simp
qed

lemma delete_vmid_rows_iff [sql_table]:
  "(n, c, w) \<in> set (delete_vmid_rows v t) \<longleftrightarrow> (n, c, w) \<in> set t \<and> w \<noteq> v"
  by (auto simp: delete_vmid_rows_def)

lemma distinct_map_filter_keys: "distinct (map f xs) \<Longrightarrow> distinct (map f (filter P xs))"
  by (induction xs) auto

lemma pk_ok_delete [sql_table]: "pk_ok t \<Longrightarrow> pk_ok (delete_vmid_rows v t)"
  by (simp add: pk_ok_def delete_vmid_rows_def distinct_map_filter_keys)

lemma pk_ok_filter: "pk_ok t \<Longrightarrow> pk_ok (filter P t)"
  by (simp add: pk_ok_def distinct_map_filter_keys)

lemma insert_rows_ok:
  assumes "distinct (map row_key rs)" and "set (map row_key rs) \<inter> set (map row_key t) = {}"
  shows "insert_rows t rs = (t @ rs, True)"
  using assms
proof (induction rs arbitrary: t)
  case (Cons r rs)
  then have "row_key r \<notin> set (map row_key t)" by auto
  moreover have "set (map row_key rs) \<inter> set (map row_key (t @ [r])) = {}"
    using Cons.prems by auto
  ultimately show ?case using Cons by simp
qed simp

lemma insert_rows_pk: "pk_ok t \<Longrightarrow> pk_ok (fst (insert_rows t rs))"
proof (induction rs arbitrary: t)
  case (Cons r rs)
  then show ?case by (auto simp: pk_ok_def)
qed simp

lemma add_alert_frame [simp, frame]:
  "core_alloc (add_alert k l n v kd ps db) = core_alloc db"
  "nodes (add_alert k l n v kd ps db) = nodes db"
  "containers (add_alert k l n v kd ps db) = containers db"
  "settings (add_alert k l n v kd ps db) = settings db"
  "node_settings (add_alert k l n v kd ps db) = node_settings db"
  "core_maps (add_alert k l n v kd ps db) = core_maps db"
  "numa_maps (add_alert k l n v kd ps db) = numa_maps db"
  "isolated_of (add_alert k l n v kd ps db) = isolated_of db"
  "gpu_numas (add_alert k l n v kd ps db) = gpu_numas db"
  "own_latency (add_alert k l n v kd ps db) = own_latency db"
  by (simp_all add: add_alert_def)

lemma reads_add_alert [simp, frame]:
  "allocated (add_alert k l n v kd ps db) nid = allocated db nid"
  "cores_of (add_alert k l n v kd ps db) nid w = cores_of db nid w"
  "db_get_node (add_alert k l n v kd ps db) nid = db_get_node db nid"
  "node_cpuset (add_alert k l n v kd ps db) nid = node_cpuset db nid"
  by (simp_all add: allocated_def cores_of_def db_get_node_def node_cpuset_def)

lemma reads_core_alloc_update [simp, frame]:
  "db_get_node (db\<lparr>core_alloc := t\<rparr>) nid = db_get_node db nid"
  "node_cpuset (db\<lparr>core_alloc := t\<rparr>) nid = node_cpuset db nid"
  by (simp_all add: db_get_node_def node_cpuset_def)

text \<open>Two states that differ at most in the reservations and the alerts.\<close>

definition same_world :: "pool_db \<Rightarrow> pool_db \<Rightarrow> bool" where
  "same_world db db' \<longleftrightarrow>
     nodes db' = nodes db \<and> containers db' = containers db \<and> settings db' = settings db \<and>
     node_settings db' = node_settings db \<and> core_maps db' = core_maps db \<and>
     numa_maps db' = numa_maps db \<and> isolated_of db' = isolated_of db \<and>
     gpu_numas db' = gpu_numas db \<and> own_latency db' = own_latency db"

lemma same_world_refl [simp]: "same_world db db"
  by (simp add: same_world_def)

lemma same_world_trans: "same_world a b \<Longrightarrow> same_world b c \<Longrightarrow> same_world a c"
  by (simp add: same_world_def)

lemma same_world_update [simp]:
  "same_world a (db\<lparr>core_alloc := t\<rparr>) = same_world a db"
  "same_world a (add_alert k l n v kd ps db) = same_world a db"
  by (simp_all add: same_world_def)

lemma same_world_reads:
  assumes "same_world db db'"
  shows "db_get_node db' nid = db_get_node db nid" and "node_cpuset db' nid = node_cpuset db nid"
    and "db_get_container db' v = db_get_container db v"
    and "core_maps db' = core_maps db" and "numa_maps db' = numa_maps db"
    and "containers db' = containers db"
  using assms by (simp_all add: same_world_def db_get_node_def node_cpuset_def db_get_container_def)

end
