(* ===== verification/Pool_Topology.thy ===== *)
theory Pool_Topology
  imports Pool_State
begin

text \<open>
  Topology and derivation of a node's compute pool (\<open>app/core_pool.py\<close>): the readers of the host
  probes' output, the footprint of the ST 2110 engine (the single source of truth), the pool derived
  as its complement, and the two operations that write it to the node.
\<close>

subsection \<open>Readers of the host probes\<close>

definition is_line_break :: "char \<Rightarrow> bool" where
  "is_line_break c = (let k = (of_char c :: nat) in (10 \<le> k \<and> k \<le> 13) \<or> (28 \<le> k \<and> k \<le> 30))"

text \<open>\<open>str.splitlines()\<close>: a carriage return followed by a line feed is one break, and the last
  line is not followed by an empty one.\<close>

fun lines_from :: "string \<Rightarrow> string \<Rightarrow> string list" where
  "lines_from cur [] = (if cur = [] then [] else [rev cur])"
| "lines_from cur (c # cs) =
     (if \<not> is_line_break c then lines_from (c # cur) cs
      else rev cur #
        (case cs of
           d # ds \<Rightarrow>
             if (of_char c :: nat) = 13 \<and> (of_char d :: nat) = 10 then lines_from [] ds
             else lines_from [] (d # ds)
         | [] \<Rightarrow> []))"

definition py_isdigit :: "string \<Rightarrow> bool" where
  "py_isdigit s = (s \<noteq> [] \<and> list_all is_digit s)"

definition read_pair_line :: "string \<Rightarrow> cpu_map \<Rightarrow> cpu_map" where
  "read_pair_line txt m =
     (let l = py_strip txt in
      if l = [] \<or> take 1 l = ''#'' then m
      else (case split_char (CHR '','') l of
              a # b # _ \<Rightarrow>
                if py_isdigit a \<and> py_isdigit b
                then dict_put (the (py_int a)) (the (py_int b)) m else m
            | _ \<Rightarrow> m))"

text \<open>
  The probe is an exchange with the node agent: \<open>None\<close> when it raises, else the return code and
  the output of the command.
\<close>

definition read_cpu_core_map :: "(int \<times> string) option \<Rightarrow> cpu_map" where
  "read_cpu_core_map probe =
     (case probe of
        None \<Rightarrow> []
      | Some (rc, out) \<Rightarrow> if rc \<noteq> 0 then [] else fold read_pair_line (lines_from [] out) [])"

definition read_cpu_numa_map :: "(int \<times> string) option \<Rightarrow> cpu_map" where
  "read_cpu_numa_map probe =
     (case probe of
        None \<Rightarrow> []
      | Some (rc, out) \<Rightarrow> if rc \<noteq> 0 then [] else fold read_pair_line (lines_from [] out) [])"

definition read_gpu_line :: "string \<Rightarrow> cpu_map \<Rightarrow> cpu_map" where
  "read_gpu_line txt m =
     (case split_once (CHR '':'') (py_strip txt) of (idx, nd) \<Rightarrow>
       (case (py_int idx, py_int nd) of
          (Some i, Some n) \<Rightarrow> if 0 \<le> n then dict_put i n m else m
        | _ \<Rightarrow> m))"

definition read_gpu_numa_map :: "(int \<times> string) option \<Rightarrow> cpu_map" where
  "read_gpu_numa_map probe =
     (case probe of
        None \<Rightarrow> []
      | Some (rc, out) \<Rightarrow> if rc \<noteq> 0 then [] else fold read_gpu_line (lines_from [] out) [])"

definition read_isolated_cpus :: "(int \<times> string) option \<Rightarrow> int set option" where
  "read_isolated_cpus probe =
     (case probe of
        None \<Rightarrow> None
      | Some (rc, out) \<Rightarrow>
          if rc \<noteq> 0 then None
          else map_option (\<lambda>txt. parse_cpuset (py_strip (drop 4 txt)))
                 (find (\<lambda>txt. take 4 txt = ''ISO='') (lines_from [] out)))"

lemma split_once_no_sep: "sep \<notin> set s \<Longrightarrow> split_once sep s = (s, [])"
  by (simp add: split_once_def takeWhile_eq_all_conv)
    (metis (mono_tags, lifting) dropWhile_eq_Nil_conv list.sel(2))

lemma distinct_fold_dict:
  "distinct (map fst m) \<Longrightarrow> (\<And>x m. distinct (map fst m) \<Longrightarrow> distinct (map fst (f x m))) \<Longrightarrow>
   distinct (map fst (fold f xs m))"
  by (induction xs arbitrary: m) auto

lemma distinct_read_pair_line: "distinct (map fst m) \<Longrightarrow> distinct (map fst (read_pair_line txt m))"
  by (auto simp: read_pair_line_def Let_def distinct_dict_put split: list.splits)

lemma read_cpu_core_map_distinct: "distinct (map fst (read_cpu_core_map probe))"
  unfolding read_cpu_core_map_def
  by (auto split: option.splits prod.splits intro!: distinct_fold_dict distinct_read_pair_line)

subsection \<open>Physical cores\<close>

text \<open>\<open>{core_of[c] for c in cs if c in core_of}\<close> and \<open>{c for c, k in core_of.items() if k in ph}\<close>.\<close>

definition phys_of :: "cpu_map \<Rightarrow> int set \<Rightarrow> int set" where
  "phys_of core_of cs =
     (\<lambda>c. the (map_of core_of c)) ` Set.filter (\<lambda>c. map_of core_of c \<noteq> None) cs"

definition threads_on :: "cpu_map \<Rightarrow> int set \<Rightarrow> int set" where
  "threads_on core_of ph = fst ` Set.filter (\<lambda>p. snd p \<in> ph) (set core_of)"

lemma phys_of_iff: "p \<in> phys_of core_of cs \<longleftrightarrow> (\<exists>c \<in> cs. map_of core_of c = Some p)"
  by (force simp: phys_of_def)

lemma threads_on_iff:
  "distinct (map fst core_of) \<Longrightarrow>
   c \<in> threads_on core_of ph \<longleftrightarrow> (\<exists>p \<in> ph. map_of core_of c = Some p)"
  by (force simp: threads_on_def)

lemma finite_phys_of [simp]: "finite cs \<Longrightarrow> finite (phys_of core_of cs)"
  by (simp add: phys_of_def)

lemma finite_threads_on [simp]: "finite (threads_on core_of ph)"
  by (simp add: threads_on_def)

lemma phys_of_mono: "A \<subseteq> B \<Longrightarrow> phys_of m A \<subseteq> phys_of m B"
  unfolding subset_iff phys_of_iff by blast

subsection \<open>The footprint of the engine\<close>

definition reglages_moteur :: "pool_db \<Rightarrow> int \<times> int \<times> int" where
  "reglages_moteur db =
     (let (base, cap) =
        (case (int_or (setting db ''mtl_lcore_base'') 1, int_or (setting db ''mtl_lcore_max'') 16) of
           (Some b, Some c) \<Rightarrow> (max 1 b, max 2 c)
         | _ \<Rightarrow> (1, 16));
          svc = (case int_or (setting db ''mtl_service_cores'') 1 of Some s \<Rightarrow> max 1 s | None \<Rightarrow> 1)
      in (base, cap, svc))"

definition clip_cpus :: "int \<Rightarrow> int set \<Rightarrow> int set" where
  "clip_cpus n_cpus cpus = (if n_cpus \<noteq> 0 then Set.filter (\<lambda>c. 0 \<le> c \<and> c < n_cpus) cpus else cpus)"

definition with_siblings :: "cpu_map \<Rightarrow> int set \<Rightarrow> int set" where
  "with_siblings core_of cpus =
     (if core_of = [] then cpus else cpus \<union> threads_on core_of (phys_of core_of cpus))"

definition engine_cpu_footprint :: "pool_db \<Rightarrow> int \<Rightarrow> cpu_map \<Rightarrow> int set \<times> bool" where
  "engine_cpu_footprint db n_cpus core_of =
     (let (base, cap, svc) = reglages_moteur db;
          extra = svc - 1;
          hi = base + cap + 1 + extra;
          cpus = with_siblings core_of (set [0..hi])
      in (clip_cpus n_cpus cpus, core_of \<noteq> []))"

definition engine_service_cpus :: "pool_db \<Rightarrow> int \<Rightarrow> cpu_map \<Rightarrow> int set" where
  "engine_service_cpus db n_cpus core_of =
     (let (base, cap, svc) = reglages_moteur db;
          hi = base + cap + 1 + (svc - 1);
          cpus = with_siblings core_of (set [base + cap..hi])
      in clip_cpus n_cpus cpus)"

definition derive_compute_cpuset :: "pool_db \<Rightarrow> int \<Rightarrow> cpu_map \<Rightarrow> string" where
  "derive_compute_cpuset db n_cpus core_of =
     (if n_cpus = 0 then []
      else
        let moteur = fst (engine_cpu_footprint db n_cpus core_of);
            pool = filter (\<lambda>c. c \<notin> moteur) [0..n_cpus - 1]
        in if pool \<noteq> [] then fmt_cpuset (set pool) else [])"

text \<open>\<open>isoles\<close>: the isolated band when the caller knows it, else the node is probed.\<close>

definition pool_par_defaut :: "pool_db \<Rightarrow> node \<Rightarrow> int \<Rightarrow> cpu_map \<Rightarrow> int set option \<Rightarrow> string" where
  "pool_par_defaut db nd n_cpus core_of isoles =
     (if ''io2110'' \<in> set (capabilities nd) then derive_compute_cpuset db n_cpus core_of
      else if n_cpus = 0 then []
      else
        let band = (case isoles of
                     Some i \<Rightarrow> i
                   | None \<Rightarrow> (case isolated_of db (node_id nd) of Some i \<Rightarrow> i | None \<Rightarrow> {}));
            pool = filter (\<lambda>c. c \<notin> insert 0 band) [0..n_cpus - 1]
        in if pool \<noteq> [] then fmt_cpuset (set pool) else [])"

subsection \<open>Writing the pool of a node\<close>

definition set_node_setting :: "pool_db \<Rightarrow> int \<Rightarrow> string \<Rightarrow> sval \<Rightarrow> pool_db" where
  "set_node_setting db nid k v = db\<lparr>node_settings := dict_put (nid, k) v (node_settings db)\<rparr>"

definition node_label :: "node \<Rightarrow> pval" where
  "node_label nd = (if node_name nd = [] then PInt (node_id nd) else PStr (node_name nd))"

definition ensure_compute_cpuset :: "pool_db \<Rightarrow> int \<Rightarrow> int \<Rightarrow> cpu_map \<Rightarrow> pool_db \<times> string" where
  "ensure_compute_cpuset db nid n_cpus core_of =
     (case db_get_node db nid of
        None \<Rightarrow> (db, [])
      | Some nd \<Rightarrow>
          let cur = py_strip (compute_cpuset nd) in
          if cur \<noteq> [] then (db, cur)
          else
            let cpuset = pool_par_defaut db nd n_cpus core_of None in
            if cpuset = [] then (db, [])
            else
              let db1 = db_update_cpuset db nid cpuset;
                  db2 = set_node_setting db1 nid ''compute_cpuset_auto'' (SText cpuset);
                  cle = (if core_of \<noteq> [] then ''alert.prep.isolation_derivee_ht''
                         else ''alert.prep.isolation_derivee'')
              in (add_alert cle ''info'' (Some nid) None ''prep''
                    [(''n'', node_label nd), (''cpuset'', PStr cpuset), (''n_cpus'', PInt n_cpus)] db2,
                  cpuset))"

definition sval_text :: "sval option \<Rightarrow> string" where
  "sval_text v = (case v of Some (SText s) \<Rightarrow> s | _ \<Rightarrow> [])"

definition rederiver_si_auto :: "pool_db \<Rightarrow> int \<Rightarrow> int \<Rightarrow> cpu_map \<Rightarrow> pool_db \<times> string" where
  "rederiver_si_auto db nid n_cpus core_of =
     (case db_get_node db nid of
        None \<Rightarrow> (db, [])
      | Some nd \<Rightarrow>
          let cur = py_strip (compute_cpuset nd);
              memo = py_strip (sval_text (map_of (node_settings db) (nid, ''compute_cpuset_auto'')))
          in if cur \<noteq> [] \<and> cur \<noteq> memo then (db, cur)
          else
            let neuf = pool_par_defaut db nd n_cpus core_of None in
            if neuf = [] \<or> neuf = cur then (db, cur)
            else
              let db1 = db_update_cpuset db nid neuf;
                  db2 = set_node_setting db1 nid ''compute_cpuset_auto'' (SText neuf)
              in (add_alert ''alert.prep.pool_coeurs_rederive'' ''info'' (Some nid) None ''prep''
                    [(''n'', node_label nd), (''cur'', PStr (if cur = [] then em_dash else cur)),
                     (''neuf'', PStr neuf)] db2,
                  neuf))"

subsection \<open>Schedulable cores\<close>

definition ordonnancables :: "pool_db \<Rightarrow> int \<Rightarrow> int set \<Rightarrow> int set" where
  "ordonnancables db nid cores =
     (case isolated_of db nid of None \<Rightarrow> cores | Some band \<Rightarrow> cores - band)"

subsection \<open>Facts\<close>

lemma parse_derive:
  assumes "0 < n"
  shows "parse_cpuset (derive_compute_cpuset db n core_of) =
           {0..<n} - fst (engine_cpu_footprint db n core_of)"
proof -
  let ?m = "fst (engine_cpu_footprint db n core_of)"
  let ?pool = "filter (\<lambda>c. c \<notin> ?m) [0..n - 1]"
  have s: "set ?pool = {0..<n} - ?m" by auto
  have "\<forall>c \<in> set ?pool. 0 \<le> c" by simp
  then have "parse_cpuset (fmt_cpuset (set ?pool)) = set ?pool" by (rule parse_fmt_cpuset [OF finite_set])
  moreover have "?pool = [] \<Longrightarrow> set ?pool = {}" by simp
  ultimately show ?thesis using assms s
    by (cases "?pool = []") (simp_all add: derive_compute_cpuset_def Let_def)
qed

lemma with_siblings_closed:
  assumes "distinct (map fst core_of)"
    and "d \<in> with_siblings core_of S" and "map_of core_of d = Some p" and "map_of core_of c = Some p"
  shows "c \<in> with_siblings core_of S"
  using assms by (auto simp: with_siblings_def threads_on_iff phys_of_iff)

lemma with_siblings_mono: "A \<subseteq> B \<Longrightarrow> with_siblings m A \<subseteq> with_siblings m B"
  using phys_of_mono [of A B m] by (auto simp: with_siblings_def threads_on_def)

lemma clip_cpus_iff: "c \<in> clip_cpus n S \<longleftrightarrow> c \<in> S \<and> (n = 0 \<or> 0 \<le> c \<and> c < n)"
  by (auto simp: clip_cpus_def)

end
