(* ===== verification/Pool_Numa.thy ===== *)
theory Pool_Numa
  imports Pool_Topology "HOL-Library.Product_Lexorder"
begin

text \<open>
  Choosing cores inside one NUMA node (\<open>_choisir_numa\<close>), grading a placement (\<open>_score_placement\<close>)
  and describing it (\<open>_libelle_placement\<close>), from \<open>app/core_pool.py\<close>.  The three are pure.
\<close>

record motif =
  mo_key :: string
  mo_params :: "(string \<times> pval) list"

text \<open>\<open>par_numa\<close>: the cores of \<open>free\<close> grouped by NUMA node, in the order they are met.\<close>

definition numa_groups :: "cpu_map \<Rightarrow> int list \<Rightarrow> (int \<times> int list) list" where
  "numa_groups numa_of free =
     fold (\<lambda>c d. case map_of numa_of c of None \<Rightarrow> d | Some nd \<Rightarrow> dict_push nd c d) free []"

definition group_of :: "(int \<times> int list) list \<Rightarrow> int \<Rightarrow> int list" where
  "group_of d nd = (case map_of d nd of None \<Rightarrow> [] | Some cs \<Rightarrow> cs)"

text \<open>\<open>_prendre(nd)\<close>: the prioritary cores of \<open>nd\<close> first, then the others by weight.\<close>

definition prendre_tout :: "(int \<times> int list) list \<Rightarrow> (int \<times> int list) list \<Rightarrow> int set \<Rightarrow>
    (int \<Rightarrow> rat) \<Rightarrow> int \<Rightarrow> int list" where
  "prendre_tout par_numa par_prio prio poids nd =
     sort (group_of par_prio nd) @
     sort_key (\<lambda>c. (poids c, c)) (sorted_list_of_set (set (group_of par_numa nd) - prio))"

definition prendre :: "(int \<times> int list) list \<Rightarrow> (int \<times> int list) list \<Rightarrow> int set \<Rightarrow>
    (int \<Rightarrow> rat) \<Rightarrow> nat \<Rightarrow> int \<Rightarrow> int list" where
  "prendre par_numa par_prio prio poids n nd = take n (prendre_tout par_numa par_prio prio poids nd)"

definition candidats :: "(int \<times> int list) list \<Rightarrow> nat \<Rightarrow> int list" where
  "candidats par n =
     sort_key (\<lambda>nd. (- int (length (group_of par nd)), nd))
       (map fst (filter (\<lambda>g. n \<le> length (snd g)) par))"

definition motif_plat :: "nat \<Rightarrow> motif" where
  "motif_plat n = \<lparr>mo_key = ''alert.resource.pinning_topologie_plate'',
                   mo_params = [(''ncores'', PInt (int n))]\<rparr>"

definition motif_repli :: "int \<Rightarrow> nat \<Rightarrow> int \<Rightarrow> motif" where
  "motif_repli prefer n nd = \<lparr>mo_key = ''alert.resource.pinning_repli_numa'',
     mo_params = [(''prefer_numa'', PInt prefer), (''ncores'', PInt (int n)), (''nd'', PInt nd)]\<rparr>"

definition motif_cheval :: "nat \<Rightarrow> motif" where
  "motif_cheval n = \<lparr>mo_key = ''alert.resource.pinning_a_cheval'',
                     mo_params = [(''ncores'', PInt (int n))]\<rparr>"

definition choisir_numa :: "int list \<Rightarrow> nat \<Rightarrow> cpu_map \<Rightarrow> int option \<Rightarrow> int set \<Rightarrow>
    (int \<Rightarrow> rat) \<Rightarrow> int list \<times> motif option" where
  "choisir_numa free n numa_of prefer prio poids =
     (if numa_of = [] then (take n free, Some (motif_plat n))
      else
        let par_numa = numa_groups numa_of free;
            par_prio = numa_groups numa_of (filter (\<lambda>c. c \<in> prio) free);
            pr = prendre par_numa par_prio prio poids n;
            ok_prio = (case prefer of None \<Rightarrow> False | Some q \<Rightarrow> n \<le> length (group_of par_prio q));
            ok_any = (case prefer of None \<Rightarrow> False | Some q \<Rightarrow> n \<le> length (group_of par_numa q));
            cand1 = candidats par_prio n
        in if ok_prio then (pr (the prefer), None)
           else if cand1 = [] \<and> ok_any then (pr (the prefer), None)
           else
             let cand = (if cand1 = [] then candidats par_numa n else cand1)
             in (case cand of
                   nd # _ \<Rightarrow>
                     (pr nd,
                      (case prefer of
                         None \<Rightarrow> None
                       | Some q \<Rightarrow> if nd = q then None else Some (motif_repli q n nd)))
                 | [] \<Rightarrow> (take n free, Some (motif_cheval n))))"

definition score_placement :: "int set \<Rightarrow> cpu_map \<Rightarrow> int option \<Rightarrow> nat" where
  "score_placement cores numa_of prefer =
     (if numa_of = [] \<or> cores = {} then 0
      else
        let nds = map_of numa_of ` cores;
            entier = (card nds = 1 \<and> None \<notin> nds)
        in (case prefer of
              None \<Rightarrow> if entier then 0 else 3
            | Some q \<Rightarrow>
                let touche = Some q \<in> nds
                in if entier then (if touche then 0 else 2) else (if touche then 1 else 3)))"

subsection \<open>Describing a placement\<close>

definition oe_lig :: string where "oe_lig = [CHR 0xC5, CHR 0x93]"
definition a_grave :: string where "a_grave = [CHR 0xC3, CHR 0xA0]"
definition e_acute :: string where "e_acute = [CHR 0xC3, CHR 0xA9]"

definition libelle_placement :: "int set \<Rightarrow> cpu_map \<Rightarrow> int option \<Rightarrow> string" where
  "libelle_placement cores numa_of prefer =
     (if numa_of = [] \<or> cores = {} then ''topologie NUMA illisible''
      else
        let nds = sorted_list_of_set (phys_of numa_of cores);
            inconnus = (Set.filter (\<lambda>c. map_of numa_of c = None) cores \<noteq> {})
        in if nds = [] then ''n'' @ oe_lig @ ''ud NUMA inconnu''
           else
             let ou0 = (case nds of
                          [x] \<Rightarrow> ''n'' @ oe_lig @ ''ud NUMA '' @ str_int x
                        | _ \<Rightarrow> a_grave @ '' cheval sur les n'' @ oe_lig @ ''uds NUMA '' @
                               join_with '' et '' (map str_int nds));
                 ou = (if inconnus
                       then ou0 @ '' (+ c'' @ oe_lig @ ''urs de n'' @ oe_lig @ ''ud inconnu)'' else ou0)
             in (case prefer of
                   None \<Rightarrow> ou
                 | Some q \<Rightarrow>
                     if nds = [q] then ou @ '' '' @ em_dash @ '' celui vis'' @ e_acute
                     else if q \<in> set nds
                     then ou @ '' '' @ em_dash @ '' dont celui vis'' @ e_acute @ '' ('' @ str_int q @ '')''
                     else ou @ '' '' @ em_dash @ '' SANS le socket vis'' @ e_acute @ '' ('' @ str_int q @ '')''))"

subsection \<open>Groups\<close>

lemma group_numa_groups [simp]:
  "group_of (numa_groups m free) nd = filter (\<lambda>c. map_of m c = Some nd) free"
proof -
  have "group_of (fold (\<lambda>c d. case map_of m c of None \<Rightarrow> d | Some k \<Rightarrow> dict_push k c d) free d0) nd =
          group_of d0 nd @ filter (\<lambda>c. map_of m c = Some nd) free" for d0
    by (induction free arbitrary: d0)
      (auto simp: group_of_def map_of_dict_push split: option.splits)
  then show ?thesis by (simp add: numa_groups_def group_of_def)
qed

lemma distinct_numa_groups: "distinct (map fst (numa_groups m free))"
proof -
  have "distinct (map fst (fold (\<lambda>c d. case map_of m c of None \<Rightarrow> d | Some k \<Rightarrow> dict_push k c d) free d0))"
    if "distinct (map fst d0)" for d0 :: "(int \<times> int list) list"
    using that
  proof (induction free arbitrary: d0)
    case (Cons c free)
    have "distinct (map fst (case map_of m c of None \<Rightarrow> d0 | Some k \<Rightarrow> dict_push k c d0))"
      using Cons.prems by (simp add: dict_push_def distinct_dict_put split: option.split)
    then show ?case using Cons.IH by simp
  qed simp
  then show ?thesis by (simp add: numa_groups_def)
qed

lemma numa_groups_item:
  "(nd, cs) \<in> set (numa_groups m free) \<Longrightarrow> cs = filter (\<lambda>c. map_of m c = Some nd) free"
  using group_numa_groups [of m free nd] distinct_numa_groups [of m free]
  by (simp add: group_of_def map_of_is_SomeI)

lemma numa_groups_key:
  "filter (\<lambda>c. map_of m c = Some nd) free \<noteq> [] \<Longrightarrow> nd \<in> fst ` set (numa_groups m free)"
  using group_numa_groups [of m free nd]
  by (auto simp: group_of_def split: option.splits dest: map_of_SomeD intro: rev_image_eqI)

lemma candidats_iff:
  "0 < n \<Longrightarrow> nd \<in> set (candidats (numa_groups m free) n) \<longleftrightarrow>
     n \<le> length (filter (\<lambda>c. map_of m c = Some nd) free)"
proof -
  assume "0 < n"
  then have "n \<le> length (filter (\<lambda>c. map_of m c = Some nd) free) \<Longrightarrow>
      nd \<in> fst ` set (numa_groups m free)"
    by (intro numa_groups_key) auto
  then show ?thesis
    by (force simp: candidats_def dest: numa_groups_item)
qed

subsection \<open>What \<open>prendre\<close> takes\<close>

lemma prendre_full:
  assumes "distinct free" and "prio \<subseteq> set free"
  shows "distinct (prendre_tout (numa_groups m free) (numa_groups m (filter (\<lambda>c. c \<in> prio) free)) prio poids nd)"
    and "set (prendre_tout (numa_groups m free) (numa_groups m (filter (\<lambda>c. c \<in> prio) free)) prio poids nd) =
         {c \<in> set free. map_of m c = Some nd}"
  using assms by (auto simp: prendre_tout_def)

lemma prendre_facts:
  assumes "distinct free" and "prio \<subseteq> set free"
    and r: "r = prendre (numa_groups m free) (numa_groups m (filter (\<lambda>c. c \<in> prio) free)) prio poids n nd"
  shows "distinct r" and "set r \<subseteq> {c \<in> set free. map_of m c = Some nd}"
    and "n \<le> length (filter (\<lambda>c. map_of m c = Some nd) free) \<Longrightarrow> length r = n"
proof -
  let ?a = "prendre_tout (numa_groups m free) (numa_groups m (filter (\<lambda>c. c \<in> prio) free)) prio poids nd"
  note f = prendre_full [OF assms(1,2), of m poids nd]
  have rt: "r = take n ?a" using r by (simp add: prendre_def)
  show "distinct r" using f(1) rt by simp
  show "set r \<subseteq> {c \<in> set free. map_of m c = Some nd}"
    using f(2) rt set_take_subset by metis
  have "length ?a = card {c \<in> set free. map_of m c = Some nd}"
    using f by (metis distinct_card)
  also have "\<dots> = length (filter (\<lambda>c. map_of m c = Some nd) free)"
    using assms(1) by (metis distinct_card distinct_filter set_filter)
  finally show "n \<le> length (filter (\<lambda>c. map_of m c = Some nd) free) \<Longrightarrow> length r = n"
    using rt by simp
qed

lemma prendre_strict:
  assumes "prio = set free"
  shows "prendre (numa_groups m free) (numa_groups m (filter (\<lambda>c. c \<in> prio) free)) prio poids n nd =
         take n (sort (filter (\<lambda>c. map_of m c = Some nd) free))"
proof -
  have e: "set (filter (\<lambda>c. map_of m c = Some nd) free) - prio = {}" using assms by auto
  have f: "filter (\<lambda>c. c \<in> prio) free = free" using assms by simp
  show ?thesis unfolding prendre_def prendre_tout_def f group_numa_groups e by simp
qed

subsection \<open>What \<open>choisir_numa\<close> returns\<close>

lemma choisir_numa_cases:
  assumes "choisir_numa free n m prefer prio poids = (r, mo)"
  obtains "r = take n free" and "0 < n \<Longrightarrow> \<forall>nd. \<not> n \<le> length (filter (\<lambda>c. map_of m c = Some nd) free)"
  | nd where "r = prendre (numa_groups m free) (numa_groups m (filter (\<lambda>c. c \<in> prio) free)) prio poids n nd"
      and "0 < n \<Longrightarrow> n \<le> length (filter (\<lambda>c. map_of m c = Some nd) free)"
proof -
  let ?pr = "\<lambda>nd. prendre (numa_groups m free) (numa_groups m (filter (\<lambda>c. c \<in> prio) free)) prio poids n nd"
  let ?big = "\<lambda>nd. n \<le> length (filter (\<lambda>c. map_of m c = Some nd) free)"
  have sub: "length (filter (\<lambda>c. map_of m c = Some nd) (filter (\<lambda>c. c \<in> prio) free))
      \<le> length (filter (\<lambda>c. map_of m c = Some nd) free)" for nd
  proof -
    have "filter (\<lambda>c. map_of m c = Some nd) (filter (\<lambda>c. c \<in> prio) free) =
        filter (\<lambda>c. c \<in> prio) (filter (\<lambda>c. map_of m c = Some nd) free)"
      by (simp add: conj_commute)
    then show ?thesis by (metis length_filter_le)
  qed
  have c1: "?big nd" if "0 < n" "nd \<in> set (candidats (numa_groups m (filter (\<lambda>c. c \<in> prio) free)) n)" for nd
    by (rule order_trans [OF iffD1 [OF candidats_iff [OF that(1)] that(2)] sub])
  have c2: "?big nd" if "0 < n" "nd \<in> set (candidats (numa_groups m free) n)" for nd
    using that by (simp only: candidats_iff)
  let ?pp = "numa_groups m (filter (\<lambda>c. c \<in> prio) free)" and ?pn = "numa_groups m free"
  have none: "\<forall>nd. \<not> ?big nd" if "0 < n" "m = [] \<or> candidats ?pn n = []"
  proof (intro allI notI)
    fix nd assume big: "?big nd"
    with that(1) have "m \<noteq> []" by auto
    with that(2) have "candidats ?pn n = []" by simp
    with candidats_iff [OF that(1), of nd m free] big show False by simp
  qed
  have "(r = take n free \<and> (m = [] \<or> candidats ?pn n = []))
      \<or> (\<exists>q. n \<le> length (group_of ?pp q) \<and> r = ?pr q)
      \<or> (\<exists>q. n \<le> length (group_of ?pn q) \<and> r = ?pr q)
      \<or> (\<exists>nd. nd \<in> set (candidats ?pp n) \<union> set (candidats ?pn n) \<and> r = ?pr nd)"
    using assms
    by (auto simp: choisir_numa_def Let_def simp del: group_numa_groups
        split: if_splits option.splits list.splits)
  then have "(r = take n free \<and> (0 < n \<longrightarrow> (\<forall>nd. \<not> ?big nd))) \<or> (\<exists>nd. r = ?pr nd \<and> (0 < n \<longrightarrow> ?big nd))"
    using c1 c2 sub none by (metis UnE group_numa_groups order_trans)
  then show thesis using that by blast
qed

lemma choisir_numa_facts:
  assumes "choisir_numa free n m prefer prio poids = (r, mo)" and "0 < n"
    and "distinct free" and "prio \<subseteq> set free"
  shows "distinct r" and "set r \<subseteq> set free" and "n \<le> length free \<Longrightarrow> length r = n"
proof -
  have "distinct r \<and> set r \<subseteq> set free \<and> (n \<le> length free \<longrightarrow> length r = n)"
    using assms(1)
  proof (cases rule: choisir_numa_cases)
    case 1
    then show ?thesis using assms(3) by (auto dest: in_set_takeD)
  next
    case (2 nd)
    note f = prendre_facts [OF assms(3,4) 2(1)]
    show ?thesis using f 2(2) [OF assms(2)] by blast
  qed
  then show "distinct r" and "set r \<subseteq> set free" and "n \<le> length free \<Longrightarrow> length r = n" by blast+
qed

text \<open>Under the strict rule every candidate is prioritary, and the weight of a core is never read.\<close>

lemma choisir_numa_poids:
  "choisir_numa free n m prefer (set free) p1 = choisir_numa free n m prefer (set free) p2"
  unfolding choisir_numa_def Let_def prendre_strict [OF refl] by (rule refl)

end
