(* ===== verification/Pool_Alloc.thy ===== *)
theory Pool_Alloc
  imports Pool_Numa
begin

text \<open>
  The core allocator (\<open>allocate_cores\<close>), the release of cores, the purge of orphan reservations
  and the reservation of the engine's cores (\<open>reserve_engine_cores\<close>), from \<open>app/core_pool.py\<close>.
  Every operation takes the database and returns the updated one; the critical section of
  \<open>_alloc_lock\<close> is one step.
\<close>

named_theorems alloc_facts \<open>facts on the helpers of the allocator\<close>

subsection \<open>Release and orphans\<close>

definition release_cores :: "int \<Rightarrow> pool_db \<Rightarrow> pool_db" where
  "release_cores v db = db\<lparr>core_alloc := delete_vmid_rows v (core_alloc db)\<rparr>"

definition allocated_for :: "pool_db \<Rightarrow> int \<Rightarrow> int \<Rightarrow> nat" where
  "allocated_for db nid v = length (filter (\<lambda>(n, c, w). n = nid \<and> w = v) (core_alloc db))"

definition allocations_by_vmid :: "pool_db \<Rightarrow> int \<Rightarrow> (int \<times> int list) list" where
  "allocations_by_vmid db nid =
     map (\<lambda>(v, cs). (v, sort cs)) (fold (\<lambda>(c, v) d. dict_push v c d) (allocated db nid) [])"

definition reservations_orphelines :: "pool_db \<Rightarrow> int \<Rightarrow> (int \<times> int list) list" where
  "reservations_orphelines db nid =
     (let par_vmid = allocations_by_vmid db nid in
      if par_vmid = [] then []
      else
        let vivants = ct_vmid ` set (containers db)
        in filter (\<lambda>(v, cs). v \<notin> vivants \<and> cs \<noteq> []) par_vmid)"

definition purger_orphelines :: "pool_db \<Rightarrow> int \<Rightarrow> pool_db \<times> (int \<times> int list) list" where
  "purger_orphelines db nid =
     (let orph = reservations_orphelines db nid in
      if orph = [] then (db, [])
      else
        let db1 = fold (\<lambda>(v, cs). release_cores v) orph db
        in (add_alert ''alert.resource.cores_orphelins_purges'' ''warning'' (Some nid) None ''resource''
              [(''n'', node_name_or db1 nid),
               (''count'', PInt (int (sum_list (map (\<lambda>(v, cs). length cs) orph)))),
               (''vmids'', PStr (join_with '', '' (map str_int (sort (map fst orph))))),
               (''cores'', PStr (fmt_cpuset (\<Union>(set ` snd ` set orph))))] db1,
            orph))"

subsection \<open>Helpers of \<open>allocate_cores\<close>\<close>

definition poids_coeur :: "pool_db \<Rightarrow> cpu_map \<Rightarrow> (int \<times> int) list \<Rightarrow> int \<Rightarrow> int \<Rightarrow> rat" where
  "poids_coeur db core_of alloc vmid c =
     (if core_of = [] then 0
      else (case map_of core_of c of
              None \<Rightarrow> 0
            | Some phys \<Rightarrow>
                (case find (\<lambda>(cc, vv). vv \<noteq> vmid \<and> map_of core_of cc = Some phys) alloc of
                   None \<Rightarrow> 0
                 | Some (cc, vv) \<Rightarrow>
                     (case own_latency db vv of
                        Some l \<Rightarrow> if l = 0 then 10 else l
                      | None \<Rightarrow> 10))))"

text \<open>The cores of \<open>libres\<close> whose hyper-threading sibling no other container holds.\<close>

definition phys_libres :: "cpu_map \<Rightarrow> (int \<times> int) list \<Rightarrow> int \<Rightarrow> int set \<Rightarrow> int set" where
  "phys_libres core_of alloc vmid libres =
     (if core_of = [] then libres
      else
        let pris = phys_of core_of (fst ` Set.filter (\<lambda>cv. snd cv \<noteq> vmid) (set alloc))
        in Set.filter (\<lambda>c. case map_of core_of c of None \<Rightarrow> True | Some p \<Rightarrow> p \<notin> pris) libres)"

definition tenants :: "cpu_map \<Rightarrow> (int \<times> int) list \<Rightarrow> int \<Rightarrow> int set \<Rightarrow> int set" where
  "tenants core_of alloc vmid cores =
     (if core_of = [] then {}
      else
        let phys = phys_of core_of cores
        in snd ` Set.filter (\<lambda>cv. snd cv \<noteq> vmid \<and>
              (case map_of core_of (fst cv) of None \<Rightarrow> False | Some p \<Rightarrow> p \<in> phys)) (set alloc))"

definition strict_pick :: "int list \<Rightarrow> nat \<Rightarrow> cpu_map \<Rightarrow> int option \<Rightarrow> (int \<Rightarrow> rat) \<Rightarrow>
    int list \<times> motif option" where
  "strict_pick cands n numa_of prefer poids =
     (if numa_of = [] then (take n cands, None)
      else choisir_numa cands n numa_of prefer (set cands) poids)"

definition alerter_motif :: "int \<Rightarrow> int \<Rightarrow> motif option \<Rightarrow> pool_db \<Rightarrow> pool_db" where
  "alerter_motif nid vmid mo db =
     (case mo of
        None \<Rightarrow> db
      | Some m \<Rightarrow>
          add_alert (mo_key m) ''warning'' (Some nid) (Some vmid) ''resource''
            (mo_params m @ [(''noms'', PStr (noms_vmids db {vmid})), (''n'', node_name_get db nid)]) db)"

text \<open>
  The rows of \<open>vmid\<close> are deleted (on every node), then its new cores inserted.  Nothing catches a
  key violation here: it would undo the transaction and leave through the caller (\<open>None\<close>).
\<close>

definition replace_rows :: "int \<Rightarrow> int \<Rightarrow> int list \<Rightarrow> pool_db \<Rightarrow> pool_db option" where
  "replace_rows nid vmid cs db =
     (case insert_rows (delete_vmid_rows vmid (core_alloc db)) (map (\<lambda>c. (nid, c, vmid)) cs) of
        (t, ok) \<Rightarrow> if ok then Some (db\<lparr>core_alloc := t\<rparr>) else None)"

subsection \<open>A container that already holds cores\<close>

definition reexamine :: "pool_db \<Rightarrow> int \<Rightarrow> int \<Rightarrow> nat \<Rightarrow> int set \<Rightarrow> int option \<Rightarrow>
    pool_db \<times> (pool_error + string option)" where
  "reexamine db nid vmid n pool prefer =
     (let alloc = allocated db nid;
          numa_of = numa_maps db nid;
          core_of = core_maps db nid;
          poids = poids_coeur db core_of alloc vmid;
          mine = cores_of db nid vmid;
          score_actuel = score_placement mine numa_of prefer;
          cand = sorted_list_of_set
                   (phys_libres core_of alloc vmid ((pool - fst ` set alloc) \<union> mine));
          partage_ht = (if core_of = [] then {} else mine - phys_libres core_of alloc vmid mine)
      in if partage_ht \<noteq> {} then
           let voisins = tenants core_of alloc vmid partage_ht in
           if n \<le> length cand then
             let (sans, mo) = strict_pick cand n numa_of prefer poids in
             (case replace_rows nid vmid sans db of
                None \<Rightarrow> (db, Inl IntegrityError)
              | Some db0 \<Rightarrow>
                  let db1 = alerter_motif nid vmid mo db0
                  in (add_alert ''alert.resource.pinning_ht_corrected'' ''info'' (Some nid) (Some vmid) ''resource''
                        [(''noms'', PStr (noms_vmids db1 {vmid})), (''n'', node_name_get db1 nid),
                         (''avant'', PStr (fmt_cpuset mine)), (''apres'', PStr (fmt_cpuset (set sans))),
                         (''voisins'', PStr (noms_vmids db1 voisins))] db1,
                      Inr (Some (fmt_cpuset (set sans)))))
           else
             let db1 = db\<lparr>core_alloc := delete_vmid_rows vmid (core_alloc db)\<rparr>
             in (add_alert ''alert.resource.pinning_ht_released'' ''warning'' (Some nid) (Some vmid) ''resource''
                   [(''noms'', PStr (noms_vmids db1 {vmid})), (''n'', node_name_get db1 nid),
                    (''avant'', PStr (fmt_cpuset mine)), (''demandes'', PInt (int n)),
                    (''possibles'', PInt (int (length cand))),
                    (''manquants'', PInt (int n - int (length cand))),
                    (''voisins'', PStr (noms_vmids db1 voisins))] db1,
                 Inr None)
         else if score_actuel = 0 \<or> card mine \<noteq> n \<or> length cand < n then (db, Inr (Some (fmt_cpuset mine)))
         else
           let mieux = fst (strict_pick cand n numa_of prefer poids);
               score_mieux = score_placement (set mieux) numa_of prefer
           in if score_actuel \<le> score_mieux then (db, Inr (Some (fmt_cpuset mine)))
              else
                (case replace_rows nid vmid mieux db of
                   None \<Rightarrow> (db, Inl IntegrityError)
                 | Some db1 \<Rightarrow>
                     (add_alert ''alert.resource.pinning_corrige'' ''info'' (Some nid) (Some vmid) ''resource''
                        [(''noms'', PStr (noms_vmids db1 {vmid})), (''n'', node_name_get db1 nid),
                         (''avant'', PStr (fmt_cpuset mine)), (''apres'', PStr (fmt_cpuset (set mieux))),
                         (''lib_apres'', PStr (libelle_placement (set mieux) numa_of prefer)),
                         (''lib_avant'', PStr (libelle_placement mine numa_of prefer))] db1,
                      Inr (Some (fmt_cpuset (set mieux))))))"

subsection \<open>A container that holds none\<close>

definition allocate_fresh :: "pool_db \<Rightarrow> int \<Rightarrow> int \<Rightarrow> nat \<Rightarrow> int set \<Rightarrow> int option \<Rightarrow>
    pool_db \<times> (pool_error + string option)" where
  "allocate_fresh db nid vmid n pool prefer =
     (let alloc = allocated db nid;
          numa_of = numa_maps db nid;
          core_of = core_maps db nid;
          poids = poids_coeur db core_of alloc vmid;
          free0 = pool - fst ` set alloc
      in if card free0 < n then
           (add_alert ''alert.resource.pinning_repli_quota'' ''warning'' (Some nid) (Some vmid) ''resource''
              [(''n'', node_name_get db nid), (''libres'', PInt (int (card free0))),
               (''pool'', PInt (int (card pool))), (''demandes'', PInt (int n)), (''vmid'', PInt vmid)] db,
            Inr None)
         else
           let conformes = phys_libres core_of alloc vmid free0 in
           if core_of \<noteq> [] \<and> card conformes < n then
             let bloques = free0 - conformes
             in (add_alert ''alert.resource.pinning_repli_ht'' ''warning'' (Some nid) (Some vmid) ''resource''
                   [(''noms'', PStr (noms_vmids db {vmid})), (''n'', node_name_get db nid),
                    (''demandes'', PInt (int n)), (''libres'', PInt (int (card free0))),
                    (''possibles'', PInt (int (card conformes))),
                    (''manquants'', PInt (int n - int (card conformes))),
                    (''freres'', PStr (fmt_cpuset bloques)),
                    (''voisins'', PStr (noms_vmids db (tenants core_of alloc vmid bloques)))] db,
                 Inr None)
           else
             let free = sorted_list_of_set conformes;
                 (pick, mo) = strict_pick free n numa_of prefer poids;
                 db1 = alerter_motif nid vmid mo db;
                 (t, ok) = insert_rows (core_alloc db1) (map (\<lambda>c. (nid, c, vmid)) pick);
                 db2 = db1\<lparr>core_alloc := t\<rparr>
             in if \<not> ok then
                  (add_alert ''alert.resource.pinning_collision'' ''warning'' (Some nid) (Some vmid) ''resource''
                     [(''node_id'', PInt nid), (''vmid'', PInt vmid)] db2,
                   Inr None)
                else (db2, Inr (Some (fmt_cpuset (set pick)))))"

subsection \<open>\<open>allocate_cores\<close>\<close>

definition allocate_cores :: "pool_db \<Rightarrow> int \<Rightarrow> int \<Rightarrow> int \<Rightarrow> int option \<Rightarrow>
    pool_db \<times> (pool_error + string option)" where
  "allocate_cores db nid vmid n prefer =
     (if n \<le> 0 \<or> nid = 0 then (db, Inr None)
      else
        let pool = parse_cpuset (node_cpuset db nid) in
        if pool = {} then (db, Inr None)
        else
          let db0 = fst (purger_orphelines db nid) in
          if cores_of db0 nid vmid \<noteq> {} then reexamine db0 nid vmid (nat n) pool prefer
          else allocate_fresh db0 nid vmid (nat n) pool prefer)"

subsection \<open>Facts on the helpers\<close>

text \<open>No container but \<open>v\<close> holds a sibling of \<open>c\<close>: what the strict rule asks of a core.\<close>

definition exclusive_core :: "cpu_map \<Rightarrow> (int \<times> int) list \<Rightarrow> int \<Rightarrow> int \<Rightarrow> bool" where
  "exclusive_core core_of alloc v c =
     (\<forall>(d, w) \<in> set alloc. w \<noteq> v \<longrightarrow> map_of core_of c \<noteq> None \<longrightarrow> map_of core_of d \<noteq> map_of core_of c)"

lemma phys_libres_iff [alloc_facts]:
  "c \<in> phys_libres core_of alloc v S \<longleftrightarrow> c \<in> S \<and> exclusive_core core_of alloc v c"
proof (cases "core_of = []")
  case False
  show ?thesis
  proof (cases "map_of core_of c")
    case (Some p)
    have "p \<in> phys_of core_of (fst ` Set.filter (\<lambda>cv. snd cv \<noteq> v) (set alloc)) \<longleftrightarrow>
        (\<exists>(d, w) \<in> set alloc. w \<noteq> v \<and> map_of core_of d = Some p)"
      by (force simp: phys_of_iff)
    with False Some show ?thesis by (auto simp: phys_libres_def exclusive_core_def)
  qed (use False in \<open>auto simp: phys_libres_def exclusive_core_def\<close>)
qed (auto simp: phys_libres_def exclusive_core_def)

lemma phys_libres_subset [alloc_facts]: "phys_libres core_of alloc v S \<subseteq> S"
  by (auto simp: phys_libres_iff)

lemma finite_phys_libres [simp]: "finite S \<Longrightarrow> finite (phys_libres core_of alloc v S)"
  by (rule finite_subset [OF phys_libres_subset])

lemma strict_pick_facts:
  assumes "strict_pick (sorted_list_of_set A) n numa_of prefer poids = (r, mo)"
    and "0 < n" and "finite A" and "n \<le> card A"
  shows "distinct r" and "set r \<subseteq> A" and "length r = n"
proof -
  have "distinct r \<and> set r \<subseteq> A \<and> length r = n"
  proof (cases "numa_of = []")
    case True
    with assms have "r = take n (sorted_list_of_set A)" by (simp add: strict_pick_def)
    with assms show ?thesis by (simp add: set_take_sorted_list)
  next
    case False
    with assms(1) have "choisir_numa (sorted_list_of_set A) n numa_of prefer
        (set (sorted_list_of_set A)) poids = (r, mo)" by (simp add: strict_pick_def)
    from choisir_numa_facts [OF this assms(2)] assms show ?thesis by simp
  qed
  then show "distinct r" and "set r \<subseteq> A" and "length r = n" by blast+
qed

lemma alerter_motif_frame [simp, frame]:
  "core_alloc (alerter_motif nid v mo db) = core_alloc db"
  "allocated (alerter_motif nid v mo db) k = allocated db k"
  "cores_of (alerter_motif nid v mo db) k w = cores_of db k w"
  "nodes (alerter_motif nid v mo db) = nodes db"
  "containers (alerter_motif nid v mo db) = containers db"
  "core_maps (alerter_motif nid v mo db) = core_maps db"
  "numa_maps (alerter_motif nid v mo db) = numa_maps db"
  "same_world a (alerter_motif nid v mo db) = same_world a db"
  by (simp_all add: alerter_motif_def split: option.split)

subsection \<open>Table updates\<close>

text \<open>
  The abstract effect of an operation on the reservations: the container \<open>v\<close> holds exactly \<open>S\<close> on
  the node, every other container holds what it held.
\<close>

definition reassigned :: "alloc_row list \<Rightarrow> int \<Rightarrow> int \<Rightarrow> int set \<Rightarrow> alloc_row list \<Rightarrow> bool" where
  "reassigned t nid v S t' =
     (pk_ok t' \<and> (\<forall>m c w. w \<noteq> v \<longrightarrow> ((m, c, w) \<in> set t' \<longleftrightarrow> (m, c, w) \<in> set t)) \<and>
      (\<forall>c. (nid, c, v) \<in> set t' \<longleftrightarrow> c \<in> S))"

lemma reassigned_same: "pk_ok (core_alloc db) \<Longrightarrow>
  reassigned (core_alloc db) nid v (cores_of db nid v) (core_alloc db)"
  by (simp add: reassigned_def cores_of_iff)

lemma reassigned_delete: "pk_ok t \<Longrightarrow> reassigned t nid v {} (delete_vmid_rows v t)"
  by (simp add: reassigned_def pk_ok_delete delete_vmid_rows_iff)

lemma insert_cores_ok:
  assumes "pk_ok t" and "distinct cs" and "\<forall>c \<in> set cs. \<forall>w. (nid, c, w) \<notin> set t"
  shows "insert_rows t (map (\<lambda>c. (nid, c, v)) cs) = (t @ map (\<lambda>c. (nid, c, v)) cs, True)"
    and "pk_ok (t @ map (\<lambda>c. (nid, c, v)) cs)"
proof -
  have d: "distinct (map row_key (map (\<lambda>c. (nid, c, v)) cs))"
    using assms(2) by (simp add: comp_def distinct_map inj_on_def)
  have dj: "set (map row_key (map (\<lambda>c. (nid, c, v)) cs)) \<inter> set (map row_key t) = {}"
    using assms(3) by fastforce
  show "insert_rows t (map (\<lambda>c. (nid, c, v)) cs) = (t @ map (\<lambda>c. (nid, c, v)) cs, True)"
    by (rule insert_rows_ok [OF d dj])
  show "pk_ok (t @ map (\<lambda>c. (nid, c, v)) cs)"
    using assms(1) d dj unfolding pk_ok_def map_append distinct_append by blast
qed

lemma replace_rows_ok:
  assumes "pk_ok (core_alloc db)" and "distinct cs"
    and "\<forall>c \<in> set cs. \<forall>w. (nid, c, w) \<in> set (core_alloc db) \<longrightarrow> w = v"
  obtains t where "replace_rows nid v cs db = Some (db\<lparr>core_alloc := t\<rparr>)"
    and "reassigned (core_alloc db) nid v (set cs) t"
proof -
  let ?t0 = "delete_vmid_rows v (core_alloc db)"
  have free: "\<forall>c \<in> set cs. \<forall>w. (nid, c, w) \<notin> set ?t0"
    using assms(3) by (auto simp: delete_vmid_rows_iff)
  note i = insert_cores_ok [OF pk_ok_delete [OF assms(1)] assms(2) free]
  show thesis
  proof (rule that)
    show "replace_rows nid v cs db =
        Some (db\<lparr>core_alloc := ?t0 @ map (\<lambda>c. (nid, c, v)) cs\<rparr>)"
      by (simp add: replace_rows_def i(1))
    show "reassigned (core_alloc db) nid v (set cs) (?t0 @ map (\<lambda>c. (nid, c, v)) cs)"
      using i(2) by (auto simp: reassigned_def delete_vmid_rows_iff)
  qed
qed

lemma reassigned_cores_of:
  "reassigned t nid v S (core_alloc db') \<Longrightarrow> cores_of db' nid v = S"
  by (auto simp: reassigned_def cores_of_iff)

lemma reassigned_exclusive:
  assumes "reassigned (core_alloc db) nid v S (core_alloc db')"
  shows "exclusive_core m (allocated db' nid) v c \<longleftrightarrow> exclusive_core m (allocated db nid) v c"
proof -
  have "\<And>d w. w \<noteq> v \<Longrightarrow> (d, w) \<in> set (allocated db' nid) \<longleftrightarrow> (d, w) \<in> set (allocated db nid)"
    using assms by (simp add: reassigned_def mem_allocated)
  then show ?thesis unfolding exclusive_core_def by blast
qed

subsection \<open>What a call of the allocator does\<close>

text \<open>
  The contract of the critical section: it never raises; it leaves the other containers alone; the
  container ends up with a set \<open>S\<close> of cores of the pool (or cores it already had), none of which has
  a sibling held by another container; the answer is the cpuset of \<open>S\<close>, and \<open>None\<close> exactly when \<open>S\<close>
  is empty.
\<close>

definition alloc_post :: "pool_db \<Rightarrow> int \<Rightarrow> int \<Rightarrow> nat \<Rightarrow> int set \<Rightarrow>
    pool_db \<times> (pool_error + string option) \<Rightarrow> int set \<Rightarrow> bool" where
  "alloc_post db nid v n pool out S =
     (reassigned (core_alloc db) nid v S (core_alloc (fst out)) \<and>
      (\<forall>c \<in> S. exclusive_core (core_maps db nid) (allocated db nid) v c) \<and>
      S \<subseteq> pool \<union> cores_of db nid v \<and>
      (S = {} \<or> S = cores_of db nid v \<or> card S = n) \<and>
      snd out = Inr (if S = {} then None else Some (fmt_cpuset S)) \<and>
      same_world db (fst out))"

lemma alloc_post_same:
  assumes "pk_ok (core_alloc db)" and "cores_of db nid v \<noteq> {}"
    and "\<forall>c \<in> cores_of db nid v. exclusive_core (core_maps db nid) (allocated db nid) v c"
  shows "alloc_post db nid v n pool (db, Inr (Some (fmt_cpuset (cores_of db nid v)))) (cores_of db nid v)"
  using assms by (auto simp: alloc_post_def reassigned_same)

lemma cand_owner:
  assumes "c \<in> (pool - fst ` set (allocated db nid)) \<union> cores_of db nid v"
    and "pk_ok (core_alloc db)" and "(nid, c, w) \<in> set (core_alloc db)"
  shows "w = v"
  using assms by (force simp: cores_of_iff mem_allocated [symmetric] dest: pk_owner_unique)

lemma alloc_post_replace:
  assumes pk: "pk_ok (core_alloc db)" and n: "0 < n" and fin: "finite pool"
    and cand: "A = phys_libres (core_maps db nid) (allocated db nid) v
                     ((pool - fst ` set (allocated db nid)) \<union> cores_of db nid v)"
    and le: "n \<le> card A"
    and pick: "strict_pick (sorted_list_of_set A) n numa_of prefer poids = (r, mo)"
  obtains t where "replace_rows nid v r db = Some (db\<lparr>core_alloc := t\<rparr>)"
    and "\<And>db'. core_alloc db' = t \<Longrightarrow> same_world db db' \<Longrightarrow>
           alloc_post db nid v n pool (db', Inr (Some (fmt_cpuset (set r)))) (set r)"
proof -
  have finA: "finite A" using fin cand by simp
  note p = strict_pick_facts [OF pick n finA le]
  have sub: "set r \<subseteq> (pool - fst ` set (allocated db nid)) \<union> cores_of db nid v"
    using p(2) phys_libres_subset cand by blast
  have own: "\<forall>c \<in> set r. \<forall>w. (nid, c, w) \<in> set (core_alloc db) \<longrightarrow> w = v"
    using sub pk by (blast intro: cand_owner)
  obtain t where t: "replace_rows nid v r db = Some (db\<lparr>core_alloc := t\<rparr>)"
    and re: "reassigned (core_alloc db) nid v (set r) t"
    by (rule replace_rows_ok [OF pk p(1) own])
  have ne: "set r \<noteq> {}" using p(3) n by auto
  have ex: "\<forall>c \<in> set r. exclusive_core (core_maps db nid) (allocated db nid) v c"
    using p(2) cand by (auto simp: phys_libres_iff)
  have card: "card (set r) = n" using p by (simp add: distinct_card)
  show thesis
  proof (rule that [OF t])
    fix db' assume "core_alloc db' = t" and "same_world db db'"
    then show "alloc_post db nid v n pool (db', Inr (Some (fmt_cpuset (set r)))) (set r)"
      using re ne ex card sub by (auto simp: alloc_post_def)
  qed
qed

lemma reexamine_post:
  assumes pk: "pk_ok (core_alloc db)" and n: "0 < n" and fin: "finite pool"
    and ne: "cores_of db nid v \<noteq> {}"
  shows "\<exists>S. alloc_post db nid v n pool (reexamine db nid v n pool prefer) S"
proof -
  let ?al = "allocated db nid" and ?m = "core_maps db nid" and ?mine = "cores_of db nid v"
  define A where "A = phys_libres ?m ?al v ((pool - fst ` set ?al) \<union> ?mine)"
  let ?pick = "strict_pick (sorted_list_of_set A) n (numa_maps db nid) prefer (poids_coeur db ?m ?al v)"
  obtain r mo where pick: "?pick = (r, mo)" by (cases ?pick)
  let ?ht = "if ?m = [] then {} else ?mine - phys_libres ?m ?al v ?mine"
  note unf = reexamine_def [of db nid v n pool "prefer", unfolded Let_def, folded A_def]
  show ?thesis
  proof (cases "?ht = {}")
    case False
    show ?thesis
    proof (cases "n \<le> card A")
      case True
      obtain t where t: "replace_rows nid v r db = Some (db\<lparr>core_alloc := t\<rparr>)"
        and post: "\<And>db'. core_alloc db' = t \<Longrightarrow> same_world db db' \<Longrightarrow>
           alloc_post db nid v n pool (db', Inr (Some (fmt_cpuset (set r)))) (set r)"
        using alloc_post_replace [OF pk n fin A_def True pick] by blast
      show ?thesis using False True pick t
        by (intro exI [of _ "set r"]) (simp add: unf post split del: if_split)
    next
      case leq: False
      show ?thesis using False leq pk
        by (intro exI [of _ "{}"]) (simp add: unf alloc_post_def reassigned_delete split del: if_split)
    qed
  next
    case True
    have ex: "\<forall>c \<in> ?mine. exclusive_core ?m ?al v c"
    proof (cases "?m = []")
      case m: False
      with True have "?mine \<subseteq> phys_libres ?m ?al v ?mine" by simp
      then show ?thesis by (auto simp: phys_libres_iff)
    qed (simp add: exclusive_core_def)
    note same = alloc_post_same [OF pk ne ex, of n pool]
    show ?thesis
    proof (cases "score_placement ?mine (numa_maps db nid) prefer = 0 \<or> card ?mine \<noteq> n \<or> card A < n")
      case stay: True
      then have "reexamine db nid v n pool prefer = (db, Inr (Some (fmt_cpuset ?mine)))"
        using True by (simp add: unf split del: if_split)
      then show ?thesis using same by (intro exI [of _ ?mine]) simp
    next
      case look: False
      then have le: "n \<le> card A" by simp
      show ?thesis
      proof (cases "score_placement ?mine (numa_maps db nid) prefer \<le> score_placement (set r) (numa_maps db nid) prefer")
        case stay: True
        then have "reexamine db nid v n pool prefer = (db, Inr (Some (fmt_cpuset ?mine)))"
          using True look pick by (simp add: unf split del: if_split)
        then show ?thesis using same by (intro exI [of _ ?mine]) simp
      next
        case move: False
        obtain t where t: "replace_rows nid v r db = Some (db\<lparr>core_alloc := t\<rparr>)"
          and post: "\<And>db'. core_alloc db' = t \<Longrightarrow> same_world db db' \<Longrightarrow>
             alloc_post db nid v n pool (db', Inr (Some (fmt_cpuset (set r)))) (set r)"
          using alloc_post_replace [OF pk n fin A_def le pick] by blast
        show ?thesis using True look move t pick
          by (intro exI [of _ "set r"]) (simp add: unf post split del: if_split)
      qed
    qed
  qed
qed

lemma fresh_post:
  assumes pk: "pk_ok (core_alloc db)" and n: "0 < n" and fin: "finite pool"
    and none: "cores_of db nid v = {}"
  shows "\<exists>S. alloc_post db nid v n pool (allocate_fresh db nid v n pool prefer) S"
proof -
  let ?al = "allocated db nid" and ?m = "core_maps db nid"
  define F where "F = pool - fst ` set ?al"
  define A where "A = phys_libres ?m ?al v F"
  let ?pick = "strict_pick (sorted_list_of_set A) n (numa_maps db nid) prefer (poids_coeur db ?m ?al v)"
  obtain r mo where pick: "?pick = (r, mo)" by (cases ?pick)
  note unf = allocate_fresh_def [of db nid v n pool "prefer", unfolded Let_def, folded F_def, folded A_def]
  have empty: "alloc_post db nid v n pool (add_alert k l a b kd ps db, Inr None) {}" for k l a b kd ps
    using reassigned_same [OF pk, of nid v] none by (simp add: alloc_post_def)
  show ?thesis
  proof (cases "card F < n \<or> ?m \<noteq> [] \<and> card A < n")
    case True
    then show ?thesis using empty by (intro exI [of _ "{}"]) (auto simp: unf)
  next
    case False
    have finA: "finite A" and finF: "finite F" using fin by (simp_all add: A_def F_def)
    have le: "n \<le> card A" using False by (cases "?m = []") (auto simp: A_def phys_libres_def)
    note p = strict_pick_facts [OF pick n finA le]
    have sub: "set r \<subseteq> F" using p(2) by (auto simp: A_def phys_libres_iff)
    have free: "\<forall>c \<in> set r. \<forall>w. (nid, c, w) \<notin> set (core_alloc db)"
      using sub by (force simp: F_def mem_allocated [symmetric])
    note i = insert_cores_ok [OF pk p(1) free, of v]
    have re: "reassigned (core_alloc db) nid v (set r) (core_alloc db @ map (\<lambda>c. (nid, c, v)) r)"
      using i(2) none by (auto simp: reassigned_def cores_of_iff [symmetric])
    have ne: "set r \<noteq> {}" using p(3) n by auto
    have ex: "\<forall>c \<in> set r. exclusive_core ?m ?al v c" using p(2) by (auto simp: A_def phys_libres_iff)
    have card: "card (set r) = n" using p by (simp add: distinct_card)
    show ?thesis using False pick i(1) re ne ex card sub
      by (intro exI [of _ "set r"]) (auto simp: unf alloc_post_def F_def)
  qed
qed

subsection \<open>The purge of orphans\<close>

definition orphan :: "pool_db \<Rightarrow> int \<Rightarrow> int \<Rightarrow> bool" where
  "orphan db nid v = (v \<notin> ct_vmid ` set (containers db) \<and> cores_of db nid v \<noteq> {})"

lemma group_by_owner:
  "map_of (fold (\<lambda>(c, v) d. dict_push v c d) al d0) v =
     (let l = map fst (filter (\<lambda>cv. snd cv = v) al)
      in if l = [] then map_of d0 v
         else Some ((case map_of d0 v of None \<Rightarrow> [] | Some l0 \<Rightarrow> l0) @ l))"
  by (induction al arbitrary: d0) (auto simp: map_of_dict_push Let_def split: option.splits)

lemma allocations_by_vmid_lookup [alloc_facts]:
  "map_of (allocations_by_vmid db nid) v =
     (let S = cores_of db nid v in if S = {} then None
      else Some (sort (map fst (filter (\<lambda>cv. snd cv = v) (allocated db nid)))))"
proof -
  have "cores_of db nid v = set (map fst (filter (\<lambda>cv. snd cv = v) (allocated db nid)))"
    by (auto simp: cores_of_def)
  then have e: "cores_of db nid v = {} \<longleftrightarrow> map fst (filter (\<lambda>cv. snd cv = v) (allocated db nid)) = []"
    by (metis set_empty)
  have "map_of (map (\<lambda>(v, cs). (v, sort cs)) d) v = map_option sort (map_of d v)" for d :: "(int \<times> int list) list"
    by (induction d) auto
  then show ?thesis
    using e by (simp add: allocations_by_vmid_def group_by_owner Let_def)
qed

lemma orphans_keys: "v \<in> fst ` set (reservations_orphelines db nid) \<longleftrightarrow> orphan db nid v"
proof -
  have d: "distinct (map fst (fold (\<lambda>(c, v) d. dict_push v c d) al d0))"
    if "distinct (map fst d0)" for al :: "(int \<times> int) list" and d0 :: "(int \<times> int list) list"
    using that
    by (induction al arbitrary: d0) (auto simp: dict_push_def distinct_dict_put)
  have dk: "distinct (map fst (allocations_by_vmid db nid))"
    using d [of "[]" "allocated db nid"]
    by (simp add: allocations_by_vmid_def comp_def case_prod_beta)
  have m: "(v, cs) \<in> set (allocations_by_vmid db nid) \<longleftrightarrow> map_of (allocations_by_vmid db nid) v = Some cs" for cs
    using dk by (simp add: map_of_eq_Some_iff)
  have r: "(v, cs) \<in> set (reservations_orphelines db nid) \<longleftrightarrow>
      v \<notin> ct_vmid ` set (containers db) \<and> cs \<noteq> [] \<and> (v, cs) \<in> set (allocations_by_vmid db nid)" for cs
    by (auto simp: reservations_orphelines_def Let_def)
  have "v \<in> fst ` set (reservations_orphelines db nid) \<longleftrightarrow>
      (\<exists>cs. (v, cs) \<in> set (reservations_orphelines db nid))" by force
  also have "\<dots> \<longleftrightarrow> v \<notin> ct_vmid ` set (containers db) \<and>
      (\<exists>cs. map_of (allocations_by_vmid db nid) v = Some cs \<and> cs \<noteq> [])"
    unfolding r m by blast
  also have "\<dots> \<longleftrightarrow> orphan db nid v"
  proof (cases "cores_of db nid v = {}")
    case False
    then have "sort (map fst (filter (\<lambda>cv. snd cv = v) (allocated db nid))) \<noteq> []"
      by (force simp: cores_of_def filter_empty_conv dest!: arg_cong [where f = set])
    with False show ?thesis by (simp add: orphan_def allocations_by_vmid_lookup Let_def)
  qed (simp add: orphan_def allocations_by_vmid_lookup)
  finally show ?thesis .
qed

lemma same_world_release: "same_world db (release_cores v db)"
  by (simp add: release_cores_def)

lemma same_world_fold_release:
  "same_world db (fold (\<lambda>(v, cs). release_cores v) orph db)"
proof (induction orph arbitrary: db)
  case (Cons o1 orph)
  then show ?case
    using same_world_trans [OF same_world_release Cons.IH] by (simp add: case_prod_beta)
qed simp

lemma fold_release_rows:
  "(m, c, w) \<in> set (core_alloc (fold (\<lambda>(v, cs). release_cores v) orph db)) \<longleftrightarrow>
     (m, c, w) \<in> set (core_alloc db) \<and> w \<notin> fst ` set orph"
  by (induction orph arbitrary: db) (auto simp: case_prod_beta release_cores_def delete_vmid_rows_iff)

lemma fold_release_pk:
  "pk_ok (core_alloc db) \<Longrightarrow> pk_ok (core_alloc (fold (\<lambda>(v, cs). release_cores v) orph db))"
  by (induction orph arbitrary: db) (auto simp: case_prod_beta release_cores_def pk_ok_delete)

lemmas fold_release = same_world_fold_release fold_release_rows fold_release_pk

text \<open>The purge removes exactly the rows of the orphans of the node.\<close>

lemma purger_orphelines_facts:
  "same_world db (fst (purger_orphelines db nid))"
  "(m, c, w) \<in> set (core_alloc (fst (purger_orphelines db nid))) \<longleftrightarrow>
     (m, c, w) \<in> set (core_alloc db) \<and> \<not> orphan db nid w"
  "pk_ok (core_alloc db) \<Longrightarrow> pk_ok (core_alloc (fst (purger_orphelines db nid)))"
proof -
  note f = fold_release [where orph = "reservations_orphelines db nid"]
  show "same_world db (fst (purger_orphelines db nid))"
    using f(1) by (simp add: purger_orphelines_def Let_def)
  show "(m, c, w) \<in> set (core_alloc (fst (purger_orphelines db nid))) \<longleftrightarrow>
     (m, c, w) \<in> set (core_alloc db) \<and> \<not> orphan db nid w"
    using f(2) [where db = db] orphans_keys [of w db nid]
    by (auto simp: purger_orphelines_def Let_def)
  show "pk_ok (core_alloc db) \<Longrightarrow> pk_ok (core_alloc (fst (purger_orphelines db nid)))"
    using f(3) by (simp add: purger_orphelines_def Let_def)
qed

lemma purged_cores_of:
  "cores_of (fst (purger_orphelines db nid)) k w = (if orphan db nid w then {} else cores_of db k w)"
  by (auto simp: cores_of_iff purger_orphelines_facts(2))

subsection \<open>The contract of \<open>allocate_cores\<close>\<close>

lemma allocate_cores_post:
  assumes "pk_ok (core_alloc db)" and "0 < n" and "nid \<noteq> 0"
    and pool: "pool = parse_cpuset (node_cpuset db nid)" and "pool \<noteq> {}"
  shows "\<exists>S. alloc_post (fst (purger_orphelines db nid)) nid v (nat n) pool
               (allocate_cores db nid v n prefer) S"
proof -
  let ?db0 = "fst (purger_orphelines db nid)"
  have pk0: "pk_ok (core_alloc ?db0)" using assms(1) by (rule purger_orphelines_facts(3))
  have n0: "0 < nat n" and fin: "finite pool" using assms by simp_all
  have eq: "allocate_cores db nid v n prefer =
      (if cores_of ?db0 nid v \<noteq> {} then reexamine ?db0 nid v (nat n) pool prefer
       else allocate_fresh ?db0 nid v (nat n) pool prefer)"
    using assms by (simp add: allocate_cores_def Let_def)
  show ?thesis
  proof (cases "cores_of ?db0 nid v = {}")
    case True
    then show ?thesis using fresh_post [OF pk0 n0 fin True, of "prefer"] eq by simp
  next
    case False
    then show ?thesis using reexamine_post [OF pk0 n0 fin False, of "prefer"] eq by simp
  qed
qed

end
