(* ===== verification/Pool_Stability.thy ===== *)
theory Pool_Stability
  imports Pool_Alloc
begin

text \<open>
  When \<open>allocate_cores\<close> grants a request (\<open>offrables\<close>: the cores the strict rule leaves to a container), and why a second
  call for the same request gives the same cores.
\<close>

subsection \<open>Availability, and a second call\<close>

text \<open>The cores a container may be given under the strict rule: free or its own, siblings included.\<close>

definition offrables :: "pool_db \<Rightarrow> int \<Rightarrow> int \<Rightarrow> int set \<Rightarrow> int set" where
  "offrables db nid v pool =
     Set.filter (\<lambda>c. exclusive_core (core_maps db nid) (allocated db nid) v c \<and>
                     (\<forall>(d, w) \<in> set (allocated db nid). d = c \<longrightarrow> w = v)) pool"

lemma finite_offrables [simp]: "finite pool \<Longrightarrow> finite (offrables db nid v pool)"
  by (simp add: offrables_def)

lemma offrables_cand:
  assumes "pk_ok (core_alloc db)" and "cores_of db nid v \<subseteq> pool"
  shows "phys_libres (core_maps db nid) (allocated db nid) v
           ((pool - fst ` set (allocated db nid)) \<union> cores_of db nid v) = offrables db nid v pool"
    (is "?L = ?R")
proof (rule set_eqI)
  fix c
  have own: "(nid, c, w) \<in> set (core_alloc db) \<Longrightarrow> (nid, c, u) \<in> set (core_alloc db) \<Longrightarrow> w = u" for w u
    using assms(1) by (rule pk_owner_unique)
  have key: "c \<in> (pool - fst ` set (allocated db nid)) \<union> cores_of db nid v \<longleftrightarrow>
      c \<in> pool \<and> (\<forall>(d, w) \<in> set (allocated db nid). d = c \<longrightarrow> w = v)"
  proof (cases "\<exists>w. (c, w) \<in> set (allocated db nid)")
    case True
    then obtain w where w: "(c, w) \<in> set (allocated db nid)" by blast
    then have u: "(c, x) \<in> set (allocated db nid) \<longleftrightarrow> x = w" for x
      using own by (auto simp: mem_allocated)
    have "c \<in> fst ` set (allocated db nid)" using w by force
    then show ?thesis using u w assms(2) by (auto simp: cores_of_iff mem_allocated)
  qed (auto simp: cores_of_iff mem_allocated)
  show "c \<in> ?L \<longleftrightarrow> c \<in> ?R"
    unfolding phys_libres_iff offrables_def key by auto
qed

lemma reassigned_offrables:
  assumes "reassigned (core_alloc db) nid v S (core_alloc db')" and "core_maps db' = core_maps db"
  shows "offrables db' nid v pool = offrables db nid v pool"
proof -
  have other: "w \<noteq> v \<Longrightarrow> (d, w) \<in> set (allocated db' nid) \<longleftrightarrow> (d, w) \<in> set (allocated db nid)" for d w
    using assms(1) by (simp add: reassigned_def mem_allocated)
  then have "(\<forall>(d, w) \<in> set (allocated db' nid). d = c \<longrightarrow> w = v) \<longleftrightarrow>
      (\<forall>(d, w) \<in> set (allocated db nid). d = c \<longrightarrow> w = v)" for c by blast
  then show ?thesis
    unfolding offrables_def assms(2) reassigned_exclusive [OF assms(1)] by simp
qed

lemma fresh_short:
  assumes "finite pool" and "pk_ok (core_alloc db)" and "cores_of db nid v = {}"
    and "card (offrables db nid v pool) < n"
  shows "core_alloc (fst (allocate_fresh db nid v n pool prefer)) = core_alloc db"
    and "snd (allocate_fresh db nid v n pool prefer) = Inr None"
proof -
  let ?F = "pool - fst ` set (allocated db nid)"
  let ?A = "phys_libres (core_maps db nid) (allocated db nid) v ?F"
  have A: "?A = offrables db nid v pool" using offrables_cand [OF assms(2), of nid v pool] assms(3) by simp
  have c: "card ?F < n \<or> core_maps db nid \<noteq> [] \<and> card ?A < n"
  proof (cases "core_maps db nid = []")
    case True
    then have "?A = ?F" by (simp add: phys_libres_def)
    with A assms(4) show ?thesis by simp
  qed (use A assms(4) in simp)
  note unf = allocate_fresh_def [of db nid v n pool "prefer", unfolded Let_def]
  show "core_alloc (fst (allocate_fresh db nid v n pool prefer)) = core_alloc db"
    and "snd (allocate_fresh db nid v n pool prefer) = Inr None"
    using c by (auto simp: unf)
qed

lemma strict_pick_poids:
  "strict_pick free n m prefer p1 = strict_pick free n m prefer p2"
  by (simp add: strict_pick_def choisir_numa_poids [of free n m "prefer" p1 p2])

definition choix :: "pool_db \<Rightarrow> int \<Rightarrow> int \<Rightarrow> nat \<Rightarrow> int set \<Rightarrow> int option \<Rightarrow> int set" where
  "choix db nid v n pool prefer =
     set (fst (strict_pick (sorted_list_of_set (offrables db nid v pool)) n (numa_maps db nid) prefer (\<lambda>_. 0)))"

lemma fresh_enough:
  assumes fin: "finite pool" and pk: "pk_ok (core_alloc db)" and none: "cores_of db nid v = {}"
    and n: "0 < n" and le: "n \<le> card (offrables db nid v pool)"
  shows "snd (allocate_fresh db nid v n pool prefer) = Inr (Some (fmt_cpuset (choix db nid v n pool prefer)))"
    and "cores_of (fst (allocate_fresh db nid v n pool prefer)) nid v = choix db nid v n pool prefer"
proof -
  let ?al = "allocated db nid" and ?m = "core_maps db nid"
  let ?F = "pool - fst ` set ?al"
  let ?A = "phys_libres ?m ?al v ?F"
  let ?pick = "strict_pick (sorted_list_of_set ?A) n (numa_maps db nid) prefer (poids_coeur db ?m ?al v)"
  obtain r mo where pick: "?pick = (r, mo)" by (cases ?pick)
  have A: "?A = offrables db nid v pool" using offrables_cand [OF pk, of nid v pool] none by simp
  have leA: "n \<le> card ?A" using A le by simp
  also have "card ?A \<le> card ?F" using fin by (intro card_mono phys_libres_subset) simp
  finally have leF: "n \<le> card ?F" .
  have finA: "finite ?A" using fin by simp
  note p = strict_pick_facts [OF pick n finA leA]
  have free: "\<forall>c \<in> set r. \<forall>w. (nid, c, w) \<notin> set (core_alloc db)"
    using p(2) phys_libres_subset by (force simp: mem_allocated [symmetric])
  note i = insert_cores_ok [OF pk p(1) free, of v]
  have r: "set r = choix db nid v n pool prefer"
    using pick strict_pick_poids unfolding choix_def A by (metis fst_conv)
  show "snd (allocate_fresh db nid v n pool prefer) = Inr (Some (fmt_cpuset (choix db nid v n pool prefer)))"
    using leA leF pick i r by (simp add: allocate_fresh_def Let_def)
  have "core_alloc (fst (allocate_fresh db nid v n pool prefer)) = core_alloc db @ map (\<lambda>c. (nid, c, v)) r"
    using leA leF pick i by (simp add: allocate_fresh_def Let_def)
  moreover have "(nid, c, v) \<notin> set (core_alloc db)" for c using none by (auto simp: cores_of_iff)
  ultimately show "cores_of (fst (allocate_fresh db nid v n pool prefer)) nid v = choix db nid v n pool prefer"
    unfolding r [symmetric] by (auto simp: cores_of_iff)
qed


text \<open>The three outcomes of a call for a container that holds cores of the pool.\<close>

lemma reexamine_shape:
  assumes pk: "pk_ok (core_alloc db)" and n: "0 < n" and fin: "finite pool"
    and sub: "cores_of db nid v \<subseteq> pool"
  obtains (stay) "reexamine db nid v n pool prefer = (db, Inr (Some (fmt_cpuset (cores_of db nid v))))"
  | (move) "n \<le> card (offrables db nid v pool)"
      "alloc_post db nid v n pool (reexamine db nid v n pool prefer) (choix db nid v n pool prefer)"
  | (leave) "card (offrables db nid v pool) < n"
      "alloc_post db nid v n pool (reexamine db nid v n pool prefer) {}"
proof -
  let ?al = "allocated db nid" and ?m = "core_maps db nid" and ?mine = "cores_of db nid v"
  define A where "A = phys_libres ?m ?al v ((pool - fst ` set ?al) \<union> ?mine)"
  have A: "A = offrables db nid v pool" unfolding A_def by (rule offrables_cand [OF pk sub])
  let ?pick = "strict_pick (sorted_list_of_set A) n (numa_maps db nid) prefer (poids_coeur db ?m ?al v)"
  obtain r mo where pick: "?pick = (r, mo)" by (cases ?pick)
  have r: "set r = choix db nid v n pool prefer"
    using pick strict_pick_poids unfolding choix_def A by (metis fst_conv)
  let ?ht = "if ?m = [] then {} else ?mine - phys_libres ?m ?al v ?mine"
  note unf = reexamine_def [of db nid v n pool "prefer", unfolded Let_def, folded A_def]
  consider (short) "?ht \<noteq> {}" "card A < n" | (ht) "?ht \<noteq> {}" "n \<le> card A"
    | (same) "?ht = {}" "score_placement ?mine (numa_maps db nid) prefer = 0 \<or> card ?mine \<noteq> n \<or> card A < n
        \<or> score_placement ?mine (numa_maps db nid) prefer \<le> score_placement (set r) (numa_maps db nid) prefer"
    | (better) "?ht = {}" "score_placement ?mine (numa_maps db nid) prefer \<noteq> 0" "card ?mine = n" "n \<le> card A"
        "\<not> score_placement ?mine (numa_maps db nid) prefer \<le> score_placement (set r) (numa_maps db nid) prefer"
    by linarith
  then show thesis
  proof cases
    case short
    then have "alloc_post db nid v n pool (reexamine db nid v n pool prefer) {}"
      using pk by (simp add: unf alloc_post_def reassigned_delete split del: if_split)
    with short A leave show thesis by blast
  next
    case ht
    obtain t where t: "replace_rows nid v r db = Some (db\<lparr>core_alloc := t\<rparr>)"
      and post: "\<And>db'. core_alloc db' = t \<Longrightarrow> same_world db db' \<Longrightarrow>
         alloc_post db nid v n pool (db', Inr (Some (fmt_cpuset (set r)))) (set r)"
      using alloc_post_replace [OF pk n fin A_def ht(2) pick] by blast
    have "alloc_post db nid v n pool (reexamine db nid v n pool prefer) (set r)"
      using ht pick t by (simp add: unf post split del: if_split)
    with ht A r move show thesis by simp
  next
    case same
    have "reexamine db nid v n pool prefer = (db, Inr (Some (fmt_cpuset ?mine)))"
      using same pick by (cases "score_placement ?mine (numa_maps db nid) prefer = 0 \<or> card ?mine \<noteq> n \<or> card A < n")
        (simp_all add: unf split del: if_split)
    then show thesis by (rule stay)
  next
    case better
    obtain t where t: "replace_rows nid v r db = Some (db\<lparr>core_alloc := t\<rparr>)"
      and post: "\<And>db'. core_alloc db' = t \<Longrightarrow> same_world db db' \<Longrightarrow>
         alloc_post db nid v n pool (db', Inr (Some (fmt_cpuset (set r)))) (set r)"
      using alloc_post_replace [OF pk n fin A_def better(4) pick] by blast
    have "alloc_post db nid v n pool (reexamine db nid v n pool prefer) (set r)"
      using better pick t by (simp add: unf post split del: if_split)
    with better A r move show thesis by simp
  qed
qed

text \<open>A container whose cores are what the choice would give stays where it is.\<close>

lemma reexamine_settled:
  assumes pk: "pk_ok (core_alloc db)" and sub: "cores_of db nid v \<subseteq> pool"
    and ex: "\<forall>c \<in> cores_of db nid v. exclusive_core (core_maps db nid) (allocated db nid) v c"
    and mine: "cores_of db nid v = choix db nid v n pool prefer"
  shows "reexamine db nid v n pool prefer = (db, Inr (Some (fmt_cpuset (cores_of db nid v))))"
proof -
  let ?al = "allocated db nid" and ?m = "core_maps db nid" and ?mine = "cores_of db nid v"
  define A where "A = phys_libres ?m ?al v ((pool - fst ` set ?al) \<union> ?mine)"
  have A: "A = offrables db nid v pool" unfolding A_def by (rule offrables_cand [OF pk sub])
  let ?pick = "strict_pick (sorted_list_of_set A) n (numa_maps db nid) prefer (poids_coeur db ?m ?al v)"
  obtain r mo where pick: "?pick = (r, mo)" by (cases ?pick)
  have r: "set r = ?mine"
    using pick strict_pick_poids mine unfolding choix_def A by (metis fst_conv)
  have ht: "(if ?m = [] then {} else ?mine - phys_libres ?m ?al v ?mine) = {}"
    using ex by (auto simp: phys_libres_iff)
  note unf = reexamine_def [of db nid v n pool "prefer", unfolded Let_def, folded A_def]
  show ?thesis
    using ht pick r by (cases "score_placement ?mine (numa_maps db nid) prefer = 0 \<or> card ?mine \<noteq> n \<or> card A < n")
      (simp_all add: unf split del: if_split)
qed


lemma no_orphan_no_purge:
  assumes "\<And>w. \<not> orphan db nid w"
  shows "fst (purger_orphelines db nid) = db"
proof -
  have "w \<notin> fst ` set (reservations_orphelines db nid)" for w
    using assms [of w] by (simp only: orphans_keys not_False_eq_True)
  then have "reservations_orphelines db nid = []" by (cases "reservations_orphelines db nid") auto
  then show ?thesis by (simp only: purger_orphelines_def Let_def if_True fst_conv simp_thms)
qed

lemma allocate_cores_noop:
  "\<not> (0 < n \<and> nid \<noteq> 0 \<and> parse_cpuset (node_cpuset db nid) \<noteq> {}) \<Longrightarrow>
   allocate_cores db nid v n prefer = (db, Inr None)"
  unfolding allocate_cores_def Let_def by (cases "n \<le> 0 \<or> nid = 0") auto

lemma allocate_cores_eq:
  assumes "0 < n" and "nid \<noteq> 0" and "pool = parse_cpuset (node_cpuset db nid)" and "pool \<noteq> {}"
    and "db0 = fst (purger_orphelines db nid)"
  shows "allocate_cores db nid v n prefer =
      (if cores_of db0 nid v \<noteq> {} then reexamine db0 nid v (nat n) pool prefer
       else allocate_fresh db0 nid v (nat n) pool prefer)"
  using assms by (simp add: allocate_cores_def Let_def)

lemma choix_subset:
  assumes "finite pool" and "0 < n" and "n \<le> card (offrables db nid v pool)"
  shows "choix db nid v n pool prefer \<subseteq> offrables db nid v pool"
    and "card (choix db nid v n pool prefer) = n"
proof -
  let ?O = "offrables db nid v pool"
  obtain r mo where pick: "strict_pick (sorted_list_of_set ?O) n (numa_maps db nid) prefer (\<lambda>_. 0) = (r, mo)"
    by (cases "strict_pick (sorted_list_of_set ?O) n (numa_maps db nid) prefer (\<lambda>_. 0)")
  have f: "finite ?O" using assms(1) by simp
  note p = strict_pick_facts [OF pick assms(2) f assms(3)]
  show "choix db nid v n pool prefer \<subseteq> ?O" using p(2) pick by (simp add: choix_def)
  show "card (choix db nid v n pool prefer) = n" using p pick by (simp add: choix_def distinct_card)
qed

text \<open>What the second call finds: the same choice, already in place.\<close>

lemma moved_is_settled:
  assumes fin: "finite pool" and n: "0 < n" and le: "n \<le> card (offrables db nid v pool)"
    and post: "alloc_post db nid v n pool (db1, res) (choix db nid v n pool prefer)"
  shows "reexamine db1 nid v n pool prefer = (db1, res)"
    and "cores_of db1 nid v \<noteq> {}"
proof -
  let ?S = "choix db nid v n pool prefer"
  note c = choix_subset [OF fin n le, of "prefer"]
  from post have re: "reassigned (core_alloc db) nid v ?S (core_alloc db1)"
    and w: "same_world db db1" and res: "res = Inr (if ?S = {} then None else Some (fmt_cpuset ?S))"
    by (auto simp: alloc_post_def)
  have mine: "cores_of db1 nid v = ?S" using re by (rule reassigned_cores_of)
  have maps: "core_maps db1 = core_maps db" "numa_maps db1 = numa_maps db"
    using same_world_reads [OF w] by auto
  have off: "offrables db1 nid v pool = offrables db nid v pool"
    using re maps(1) by (rule reassigned_offrables)
  have choice: "choix db1 nid v n pool prefer = ?S" by (simp add: choix_def off maps)
  have ne: "?S \<noteq> {}" using c(2) n by auto
  have pk1: "pk_ok (core_alloc db1)" using re by (simp add: reassigned_def)
  have sub: "cores_of db1 nid v \<subseteq> pool" using mine c(1) by (auto simp: offrables_def)
  have ex: "\<forall>c \<in> cores_of db1 nid v. exclusive_core (core_maps db1 nid) (allocated db1 nid) v c"
    using mine c(1) off by (auto simp: offrables_def)
  have "reexamine db1 nid v n pool prefer = (db1, Inr (Some (fmt_cpuset (cores_of db1 nid v))))"
    by (rule reexamine_settled [OF pk1 sub ex]) (simp add: mine choice)
  then show "reexamine db1 nid v n pool prefer = (db1, res)" using mine res ne by simp
  show "cores_of db1 nid v \<noteq> {}" using mine ne by simp
qed

lemma fresh_shape:
  assumes pk: "pk_ok (core_alloc db)" and n: "0 < n" and fin: "finite pool"
    and none: "cores_of db nid v = {}" and le: "n \<le> card (offrables db nid v pool)"
  shows "alloc_post db nid v n pool (allocate_fresh db nid v n pool prefer) (choix db nid v n pool prefer)"
proof -
  obtain S where S: "alloc_post db nid v n pool (allocate_fresh db nid v n pool prefer) S"
    using fresh_post [OF pk n fin none] by blast
  then have "S = choix db nid v n pool prefer"
    using fresh_enough(2) [OF fin pk none n le, of "prefer"]
    by (auto simp: alloc_post_def dest: reassigned_cores_of)
  with S show ?thesis by simp
qed

text \<open>
  A second call with the same arguments answers the same and leaves the reservations alone: no
  container is moved back and forth between two equally good places.
\<close>

lemma allocate_again:
  assumes pk: "pk_ok (core_alloc db)" and live: "v \<in> ct_vmid ` set (containers db)"
    and sub: "cores_of db nid v \<subseteq> parse_cpuset (node_cpuset db nid)"
    and out: "allocate_cores db nid v n prefer = (db1, res)"
  shows "snd (allocate_cores db1 nid v n prefer) = res"
    and "core_alloc (fst (allocate_cores db1 nid v n prefer)) = core_alloc db1"
proof -
  let ?pool = "parse_cpuset (node_cpuset db nid)" and ?db0 = "fst (purger_orphelines db nid)"
  have "snd (allocate_cores db1 nid v n prefer) = res \<and>
      core_alloc (fst (allocate_cores db1 nid v n prefer)) = core_alloc db1"
  proof (cases "0 < n \<and> nid \<noteq> 0 \<and> ?pool \<noteq> {}")
    case False
    note stop = allocate_cores_noop [OF False, of v "prefer"]
    show ?thesis using out stop by simp
  next
    case True
    have n0: "0 < nat n" and fin: "finite ?pool" using True by simp_all
    have pk0: "pk_ok (core_alloc ?db0)" using pk by (rule purger_orphelines_facts(3))
    note eq = allocate_cores_eq [of n nid ?pool db ?db0 v "prefer"]
    have w0: "same_world db ?db0" by (rule purger_orphelines_facts)
    obtain S where post: "alloc_post ?db0 nid v (nat n) ?pool (db1, res) S"
      using allocate_cores_post [OF pk, of n nid ?pool v "prefer"] True out by auto
    have w1: "same_world ?db0 db1" using post by (simp add: alloc_post_def)
    have w: "same_world db db1" using w0 w1 by (rule same_world_trans)
    have pool1: "?pool = parse_cpuset (node_cpuset db1 nid)"
      using same_world_reads(2) [OF w] by simp
    have ct: "containers ?db0 = containers db" "containers db1 = containers db"
      using same_world_reads(6) [OF w0] same_world_reads(6) [OF w] by auto
    have re: "reassigned (core_alloc ?db0) nid v S (core_alloc db1)" using post by (simp add: alloc_post_def)
    have norph: "\<not> orphan db1 nid u" for u
    proof (cases "u = v")
      case True
      then show ?thesis using live ct by (simp add: orphan_def)
    next
      case False
      then have "cores_of db1 nid u = cores_of ?db0 nid u"
        using re by (auto simp: reassigned_def cores_of_iff)
      then show ?thesis using ct by (auto simp: orphan_def purged_cores_of)
    qed
    have purge1: "fst (purger_orphelines db1 nid) = db1" by (rule no_orphan_no_purge [OF norph])
    have eq1: "allocate_cores db1 nid v n prefer =
        (if cores_of db1 nid v \<noteq> {} then reexamine db1 nid v (nat n) ?pool prefer
         else allocate_fresh db1 nid v (nat n) ?pool prefer)"
      using True pool1 purge1 by (intro allocate_cores_eq) auto
    let ?O = "offrables ?db0 nid v ?pool"
    have maps: "core_maps db1 = core_maps ?db0" using same_world_reads(4) [OF w1] .
    consider (stay) "db1 = ?db0" "cores_of ?db0 nid v \<noteq> {}"
      | (move) "nat n \<le> card ?O" "alloc_post ?db0 nid v (nat n) ?pool (db1, res) (choix ?db0 nid v (nat n) ?pool prefer)"
      | (leave) "card ?O < nat n" "cores_of db1 nid v = {}" "res = Inr None"
    proof (cases "cores_of ?db0 nid v = {}")
      case fresh: True
      then have o: "allocate_fresh ?db0 nid v (nat n) ?pool prefer = (db1, res)" using eq True out by simp
      show thesis
      proof (cases "nat n \<le> card ?O")
        case True
        then show thesis using fresh_shape [OF pk0 n0 fin fresh True, of "prefer"] o that(2) by simp
      next
        case False
        then have lt: "card ?O < nat n" by simp
        note f = fresh_short [OF fin pk0 fresh lt, of "prefer"]
        have "cores_of db1 nid v = {}" using f(1) o fresh by (auto simp: cores_of_iff)
        then show thesis using f(2) o lt that(3) by simp
      qed
    next
      case held: False
      then have o: "reexamine ?db0 nid v (nat n) ?pool prefer = (db1, res)" using eq True out by simp
      have sub0: "cores_of ?db0 nid v \<subseteq> ?pool" using sub by (auto simp: purged_cores_of)
      from pk0 n0 fin sub0 show thesis
      proof (cases rule: reexamine_shape [of ?db0 "nat n" ?pool nid v "prefer"])
        case stay
        then show thesis using o held that(1) by simp
      next
        case move
        then show thesis using o that(2) by simp
      next
        case leave
        then show thesis using o that(3) by (auto simp: alloc_post_def dest: reassigned_cores_of)
      qed
    qed
    then show ?thesis
    proof cases
      case stay
      then have "allocate_cores db1 nid v n prefer = (db1, res)"
        using eq1 eq out True by simp
      then show ?thesis by simp
    next
      case move
      note m = moved_is_settled [OF fin n0 move]
      show ?thesis using eq1 m by simp
    next
      case leave
      have off: "offrables db1 nid v ?pool = ?O" using re maps by (rule reassigned_offrables)
      have pk1: "pk_ok (core_alloc db1)" using re by (simp add: reassigned_def)
      have lt: "card (offrables db1 nid v ?pool) < nat n" using leave(1) off by simp
      show ?thesis using fresh_short [OF fin pk1 leave(2) lt, of "prefer"] eq1 leave by simp
    qed
  qed
  then show "snd (allocate_cores db1 nid v n prefer) = res"
    and "core_alloc (fst (allocate_cores db1 nid v n prefer)) = core_alloc db1" by auto
qed

end
