(* ===== verification/Pool_Shared.thy ===== *)
theory Pool_Shared
  imports Pool_Stability
begin

text \<open>
  The shared side of a node's compute pool (\<open>app/core_pool.py\<close>): the cores offered to the
  containers that have none of their own (\<open>partage_disponible\<close>), the cpuset a container is created
  with (\<open>effective_cpuset\<close>), the reservation of the ST 2110 engine's cores
  (\<open>reserve_engine_cores\<close>, \<open>_exclure_du_pool\<close>) and the throttled alerts.
\<close>

text \<open>
  What the orchestrator keeps in memory: the date of the last alert per node and cause, the last
  verdict on over-subscription per node; \<open>episodes\<close> is the copy of the latter kept on disk, read
  back after a restart.
\<close>

record pool_ram =
  alerte_last :: "((string \<times> string) \<times> rat) list"
  oversub_etat :: "(int \<times> bool) list"
  episodes :: "(int \<times> bool) list"

type_synonym pool_st = "pool_db \<times> pool_ram"

subsection \<open>Settings of the pool\<close>

definition reserve_physique :: "pool_db \<Rightarrow> int \<Rightarrow> bool" where
  "reserve_physique db nid =
     (case int_or (setting_for db ''pin_reserve_physical'' (Some nid)) 0 of
        Some i \<Rightarrow> i \<noteq> 0
      | None \<Rightarrow> False)"

definition strict_pool :: "pool_db \<Rightarrow> bool" where
  "strict_pool db =
     (let v = (case setting db ''compute_refuse_oversubscribed'' of
                 None \<Rightarrow> ''None''
               | Some (SInt i) \<Rightarrow> str_int i
               | Some (SText s) \<Rightarrow> s)
      in py_lower (py_strip v) \<in> {''1'', ''true'', ''on'', ''oui'', ''yes''})"

subsection \<open>Throttled alerts\<close>

definition alerte_throttle_s :: rat where "alerte_throttle_s = 300"

definition alerter_throttle :: "rat \<Rightarrow> int \<Rightarrow> string \<Rightarrow> string \<Rightarrow> string \<Rightarrow> string option \<Rightarrow>
    (string \<times> pval) list \<Rightarrow> pool_st \<Rightarrow> pool_st" where
  "alerter_throttle now nid mo msg niveau cle ps st =
     (let (db, ram) = st;
          k = (str_int nid, mo)
      in if (case map_of (alerte_last ram) k of None \<Rightarrow> False | Some t \<Rightarrow> now - t < alerte_throttle_s) then st
         else
           let ram1 = ram\<lparr>alerte_last := dict_put k now (alerte_last ram)\<rparr>
           in (case cle of
                 Some c \<Rightarrow> (add_alert c niveau (Some nid) None ''resource'' ps db, ram1)
               | None \<Rightarrow> (add_alert msg niveau (Some nid) None ''resource'' [] db, ram1)))"

subsection \<open>The cores offered to sharing\<close>

definition free_dedicated_capacity :: "pool_db \<Rightarrow> int \<Rightarrow> int option \<Rightarrow> nat" where
  "free_dedicated_capacity db nid vmid =
     (let pool = ordonnancables db nid (parse_cpuset (node_cpuset db nid));
          alloc = allocated db nid;
          dispo = Set.filter (\<lambda>c. map_of alloc c = None \<or> map_of alloc c = vmid) pool;
          core_of = core_maps db nid
      in if core_of = [] then card dispo
         else
           let pris = phys_of core_of (fst ` Set.filter (\<lambda>(c, v). Some v \<noteq> vmid) (set alloc))
           in card (Set.filter (\<lambda>c. case map_of core_of c of None \<Rightarrow> True | Some p \<Rightarrow> p \<notin> pris) dispo))"

definition partage_disponible :: "pool_db \<Rightarrow> int \<Rightarrow> int option \<Rightarrow> int set option \<Rightarrow> cpu_map option \<Rightarrow>
    bool option \<Rightarrow> int list \<times> int set" where
  "partage_disponible db nid exclure pool0 core_of0 strict =
     (let pool = (case pool0 of None \<Rightarrow> parse_cpuset (node_cpuset db nid) | Some p \<Rightarrow> p);
          alloc = allocated db nid;
          pris = fst ` Set.filter (\<lambda>(c, owner). Some owner \<noteq> exclure) (set alloc);
          core_of = (case core_of0 of None \<Rightarrow> core_maps db nid | Some m \<Rightarrow> m);
          phys_dedies = phys_of core_of pris;
          libres = filter (\<lambda>c. c \<notin> pris) (sorted_list_of_set pool);
          dur = (case strict of None \<Rightarrow> reserve_physique db nid | Some s \<Rightarrow> s)
      in (if phys_dedies \<noteq> {} \<and> dur
          then filter (\<lambda>c. case map_of core_of c of None \<Rightarrow> True | Some p \<Rightarrow> p \<notin> phys_dedies) libres
          else libres,
          phys_dedies))"

subsection \<open>The cpuset of a container\<close>

definition pval_text :: "pval \<Rightarrow> string" where
  "pval_text v = (case v of PInt i \<Rightarrow> str_int i | PStr s \<Rightarrow> s)"

text \<open>The text of the refusal, as the code writes it.\<close>

definition msg_sature :: "pool_db \<Rightarrow> int \<Rightarrow> int \<Rightarrow> string \<Rightarrow> int set \<Rightarrow> string" where
  "msg_sature db nid vmid pool proprios =
     ''N'' @ oe_lig @ ''ud '' @ pval_text (node_name_get db nid) @ '' : le pool de calcul '' @ pool @
     '' est ENTI'' @ [CHR 0xC3, CHR 0x88] @ ''REMENT d'' @ e_acute @ ''di'' @ e_acute @ '' '' @ a_grave @ '' '' @
     noms_vmids db proprios @ '' '' @ em_dash @ '' '' @ noms_vmids db {vmid} @ '' y est d'' @ e_acute @
     ''ploy'' @ e_acute @ '' PAR-DESSUS (c'' @ oe_lig @ ''urs partag'' @ e_acute @ ''s de force). '' @
     ''Aucun des deux n'a la garantie de tenir sa cadence : lib'' @ e_acute @ ''rer des c'' @ oe_lig @
     ''urs (d'' @ e_acute @ ''truire/redimensionner un conteneur), r'' @ e_acute @ ''duire l'empreinte du '' @
     ''moteur 2110, ou d'' @ e_acute @ ''ployer sur un autre n'' @ oe_lig @ ''ud.''"

definition effective_cpuset :: "rat \<Rightarrow> pool_st \<Rightarrow> int \<Rightarrow> int \<Rightarrow> int \<Rightarrow> int option \<Rightarrow>
    pool_st \<times> (pool_error + string \<times> bool)" where
  "effective_cpuset now st nid vmid n prefer =
     (let (db, ram) = st;
          (db1, dedicated) = (if 0 < n then allocate_cores db nid vmid n prefer else (db, Inr None))
      in case dedicated of
           Inl e \<Rightarrow> ((db1, ram), Inl e)
         | Inr d \<Rightarrow>
             if d \<noteq> None \<and> d \<noteq> Some [] then ((db1, ram), Inr (the d, True))
             else
               let pool = py_strip (node_cpuset db nid) in
               if pool = [] then ((db1, ram), Inr ([], False))
               else
                 let proprios = snd ` Set.filter (\<lambda>(c, owner). owner \<noteq> vmid \<and> c \<in> parse_cpuset pool)
                                        (set (allocated db1 nid));
                     libres = fst (partage_disponible db1 nid (Some vmid) (Some (parse_cpuset pool)) None None)
                 in if libres = [] then
                      let msg = msg_sature db1 nid vmid pool proprios;
                          ps = [(''n'', node_name_get db nid), (''pool'', PStr pool),
                                (''proprios'', PStr (noms_vmids db1 proprios)),
                                (''noms'', PStr (noms_vmids db1 {vmid}))]
                      in if strict_pool db1 then
                           ((add_alert ''alert.resource.pinning_sature_refuse'' ''error'' (Some nid) (Some vmid)
                               ''resource'' ps db1, ram),
                            Inl (PoolSature msg))
                         else
                           (alerter_throttle now nid ''sature'' msg ''error''
                              (Some ''alert.resource.pinning_sature_partage'') ps (db1, ram),
                            Inr (pool, False))
                    else
                      let locaux = (case prefer of
                                      None \<Rightarrow> []
                                    | Some q \<Rightarrow> filter (\<lambda>c. map_of (numa_maps db1 nid) c = Some q) libres);
                          libres' = (if locaux \<noteq> [] then locaux else libres)
                      in ((db1, ram), Inr (fmt_cpuset (set libres'), False)))"


subsection \<open>The cores of the engine\<close>

text \<open>
  \<open>core_of.get(c)\<close> of a core without an entry is \<open>None\<close>, which is no physical core: the
  comprehension that builds \<open>phys\<close> keeps only known cores.
\<close>

definition exclure_du_pool :: "pool_db \<Rightarrow> int \<Rightarrow> int set \<Rightarrow> cpu_map \<Rightarrow> pool_db \<times> int list" where
  "exclure_du_pool db nid cores core_of =
     (case db_get_node db nid of
        None \<Rightarrow> (db, [])
      | Some nd \<Rightarrow>
          let pool = parse_cpuset (compute_cpuset nd) in
          if pool = {} then (db, [])
          else
            let interdits =
                  (if core_of = [] then cores
                   else
                     let phys = phys_of core_of cores
                     in cores \<union> Set.filter (\<lambda>c. case map_of core_of c of None \<Rightarrow> False | Some p \<Rightarrow> p \<in> phys) pool);
                retires = sorted_list_of_set (pool \<inter> interdits)
            in if retires = [] then (db, [])
               else
                 let reste = pool - interdits in
                 if reste = {} then
                   (add_alert (if core_of \<noteq> [] then ''alert.resource.pool_moteur_couvre_tout_ht''
                               else ''alert.resource.pool_moteur_couvre_tout'')
                      ''error'' (Some nid) None ''resource''
                      [(''n'', node_label nd), (''cores'', PStr (fmt_cpuset cores)),
                       (''pool'', PStr (fmt_cpuset pool))] db, [])
                 else
                   (add_alert (if core_of \<noteq> [] then ''alert.resource.pool_retreci_ht''
                               else ''alert.resource.pool_retreci'')
                      ''warning'' (Some nid) None ''resource''
                      [(''n'', node_label nd), (''pool'', PStr (fmt_cpuset pool)),
                       (''reste'', PStr (fmt_cpuset reste)), (''cores'', PStr (fmt_cpuset cores)),
                       (''retires'', PStr (fmt_cpuset (set retires)))]
                      (db_update_cpuset db nid (fmt_cpuset reste)),
                    retires))"

text \<open>The rows of the concurrent owners on the cores the engine takes, in the order of the cores.\<close>

definition victimes :: "pool_db \<Rightarrow> int \<Rightarrow> int \<Rightarrow> int list \<Rightarrow> (int \<times> int list) list" where
  "victimes db nid vmid cores =
     fold (\<lambda>c d. case map_of (allocated db nid) c of
                   None \<Rightarrow> d
                 | Some owner \<Rightarrow> if owner \<noteq> vmid then dict_push owner c d else d) cores []"

definition ht_occupants :: "pool_db \<Rightarrow> int \<Rightarrow> int \<Rightarrow> int list \<Rightarrow> cpu_map \<Rightarrow> (int \<times> int list) list" where
  "ht_occupants db nid vmid cores core_of =
     (let phys = phys_of core_of (set cores)
      in fold (\<lambda>(c, owner) d.
             if owner \<noteq> vmid \<and> (case map_of core_of c of None \<Rightarrow> False | Some p \<Rightarrow> p \<in> phys)
             then dict_push owner c d else d) (allocated db nid) [])"

text \<open>
  The transaction of \<open>reserve_engine_cores\<close>: the engine's rows of this node are deleted, the
  concurrent owners evicted from the cores it takes, and the cores inserted.  A key violation would
  undo it and leave the function (\<open>None\<close>).
\<close>

definition take_engine_rows :: "pool_db \<Rightarrow> int \<Rightarrow> int \<Rightarrow> int list \<Rightarrow> (pool_db \<times> (int \<times> int list) list) option" where
  "take_engine_rows db nid vmid cores =
     (let t1 = filter (\<lambda>(n, c, w). \<not> (n = nid \<and> w = vmid)) (core_alloc db);
          db1 = db\<lparr>core_alloc := t1\<rparr>;
          vs = victimes db1 nid vmid cores;
          evict = \<Union>(set ` snd ` set vs);
          t2 = filter (\<lambda>(n, c, w). \<not> (n = nid \<and> c \<in> evict)) t1
      in case insert_rows t2 (map (\<lambda>c. (nid, c, vmid)) cores) of
           (t3, ok) \<Rightarrow> if ok then Some (db\<lparr>core_alloc := t3\<rparr>, vs) else None)"

definition victimes_detail :: "pool_db \<Rightarrow> (int \<times> int list) list \<Rightarrow> string" where
  "victimes_detail db vs =
     join_with '' ; '' (map (\<lambda>(v, cs). noms_vmids db {v} @ '' sur '' @ fmt_cpuset (set cs)) (sort_key fst vs))"

text \<open>The background reapplication of the shared cpusets acts on the host, not on this state.\<close>

definition reserve_engine_cores :: "pool_db \<Rightarrow> int \<Rightarrow> int \<Rightarrow> int set \<Rightarrow> cpu_map \<Rightarrow>
    pool_db \<times> (pool_error + int list)" where
  "reserve_engine_cores db nid vmid cores0 core_of =
     (let cores = sorted_list_of_set cores0 in
      if cores = [] \<or> nid = 0 then (db, Inr [])
      else
        (case take_engine_rows db nid vmid cores of
           None \<Rightarrow> (db, Inl IntegrityError)
         | Some (db1, vs) \<Rightarrow>
             let db2 = (if vs = [] then db1
                        else add_alert ''alert.resource.moteur_empiete'' ''error'' (Some nid) (Some vmid) ''resource''
                               [(''n'', node_name_get db nid), (''vmid'', PInt vmid),
                                (''cores'', PStr (fmt_cpuset (set cores))),
                                (''detail'', PStr (victimes_detail db1 vs))] db1);
                 ht = (if core_of = [] then [] else ht_occupants db2 nid vmid cores core_of);
                 db3 = (if ht = [] then db2
                        else add_alert ''alert.resource.ht_siblings_moteur'' ''warning'' (Some nid) (Some vmid) ''resource''
                               [(''n'', node_name_get db nid),
                                (''cores'', PStr (fmt_cpuset (\<Union>(set ` snd ` set ht)))),
                                (''noms'', PStr (noms_vmids db2 (fst ` set ht)))] db2)
             in (fst (exclure_du_pool db3 nid (set cores) core_of), Inr cores)))"

subsection \<open>Who the frequency floor is for\<close>

definition dedicated_floor_cores :: "pool_db \<Rightarrow> int \<Rightarrow> int list" where
  "dedicated_floor_cores db nid =
     (let vivants = ct_vmid ` Set.filter (\<lambda>c. ct_node c = nid) (set (containers db))
      in sorted_list_of_set
           (\<Union>(set ` snd ` Set.filter (\<lambda>(v, cs). v \<in> vivants) (set (allocations_by_vmid db nid)))))"

subsection \<open>Facts on sharing\<close>

lemma map_of_allocated:
  assumes "pk_ok (core_alloc db)"
  shows "map_of (allocated db nid) c = Some w \<longleftrightarrow> (nid, c, w) \<in> set (core_alloc db)"
proof -
  have "distinct (map row_key t) \<Longrightarrow> distinct (map (fst \<circ> snd) (filter (\<lambda>r. fst r = nid) t))"
    for t :: "alloc_row list"
    by (induction t) force+
  then have "distinct (map fst (allocated db nid))"
    using assms by (simp add: allocated_def pk_ok_def)
  then show ?thesis by (simp add: map_of_eq_Some_iff mem_allocated)
qed

lemma partage_libre:
  assumes "c \<in> set (fst (partage_disponible db nid (Some v) (Some pool) m s))" and "finite pool"
  shows "c \<in> pool" and "(nid, c, w) \<in> set (core_alloc db) \<Longrightarrow> w = v"
proof -
  have c: "c \<in> pool \<and> c \<notin> fst ` Set.filter (\<lambda>(c, owner). owner \<noteq> v) (set (allocated db nid))"
    using assms by (auto simp: partage_disponible_def Let_def split: if_splits)
  show "c \<in> pool" using c by simp
  show "(nid, c, w) \<in> set (core_alloc db) \<Longrightarrow> w = v"
    using c by (force simp: mem_allocated [symmetric])
qed

lemma partage_distinct:
  "distinct (fst (partage_disponible db nid v (Some pool) m s))"
  by (simp add: partage_disponible_def Let_def)

lemma partage_add_alert [simp]:
  "partage_disponible (add_alert k l a b kd ps db) nid v pool m s = partage_disponible db nid v pool m s"
  by (simp add: partage_disponible_def reserve_physique_def setting_for_def setting_def cong: option.case_cong)

lemma alerter_throttle_frame [simp, frame]:
  "core_alloc (fst (alerter_throttle now nid mo msg niv cle ps st)) = core_alloc (fst st)"
  "partage_disponible (fst (alerter_throttle now nid mo msg niv cle ps st)) k v pool m s =
     partage_disponible (fst st) k v pool m s"
  by (auto simp: alerter_throttle_def Let_def split: prod.splits option.splits)

text \<open>The three ways \<open>effective_cpuset\<close> answers.\<close>

lemma effective_cpuset_cases:
  assumes "effective_cpuset now (db, ram) nid v n prefer = ((db', ram'), Inr (s, ded))"
  obtains (dedie) "0 < n" "allocate_cores db nid v n prefer = (db', Inr (Some s))" "s \<noteq> []" "ded"
  | (vide) "py_strip (node_cpuset db nid) = []" "s = []" "\<not> ded"
  | (sature) "\<not> ded" "s = py_strip (node_cpuset db nid)" "s \<noteq> []"
      "fst (partage_disponible db' nid (Some v) (Some (parse_cpuset s)) None None) = []"
  | (partage) L where "\<not> ded" "s = fmt_cpuset (set L)" "L \<noteq> []"
      "set L \<subseteq> set (fst (partage_disponible db' nid (Some v)
                          (Some (parse_cpuset (py_strip (node_cpuset db nid)))) None None))"
proof -
  obtain db1 d where out: "(if 0 < n then allocate_cores db nid v n prefer else (db, Inr None)) = (db1, d)"
    by fastforce
  note eq = assms [unfolded effective_cpuset_def Let_def prod.case out]
  let ?pool = "py_strip (node_cpuset db nid)"
  let ?L = "fst (partage_disponible db1 nid (Some v) (Some (parse_cpuset ?pool)) None None)"
  from eq obtain o1 where d: "d = Inr o1" by (cases d) auto
  show thesis
  proof (cases "o1 \<noteq> None \<and> o1 \<noteq> Some []")
    case True
    then obtain s1 where s1: "o1 = Some s1" "s1 \<noteq> []" by (cases o1) auto
    have "0 < n" using out d s1 by (auto split: if_splits)
    with s1 show thesis using dedie eq d out by simp
  next
    case no: False
    show thesis
    proof (cases "?pool = []")
      case True
      then show thesis using vide eq d no by auto
    next
      case ne: False
      show thesis
      proof (cases "?L = []")
        case True
        have "\<not> strict_pool db1" using eq d no ne True by (auto split: if_splits)
        then have e: "alerter_throttle now nid ''sature'' (msg_sature db1 nid v ?pool
               (snd ` Set.filter (\<lambda>(c, owner). owner \<noteq> v \<and> c \<in> parse_cpuset ?pool) (set (allocated db1 nid)))) ''error''
               (Some ''alert.resource.pinning_sature_partage'')
               [(''n'', node_name_get db nid), (''pool'', PStr ?pool),
                (''proprios'', PStr (noms_vmids db1 (snd ` Set.filter (\<lambda>(c, owner). owner \<noteq> v \<and> c \<in> parse_cpuset ?pool) (set (allocated db1 nid))))),
                (''noms'', PStr (noms_vmids db1 {v}))] (db1, ram) = (db', ram')"
          and r: "s = ?pool" "\<not> ded" using eq d no ne True by auto
        have "fst (partage_disponible db' nid (Some v) (Some (parse_cpuset s)) None None) = []"
          using alerter_throttle_frame(2) [of now nid "''sature''", where st = "(db1, ram)"] e True r(1)
          by (metis fst_conv)
        then show thesis using sature r ne by simp
      next
        case False
        let ?loc = "case prefer of None \<Rightarrow> [] | Some q \<Rightarrow> filter (\<lambda>c. map_of (numa_maps db1 nid) c = Some q) ?L"
        have s: "s = fmt_cpuset (set (if ?loc \<noteq> [] then ?loc else ?L))" and r: "\<not> ded" "db' = db1"
          using eq d no ne False by auto
        have "set (if ?loc \<noteq> [] then ?loc else ?L) \<subseteq> set ?L" by (auto split: option.splits)
        moreover have "(if ?loc \<noteq> [] then ?loc else ?L) \<noteq> []" using False by simp
        ultimately show thesis using partage [OF r(1) s] r(2) by blast
      qed
    qed
  qed
qed


subsection \<open>Facts on the engine's reservation\<close>

definition dict_members :: "('k \<times> 'a list) list \<Rightarrow> 'a set" where
  "dict_members d = \<Union>(set ` snd ` set d)"

lemma later_key: "distinct (map fst (p # d)) \<Longrightarrow> q \<in> set d \<Longrightarrow> fst q \<noteq> fst p"
  by (simp add: image_iff) metis

lemma dict_members_put:
  assumes "distinct (map fst d)"
  shows "dict_members (dict_push k x d) = insert x (dict_members d)"
proof -
  have "dict_members (dict_put k l d) = set l \<union> (\<Union>p \<in> set d. if fst p = k then {} else set (snd p))"
    if "distinct (map fst d)" for l
    using that
  proof (induction d)
    case (Cons p d)
    then show ?case
    proof (cases "fst p = k")
      case True
      have "\<forall>q \<in> set d. fst q \<noteq> k" using later_key [OF Cons.prems] True by simp
      with True show ?thesis by (cases p) (auto simp: dict_members_def)
    qed (cases p, auto simp: dict_members_def)
  qed (simp add: dict_members_def)
  note this [OF assms]
  moreover have "dict_members d = (case map_of d k of None \<Rightarrow> {} | Some l \<Rightarrow> set l)
      \<union> (\<Union>p \<in> set d. if fst p = k then {} else set (snd p))"
    using assms
  proof (induction d)
    case (Cons p d)
    show ?case
    proof (cases "fst p = k")
      case True
      have "\<forall>q \<in> set d. fst q \<noteq> k" using later_key [OF Cons.prems] True by simp
      with True show ?thesis by (cases p) (auto simp: dict_members_def)
    next
      case False
      then show ?thesis using Cons by (cases p) (auto simp: dict_members_def)
    qed
  qed (simp add: dict_members_def)
  ultimately show ?thesis by (auto simp: dict_push_def split: option.splits)
qed

lemma distinct_dict_push: "distinct (map fst d) \<Longrightarrow> distinct (map fst (dict_push k x d))"
  by (simp add: dict_push_def distinct_dict_put)

lemma victimes_members:
  "dict_members (victimes db nid v cores) =
     {c \<in> set cores. \<exists>w. map_of (allocated db nid) c = Some w \<and> w \<noteq> v}"
proof -
  let ?f = "\<lambda>c d. case map_of (allocated db nid) c of None \<Rightarrow> d
                 | Some owner \<Rightarrow> if owner \<noteq> v then dict_push owner c d else d"
  have "dict_members (fold ?f cores d) = dict_members d \<union>
      {c \<in> set cores. \<exists>w. map_of (allocated db nid) c = Some w \<and> w \<noteq> v}"
    if "distinct (map fst d)" for d
    using that
  proof (induction cores arbitrary: d)
    case (Cons c cores)
    have "distinct (map fst (?f c d))" using Cons.prems by (simp add: distinct_dict_push split: option.split)
    moreover have "dict_members (?f c d) = dict_members d \<union>
        (if \<exists>w. map_of (allocated db nid) c = Some w \<and> w \<noteq> v then {c} else {})"
      using Cons.prems by (simp add: dict_members_put split: option.split)
    ultimately show ?case using Cons.IH by auto
  qed simp
  from this [of "[]"] show ?thesis by (simp add: victimes_def dict_members_def)
qed

lemma take_engine_rows_ok:
  assumes pk: "pk_ok (core_alloc db)" and d: "distinct cores"
  obtains t vs where "take_engine_rows db nid v cores = Some (db\<lparr>core_alloc := t\<rparr>, vs)"
    and "pk_ok t"
    and "\<And>m c w. (m, c, w) \<in> set t \<longleftrightarrow>
           (if m = nid \<and> c \<in> set cores then w = v
            else (m, c, w) \<in> set (core_alloc db) \<and> \<not> (m = nid \<and> w = v))"
proof -
  let ?t1 = "filter (\<lambda>(n, c, w). \<not> (n = nid \<and> w = v)) (core_alloc db)"
  let ?db1 = "db\<lparr>core_alloc := ?t1\<rparr>"
  let ?vs = "victimes ?db1 nid v cores"
  let ?t2 = "filter (\<lambda>(n, c, w). \<not> (n = nid \<and> c \<in> dict_members ?vs)) ?t1"
  have pk1: "pk_ok ?t1" using pk by (rule pk_ok_filter)
  have pk2: "pk_ok ?t2" using pk1 by (rule pk_ok_filter)
  have own: "map_of (allocated ?db1 nid) c = Some w \<longleftrightarrow> (nid, c, w) \<in> set ?t1" for c w
    using map_of_allocated [of ?db1 nid c w] pk1 by simp
  have ev: "c \<in> dict_members ?vs \<longleftrightarrow> c \<in> set cores \<and> (\<exists>w. (nid, c, w) \<in> set ?t1)" for c
    unfolding victimes_members own by auto
  have free: "\<forall>c \<in> set cores. \<forall>w. (nid, c, w) \<notin> set ?t2" using ev by auto
  note i = insert_cores_ok [OF pk2 d free, of v]
  show thesis
  proof (rule that)
    show "take_engine_rows db nid v cores = Some (db\<lparr>core_alloc := ?t2 @ map (\<lambda>c. (nid, c, v)) cores\<rparr>, ?vs)"
      using i(1) unfolding take_engine_rows_def Let_def dict_members_def [symmetric] by simp
    show "pk_ok (?t2 @ map (\<lambda>c. (nid, c, v)) cores)" by (rule i(2))
    show "(m, c, w) \<in> set (?t2 @ map (\<lambda>c. (nid, c, v)) cores) \<longleftrightarrow>
           (if m = nid \<and> c \<in> set cores then w = v
            else (m, c, w) \<in> set (core_alloc db) \<and> \<not> (m = nid \<and> w = v))" for m c w
      using ev by auto
  qed
qed

lemma exclure_frame [simp, frame]: "core_alloc (fst (exclure_du_pool db nid S m)) = core_alloc db"
  by (simp add: exclure_du_pool_def Let_def db_update_cpuset_def split: option.split)

lemma find_map_same:
  "(\<And>x. P (f x) = P x) \<Longrightarrow> find P (map f xs) = map_option f (find P xs)"
  by (induction xs) auto

lemma node_cpuset_update:
  "node_cpuset (db_update_cpuset db nid s) nid = (case db_get_node db nid of None \<Rightarrow> [] | Some _ \<Rightarrow> s)"
  "k \<noteq> nid \<Longrightarrow> node_cpuset (db_update_cpuset db nid s) k = node_cpuset db k"
proof -
  have "db_get_node (db_update_cpuset db nid s) k =
      map_option (\<lambda>n. if node_id n = nid then n\<lparr>compute_cpuset := s\<rparr> else n) (db_get_node db k)" for k
    unfolding db_get_node_def db_update_cpuset_def by (simp add: find_map_same)
  note e = this
  have id: "db_get_node db k = Some n \<Longrightarrow> node_id n = k" for k n
    by (auto simp: db_get_node_def find_Some_iff)
  show "node_cpuset (db_update_cpuset db nid s) nid = (case db_get_node db nid of None \<Rightarrow> [] | Some _ \<Rightarrow> s)"
    by (auto simp: node_cpuset_def e id split: option.split)
  show "node_cpuset (db_update_cpuset db nid s) k = node_cpuset db k" if "k \<noteq> nid"
    using that by (auto simp: node_cpuset_def e dest: id split: option.split)
qed

lemma node_cpuset_add_alert [simp]: "node_cpuset (add_alert k l n v ki ps db) i = node_cpuset db i"
  by (simp add: node_cpuset_def db_get_node_def add_alert_def)

lemma node_cpuset_some: "db_get_node db k = Some n \<Longrightarrow> node_cpuset db k = compute_cpuset n"
  by (simp add: node_cpuset_def)

text \<open>The pool after the engine's cores left it.\<close>

lemma exclure_pool:
  fixes S :: "int set"
  assumes pool: "pool = parse_cpuset (node_cpuset db nid)"
    and I: "I = S \<union> {c. m \<noteq> [] \<and> (\<exists>p. map_of m c = Some p \<and> p \<in> phys_of m S)}"
  shows "parse_cpuset (node_cpuset (fst (exclure_du_pool db nid S m)) nid) =
           (if pool - I = {} then pool else pool - I)"
proof (cases "db_get_node db nid")
  case None
  then show ?thesis using pool by (simp add: exclure_du_pool_def node_cpuset_def)
next
  case (Some nd)
  then have p: "pool = parse_cpuset (compute_cpuset nd)" using pool by (simp add: node_cpuset_def)
  have fin: "finite pool" using p by simp
  have "\<forall>c \<in> pool. 0 \<le> c" using p parse_cpuset_nonneg by auto
  then have reparse: "parse_cpuset (fmt_cpuset (pool - I)) = pool - I"
    using fin by (intro parse_fmt_cpuset) auto
  let ?J = "if m = [] then S else S \<union> Set.filter (\<lambda>c. case map_of m c of None \<Rightarrow> False | Some q \<Rightarrow> q \<in> phys_of m S) pool"
  have inter: "pool \<inter> ?J = pool \<inter> I" and diff: "pool - ?J = pool - I"
    by (auto simp: I split: option.splits)
  have nil: "sorted_list_of_set (pool \<inter> ?J) = [] \<longleftrightarrow> pool \<inter> I = {}"
    using fin unfolding inter by (simp add: sorted_list_of_set_eq_Nil_iff)
  have e: "node_cpuset (fst (exclure_du_pool db nid S m)) nid =
      (if pool = {} \<or> sorted_list_of_set (pool \<inter> ?J) = [] \<or> pool - ?J = {} then compute_cpuset nd
       else fmt_cpuset (pool - ?J))"
    unfolding exclure_du_pool_def Let_def Some option.case p [symmetric]
    by (simp only: node_cpuset_add_alert node_cpuset_update(1) Some option.case fst_conv if_distrib [of fst]
        if_distrib [of "\<lambda>d. node_cpuset d nid"] node_cpuset_some [OF Some]) simp
  show ?thesis
    unfolding e unfolding nil diff if_distrib [of parse_cpuset] reparse p [symmetric] by auto
qed

end
