(* ===== verification/Pool_Capacity.thy ===== *)
theory Pool_Capacity
  imports Pool_Shared "HOL-Library.Multiset"
begin

text \<open>
  What the orchestrator says of a node's capacity (\<open>app/core_pool.py\<close>): the counts in physical
  cores (\<open>capacite\<close>, \<open>capacite_placement\<close>, \<open>cores_status\<close>), the alert on over-subscription
  (\<open>verifier_capacite\<close>), the grid of the cores shown to the operator (\<open>_grille_coeurs\<close>) and the
  caches of the hardware probes.
\<close>

subsection \<open>Counting physical cores\<close>

text \<open>The local function \<open>_phys\<close> of the three counters.\<close>

definition phys_cores :: "cpu_map \<Rightarrow> int set \<Rightarrow> int set" where
  "phys_cores core_of cores = (if core_of = [] then cores else phys_of core_of cores)"

record capacity =
  cap_pool :: string
  physical :: int
  physical_dedicated :: int
  physical_free :: int
  shared_containers :: int
  oversub :: bool
  cap_pool_declare :: string
  pool_isole :: string
  pool_isole_n :: int

text \<open>The running containers of the node that compute and hold none of the \<open>dedies\<close>.\<close>

definition shared_on :: "pool_db \<Rightarrow> int \<Rightarrow> int set \<Rightarrow> container list" where
  "shared_on db nid dedies =
     (let vmids_dedies = snd ` Set.filter (\<lambda>(c, v). c \<in> dedies) (set (allocated db nid))
      in filter (\<lambda>c. ct_node c = nid \<and> ct_status c = ''running'' \<and> \<not> ct_mtl c \<and>
                      ct_vmid c \<notin> vmids_dedies) (containers db))"

definition capacite :: "pool_db \<Rightarrow> int \<Rightarrow> capacity" where
  "capacite db nid =
     (let declared = parse_cpuset (node_cpuset db nid);
          pool = ordonnancables db nid declared;
          isole = declared - pool;
          core_of = core_maps db nid;
          dedies = Set.filter (\<lambda>c. c \<in> pool) (fst ` set (allocated db nid));
          phys = int (card (phys_cores core_of pool));
          ded = int (card (phys_cores core_of dedies));
          libre = max 0 (phys - ded);
          shared = int (length (shared_on db nid dedies))
      in \<lparr>cap_pool = fmt_cpuset pool, physical = phys, physical_dedicated = ded, physical_free = libre,
          shared_containers = shared, oversub = (libre < shared),
          cap_pool_declare = fmt_cpuset declared, pool_isole = fmt_cpuset isole,
          pool_isole_n = int (card isole)\<rparr>)"

record accueil =
  ac_physiques :: int
  ac_dedies :: int
  ac_partages :: int
  ac_libres :: int
  ac_pool_declare :: bool

definition capacite_placement :: "pool_db \<Rightarrow> int \<Rightarrow> accueil" where
  "capacite_placement db nid =
     (let declared = parse_cpuset (node_cpuset db nid);
          core_of = core_maps db nid;
          n = (if core_of \<noteq> [] then int (length core_of)
               else (case db_get_node db nid of None \<Rightarrow> 0 | Some nd \<Rightarrow> cpu_count nd));
          pool = (if declared \<noteq> {} then ordonnancables db nid declared
                  else if n \<noteq> 0 then ordonnancables db nid (set [0..n - 1]) else {});
          ded = Set.filter (\<lambda>c. c \<in> pool) (fst ` set (allocated db nid));
          p = int (card (phys_cores core_of pool));
          nd = int (card (phys_cores core_of ded));
          sh = int (length (shared_on db nid ded))
      in \<lparr>ac_physiques = p, ac_dedies = nd, ac_partages = sh, ac_libres = p - nd - sh,
          ac_pool_declare = (declared \<noteq> {})\<rparr>)"

record status_view =
  st_total :: int
  st_used :: int
  st_free :: int
  st_orphelins :: "(string \<times> string) list"
  st_orphelins_cores :: int
  st_capacite :: capacity

definition cores_status :: "pool_db \<Rightarrow> int \<Rightarrow> status_view" where
  "cores_status db nid =
     (let pool = ordonnancables db nid (parse_cpuset (node_cpuset db nid));
          total = int (card pool);
          used = int (length (filter (\<lambda>(c, v). c \<in> pool) (allocated db nid)));
          orph = reservations_orphelines db nid
      in \<lparr>st_total = total, st_used = used, st_free = max 0 (total - used),
          st_orphelins = map (\<lambda>(v, cs). (str_int v, fmt_cpuset (set cs))) orph,
          st_orphelins_cores = int (sum_list (map (\<lambda>(v, cs). length cs) orph)),
          st_capacite = capacite db nid\<rparr>)"

subsection \<open>The alert on over-subscription\<close>

definition verifier_capacite :: "int \<Rightarrow> pool_st \<Rightarrow> pool_st" where
  "verifier_capacite nid st =
     (let (db, ram) = st in
      case db_get_node db nid of
        None \<Rightarrow> st
      | Some nd \<Rightarrow>
          if py_strip (compute_cpuset nd) = [] then st
          else
            let cap = capacite db nid;
                over = oversub cap;
                prev = (case map_of (oversub_etat ram) nid of
                          Some b \<Rightarrow> Some b
                        | None \<Rightarrow> map_of (episodes ram) nid)
            in if prev = Some over then st
               else
                 let ram1 = ram\<lparr>oversub_etat := dict_put nid over (oversub_etat ram),
                                episodes := dict_put nid over (episodes ram)\<rparr>
                 in if prev = None \<and> \<not> over then (db, ram1)
                    else if over then
                      (add_alert ''alert.resource.pool_sursouscrit'' ''error'' (Some nid) None ''resource''
                         [(''n'', node_label nd), (''shared'', PInt (shared_containers cap)),
                          (''libres'', PInt (physical_free cap)), (''pool'', PStr (cap_pool cap)),
                          (''physical'', PInt (physical cap)), (''dedicated'', PInt (physical_dedicated cap))] db,
                       ram1)
                    else
                      (add_alert ''alert.resource.pool_revenu_capacites'' ''info'' (Some nid) None ''resource''
                         [(''n'', node_label nd), (''shared'', PInt (shared_containers cap)),
                          (''libres'', PInt (physical_free cap))] db,
                       ram1))"

text \<open>A restart of the orchestrator loses what is in memory and reads the file back.\<close>

definition redemarrage :: "pool_ram \<Rightarrow> pool_ram" where
  "redemarrage ram = ram\<lparr>alerte_last := [], oversub_etat := []\<rparr>"

subsection \<open>The grid of the cores\<close>

record sibling_line =
  sb_vmid :: int
  sb_hostname :: string
  sb_cpuset :: string
  sb_siblings :: string

definition name_of :: "(int \<times> string) list \<Rightarrow> int \<Rightarrow> string" where
  "name_of noms v = (case map_of noms v of None \<Rightarrow> [] | Some s \<Rightarrow> s)"

definition siblings_dedicated :: "int \<Rightarrow> int set \<Rightarrow> (int \<times> int) list \<Rightarrow> cpu_map \<Rightarrow>
    (int \<times> int list) list \<Rightarrow> (int \<times> string) list \<Rightarrow> int set \<Rightarrow> sibling_line list" where
  "siblings_dedicated vmid reserve owner core_of par_vmid noms vivants =
     (if core_of = [] then []
      else
        let phys = phys_of core_of reserve;
            par_voisin = fold (\<lambda>(x, v) d.
              if v \<noteq> vmid \<and> v \<in> vivants \<and> (case map_of core_of x of None \<Rightarrow> False | Some p \<Rightarrow> p \<in> phys)
              then dict_push v x d else d) owner []
        in map (\<lambda>(v, xs). \<lparr>sb_vmid = v, sb_hostname = name_of noms v,
                           sb_cpuset = fmt_cpuset (set (case map_of par_vmid v of None \<Rightarrow> [] | Some l \<Rightarrow> l)),
                           sb_siblings = fmt_cpuset (set xs)\<rparr>)
             (sort_key fst par_voisin))"

datatype thread_kind = Orphelin | Moteur | Dedie | Partage | Reserve_ht | Systeme
datatype core_kind = CDedie | COrphelin | CMixte | CPartage | CSysteme

record thread_line =
  th_cpu :: int
  th_kind :: thread_kind
  th_vmids :: "int list"
  th_noms :: "string list"

record core_line =
  co_phys :: "int option"
  co_threads :: "thread_line list"
  co_kind :: core_kind
  frere_partage :: bool

definition owner_map :: "(int \<times> int list) list \<Rightarrow> (int \<times> int) list" where
  "owner_map par_vmid = fold (\<lambda>(v, cs) d. fold (\<lambda>c d. dict_put c v d) cs d) par_vmid []"

definition grille_thread :: "int set \<Rightarrow> (int \<times> int) list \<Rightarrow> int set \<Rightarrow> int set \<Rightarrow>
    (int \<times> string) list \<Rightarrow> int set \<Rightarrow> int \<Rightarrow> thread_line" where
  "grille_thread pool owner vivants libres noms moteurs cpu =
     (let v = map_of owner cpu;
          kind = (case v of
                    Some w \<Rightarrow> if w \<notin> vivants then Orphelin
                              else if w \<in> moteurs then Moteur else Dedie
                  | None \<Rightarrow> if cpu \<in> libres then Partage
                            else if cpu \<in> pool then Reserve_ht else Systeme)
      in \<lparr>th_cpu = cpu, th_kind = kind,
          th_vmids = (case v of None \<Rightarrow> [] | Some w \<Rightarrow> [w]),
          th_noms = (case v of None \<Rightarrow> []
                     | Some w \<Rightarrow> [if name_of noms w = [] then CHR 0x23 # str_int w else name_of noms w])\<rparr>)"

definition grille_coeur :: "int + int \<Rightarrow> thread_line list \<Rightarrow> core_line" where
  "grille_coeur k threads =
     (let kinds = set (map th_kind threads);
          frere = ((Dedie \<in> kinds \<or> Moteur \<in> kinds) \<and>
                   (Partage \<in> kinds \<or> Systeme \<in> kinds \<or>
                    1 < card (set (filter (\<lambda>vs. vs \<noteq> []) (map th_vmids threads)))))
      in \<lparr>co_phys = (case k of Inl p \<Rightarrow> Some p | Inr _ \<Rightarrow> None), co_threads = threads,
          co_kind = (if kinds \<subseteq> {Dedie, Moteur} \<and> kinds \<noteq> {} then CDedie
                     else if Orphelin \<in> kinds then COrphelin
                     else if frere then CMixte
                     else if Partage \<in> kinds then CPartage else CSysteme),
          frere_partage = frere\<rparr>)"

definition grille_groupes :: "cpu_map \<Rightarrow> int list \<Rightarrow> ((int + int) \<times> int list) list" where
  "grille_groupes core_of tous =
     fold (\<lambda>cpu d. dict_push (case map_of core_of cpu of Some p \<Rightarrow> Inl p | None \<Rightarrow> Inr cpu) cpu d) tous []"

definition grille_coeurs :: "int set \<Rightarrow> cpu_map \<Rightarrow> (int \<times> int list) list \<Rightarrow> int set \<Rightarrow> int set \<Rightarrow>
    (int \<times> string) list \<Rightarrow> int set \<Rightarrow> core_line list" where
  "grille_coeurs pool core_of par_vmid vivants libres noms moteurs =
     (let owner = owner_map par_vmid;
          tous = sorted_list_of_set (fst ` set core_of \<union> pool \<union> fst ` set owner);
          groupes = grille_groupes core_of tous
      in map (\<lambda>(k, cs). grille_coeur k (map (grille_thread pool owner vivants libres noms moteurs) (sort cs)))
           (sort_key (\<lambda>(k, cs). case k of Inl p \<Rightarrow> (False, p) | Inr c \<Rightarrow> (True, c)) groupes))"

subsection \<open>The caches of the hardware probes\<close>

text \<open>
  A topology that was read is kept for ever; a failure is remembered for a minute, during which the
  node is not asked again.  \<open>probe\<close> is what the node would answer now.
\<close>

record topo_cache =
  cache_ok :: "(int \<times> cpu_map) list"
  cache_echec :: "(int \<times> rat) list"

definition map_retry_s :: rat where "map_retry_s = 60"

definition topo_cached :: "((int \<times> string) option \<Rightarrow> cpu_map) \<Rightarrow> rat \<Rightarrow> (int \<times> string) option \<Rightarrow> int \<Rightarrow>
    topo_cache \<Rightarrow> cpu_map \<times> topo_cache" where
  "topo_cached reader now probe nid ca =
     (case map_of (cache_ok ca) nid of
        Some (e # m) \<Rightarrow> (e # m, ca)
      | _ \<Rightarrow>
          if now - (case map_of (cache_echec ca) nid of None \<Rightarrow> 0 | Some t \<Rightarrow> t) < map_retry_s then ([], ca)
          else
            let m = reader probe in
            if m \<noteq> [] then
              (m, ca\<lparr>cache_ok := dict_put nid m (cache_ok ca),
                     cache_echec := filter (\<lambda>p. fst p \<noteq> nid) (cache_echec ca)\<rparr>)
            else (m, ca\<lparr>cache_echec := dict_put nid now (cache_echec ca)\<rparr>))"

definition core_map_cached :: "rat \<Rightarrow> (int \<times> string) option \<Rightarrow> int \<Rightarrow> topo_cache \<Rightarrow> cpu_map \<times> topo_cache" where
  "core_map_cached = topo_cached read_cpu_core_map"

definition numa_map_cached :: "rat \<Rightarrow> (int \<times> string) option \<Rightarrow> int \<Rightarrow> topo_cache \<Rightarrow> cpu_map \<times> topo_cache" where
  "numa_map_cached = topo_cached read_cpu_numa_map"

text \<open>The isolated band changes at a reboot of the node: it is kept two minutes, readable or not.\<close>

definition isolated_ttl_s :: rat where "isolated_ttl_s = 120"

definition isolated_cached :: "rat \<Rightarrow> (int \<times> string) option \<Rightarrow> int \<Rightarrow> (int \<times> rat \<times> int set option) list \<Rightarrow>
    int set option \<times> (int \<times> rat \<times> int set option) list" where
  "isolated_cached now probe nid ca =
     (let read = (let s = read_isolated_cpus probe in (s, dict_put nid (now, s) ca))
      in case map_of ca nid of
           Some (t, s) \<Rightarrow> if now - t < isolated_ttl_s then (s, ca) else read
         | None \<Rightarrow> read)"

subsection \<open>The socket a container prefers\<close>

definition numa_of_gpu :: "pool_db \<Rightarrow> int \<Rightarrow> string \<Rightarrow> int option" where
  "numa_of_gpu db nid sel =
     (if sel = [] then None
      else
        let idx = py_strip (if CHR ''='' \<in> set sel then snd (split_once (CHR ''='') sel) else sel)
        in if py_isdigit idx then map_of (gpu_numas db nid) (the (py_int idx)) else None)"

text \<open>\<open>media\<close>: the media interfaces of the node; \<open>nics\<close>: the NUMA node of each interface.\<close>

definition numa_of_media_nic :: "string set \<Rightarrow> (string \<times> int) list \<Rightarrow> int option" where
  "numa_of_media_nic media nics =
     (if media = {} then None
      else (case sorted_list_of_set (snd ` Set.filter (\<lambda>(nm, nd). nm \<in> media) (set nics)) of
              [nd] \<Rightarrow> Some nd
            | _ \<Rightarrow> None))"


subsection \<open>Facts\<close>

text \<open>What the counter promises is what the strict rule allows.\<close>

lemma free_dedicated_offrables:
  assumes "pk_ok (core_alloc db)"
  shows "free_dedicated_capacity db nid (Some v) =
           card (offrables db nid v (ordonnancables db nid (parse_cpuset (node_cpuset db nid))))"
proof -
  let ?al = "allocated db nid" and ?m = "core_maps db nid"
  let ?P = "ordonnancables db nid (parse_cpuset (node_cpuset db nid))"
  have own: "map_of ?al c = None \<or> map_of ?al c = Some v \<longleftrightarrow> (\<forall>(d, w) \<in> set ?al. d = c \<longrightarrow> w = v)" for c
  proof (cases "map_of ?al c")
    case None
    then have "\<forall>w. (c, w) \<notin> set ?al" by (force simp: map_of_eq_None_iff)
    then show ?thesis using None by auto
  next
    case (Some w)
    then have "(c, w) \<in> set ?al" using assms by (simp add: map_of_allocated mem_allocated)
    moreover have "map_of ?al c = Some u" if "(c, u) \<in> set ?al" for u
      using that map_of_allocated [OF assms, of nid c u] mem_allocated [of c u db nid] by blast
    then have "(c, u) \<in> set ?al \<Longrightarrow> u = w" for u using Some by (metis option.inject)
    ultimately have "(\<forall>(d, u) \<in> set ?al. d = c \<longrightarrow> u = v) \<longleftrightarrow> w = v" by blast
    then show ?thesis using Some by simp
  qed
  have flat: "exclusive_core [] ?al v c" for c by (simp add: exclusive_core_def)
  let ?D = "Set.filter (\<lambda>c. map_of ?al c = None \<or> map_of ?al c = Some v) ?P"
  have off: "c \<in> offrables db nid v ?P \<longleftrightarrow> c \<in> ?D \<and> exclusive_core ?m ?al v c" for c
    using own by (auto simp: offrables_def)
  show ?thesis
  proof (cases "?m = []")
    case True
    then have "offrables db nid v ?P = ?D" by (intro set_eqI) (simp only: off flat simp_thms)
    with True show ?thesis by (simp add: free_dedicated_capacity_def Let_def)
  next
    case False
    have pair: "(\<lambda>(c, w). Some w \<noteq> Some v) = (\<lambda>cv. snd cv \<noteq> v)" by auto
    have "phys_libres ?m ?al v ?D = offrables db nid v ?P"
      by (rule set_eqI) (simp only: phys_libres_iff off)
    with False show ?thesis
      by (simp only: free_dedicated_capacity_def Let_def pair phys_libres_def if_False)
  qed
qed

text \<open>Each core of the node is in exactly one group of the grid, with the cores of the same key.\<close>

lemma mset_dict_put:
  "distinct (map fst d) \<Longrightarrow> mset (concat (map snd (dict_put k (l @ [x]) d))) + (case map_of d k of None \<Rightarrow> {#} | Some l0 \<Rightarrow> mset l0) =
     mset l + {#x#} + mset (concat (map snd d))"
proof (induction d)
  case (Cons p d)
  show ?case
  proof (cases "fst p = k")
    case True
    then show ?thesis by (cases p) (simp add: ac_simps)
  next
    case False
    then show ?thesis using Cons by (cases p) (simp add: ac_simps)
  qed
qed simp

lemma mset_dict_push:
  assumes "distinct (map fst d)"
  shows "mset (concat (map snd (dict_push k x d))) = {#x#} + mset (concat (map snd d))"
  using mset_dict_put [OF assms, of k "case map_of d k of None \<Rightarrow> [] | Some l \<Rightarrow> l" x]
  by (auto simp: dict_push_def split: option.splits)

lemma groups_mset:
  "distinct (map fst d) \<Longrightarrow>
   mset (concat (map snd (fold (\<lambda>x d. dict_push (k x) x d) xs d))) = mset xs + mset (concat (map snd d))"
  by (induction xs arbitrary: d) (simp_all add: mset_dict_push distinct_dict_push)

lemma groups_key:
  "(g, cs) \<in> set (fold (\<lambda>x d. dict_push (k x) x d) xs []) \<Longrightarrow> x \<in> set cs \<Longrightarrow> k x = g"
proof -
  have put: "(g, cs) \<in> set (dict_put a l d) \<Longrightarrow> (g, cs) = (a, l) \<or> (g, cs) \<in> set d" for g cs a l d
    by (induction d) (auto split: if_splits)
  have step: "\<forall>(g, cs) \<in> set (dict_push (k y) y d). \<forall>x \<in> set cs. k x = g"
    if "\<forall>(g, cs) \<in> set d. \<forall>x \<in> set cs. k x = g" for y d
  proof -
    have "\<forall>x \<in> set l. k x = k y" if "map_of d (k y) = Some l" for l
      using that \<open>\<forall>(g, cs) \<in> set d. \<forall>x \<in> set cs. k x = g\<close> by (auto dest!: map_of_SomeD)
    then show ?thesis using that by (auto simp: dict_push_def dest!: put split: option.splits)
  qed
  have "\<forall>(g, cs) \<in> set (fold (\<lambda>x d. dict_push (k x) x d) xs d). \<forall>x \<in> set cs. k x = g"
    if "\<forall>(g, cs) \<in> set d. \<forall>x \<in> set cs. k x = g" for d
    using that
  proof (induction xs arbitrary: d)
    case (Cons a xs)
    show ?case using Cons.IH [OF step [OF Cons.prems]] by simp
  qed simp
  from this [of "[]"]
  show "(g, cs) \<in> set (fold (\<lambda>x d. dict_push (k x) x d) xs []) \<Longrightarrow> x \<in> set cs \<Longrightarrow> k x = g" by auto
qed

lemma mset_concat_map: "mset (concat (map f xs)) = (\<Sum>x \<in># mset xs. mset (f x))"
  by (induction xs) auto

lemma mset_concat_perm: "mset xs = mset ys \<Longrightarrow> mset (concat (map f xs)) = mset (concat (map f ys))"
  by (simp add: mset_concat_map)

lemma mset_concat_cong:
  "(\<And>x. x \<in> set xs \<Longrightarrow> mset (f x) = mset (g x)) \<Longrightarrow> mset (concat (map f xs)) = mset (concat (map g xs))"
  by (induction xs) auto

lemma grille_threads:
  assumes "finite pool"
  shows "mset (map th_cpu (concat (map co_threads (grille_coeurs pool core_of par_vmid vivants libres noms moteurs))))
     = mset_set (fst ` set core_of \<union> pool \<union> fst ` set (owner_map par_vmid))"
proof -
  let ?S = "fst ` set core_of \<union> pool \<union> fst ` set (owner_map par_vmid)"
  let ?g = "grille_groupes core_of (sorted_list_of_set ?S)"
  let ?key = "\<lambda>(k, cs :: int list). case k of Inl p \<Rightarrow> (False, p) | Inr c \<Rightarrow> (True, c)"
  have cpu: "th_cpu (grille_thread a b c d e f x) = x" for a b c d e f x
    by (simp add: grille_thread_def Let_def)
  have "map th_cpu (concat (map co_threads (grille_coeurs pool core_of par_vmid vivants libres noms moteurs))) =
      concat (map (\<lambda>p. sort (snd p)) (sort_key ?key ?g))"
    by (simp add: grille_coeurs_def Let_def map_concat comp_def case_prod_beta grille_coeur_def cpu)
  also have "mset \<dots> = mset (concat (map snd ?g))"
    by (metis (no_types, lifting) mset_concat_cong mset_concat_perm mset_sort)
  also have "\<dots> = mset (sorted_list_of_set ?S)" by (simp add: grille_groupes_def groups_mset)
  also have "\<dots> = mset_set ?S" using assms by (metis distinct_sorted_list_of_set finite_UnI finite_imageI
      finite_set mset_set_set set_sorted_list_of_set)
  finally show ?thesis .
qed

lemma grille_phys:
  assumes "co \<in> set (grille_coeurs pool core_of par_vmid vivants libres noms moteurs)"
    and "t \<in> set (co_threads co)"
  shows "co_phys co = map_of core_of (th_cpu t)"
proof -
  let ?g = "grille_groupes core_of (sorted_list_of_set (fst ` set core_of \<union> pool \<union> fst ` set (owner_map par_vmid)))"
  from assms(1) obtain k cs where k: "(k, cs) \<in> set ?g"
    and co: "co = grille_coeur k (map (grille_thread pool (owner_map par_vmid) vivants libres noms moteurs) (sort cs))"
    by (auto simp: grille_coeurs_def Let_def)
  from assms(2) co obtain c where c: "c \<in> set cs" and t: "th_cpu t = c"
    by (auto simp: grille_coeur_def grille_thread_def Let_def)
  have "(case map_of core_of c of Some p \<Rightarrow> Inl p | None \<Rightarrow> Inr c) = k"
    using groups_key [OF k [unfolded grille_groupes_def] c] .
  then show ?thesis using co t by (auto simp: grille_coeur_def Let_def split: option.splits)
qed

subsection \<open>Surveillance as a state machine\<close>

text \<open>
  The over-subscription of one node watched over time: the database changes as it likes between two
  checks, and the orchestrator restarts when it likes.  The second component lists what the checks
  announced: \<open>True\<close> for an over-subscription, \<open>False\<close> for the return to capacity.
\<close>

definition annonces :: "pool_db \<Rightarrow> pool_db \<Rightarrow> bool list" where
  "annonces db db' =
     map (\<lambda>a. al_key a = ''alert.resource.pool_sursouscrit'') (drop (length (alerts db)) (alerts db'))"

inductive surveillance :: "int \<Rightarrow> pool_ram \<times> bool list \<Rightarrow> pool_ram \<times> bool list \<Rightarrow> bool" for nid where
  controle: "verifier_capacite nid (db, ram) = (db', ram') \<Longrightarrow>
     surveillance nid (ram, js) (ram', js @ annonces db db')"
| redemarre: "surveillance nid (ram, js) (redemarrage ram, js)"

inductive_cases surveillanceE: "surveillance nid s s'"

fun alternates :: "bool \<Rightarrow> bool list \<Rightarrow> bool" where
  "alternates b [] = True"
| "alternates b (x # xs) = (x = b \<and> alternates (\<not> b) xs)"

lemma alternates_snoc:
  "alternates b (xs @ [y]) \<longleftrightarrow> alternates b xs \<and> y = (if xs = [] then b else \<not> last xs)"
  by (induction xs arbitrary: b) auto

definition surv_inv :: "int \<Rightarrow> pool_ram \<times> bool list \<Rightarrow> bool" where
  "surv_inv nid s \<longleftrightarrow>
     (let (ram, js) = s in
      alternates True js \<and>
      (map_of (oversub_etat ram) nid = None \<or> map_of (oversub_etat ram) nid = map_of (episodes ram) nid) \<and>
      (if js = [] then map_of (episodes ram) nid \<noteq> Some True
       else map_of (episodes ram) nid = Some (last js)))"

lemma verifier_capacite_shape:
  assumes "verifier_capacite nid (db, ram) = (db', ram')"
  obtains (still) "ram' = ram" "annonces db db' = []"
  | (news) b where "ram' = ram\<lparr>oversub_etat := dict_put nid b (oversub_etat ram), episodes := dict_put nid b (episodes ram)\<rparr>"
      "(case map_of (oversub_etat ram) nid of Some x \<Rightarrow> Some x | None \<Rightarrow> map_of (episodes ram) nid) \<noteq> Some b"
      "annonces db db' = (if (case map_of (oversub_etat ram) nid of Some x \<Rightarrow> Some x
                              | None \<Rightarrow> map_of (episodes ram) nid) = None \<and> \<not> b then [] else [b])"
proof -
  let ?prev = "case map_of (oversub_etat ram) nid of Some x \<Rightarrow> Some x | None \<Rightarrow> map_of (episodes ram) nid"
  let ?over = "oversub (capacite db nid)"
  have quiet: "annonces db db = []" by (simp add: annonces_def)
  have loud: "annonces db (add_alert k l n v kd ps db) = [k = ''alert.resource.pool_sursouscrit'']"
    for k l n v kd ps by (simp add: annonces_def add_alert_def)
  note eq = assms [unfolded verifier_capacite_def Let_def prod.case]
  show thesis
  proof (cases "db_get_node db nid")
    case None
    then show thesis using eq still quiet by simp
  next
    case (Some nd)
    show thesis
    proof (cases "py_strip (compute_cpuset nd) = [] \<or> ?prev = Some ?over")
      case True
      have "(db, ram) = (db', ram')"
      proof (cases "py_strip (compute_cpuset nd) = []")
        case empty: True
        show ?thesis using eq [unfolded Some option.case(2) if_P [OF empty]] .
      next
        case False
        with True have p: "?prev = Some ?over" by blast
        show ?thesis using eq [unfolded Some option.case(2) if_not_P [OF False] if_P [OF p]] .
      qed
      then show thesis using still quiet by simp
    next
      case False
      then have nb: "py_strip (compute_cpuset nd) \<noteq> []" "?prev \<noteq> Some ?over" by auto
      note e2 = eq [unfolded Some option.case(2) if_not_P [OF nb(1)] if_not_P [OF nb(2)]]
      have ram': "ram' = ram\<lparr>oversub_etat := dict_put nid ?over (oversub_etat ram),
          episodes := dict_put nid ?over (episodes ram)\<rparr>"
        using e2 by (cases "?prev = None"; cases ?over) simp_all
      have "annonces db db' = (if ?prev = None \<and> \<not> ?over then [] else [?over])"
        using e2 quiet loud by (cases "?prev = None"; cases ?over) auto
      with ram' False show thesis by (intro news [of ?over]) auto
    qed
  qed
qed

lemma surv_inv_step:
  assumes "surveillance nid s s'" and inv: "surv_inv nid s"
  shows "surv_inv nid s'"
  using assms(1)
proof (cases rule: surveillance.cases)
  case (controle db ram db' ram' js)
  from controle(3) show ?thesis
  proof (cases rule: verifier_capacite_shape)
    case still
    then show ?thesis using controle inv by simp
  next
    case (news b)
    then show ?thesis using controle inv
      by (auto simp: surv_inv_def alternates_snoc split: if_splits option.splits)
  qed
next
  case (redemarre ram js)
  then show ?thesis using inv by (auto simp: surv_inv_def redemarrage_def)
qed

lemma surv_inv_reach:
  "(surveillance nid)\<^sup>*\<^sup>* s s' \<Longrightarrow> surv_inv nid s \<Longrightarrow> surv_inv nid s'"
  by (induction rule: rtranclp_induct) (auto intro: surv_inv_step)

end
