(* ===== verification/Pool_Properties.thy ===== *)
theory Pool_Properties
  imports Pool_Capacity
begin

text \<open>
  The properties of the core pool: the cpuset notation, the derived pool, the choice of cores and
  the contract of the allocator, each with a witness on a small server of two sockets whose
  hyper-threading siblings are \<open>c\<close> and \<open>c + 8\<close>.
\<close>

subsection \<open>A small server\<close>

definition demo_cores :: cpu_map where
  "demo_cores = map (\<lambda>c. (c, c mod 8)) [0..15]"

definition demo_numa :: cpu_map where
  "demo_numa = map (\<lambda>c. (c, c mod 8 div 4)) [0..15]"

definition demo_ct :: "int \<Rightarrow> container" where
  "demo_ct v = \<lparr>ct_vmid = v, ct_node = 1, ct_hostname = ''mixer'', ct_status = ''running'', ct_mtl = True\<rparr>"

definition demo_db :: pool_db where
  "demo_db = \<lparr>nodes = [\<lparr>node_id = 1, node_name = ''n1'', compute_cpuset = ''2-7,10-15'',
                        capabilities = [''io2110''], cpu_count = 16\<rparr>],
     containers = [demo_ct 100, demo_ct 101],
     core_alloc = [(1, 2, 100), (1, 3, 100), (1, 12, 999)],
     settings = [], node_settings = [], alerts = [],
     core_maps = (\<lambda>_. demo_cores), numa_maps = (\<lambda>_. demo_numa),
     isolated_of = (\<lambda>_. None), gpu_numas = (\<lambda>_. []), own_latency = (\<lambda>_. None)\<rparr>"

lemma demo_ok:
  "pk_ok (core_alloc demo_db)" "\<forall>(m, c, w) \<in> set (core_alloc demo_db). 0 \<le> c"
  "node_cpuset demo_db 1 = ''2-7,10-15''" "parse_cpuset ''2-7,10-15'' \<noteq> {}"
  "101 \<in> ct_vmid ` set (containers demo_db)" "cores_of demo_db 1 101 = {}"
  by code_simp+

lemma demo_answer: "snd (allocate_cores demo_db 1 101 2 (Some 0)) = Inr (Some ''4-5'')"
  by code_simp

subsection \<open>The allocator\<close>

text \<open>What an answer with cores means for the table.\<close>

lemma allocated_answer:
  assumes "pk_ok (core_alloc db)" and "\<forall>(m, c, w) \<in> set (core_alloc db). 0 \<le> c"
    and "snd (allocate_cores db nid v n q) = Inr (Some s)"
  shows "parse_cpuset s = cores_of (fst (allocate_cores db nid v n q)) nid v"
    and "parse_cpuset s \<noteq> {}" and "pk_ok (core_alloc (fst (allocate_cores db nid v n q)))"
    and "\<forall>c \<in> parse_cpuset s.
           exclusive_core (core_maps db nid) (allocated (fst (allocate_cores db nid v n q)) nid) v c"
proof -
  let ?out = "allocate_cores db nid v n q" and ?db0 = "fst (purger_orphelines db nid)"
  let ?pool = "parse_cpuset (node_cpuset db nid)"
  have run: "0 < n \<and> nid \<noteq> 0 \<and> ?pool \<noteq> {}"
  proof (rule ccontr)
    assume "\<not> (0 < n \<and> nid \<noteq> 0 \<and> ?pool \<noteq> {})"
    then show False using assms(3) by (simp add: allocate_cores_noop)
  qed
  obtain S where S: "alloc_post ?db0 nid v (nat n) ?pool ?out S"
    using allocate_cores_post [OF assms(1), of n nid ?pool v q] run by auto
  have w: "same_world db ?db0" by (rule purger_orphelines_facts)
  have re: "reassigned (core_alloc ?db0) nid v S (core_alloc (fst ?out))"
    and ex: "\<forall>c \<in> S. exclusive_core (core_maps ?db0 nid) (allocated ?db0 nid) v c"
    and sub: "S \<subseteq> ?pool \<union> cores_of ?db0 nid v"
    and s: "S \<noteq> {}" "s = fmt_cpuset S"
    using S assms(3) by (auto simp: alloc_post_def split: if_splits)
  have nonneg: "\<forall>c \<in> S. 0 \<le> c"
  proof
    fix c assume "c \<in> S"
    then have "c \<in> ?pool \<or> (nid, c, v) \<in> set (core_alloc db)"
      using sub by (auto simp: purged_cores_of cores_of_iff split: if_splits)
    then show "0 \<le> c" using assms(2) parse_cpuset_nonneg by auto
  qed
  have "finite S" using sub by (rule finite_subset) simp
  then have ps: "parse_cpuset s = S" using nonneg s(2) by simp
  have mine: "cores_of (fst ?out) nid v = S" using re by (rule reassigned_cores_of)
  have pk': "pk_ok (core_alloc (fst ?out))" using re by (simp add: reassigned_def)
  have excl: "\<forall>c \<in> S. exclusive_core (core_maps db nid) (allocated (fst ?out) nid) v c"
    using ex reassigned_exclusive [OF re] same_world_reads(4) [OF w] by simp
  show "parse_cpuset s = cores_of (fst ?out) nid v" "parse_cpuset s \<noteq> {}" "pk_ok (core_alloc (fst ?out))"
    and "\<forall>c \<in> parse_cpuset s. exclusive_core (core_maps db nid) (allocated (fst ?out) nid) v c"
    using ps mine s(1) pk' excl by auto
qed

text \<open>
  C1. Exclusivity.  Whenever \<open>allocate_cores\<close> answers a cpuset, that text denotes exactly the cores
  the table now records for the container, and no other container holds one of these cores nor a
  hyper-threading sibling of one of them; this needs nothing of the reservations made before but the
  primary key.
\<close>

theorem allocate_cores_exclusive:
  assumes "pk_ok (core_alloc db)" and "\<forall>(m, c, w) \<in> set (core_alloc db). 0 \<le> c"
    and "snd (allocate_cores db nid v n q) = Inr (Some s)"
  shows "parse_cpuset s = cores_of (fst (allocate_cores db nid v n q)) nid v \<and> parse_cpuset s \<noteq> {} \<and>
         (\<forall>c \<in> parse_cpuset s. \<forall>(d, w) \<in> set (allocated (fst (allocate_cores db nid v n q)) nid).
            w \<noteq> v \<longrightarrow> d \<noteq> c \<and> (\<forall>p. map_of (core_maps db nid) c = Some p \<longrightarrow>
                                    map_of (core_maps db nid) d \<noteq> Some p))"
proof -
  let ?db' = "fst (allocate_cores db nid v n q)"
  note a = allocated_answer [OF assms]
  have ne: "d \<noteq> c" if "c \<in> parse_cpuset s" "(d, u) \<in> set (allocated ?db' nid)" "u \<noteq> v" for c d u
  proof
    assume "d = c"
    then have "u = v" using that a(1) pk_owner_unique [OF a(3), of nid c u v]
      by (simp add: mem_allocated flip: cores_of_iff)
    with that(3) show False by simp
  qed
  have ph: "map_of (core_maps db nid) d \<noteq> Some p"
    if "c \<in> parse_cpuset s" "(d, u) \<in> set (allocated ?db' nid)" "u \<noteq> v" "map_of (core_maps db nid) c = Some p" for c d u p
    using a(4) that unfolding exclusive_core_def by fastforce
  show ?thesis
  proof (intro conjI a(1,2) ballI)
    fix c x assume c: "c \<in> parse_cpuset s" and x: "x \<in> set (allocated ?db' nid)"
    show "case x of (d, w) \<Rightarrow> w \<noteq> v \<longrightarrow> d \<noteq> c \<and>
        (\<forall>p. map_of (core_maps db nid) c = Some p \<longrightarrow> map_of (core_maps db nid) d \<noteq> Some p)"
    proof (cases x)
      case (Pair d u)
      show ?thesis using x ne [OF c, of d u] ph [OF c, of d u] unfolding Pair by simp
    qed
  qed
qed

theorem allocate_cores_exclusive_witness:
  "parse_cpuset ''4-5'' = cores_of (fst (allocate_cores demo_db 1 101 2 (Some 0))) 1 101"
  using allocate_cores_exclusive [OF demo_ok(1,2) demo_answer] by simp

text \<open>
  C2. The allocator never raises: with the primary key in force, no call ends in an
  \<open>IntegrityError\<close>, whatever the state of the pool, and the call keeps the primary key, the nodes,
  the containers and the settings.
\<close>

theorem allocate_cores_never_raises:
  assumes "pk_ok (core_alloc db)"
  shows "(\<exists>r. snd (allocate_cores db nid v n q) = Inr r) \<and>
         pk_ok (core_alloc (fst (allocate_cores db nid v n q))) \<and>
         same_world db (fst (allocate_cores db nid v n q))"
proof (cases "0 < n \<and> nid \<noteq> 0 \<and> parse_cpuset (node_cpuset db nid) \<noteq> {}")
  case True
  then obtain S where "alloc_post (fst (purger_orphelines db nid)) nid v (nat n)
      (parse_cpuset (node_cpuset db nid)) (allocate_cores db nid v n q) S"
    using allocate_cores_post [OF assms] by blast
  then show ?thesis
    using same_world_trans [OF purger_orphelines_facts(1) [of db nid]]
    by (auto simp: alloc_post_def reassigned_def)
next
  case False
  then show ?thesis using assms allocate_cores_noop [OF False] by simp
qed

theorem allocate_cores_never_raises_witness:
  "\<exists>r. snd (allocate_cores demo_db 1 101 2 (Some 0)) = Inr r"
  using allocate_cores_never_raises [OF demo_ok(1)] by blast

text \<open>
  What a call leaves alone: the reservations of every other container, on every node, are what
  they were, except that a call that looks for cores first purges the reservations of the containers
  that no longer exist and hold cores of this node.
\<close>

theorem allocate_cores_frame:
  assumes "pk_ok (core_alloc db)" and "w \<noteq> v"
  shows "(m, c, w) \<in> set (core_alloc (fst (allocate_cores db nid v n q))) \<longleftrightarrow>
         (m, c, w) \<in> set (core_alloc db) \<and>
         \<not> (0 < n \<and> nid \<noteq> 0 \<and> parse_cpuset (node_cpuset db nid) \<noteq> {} \<and>
            w \<notin> ct_vmid ` set (containers db) \<and> cores_of db nid w \<noteq> {})"
proof (cases "0 < n \<and> nid \<noteq> 0 \<and> parse_cpuset (node_cpuset db nid) \<noteq> {}")
  case True
  then obtain S where "alloc_post (fst (purger_orphelines db nid)) nid v (nat n)
      (parse_cpuset (node_cpuset db nid)) (allocate_cores db nid v n q) S"
    using allocate_cores_post [OF assms(1)] by blast
  then have "(m, c, w) \<in> set (core_alloc (fst (allocate_cores db nid v n q))) \<longleftrightarrow>
      (m, c, w) \<in> set (core_alloc (fst (purger_orphelines db nid)))"
    using assms(2) by (simp add: alloc_post_def reassigned_def)
  with True show ?thesis by (simp only: purger_orphelines_facts(2) orphan_def simp_thms)
next
  case False
  show ?thesis unfolding allocate_cores_noop [OF False] fst_conv using False by blast
qed

theorem allocate_cores_frame_witness:
  "(1, 2, 100) \<in> set (core_alloc (fst (allocate_cores demo_db 1 101 2 (Some 0)))) \<and>
   (1, 12, 999) \<notin> set (core_alloc (fst (allocate_cores demo_db 1 101 2 (Some 0))))"
proof -
  have a: "(100 :: int) \<noteq> 101" and b: "(999 :: int) \<noteq> 101" by simp_all
  have "100 \<in> ct_vmid ` set (containers demo_db)" "(1, 2, 100) \<in> set (core_alloc demo_db)"
    "999 \<notin> ct_vmid ` set (containers demo_db)" "cores_of demo_db 1 999 \<noteq> {}" by code_simp+
  then show ?thesis
    using allocate_cores_frame [OF demo_ok(1) a, of 1 2 1 2 "Some 0"]
      allocate_cores_frame [OF demo_ok(1) b, of 1 12 1 2 "Some 0"] demo_ok(3,4) by simp
qed



text \<open>
  C4. Stability: a second call with the same arguments gives the same answer and leaves the table as
  it is, for a container that exists and whose cores are in the pool; two placements of equal grade
  are never swapped back and forth.
\<close>

theorem allocate_cores_stable:
  assumes "pk_ok (core_alloc db)" and "v \<in> ct_vmid ` set (containers db)"
    and "cores_of db nid v \<subseteq> parse_cpuset (node_cpuset db nid)"
  shows "let (db1, r1) = allocate_cores db nid v n q; (db2, r2) = allocate_cores db1 nid v n q
         in r2 = r1 \<and> core_alloc db2 = core_alloc db1"
proof -
  obtain db1 r1 where out: "allocate_cores db nid v n q = (db1, r1)" by fastforce
  show ?thesis using allocate_again [OF assms out] out by (simp add: case_prod_beta)
qed

theorem allocate_cores_stable_witness:
  "let (db1, r1) = allocate_cores demo_db 1 101 2 (Some 0); (db2, r2) = allocate_cores db1 1 101 2 (Some 0)
   in r2 = r1 \<and> core_alloc db2 = core_alloc db1"
proof -
  have "cores_of demo_db 1 101 \<subseteq> parse_cpuset (node_cpuset demo_db 1)" using demo_ok(6) by simp
  then show ?thesis by (rule allocate_cores_stable [OF demo_ok(1,5)])
qed


text \<open>
  The purge removes the reservations of the containers that no longer exist and hold cores of
  the node, and no other; it answers those containers with their cores.
\<close>

theorem purger_orphelines_exact:
  "((m, c, w) \<in> set (core_alloc (fst (purger_orphelines db nid))) \<longleftrightarrow>
      (m, c, w) \<in> set (core_alloc db) \<and>
      \<not> (w \<notin> ct_vmid ` set (containers db) \<and> cores_of db nid w \<noteq> {})) \<and>
   fst ` set (snd (purger_orphelines db nid)) =
     {w. w \<notin> ct_vmid ` set (containers db) \<and> cores_of db nid w \<noteq> {}}"
proof -
  have "fst ` set (snd (purger_orphelines db nid)) = fst ` set (reservations_orphelines db nid)"
    by (simp add: purger_orphelines_def Let_def)
  also have "\<dots> = {w. orphan db nid w}" by (rule set_eqI) (simp only: orphans_keys mem_Collect_eq)
  finally show ?thesis unfolding purger_orphelines_facts(2) orphan_def by simp
qed

text \<open>
  The choice of cores respects the sockets: it takes exactly \<open>n\<close> of the candidates, on one NUMA
  node whenever some node has \<open>n\<close> candidates, and on the preferred node, silently, whenever that one
  has them.
\<close>

theorem strict_pick_socket:
  assumes "strict_pick free n m q p = (r, mo)" and n: "0 < n" and le: "n \<le> length free" and d: "distinct free"
  shows "distinct r \<and> set r \<subseteq> set free \<and> length r = n \<and>
         ((\<exists>nd. n \<le> length (filter (\<lambda>c. map_of m c = Some nd) free)) \<longrightarrow>
            (\<exists>nd. \<forall>c \<in> set r. map_of m c = Some nd)) \<and>
         (\<forall>k. q = Some k \<and> n \<le> length (filter (\<lambda>c. map_of m c = Some k) free) \<longrightarrow>
            mo = None \<and> (\<forall>c \<in> set r. map_of m c = Some k))"
proof (cases "m = []")
  case True
  then have "r = take n free" using assms(1) by (simp add: strict_pick_def)
  with n le d True show ?thesis by (auto dest: in_set_takeD)
next
  case False
  then have pick: "choisir_numa free n m q (set free) p = (r, mo)" using assms(1) by (simp add: strict_pick_def)
  note f = choisir_numa_facts [OF pick n d subset_refl]
  have one: "\<exists>nd. \<forall>c \<in> set r. map_of m c = Some nd"
    if "n \<le> length (filter (\<lambda>c. map_of m c = Some nd) free)" for nd
    using pick
  proof (cases rule: choisir_numa_cases)
    case 1
    then show ?thesis using that n by blast
  next
    case (2 k)
    note s = prendre_facts(2) [OF d subset_refl 2(1)]
    show ?thesis using s by blast
  qed
  have pref: "mo = None \<and> (\<forall>c \<in> set r. map_of m c = Some k)"
    if "q = Some k" "n \<le> length (filter (\<lambda>c. map_of m c = Some k) free)" for k
  proof -
    have "(r, mo) = (prendre (numa_groups m free) (numa_groups m (filter (\<lambda>c. c \<in> set free) free)) (set free) p n k, None)"
      using pick that False by (simp add: choisir_numa_def Let_def)
    then have r: "r = prendre (numa_groups m free) (numa_groups m (filter (\<lambda>c. c \<in> set free) free)) (set free) p n k"
      and mo: "mo = None" by auto
    note s = prendre_facts(2) [OF d subset_refl r]
    show ?thesis using s mo by blast
  qed
  show ?thesis using f le one pref by blast
qed

theorem strict_pick_socket_witness:
  "fst (strict_pick [2, 3, 4, 5, 6] 2 demo_numa (Some 1) (\<lambda>_. 0)) = [4, 5] \<and>
   map_of demo_numa 4 = Some 1 \<and> map_of demo_numa 5 = Some 1"
proof -
  have e: "strict_pick [2, 3, 4, 5, 6] 2 demo_numa (Some 1) (\<lambda>_. 0) = ([4, 5], None)" by code_simp
  have l: "(2 :: nat) \<le> length (filter (\<lambda>c. map_of demo_numa c = Some 1) [2, 3, 4, 5, 6])" by code_simp
  have h: "0 < (2 :: nat)" "2 \<le> length [2 :: int, 3, 4, 5, 6]" "distinct [2 :: int, 3, 4, 5, 6]" by simp_all
  note t = strict_pick_socket [OF e h]
  have "None = (None :: motif option) \<and> (\<forall>c \<in> set [4, 5]. map_of demo_numa c = Some 1)"
    using conjunct2 [OF conjunct2 [OF conjunct2 [OF conjunct2 [OF t]]]] l by blast
  then show ?thesis unfolding e by simp
qed

subsection \<open>Cpusets and the derived pool\<close>

text \<open>C6. Printing a set of cores and reading it back is the identity.\<close>

theorem cpuset_round_trip:
  assumes "finite S" and "\<forall>c \<in> S. 0 \<le> c"
  shows "parse_cpuset (fmt_cpuset S) = S"
  using assms by (rule parse_fmt_cpuset)

theorem cpuset_round_trip_witness:
  "fmt_cpuset {8, 9, 10, 20} = ''8-10,20'' \<and> parse_cpuset (fmt_cpuset {8, 9, 10, 20}) = {8, 9, 10, 20}"
proof -
  have e: "fmt_cpuset {8, 9, 10, 20} = ''8-10,20''" by code_simp
  have "finite {8 :: int, 9, 10, 20}" and "\<forall>c \<in> {8 :: int, 9, 10, 20}. 0 \<le> c" by simp_all
  from cpuset_round_trip [OF this] show ?thesis by (rule conjI [OF e])
qed

text \<open>
  The derived pool is the complement of the engine's footprint among the cpus of the node; when
  the hyper-threading map is known, no core of the pool shares a physical core with one of the
  engine's logical cores, service cores included.
\<close>

theorem derive_disjoint:
  assumes "0 < n" and "distinct (map fst m)"
  shows "parse_cpuset (derive_compute_cpuset db n m) = {0..<n} - fst (engine_cpu_footprint db n m) \<and>
         engine_service_cpus db n m \<subseteq> fst (engine_cpu_footprint db n m) \<and>
         (\<forall>c \<in> parse_cpuset (derive_compute_cpuset db n m).
            \<forall>d \<in> fst (engine_cpu_footprint db n m). d \<noteq> c \<and>
              (\<forall>p. map_of m d = Some p \<longrightarrow> map_of m c \<noteq> Some p))"
proof -
  obtain base cap svc where r: "reglages_moteur db = (base, cap, svc)" by (metis prod_cases3)
  let ?F = "fst (engine_cpu_footprint db n m)"
  have F: "?F = clip_cpus n (with_siblings m (set [0..base + cap + 1 + (svc - 1)]))"
    by (simp add: engine_cpu_footprint_def r)
  have b: "1 \<le> base \<and> 2 \<le> cap"
    using r by (auto simp: reglages_moteur_def Let_def split: option.splits prod.splits if_splits)
  have "set [base + cap..base + cap + 1 + (svc - 1)] \<subseteq> set [0..base + cap + 1 + (svc - 1)]" using b by auto
  from with_siblings_mono [OF this, of m] have svc: "engine_service_cpus db n m \<subseteq> ?F"
    by (auto simp: engine_service_cpus_def r F clip_cpus_iff)
  have "map_of m c \<noteq> Some p"
    if "c \<in> {0..<n} - ?F" "d \<in> ?F" "map_of m d = Some p" for c d p
  proof
    assume "map_of m c = Some p"
    moreover have "d \<in> with_siblings m (set [0..base + cap + 1 + (svc - 1)])" using that(2) F by (simp add: clip_cpus_iff)
    ultimately have "c \<in> with_siblings m (set [0..base + cap + 1 + (svc - 1)])"
      using with_siblings_closed [OF assms(2) _ that(3)] by blast
    with that(1) have "c \<in> ?F" by (simp add: F clip_cpus_iff)
    with that(1) show False by simp
  qed
  then show ?thesis unfolding parse_derive [OF assms(1)] using svc by fast
qed

theorem derive_disjoint_witness:
  "parse_cpuset (derive_compute_cpuset demo_db 64 (map (\<lambda>c. (c, c mod 32)) [0..63])) =
     {0..<64} - fst (engine_cpu_footprint demo_db 64 (map (\<lambda>c. (c, c mod 32)) [0..63]))"
proof -
  have "distinct (map fst (map (\<lambda>c :: int. (c, c mod 32)) [0..63]))" by code_simp
  from derive_disjoint [OF _ this] show ?thesis by simp
qed

text \<open>
  \<open>ensure_compute_cpuset\<close> never overwrites: a pool already set is left and answered; a pool it
  writes is recorded as automatic, and a second call changes nothing.
\<close>

theorem ensure_never_overwrites:
  assumes "db_get_node db nid = Some nd"
  shows "(py_strip (compute_cpuset nd) \<noteq> [] \<longrightarrow>
            ensure_compute_cpuset db nid n m = (db, py_strip (compute_cpuset nd))) \<and>
         (let (db1, s) = ensure_compute_cpuset db nid n m in
            (db1 = db \<or> node_cpuset db1 nid = s \<and> s \<noteq> [] \<and>
               map_of (node_settings db1) (nid, ''compute_cpuset_auto'') = Some (SText s)) \<and>
            core_alloc db1 = core_alloc db \<and> (\<forall>k. k \<noteq> nid \<longrightarrow> node_cpuset db1 k = node_cpuset db k))"
proof -
  let ?c = "pool_par_defaut db nd n m None"
  have "node_cpuset (set_node_setting d k ky v) = node_cpuset d" for d k ky v
    by (simp add: fun_eq_iff node_cpuset_def db_get_node_def set_node_setting_def)
  note sets = this
  have ca: "core_alloc (set_node_setting (db_update_cpuset db nid s) k ky v) = core_alloc db" for s k ky v
    by (simp add: set_node_setting_def db_update_cpuset_def)
  have st: "map_of (node_settings (set_node_setting x k ky v)) (k, ky) = Some v" for x k ky v
    by (simp add: set_node_setting_def)
  show ?thesis
    using assms by (auto simp: ensure_compute_cpuset_def Let_def sets ca st node_cpuset_update)
qed

theorem ensure_never_overwrites_witness:
  "ensure_compute_cpuset demo_db 1 16 demo_cores = (demo_db, ''2-7,10-15'')"
proof -
  have n: "db_get_node demo_db 1 = Some (the (db_get_node demo_db 1))"
    and s: "py_strip (compute_cpuset (the (db_get_node demo_db 1))) = ''2-7,10-15''" by code_simp+
  show ?thesis using ensure_never_overwrites [OF n] s by simp
qed

text \<open>
  \<open>rederiver_si_auto\<close> leaves the operator's pool: it writes only a pool that is empty or the one
  it wrote itself, and what it then writes is the default pool of the node.
\<close>

theorem rederiver_keeps_operator:
  assumes "db_get_node db nid = Some nd"
  shows "if py_strip (compute_cpuset nd) \<noteq> [] \<and>
            py_strip (compute_cpuset nd) \<noteq>
              py_strip (sval_text (map_of (node_settings db) (nid, ''compute_cpuset_auto'')))
         then rederiver_si_auto db nid n m = (db, py_strip (compute_cpuset nd))
         else snd (rederiver_si_auto db nid n m) =
                (if pool_par_defaut db nd n m None = [] then py_strip (compute_cpuset nd)
                 else pool_par_defaut db nd n m None)"
  using assms by (simp add: rederiver_si_auto_def Let_def)

theorem rederiver_keeps_operator_witness:
  "rederiver_si_auto demo_db 1 16 demo_cores = (demo_db, ''2-7,10-15'')"
proof -
  have n: "db_get_node demo_db 1 = Some (the (db_get_node demo_db 1))"
    and s: "py_strip (compute_cpuset (the (db_get_node demo_db 1))) = ''2-7,10-15''"
    and a: "py_strip (sval_text (map_of (node_settings demo_db) (1, ''compute_cpuset_auto''))) = []" by code_simp+
  show ?thesis using rederiver_keeps_operator [OF n, of 16 demo_cores] s a by simp
qed


subsection \<open>Sharing, the engine, surveillance\<close>

text \<open>
  C9. The cpuset a container is created with never covers a core reserved for another container,
  dedicated or shared, except when no core of the pool is left to share; and the text is empty only
  for a node without a pool.
\<close>

theorem effective_cpuset_exclusive:
  assumes "pk_ok (core_alloc db)" and "\<forall>(m, c, w) \<in> set (core_alloc db). 0 \<le> c"
    and out: "effective_cpuset now (db, ram) nid v n q = ((db', ram'), Inr (s, ded))"
  shows "(s = [] \<longrightarrow> py_strip (node_cpuset db nid) = []) \<and>
         ((\<forall>c \<in> parse_cpuset s. \<forall>w. (nid, c, w) \<in> set (core_alloc db') \<longrightarrow> w = v) \<or>
          \<not> ded \<and> fst (partage_disponible db' nid (Some v) (Some (parse_cpuset s)) None None) = [])"
  using out
proof (cases rule: effective_cpuset_cases)
  case dedie
  have s: "snd (allocate_cores db nid v n q) = Inr (Some s)" and f: "fst (allocate_cores db nid v n q) = db'"
    using dedie(2) by simp_all
  note a = allocated_answer [OF assms(1,2) s]
  have own: "parse_cpuset s = cores_of db' nid v" and pk': "pk_ok (core_alloc db')" using a(1,3) f by simp_all
  have "w = v" if "c \<in> parse_cpuset s" "(nid, c, w) \<in> set (core_alloc db')" for c w
    using that own pk_owner_unique [OF pk', of nid c w v] by (simp add: cores_of_iff)
  with dedie show ?thesis by blast
next
  case (partage L)
  let ?pool = "parse_cpuset (py_strip (node_cpuset db nid))"
  have sub: "set L \<subseteq> ?pool" using partage(4) partage_libre(1) by (metis finite_parse_cpuset subset_iff)
  then have "parse_cpuset s = set L"
    using partage(2) parse_cpuset_nonneg by (auto intro!: parse_fmt_cpuset)
  moreover have "s \<noteq> []" using partage(2,3) by (simp add: fmt_cpuset_Nil_iff)
  ultimately show ?thesis using partage_libre(2) partage(4) by (metis finite_parse_cpuset subset_iff)
qed auto

definition demo_ram :: pool_ram where
  "demo_ram = \<lparr>alerte_last = [], oversub_etat = [], episodes = []\<rparr>"

theorem effective_cpuset_exclusive_witness:
  "let db' = fst (fst (effective_cpuset 0 (demo_db\<lparr>core_alloc := [(1, 2, 100), (1, 3, 100)]\<rparr>, demo_ram) 1 101 0 None))
   in {w. \<exists>c \<in> parse_cpuset ''4-7,10-15''. (1, c, w) \<in> set (core_alloc db')} \<subseteq> {101}"
proof -
  let ?db = "demo_db\<lparr>core_alloc := [(1, 2, 100), (1, 3, 100)]\<rparr>"
  let ?e = "effective_cpuset 0 (?db, demo_ram) 1 101 0 None"
  have s: "snd ?e = Inr (''4-7,10-15'', False)" by code_simp
  have e: "?e = ((fst (fst ?e), snd (fst ?e)), Inr (''4-7,10-15'', False))"
    using s by (metis prod.collapse)
  have h: "pk_ok (core_alloc ?db)" "\<forall>(m, c, w) \<in> set (core_alloc ?db). 0 \<le> c" by code_simp+
  have "fst (partage_disponible (fst (fst ?e)) 1 (Some 101) (Some (parse_cpuset ''4-7,10-15'')) None None) \<noteq> []"
    by code_simp
  with effective_cpuset_exclusive [OF h e] show ?thesis unfolding Let_def by blast
qed

text \<open>
  The engine owns what it runs on: after \<open>reserve_engine_cores\<close> the table says that the engine
  holds exactly the cores of its cpuset on that node, every other container holds what it held less
  those cores, the other nodes are untouched and the primary key is kept.
\<close>

theorem reserve_engine_exact:
  assumes pk: "pk_ok (core_alloc db)" and S: "finite S" "S \<noteq> {}" and nid: "nid \<noteq> 0"
  shows "snd (reserve_engine_cores db nid v S m) = Inr (sorted_list_of_set S) \<and>
         pk_ok (core_alloc (fst (reserve_engine_cores db nid v S m))) \<and>
         cores_of (fst (reserve_engine_cores db nid v S m)) nid v = S \<and>
         (\<forall>w. w \<noteq> v \<longrightarrow> cores_of (fst (reserve_engine_cores db nid v S m)) nid w = cores_of db nid w - S) \<and>
         (\<forall>k w. k \<noteq> nid \<longrightarrow> cores_of (fst (reserve_engine_cores db nid v S m)) k w = cores_of db k w)"
proof -
  have d: "distinct (sorted_list_of_set S)" by simp
  obtain t vs where take: "take_engine_rows db nid v (sorted_list_of_set S) = Some (db\<lparr>core_alloc := t\<rparr>, vs)"
    and pkt: "pk_ok t"
    and t: "\<And>k c w. (k, c, w) \<in> set t \<longleftrightarrow> (if k = nid \<and> c \<in> S then w = v
            else (k, c, w) \<in> set (core_alloc db) \<and> \<not> (k = nid \<and> w = v))"
    using take_engine_rows_ok [OF pk d, of nid v] S(1) by (metis set_sorted_list_of_set)
  have ca: "core_alloc (fst (reserve_engine_cores db nid v S m)) = t"
    and r: "snd (reserve_engine_cores db nid v S m) = Inr (sorted_list_of_set S)"
    using take nid S by (simp_all add: reserve_engine_cores_def Let_def sorted_list_of_set_eq_Nil_iff)
  show ?thesis using ca r pkt by (auto simp: set_eq_iff cores_of_iff t)
qed

theorem reserve_engine_exact_witness:
  "cores_of (fst (reserve_engine_cores demo_db 1 500 {0, 1, 2} demo_cores)) 1 500 = {0, 1, 2} \<and>
   cores_of (fst (reserve_engine_cores demo_db 1 500 {0, 1, 2} demo_cores)) 1 100 = {3}"
proof -
  have "cores_of demo_db 1 100 = {2, 3}" by code_simp
  then show ?thesis using reserve_engine_exact [OF demo_ok(1), of "{0, 1, 2}" 1 500 demo_cores] by auto
qed

text \<open>
  The pool follows the engine: after the reservation, the pool of the node is the former pool
  less the engine's cores and their hyper-threading siblings, unless nothing would remain, in which
  case it is left as it was.
\<close>

theorem reserve_engine_pool:
  assumes pk: "pk_ok (core_alloc db)" and S: "finite S" "S \<noteq> {}" and nid: "nid \<noteq> 0"
  shows "let pool = parse_cpuset (node_cpuset db nid);
             rest = pool - (S \<union> {c. m \<noteq> [] \<and> (\<exists>p. map_of m c = Some p \<and> p \<in> phys_of m S)})
         in parse_cpuset (node_cpuset (fst (reserve_engine_cores db nid v S m)) nid) =
              (if rest = {} then pool else rest)"
proof -
  have d: "distinct (sorted_list_of_set S)" by simp
  obtain t vs where take: "take_engine_rows db nid v (sorted_list_of_set S) = Some (db\<lparr>core_alloc := t\<rparr>, vs)"
    by (rule take_engine_rows_ok [OF pk d])
  have "\<exists>db3. fst (reserve_engine_cores db nid v S m) = fst (exclure_du_pool db3 nid S m) \<and>
      node_cpuset db3 nid = node_cpuset db nid"
    using take nid S
    by (simp add: reserve_engine_cores_def Let_def sorted_list_of_set_eq_Nil_iff split del: if_split)
      (intro exI conjI, rule refl, simp)
  then obtain db3 where "fst (reserve_engine_cores db nid v S m) = fst (exclure_du_pool db3 nid S m)"
    and "node_cpuset db3 nid = node_cpuset db nid" by blast
  then show ?thesis using exclure_pool [OF refl refl, of db3 nid S m] by (simp add: Let_def)
qed

theorem reserve_engine_pool_witness:
  "parse_cpuset (node_cpuset (fst (reserve_engine_cores demo_db 1 500 {0, 1, 2} demo_cores)) 1) =
   {3, 4, 5, 6, 7, 11, 12, 13, 14, 15}"
proof -
  have r: "parse_cpuset (node_cpuset demo_db 1) - ({0, 1, 2} \<union> {c. demo_cores \<noteq> [] \<and>
      (\<exists>p. map_of demo_cores c = Some p \<and> p \<in> phys_of demo_cores {0, 1, 2})}) =
      Set.filter (\<lambda>c. c \<notin> {0, 1, 2} \<and> (case map_of demo_cores c of None \<Rightarrow> True
          | Some p \<Rightarrow> p \<notin> phys_of demo_cores {0, 1, 2})) (parse_cpuset (node_cpuset demo_db 1))"
    by (auto simp: demo_cores_def split: option.splits)
  also have "\<dots> = {3, 4, 5, 6, 7, 11, 12, 13, 14, 15}" by code_simp
  finally have r': "parse_cpuset (node_cpuset demo_db 1) - ({0, 1, 2} \<union> {c. demo_cores \<noteq> [] \<and>
      (\<exists>p. map_of demo_cores c = Some p \<and> p \<in> phys_of demo_cores {0, 1, 2})}) = {3, 4, 5, 6, 7, 11, 12, 13, 14, 15}" .
  have h: "finite {0 :: int, 1, 2}" "{0 :: int, 1, 2} \<noteq> {}" "(1 :: int) \<noteq> 0" by simp_all
  show ?thesis
    using reserve_engine_pool [OF demo_ok(1) h, of demo_cores 500, unfolded Let_def r'] by simp
qed

text \<open>
  The alert on over-subscription is edge triggered across restarts: from an initial state,
  whatever the database becomes between two checks and however often the orchestrator restarts, the
  announcements for a node alternate, and the first one is an over-subscription.
\<close>

theorem surveillance_alternates:
  assumes "(surveillance nid)\<^sup>*\<^sup>* (demo_ram, []) (ram, js)"
  shows "alternates True js"
  using surv_inv_reach [OF assms] by (simp add: surv_inv_def demo_ram_def)

text \<open>A node whose pool holds nothing free, then the same node after a return to capacity.\<close>

definition full_db :: pool_db where
  "full_db = demo_db\<lparr>nodes := [\<lparr>node_id = 1, node_name = ''n1'', compute_cpuset = ''2'',
                                   capabilities = [], cpu_count = 16\<rparr>],
                     containers := [demo_ct 100, (demo_ct 101)\<lparr>ct_mtl := False\<rparr>]\<rparr>"

theorem surveillance_alternates_witness:
  "\<exists>ram. (surveillance 1)\<^sup>*\<^sup>* (demo_ram, []) (ram, [True, False]) \<and> alternates True [True, False]"
proof -
  let ?free = "full_db\<lparr>containers := []\<rparr>"
  let ?s1 = "verifier_capacite 1 (full_db, demo_ram)"
  let ?s2 = "verifier_capacite 1 (?free, redemarrage (snd ?s1))"
  have a: "annonces full_db (fst ?s1) = [True]" "annonces ?free (fst ?s2) = [False]" by code_simp+
  have "surveillance 1 (demo_ram, []) (snd ?s1, [True])"
    using surveillance.controle [of 1 full_db demo_ram "fst ?s1" "snd ?s1" "[]"] a by simp
  moreover have "surveillance 1 (snd ?s1, [True]) (redemarrage (snd ?s1), [True])"
    by (rule surveillance.redemarre)
  moreover have "surveillance 1 (redemarrage (snd ?s1), [True]) (snd ?s2, [True, False])"
    using surveillance.controle [of 1 ?free "redemarrage (snd ?s1)" "fst ?s2" "snd ?s2" "[True]"] a by simp
  ultimately have reach: "(surveillance 1)\<^sup>*\<^sup>* (demo_ram, []) (snd ?s2, [True, False])"
    by (meson converse_rtranclp_into_rtranclp rtranclp.rtrancl_refl)
  then show ?thesis using surveillance_alternates by blast
qed

text \<open>
  The grid shown to the operator accounts for every core once: the threads of its lines are
  exactly the cores of the hyper-threading map, of the pool and of the reservations, each one time,
  and a line gathers threads of the physical core it names.
\<close>

theorem grille_partition:
  assumes "finite pool"
  shows "mset (map th_cpu (concat (map co_threads (grille_coeurs pool m par_vmid vivants libres noms moteurs))))
           = mset_set (fst ` set m \<union> pool \<union> fst ` set (owner_map par_vmid)) \<and>
         (\<forall>co \<in> set (grille_coeurs pool m par_vmid vivants libres noms moteurs).
            \<forall>t \<in> set (co_threads co). co_phys co = map_of m (th_cpu t))"
  using grille_threads [OF assms] grille_phys by blast

theorem grille_partition_witness:
  "mset (map th_cpu (concat (map co_threads (grille_coeurs {2, 3, 10} demo_cores [(100, [2, 3])] {100} {10} [] {}))))
     = mset_set (fst ` set demo_cores \<union> {2, 3, 10} \<union> fst ` set (owner_map [(100, [2, 3])]))"
  using grille_partition [of "{2, 3, 10}" demo_cores "[(100, [2, 3])]" "{100}" "{10}" "[]" "{}"] by simp

text \<open>
  The counter and the allocator disagree on isolated cores: on a node whose whole pool is in
  the kernel's isolated band, the counter says that no core can be had, and the allocator gives two
  of them.
\<close>

theorem allocate_isolated_cores:
  "let db = demo_db\<lparr>isolated_of := (\<lambda>_. Some {2..15})\<rparr> in
   free_dedicated_capacity db 1 (Some 101) = 0 \<and>
   snd (allocate_cores db 1 101 2 None) = Inr (Some ''4-5'')"
  by code_simp

end
