(* ===== verification/Ipv4.thy ===== *)
theory Ipv4
  imports Bobi_Prelude
begin

text \<open>
  The part of Python's \<open>ipaddress\<close> the allocators of \<open>app/allocations.py\<close> use: dotted-quad text to
  an integer (\<open>int(IPv4Address(s))\<close>), back (\<open>str(IPv4Address(i))\<close>), and the hosts of a network.
  A text the parser refuses is \<open>None\<close> (an \<open>AddressValueError\<close>); so is an integer out of range.
\<close>

fun dec_val :: "nat \<Rightarrow> string \<Rightarrow> nat option" where
  "dec_val acc [] = Some acc"
| "dec_val acc (c # cs) = (case digit_val c of None \<Rightarrow> None | Some d \<Rightarrow> dec_val (10 * acc + d) cs)"

text \<open>One octet: one to three ASCII digits, no leading zero, at most 255.\<close>

definition octet_val :: "string \<Rightarrow> nat option" where
  "octet_val s =
     (if s = [] \<or> 3 < length s \<or> (hd s = CHR ''0'' \<and> length s \<noteq> 1) then None
      else (case dec_val 0 s of None \<Rightarrow> None | Some n \<Rightarrow> if n \<le> 255 then Some n else None))"

definition ip_int :: "string \<Rightarrow> int option" where
  "ip_int s =
     (case map octet_val (split_char (CHR ''.'') s) of
        [Some a, Some b, Some c, Some d] \<Rightarrow> Some (int (((a * 256 + b) * 256 + c) * 256 + d))
      | _ \<Rightarrow> None)"

definition ip_text :: "int \<Rightarrow> string option" where
  "ip_text i =
     (if i < 0 \<or> 4294967296 \<le> i then None
      else
        let n = nat i
        in Some (join_with ''.''
             [str_nat (n div 16777216), str_nat (n div 65536 mod 256), str_nat (n div 256 mod 256),
              str_nat (n mod 256)]))"

text \<open>
  \<open>list(ip_network(s, strict=False).hosts())\<close> for a subnet written with a prefix length, as the
  private subnets of the program are; without one the network is a single address.
\<close>

definition prefix_len :: "string \<Rightarrow> nat option" where
  "prefix_len s =
     (if s = [] then None
      else (case dec_val 0 s of None \<Rightarrow> None | Some n \<Rightarrow> if n \<le> 32 then Some n else None))"

definition net_hosts :: "string \<Rightarrow> int list option" where
  "net_hosts s =
     (let (addr, pl) = (if CHR ''/'' \<in> set s then split_once (CHR ''/'') s else (s, ''32''))
      in case (ip_int addr, prefix_len pl) of
           (Some a, Some l) \<Rightarrow>
             let sz = 2 ^ (32 - l);
                 base = a - a mod sz
             in Some (if l = 32 then [base] else if l = 31 then [base, base + 1]
                      else [base + 1..base + sz - 2])
         | _ \<Rightarrow> None)"

subsection \<open>Round trip\<close>

lemma dec_val_digits: "\<forall>c \<in> set s. is_digit c \<Longrightarrow> s \<noteq> [] \<Longrightarrow> dec_val 0 s = int_digits 0 False s"
proof -
  have "dec_val acc s = int_digits acc b s" if "\<forall>c \<in> set s. is_digit c" "b \<or> s \<noteq> []" for acc b s
    using that
  proof (induction s arbitrary: acc b)
    case (Cons c s)
    then obtain v where "digit_val c = Some v" by (auto simp: is_digit_def digit_val_def Let_def)
    with Cons show ?case by simp
  qed auto
  then show "\<forall>c \<in> set s. is_digit c \<Longrightarrow> s \<noteq> [] \<Longrightarrow> dec_val 0 s = int_digits 0 False s" by blast
qed

lemma dec_val_str_nat: "dec_val 0 (str_nat n) = Some n"
  using dec_val_digits [OF str_nat_digits] by (simp add: int_digits_str_nat)

lemma str_nat_small: "n < 10 \<Longrightarrow> str_nat n = [digit_char n]"
  by (subst str_nat.simps) simp

lemma str_nat_two: "10 \<le> n \<Longrightarrow> str_nat n = str_nat (n div 10) @ [digit_char (n mod 10)]"
  by (subst str_nat.simps) simp

lemma hd_str_nat: "0 < n \<Longrightarrow> hd (str_nat n) \<noteq> CHR ''0''"
proof (induction n rule: str_nat.induct)
  case (1 n)
  show ?case
  proof (cases "n < 10")
    case True
    have "(of_char (digit_char n) :: nat) \<noteq> of_char (CHR ''0'')" using True 1 by simp
    then show ?thesis using True by (metis list.sel(1) str_nat_small)
  next
    case False
    then show ?thesis using 1 by (simp add: str_nat_two)
  qed
qed

lemma length_str_nat: "n < 1000 \<Longrightarrow> length (str_nat n) \<le> 3"
proof -
  assume n: "n < 1000"
  consider "n < 10" | "10 \<le> n" "n < 100" | "100 \<le> n" by linarith
  then show ?thesis
  proof cases
    case 1
    then show ?thesis by (simp add: str_nat_small)
  next
    case 2
    then have "n div 10 < 10" by linarith
    with 2 show ?thesis by (simp add: str_nat_two str_nat_small)
  next
    case 3
    then have "n div 10 div 10 < 10" "10 \<le> n div 10" using n by linarith+
    with 3 show ?thesis by (simp add: str_nat_two [of n] str_nat_two [of "n div 10"] str_nat_small)
  qed
qed

lemma octet_val_str_nat: "n \<le> 255 \<Longrightarrow> octet_val (str_nat n) = Some n"
proof (cases "n = 0")
  case False
  assume "n \<le> 255"
  then show ?thesis using hd_str_nat [of n] length_str_nat [of n] False dec_val_str_nat [of n]
    by (simp add: octet_val_def)
qed (simp add: octet_val_def str_nat_small)

lemma ip_int_text: "ip_text i = Some s \<Longrightarrow> ip_int s = Some i"
proof -
  assume s: "ip_text i = Some s"
  then have i: "0 \<le> i" "i < 4294967296" by (auto simp: ip_text_def split: if_splits)
  let ?n = "nat i"
  let ?q = "[str_nat (?n div 16777216), str_nat (?n div 65536 mod 256), str_nat (?n div 256 mod 256),
             str_nat (?n mod 256)]"
  have eq: "s = join_with ''.'' ?q" using s i by (simp add: ip_text_def Let_def)
  have "CHR ''.'' \<notin> set (str_nat k)" for k using str_nat_digits [of k] by (auto simp: is_digit_def)
  then have "split_char (CHR ''.'') s = ?q" unfolding eq by (intro split_join) auto
  moreover have "?n div 16777216 \<le> 255" using i by linarith
  moreover have "a mod 256 \<le> 255" for a :: nat
  proof -
    have "a mod 256 < 256" by simp
    then show ?thesis by linarith
  qed
  ultimately have "ip_int s = Some (int (((?n div 16777216 * 256 + ?n div 65536 mod 256) * 256 + ?n div 256 mod 256) * 256 + ?n mod 256))"
    by (simp add: ip_int_def octet_val_str_nat)
  also have "((?n div 16777216 * 256 + ?n div 65536 mod 256) * 256 + ?n div 256 mod 256) * 256 + ?n mod 256 = ?n"
  proof -
    have "?n div 16777216 = ?n div 65536 div 256" and "?n div 65536 = ?n div 256 div 256"
      by (simp_all add: div_mult2_eq [symmetric])
    then show ?thesis by (simp only: div_mult_mod_eq)
  qed
  finally show ?thesis using i by simp
qed

lemma ip_text_inj: "ip_text i = Some s \<Longrightarrow> ip_text j = Some s \<Longrightarrow> i = j"
  using ip_int_text [of i s] ip_int_text [of j s] by simp

lemma ip_text_total: "0 \<le> i \<Longrightarrow> i < 4294967296 \<Longrightarrow> \<exists>s. ip_text i = Some s"
  by (simp add: ip_text_def Let_def)

end
