(* ===== verification/Ledger.thy ===== *)
theory Ledger
  imports Main
begin

text \<open>
  The interface of the reservation ledgers of \<open>app/database.py\<close> (vmid, container address,
  multicast group) and what their clients get from it.  A ledger decides a reservation in one atomic
  step (an \<open>INSERT\<close> under a primary key); an allocator scans candidates and keeps the first it
  wins.  The laws are stated once; the tables of the program are its instances (\<open>Net_State\<close>).
\<close>

subsection \<open>The client: a scan of candidates\<close>

fun scan_free :: "('k \<Rightarrow> 'o \<Rightarrow> 's \<Rightarrow> 's \<times> bool) \<Rightarrow> ('k \<Rightarrow> bool) \<Rightarrow> 'o \<Rightarrow> 'k list \<Rightarrow> 's \<Rightarrow> 's \<times> 'k option" where
  "scan_free res blocked x [] s = (s, None)"
| "scan_free res blocked x (k # ks) s =
     (if blocked k then scan_free res blocked x ks s
      else (case res k x s of
              (s', ok) \<Rightarrow> if ok then (s', Some k) else scan_free res blocked x ks s'))"

text \<open>
  Several scans at once, in any interleaving of their steps: each process has its candidates left
  and its result.  \<open>blocked\<close> is what each process read before it started.
\<close>

inductive race :: "('k \<Rightarrow> 'o \<Rightarrow> 's \<Rightarrow> 's \<times> bool) \<Rightarrow> ('o \<Rightarrow> 'k \<Rightarrow> bool) \<Rightarrow>
    's \<times> ('o \<Rightarrow> 'k list \<times> 'k option) \<Rightarrow> 's \<times> ('o \<Rightarrow> 'k list \<times> 'k option) \<Rightarrow> bool"
  for res blocked where
  skip: "procs p = (k # ks, None) \<Longrightarrow> blocked p k \<Longrightarrow>
     race res blocked (s, procs) (s, procs(p := (ks, None)))"
| win: "procs p = (k # ks, None) \<Longrightarrow> \<not> blocked p k \<Longrightarrow> res k p s = (s', True) \<Longrightarrow>
     race res blocked (s, procs) (s', procs(p := (ks, Some k)))"
| lose: "procs p = (k # ks, None) \<Longrightarrow> \<not> blocked p k \<Longrightarrow> res k p s = (s', False) \<Longrightarrow>
     race res blocked (s, procs) (s', procs(p := (ks, None)))"

inductive_cases raceE: "race res blocked (s, procs) t"

subsection \<open>The interface\<close>

locale ledger =
  fixes res :: "'k \<Rightarrow> 'o \<Rightarrow> 's \<Rightarrow> 's \<times> bool"
    and taken :: "'s \<Rightarrow> 'k \<Rightarrow> bool"
  assumes grant: "\<not> taken s k \<Longrightarrow> snd (res k x s)"
    and taken_after: "res k x s = (s', ok) \<Longrightarrow> taken s' j \<longleftrightarrow> taken s j \<or> ok \<and> j = k"
begin

lemma scan_some:
  "scan_free res blocked x ks s = (s', Some k) \<Longrightarrow> k \<in> set ks \<and> \<not> blocked k \<and> taken s' k"
proof (induction ks arbitrary: s)
  case (Cons j ks)
  show ?case
  proof (cases "blocked j")
    case False
    obtain s1 ok where r: "res j x s = (s1, ok)" by fastforce
    show ?thesis
    proof (cases ok)
      case True
      then show ?thesis using Cons.prems False r taken_after [OF r, of k] by auto
    qed (use Cons False r in auto)
  qed (use Cons in auto)
qed simp

lemma scan_none:
  "scan_free res blocked x ks s = (s', None) \<Longrightarrow> k \<in> set ks \<Longrightarrow> blocked k \<or> taken s k"
proof (induction ks arbitrary: s)
  case (Cons j ks)
  show ?case
  proof (cases "blocked j")
    case False
    obtain s1 ok where r: "res j x s = (s1, ok)" by fastforce
    with Cons.prems False have nok: "\<not> ok" and rest: "scan_free res blocked x ks s1 = (s', None)"
      by (auto split: if_splits)
    have "taken s j" using grant [of s j x] r nok by auto
    moreover have "taken s1 k \<longleftrightarrow> taken s k" using taken_after [OF r, of k] nok by simp
    ultimately show ?thesis using Cons.IH [OF rest] Cons.prems(2) by auto
  qed (use Cons in auto)
qed simp

lemma scan_frame:
  "scan_free res blocked x ks s = (s', r) \<Longrightarrow> taken s' j \<longleftrightarrow> taken s j \<or> r = Some j"
proof (induction ks arbitrary: s)
  case (Cons k ks)
  show ?case
  proof (cases "blocked k")
    case False
    obtain s1 ok where s1: "res k x s = (s1, ok)" by fastforce
    have t: "taken s1 j \<longleftrightarrow> taken s j \<or> ok \<and> j = k" by (rule taken_after [OF s1])
    show ?thesis using Cons False s1 t by (cases ok) auto
  qed (use Cons in auto)
qed simp

end

text \<open>A ledger that refuses whatever is taken, even by the caller.\<close>

locale strict_ledger = ledger +
  assumes fresh: "res k x s = (s', True) \<Longrightarrow> \<not> taken s k"
begin

lemma scan_fresh:
  "scan_free res blocked x ks s = (s', Some k) \<Longrightarrow> \<not> taken s k"
proof (induction ks arbitrary: s)
  case (Cons j ks)
  show ?case
  proof (cases "blocked j")
    case False
    obtain s1 ok where r: "res j x s = (s1, ok)" by fastforce
    show ?thesis
    proof (cases ok)
      case True
      then show ?thesis using Cons.prems False r fresh [of j x s s1] by auto
    next
      case no: False
      then have "scan_free res blocked x ks s1 = (s', Some k)" using Cons.prems False r by simp
      from Cons.IH [OF this] show ?thesis using taken_after [OF r, of k] no by simp
    qed
  qed (use Cons in auto)
qed simp

lemma race_strict:
  assumes "race res blocked st st'"
    and "\<forall>p q k. snd (snd st p) = Some k \<longrightarrow> taken (fst st) k \<and> (snd (snd st q) = Some k \<longrightarrow> p = q)"
  shows "\<forall>p q k. snd (snd st' p) = Some k \<longrightarrow> taken (fst st') k \<and> (snd (snd st' q) = Some k \<longrightarrow> p = q)"
  using assms
proof (cases rule: race.cases)
  case (win procs p k ks s s')
  then show ?thesis using assms(2) fresh [OF win(5)] taken_after [OF win(5)] by auto
next
  case (lose procs p k ks s s')
  then show ?thesis using assms(2) taken_after [OF lose(5)] by auto
qed auto

end

text \<open>A ledger whose rows name an owner, who may ask again for what is already his.\<close>

locale owned_ledger = ledger +
  fixes holder :: "'s \<Rightarrow> 'k \<Rightarrow> 'o option"
  assumes taken_holder: "taken s k \<longleftrightarrow> holder s k \<noteq> None"
    and granted: "res k x s = (s', True) \<Longrightarrow> holder s k = None \<or> holder s k = Some x"
    and holder_after: "res k x s = (s', ok) \<Longrightarrow> holder s' j = (if ok \<and> j = k then Some x else holder s j)"
begin

lemma scan_holder:
  "scan_free res blocked x ks s = (s', r) \<Longrightarrow> holder s' j = (if r = Some j then Some x else holder s j)"
proof (induction ks arbitrary: s)
  case (Cons k ks)
  show ?case
  proof (cases "blocked k")
    case False
    obtain s1 ok where s1: "res k x s = (s1, ok)" by fastforce
    have t: "holder s1 j = (if ok \<and> j = k then Some x else holder s j)" by (rule holder_after [OF s1])
    show ?thesis using Cons False s1 t by (cases ok) auto
  qed (use Cons in auto)
qed simp

lemma scan_not_stolen:
  "scan_free res blocked x ks s = (s', Some k) \<Longrightarrow> holder s k = None \<or> holder s k = Some x"
proof (induction ks arbitrary: s)
  case (Cons j ks)
  show ?case
  proof (cases "blocked j")
    case False
    obtain s1 ok where r: "res j x s = (s1, ok)" by fastforce
    show ?thesis
    proof (cases ok)
      case True
      then show ?thesis using Cons.prems False r granted [of j x s s1] by auto
    next
      case no: False
      then have "scan_free res blocked x ks s1 = (s', Some k)" using Cons.prems False r by simp
      from Cons.IH [OF this] show ?thesis using holder_after [OF r, of k] no by simp
    qed
  qed (use Cons in auto)
qed simp

text \<open>The winner of a key is its holder, in every interleaving.\<close>

lemma race_holder:
  assumes "race res blocked st st'" and inv: "\<forall>p k. snd (snd st p) = Some k \<longrightarrow> holder (fst st) k = Some p"
  shows "\<forall>p k. snd (snd st' p) = Some k \<longrightarrow> holder (fst st') k = Some p"
  using assms(1)
proof (cases rule: race.cases)
  case (win procs p k ks s s')
  then show ?thesis using inv granted [OF win(5)] holder_after [OF win(5)]
    by (auto split: if_splits)
next
  case (lose procs p k ks s s')
  then show ?thesis using inv holder_after [OF lose(5)] by (auto split: if_splits)
next
  case (skip procs p k ks s)
  then show ?thesis using inv by (auto split: if_splits)
qed

lemma races_holder:
  assumes "(race res blocked)\<^sup>*\<^sup>* (s0, procs0) (s, procs)" and "\<forall>p. snd (procs0 p) = None"
    and "snd (procs p) = Some k"
  shows "holder s k = Some p"
proof -
  have "\<forall>p k. snd (snd st p) = Some k \<longrightarrow> holder (fst st) k = Some p"
    if "(race res blocked)\<^sup>*\<^sup>* (s0, procs0) st" for st
    using that
  proof (induction rule: rtranclp_induct)
    case base
    then show ?case using assms(2) by simp
  next
    case (step y z)
    then show ?case using race_holder by blast
  qed
  from this [OF assms(1)] assms(3) show ?thesis by simp
qed

lemma races_distinct:
  assumes "(race res blocked)\<^sup>*\<^sup>* (s0, procs0) (s, procs)" and "\<forall>p. snd (procs0 p) = None"
    and "snd (procs p) = Some k" and "snd (procs q) = Some k"
  shows "p = q"
  using races_holder [OF assms(1,2,3)] races_holder [OF assms(1,2,4)] by simp

end

end
