(* ===== verification/Net_State.thy ===== *)
theory Net_State
  imports Pool_State Ipv4 Ledger
begin

text \<open>
  The state the address allocators of \<open>app/allocations.py\<close> work on and the three reservation ledgers
  of \<open>app/database.py\<close>: \<open>vmid_reservations\<close>, \<open>ip_reservations\<close> and \<open>mcast_allocations\<close>.
  A missing column (\<open>NULL\<close>) is \<open>None\<close>, or the empty text where the code only tests for truth.
  \<open>nd_settings\<close> holds what \<open>settings.get\<close> answers, defaults included; \<open>nd_controller\<close> the
  addresses of the orchestrator's own interfaces, read from the system.
\<close>

record net_container =
  nc_vmid :: int
  nc_node :: "int option"
  nc_ip :: string
  nc_docker_ip :: string

record net_node =
  nn_id :: int
  nn_name :: string
  nn_host :: string
  nn_shim :: string
  nn_net_mode :: string
  nn_subnet :: string
  nn_mtl_iface :: string

record net_iface =
  ni_node :: int
  ni_ifname :: string
  ni_role :: string
  ni_pair_group :: "int option"
  ni_pair_role :: string
  ni_media_network :: "int option"
  ni_gateway :: string
  ni_ip_cidr :: string
  ni_ct_start :: string
  ni_ct_end :: string

text \<open>A row of \<open>mcast_ranges\<close>; \<open>mr_match\<close> is the parsed \<open>match_json\<close>, its values as text.\<close>

record mcast_rule =
  mr_id :: int
  mr_scope :: string
  mr_media_network :: "int option"
  mr_node :: "int option"
  mr_ifname :: "string option"
  mr_base_ip :: string
  mr_size :: int
  mr_port_default :: "int option"
  mr_port_video :: "int option"
  mr_port_audio :: "int option"
  mr_port_anc :: "int option"
  mr_essence :: string
  mr_leg :: "int option"
  mr_match :: "(string \<times> string) list"
  mr_label :: string
  mr_off_video :: "int option"
  mr_off_audio :: "int option"
  mr_off_anc :: "int option"
  mr_step_audio :: "int option"

text \<open>The transport of a resource of the NMOS registry.\<close>

record transport =
  tr_ip :: string
  tr_port :: "int option"
  tr_ip1 :: string
  tr_port1 :: "int option"

type_synonym mcast_key = "string \<times> int"

record net_db =
  nd_containers :: "net_container list"
  nd_nodes :: "net_node list"
  nd_ifaces :: "net_iface list"
  nd_rules :: "mcast_rule list"
  nd_registry :: "(string \<times> transport) list"
  nd_vmid_res :: "int list"
  nd_ip_res :: "(string \<times> int) list"
  nd_mcast :: "(mcast_key \<times> string) list"
  nd_settings :: "(string \<times> sval) list"
  nd_controller :: "string list"
  nd_alerts :: "alert list"

text \<open>What the code raises and does not catch.\<close>

datatype net_error = AddressValueError | ValueError

subsection \<open>Rows and settings\<close>

definition net_text :: "net_db \<Rightarrow> string \<Rightarrow> string" where
  "net_text db k = (case map_of (nd_settings db) k of Some (SText s) \<Rightarrow> s | Some (SInt i) \<Rightarrow> str_int i | None \<Rightarrow> [])"

definition net_node_row :: "net_db \<Rightarrow> int \<Rightarrow> net_node option" where
  "net_node_row db nid = find (\<lambda>n. nn_id n = nid) (nd_nodes db)"

definition net_ct :: "net_db \<Rightarrow> int \<Rightarrow> net_container option" where
  "net_ct db v = find (\<lambda>c. nc_vmid c = v) (nd_containers db)"

definition node_ifaces :: "net_db \<Rightarrow> int \<Rightarrow> net_iface list" where
  "node_ifaces db nid = filter (\<lambda>r. ni_node r = nid) (nd_ifaces db)"

definition role_is_containers :: "string \<Rightarrow> bool" where
  "role_is_containers r = (r \<in> {''containers'', ''mgmt_containers''})"

definition node_net_mode :: "net_db \<Rightarrow> int \<Rightarrow> string" where
  "node_net_mode db nid =
     (let v = py_lower (py_strip (case net_node_row db nid of None \<Rightarrow> [] | Some n \<Rightarrow> nn_net_mode n))
      in if v \<in> {''site'', ''interne''} then v else ''site'')"

definition node_net_interne :: "net_db \<Rightarrow> int \<Rightarrow> bool" where
  "node_net_interne db nid = (node_net_mode db nid = ''interne'')"

definition net_alert :: "string \<Rightarrow> string \<Rightarrow> int option \<Rightarrow> string \<Rightarrow> (string \<times> pval) list \<Rightarrow> net_db \<Rightarrow> net_db" where
  "net_alert key level v kind ps db =
     db\<lparr>nd_alerts := nd_alerts db @ [\<lparr>al_key = key, al_level = level, al_node = None, al_vmid = v,
                                     al_kind = kind, al_params = ps\<rparr>]\<rparr>"

subsection \<open>The ledgers\<close>

definition db_reserve_vmid :: "int \<Rightarrow> net_db \<Rightarrow> net_db \<times> bool" where
  "db_reserve_vmid v db =
     (if v \<in> set (nd_vmid_res db) then (db, False)
      else (db\<lparr>nd_vmid_res := nd_vmid_res db @ [v]\<rparr>, True))"

definition db_used_vmid_reservations :: "net_db \<Rightarrow> int set" where
  "db_used_vmid_reservations db = set (nd_vmid_res db)"

definition db_prune_consumed_vmid_reservations :: "net_db \<Rightarrow> net_db" where
  "db_prune_consumed_vmid_reservations db =
     db\<lparr>nd_vmid_res := filter (\<lambda>v. v \<notin> nc_vmid ` set (nd_containers db)) (nd_vmid_res db)\<rparr>"

definition db_reserve_ip :: "string \<Rightarrow> int \<Rightarrow> net_db \<Rightarrow> net_db \<times> bool" where
  "db_reserve_ip ip v db =
     (case map_of (nd_ip_res db) ip of
        None \<Rightarrow> (db\<lparr>nd_ip_res := nd_ip_res db @ [(ip, v)]\<rparr>, True)
      | Some w \<Rightarrow> (db, w = v))"

definition db_used_ip_reservations :: "net_db \<Rightarrow> string set" where
  "db_used_ip_reservations db = fst ` set (nd_ip_res db)"

definition db_release_ip_reservation :: "string \<Rightarrow> net_db \<Rightarrow> net_db" where
  "db_release_ip_reservation ip db = db\<lparr>nd_ip_res := filter (\<lambda>r. fst r \<noteq> ip) (nd_ip_res db)\<rparr>"

definition db_release_ip_reservations_for_vmid :: "int \<Rightarrow> net_db \<Rightarrow> net_db" where
  "db_release_ip_reservations_for_vmid v db = db\<lparr>nd_ip_res := filter (\<lambda>r. snd r \<noteq> v) (nd_ip_res db)\<rparr>"

definition db_update_docker_ip :: "int \<Rightarrow> string \<Rightarrow> net_db \<Rightarrow> net_db" where
  "db_update_docker_ip v ip db =
     (let db1 = db\<lparr>nd_containers := map (\<lambda>c. if nc_vmid c = v then c\<lparr>nc_docker_ip := ip\<rparr> else c) (nd_containers db)\<rparr>
      in if ip \<noteq> [] then db_release_ip_reservation ip db1 else db1)"

definition net_delete_container :: "int \<Rightarrow> net_db \<Rightarrow> net_db" where
  "net_delete_container v db =
     db_release_ip_reservations_for_vmid v
       (db\<lparr>nd_containers := filter (\<lambda>c. nc_vmid c \<noteq> v) (nd_containers db)\<rparr>)"

definition db_reserve_mcast :: "mcast_key \<Rightarrow> string \<Rightarrow> net_db \<Rightarrow> net_db \<times> bool" where
  "db_reserve_mcast k ow db =
     (case map_of (nd_mcast db) k of
        None \<Rightarrow> (db\<lparr>nd_mcast := nd_mcast db @ [(k, ow)]\<rparr>, True)
      | Some o' \<Rightarrow> (db, o' = ow))"

definition db_mcast_for_owner :: "string \<Rightarrow> net_db \<Rightarrow> mcast_key option" where
  "db_mcast_for_owner ow db = map_option fst (find (\<lambda>r. snd r = ow) (nd_mcast db))"

definition db_release_mcast_owner :: "string \<Rightarrow> mcast_key option \<Rightarrow> net_db \<Rightarrow> net_db" where
  "db_release_mcast_owner ow keep db =
     db\<lparr>nd_mcast := filter (\<lambda>r. \<not> (snd r = ow \<and> (case keep of None \<Rightarrow> True | Some k \<Rightarrow> fst r \<noteq> k))) (nd_mcast db)\<rparr>"

definition db_release_mcast_addr :: "mcast_key \<Rightarrow> string \<Rightarrow> net_db \<Rightarrow> net_db" where
  "db_release_mcast_addr k pre db =
     db\<lparr>nd_mcast := filter (\<lambda>r. \<not> (fst r = k \<and> (pre = [] \<or> take (length pre) (snd r) = pre))) (nd_mcast db)\<rparr>"

definition db_release_mcast_prefix :: "string \<Rightarrow> net_db \<Rightarrow> net_db" where
  "db_release_mcast_prefix pre db =
     db\<lparr>nd_mcast := filter (\<lambda>r. take (length pre) (snd r) \<noteq> pre) (nd_mcast db)\<rparr>"

text \<open>\<open>f"{ip}:{port}"\<close>.\<close>

definition key_text :: "string \<Rightarrow> int \<Rightarrow> string" where
  "key_text ip port = ip @ CHR '':'' # str_int port"

definition db_used_mcast_allocations :: "net_db \<Rightarrow> string set" where
  "db_used_mcast_allocations db = (\<lambda>((ip, port), ow). key_text ip port) ` set (nd_mcast db)"

subsection \<open>The ledgers meet the interface\<close>

interpretation vmid_ledger: strict_ledger "\<lambda>v (caller :: nat). db_reserve_vmid v" "\<lambda>db v. v \<in> set (nd_vmid_res db)"
  by unfold_locales (auto simp: db_reserve_vmid_def split: if_splits)

interpretation ip_ledger: owned_ledger db_reserve_ip "\<lambda>db ip. map_of (nd_ip_res db) ip \<noteq> None"
    "\<lambda>db. map_of (nd_ip_res db)"
  by unfold_locales (auto simp: db_reserve_ip_def map_add_def split: option.splits if_splits)

interpretation mcast_ledger: owned_ledger db_reserve_mcast "\<lambda>db k. map_of (nd_mcast db) k \<noteq> None"
    "\<lambda>db. map_of (nd_mcast db)"
  by unfold_locales (auto simp: db_reserve_mcast_def map_add_def split: option.splits if_splits)

subsection \<open>Facts on the tables\<close>

lemma key_text_inj: "CHR '':'' \<notin> set ip \<Longrightarrow> CHR '':'' \<notin> set ip' \<Longrightarrow> 0 \<le> p \<Longrightarrow> 0 \<le> p' \<Longrightarrow>
  key_text ip p = key_text ip' p' \<longleftrightarrow> ip = ip' \<and> p = p'"
proof -
  assume a: "CHR '':'' \<notin> set ip" "CHR '':'' \<notin> set ip'" "0 \<le> p" "0 \<le> p'"
  have "ip = ip' \<and> p = p'" if e: "key_text ip p = key_text ip' p'"
  proof -
    have "split_once (CHR '':'') (key_text ip p) = (ip, str_int p)"
      and "split_once (CHR '':'') (key_text ip' p') = (ip', str_int p')"
      using a by (simp_all add: key_text_def split_once_append)
    with e have "ip = ip'" "str_int p = str_int p'" by simp_all
    moreover from this have "p = p'" using py_int_str_int a by (metis option.inject)
    ultimately show ?thesis by simp
  qed
  then show ?thesis by auto
qed

lemma map_of_filter_none: "map_of t k = None \<Longrightarrow> map_of (filter P t) k = None"
  by (induction t) (auto split: if_splits)

lemma map_of_filter:
  "distinct (map fst t) \<Longrightarrow>
   map_of (filter P t) k = (case map_of t k of None \<Rightarrow> None | Some w \<Rightarrow> if P (k, w) then Some w else None)"
proof (induction t)
  case (Cons r t)
  obtain j w where r: "r = (j, w)" by fastforce
  show ?case
  proof (cases "j = k")
    case True
    then have "map_of t k = None" using Cons.prems r by (simp add: map_of_eq_None_iff)
    then show ?thesis using True r by (simp add: map_of_filter_none)
  qed (use Cons r in \<open>auto split: option.splits\<close>)
qed simp

end
