(* ===== verification/Net_Alloc.thy ===== *)
theory Net_Alloc
  imports Net_State
begin

text \<open>
  Container addresses and numbers (\<open>app/allocations.py\<close>): the effective range of a node, the
  addresses never to be given, the sticky allocation of a container's address and the monotone
  allocation of vmids.
\<close>

subsection \<open>Ranges\<close>

text \<open>\<open>_node_ct_iface\<close>: the containers card of the node that carries a complete range of its own.\<close>

definition node_ct_iface :: "net_db \<Rightarrow> int option \<Rightarrow> net_iface option" where
  "node_ct_iface db nid =
     (case nid of
        None \<Rightarrow> None
      | Some i \<Rightarrow> if i = 0 then None
                  else find (\<lambda>r. role_is_containers (ni_role r) \<and> py_strip (ni_ct_start r) \<noteq> [] \<and>
                                 py_strip (ni_ct_end r) \<noteq> []) (node_ifaces db i))"

definition net_interne_subnet_defaut :: string where
  "net_interne_subnet_defaut = ''172.30.0.0/24''"

definition interne_bounds :: "net_db \<Rightarrow> int \<Rightarrow> string \<times> string" where
  "interne_bounds db nid =
     (let s0 = py_strip (case net_node_row db nid of None \<Rightarrow> [] | Some n \<Rightarrow> nn_subnet n);
          sub = (if s0 = [] then net_interne_subnet_defaut else s0)
      in case net_hosts sub of
           None \<Rightarrow> ([], [])
         | Some hosts \<Rightarrow>
             if length hosts < 3 then ([], [])
             else (the (ip_text (hosts ! 1)), the (ip_text (last hosts))))"

datatype ip_scope = Interne | NodeRange | Cluster

definition scope_text :: "ip_scope \<Rightarrow> string" where
  "scope_text s = (case s of Interne \<Rightarrow> ''interne'' | NodeRange \<Rightarrow> ''node'' | Cluster \<Rightarrow> ''cluster'')"

definition node_ip_bounds :: "net_db \<Rightarrow> int option \<Rightarrow> string \<times> string \<times> ip_scope" where
  "node_ip_bounds db nid =
     (if (case nid of None \<Rightarrow> False | Some i \<Rightarrow> i \<noteq> 0 \<and> node_net_interne db i)
      then (case interne_bounds db (the nid) of (s, e) \<Rightarrow> (s, e, Interne))
      else (case node_ct_iface db nid of
              Some it \<Rightarrow> (py_strip (ni_ct_start it), py_strip (ni_ct_end it), NodeRange)
            | None \<Rightarrow> (net_text db ''ip_start'', net_text db ''ip_end'', Cluster)))"

definition range_list :: "string \<Rightarrow> string \<Rightarrow> string list" where
  "range_list start end_ip =
     (case (ip_int start, ip_int end_ip) of
        (Some a, Some b) \<Rightarrow> map (\<lambda>i. the (ip_text i)) [min a b..max a b]
      | _ \<Rightarrow> [])"

definition ip_range :: "net_db \<Rightarrow> int option \<Rightarrow> string list" where
  "ip_range db nid = (case node_ip_bounds db nid of (s, e, sc) \<Rightarrow> range_list s e)"

subsection \<open>Occupation\<close>

definition used_vmids :: "net_db \<Rightarrow> int set" where
  "used_vmids db = nc_vmid ` set (nd_containers db)"

definition used_ips :: "net_db \<Rightarrow> int option \<Rightarrow> int option \<Rightarrow> string set" where
  "used_ips db exclude nid =
     (let rows = filter (\<lambda>c. Some (nc_vmid c) \<noteq> exclude \<and>
                             (case nid of None \<Rightarrow> True | Some i \<Rightarrow> nc_node c = Some i)) (nd_containers db)
      in set (filter (\<lambda>ip. ip \<noteq> []) (map nc_ip rows @ map nc_docker_ip rows)))"

definition reserved_ips :: "net_db \<Rightarrow> int option \<Rightarrow> string set" where
  "reserved_ips db nid =
     (let gw = py_strip (net_text db ''gateway'');
          carte = (case node_ct_iface db nid of
                     None \<Rightarrow> []
                   | Some it \<Rightarrow> [py_strip (ni_gateway it), hd (split_char (CHR ''/'') (py_strip (ni_ip_cidr it)))]);
          hosts = map (\<lambda>n. py_strip (nn_host n)) (nd_nodes db) @ map (\<lambda>n. py_strip (nn_shim n)) (nd_nodes db)
      in set (filter (\<lambda>x. x \<noteq> []) (gw # carte @ hosts)) \<union> set (nd_controller db))"

definition centralized_ipam :: "net_db \<Rightarrow> int option \<Rightarrow> bool" where
  "centralized_ipam db nid =
     (net_text db ''net_topology'' = ''separated'' \<or>
      (case nid of None \<Rightarrow> False | Some i \<Rightarrow> i \<noteq> 0 \<and> node_net_interne db i) \<or>
      node_ct_iface db nid \<noteq> None \<or>
      net_text db ''net_mode'' = ''static'' \<and> range_list (net_text db ''ip_start'') (net_text db ''ip_end'') \<noteq> [] \<or>
      1 < length (nd_nodes db))"

subsection \<open>The address of a container\<close>

definition blocked_ips :: "net_db \<Rightarrow> int \<Rightarrow> int option \<Rightarrow> string set" where
  "blocked_ips db vmid nid =
     (let prive = (case node_ip_bounds db nid of (s, e, sc) \<Rightarrow> sc = Interne)
      in used_ips db (Some vmid) (if prive then nid else None) \<union> reserved_ips db nid
         \<union> db_used_ip_reservations db)"

definition ct_node_of :: "net_db \<Rightarrow> int \<Rightarrow> int option \<Rightarrow> int option" where
  "ct_node_of db vmid nid0 =
     (case nid0 of Some i \<Rightarrow> Some i
      | None \<Rightarrow> (case net_ct db vmid of None \<Rightarrow> None | Some c \<Rightarrow> nc_node c))"

definition allocate_container_ip :: "net_db \<Rightarrow> int \<Rightarrow> int option \<Rightarrow> net_db \<times> string option" where
  "allocate_container_ip db0 vmid nid0 =
     (let cur = (case net_ct db0 vmid of None \<Rightarrow> [] | Some c \<Rightarrow> nc_docker_ip c);
          nid = ct_node_of db0 vmid nid0;
          rng = ip_range db0 nid;
          db = db_release_ip_reservations_for_vmid vmid db0;
          blocked = blocked_ips db vmid nid
      in if cur \<noteq> [] \<and> cur \<in> set rng \<and> cur \<notin> blocked then (db, Some cur)
         else (case scan_free db_reserve_ip (\<lambda>ip. ip \<in> blocked) vmid rng db of
                 (db1, Some ip) \<Rightarrow> (db1, Some ip)
               | (db1, None) \<Rightarrow>
                   (case node_ip_bounds db1 nid of (s, e, sc) \<Rightarrow>
                     (net_alert ''alert.net.ipam_plan_epuise'' ''error'' (Some vmid) ''net''
                        [(''vmid'', PInt vmid), (''scope'', PStr (scope_text sc)), (''s'', PStr s), (''e'', PStr e)] db1,
                      None))))"

definition next_free_ip :: "net_db \<Rightarrow> int option \<Rightarrow> string option" where
  "next_free_ip db nid =
     (if net_text db ''net_mode'' = ''dhcp'' then None
      else find (\<lambda>ip. ip \<notin> used_ips db None None) (ip_range db nid))"

record range_entry =
  re_scope :: string
  re_label :: string
  re_start :: string
  re_end :: string
  re_total :: int
  re_free :: int
  re_used :: "string set"
  re_node :: "int option"
  re_ifname :: "string option"

definition range_stats :: "string \<Rightarrow> string \<Rightarrow> string \<Rightarrow> string \<Rightarrow> string set \<Rightarrow> int option \<Rightarrow> string option \<Rightarrow> range_entry" where
  "range_stats start end_ip scope label occ nid ifn =
     (let rng = range_list start end_ip
      in \<lparr>re_scope = scope, re_label = label, re_start = start, re_end = end_ip, re_total = int (length rng),
          re_free = int (length (filter (\<lambda>ip. ip \<notin> occ) rng)), re_used = occ \<inter> set rng,
          re_node = nid, re_ifname = ifn\<rparr>)"

definition node_range_label :: "net_node \<Rightarrow> string" where
  "node_range_label n =
     (if nn_name n = [] then ''n'' @ [CHR 0xC5, CHR 0x93] @ ''ud '' @ str_int (nn_id n) else nn_name n)"

text \<open>\<open>None\<close> is the answer in DHCP mode, where nothing is counted.\<close>

definition ip_stats :: "net_db \<Rightarrow> range_entry list option" where
  "ip_stats db =
     (if net_text db ''net_mode'' = ''dhcp'' then None
      else
        let all = used_ips db None None;
            cluster = range_stats (net_text db ''ip_start'') (net_text db ''ip_end'') ''cluster'' ''cluster'' all None None
        in Some (cluster # concat (map (\<lambda>n.
             if node_net_interne db (nn_id n) then
               (case interne_bounds db (nn_id n) of (s, e) \<Rightarrow>
                  if s = [] then []
                  else [range_stats s e ''interne'' (node_range_label n) (used_ips db None (Some (nn_id n)))
                          (Some (nn_id n)) None])
             else
               (case node_ct_iface db (Some (nn_id n)) of
                  None \<Rightarrow> []
                | Some it \<Rightarrow> [range_stats (py_strip (ni_ct_start it)) (py_strip (ni_ct_end it)) ''node''
                               (node_range_label n) all (Some (nn_id n)) (Some (ni_ifname it))])) (nd_nodes db))))"

subsection \<open>The number of a container\<close>

text \<open>\<open>int(settings.get("vmid_start"))\<close>; \<open>None\<close> is the exception.\<close>

definition vmid_floor :: "net_db \<Rightarrow> int option" where
  "vmid_floor db =
     (case map_of (nd_settings db) ''vmid_start'' of
        Some (SInt i) \<Rightarrow> Some i
      | Some (SText s) \<Rightarrow> py_int s
      | None \<Rightarrow> None)"

record vmid_view =
  vv_start :: int
  vv_next :: int
  vv_used_count :: int
  vv_used :: "int list"

definition vmid_stats :: "net_db \<Rightarrow> vmid_view option" where
  "vmid_stats db =
     map_option (\<lambda>plancher.
       let above = sorted_list_of_set (Set.filter (\<lambda>v. plancher \<le> v) (used_vmids db));
           nxt = (if above \<noteq> [] then last above else plancher - 1) + 1
       in \<lparr>vv_start = plancher, vv_next = nxt, vv_used_count = int (length above), vv_used = above\<rparr>) (vmid_floor db)"

text \<open>The loop, with the tries left; the number is given back with the table.\<close>

fun reserve_from :: "int \<Rightarrow> nat \<Rightarrow> int \<Rightarrow> net_db \<Rightarrow> net_db \<times> int option" where
  "reserve_from plancher 0 nxt db = (db, None)"
| "reserve_from plancher (Suc tries) nxt db =
     (if plancher + 1000000 < nxt then
        (net_alert ''alert.deploy.vmid_anormal'' ''error'' None ''deploy'' [(''nxt'', PInt nxt)] db, None)
      else (case db_reserve_vmid nxt db of
              (db1, ok) \<Rightarrow> if ok then (db1, Some nxt) else reserve_from plancher tries (nxt + 1) db1))"

definition next_number :: "int \<Rightarrow> int set \<Rightarrow> int" where
  "next_number plancher used =
     (let above = Set.filter (\<lambda>v. plancher \<le> v) used
      in (if above = {} then plancher - 1 else Max above) + 1)"

definition next_free_vmid :: "net_db \<Rightarrow> net_db \<times> (net_error + int option)" where
  "next_free_vmid db0 =
     (let db = db_prune_consumed_vmid_reservations db0 in
      case vmid_floor db of
        None \<Rightarrow> (db, Inl ValueError)
      | Some plancher \<Rightarrow>
          (case reserve_from plancher 100000 (next_number plancher (used_vmids db \<union> db_used_vmid_reservations db)) db of
             (db1, r) \<Rightarrow> (db1, Inr r)))"

subsection \<open>Facts on ranges\<close>

lemma range_list_members:
  "ip \<in> set (range_list s e) \<Longrightarrow>
   \<exists>a b i. ip_int s = Some a \<and> ip_int e = Some b \<and> ip_int ip = Some i \<and> min a b \<le> i \<and> i \<le> max a b"
proof -
  have bound: "0 \<le> a \<and> a < 4294967296" if "ip_int x = Some a" for x a
  proof -
    have le: "octet_val y = Some n \<Longrightarrow> n \<le> 255" for y n
      by (auto simp: octet_val_def split: if_splits option.splits)
    show ?thesis using that by (auto simp: ip_int_def split: list.splits option.splits dest!: le)
  qed
  assume ip: "ip \<in> set (range_list s e)"
  then obtain a b where ab: "ip_int s = Some a" "ip_int e = Some b"
    by (cases "ip_int s"; cases "ip_int e") (auto simp: range_list_def)
  then obtain i where i: "min a b \<le> i" "i \<le> max a b" "ip = the (ip_text i)"
    using ip by (auto simp: range_list_def)
  have "0 \<le> i" "i < 4294967296" using bound [OF ab(1)] bound [OF ab(2)] i by auto
  then obtain t where t: "ip_text i = Some t" using ip_text_total by blast
  then have "ip_int ip = Some i" using i(3) ip_int_text by simp
  then show ?thesis using ab i by blast
qed


subsection \<open>Facts on the address of a container\<close>

lemma blocked_release:
  "blocked_ips (db_release_ip_reservations_for_vmid v db) v nid =
     used_ips db (Some v) (if (case node_ip_bounds db nid of (s, e, sc) \<Rightarrow> sc = Interne) then nid else None) \<union>
     reserved_ips db nid \<union> fst ` {r \<in> set (nd_ip_res db). snd r \<noteq> v}"
proof -
  let ?db = "db_release_ip_reservations_for_vmid v db"
  have rows: "node_ifaces ?db i = node_ifaces db i" "net_node_row ?db i = net_node_row db i" "net_text ?db k = net_text db k"
    for i k by (simp_all add: db_release_ip_reservations_for_vmid_def node_ifaces_def net_node_row_def net_text_def)
  have iface: "node_ct_iface ?db n = node_ct_iface db n" for n
    by (cases n) (simp_all add: node_ct_iface_def rows)
  have bounds: "node_ip_bounds ?db nid = node_ip_bounds db nid"
    by (cases nid) (simp_all add: node_ip_bounds_def iface interne_bounds_def node_net_interne_def node_net_mode_def rows split: option.split)
  have "reserved_ips ?db nid = reserved_ips db nid"
    unfolding reserved_ips_def iface rows by (simp add: db_release_ip_reservations_for_vmid_def)
  moreover have "used_ips ?db x n = used_ips db x n" for x n
    by (simp add: used_ips_def db_release_ip_reservations_for_vmid_def)
  moreover have "db_used_ip_reservations ?db = fst ` {r \<in> set (nd_ip_res db). snd r \<noteq> v}"
    by (simp add: db_used_ip_reservations_def db_release_ip_reservations_for_vmid_def)
  ultimately show ?thesis by (simp add: blocked_ips_def bounds)
qed

text \<open>The three ends of \<open>allocate_container_ip\<close>.\<close>

lemma allocate_container_ip_cases:
  assumes "allocate_container_ip db0 v nid0 = (db', r)"
    and nid: "nid = ct_node_of db0 v nid0" and db: "db = db_release_ip_reservations_for_vmid v db0"
  obtains (sticky) ip c where "r = Some ip" "db' = db" "net_ct db0 v = Some c" "nc_docker_ip c = ip" "ip \<noteq> []"
      "ip \<in> set (ip_range db0 nid)" "ip \<notin> blocked_ips db v nid"
  | (fresh) ip where "r = Some ip" "scan_free db_reserve_ip (\<lambda>ip. ip \<in> blocked_ips db v nid) v (ip_range db0 nid) db = (db', Some ip)"
  | (full) db1 where "r = None" "scan_free db_reserve_ip (\<lambda>ip. ip \<in> blocked_ips db v nid) v (ip_range db0 nid) db = (db1, None)"
proof -
  let ?cur = "case net_ct db0 v of None \<Rightarrow> [] | Some c \<Rightarrow> nc_docker_ip c"
  obtain db1 o1 where scan: "scan_free db_reserve_ip (\<lambda>ip. ip \<in> blocked_ips db v nid) v (ip_range db0 nid) db = (db1, o1)"
    by fastforce
  note eq = assms(1) [unfolded allocate_container_ip_def Let_def, folded nid db, unfolded scan prod.case]
  show thesis
  proof (cases "?cur \<noteq> [] \<and> ?cur \<in> set (ip_range db0 nid) \<and> ?cur \<notin> blocked_ips db v nid")
    case True
    then obtain c where c: "net_ct db0 v = Some c" by (cases "net_ct db0 v") auto
    have "(db', r) = (db, Some ?cur)" using eq [unfolded if_P [OF True]] by simp
    then show thesis using True c by (intro sticky [of "nc_docker_ip c" c]) auto
  next
    case False
    show thesis
    proof (cases o1)
      case None
      then show thesis using eq [unfolded if_not_P [OF False]] scan full by (auto split: prod.splits)
    next
      case (Some ip)
      then show thesis using eq [unfolded if_not_P [OF False]] scan fresh by auto
    qed
  qed
qed

subsection \<open>Facts on vmids\<close>

lemma next_number_above:
  assumes "finite used" and "v \<in> used" and "f \<le> v"
  shows "v < next_number f used"
proof -
  have "Max (Set.filter (\<lambda>v. f \<le> v) used) \<ge> v" using assms by (intro Max_ge) auto
  then show ?thesis using assms by (auto simp: next_number_def Let_def)
qed

lemma next_number_ge:
  assumes fin: "finite used"
  shows "f \<le> next_number f used"
proof (cases "Set.filter (\<lambda>v. f \<le> v) used = {}")
  case False
  then have "Max (Set.filter (\<lambda>v. f \<le> v) used) \<in> Set.filter (\<lambda>v. f \<le> v) used" using fin by (intro Max_in) auto
  with False show ?thesis by (simp add: next_number_def Let_def)
qed (simp add: next_number_def)

lemma next_number_fresh: "finite used \<Longrightarrow> next_number f used \<notin> used"
  using next_number_above [OF _ _ next_number_ge] by (metis less_irrefl)

text \<open>The first try always wins: nothing above the highest number is reserved.\<close>

lemma next_free_vmid_some:
  assumes "next_free_vmid db0 = (db1, Inr (Some v))" and db: "db = db_prune_consumed_vmid_reservations db0"
  obtains f where "vmid_floor db0 = Some f" "v = next_number f (used_vmids db \<union> db_used_vmid_reservations db)"
    "db1 = db\<lparr>nd_vmid_res := nd_vmid_res db @ [v]\<rparr>"
proof -
  have fl: "vmid_floor db = vmid_floor db0" by (simp add: db db_prune_consumed_vmid_reservations_def vmid_floor_def)
  obtain f where f: "vmid_floor db = Some f" using assms by (cases "vmid_floor db") (auto simp: next_free_vmid_def)
  let ?n = "next_number f (used_vmids db \<union> db_used_vmid_reservations db)"
  have new: "?n \<notin> set (nd_vmid_res db)"
    using next_number_fresh [of "used_vmids db \<union> db_used_vmid_reservations db" f]
    by (auto simp: used_vmids_def db_used_vmid_reservations_def)
  have tries: "(100000 :: nat) = Suc 99999" by simp
  have "reserve_from f 100000 ?n db = (db1, Some v)"
    using assms f by (auto simp: next_free_vmid_def Let_def split: prod.splits)
  then have "reserve_from f (Suc 99999) ?n db = (db1, Some v)" by (simp only: tries [symmetric])
  then have "v = ?n \<and> db1 = db\<lparr>nd_vmid_res := nd_vmid_res db @ [v]\<rparr>"
    using new by (simp only: reserve_from.simps db_reserve_vmid_def) (auto split: if_splits)
  then show thesis using that [of f] f fl by simp
qed

text \<open>The life of the numbers: allocations, creations under an allocated number, destructions.\<close>

inductive vmid_step :: "net_db \<times> int list \<Rightarrow> net_db \<times> int list \<Rightarrow> bool" where
  alloue: "next_free_vmid db = (db', Inr (Some v)) \<Longrightarrow> vmid_step (db, ds) (db', ds @ [v])"
| cree: "nc_vmid c \<in> set ds \<Longrightarrow> vmid_step (db, ds) (db\<lparr>nd_containers := nd_containers db @ [c]\<rparr>, ds)"
| detruit: "vmid_step (db, ds) (net_delete_container v db, ds)"

definition vmid_inv :: "net_db \<times> int list \<Rightarrow> bool" where
  "vmid_inv s = (let (db, ds) = s in
     sorted_wrt (<) ds \<and> (\<forall>f. vmid_floor db = Some f \<longrightarrow> (\<forall>v \<in> set ds. f \<le> v)) \<and>
     (ds \<noteq> [] \<longrightarrow> last ds \<in> set (nd_vmid_res db)))"

lemma vmid_inv_step: "vmid_step s s' \<Longrightarrow> vmid_inv s \<Longrightarrow> vmid_inv s'"
proof (induction rule: vmid_step.induct)
  case (alloue db0 db' v ds)
  let ?db = "db_prune_consumed_vmid_reservations db0"
  obtain f where f: "vmid_floor db0 = Some f" and v: "v = next_number f (used_vmids ?db \<union> db_used_vmid_reservations ?db)"
    and db': "db' = ?db\<lparr>nd_vmid_res := nd_vmid_res ?db @ [v]\<rparr>"
    using next_free_vmid_some [OF alloue(1) refl] by blast
  let ?used = "used_vmids ?db \<union> db_used_vmid_reservations ?db"
  have fin: "finite ?used" by (simp add: used_vmids_def db_used_vmid_reservations_def)
  have inv: "sorted_wrt (<) ds" "\<forall>x \<in> set ds. f \<le> x" "ds \<noteq> [] \<longrightarrow> last ds \<in> set (nd_vmid_res db0)"
    using alloue(2) f by (auto simp: vmid_inv_def)
  have keep: "x \<in> set (nd_vmid_res db0) \<Longrightarrow> x \<in> ?used" for x
    by (auto simp: db_prune_consumed_vmid_reservations_def used_vmids_def db_used_vmid_reservations_def)
  have top: "x \<le> last ds" if "x \<in> set ds" for x
    using that inv(1)
  proof (induction ds)
    case (Cons a ds)
    show ?case
    proof (cases "ds = []")
      case False
      then have "a < last ds" using Cons.prems(2) last_in_set by simp
      then have le: "a \<le> last ds" by simp
      show ?thesis
      proof (cases "x = a")
        case True
        then show ?thesis using le False by simp
      next
        case neq: False
        then have "x \<le> last ds" using Cons by simp
        then show ?thesis using False by simp
      qed
    qed (use Cons in simp)
  qed simp
  have lt: "x < v" if "x \<in> set ds" for x
  proof -
    have "ds \<noteq> []" using that by auto
    then have "last ds < v" unfolding v using inv(2,3) keep by (intro next_number_above [OF fin]) auto
    then show ?thesis using top [OF that] by simp
  qed
  have "f \<le> v" unfolding v by (rule next_number_ge [OF fin])
  moreover have "vmid_floor db' = Some f" using f by (simp add: db' db_prune_consumed_vmid_reservations_def vmid_floor_def)
  ultimately show ?case using inv(1,2) lt by (simp add: vmid_inv_def sorted_wrt_append db')
next
  case (cree c ds db)
  then show ?case by (simp add: vmid_inv_def vmid_floor_def)
next
  case (detruit db ds v)
  then show ?case
    by (simp add: vmid_inv_def vmid_floor_def net_delete_container_def db_release_ip_reservations_for_vmid_def)
qed

lemma vmid_inv_reach: "vmid_step\<^sup>*\<^sup>* s s' \<Longrightarrow> vmid_inv s \<Longrightarrow> vmid_inv s'"
  by (induction rule: rtranclp_induct) (auto intro: vmid_inv_step)

end
