(* ===== verification/Net_Mcast.thy ===== *)
theory Net_Mcast
  imports Net_Alloc "HOL-Library.Product_Lexorder"
begin

text \<open>
  Multicast groups (\<open>app/allocations.py\<close>): the occupied keys, the allocation in the global pool and
  in the strict range of a port, the addressing plan (one address per flow, deduced from its rank),
  the pairing of interfaces that carries ST 2022-7, and the re-planning of an engine's outputs.
\<close>

subsection \<open>What is occupied\<close>

definition transport_key :: "string \<Rightarrow> int option \<Rightarrow> string" where
  "transport_key ip p =
     ip @ CHR '':'' # (case p of None \<Rightarrow> [] | Some n \<Rightarrow> if n = 0 then [] else str_int n)"

definition mcast_keys :: "transport \<Rightarrow> string list" where
  "mcast_keys tr =
     (if tr_ip tr \<noteq> [] then [transport_key (tr_ip tr) (tr_port tr)] else []) @
     (if tr_ip1 tr \<noteq> [] then [transport_key (tr_ip1 tr) (tr_port1 tr)] else [])"

definition used_multicasts :: "net_db \<Rightarrow> string set" where
  "used_multicasts db =
     (\<Union>(set ` mcast_keys ` snd ` set (nd_registry db))) \<union> db_used_mcast_allocations db"

definition multicast_conflicts :: "net_db \<Rightarrow> (string \<times> string list) list" where
  "multicast_conflicts db =
     filter (\<lambda>(k, ids). 1 < length ids)
       (fold (\<lambda>(rid, tr) d. fold (\<lambda>k d. dict_push k rid d) (mcast_keys tr) d) (nd_registry db) [])"

subsection \<open>The reservation an owner already has\<close>

definition in_mcast_range :: "string \<Rightarrow> (int \<times> int) option \<Rightarrow> bool" where
  "in_mcast_range ip rng =
     (case rng of
        None \<Rightarrow> True
      | Some (base, sz) \<Rightarrow>
          (case ip_int ip of None \<Rightarrow> False | Some i \<Rightarrow> 1 \<le> i - base \<and> i - base < sz))"

definition reuse_owner_reservation :: "string \<Rightarrow> int \<Rightarrow> (int \<times> int) option \<Rightarrow> net_db \<Rightarrow>
    net_db \<times> mcast_key option" where
  "reuse_owner_reservation ow port rng db =
     (case db_mcast_for_owner ow db of
        None \<Rightarrow> (db, None)
      | Some (eip, eport) \<Rightarrow>
          if eport = port \<and> in_mcast_range eip rng then (db, Some (eip, port))
          else (db_release_mcast_owner ow None db, None))"

subsection \<open>The global pool\<close>

text \<open>The scan of the offsets; a group past the last IPv4 address is an exception.\<close>

fun mcast_scan :: "string set \<Rightarrow> int \<Rightarrow> int \<Rightarrow> string \<Rightarrow> int list \<Rightarrow> net_db \<Rightarrow>
    net_db \<times> (net_error + mcast_key option)" where
  "mcast_scan used a port ow [] db = (db, Inr None)"
| "mcast_scan used a port ow (i # is) db =
     (case ip_text (a + i) of
        None \<Rightarrow> (db, Inl AddressValueError)
      | Some ip \<Rightarrow>
          if key_text ip port \<in> used then mcast_scan used a port ow is db
          else (case db_reserve_mcast (ip, port) ow db of
                  (db1, ok) \<Rightarrow> if ok then (db1, Inr (Some (ip, port))) else mcast_scan used a port ow is db1))"

definition truthy_int :: "int option \<Rightarrow> int option" where
  "truthy_int v = (case v of Some i \<Rightarrow> if i = 0 then None else Some i | None \<Rightarrow> None)"

text \<open>The first value that counts as true, else the default; \<open>None\<close> is the \<open>ValueError\<close>.\<close>

definition port_or :: "int option list \<Rightarrow> net_db \<Rightarrow> int option" where
  "port_or vs db =
     (case find (\<lambda>v. truthy_int v \<noteq> None) vs of
        Some v \<Rightarrow> v
      | None \<Rightarrow> int_or (map_of (nd_settings db) ''mcast_port_default'') 5000)"

definition allocate_multicast :: "net_db \<Rightarrow> int option \<Rightarrow> string \<Rightarrow>
    net_db \<times> (net_error + mcast_key option)" where
  "allocate_multicast db port0 ow =
     (let b0 = net_text db ''mcast_pool_base'';
          base = (if b0 = [] then ''239.100.0.0'' else b0)
      in case (int_or (map_of (nd_settings db) ''mcast_pool_size'') 4096, port_or [port0] db) of
           (Some sz, Some port) \<Rightarrow>
             (case ip_int base of
                None \<Rightarrow> (db, Inr None)
              | Some a \<Rightarrow>
                  if ow = [] then (db, Inr None)
                  else (case reuse_owner_reservation ow port None db of
                          (db1, Some k) \<Rightarrow> (db1, Inr (Some k))
                        | (db1, None) \<Rightarrow>
                            (case mcast_scan (used_multicasts db1) a port ow [1..sz - 1] db1 of
                               (db2, Inr None) \<Rightarrow>
                                 (net_alert ''alert.net.pool_multicast_epuise'' ''error'' None ''net''
                                    [(''base'', PStr base), (''size'', PInt sz)] db2, Inr None)
                             | res \<Rightarrow> res)))
         | _ \<Rightarrow> (db, Inl ValueError))"

subsection \<open>Rules\<close>

definition regle_correspond :: "mcast_rule \<Rightarrow> string \<Rightarrow> int \<Rightarrow> (string \<times> string) list \<Rightarrow>
    (nat \<times> nat \<times> nat \<times> int) option" where
  "regle_correspond r essence leg fmt =
     (if mr_essence r \<noteq> [] \<and> mr_essence r \<noteq> essence then None
      else if (case mr_leg r of None \<Rightarrow> False | Some l \<Rightarrow> l \<noteq> leg) then None
      else if \<not> list_all (\<lambda>(k, v). (case map_of fmt k of None \<Rightarrow> ''None'' | Some x \<Rightarrow> x) = v) (mr_match r) then None
      else Some (if mr_essence r \<noteq> [] then 1 else 0, if mr_leg r \<noteq> None then 1 else 0,
                 length (mr_match r), mr_id r))"

definition meilleure_regle :: "mcast_rule list \<Rightarrow> string \<Rightarrow> int \<Rightarrow> (string \<times> string) list \<Rightarrow> mcast_rule option" where
  "meilleure_regle rows essence leg fmt =
     (let scored = concat (map (\<lambda>r. case regle_correspond r essence leg fmt of
                                        None \<Rightarrow> [] | Some s \<Rightarrow> [(s, r)]) rows)
      in if scored = [] then None else Some (snd (last (sort_key fst scored))))"

definition plage_applicable :: "net_db \<Rightarrow> int option \<Rightarrow> string \<Rightarrow> int option \<Rightarrow> string \<Rightarrow> int \<Rightarrow>
    (string \<times> string) list \<Rightarrow> mcast_rule option" where
  "plage_applicable db nid ifname mn essence leg fmt =
     (let par_iface = (if nid \<noteq> None \<and> nid \<noteq> Some 0 \<and> ifname \<noteq> []
                       then meilleure_regle (filter (\<lambda>r. mr_node r = nid \<and> mr_ifname r = Some ifname) (nd_rules db))
                              essence leg fmt
                       else None)
      in if par_iface \<noteq> None then par_iface
         else if mn \<noteq> None
         then meilleure_regle (filter (\<lambda>r. mr_media_network r = mn) (nd_rules db)) essence leg fmt
         else None)"

definition rule_port :: "mcast_rule \<Rightarrow> string \<Rightarrow> int option" where
  "rule_port r essence =
     (if essence = ''video'' then mr_port_video r
      else if essence = ''audio'' then mr_port_audio r
      else if essence = ''anc'' then mr_port_anc r else None)"

definition port_default_for :: "net_db \<Rightarrow> int option \<Rightarrow> string \<Rightarrow> int option \<Rightarrow> string \<Rightarrow> int \<Rightarrow>
    (string \<times> string) list \<Rightarrow> int \<Rightarrow> int" where
  "port_default_for db nid ifname mn essence leg fmt fallback =
     (case plage_applicable db nid ifname mn essence leg fmt of
        None \<Rightarrow> fallback
      | Some r \<Rightarrow>
          (case find (\<lambda>v. truthy_int v \<noteq> None) [rule_port r essence, mr_port_default r] of
             Some (Some p) \<Rightarrow> p
           | _ \<Rightarrow> fallback))"

subsection \<open>The addressing plan\<close>

record decalages =
  dec_video :: int
  dec_anc :: int
  dec_audio :: int
  pas_audio :: int

definition plan_decalages :: "mcast_rule option \<Rightarrow> decalages" where
  "plan_decalages rule =
     (let ess = (case rule of None \<Rightarrow> False | Some r \<Rightarrow> mr_essence r \<noteq> []);
          pick = (\<lambda>f d. case (case rule of None \<Rightarrow> None | Some r \<Rightarrow> f r) of
                          Some v \<Rightarrow> v | None \<Rightarrow> if ess then 0 else d)
      in \<lparr>dec_video = pick mr_off_video 0, dec_anc = pick mr_off_anc 50, dec_audio = pick mr_off_audio 100,
          pas_audio = (case (case rule of None \<Rightarrow> None | Some r \<Rightarrow> mr_step_audio r) of
                         Some v \<Rightarrow> v | None \<Rightarrow> 100)\<rparr>)"

definition plan_offset :: "mcast_rule option \<Rightarrow> string \<Rightarrow> int option \<Rightarrow> int \<Rightarrow> int \<Rightarrow> int option" where
  "plan_offset rule essence slot sub leg =
     (case slot of
        None \<Rightarrow> None
      | Some s \<Rightarrow>
          if essence \<notin> {''video'', ''anc'', ''audio''} then None
          else if leg \<noteq> 0 \<and> (case rule of None \<Rightarrow> True | Some r \<Rightarrow> mr_leg r = None) then None
          else
            let d = plan_decalages rule
            in Some (if essence = ''video'' then dec_video d + (s + 1)
                     else if essence = ''anc'' then dec_anc d + (s + 1)
                     else dec_audio d + (s + 1) + sub * pas_audio d))"

subsection \<open>The strict range of a port\<close>

definition rule_label :: "mcast_rule \<Rightarrow> string" where
  "rule_label r = (if mr_label r \<noteq> [] then mr_label r else mr_scope r @ CHR ''#'' # str_int (mr_id r))"

text \<open>The attempt at the planned address: \<open>None\<close> when it is held by another flow or there is no plan.\<close>

definition try_plan :: "mcast_rule \<Rightarrow> string \<Rightarrow> int option \<Rightarrow> int \<Rightarrow> int \<Rightarrow> int \<Rightarrow> int \<Rightarrow> string \<Rightarrow> net_db \<Rightarrow>
    net_db \<times> (net_error + mcast_key option)" where
  "try_plan r essence slot sub leg a port ow db =
     (case plan_offset (Some r) essence slot sub leg of
        None \<Rightarrow> (db, Inr None)
      | Some off \<Rightarrow>
          if 1 \<le> off \<and> off < max (mr_size r) 0 then
            (case ip_text (a + off) of
               None \<Rightarrow> (db, Inl AddressValueError)
             | Some ip \<Rightarrow>
                 (case db_reserve_mcast (ip, port) ow db of
                    (db1, ok) \<Rightarrow>
                      if ok then (db_release_mcast_owner ow (Some (ip, port)) db1, Inr (Some (ip, port)))
                      else (db1, Inr None)))
          else
            (net_alert ''alert.net.plan_multicast_hors_plage'' ''warning'' None ''net''
               [(''label'', PStr (rule_label r)), (''base'', PStr (mr_base_ip r)), (''size'', PInt (mr_size r)),
                (''essence'', PStr essence), (''off'', PInt off)] db,
             Inr None))"

definition allocate_multicast_for :: "net_db \<Rightarrow> int option \<Rightarrow> string \<Rightarrow> int option \<Rightarrow> string \<Rightarrow> int \<Rightarrow>
    int option \<Rightarrow> (string \<times> string) list \<Rightarrow> string \<Rightarrow> int option \<Rightarrow> int \<Rightarrow>
    net_db \<times> (net_error + mcast_key option)" where
  "allocate_multicast_for db nid ifname mn essence leg port0 fmt ow slot sub =
     (case plage_applicable db nid ifname mn essence leg fmt of
        None \<Rightarrow> allocate_multicast db port0 ow
      | Some r \<Rightarrow>
          if ow = [] then (db, Inr None)
          else
            (case port_or [port0, rule_port r essence, mr_port_default r] db of
               None \<Rightarrow> (db, Inl ValueError)
             | Some port \<Rightarrow>
                 (case ip_int (mr_base_ip r) of
                    None \<Rightarrow> (db, Inr None)
                  | Some a \<Rightarrow>
                      (case try_plan r essence slot sub leg a port ow db of
                         (db1, Inl e) \<Rightarrow> (db1, Inl e)
                       | (db1, Inr (Some k)) \<Rightarrow> (db1, Inr (Some k))
                       | (db1, Inr None) \<Rightarrow>
                           (case reuse_owner_reservation ow port (Some (a, max (mr_size r) 0)) db1 of
                              (db2, Some k) \<Rightarrow> (db2, Inr (Some k))
                            | (db2, None) \<Rightarrow>
                                (case mcast_scan (used_multicasts db2) a port ow [1..max (mr_size r) 0 - 1] db2 of
                                   (db3, Inr None) \<Rightarrow>
                                     (net_alert ''alert.net.plage_multicast_epuisee'' ''error'' None ''net''
                                        [(''label'', PStr (rule_label r)), (''base'', PStr (mr_base_ip r)),
                                         (''size'', PInt (mr_size r)), (''port'', PInt port)] db3, Inr None)
                                 | res \<Rightarrow> res))))))"

subsection \<open>Exhausted ranges\<close>

fun any_free :: "string set \<Rightarrow> int \<Rightarrow> int \<Rightarrow> int list \<Rightarrow> net_error + bool" where
  "any_free used a port [] = Inr False"
| "any_free used a port (i # is) =
     (case ip_text (a + i) of
        None \<Rightarrow> Inl AddressValueError
      | Some ip \<Rightarrow> if key_text ip port \<notin> used then Inr True else any_free used a port is)"

fun plages_epuisees_from :: "net_db \<Rightarrow> string set \<Rightarrow> mcast_rule list \<Rightarrow> net_error + mcast_rule list" where
  "plages_epuisees_from db used [] = Inr []"
| "plages_epuisees_from db used (r # rs) =
     (if mr_size r \<le> 0 then plages_epuisees_from db used rs
      else (case ip_int (mr_base_ip r) of
              None \<Rightarrow> plages_epuisees_from db used rs
            | Some a \<Rightarrow>
                (case port_or [mr_port_default r] db of
                   None \<Rightarrow> Inl ValueError
                 | Some port \<Rightarrow>
                     (case any_free used a port [0..mr_size r - 1] of
                        Inl e \<Rightarrow> Inl e
                      | Inr libre \<Rightarrow>
                          (case plages_epuisees_from db used rs of
                             Inl e \<Rightarrow> Inl e
                           | Inr out \<Rightarrow> Inr (if libre then out else r # out))))))"

definition plages_epuisees :: "net_db \<Rightarrow> net_error + mcast_rule list" where
  "plages_epuisees db = plages_epuisees_from db (used_multicasts db) (nd_rules db)"

subsection \<open>Paired interfaces\<close>

definition media_ifaces :: "net_db \<Rightarrow> int option \<Rightarrow> net_iface list" where
  "media_ifaces db nid =
     (case nid of None \<Rightarrow> [] | Some i \<Rightarrow> filter (\<lambda>r. ni_role r = ''media2110'') (node_ifaces db i))"

definition interface_appairee :: "net_db \<Rightarrow> int option \<Rightarrow> string \<Rightarrow> net_iface option" where
  "interface_appairee db nid ifname =
     (if nid = None \<or> nid = Some 0 \<or> ifname = [] then None
      else
        let ifaces = media_ifaces db nid in
        (case find (\<lambda>r. ni_ifname r = ifname) ifaces of
           None \<Rightarrow> None
         | Some moi \<Rightarrow>
             if ni_pair_group moi = None \<or> ni_pair_role moi = [] then None
             else find (\<lambda>r. ni_pair_group r = ni_pair_group moi \<and> ni_pair_role r \<noteq> [] \<and>
                            ni_pair_role r \<noteq> ni_pair_role moi) ifaces))"

text \<open>\<open>tx_pins\<close> and \<open>rx_pins\<close>: the interface an operator pinned a slot to.\<close>

definition primary_iface :: "net_db \<Rightarrow> int option \<Rightarrow> net_iface list \<Rightarrow> net_iface" where
  "primary_iface db nid ifaces =
     (let p = (case nid of None \<Rightarrow> [] | Some i \<Rightarrow> (case net_node_row db i of None \<Rightarrow> [] | Some n \<Rightarrow> nn_mtl_iface n))
      in case find (\<lambda>r. ni_ifname r = p) ifaces of Some r \<Rightarrow> r | None \<Rightarrow> hd ifaces)"

definition egress_iface :: "net_db \<Rightarrow> int option \<Rightarrow> (string \<times> string) list \<Rightarrow> int \<Rightarrow> int \<Rightarrow>
    (string \<times> int option) option" where
  "egress_iface db nid tx_pins slot leg =
     (if nid = None \<or> nid = Some 0 then None
      else
        let ifaces = media_ifaces db nid in
        if ifaces = [] then None
        else
          let pin = (case map_of tx_pins (str_int slot) of None \<Rightarrow> [] | Some p \<Rightarrow> p);
              row0 = (case (if pin \<noteq> [] then find (\<lambda>r. ni_ifname r = pin) ifaces else None) of
                        Some r \<Rightarrow> r | None \<Rightarrow> primary_iface db nid ifaces);
              base = Some (ni_ifname row0, ni_media_network row0)
          in if leg = 0 then base
             else if ni_pair_group row0 \<noteq> None then
               (case find (\<lambda>r. ni_pair_group r = ni_pair_group row0 \<and> ni_pair_role r \<noteq> [] \<and>
                               ni_pair_role r \<noteq> ni_pair_role row0) ifaces of
                  Some pair \<Rightarrow> Some (ni_ifname pair, ni_media_network pair)
                | None \<Rightarrow> base)
             else base)"

definition slot_redondant :: "net_db \<Rightarrow> int option \<Rightarrow> (string \<times> string) list \<Rightarrow> int \<Rightarrow> bool" where
  "slot_redondant db nid tx_pins slot =
     (case egress_iface db nid tx_pins slot 0 of
        None \<Rightarrow> False
      | Some (ifn, mn) \<Rightarrow> interface_appairee db nid ifn \<noteq> None)"

definition rx_redondant :: "net_db \<Rightarrow> int option \<Rightarrow> (string \<times> string) list \<Rightarrow> int \<Rightarrow> bool" where
  "rx_redondant db nid rx_pins slot =
     (if nid = None \<or> nid = Some 0 then False
      else
        let pin = (case map_of rx_pins (str_int slot) of None \<Rightarrow> [] | Some p \<Rightarrow> p) in
        if pin \<noteq> [] then interface_appairee db nid pin \<noteq> None
        else
          let ifaces = media_ifaces db nid in
          if ifaces = [] then False
          else interface_appairee db nid (ni_ifname (primary_iface db nid ifaces)) \<noteq> None)"

end
