(* ===== verification/Net_Mcast_Facts.thy ===== *)
theory Net_Mcast_Facts
  imports Net_Mcast
begin

text \<open>
  Facts on the multicast ledger: no operation takes an address from another owner or leaves an owner with two addresses
  (\<open>mcast_ok\<close>), and what the strict ranges and the addressing plan of a rule give.
\<close>

subsection \<open>No theft, no pile\<close>

text \<open>
  The ledger is in order when a key has one row and an owner has one key; an operation for \<open>ow\<close>
  leaves the rows of the other owners alone.
\<close>

definition mcast_ok :: "(mcast_key \<times> string) list \<Rightarrow> bool" where
  "mcast_ok t \<longleftrightarrow> distinct (map fst t) \<and> inj_on snd (set t)"

definition others_kept :: "string \<Rightarrow> net_db \<Rightarrow> net_db \<Rightarrow> bool" where
  "others_kept ow db db' \<longleftrightarrow>
     (\<forall>k x. x \<noteq> ow \<longrightarrow> map_of (nd_mcast db') k = Some x \<longleftrightarrow> map_of (nd_mcast db) k = Some x)"

definition mcast_post :: "string \<Rightarrow> net_db \<Rightarrow> net_db \<times> (net_error + mcast_key option) \<Rightarrow> bool" where
  "mcast_post ow db out \<longleftrightarrow>
     mcast_ok (nd_mcast (fst out)) \<and> others_kept ow db (fst out) \<and>
     (\<forall>k. snd out = Inr (Some k) \<longrightarrow> map_of (nd_mcast (fst out)) k = Some ow)"

lemma others_kept_refl [simp]: "others_kept ow db db"
  by (simp add: others_kept_def)

lemma others_kept_trans: "others_kept ow a b \<Longrightarrow> others_kept ow b c \<Longrightarrow> others_kept ow a c"
  by (simp add: others_kept_def)

lemma net_alert_frame [simp, frame]:
  "nd_mcast (net_alert k l v kd ps db) = nd_mcast db"
  "others_kept ow a (net_alert k l v kd ps db) = others_kept ow a db"
  by (simp_all add: net_alert_def others_kept_def)

lemma find_SomeD: "find P xs = Some x \<Longrightarrow> x \<in> set xs \<and> P x"
  by (induction xs) (auto split: if_splits)

lemma map_of_mem: "distinct (map fst t) \<Longrightarrow> map_of t k = Some x \<longleftrightarrow> (k, x) \<in> set t"
  by simp

lemma reserve_mcast_cases:
  assumes "db_reserve_mcast k ow db = (db', ok)"
  obtains (new) "ok" "map_of (nd_mcast db) k = None" "nd_mcast db' = nd_mcast db @ [(k, ow)]"
  | (own) "ok" "map_of (nd_mcast db) k = Some ow" "db' = db"
  | (held) "\<not> ok" "db' = db" "map_of (nd_mcast db) k \<noteq> None" "map_of (nd_mcast db) k \<noteq> Some ow"
  using assms by (auto simp: db_reserve_mcast_def split: option.splits if_splits)

lemma reserve_others: "db_reserve_mcast k ow db = (db', ok) \<Longrightarrow> others_kept ow db db'"
  by (auto elim!: reserve_mcast_cases simp: others_kept_def map_add_def split: option.splits if_splits)

lemma release_owner_facts:
  assumes "mcast_ok (nd_mcast db)"
  shows "mcast_ok (nd_mcast (db_release_mcast_owner ow keep db))"
    and "others_kept ow db (db_release_mcast_owner ow keep db)"
proof -
  have d: "distinct (map fst (nd_mcast db))" using assms by (simp add: mcast_ok_def)
  show "mcast_ok (nd_mcast (db_release_mcast_owner ow keep db))"
    using assms by (auto simp: mcast_ok_def db_release_mcast_owner_def distinct_map_filter_keys intro: inj_on_subset)
  show "others_kept ow db (db_release_mcast_owner ow keep db)"
    using map_of_filter [OF d] by (auto simp: others_kept_def db_release_mcast_owner_def split: option.splits)
qed

lemma mcast_ok_snoc:
  "mcast_ok t \<Longrightarrow> map_of t k = None \<Longrightarrow> ow \<notin> snd ` set t \<Longrightarrow> mcast_ok (t @ [(k, ow)])"
  by (auto simp: mcast_ok_def map_of_eq_None_iff)

text \<open>Reserving then giving back everything else leaves one key to the owner.\<close>

lemma reserve_release_ok:
  assumes ok: "mcast_ok (nd_mcast db)" and r: "db_reserve_mcast k ow db = (db1, True)"
  shows "mcast_ok (nd_mcast (db_release_mcast_owner ow (Some k) db1))"
    and "map_of (nd_mcast (db_release_mcast_owner ow (Some k) db1)) k = Some ow"
    and "others_kept ow db (db_release_mcast_owner ow (Some k) db1)"
proof -
  let ?t = "nd_mcast db" and ?P = "\<lambda>r. \<not> (snd r = ow \<and> fst r \<noteq> k)"
  have rel: "nd_mcast (db_release_mcast_owner ow (Some k) db1) = filter ?P (nd_mcast db1)"
    by (simp add: db_release_mcast_owner_def)
  have d1: "distinct (map fst (nd_mcast db1))" and rows: "set (nd_mcast db1) \<subseteq> insert (k, ow) (set ?t)"
    using r ok by (auto elim!: reserve_mcast_cases simp: mcast_ok_def map_of_eq_None_iff)
  have h: "map_of (nd_mcast db1) k = Some ow" using mcast_ledger.holder_after [OF r, of k] by simp
  have "inj_on snd (set (filter ?P (nd_mcast db1)))"
  proof (rule inj_onI)
    fix x y assume x: "x \<in> set (filter ?P (nd_mcast db1))" and y: "y \<in> set (filter ?P (nd_mcast db1))" and e: "snd x = snd y"
    show "x = y"
    proof (cases "snd x = ow")
      case True
      then show ?thesis using x y e by (auto intro: prod_eqI)
    next
      case False
      then have "x \<in> set ?t" "y \<in> set ?t" using x y e rows by auto
      then show ?thesis using ok e by (auto simp: mcast_ok_def dest: inj_onD)
    qed
  qed
  then show "mcast_ok (nd_mcast (db_release_mcast_owner ow (Some k) db1))"
    unfolding rel mcast_ok_def using d1 by (simp add: distinct_map_filter_keys)
  show "map_of (nd_mcast (db_release_mcast_owner ow (Some k) db1)) k = Some ow"
    unfolding rel using map_of_filter [OF d1, of ?P k] h by simp
  have "others_kept ow db1 (db_release_mcast_owner ow (Some k) db1)"
    unfolding others_kept_def rel using map_of_filter [OF d1, of ?P] by (auto split: option.splits)
  with reserve_others [OF r] show "others_kept ow db (db_release_mcast_owner ow (Some k) db1)"
    by (rule others_kept_trans)
qed

lemma reuse_facts:
  assumes ok: "mcast_ok (nd_mcast db)" and r: "reuse_owner_reservation ow port rng db = (db', res)"
  shows "mcast_ok (nd_mcast db')" and "others_kept ow db db'"
    and "res = Some k \<Longrightarrow> map_of (nd_mcast db') k = Some ow \<and> snd k = port \<and> in_mcast_range (fst k) rng"
    and "res = None \<Longrightarrow> ow \<notin> snd ` set (nd_mcast db')"
proof -
  have d: "distinct (map fst (nd_mcast db))" using ok by (simp add: mcast_ok_def)
  have none: "db_mcast_for_owner ow db = None \<Longrightarrow> ow \<notin> snd ` set (nd_mcast db)"
    by (auto simp: db_mcast_for_owner_def find_None_iff)
  have some: "db_mcast_for_owner ow db = Some j \<Longrightarrow> map_of (nd_mcast db) j = Some ow" for j
    using d by (auto simp: db_mcast_for_owner_def dest!: find_SomeD)
  have rel: "ow \<notin> snd ` set (nd_mcast (db_release_mcast_owner ow None db))"
    by (auto simp: db_release_mcast_owner_def)
  show "mcast_ok (nd_mcast db')" "others_kept ow db db'"
    "res = Some k \<Longrightarrow> map_of (nd_mcast db') k = Some ow \<and> snd k = port \<and> in_mcast_range (fst k) rng"
    "res = None \<Longrightarrow> ow \<notin> snd ` set (nd_mcast db')"
    using r none some rel release_owner_facts [OF ok, of ow None] ok
    by (auto simp: reuse_owner_reservation_def split: option.splits if_splits)
qed

lemma mcast_scan_facts:
  assumes "mcast_ok (nd_mcast db)" and "ow \<notin> snd ` set (nd_mcast db)"
  shows "mcast_post ow db (mcast_scan used a port ow is db)"
  using assms
proof (induction "is" arbitrary: db)
  case (Cons i "is")
  show ?case
  proof (cases "ip_text (a + i)")
    case (Some ip)
    obtain db1 ok where r: "db_reserve_mcast (ip, port) ow db = (db1, ok)" by fastforce
    show ?thesis
    proof (cases "key_text ip port \<in> used")
      case False
      from r show ?thesis
      proof (cases rule: reserve_mcast_cases)
        case new
        then show ?thesis using Some False r Cons.prems reserve_others [OF r] mcast_ok_snoc
          by (simp add: mcast_post_def map_add_def)
      next
        case own
        then show ?thesis using Cons.prems by (force dest: map_of_SomeD)
      next
        case held
        then show ?thesis using Some False r Cons by simp
      qed
    qed (use Some Cons in simp)
  qed (use Cons.prems in \<open>simp add: mcast_post_def\<close>)
qed (simp add: mcast_post_def)

lemma mcast_post_weaken:
  "others_kept ow a b \<Longrightarrow> mcast_post ow b out \<Longrightarrow> mcast_post ow a out"
  by (auto simp: mcast_post_def intro: others_kept_trans)

lemma allocate_multicast_post:
  assumes ok: "mcast_ok (nd_mcast db)"
  shows "mcast_post ow db (allocate_multicast db p ow)"
proof -
  have same: "mcast_post ow db (db, r)" if "\<forall>k. r \<noteq> Inr (Some k)" for r
    using ok that by (simp add: mcast_post_def)
  let ?b = "if net_text db ''mcast_pool_base'' = [] then ''239.100.0.0'' else net_text db ''mcast_pool_base''"
  show ?thesis
  proof (cases "int_or (map_of (nd_settings db) ''mcast_pool_size'') 4096")
    case sz: (Some sz)
    show ?thesis
    proof (cases "port_or [p] db")
      case pt: (Some port)
      show ?thesis
      proof (cases "ip_int ?b = None \<or> ow = []")
        case False
        then obtain a where a: "ip_int ?b = Some a" by auto
        obtain db1 o1 where re: "reuse_owner_reservation ow port None db = (db1, o1)" by fastforce
        note f = reuse_facts [OF ok re]
        show ?thesis
        proof (cases o1)
          case (Some k)
          then show ?thesis using sz pt False a re f by (simp add: allocate_multicast_def mcast_post_def)
        next
          case None
          obtain db2 r2 where sc: "mcast_scan (used_multicasts db1) a port ow [1..sz - 1] db1 = (db2, r2)" by fastforce
          have "mcast_post ow db1 (db2, r2)" using mcast_scan_facts [OF f(1) f(4) [OF None]] sc by metis
          then have "mcast_post ow db (db2, r2)" by (rule mcast_post_weaken [OF f(2)])
          moreover have "allocate_multicast db p ow =
              (case (db2, r2) of
                 (db2, Inr None) \<Rightarrow> (net_alert ''alert.net.pool_multicast_epuise'' ''error'' None ''net''
                    [(''base'', PStr ?b), (''size'', PInt sz)] db2, Inr None)
               | res \<Rightarrow> res)"
            using sz pt False a re None sc by (simp add: allocate_multicast_def Let_def)
          ultimately show ?thesis
            by (cases r2) (auto simp: mcast_post_def split: option.split)
        qed
      qed (use sz pt same in \<open>auto simp: allocate_multicast_def Let_def split: option.split\<close>)
    qed (use sz same in \<open>simp add: allocate_multicast_def\<close>)
  qed (use same in \<open>simp add: allocate_multicast_def\<close>)
qed

lemma try_plan_post:
  assumes ok: "mcast_ok (nd_mcast db)"
  shows "mcast_post ow db (try_plan r essence slot sub leg a port ow db)"
proof (cases "plan_offset (Some r) essence slot sub leg")
  case (Some off)
  show ?thesis
  proof (cases "1 \<le> off \<and> off < max (mr_size r) 0 \<and> ip_text (a + off) \<noteq> None")
    case True
    then obtain ip where ip: "ip_text (a + off) = Some ip" by auto
    obtain db1 b where re: "db_reserve_mcast (ip, port) ow db = (db1, b)" by fastforce
    show ?thesis
    proof (cases b)
      case t: True
      then show ?thesis using reserve_release_ok [OF ok, of "(ip, port)" ow db1] re Some True ip
        by (simp add: try_plan_def mcast_post_def)
    next
      case False
      then have "db1 = db" using re by (auto elim: reserve_mcast_cases)
      then show ?thesis using re Some True ip False ok by (simp add: try_plan_def mcast_post_def)
    qed
  qed (use Some ok in \<open>auto simp: try_plan_def mcast_post_def split: option.split\<close>)
qed (use ok in \<open>simp add: try_plan_def mcast_post_def\<close>)


text \<open>The end of \<open>allocate_multicast_for\<close> once the plan gave nothing.\<close>

lemma allocate_multicast_for_post:
  assumes ok: "mcast_ok (nd_mcast db)"
  shows "mcast_post ow db (allocate_multicast_for db nid ifname mn essence leg p fmt ow slot sub)"
proof (cases "plage_applicable db nid ifname mn essence leg fmt")
  case None
  then show ?thesis using allocate_multicast_post [OF ok] by (simp add: allocate_multicast_for_def)
next
  case rule: (Some r)
  have same: "mcast_post ow db (db, x)" if "\<forall>k. x \<noteq> Inr (Some k)" for x
    using ok that by (simp add: mcast_post_def)
  show ?thesis
  proof (cases "ow = [] \<or> port_or [p, rule_port r essence, mr_port_default r] db = None \<or> ip_int (mr_base_ip r) = None")
    case True
    then show ?thesis using rule same by (auto simp: allocate_multicast_for_def split: option.split)
  next
    case False
    then obtain port a where pa: "port_or [p, rule_port r essence, mr_port_default r] db = Some port"
      "ip_int (mr_base_ip r) = Some a" by auto
    obtain db1 r1 where tp: "try_plan r essence slot sub leg a port ow db = (db1, r1)" by fastforce
    have p1: "mcast_post ow db (db1, r1)" using try_plan_post [OF ok] tp by metis
    show ?thesis
    proof (cases "r1 = Inr None")
      case False
      then have "allocate_multicast_for db nid ifname mn essence leg p fmt ow slot sub = (db1, r1)"
        using rule pa tp \<open>\<not> (ow = [] \<or> _)\<close>
        by (cases r1) (auto simp: allocate_multicast_for_def split: option.splits)
      then show ?thesis using p1 by simp
    next
      case none: True
      have ok1: "mcast_ok (nd_mcast db1)" and k1: "others_kept ow db db1" using p1 by (simp_all add: mcast_post_def)
      obtain db2 o2 where re: "reuse_owner_reservation ow port (Some (a, max (mr_size r) 0)) db1 = (db2, o2)" by fastforce
      note f = reuse_facts [OF ok1 re]
      have k2: "others_kept ow db db2" using k1 f(2) by (rule others_kept_trans)
      show ?thesis
      proof (cases o2)
        case (Some k)
        then have "allocate_multicast_for db nid ifname mn essence leg p fmt ow slot sub = (db2, Inr (Some k))"
          using rule pa tp none re False by (simp add: allocate_multicast_for_def)
        then show ?thesis using f(1,3) k2 Some by (simp add: mcast_post_def)
      next
        case None
        obtain db3 r3 where sc: "mcast_scan (used_multicasts db2) a port ow [1..max (mr_size r) 0 - 1] db2 = (db3, r3)"
          by fastforce
        have "mcast_post ow db2 (db3, r3)" using mcast_scan_facts [OF f(1) f(4) [OF None]] sc by metis
        then have p3: "mcast_post ow db (db3, r3)" by (rule mcast_post_weaken [OF k2])
        have "allocate_multicast_for db nid ifname mn essence leg p fmt ow slot sub =
            (case (db3, r3) of
               (db3, Inr None) \<Rightarrow> (net_alert ''alert.net.plage_multicast_epuisee'' ''error'' None ''net''
                  [(''label'', PStr (rule_label r)), (''base'', PStr (mr_base_ip r)),
                   (''size'', PInt (mr_size r)), (''port'', PInt port)] db3, Inr None)
             | res \<Rightarrow> res)"
          using rule pa tp none re None sc False by (simp add: allocate_multicast_for_def)
        then show ?thesis using p3 by (cases r3) (auto simp: mcast_post_def split: option.split)
      qed
    qed
  qed
qed

subsection \<open>Where an allocated group lies\<close>

lemma mcast_scan_range:
  "mcast_scan used a port ow is db = (db', Inr (Some k)) \<Longrightarrow>
   snd k = port \<and> key_text (fst k) port \<notin> used \<and> (\<exists>i \<in> set is. ip_text (a + i) = Some (fst k))"
  by (induction "is" arbitrary: db) (auto split: option.splits if_splits prod.splits)

lemma try_plan_range:
  "try_plan r essence slot sub leg a port ow db = (db', Inr (Some k)) \<Longrightarrow>
   snd k = port \<and> (\<exists>i. 1 \<le> i \<and> i < mr_size r \<and> ip_text (a + i) = Some (fst k) \<and>
     plan_offset (Some r) essence slot sub leg = Some i)"
  by (auto simp: try_plan_def split: option.splits if_splits prod.splits)

lemma allocate_multicast_for_range:
  assumes ok: "mcast_ok (nd_mcast db)" and rule: "plage_applicable db nid ifname mn essence leg fmt = Some r"
    and out: "snd (allocate_multicast_for db nid ifname mn essence leg p fmt ow slot sub) = Inr (Some k)"
  shows "\<exists>a i. ip_int (mr_base_ip r) = Some a \<and> ip_int (fst k) = Some i \<and> a < i \<and> i < a + mr_size r \<and>
           port_or [p, rule_port r essence, mr_port_default r] db = Some (snd k)"
proof -
  have ne: "ow \<noteq> []" using out rule by (auto simp: allocate_multicast_for_def)
  obtain port where port: "port_or [p, rule_port r essence, mr_port_default r] db = Some port"
    using out rule ne by (auto simp: allocate_multicast_for_def split: option.splits)
  obtain a where a: "ip_int (mr_base_ip r) = Some a"
    using out rule ne port by (auto simp: allocate_multicast_for_def split: option.splits)
  obtain db1 r1 where tp: "try_plan r essence slot sub leg a port ow db = (db1, r1)" by fastforce
  note out' = out [unfolded allocate_multicast_for_def rule option.case(2) if_not_P [OF ne] port a tp prod.case]
  show ?thesis
  proof (cases "r1 = Inr None")
    case False
    then have "r1 = Inr (Some k)" using out' by (cases r1) (auto split: option.splits)
    from try_plan_range [OF tp [unfolded this]] show ?thesis using a port ip_int_text by fastforce
  next
    case none: True
    have ok1: "mcast_ok (nd_mcast db1)" using try_plan_post [OF ok, of ow r essence slot sub leg a port] tp
      by (simp add: mcast_post_def)
    obtain db2 o2 where re: "reuse_owner_reservation ow port (Some (a, max (mr_size r) 0)) db1 = (db2, o2)" by fastforce
    show ?thesis
    proof (cases o2)
      case (Some j)
      then have "j = k" using out' none re by simp
      with Some have "snd k = port" "in_mcast_range (fst k) (Some (a, max (mr_size r) 0))"
        using reuse_facts(3) [OF ok1 re] by auto
      then show ?thesis using a port by (auto simp: in_mcast_range_def split: option.splits)
    next
      case None
      obtain db3 r3 where sc: "mcast_scan (used_multicasts db2) a port ow [1..max (mr_size r) 0 - 1] db2 = (db3, r3)"
        by fastforce
      have "r3 = Inr (Some k)" using out' none re None sc by (cases r3) (auto split: option.splits)
      from mcast_scan_range [OF sc [unfolded this]] show ?thesis using a port ip_int_text by fastforce
    qed
  qed
qed

end
