(* ===== verification/Net_Replan.thy ===== *)
theory Net_Replan
  imports Net_Mcast_Facts
begin

text \<open>
  The re-planning of the multicast addresses of a ST 2110 engine that already has some
  (\<open>plan_tx_multicast\<close>, \<open>_plan_ip_flux\<close>, \<open>preview_plan_params\<close> of \<open>app/allocations.py\<close>).  The slots
  are the \<open>tx_slots\<close> of the engine's parameters, their ports present; the push to the engine and the
  NMOS notification are outside, only whether the push succeeded comes in.
\<close>

record tx_audio =
  ta_ip :: string
  ta_port :: int

record tx_slot =
  sl_ip :: string
  sl_port :: int
  sl_fmt :: "(string \<times> string) list" \<comment> \<open>\<open>scan\<close>, \<open>width\<close>, \<open>height\<close>, \<open>fps\<close> as text\<close>
  sl_audios :: "tx_audio list"
  sl_anc_ip :: string
  sl_anc_port :: int

record tx_flow =
  tf_essence :: string
  tf_idx :: int
  tf_id :: string
  tf_attached :: string

record engine =
  en_vmid :: int
  en_hostname :: string
  en_node :: "int option"
  en_tx_pins :: "(string \<times> string) list"
  en_slots :: "tx_slot list"
  en_flows :: "tx_flow list"

datatype etat = Inchange | A_changer | Conflit | Applique

record diff_line =
  df_slot :: nat
  df_essence :: string
  df_sub :: nat
  df_port :: int
  df_de :: string
  df_vers :: string
  df_etat :: etat

text \<open>\<open>io2110_flows.tx_slot_audio_idxs\<close>: the flat indices of the audios attached to a slot.\<close>

definition tx_slot_audio_idxs :: "tx_flow list \<Rightarrow> int \<Rightarrow> int list" where
  "tx_slot_audio_idxs flows slot =
     (case find (\<lambda>f. tf_essence f = ''video'' \<and> tf_idx f = slot) flows of
        None \<Rightarrow> []
      | Some vid \<Rightarrow> map tf_idx (filter (\<lambda>f. tf_essence f = ''audio'' \<and> tf_attached f = tf_id vid) flows))"

definition plan_ip_flux :: "net_db \<Rightarrow> engine \<Rightarrow> nat \<Rightarrow> string \<Rightarrow> nat \<Rightarrow> (string \<times> string) list \<Rightarrow> string option" where
  "plan_ip_flux db en slot essence sub fmt =
     (let (ifn, netid) = (case egress_iface db (en_node en) (en_tx_pins en) (int slot) 0 of
                            None \<Rightarrow> ([], None) | Some p \<Rightarrow> p)
      in case plage_applicable db (en_node en) ifn netid essence 0 fmt of
           None \<Rightarrow> None
         | Some r \<Rightarrow>
             (case plan_offset (Some r) essence (Some (int slot)) (int sub) 0 of
                None \<Rightarrow> None
              | Some off \<Rightarrow>
                  if 1 \<le> off \<and> off < mr_size r
                  then (case ip_int (mr_base_ip r) of None \<Rightarrow> None | Some a \<Rightarrow> ip_text (a + off))
                  else None))"

record cible =
  ci_essence :: string
  ci_sub :: nat
  ci_ip :: string
  ci_port :: int
  ci_owner :: string
  ci_fmt :: "(string \<times> string) list"

definition tx_owner :: "int \<Rightarrow> nat \<Rightarrow> string \<Rightarrow> string" where
  "tx_owner vmid i what = ''tx:'' @ str_int vmid @ '':'' @ str_int (int i) @ '':'' @ what @ '':leg0''"

definition cibles :: "int \<Rightarrow> tx_flow list \<Rightarrow> nat \<Rightarrow> tx_slot \<Rightarrow> cible list" where
  "cibles vmid flows i t =
     (let aud = tx_slot_audio_idxs flows (int i) in
      (if sl_ip t \<noteq> []
       then [\<lparr>ci_essence = ''video'', ci_sub = 0, ci_ip = sl_ip t, ci_port = sl_port t,
              ci_owner = tx_owner vmid i ''video'', ci_fmt = sl_fmt t\<rparr>] else []) @
      map (\<lambda>(ai, a).
            let aidx = (if ai < length aud then aud ! ai else int ai)
            in \<lparr>ci_essence = ''audio'', ci_sub = ai, ci_ip = ta_ip a, ci_port = ta_port a,
                ci_owner = tx_owner vmid i (''audio:'' @ str_int aidx), ci_fmt = [(''channels'', ''8'')]\<rparr>)
        (filter (\<lambda>(ai, a). ta_ip a \<noteq> []) (enumerate 0 (sl_audios t))) @
      (if sl_anc_ip t \<noteq> []
       then [\<lparr>ci_essence = ''anc'', ci_sub = 0, ci_ip = sl_anc_ip t, ci_port = sl_anc_port t,
              ci_owner = tx_owner vmid i ''anc'', ci_fmt = []\<rparr>] else []))"

definition set_slot_ip :: "cible \<Rightarrow> string \<Rightarrow> tx_slot \<Rightarrow> tx_slot" where
  "set_slot_ip c ip t =
     (if ci_essence c = ''video'' then t\<lparr>sl_ip := ip\<rparr>
      else if ci_essence c = ''anc'' then t\<lparr>sl_anc_ip := ip\<rparr>
      else t\<lparr>sl_audios := (sl_audios t)[ci_sub c := (sl_audios t ! ci_sub c)\<lparr>ta_ip := ip\<rparr>]\<rparr>)"

type_synonym replan_st = "net_db \<times> tx_slot \<times> diff_line list"

text \<open>One flow: the planned address is reserved first, the former ones given back, the slot rewritten.\<close>

definition replan_one :: "engine \<Rightarrow> bool \<Rightarrow> nat \<Rightarrow> cible \<Rightarrow> replan_st \<Rightarrow> replan_st" where
  "replan_one en appliquer i c st =
     (let (db, t, diff) = st in
      case plan_ip_flux db en i (ci_essence c) (ci_sub c) (ci_fmt c) of
        None \<Rightarrow> st
      | Some ip \<Rightarrow>
          let line = (\<lambda>e. \<lparr>df_slot = i, df_essence = ci_essence c, df_sub = ci_sub c, df_port = ci_port c,
                           df_de = ci_ip c, df_vers = ip, df_etat = e\<rparr>)
          in if ip = ci_ip c then (db, t, diff @ [line Inchange])
             else if \<not> appliquer then (db, t, diff @ [line A_changer])
             else
               (case db_reserve_mcast (ip, ci_port c) (ci_owner c) db of
                  (db1, ok) \<Rightarrow>
                    if \<not> ok then (db1, t, diff @ [line Conflit])
                    else
                      let db2 = db_release_mcast_owner (ci_owner c) (Some (ip, ci_port c)) db1;
                          db3 = db_release_mcast_addr (ci_ip c, ci_port c) (''tx:'' @ str_int (en_vmid en) @ '':'') db2
                      in (db3, set_slot_ip c ip t, diff @ [line Applique])))"

definition replan_slot :: "engine \<Rightarrow> bool \<Rightarrow> nat \<Rightarrow> tx_slot \<Rightarrow> net_db \<times> diff_line list \<Rightarrow>
    net_db \<times> tx_slot \<times> diff_line list" where
  "replan_slot en appliquer i t st =
     fold (replan_one en appliquer i) (cibles (en_vmid en) (en_flows en) i t) (fst st, t, snd st)"

fun replan_slots :: "engine \<Rightarrow> bool \<Rightarrow> nat \<Rightarrow> tx_slot list \<Rightarrow> net_db \<times> diff_line list \<Rightarrow>
    net_db \<times> tx_slot list \<times> diff_line list" where
  "replan_slots en appliquer i [] st = (fst st, [], snd st)"
| "replan_slots en appliquer i (t # ts) st =
     (case replan_slot en appliquer i t st of
        (db1, t', d1) \<Rightarrow>
          (case replan_slots en appliquer (Suc i) ts (db1, d1) of (db2, ts', d2) \<Rightarrow> (db2, t' # ts', d2)))"

text \<open>
  The whole operation answers the database, the engine's slots as persisted and the lines of the
  plan; an engine without slots is left alone.
\<close>

definition plan_tx_multicast :: "net_db \<Rightarrow> engine \<Rightarrow> bool \<Rightarrow> bool \<Rightarrow> net_db \<times> tx_slot list \<times> diff_line list" where
  "plan_tx_multicast db en appliquer push_ok =
     (if en_slots en = [] then (db, [], [])
      else
        (case replan_slots en appliquer 0 (en_slots en) (db, []) of
           (db1, slots, diff) \<Rightarrow>
             if \<not> appliquer then (db1, en_slots en, diff)
             else
               let n = length (filter (\<lambda>d. df_etat d = Applique) diff) in
               if n = 0 then (db1, en_slots en, diff)
               else if \<not> push_ok then (db1, slots, diff)
               else (net_alert ''alert.net.plan_multicast_applique'' ''info'' (Some (en_vmid en)) ''net''
                       [(''h'', if en_hostname en = [] then PInt (en_vmid en) else PStr (en_hostname en)),
                        (''n'', PInt (int n))] db1,
                     slots, diff)))"

definition preview_one :: "diff_line \<Rightarrow> tx_slot list \<Rightarrow> tx_slot list" where
  "preview_one d slots =
     (if df_etat d \<noteq> A_changer \<or> \<not> df_slot d < length slots then slots
      else
        let t = slots ! df_slot d;
            t' = (if df_essence d = ''video'' then t\<lparr>sl_ip := df_vers d\<rparr>
                  else if df_essence d = ''anc'' then t\<lparr>sl_anc_ip := df_vers d\<rparr>
                  else if df_sub d < length (sl_audios t)
                  then t\<lparr>sl_audios := (sl_audios t)[df_sub d := (sl_audios t ! df_sub d)\<lparr>ta_ip := df_vers d\<rparr>]\<rparr>
                  else t)
        in slots[df_slot d := t'])"

definition preview_plan_params :: "net_db \<Rightarrow> engine \<Rightarrow> tx_slot list \<Rightarrow> tx_slot list" where
  "preview_plan_params db en slots =
     (case plan_tx_multicast db en False True of (db1, sl, diff) \<Rightarrow> fold preview_one diff slots)"

subsection \<open>Facts\<close>

text \<open>A simulation touches nothing.\<close>

lemma replan_one_dry: "\<exists>d. replan_one en False i c (db, t, diff) = (db, t, d)"
  by (simp add: replan_one_def Let_def split: option.split)

lemma replan_slot_dry: "\<exists>d. replan_slot en False i t (db, diff) = (db, t, d)"
proof -
  have "\<exists>d. fold (replan_one en False i) cs (db, t, diff) = (db, t, d)" for cs diff
  proof (induction cs arbitrary: diff)
    case (Cons c cs)
    obtain d where "replan_one en False i c (db, t, diff) = (db, t, d)" using replan_one_dry by blast
    then show ?case using Cons by simp
  qed simp
  then show ?thesis by (simp add: replan_slot_def)
qed

lemma replan_slots_dry: "\<exists>d. replan_slots en False i ts (db, diff) = (db, ts, d)"
proof (induction ts arbitrary: i diff)
  case (Cons t ts)
  obtain d where "replan_slot en False i t (db, diff) = (db, t, d)" using replan_slot_dry by blast
  moreover obtain d' where "replan_slots en False (Suc i) ts (db, d) = (db, ts, d')" using Cons by blast
  ultimately show ?case by simp
qed simp

text \<open>The engine's prefix, and rows that do not carry it.\<close>

definition tx_prefix :: "int \<Rightarrow> string" where
  "tx_prefix vmid = ''tx:'' @ str_int vmid @ '':''"

definition foreign :: "int \<Rightarrow> string \<Rightarrow> bool" where
  "foreign vmid ow = (take (length (tx_prefix vmid)) ow \<noteq> tx_prefix vmid)"

definition foreign_kept :: "int \<Rightarrow> net_db \<Rightarrow> net_db \<Rightarrow> bool" where
  "foreign_kept vmid db db' \<longleftrightarrow>
     (\<forall>k x. foreign vmid x \<longrightarrow> map_of (nd_mcast db') k = Some x \<longleftrightarrow> map_of (nd_mcast db) k = Some x)"

lemma foreign_kept_refl [simp]: "foreign_kept v db db"
  by (simp add: foreign_kept_def)

lemma foreign_kept_trans: "foreign_kept v a b \<Longrightarrow> foreign_kept v b c \<Longrightarrow> foreign_kept v a c"
  by (simp add: foreign_kept_def)

lemma tx_owner_mine: "\<not> foreign v (tx_owner v i what)"
  by (simp add: foreign_def tx_prefix_def tx_owner_def)

lemma others_foreign: "others_kept ow db db' \<Longrightarrow> \<not> foreign v ow \<Longrightarrow> foreign_kept v db db'"
  unfolding others_kept_def foreign_kept_def by metis

lemma cibles_owner: "c \<in> set (cibles v flows i t) \<Longrightarrow> \<not> foreign v (ci_owner c)"
  by (auto simp: cibles_def Let_def tx_owner_mine split: if_splits)

lemma release_addr_facts:
  assumes "mcast_ok (nd_mcast db)"
  shows "mcast_ok (nd_mcast (db_release_mcast_addr k (tx_prefix v) db))"
    and "foreign_kept v db (db_release_mcast_addr k (tx_prefix v) db)"
proof -
  have d: "distinct (map fst (nd_mcast db))" using assms by (simp add: mcast_ok_def)
  show "mcast_ok (nd_mcast (db_release_mcast_addr k (tx_prefix v) db))"
    using assms by (auto simp: mcast_ok_def db_release_mcast_addr_def distinct_map_filter_keys intro: inj_on_subset)
  show "foreign_kept v db (db_release_mcast_addr k (tx_prefix v) db)"
    using map_of_filter [OF d] by (auto simp: foreign_kept_def foreign_def db_release_mcast_addr_def tx_prefix_def split: option.splits)
qed

lemma replan_one_ok:
  assumes ok: "mcast_ok (nd_mcast db)" and mine: "\<not> foreign (en_vmid en) (ci_owner c)"
    and r: "replan_one en b i c (db, t, diff) = (db', t', diff')"
  shows "mcast_ok (nd_mcast db') \<and> foreign_kept (en_vmid en) db db'"
proof (cases "plan_ip_flux db en i (ci_essence c) (ci_sub c) (ci_fmt c)")
  case None
  then show ?thesis using r ok by (simp add: replan_one_def)
next
  case (Some ip)
  show ?thesis
  proof (cases "ip = ci_ip c \<or> \<not> b")
    case True
    then have "db' = db" using r Some by (auto simp: replan_one_def Let_def split: if_splits)
    then show ?thesis using ok by simp
  next
    case False
    obtain db1 g where re: "db_reserve_mcast (ip, ci_port c) (ci_owner c) db = (db1, g)" by fastforce
    show ?thesis
    proof (cases g)
      case True
      let ?db2 = "db_release_mcast_owner (ci_owner c) (Some (ip, ci_port c)) db1"
      have db': "db' = db_release_mcast_addr (ci_ip c, ci_port c) (tx_prefix (en_vmid en)) ?db2"
        using r Some False re True by (auto simp: replan_one_def Let_def tx_prefix_def)
      have "db_reserve_mcast (ip, ci_port c) (ci_owner c) db = (db1, True)" using re True by simp
      note f = reserve_release_ok [OF ok this]
      have "foreign_kept (en_vmid en) db ?db2" using f(3) mine by (rule others_foreign)
      then show ?thesis using release_addr_facts [OF f(1), where k = "(ci_ip c, ci_port c)" and v = "en_vmid en"] db'
        by (auto intro: foreign_kept_trans)
    next
      case no: False
      then have "db1 = db" using re by (auto elim: reserve_mcast_cases)
      then have "db' = db" using r Some False re no by (auto simp: replan_one_def Let_def)
      then show ?thesis using ok by simp
    qed
  qed
qed

lemma replan_fold_ok:
  assumes "\<forall>c \<in> set cs. \<not> foreign (en_vmid en) (ci_owner c)" and "mcast_ok (nd_mcast db)"
    and "fold (replan_one en b i) cs (db, t, diff) = (db', t', diff')"
  shows "mcast_ok (nd_mcast db') \<and> foreign_kept (en_vmid en) db db'"
  using assms
proof (induction cs arbitrary: db t diff)
  case (Cons c cs)
  obtain db1 t1 d1 where s: "replan_one en b i c (db, t, diff) = (db1, t1, d1)" by (metis prod_cases3)
  have one: "mcast_ok (nd_mcast db1) \<and> foreign_kept (en_vmid en) db db1"
    using replan_one_ok [OF Cons.prems(2) _ s] Cons.prems(1) by simp
  have rest: "fold (replan_one en b i) cs (db1, t1, d1) = (db', t', diff')" using Cons.prems(3) s by simp
  have "mcast_ok (nd_mcast db') \<and> foreign_kept (en_vmid en) db1 db'"
    by (rule Cons.IH [OF _ _ rest]) (use Cons.prems(1) one in simp_all)
  with one show ?case using foreign_kept_trans by blast
qed simp

lemma replan_slots_ok:
  assumes "mcast_ok (nd_mcast db)" and "replan_slots en b i ts (db, diff) = (db', ts', diff')"
  shows "mcast_ok (nd_mcast db') \<and> foreign_kept (en_vmid en) db db'"
  using assms
proof (induction ts arbitrary: i db diff ts')
  case (Cons t ts)
  obtain db1 t1 d1 where s: "replan_slot en b i t (db, diff) = (db1, t1, d1)" by (metis prod_cases3)
  have one: "mcast_ok (nd_mcast db1) \<and> foreign_kept (en_vmid en) db db1"
    using replan_fold_ok [OF _ Cons.prems(1) s [unfolded replan_slot_def fst_conv snd_conv]] cibles_owner by blast
  obtain ts1 where rest: "replan_slots en b (Suc i) ts (db1, d1) = (db', ts1, diff')"
    using Cons.prems(2) s by (auto split: prod.splits)
  have "mcast_ok (nd_mcast db') \<and> foreign_kept (en_vmid en) db1 db'"
    by (rule Cons.IH [OF _ rest]) (use one in simp)
  with one show ?case using foreign_kept_trans by blast
qed simp

end
