(* ===== verification/Net_Race.thy ===== *)
theory Net_Race
  imports Net_Alloc
begin

text \<open>
  Several calls of \<open>allocate_container_ip\<close> at once, each from its first read to the moment the address is written in the row of its container
  (\<open>db_update_docker_ip\<close>), in any interleaving of their statements on the data base; and destructions of containers in between.  A container has one call
  at a time: the callers hold its lock.

  The settings, the nodes and their cards do not change while the calls run.
\<close>

subsection \<open>Steps\<close>

text \<open>
  Where a call is: its own reservations released, with the address of its container and the range it read; the addresses in use and those of the
  infrastructure read; scanning the range with everything it read as blocked; an address in hand that is not written yet.
\<close>

datatype ip_proc =
    Idle
  | Begun "int option" string "string list"
  | Seen "int option" string "string list" "string set"
  | Trying "int option" "string list" "string set"
  | Got string

type_synonym ip_state = "net_db \<times> (int \<times> ip_proc) list"

definition proc :: "(int \<times> ip_proc) list \<Rightarrow> int \<Rightarrow> ip_proc" where
  "proc pcs v = (case map_of pcs v of None \<Rightarrow> Idle | Some p \<Rightarrow> p)"

definition at_rest :: "ip_proc \<Rightarrow> bool" where
  "at_rest p \<longleftrightarrow> (case p of Idle \<Rightarrow> True | Got ip \<Rightarrow> True | _ \<Rightarrow> False)"

definition ip_call :: "int \<Rightarrow> int option \<Rightarrow> ip_state \<Rightarrow> ip_state option" where
  "ip_call v nid0 st =
     (case st of (db, pcs) \<Rightarrow>
        if \<not> at_rest (proc pcs v) then None
        else
          (let cur = (case net_ct db v of None \<Rightarrow> [] | Some c \<Rightarrow> nc_docker_ip c); nid = ct_node_of db v nid0
           in Some (db_release_ip_reservations_for_vmid v db, dict_put v (Begun nid cur (ip_range db nid)) pcs)))"

definition ip_go :: "int \<Rightarrow> ip_state \<Rightarrow> ip_state option" where
  "ip_go v st =
     (case st of (db, pcs) \<Rightarrow>
        (case proc pcs v of
           Begun nid cur rng \<Rightarrow>
             (let prive = (case node_ip_bounds db nid of (s, e, sc) \<Rightarrow> sc = Interne)
              in Some (db, dict_put v (Seen nid cur rng (used_ips db (Some v) (if prive then nid else None) \<union> reserved_ips db nid)) pcs))
         | Seen nid cur rng seen \<Rightarrow>
             (let blocked = seen \<union> db_used_ip_reservations db
              in Some (db, dict_put v (if cur \<noteq> [] \<and> cur \<in> set rng \<and> cur \<notin> blocked then Got cur else Trying nid rng blocked) pcs))
         | Trying nid [] blocked \<Rightarrow>
             (case node_ip_bounds db nid of (s, e, sc) \<Rightarrow>
                Some (net_alert ''alert.net.ipam_plan_epuise'' ''error'' (Some v) ''net''
                        [(''vmid'', PInt v), (''scope'', PStr (scope_text sc)), (''s'', PStr s), (''e'', PStr e)] db,
                      dict_put v Idle pcs))
         | Trying nid (ip # ips) blocked \<Rightarrow>
             if ip \<in> blocked then Some (db, dict_put v (Trying nid ips blocked) pcs)
             else (case db_reserve_ip ip v db of
                     (db1, ok) \<Rightarrow> Some (db1, dict_put v (if ok then Got ip else Trying nid ips blocked) pcs))
         | _ \<Rightarrow> None))"

text \<open>The other calls that have read which addresses are in use and have not ended.\<close>

definition scanning :: "ip_proc \<Rightarrow> bool" where
  "scanning p \<longleftrightarrow> (case p of Seen nid cur rng seen \<Rightarrow> True | Trying nid ips blocked \<Rightarrow> True | _ \<Rightarrow> False)"

definition others_scan :: "int \<Rightarrow> (int \<times> ip_proc) list \<Rightarrow> bool" where
  "others_scan v pcs \<longleftrightarrow> (\<exists>(w, p) \<in> set pcs. w \<noteq> v \<and> scanning p)"

definition ip_persist :: "int \<Rightarrow> ip_state \<Rightarrow> ip_state option" where
  "ip_persist v st =
     (case st of (db, pcs) \<Rightarrow>
        (case proc pcs v of Got ip \<Rightarrow> Some (db_update_docker_ip v ip db, dict_put v Idle pcs) | _ \<Rightarrow> None))"

definition ip_destroy :: "int \<Rightarrow> ip_state \<Rightarrow> ip_state option" where
  "ip_destroy v st =
     (case st of (db, pcs) \<Rightarrow> if at_rest (proc pcs v) then Some (net_delete_container v db, dict_put v Idle pcs) else None)"

datatype ip_act = Call int "int option" | Go int | Persist int | Destroy int

text \<open>\<open>calm\<close>: no address is written while another call is between its reads and its end.\<close>

fun ip_do :: "bool \<Rightarrow> ip_act \<Rightarrow> ip_state \<Rightarrow> ip_state option" where
  "ip_do calm (Call v nid0) st = ip_call v nid0 st"
| "ip_do calm (Go v) st = ip_go v st"
| "ip_do calm (Persist v) st = (if calm \<and> others_scan v (snd st) then None else ip_persist v st)"
| "ip_do calm (Destroy v) st = ip_destroy v st"

fun ip_run :: "bool \<Rightarrow> ip_act list \<Rightarrow> ip_state \<Rightarrow> ip_state option" where
  "ip_run calm [] st = Some st"
| "ip_run calm (a # as) st = Option.bind (ip_do calm a st) (ip_run calm as)"

subsection \<open>One call on its own is \<open>allocate_container_ip\<close>\<close>

lemma dict_put_again [simp]: "dict_put k x (dict_put k y d) = dict_put k x d"
  by (induction d) auto

lemma proc_put [simp]: "proc (dict_put v p pcs) w = (if w = v then p else proc pcs w)"
  by (simp add: proc_def)

lemma ip_run_append: "ip_run calm (as @ bs) st = Option.bind (ip_run calm as st) (ip_run calm bs)"
  by (induction as arbitrary: st) (simp_all split: Option.bind_split)

lemma scan_alone:
  assumes "scan_free db_reserve_ip (\<lambda>ip. ip \<in> B) v ks db = (db1, r)"
  shows "\<exists>n. ip_run calm (replicate n (Go v)) (db, dict_put v (Trying nid ks B) pcs) =
     Some (case r of
             Some ip \<Rightarrow> (db1, dict_put v (Got ip) pcs)
           | None \<Rightarrow> (case node_ip_bounds db1 nid of (s, e, sc) \<Rightarrow>
               (net_alert ''alert.net.ipam_plan_epuise'' ''error'' (Some v) ''net''
                  [(''vmid'', PInt v), (''scope'', PStr (scope_text sc)), (''s'', PStr s), (''e'', PStr e)] db1, dict_put v Idle pcs)))"
  using assms
proof (induction ks arbitrary: db)
  case Nil
  then show ?case by (intro exI [of _ 1]) (auto simp: ip_go_def split: prod.split)
next
  case (Cons k ks)
  let ?R = "case r of
             Some ip \<Rightarrow> (db1, dict_put v (Got ip) pcs)
           | None \<Rightarrow> (case node_ip_bounds db1 nid of (s, e, sc) \<Rightarrow>
               (net_alert ''alert.net.ipam_plan_epuise'' ''error'' (Some v) ''net''
                  [(''vmid'', PInt v), (''scope'', PStr (scope_text sc)), (''s'', PStr s), (''e'', PStr e)] db1, dict_put v Idle pcs))"
  have later: "\<exists>n. ip_run calm (replicate n (Go v)) (db, dict_put v (Trying nid (k # ks) B) pcs) = Some ?R"
    if one: "ip_go v (db, dict_put v (Trying nid (k # ks) B) pcs) = Some (db', dict_put v (Trying nid ks B) pcs)"
      and rest: "scan_free db_reserve_ip (\<lambda>ip. ip \<in> B) v ks db' = (db1, r)" for db'
  proof -
    obtain n where "ip_run calm (replicate n (Go v)) (db', dict_put v (Trying nid ks B) pcs) = Some ?R"
      using Cons.IH [OF rest] by blast
    then show ?thesis using one by (intro exI [of _ "Suc n"]) simp
  qed
  show ?case
  proof (cases "k \<in> B")
    case True
    then show ?thesis using Cons.prems by (intro later [of db]) (simp_all add: ip_go_def)
  next
    case False
    obtain db' ok where s: "db_reserve_ip k v db = (db', ok)" by fastforce
    show ?thesis
    proof (cases ok)
      case True
      then have "db1 = db'" "r = Some k" using Cons.prems False s by auto
      then show ?thesis using False s True by (intro exI [of _ 1]) (simp add: ip_go_def)
    next
      case lost: False
      then show ?thesis using Cons.prems False s by (intro later [of db']) (simp_all add: ip_go_def)
    qed
  qed
qed

lemma ip_alone:
  assumes a: "allocate_container_ip db0 v nid0 = (db', r)" and rest: "at_rest (proc pcs v)"
  shows "\<exists>n. ip_run calm (Call v nid0 # replicate n (Go v)) (db0, pcs) =
     Some (db', dict_put v (case r of Some ip \<Rightarrow> Got ip | None \<Rightarrow> Idle) pcs)"
proof -
  define cur where "cur = (case net_ct db0 v of None \<Rightarrow> [] | Some c \<Rightarrow> nc_docker_ip c)"
  define nid where "nid = ct_node_of db0 v nid0"
  define db where "db = db_release_ip_reservations_for_vmid v db0"
  define B where "B = blocked_ips db v nid"
  have three: "ip_run calm [Call v nid0, Go v, Go v] (db0, pcs) =
      Some (db, dict_put v (if cur \<noteq> [] \<and> cur \<in> set (ip_range db0 nid) \<and> cur \<notin> B then Got cur else Trying nid (ip_range db0 nid) B) pcs)"
    using rest by (simp add: ip_call_def ip_go_def Let_def cur_def [symmetric] nid_def [symmetric] db_def [symmetric] B_def blocked_ips_def)
  note eq = a [unfolded allocate_container_ip_def Let_def, folded cur_def nid_def, folded db_def, folded B_def]
  show ?thesis
  proof (cases "cur \<noteq> [] \<and> cur \<in> set (ip_range db0 nid) \<and> cur \<notin> B")
    case True
    then have "db' = db" "r = Some cur" using eq by auto
    then show ?thesis using three True by (intro exI [of _ 2]) (simp add: numeral_2_eq_2)
  next
    case False
    obtain db1 r1 where s: "scan_free db_reserve_ip (\<lambda>ip. ip \<in> B) v (ip_range db0 nid) db = (db1, r1)" by fastforce
    obtain n where n: "ip_run calm (replicate n (Go v)) (db, dict_put v (Trying nid (ip_range db0 nid) B) pcs) =
        Some (db', dict_put v (case r of Some ip \<Rightarrow> Got ip | None \<Rightarrow> Idle) pcs)"
      using scan_alone [OF s, of calm nid pcs] eq [unfolded if_not_P [OF False] s] by (auto split: option.splits prod.splits)
    have "Call v nid0 # replicate (Suc (Suc n)) (Go v) = [Call v nid0, Go v, Go v] @ replicate n (Go v)" by simp
    then show ?thesis unfolding ip_run_append [of calm "[Call v nid0, Go v, Go v]"]
      using three n False by (intro exI [of _ "Suc (Suc n)"]) (simp only: ip_run_append if_False Option.bind.bind_lunit)
  qed
qed

subsection \<open>The invariant\<close>

text \<open>A container holds an address when its row has it or its call has it in hand.\<close>

definition row_has :: "net_db \<Rightarrow> int \<Rightarrow> string \<Rightarrow> bool" where
  "row_has db v ip \<longleftrightarrow> (\<exists>c \<in> set (nd_containers db). nc_vmid c = v \<and> nc_docker_ip c = ip)"

definition holds_ip :: "ip_state \<Rightarrow> int \<Rightarrow> string \<Rightarrow> bool" where
  "holds_ip st v ip \<longleftrightarrow> ip \<noteq> [] \<and> (row_has (fst st) v ip \<or> proc (snd st) v = Got ip)"

text \<open>The tables: one row for each reserved address, no address in two rows, and none reserved for a container while it is another one's.\<close>

definition ips_ok :: "net_db \<Rightarrow> bool" where
  "ips_ok db \<longleftrightarrow> distinct (map fst (nd_ip_res db)) \<and>
     (\<forall>v w ip. ip \<noteq> [] \<longrightarrow> row_has db v ip \<longrightarrow> row_has db w ip \<longrightarrow> v = w) \<and>
     (\<forall>v w ip. ip \<noteq> [] \<longrightarrow> map_of (nd_ip_res db) ip = Some v \<longrightarrow> row_has db w ip \<longrightarrow> v = w)"

definition proc_ok :: "net_db \<Rightarrow> int \<Rightarrow> ip_proc \<Rightarrow> bool" where
  "proc_ok db v p \<longleftrightarrow>
     (case p of
        Idle \<Rightarrow> True
      | Begun nid cur rng \<Rightarrow> cur = [] \<or> row_has db v cur
      | Seen nid cur rng seen \<Rightarrow> (cur = [] \<or> row_has db v cur) \<and> (\<forall>w ip. w \<noteq> v \<longrightarrow> ip \<noteq> [] \<longrightarrow> row_has db w ip \<longrightarrow> ip \<in> seen)
      | Trying nid ips blocked \<Rightarrow> \<forall>w ip. w \<noteq> v \<longrightarrow> ip \<noteq> [] \<longrightarrow> row_has db w ip \<longrightarrow> ip \<in> blocked
      | Got ip \<Rightarrow> map_of (nd_ip_res db) ip = Some v \<or> row_has db v ip)"

definition ips_inv :: "ip_state \<Rightarrow> bool" where
  "ips_inv st \<longleftrightarrow> (\<forall>n. \<not> node_net_interne (fst st) n) \<and> ips_ok (fst st) \<and> distinct (map fst (snd st)) \<and>
     (\<forall>v. proc_ok (fst st) v (proc (snd st) v))"

lemma ips_invD:
  assumes "ips_inv st" and "holds_ip st v ip" and "holds_ip st w ip"
  shows "v = w"
proof -
  have g: "map_of (nd_ip_res (fst st)) ip = Some u \<or> row_has (fst st) u ip" if "holds_ip st u ip" for u
  proof (cases "proc (snd st) u = Got ip")
    case True
    moreover have "proc_ok (fst st) u (proc (snd st) u)" using assms(1) by (simp add: ips_inv_def)
    ultimately show ?thesis by (simp add: proc_ok_def)
  qed (use that in \<open>auto simp: holds_ip_def\<close>)
  have "ip \<noteq> []" using assms(2) by (simp add: holds_ip_def)
  moreover have "ips_ok (fst st)" using assms(1) by (simp add: ips_inv_def)
  ultimately show ?thesis using g [OF assms(2)] g [OF assms(3)] unfolding ips_ok_def by fastforce
qed

text \<open>A step that leaves the tables alone, or only the reservations of one container, and moves one call.\<close>

lemma row_has_same: "nd_containers db' = nd_containers db \<Longrightarrow> row_has db' v ip = row_has db v ip"
  by (simp add: row_has_def)

lemma row_has_update:
  "row_has (db_update_docker_ip v ip db) w j \<longleftrightarrow> (if w = v then (\<exists>x. row_has db v x) \<and> j = ip else row_has db w j)"
proof -
  let ?f = "\<lambda>c. if nc_vmid c = v then c\<lparr>nc_docker_ip := ip\<rparr> else c"
  have "nd_containers (db_update_docker_ip v ip db) = map ?f (nd_containers db)"
    by (simp add: db_update_docker_ip_def Let_def db_release_ip_reservation_def)
  then have "row_has (db_update_docker_ip v ip db) w j \<longleftrightarrow> (\<exists>c \<in> set (nd_containers db). nc_vmid (?f c) = w \<and> nc_docker_ip (?f c) = j)"
    by (simp only: row_has_def set_map bex_simps)
  also have "\<dots> \<longleftrightarrow> (\<exists>c \<in> set (nd_containers db). nc_vmid c = w \<and> (if w = v then ip else nc_docker_ip c) = j)"
    by (rule bex_cong) (auto split: if_splits)
  also have "\<dots> \<longleftrightarrow> (if w = v then (\<exists>x. row_has db v x) \<and> j = ip else row_has db w j)"
  proof (cases "w = v")
    case True
    have "(\<exists>x. row_has db v x) \<longleftrightarrow> (\<exists>c \<in> set (nd_containers db). nc_vmid c = v)" by (auto simp: row_has_def)
    then show ?thesis using True by auto
  qed (simp add: row_has_def)
  finally show ?thesis .
qed

lemma interne_same: "nd_nodes db' = nd_nodes db \<Longrightarrow> node_net_interne db' n = node_net_interne db n"
  by (simp add: node_net_interne_def node_net_mode_def net_node_row_def)

lemma proc_ok_same:
  assumes "proc_ok db v p" and "nd_containers db' = nd_containers db"
    and "\<And>ip. map_of (nd_ip_res db) ip = Some v \<Longrightarrow> map_of (nd_ip_res db') ip = Some v"
  shows "proc_ok db' v p"
  using assms(1,3) by (auto simp: proc_ok_def row_has_same [OF assms(2)] split: ip_proc.splits)

lemma ips_inv_move:
  assumes inv: "ips_inv (db, pcs)" and same: "nd_containers db' = nd_containers db" "nd_nodes db' = nd_nodes db"
    and ok: "ips_ok db'" and p: "proc_ok db' v p"
    and res: "\<And>w ip. w \<noteq> v \<Longrightarrow> map_of (nd_ip_res db) ip = Some w \<Longrightarrow> map_of (nd_ip_res db') ip = Some w"
  shows "ips_inv (db', dict_put v p pcs)"
  using inv p proc_ok_same [OF _ same(1) res]
  by (simp add: ips_inv_def ok interne_same [OF same(2)] distinct_dict_put)

lemma call_inv:
  assumes inv: "ips_inv (db, pcs)" and s: "ip_call v nid0 (db, pcs) = Some st"
  shows "ips_inv st"
proof -
  let ?db = "db_release_ip_reservations_for_vmid v db"
  let ?cur = "case net_ct db v of None \<Rightarrow> [] | Some c \<Rightarrow> nc_docker_ip c" and ?nid = "ct_node_of db v nid0"
  have st: "st = (?db, dict_put v (Begun ?nid ?cur (ip_range db ?nid)) pcs)"
    using s by (auto simp: ip_call_def Let_def split: if_splits)
  have d: "distinct (map fst (nd_ip_res db))" using inv by (simp add: ips_inv_def ips_ok_def)
  have res: "map_of (nd_ip_res ?db) ip = (case map_of (nd_ip_res db) ip of None \<Rightarrow> None | Some w \<Rightarrow> if w \<noteq> v then Some w else None)" for ip
    using map_of_filter [OF d, of "\<lambda>r. snd r \<noteq> v" ip] by (auto simp: db_release_ip_reservations_for_vmid_def split: option.split)
  have same: "nd_containers ?db = nd_containers db" "nd_nodes ?db = nd_nodes db" by (simp_all add: db_release_ip_reservations_for_vmid_def)
  have "?cur = [] \<or> row_has db v ?cur" by (auto simp: net_ct_def row_has_def find_Some_iff split: option.splits)
  then have "proc_ok ?db v (Begun ?nid ?cur (ip_range db ?nid))" by (simp add: proc_ok_def row_has_same [OF same(1)])
  moreover have "ips_ok ?db"
    using inv d by (auto simp: ips_inv_def ips_ok_def row_has_same [OF same(1)] res split: option.splits if_splits)
      (simp add: db_release_ip_reservations_for_vmid_def distinct_map_filter)
  ultimately show ?thesis unfolding st by (intro ips_inv_move [OF inv same]) (simp_all add: res)
qed

lemma used_ips_rows: "row_has db w ip \<Longrightarrow> w \<noteq> v \<Longrightarrow> ip \<noteq> [] \<Longrightarrow> ip \<in> used_ips db (Some v) None"
  by (auto simp: row_has_def used_ips_def)

lemma not_private: "\<forall>n. \<not> node_net_interne db n \<Longrightarrow> \<not> (case node_ip_bounds db nid of (s, e, sc) \<Rightarrow> sc = Interne)"
  by (auto simp: node_ip_bounds_def split: option.splits)

lemma go_inv:
  assumes inv: "ips_inv (db, pcs)" and s: "ip_go v (db, pcs) = Some st"
  shows "ips_inv st"
proof -
  have ok: "ips_ok db" "proc_ok db v (proc pcs v)" "\<forall>n. \<not> node_net_interne db n" using inv by (simp_all add: ips_inv_def)
  have quiet: "ips_inv (db, dict_put v p pcs)" if "proc_ok db v p" for p
    using that ok by (intro ips_inv_move [OF inv]) simp_all
  show ?thesis
  proof (cases "proc pcs v")
    case (Begun nid cur rng)
    have "st = (db, dict_put v (Seen nid cur rng (used_ips db (Some v) None \<union> reserved_ips db nid)) pcs)"
      using s Begun not_private [OF ok(3), of nid] by (simp add: ip_go_def Let_def)
    moreover have "proc_ok db v (Seen nid cur rng (used_ips db (Some v) None \<union> reserved_ips db nid))"
      using ok(2) used_ips_rows unfolding Begun by (simp add: proc_ok_def)
    ultimately show ?thesis using quiet by simp
  next
    case (Seen nid cur rng seen)
    let ?B = "seen \<union> db_used_ip_reservations db"
    have "st = (db, dict_put v (if cur \<noteq> [] \<and> cur \<in> set rng \<and> cur \<notin> ?B then Got cur else Trying nid rng ?B) pcs)"
      using s Seen by (simp add: ip_go_def Let_def)
    moreover have "proc_ok db v (if cur \<noteq> [] \<and> cur \<in> set rng \<and> cur \<notin> ?B then Got cur else Trying nid rng ?B)"
      using ok(2) unfolding Seen by (auto simp: proc_ok_def)
    ultimately show ?thesis using quiet by simp
  next
    case (Trying nid ips B)
    show ?thesis
    proof (cases ips)
      case Nil
      have "\<exists>a. st = (db\<lparr>nd_alerts := a\<rparr>, dict_put v Idle pcs)"
        using s Trying Nil by (auto simp: ip_go_def net_alert_def split: prod.splits)
      then obtain a where st: "st = (db\<lparr>nd_alerts := a\<rparr>, dict_put v Idle pcs)" by blast
      have rows: "row_has (db\<lparr>nd_alerts := a\<rparr>) w j = row_has db w j" for w j by (rule row_has_same) simp
      have "nd_ip_res (db\<lparr>nd_alerts := a\<rparr>) = nd_ip_res db" by simp
      then have "ips_ok (db\<lparr>nd_alerts := a\<rparr>)" using ok(1) unfolding ips_ok_def rows by presburger
      then show ?thesis unfolding st by (intro ips_inv_move [OF inv]) (simp_all add: proc_ok_def)
    next
      case (Cons ip rest)
      show ?thesis
      proof (cases "ip \<in> B")
        case True
        then have "st = (db, dict_put v (Trying nid rest B) pcs)" using s Trying Cons by (simp add: ip_go_def)
        moreover have "proc_ok db v (Trying nid rest B)" using ok(2) unfolding Trying by (simp add: proc_ok_def)
        ultimately show ?thesis using quiet by simp
      next
        case False
        obtain db1 won where r: "db_reserve_ip ip v db = (db1, won)" by fastforce
        have st: "st = (db1, dict_put v (if won then Got ip else Trying nid rest B) pcs)"
          using s Trying Cons False r by (simp add: ip_go_def)
        have out: "w = v" if "row_has db w ip" "ip \<noteq> []" for w using ok(2) False that by (auto simp: Trying proc_ok_def)
        show ?thesis
        proof (cases "map_of (nd_ip_res db) ip")
          case None
          then have db1: "db1 = db\<lparr>nd_ip_res := nd_ip_res db @ [(ip, v)]\<rparr>" "won" using r by (auto simp: db_reserve_ip_def)
          have res: "map_of (nd_ip_res db1) j = (if j = ip then Some v else map_of (nd_ip_res db) j)" for j
            using None by (auto simp: db1 map_add_def split: option.splits)
          have rows: "row_has db1 w j = row_has db w j" for w j by (simp add: db1 row_has_def)
          have "ip \<notin> fst ` set (nd_ip_res db)" using None by (simp add: map_of_eq_None_iff)
          then have "ips_ok db1" using ok(1) out unfolding ips_ok_def rows res by (auto simp: db1)
          moreover have "proc_ok db1 v (Got ip)" using res by (simp add: proc_ok_def)
          moreover have "nd_containers db1 = nd_containers db" "nd_nodes db1 = nd_nodes db" by (simp_all add: db1)
          moreover have "map_of (nd_ip_res db1) j = Some w" if "map_of (nd_ip_res db) j = Some w" for w j using that None res by auto
          ultimately have "ips_inv (db1, dict_put v (Got ip) pcs)" by (intro ips_inv_move [OF inv])
          then show ?thesis unfolding st using db1(2) by simp
        next
          case (Some w)
          then have "db1 = db" "won = (w = v)" using r by (simp_all add: db_reserve_ip_def)
          moreover have "proc_ok db v (if w = v then Got ip else Trying nid rest B)"
            using Some ok(2) unfolding Trying by (simp add: proc_ok_def)
          ultimately show ?thesis unfolding st using quiet by simp
        qed
      qed
    qed
  qed (use s in \<open>simp_all add: ip_go_def\<close>)
qed

lemma persist_inv:
  assumes inv: "ips_inv (db, pcs)" and s: "ip_persist v (db, pcs) = Some st" and calm: "\<not> others_scan v pcs"
  shows "ips_inv st"
proof -
  obtain ip where g: "proc pcs v = Got ip" and st: "st = (db_update_docker_ip v ip db, dict_put v Idle pcs)"
    using s by (auto simp: ip_persist_def split: ip_proc.splits)
  let ?db = "db_update_docker_ip v ip db"
  have ok: "ips_ok db" "\<forall>n. \<not> node_net_interne db n" "distinct (map fst pcs)" and p: "proc_ok db w (proc pcs w)" for w
    using inv by (simp_all add: ips_inv_def)
  have d: "distinct (map fst (nd_ip_res db))" using ok(1) by (simp add: ips_ok_def)
  have mine: "map_of (nd_ip_res db) ip = Some v \<or> row_has db v ip" using p [of v] by (simp add: g proc_ok_def)
  have row: "row_has ?db w j \<longleftrightarrow> (if w = v then (\<exists>x. row_has db v x) \<and> j = ip else row_has db w j)" for w j
    by (rule row_has_update)
  have res: "map_of (nd_ip_res ?db) j = (if j = ip \<and> ip \<noteq> [] then None else map_of (nd_ip_res db) j)" for j
    using map_of_filter [OF d, of "\<lambda>r. fst r \<noteq> ip" j]
    by (auto simp: db_update_docker_ip_def Let_def db_release_ip_reservation_def split: option.split)
  have rr: "u = w" if "j \<noteq> []" "row_has db u j" "row_has db w j" for u w j using ok(1) that unfolding ips_ok_def by blast
  have sr: "u = w" if "j \<noteq> []" "map_of (nd_ip_res db) j = Some u" "row_has db w j" for u w j using ok(1) that unfolding ips_ok_def by blast
  have alone: "w = v" if "ip \<noteq> []" "map_of (nd_ip_res db) ip = Some w \<or> row_has db w ip" for w
  proof (cases "row_has db v ip")
    case True
    then show ?thesis using that rr [of ip w v] sr [of ip w v] by blast
  next
    case False
    then have "map_of (nd_ip_res db) ip = Some v" using mine by blast
    then show ?thesis using that sr [of ip v w] by auto
  qed
  have "distinct (map fst (nd_ip_res ?db))"
    using d by (simp add: db_update_docker_ip_def Let_def db_release_ip_reservation_def distinct_map_filter)
  moreover have "u = w" if "j \<noteq> []" "row_has ?db u j" "row_has ?db w j" for u w j
    using that rr [of j u w] alone [of u] alone [of w] unfolding row by (auto split: if_splits)
  moreover have "u = w" if "j \<noteq> []" "map_of (nd_ip_res ?db) j = Some u" "row_has ?db w j" for u w j
    using that sr [of j u w] unfolding row res by (auto split: if_splits)
  ultimately have "ips_ok ?db" unfolding ips_ok_def by blast
  moreover have "proc_ok ?db w (proc pcs w)" if w: "w \<noteq> v" for w
  proof -
    have "\<not> scanning (proc pcs w)"
    proof (cases "map_of pcs w")
      case (Some x)
      then have "(w, x) \<in> set pcs" by (rule map_of_SomeD)
      then show ?thesis using calm w Some by (auto simp: others_scan_def proc_def)
    qed (simp add: proc_def scanning_def)
    then show ?thesis using p [of w] w alone [of w] by (cases "proc pcs w") (auto simp: proc_ok_def scanning_def row res)
  qed
  moreover have "node_net_interne ?db = node_net_interne db"
    by (intro ext interne_same) (simp add: db_update_docker_ip_def Let_def db_release_ip_reservation_def)
  ultimately show ?thesis using ok(2,3) unfolding st
    by (simp add: ips_inv_def distinct_dict_put proc_ok_def)
qed

lemma destroy_inv:
  assumes inv: "ips_inv (db, pcs)" and s: "ip_destroy v (db, pcs) = Some st"
  shows "ips_inv st"
proof -
  let ?db = "net_delete_container v db"
  have st: "st = (?db, dict_put v Idle pcs)" using s by (auto simp: ip_destroy_def split: if_splits)
  have ok: "ips_ok db" "\<forall>n. \<not> node_net_interne db n" "distinct (map fst pcs)" and p: "proc_ok db w (proc pcs w)" for w
    using inv by (simp_all add: ips_inv_def)
  have d: "distinct (map fst (nd_ip_res db))" using ok(1) by (simp add: ips_ok_def)
  have row: "row_has ?db w j \<longleftrightarrow> w \<noteq> v \<and> row_has db w j" for w j
    by (auto simp: row_has_def net_delete_container_def db_release_ip_reservations_for_vmid_def)
  have res: "map_of (nd_ip_res ?db) j = (case map_of (nd_ip_res db) j of None \<Rightarrow> None | Some w \<Rightarrow> if w \<noteq> v then Some w else None)" for j
    using map_of_filter [OF d, of "\<lambda>r. snd r \<noteq> v" j]
    by (auto simp: net_delete_container_def db_release_ip_reservations_for_vmid_def split: option.split)
  have dist: "distinct (map fst (nd_ip_res ?db))"
    using d by (simp add: net_delete_container_def db_release_ip_reservations_for_vmid_def distinct_map_filter)
  have "ips_ok ?db" using ok(1) dist unfolding ips_ok_def row res by (auto split: option.splits if_splits)
  moreover have "proc_ok ?db w (proc pcs w)" if "w \<noteq> v" for w
    using p [of w] that by (cases "proc pcs w") (auto simp: proc_ok_def row res)
  moreover have "node_net_interne ?db = node_net_interne db"
    by (intro ext interne_same) (simp add: net_delete_container_def db_release_ip_reservations_for_vmid_def)
  ultimately show ?thesis using ok(2,3) unfolding st
    by (simp add: ips_inv_def distinct_dict_put proc_ok_def)
qed

lemma run_inv: "ip_run True as st = Some st' \<Longrightarrow> ips_inv st \<Longrightarrow> ips_inv st'"
proof (induction as arbitrary: st)
  case (Cons a as)
  obtain db pcs where st: "st = (db, pcs)" by fastforce
  obtain st1 where s: "ip_do True a st = Some st1" and rest: "ip_run True as st1 = Some st'"
    using Cons.prems(1) by (auto split: Option.bind_splits)
  have "ips_inv st1"
    using s Cons.prems(2) unfolding st
    by (cases a) (auto intro: call_inv go_inv persist_inv destroy_inv split: if_splits)
  then show ?case using Cons.IH rest by blast
qed simp

end
