(* ===== verification/Net_Properties.thy ===== *)
theory Net_Properties
  imports Net_Replan Net_Race
begin

text \<open>
  The properties of the address and number allocators, with their witnesses on a small network: one
  node, a media interface pair, and a strict multicast range of three addresses.
\<close>

subsection \<open>A small network\<close>

definition demo_iface :: "string \<Rightarrow> string \<Rightarrow> net_iface" where
  "demo_iface nm role = \<lparr>ni_node = 1, ni_ifname = nm, ni_role = ''media2110'', ni_pair_group = Some 1,
     ni_pair_role = role, ni_media_network = Some 7, ni_gateway = [], ni_ip_cidr = [], ni_ct_start = [],
     ni_ct_end = []\<rparr>"

definition demo_rule :: mcast_rule where
  "demo_rule = \<lparr>mr_id = 1, mr_scope = ''interface'', mr_media_network = None, mr_node = Some 1,
     mr_ifname = Some ''ens1'', mr_base_ip = ''239.1.0.0'', mr_size = 3, mr_port_default = Some 5000,
     mr_port_video = None, mr_port_audio = None, mr_port_anc = None, mr_essence = [], mr_leg = None,
     mr_match = [], mr_label = ''r'', mr_off_video = None, mr_off_audio = None, mr_off_anc = None,
     mr_step_audio = None\<rparr>"

definition demo_net :: net_db where
  "demo_net = \<lparr>nd_containers = [\<lparr>nc_vmid = 200, nc_node = Some 1, nc_ip = [], nc_docker_ip = ''10.0.0.11''\<rparr>,
                                \<lparr>nc_vmid = 201, nc_node = Some 1, nc_ip = [], nc_docker_ip = []\<rparr>],
     nd_nodes = [\<lparr>nn_id = 1, nn_name = ''n1'', nn_host = ''10.0.0.10'', nn_shim = [], nn_net_mode = ''site'',
                  nn_subnet = [], nn_mtl_iface = ''ens1''\<rparr>],
     nd_ifaces = [demo_iface ''ens1'' ''red'', demo_iface ''ens2'' ''blue''],
     nd_rules = [demo_rule], nd_registry = [], nd_vmid_res = [201], nd_ip_res = [], nd_mcast = [],
     nd_settings = [(''ip_start'', SText ''10.0.0.10''), (''ip_end'', SText ''10.0.0.13''),
                    (''vmid_start'', SInt 200)],
     nd_controller = [''10.0.0.1''], nd_alerts = []\<rparr>"

subsection \<open>Addresses of containers\<close>

text \<open>
  C12. An address given to a container lies in the effective range of its node, is not one of the
  infrastructure's, is not the address of another container the range shares, was not reserved for
  another container, and is from then on either the container's own or reserved for it.
\<close>

theorem container_ip_sound:
  assumes "distinct (map fst (nd_ip_res db))" and "allocate_container_ip db v nid = (db', Some ip)"
  shows "let n = ct_node_of db v nid in
         ip \<in> set (ip_range db n) \<and> ip \<notin> reserved_ips db n \<and>
         ip \<notin> used_ips db (Some v) (if (case node_ip_bounds db n of (s, e, sc) \<Rightarrow> sc = Interne) then n else None) \<and>
         (\<forall>w. map_of (nd_ip_res db) ip = Some w \<longrightarrow> w = v) \<and>
         (map_of (nd_ip_res db') ip = Some v \<or> (\<exists>c. net_ct db v = Some c \<and> nc_docker_ip c = ip))"
proof -
  let ?n = "ct_node_of db v nid" and ?db1 = "db_release_ip_reservations_for_vmid v db"
  have free: "ip \<notin> reserved_ips db ?n \<and>
      ip \<notin> used_ips db (Some v) (if (case node_ip_bounds db ?n of (s, e, sc) \<Rightarrow> sc = Interne) then ?n else None) \<and>
      (\<forall>w. map_of (nd_ip_res db) ip = Some w \<longrightarrow> w = v)"
    if "ip \<notin> blocked_ips ?db1 v ?n"
    using that map_of_SomeD [of "nd_ip_res db" ip] unfolding blocked_release by force
  from assms(2) refl refl show ?thesis
  proof (cases rule: allocate_container_ip_cases)
    case (sticky x c)
    then show ?thesis using free by (simp add: Let_def)
  next
    case (fresh x)
    then have "ip \<in> set (ip_range db ?n) \<and> ip \<notin> blocked_ips ?db1 v ?n"
      using ip_ledger.scan_some [OF fresh(2)] by simp
    moreover have "map_of (nd_ip_res db') ip = Some v" using ip_ledger.scan_holder [OF fresh(2), of ip] fresh(1) by simp
    ultimately show ?thesis using free by (simp add: Let_def)
  qed simp
qed

theorem container_ip_sound_witness:
  "snd (allocate_container_ip demo_net 201 None) = Some ''10.0.0.12'' \<and>
   ''10.0.0.12'' \<notin> reserved_ips demo_net (Some 1)"
proof -
  have a: "snd (allocate_container_ip demo_net 201 None) = Some ''10.0.0.12''" by code_simp
  have n: "ct_node_of demo_net 201 None = Some 1" by code_simp
  have d: "distinct (map fst (nd_ip_res demo_net))" by code_simp
  have "allocate_container_ip demo_net 201 None =
      (fst (allocate_container_ip demo_net 201 None), Some ''10.0.0.12'')"
    using a by (metis prod.collapse)
  from container_ip_sound [OF d this] show ?thesis using a n by (simp add: Let_def)
qed

text \<open>
  The allocation fails only on a full range: a refusal means that every address of the range is
  the infrastructure's, another container's, or reserved for another container.
\<close>

theorem container_ip_complete:
  assumes "snd (allocate_container_ip db v nid) = None" and "ip \<in> set (ip_range db (ct_node_of db v nid))"
  shows "ip \<in> blocked_ips (db_release_ip_reservations_for_vmid v db) v (ct_node_of db v nid)"
proof -
  have "allocate_container_ip db v nid = (fst (allocate_container_ip db v nid), None)"
    using assms(1) by (metis prod.collapse)
  from this refl refl show ?thesis
  proof (cases rule: allocate_container_ip_cases)
    case (full db1)
    have "ip \<in> blocked_ips (db_release_ip_reservations_for_vmid v db) v (ct_node_of db v nid) \<or>
        map_of (nd_ip_res (db_release_ip_reservations_for_vmid v db)) ip \<noteq> None"
      using ip_ledger.scan_none [OF full(2) assms(2)] by simp
    then show ?thesis
      by (auto simp: blocked_ips_def db_used_ip_reservations_def dest: map_of_SomeD intro: rev_image_eqI)
  qed simp_all
qed

theorem container_ip_complete_witness:
  "let db = demo_net\<lparr>nd_settings := [(''ip_start'', SText ''10.0.0.10''), (''ip_end'', SText ''10.0.0.11'')]\<rparr>
   in set (ip_range db (Some 1)) \<subseteq> blocked_ips (db_release_ip_reservations_for_vmid 201 db) 201 (Some 1)"
proof -
  let ?db = "demo_net\<lparr>nd_settings := [(''ip_start'', SText ''10.0.0.10''), (''ip_end'', SText ''10.0.0.11'')]\<rparr>"
  have a: "snd (allocate_container_ip ?db 201 (Some 1)) = None" by code_simp
  have n: "ct_node_of ?db 201 (Some 1) = Some 1" by (simp add: ct_node_of_def)
  show ?thesis unfolding Let_def using container_ip_complete [OF a] by (auto simp: n)
qed

text \<open>
  C13. Concurrent allocations on a site without private subnets: calls of \<open>allocate_container_ip\<close> for any number of containers, one at a time for each
  container, their reads and their INSERTs interleaved in any order with each other, with the writing of the addresses in the rows and with destructions of
  containers.  As long as no address is written while the call of another container is between its reads and its end, no two containers ever hold the same
  address, in their row or in hand; and a call that runs alone from any state so reached is \<open>allocate_container_ip\<close>.
\<close>

theorem ip_race_distinct:
  assumes "ip_run True as (db0, []) = Some st" and "ips_ok db0" and "\<forall>n. \<not> node_net_interne db0 n"
  shows "(holds_ip st v ip \<longrightarrow> holds_ip st w ip \<longrightarrow> v = w) \<and>
    (at_rest (proc (snd st) u) \<longrightarrow> (\<exists>n. ip_run True (Call u nid # replicate n (Go u)) st =
       Some (case allocate_container_ip (fst st) u nid of
               (db, r) \<Rightarrow> (db, dict_put u (case r of Some a \<Rightarrow> Got a | None \<Rightarrow> Idle) (snd st)))))"
proof -
  have "ips_inv (db0, [])" using assms(2,3) by (simp add: ips_inv_def proc_def proc_ok_def)
  then have "ips_inv st" using run_inv [OF assms(1)] by blast
  then have "holds_ip st v ip \<longrightarrow> holds_ip st w ip \<longrightarrow> v = w" using ips_invD by blast
  moreover obtain db r where a: "allocate_container_ip (fst st) u nid = (db, r)" by fastforce
  ultimately show ?thesis using ip_alone [OF a, of "snd st" True] by simp
qed

definition two_new :: net_db where
  "two_new = demo_net\<lparr>nd_containers := [\<lparr>nc_vmid = 200, nc_node = Some 1, nc_ip = [], nc_docker_ip = []\<rparr>,
                                        \<lparr>nc_vmid = 201, nc_node = Some 1, nc_ip = [], nc_docker_ip = []\<rparr>]\<rparr>"

lemma two_new_ok: "ips_ok two_new" "\<not> node_net_interne two_new n"
  by (simp_all add: ips_ok_def row_has_def two_new_def demo_net_def node_net_interne_def node_net_mode_def net_node_row_def py_strip_def py_lower_def)

text \<open>Two calls that both read the range as free: the loser of the INSERT takes the next address.\<close>

definition two_calls :: "ip_act list" where
  "two_calls = [Call 200 None, Call 201 None, Go 200, Go 201, Go 200, Go 201, Go 201, Go 200, Go 201, Go 200, Go 200, Persist 201]"

theorem ip_race_distinct_witness:
  "\<exists>st. ip_run True two_calls (two_new, []) = Some st \<and> {w. holds_ip st w ''10.0.0.11''} = {201} \<and> {w. holds_ip st w ''10.0.0.12''} = {200}"
proof -
  obtain st where st: "ip_run True two_calls (two_new, []) = Some st"
    and h: "row_has (fst st) 201 ''10.0.0.11''" "proc (snd st) 200 = Got ''10.0.0.12''"
  proof -
    have "case ip_run True two_calls (two_new, []) of None \<Rightarrow> False
        | Some st \<Rightarrow> map nc_docker_ip (nd_containers (fst st)) = [[], ''10.0.0.11''] \<and> map nc_vmid (nd_containers (fst st)) = [200, 201] \<and>
            map_of (snd st) 200 = Some (Got ''10.0.0.12'')" by code_simp
    then show thesis by (auto split: option.splits simp: map_eq_Cons_conv row_has_def proc_def intro!: that)
  qed
  note one = ip_race_distinct [OF st two_new_ok(1), THEN conjunct1, rule_format, OF two_new_ok(2)]
  have "holds_ip st 201 ''10.0.0.11''" "holds_ip st 200 ''10.0.0.12''" using h by (simp_all add: holds_ip_def)
  then show ?thesis using st one by blast
qed

text \<open>
  The other order: an address written between the reads of another call and its INSERT.  \<open>db_update_docker_ip\<close> lifts the reservation, the call still takes the
  address for a free one, and its INSERT succeeds: two containers at the same address, which the documentation of \<open>allocate_container_ip\<close> excludes.
\<close>

theorem ip_written_meanwhile:
  "case ip_run False [Call 201 None, Go 201, Call 200 None, Go 200, Go 200, Go 200, Go 200, Persist 200, Go 201, Go 201, Go 201, Persist 201] (two_new, []) of
     None \<Rightarrow> False
   | Some st \<Rightarrow> map nc_docker_ip (nd_containers (fst st)) = [''10.0.0.11'', ''10.0.0.11'']"
  by code_simp

subsection \<open>Numbers of containers\<close>

text \<open>
  C14. The numbers are monotone: in any sequence of allocations, creations of containers under an
  allocated number and destructions of containers, the numbers given are strictly increasing, so
  that none is ever given twice, although the reservations of created containers are pruned.
\<close>

theorem vmid_monotone:
  assumes "vmid_step\<^sup>*\<^sup>* (db0, []) (db, ds)"
  shows "sorted_wrt (<) ds"
  using vmid_inv_reach [OF assms] by (simp add: vmid_inv_def)

theorem vmid_monotone_witness:
  "\<exists>db. vmid_step\<^sup>*\<^sup>* (demo_net, []) (db, [202, 203]) \<and> sorted_wrt (<) [202, 203 :: int]"
proof -
  let ?a = "fst (next_free_vmid demo_net)"
  let ?b = "net_delete_container 201 ?a"
  let ?c = "fst (next_free_vmid ?b)"
  have v: "snd (next_free_vmid demo_net) = Inr (Some 202)" "snd (next_free_vmid ?b) = Inr (Some 203)" by code_simp+
  have "vmid_step (demo_net, []) (?a, [] @ [202])" by (rule vmid_step.alloue) (metis v(1) prod.collapse)
  moreover have "vmid_step (?a, [] @ [202]) (?b, [] @ [202])" by (rule vmid_step.detruit)
  moreover have "vmid_step (?b, [] @ [202]) (?c, ([] @ [202]) @ [203])" by (rule vmid_step.alloue) (metis v(2) prod.collapse)
  ultimately have "vmid_step\<^sup>*\<^sup>* (demo_net, []) (?c, [202, 203])"
    by simp
  then show ?thesis using vmid_monotone by blast
qed

subsection \<open>Multicast groups\<close>

text \<open>
  C15. No theft and no leak: an allocation for an owner leaves the reservations of every other owner
  as they are, what it answers is reserved for its owner, and an owner never ends with two
  addresses, however many times it asks again.
\<close>

theorem multicast_no_theft:
  assumes "distinct (map fst (nd_mcast db))" and "inj_on snd (set (nd_mcast db))"
  shows "let (db', r) = allocate_multicast_for db nid ifname mn essence leg p fmt ow slot sub in
         distinct (map fst (nd_mcast db')) \<and> inj_on snd (set (nd_mcast db')) \<and>
         (\<forall>k x. x \<noteq> ow \<longrightarrow> map_of (nd_mcast db') k = Some x \<longleftrightarrow> map_of (nd_mcast db) k = Some x) \<and>
         (\<forall>k. r = Inr (Some k) \<longrightarrow> map_of (nd_mcast db') k = Some ow)"
proof -
  have "mcast_ok (nd_mcast db)" using assms by (simp add: mcast_ok_def)
  from allocate_multicast_for_post [OF this, of ow nid ifname mn essence leg p fmt slot sub] show ?thesis
    unfolding mcast_post_def mcast_ok_def others_kept_def case_prod_beta Let_def by blast
qed

theorem multicast_no_theft_witness:
  "snd (allocate_multicast_for demo_net (Some 1) ''ens1'' None ''video'' 0 None [] ''a'' (Some 0) 0) =
     Inr (Some (''239.1.0.1'', 5000)) \<and>
   map_of (nd_mcast (fst (allocate_multicast_for demo_net (Some 1) ''ens1'' None ''video'' 0 None [] ''a'' (Some 0) 0)))
     (''239.1.0.1'', 5000) = Some ''a''"
proof -
  let ?o = "allocate_multicast_for demo_net (Some 1) ''ens1'' None ''video'' 0 None [] ''a'' (Some 0) 0"
  have r: "snd ?o = Inr (Some (''239.1.0.1'', 5000))" by code_simp
  have h: "distinct (map fst (nd_mcast demo_net))" "inj_on snd (set (nd_mcast demo_net))"
    by (simp_all add: demo_net_def)
  from multicast_no_theft [OF h, of "Some 1" "''ens1''" None "''video''" 0 None "[]" "''a''" "Some 0" 0] r
  show ?thesis by (simp add: case_prod_beta)
qed

text \<open>
  A strict range is strict: when a rule applies to the port, the group allocated lies strictly
  above the base address of the rule and inside its size, at the port the rule or the caller sets;
  there is no fallback to the global pool.
\<close>

theorem multicast_strict_range:
  assumes "distinct (map fst (nd_mcast db))" and "inj_on snd (set (nd_mcast db))"
    and "plage_applicable db nid ifname mn essence leg fmt = Some r"
    and "snd (allocate_multicast_for db nid ifname mn essence leg p fmt ow slot sub) = Inr (Some k)"
  shows "\<exists>a i. ip_int (mr_base_ip r) = Some a \<and> ip_int (fst k) = Some i \<and> a < i \<and> i < a + mr_size r \<and>
           port_or [p, rule_port r essence, mr_port_default r] db = Some (snd k)"
  using allocate_multicast_for_range [OF _ assms(3,4)] assms(1,2) by (simp add: mcast_ok_def)

theorem multicast_strict_range_witness:
  "\<exists>a i. ip_int ''239.1.0.0'' = Some a \<and> ip_int ''239.1.0.1'' = Some i \<and> a < i \<and> i < a + 3"
proof -
  have h: "distinct (map fst (nd_mcast demo_net))" "inj_on snd (set (nd_mcast demo_net))"
    by (simp_all add: demo_net_def)
  have p: "plage_applicable demo_net (Some 1) ''ens1'' None ''video'' 0 [] = Some demo_rule" by code_simp
  have r: "snd (allocate_multicast_for demo_net (Some 1) ''ens1'' None ''video'' 0 None [] ''a'' (Some 0) 0) =
      Inr (Some (''239.1.0.1'', 5000))" by code_simp
  from multicast_strict_range [OF h p r] show ?thesis by (simp add: demo_rule_def) blast
qed

text \<open>
  The plan gives every flow its own address: under a rule that keeps the default offsets, two
  flows of different essence, output or audio rank are planned at different offsets as long as there
  are at most fifty outputs; the fifty-first video would meet the first ancillary flow.
\<close>

theorem plan_injective:
  assumes "mr_essence r = []" and "mr_off_video r = None" and "mr_off_anc r = None" and "mr_off_audio r = None"
    and "mr_step_audio r = None"
    and "{e, e'} \<subseteq> {''video'', ''anc'', ''audio''}" and "0 \<le> s" "s < 50" "0 \<le> s'" "s' < 50" "0 \<le> j" "0 \<le> j'"
    and "plan_offset (Some r) e (Some s) j 0 = plan_offset (Some r) e' (Some s') j' 0"
  shows "e = e' \<and> s = s' \<and> (e = ''audio'' \<longrightarrow> j = j')"
proof -
  have d: "plan_decalages (Some r) = \<lparr>dec_video = 0, dec_anc = 50, dec_audio = 100, pas_audio = 100\<rparr>"
    using assms(1-5) by (simp add: plan_decalages_def)
  have po: "plan_offset (Some r) ''video'' (Some x) y 0 = Some (x + 1)"
    "plan_offset (Some r) ''anc'' (Some x) y 0 = Some (x + 51)"
    "plan_offset (Some r) ''audio'' (Some x) y 0 = Some (x + 101 + 100 * y)" for x y
    by (simp_all add: plan_offset_def Let_def d)
  have aud: "x = x' \<and> y = y'"
    if "0 \<le> x" "x < 50" "0 \<le> x'" "x' < 50" "x + 100 * y = x' + 100 * y'" for x x' y y' :: int
  proof -
    have "y - y' < 1" and "- 1 < y - y'" using that by linarith+
    then have y: "y = y'" by linarith
    moreover have "x = x'" using that(5) unfolding y by simp
    ultimately show ?thesis by simp
  qed
  have "e = ''video'' \<or> e = ''anc'' \<or> e = ''audio''" using assms(6) by simp
  moreover have "e' = ''video'' \<or> e' = ''anc'' \<or> e' = ''audio''" using assms(6) by simp
  moreover note aud [OF assms(7-10), of j j'] and assms(7-13)
  ultimately show ?thesis by (elim disjE) (simp_all add: po)
qed

theorem plan_injective_witness:
  "plan_offset (Some demo_rule) ''video'' (Some 3) 0 0 \<noteq> plan_offset (Some demo_rule) ''anc'' (Some 3) 0 0 \<and>
   plan_offset (Some demo_rule) ''video'' (Some 50) 0 0 = plan_offset (Some demo_rule) ''anc'' (Some 0) 0 0"
proof -
  have "plan_offset (Some demo_rule) ''video'' (Some 3) 0 0 \<noteq> plan_offset (Some demo_rule) ''anc'' (Some 3) 0 0"
    using plan_injective [of demo_rule "''video''" "''anc''" 3 3 0 0] by (auto simp: demo_rule_def)
  moreover have "plan_offset (Some demo_rule) ''video'' (Some 50) 0 0 = plan_offset (Some demo_rule) ''anc'' (Some 0) 0 0"
    by code_simp
  ultimately show ?thesis by simp
qed

text \<open>
  C17. A re-planning never touches another engine's addresses, simulated or applied: the rows whose
  owner does not belong to the engine are what they were and the ledger stays in order; a simulation
  changes neither the ledger nor the slots.
\<close>

theorem replan_safe:
  assumes "distinct (map fst (nd_mcast db))" and "inj_on snd (set (nd_mcast db))"
  shows "let (db', slots, diff) = plan_tx_multicast db en b push_ok in
         distinct (map fst (nd_mcast db')) \<and> inj_on snd (set (nd_mcast db')) \<and>
         (\<forall>k x. take (length (tx_prefix (en_vmid en))) x \<noteq> tx_prefix (en_vmid en) \<longrightarrow>
            (map_of (nd_mcast db') k = Some x \<longleftrightarrow> map_of (nd_mcast db) k = Some x)) \<and>
         (\<not> b \<longrightarrow> db' = db \<and> slots = en_slots en)"
proof -
  have ok: "mcast_ok (nd_mcast db)" using assms by (simp add: mcast_ok_def)
  obtain db1 sl d where s: "replan_slots en b 0 (en_slots en) (db, []) = (db1, sl, d)" by (metis prod_cases3)
  have f: "mcast_ok (nd_mcast db1) \<and> foreign_kept (en_vmid en) db db1" by (rule replan_slots_ok [OF ok s])
  have dry: "\<not> b \<Longrightarrow> db1 = db" using s replan_slots_dry [of en 0 "en_slots en" db "[]"] by (cases b) auto
  obtain db2 sl2 d2 where out: "plan_tx_multicast db en b push_ok = (db2, sl2, d2)" by (metis prod_cases3)
  have "nd_mcast db2 = nd_mcast db1 \<or> nd_mcast db2 = nd_mcast db" and "\<not> b \<Longrightarrow> db2 = db \<and> sl2 = en_slots en"
    using out s dry by (auto simp: plan_tx_multicast_def Let_def split: if_splits)
  then show ?thesis using f ok out
    by (auto simp: mcast_ok_def foreign_kept_def foreign_def)
qed

definition demo_engine :: engine where
  "demo_engine = \<lparr>en_vmid = 300, en_hostname = ''io'', en_node = Some 1, en_tx_pins = [],
     en_slots = [\<lparr>sl_ip = ''239.1.0.2'', sl_port = 5000, sl_fmt = [], sl_audios = [], sl_anc_ip = [], sl_anc_port = 0\<rparr>],
     en_flows = []\<rparr>"

theorem replan_safe_witness:
  "map_of (nd_mcast (fst (plan_tx_multicast (demo_net\<lparr>nd_mcast := [((''239.1.0.2'', 5000), ''tx:300:0:layout''), ((''239.9.9.9'', 5000), ''x'')]\<rparr>)
     demo_engine True True))) (''239.9.9.9'', 5000) = Some ''x'' \<and>
   nd_mcast (fst (plan_tx_multicast (demo_net\<lparr>nd_mcast := [((''239.1.0.2'', 5000), ''tx:300:0:layout''), ((''239.9.9.9'', 5000), ''x'')]\<rparr>)
     demo_engine True True)) = [((''239.9.9.9'', 5000), ''x''), ((''239.1.0.1'', 5000), ''tx:300:0:video:leg0'')]"
proof -
  let ?db = "demo_net\<lparr>nd_mcast := [((''239.1.0.2'', 5000), ''tx:300:0:layout''), ((''239.9.9.9'', 5000), ''x'')]\<rparr>"
  have h: "distinct (map fst (nd_mcast ?db))" "inj_on snd (set (nd_mcast ?db))" by simp_all
  have x: "take (length (tx_prefix (en_vmid demo_engine))) ''x'' \<noteq> tx_prefix (en_vmid demo_engine)" by code_simp
  have "map_of (nd_mcast (fst (plan_tx_multicast ?db demo_engine True True))) (''239.9.9.9'', 5000) = Some ''x''"
    using replan_safe [OF h, of demo_engine True True] x by (auto simp: case_prod_beta Let_def)
  moreover have "nd_mcast (fst (plan_tx_multicast ?db demo_engine True True)) =
      [((''239.9.9.9'', 5000), ''x''), ((''239.1.0.1'', 5000), ''tx:300:0:video:leg0'')]" by code_simp
  ultimately show ?thesis by simp
qed

text \<open>
  The panel of exhausted ranges misses them: with every allocatable address of a range taken the
  next allocation is refused with an alert, and \<open>plages_epuisees\<close> still reports no range, because it
  also looks at the base address, which is never allocated.
\<close>

theorem exhausted_range_not_reported:
  "let db = demo_net\<lparr>nd_mcast := [((''239.1.0.1'', 5000), ''a''), ((''239.1.0.2'', 5000), ''b'')]\<rparr> in
   plages_epuisees db = Inr [] \<and>
   snd (allocate_multicast_for db (Some 1) ''ens1'' None ''video'' 0 None [] ''c'' None 0) = Inr None \<and>
   map al_key (nd_alerts (fst (allocate_multicast_for db (Some 1) ''ens1'' None ''video'' 0 None [] ''c'' None 0)))
     = [''alert.net.plage_multicast_epuisee'']"
  by code_simp

end
