(* ===== verification/Playout_State.thy ===== *)
theory Playout_State
  imports Bobi_Prelude Complex_Main
begin

text \<open>
  The data of the playout groups (\<open>app/playout_groups.py\<close>): the items of the playlist, the group as
  its row in the data base is read, what a player shows in its \<open>/state\<close>, and the pure functions
  that distribute the playlist over the outputs (\<open>upcoming\<close>, \<open>assignment\<close>,
  \<open>plan\<close>, \<open>next_target\<close>).

  An output of the group is the \<open>instance_uuid\<close> of its player, a string.  A time is a rational
  number of seconds.
\<close>

subsection \<open>Items, groups, readings\<close>

record item =
  it_id :: string
  it_file :: string
  it_asset :: "string option"
  it_title :: "string option"
  it_skipped :: bool
  it_played_on :: "string option"

text \<open>An item as the caller gives it (every key may be missing).\<close>

record raw_item =
  ri_id :: "string option"
  ri_file :: "string option"
  ri_asset :: "string option"
  ri_title :: "string option"
  ri_skipped :: bool
  ri_played_on :: "string option"

record channel =
  ch_mixer_input :: "int option"
  ch_strip :: "int option"
  ch_strip_id :: "string option"

datatype trigger = Manual | By_mixer
datatype out_of_order = Oo_skip | Oo_requeue | Oo_refuse

record pgroup =
  pg_id :: int
  pg_name :: string
  pg_project :: "int option"
  pg_members :: "string list"
  pg_items :: "item list"
  pg_cursor :: "string option"
  pg_air_member :: "string option"
  pg_air_live :: bool
  pg_release :: "(string \<times> rat) list"
  pg_trigger :: trigger
  pg_mixer :: "string option"
  pg_console :: "string option"
  pg_channels :: "(string \<times> channel) list"
  pg_auto_release :: bool
  pg_out_of_order :: out_of_order
  pg_auto_next :: bool

record obs =
  ob_asset :: "string option"
  ob_file :: "string option"
  ob_paused :: "bool option"
  ob_position :: rat
  ob_duration :: rat
  ob_eof :: bool

text \<open>\<open>PlayoutError\<close> with its code (the text for the operator is not modelled), and the
  exceptions of Python itself (\<open>ValueError\<close> of \<open>list.index\<close>, \<open>KeyError\<close> of a dictionary).\<close>

datatype perr = PlayoutError string | PyError string

definition letters :: string where
  "letters = ''ABCDEFGHIJKLMNOPQRSTUVWXYZ''"

definition max_members :: nat where "max_members = length letters"
definition max_items :: nat where "max_items = 2000"
definition take_timeout_s :: rat where "take_timeout_s = 3"
definition cmd_retry_s :: rat where "cmd_retry_s = 8"
definition fetch_retry_s :: rat where "fetch_retry_s = 30"
definition end_wrap_s :: rat where "end_wrap_s = 3 / 2"
definition minus_inf_db :: rat where "minus_inf_db = -120"

definition letter :: "nat \<Rightarrow> string" where
  "letter i = (if i < length letters then [letters ! i] else ''?'')"

subsection \<open>Python helpers\<close>

text \<open>The truth value of a text that may be missing; \<open>x or None\<close>; the first index of a list that
  satisfies a test; the part after the last slash.\<close>

definition some_text :: "string option \<Rightarrow> bool" where
  "some_text s = (case s of None \<Rightarrow> False | Some t \<Rightarrow> t \<noteq> [])"

definition or_none :: "string option \<Rightarrow> string option" where
  "or_none s = (if some_text s then s else None)"

definition or_empty :: "string option \<Rightarrow> string" where
  "or_empty s = (case s of None \<Rightarrow> [] | Some t \<Rightarrow> t)"

fun find_index :: "('a \<Rightarrow> bool) \<Rightarrow> 'a list \<Rightarrow> nat option" where
  "find_index P [] = None"
| "find_index P (x # xs) = (if P x then Some 0 else map_option Suc (find_index P xs))"

definition basename :: "string \<Rightarrow> string" where
  "basename s = rev (takeWhile (\<lambda>c. c \<noteq> CHR ''/'') (rev s))"

text \<open>\<open>for x in xs[a:b]: f(x)\<close> on the mutable elements of a list.\<close>

definition update_slice :: "('a \<Rightarrow> 'a) \<Rightarrow> nat \<Rightarrow> nat \<Rightarrow> 'a list \<Rightarrow> 'a list" where
  "update_slice f a b xs = take a xs @ map f (take (b - a) (drop a xs)) @ drop (a + (b - a)) xs"

subsection \<open>Items\<close>

text \<open>\<open>new_item\<close>; \<open>fresh\<close> is the identity \<open>uuid4\<close> gives to an item that has none.\<close>

definition new_item :: "string \<Rightarrow> raw_item \<Rightarrow> item" where
  "new_item fresh d =
     \<lparr>it_id = (if some_text (ri_id d) then or_empty (ri_id d) else fresh),
      it_file = or_empty (ri_file d),
      it_asset = or_none (ri_asset d),
      it_title = or_none (ri_title d),
      it_skipped = ri_skipped d,
      it_played_on = or_none (ri_played_on d)\<rparr>"

definition item_label :: "item option \<Rightarrow> string" where
  "item_label o_it =
     (case o_it of
        None \<Rightarrow> []
      | Some it \<Rightarrow>
          if some_text (it_title it) then or_empty (it_title it)
          else if basename (it_file it) \<noteq> [] then basename (it_file it)
          else or_empty (it_asset it))"

text \<open>\<open>_find\<close>: the rank of an item, or the refusal \<open>unknown_item\<close>.\<close>

definition find_item :: "item list \<Rightarrow> string \<Rightarrow> nat option" where
  "find_item items i = find_index (\<lambda>it. it_id it = i) items"

definition cursor_index :: "item list \<Rightarrow> string option \<Rightarrow> int" where
  "cursor_index items cursor =
     (case cursor of
        None \<Rightarrow> -1
      | Some c \<Rightarrow> (case find_item items c of None \<Rightarrow> -1 | Some i \<Rightarrow> int i))"

text \<open>The start of the slice \<open>items[ci + 1:]\<close>.\<close>

definition after_cursor :: "pgroup \<Rightarrow> nat" where
  "after_cursor g = nat (cursor_index (pg_items g) (pg_cursor g) + 1)"

definition upcoming :: "pgroup \<Rightarrow> item list" where
  "upcoming g = filter (\<lambda>it. \<not> it_skipped it) (drop (after_cursor g) (pg_items g))"

subsection \<open>The distribution of the playlist\<close>

definition base_member :: "pgroup \<Rightarrow> string option" where
  "base_member g =
     (case pg_air_member g of
        None \<Rightarrow> None
      | Some a \<Rightarrow> if a \<in> set (pg_members g) then Some a else None)"

definition air :: "pgroup \<Rightarrow> string option" where
  "air g = (case base_member g of
              None \<Rightarrow> None
            | Some b \<Rightarrow> if b \<noteq> [] \<and> pg_air_live g then Some b else None)"

text \<open>The index the first item to come is counted from: \<open>base + 1\<close>, or 0 without a base.\<close>

definition first_slot :: "pgroup \<Rightarrow> nat" where
  "first_slot g =
     (case base_member g of
        None \<Rightarrow> 0
      | Some b \<Rightarrow> if b = [] then 0
                  else (case find_index (\<lambda>m. m = b) (pg_members g) of None \<Rightarrow> 0 | Some i \<Rightarrow> i + 1))"

definition slot :: "pgroup \<Rightarrow> nat \<Rightarrow> string" where
  "slot g k = pg_members g ! ((first_slot g + k) mod length (pg_members g))"

definition assignment :: "pgroup \<Rightarrow> (string \<rightharpoonup> string)" where
  "assignment g =
     (if pg_members g = [] then Map.empty
      else map_of (rev (map (\<lambda>(k, it). (it_id it, slot g k)) (enumerate 0 (upcoming g)))))"

datatype role = Air | Cue | Release | Idle

definition cue_count :: "pgroup \<Rightarrow> nat" where
  "cue_count g = (if air g \<noteq> None then length (pg_members g) - 1 else length (pg_members g))"

text \<open>The item each output wants: the first items to come, each on the output it is assigned to.\<close>

definition wanted :: "pgroup \<Rightarrow> (string \<rightharpoonup> item)" where
  "wanted g =
     fold (\<lambda>it want. case assignment g (it_id it) of None \<Rightarrow> want | Some m \<Rightarrow> want(m \<mapsto> it))
       (take (cue_count g) (upcoming g)) Map.empty"

definition air_item :: "pgroup \<Rightarrow> item option" where
  "air_item g =
     (let ci = cursor_index (pg_items g) (pg_cursor g)
      in if 0 \<le> ci then Some (pg_items g ! nat ci) else None)"

definition plan_of :: "pgroup \<Rightarrow> string \<Rightarrow> role \<times> item option" where
  "plan_of g u =
     (if air g = Some u then (Air, air_item g)
      else if u \<in> fst ` set (pg_release g) then (Release, wanted g u)
      else ((if wanted g u \<noteq> None then Cue else Idle), wanted g u))"

definition plan :: "pgroup \<Rightarrow> (string \<times> role \<times> item option) list" where
  "plan g = map (\<lambda>u. (u, plan_of g u)) (pg_members g)"

definition next_target :: "pgroup \<Rightarrow> (item \<times> string) option" where
  "next_target g =
     (case upcoming g of
        [] \<Rightarrow> None
      | it # _ \<Rightarrow> map_option (\<lambda>m. (it, m)) (assignment g (it_id it)))"

subsection \<open>What a player shows\<close>

definition matches :: "obs option \<Rightarrow> item option \<Rightarrow> bool" where
  "matches oo io =
     (case (oo, io) of
        (Some ob, Some it) \<Rightarrow>
          (if some_text (it_asset it) \<and> some_text (ob_asset ob) then ob_asset ob = it_asset it
           else let f = it_file it; g = or_empty (ob_file ob)
                in f \<noteq> [] \<and> g \<noteq> [] \<and> (g = f \<or> basename g = basename f))
      | _ \<Rightarrow> False)"

definition is_playing :: "obs option \<Rightarrow> item option \<Rightarrow> bool" where
  "is_playing oo io =
     (matches oo io \<and> (case oo of None \<Rightarrow> False | Some ob \<Rightarrow> ob_paused ob = Some False))"

datatype status =
  Offline | Taking | On_air | Releasing | Nothing | Fetching | Ready | Protected | In_error | Loading

text \<open>\<open>fetching\<close> stands for a fetch job in one of the states \<open>ACTIVE_FETCH\<close>.\<close>

definition member_status :: "role \<Rightarrow> obs option \<Rightarrow> item option \<Rightarrow> bool \<Rightarrow> bool \<Rightarrow> bool \<Rightarrow> bool \<Rightarrow> bool \<Rightarrow> status" where
  "member_status r oo io fetching err on_program reachable taking =
     (if \<not> reachable then Offline
      else if taking then Taking
      else if r = Air then On_air
      else if r = Release then Releasing
      else if io = None then Nothing
      else if fetching then Fetching
      else if matches oo io \<and> (case oo of None \<Rightarrow> False | Some ob \<Rightarrow> ob_paused ob = Some True) then Ready
      else if on_program then Protected
      else if err then In_error
      else Loading)"

end
