(* ===== verification/Playout_Ops.thy ===== *)
theory Playout_Ops
  imports Playout_State
begin

text \<open>
  The operations on a playout group (\<open>app/playout_groups.py\<close>): the confirmed take, the CUE of the
  output on air, the edits of the playlist, the reset, the designation of an output by its letter, the
  validation of a configuration and its update, and the test that lets an output be released without an
  operator.  An operation that raises returns \<open>Inl\<close> the error.
\<close>

subsection \<open>The take\<close>

definition confirm_take :: "pgroup \<Rightarrow> string \<Rightarrow> string \<Rightarrow> rat \<Rightarrow> perr + pgroup" where
  "confirm_take g u item_id now =
     (case find_item (pg_items g) item_id of
        None \<Rightarrow> Inl (PlayoutError ''unknown_item'')
      | Some i \<Rightarrow>
          let items = pg_items g;
              a = after_cursor g;
              between = take (i - a) (drop a items);
              passed = filter (\<lambda>it. \<not> it_skipped it) between;
              (items, i) =
                (if passed \<noteq> [] \<and> pg_out_of_order g = Oo_requeue then
                   let keep = filter it_skipped between;
                       items = take a items @ keep @ [items ! i] @ passed @ drop (max a (i + 1)) items
                   in (items, (case find_item items item_id of None \<Rightarrow> i | Some j \<Rightarrow> j))
                 else (update_slice (\<lambda>it. if it_skipped it then it else it\<lparr>it_skipped := True\<rparr>) a i items, i));
              items = items[i := (items ! i)\<lparr>it_skipped := False, it_played_on := Some u\<rparr>];
              prev = air g;
              rp = filter (\<lambda>(m, t). m \<noteq> u) (pg_release g);
              rp = (case prev of None \<Rightarrow> rp | Some p \<Rightarrow> if p \<noteq> u then dict_put p now rp else rp)
          in Inr (g\<lparr>pg_items := items, pg_cursor := Some item_id, pg_air_member := Some u,
                    pg_air_live := True, pg_release := rp\<rparr>))"

definition stop_air :: "pgroup \<Rightarrow> string \<Rightarrow> pgroup" where
  "stop_air g u =
     g\<lparr>pg_air_live := (if air g = Some u then False else pg_air_live g),
       pg_release := filter (\<lambda>(m, t). m \<noteq> u) (pg_release g)\<rparr>"

text \<open>The programme moves onto the output that waits for the next item: \<open>None\<close> for a reading that is
  unknown, before or now.\<close>

definition mixer_should_play :: "pgroup \<Rightarrow> string set option \<Rightarrow> string set option \<Rightarrow> string option" where
  "mixer_should_play g now before =
     (case (before, now) of
        (Some b, Some n) \<Rightarrow>
          (case next_target g of
             None \<Rightarrow> None
           | Some (it, t) \<Rightarrow>
               if t \<in> fst ` set (pg_release g) \<or> air g = Some t then None
               else if t \<in> n \<and> t \<notin> b then Some t else None)
      | _ \<Rightarrow> None)"

subsection \<open>Edits of the playlist\<close>

text \<open>The \<open>value\<close> of an edit: absent, a boolean, a number or a text.\<close>

datatype op_value = VNone | VBool bool | VInt int | VText string

fun value_true :: "op_value \<Rightarrow> bool" where
  "value_true VNone = True"
| "value_true (VBool b) = b"
| "value_true (VInt n) = (n \<noteq> 0)"
| "value_true (VText s) = (s \<noteq> [])"

fun value_int :: "op_value \<Rightarrow> int option" where
  "value_int VNone = None"
| "value_int (VBool b) = Some (if b then 1 else 0)"
| "value_int (VInt n) = Some n"
| "value_int (VText s) = py_int s"

definition remove_at :: "nat \<Rightarrow> 'a list \<Rightarrow> 'a list" where
  "remove_at i xs = take i xs @ drop (i + 1) xs"

text \<open>\<open>items.insert(to, items.pop(i))\<close>.\<close>

definition move_item :: "nat \<Rightarrow> nat \<Rightarrow> 'a list \<Rightarrow> 'a list" where
  "move_item i to xs = (let r = remove_at i xs in take to r @ [xs ! i] @ drop to r)"

definition set_skipped :: "nat \<Rightarrow> bool \<Rightarrow> item list \<Rightarrow> item list" where
  "set_skipped i b items = items[i := (items ! i)\<lparr>it_skipped := b\<rparr>]"

text \<open>The rank asked for, and the rank an item really goes to: among the items to come only.\<close>

definition move_target :: "string \<Rightarrow> nat \<Rightarrow> op_value \<Rightarrow> int option" where
  "move_target op i v =
     (if op = ''up'' then Some (int i - 1)
      else if op = ''down'' then Some (int i + 1)
      else value_int v)"

definition clamp_target :: "pgroup \<Rightarrow> int \<Rightarrow> nat" where
  "clamp_target g to = nat (max (int (after_cursor g)) (min (int (length (pg_items g)) - 1) to))"

definition item_op :: "pgroup \<Rightarrow> string \<Rightarrow> string \<Rightarrow> op_value \<Rightarrow> perr + pgroup" where
  "item_op g op item_id v =
     (let items = pg_items g;
          ci = cursor_index items (pg_cursor g)
      in case find_item items item_id of
           None \<Rightarrow> Inl (PlayoutError ''unknown_item'')
         | Some i \<Rightarrow>
             if op = ''drop'' then
               (if int i = ci then Inl (PlayoutError ''on_air'')
                else Inr (g\<lparr>pg_items := remove_at i items\<rparr>))
             else if int i \<le> ci then Inl (PlayoutError ''not_upcoming'')
             else if op = ''skip'' then Inr (g\<lparr>pg_items := set_skipped i (value_true v) items\<rparr>)
             else if op = ''unskip'' then Inr (g\<lparr>pg_items := set_skipped i False items\<rparr>)
             else if op = ''up'' \<or> op = ''down'' \<or> op = ''move'' then
               (case move_target op i v of
                  None \<Rightarrow> Inl (PlayoutError ''bad_position'')
                | Some to \<Rightarrow>
                    let t = clamp_target g to
                    in Inr (if t \<noteq> i then g\<lparr>pg_items := move_item i t items\<rparr> else g))
             else if op = ''goto'' then
               Inr (g\<lparr>pg_items :=
                      set_skipped i False
                        (update_slice (\<lambda>it. it\<lparr>it_skipped := True\<rparr>) (after_cursor g) i items)\<rparr>)
             else Inl (PlayoutError ''unknown_op''))"

text \<open>
  \<open>add_items\<close>: \<open>fresh k\<close> is the identity \<open>uuid4\<close> gives the k-th new item; an item
  without a file and without an asset is dropped, an unknown mode appends.
\<close>

definition new_items :: "(nat \<Rightarrow> string) \<Rightarrow> raw_item list \<Rightarrow> item list" where
  "new_items fresh new =
     map (\<lambda>(k, d). (new_item (fresh k) d)\<lparr>it_id := fresh k, it_skipped := False, it_played_on := None\<rparr>)
       (enumerate 0 (filter (\<lambda>d. some_text (ri_file d) \<or> some_text (ri_asset d)) new))"

definition add_items :: "(nat \<Rightarrow> string) \<Rightarrow> pgroup \<Rightarrow> raw_item list \<Rightarrow> string \<Rightarrow> perr + (pgroup \<times> item list)" where
  "add_items fresh g new mode =
     (let news = new_items fresh new;
          a = after_cursor g;
          g = (if mode = ''replace'' then g\<lparr>pg_items := news, pg_cursor := None\<rparr>
               else if mode = ''next'' then
                 g\<lparr>pg_items := take a (pg_items g) @ news @ drop a (pg_items g)\<rparr>
               else g\<lparr>pg_items := pg_items g @ news\<rparr>)
      in if length (pg_items g) > max_items then Inl (PlayoutError ''too_many_items'')
         else Inr (g, news))"

definition reset :: "pgroup \<Rightarrow> pgroup" where
  "reset g = g\<lparr>pg_cursor := None, pg_items := map (\<lambda>it. it\<lparr>it_played_on := None\<rparr>) (pg_items g)\<rparr>"

definition upper_char :: "char \<Rightarrow> char" where
  "upper_char c = (let k = (of_char c :: nat) in if 97 \<le> k \<and> k \<le> 122 then char_of (k - 32) else c)"

definition member_by_letter :: "pgroup \<Rightarrow> string \<Rightarrow> perr + string" where
  "member_by_letter g out0 =
     (let out = py_strip out0 in
      if out \<in> set (pg_members g) then Inr out
      else
        let i = (case out of [c] \<Rightarrow> find_index (\<lambda>l. l = upper_char c) letters | _ \<Rightarrow> None)
        in case i of
             Some k \<Rightarrow> if k < length (pg_members g) then Inr (pg_members g ! k)
                       else Inl (PlayoutError ''unknown_output'')
           | None \<Rightarrow> Inl (PlayoutError ''unknown_output''))"

subsection \<open>The release without an operator\<close>

text \<open>
  What is read of the designated mixer: its \<open>/state\<close>, of which the program uses the programme
  input (\<open>None\<close> when it is not a number) and the number of inputs; the rest is read by the audio
  service only, which is not part of the repository.  A reading of another container is a view, or one
  of the two ways of having none.
\<close>

record mstate =
  ms_pgm :: "int option"
  ms_inputs :: nat
  ms_text :: string

datatype 'a reading = RNone | RMissing | RUnreachable | RView 'a

record cstrip =
  cs_id :: string
  cs_afv :: "(bool \<times> bool) option"

record cdoc =
  cd_afv_enabled :: "bool option"
  cd_strips :: "cstrip list"

text \<open>
  The two functions of the audio service the program calls: the inputs a mixer opens and closes
  (\<open>afv.on_air\<close>), and the level and the mute of a strip (\<open>fader_triggers.reading\<close>).  A
  missing service is \<open>None\<close>, the program's \<open>ImportError\<close> branch.
\<close>

record audio =
  au_on_air :: "(mstate \<Rightarrow> int list \<times> int list) option"
  au_reading :: "(string \<Rightarrow> string \<Rightarrow> (rat \<times> bool) option) option"

definition mixer_used_inputs :: "audio \<Rightarrow> mstate \<Rightarrow> int set option" where
  "mixer_used_inputs au st =
     (if ms_pgm st = None then None
      else case au_on_air au of
             None \<Rightarrow> None
           | Some f \<Rightarrow> (case f st of (opens, closes) \<Rightarrow> Some (set opens \<union> set closes)))"

definition program_members :: "audio \<Rightarrow> mstate \<Rightarrow> (string \<times> channel) list \<Rightarrow> string set option" where
  "program_members au st channels =
     (case mixer_used_inputs au st of
        None \<Rightarrow> None
      | Some used \<Rightarrow>
          Some (fst ` set (filter (\<lambda>(u, ch). case ch_mixer_input ch of None \<Rightarrow> False | Some i \<Rightarrow> i \<in> used)
                             channels)))"

definition strip_closed :: "audio \<Rightarrow> string \<Rightarrow> string \<Rightarrow> bool option" where
  "strip_closed au view sid =
     (case au_reading au of
        None \<Rightarrow> None
      | Some f \<Rightarrow> map_option (\<lambda>(level, muted). muted \<or> level \<le> minus_inf_db) (f view sid))"

definition afv_closed :: "cdoc \<Rightarrow> string \<Rightarrow> bool" where
  "afv_closed doc sid =
     (if cd_afv_enabled doc = Some False then False
      else case find (\<lambda>x. cs_id x = sid) (cd_strips doc) of
             None \<Rightarrow> False
           | Some st \<Rightarrow> (case cs_afv st of None \<Rightarrow> False | Some (on, opened) \<Rightarrow> on \<and> \<not> opened))"

definition strip_ref :: "channel \<Rightarrow> string list \<Rightarrow> string option" where
  "strip_ref ch strips =
     (if some_text (ch_strip_id ch) then
        (if or_empty (ch_strip_id ch) \<in> set strips then ch_strip_id ch else None)
      else case ch_strip ch of
             Some n \<Rightarrow> if 1 \<le> n \<and> n \<le> int (length strips) then Some (strips ! nat (n - 1)) else None
           | None \<Rightarrow> None)"

definition no_channel :: channel where
  "no_channel = \<lparr>ch_mixer_input = None, ch_strip = None, ch_strip_id = None\<rparr>"

definition channel_of :: "pgroup \<Rightarrow> string \<Rightarrow> channel" where
  "channel_of g u = (case map_of (pg_channels g) u of None \<Rightarrow> no_channel | Some ch \<Rightarrow> ch)"

text \<open>
  The test up to the document of the console, which is only read when the fader does not settle it:
  \<open>Inl\<close> is an answer (\<open>Inr ()\<close> for \<open>(True, None)\<close>, \<open>Inl why\<close> for \<open>(False, why)\<close>),
  \<open>Inr sid\<close> asks for the document.
\<close>

definition release_by_fader :: "audio \<Rightarrow> pgroup \<Rightarrow> string \<Rightarrow> mstate reading \<Rightarrow> int \<Rightarrow> string reading
    \<Rightarrow> string list \<Rightarrow> (string + unit) + string" where
  "release_by_fader au g u mixer n_inputs console strips =
     (let ch = channel_of g u in
      if \<not> pg_auto_release g then Inl (Inl ''disabled'')
      else if \<not> some_text (pg_mixer g) then Inl (Inl ''no_mixer'')
      else if \<not> some_text (pg_console g) then Inl (Inl ''no_console'')
      else case ch_mixer_input ch of
        None \<Rightarrow> Inl (Inl ''no_mapping'')
      | Some mi \<Rightarrow>
        if \<not> (some_text (ch_strip_id ch) \<or> ch_strip ch \<noteq> None) then Inl (Inl ''no_mapping'')
        else case mixer of
          RMissing \<Rightarrow> Inl (Inl ''mixer_missing'')
        | RNone \<Rightarrow> Inl (Inl ''mixer_unreachable'')
        | RUnreachable \<Rightarrow> Inl (Inl ''mixer_unreachable'')
        | RView m \<Rightarrow>
          (case mixer_used_inputs au m of
             None \<Rightarrow> Inl (Inl ''mixer_unreachable'')
           | Some used \<Rightarrow>
             let n_in = (if ms_inputs m \<noteq> 0 then int (ms_inputs m) else n_inputs) in
             if \<not> (1 \<le> mi \<and> mi \<le> n_in) then Inl (Inl ''mixer_input_unknown'')
             else if mi \<in> used then Inl (Inl ''mixer_uses'')
             else case console of
               RMissing \<Rightarrow> Inl (Inl ''console_missing'')
             | RNone \<Rightarrow> Inl (Inl ''console_unreachable'')
             | RUnreachable \<Rightarrow> Inl (Inl ''console_unreachable'')
             | RView view \<Rightarrow>
               (case strip_ref ch strips of
                  None \<Rightarrow> Inl (Inl ''strip_unknown'')
                | Some sid \<Rightarrow>
                  (if sid = [] then Inl (Inl ''strip_unknown'')
                   else case strip_closed au view sid of
                     None \<Rightarrow> Inl (Inl ''strip_unknown'')
                   | Some shut \<Rightarrow> if shut then Inl (Inr ()) else Inr sid))))"

definition release_by_doc :: "cdoc option \<Rightarrow> string \<Rightarrow> string + unit" where
  "release_by_doc live_doc sid =
     (case live_doc of
        None \<Rightarrow> Inl ''console_unreachable''
      | Some doc \<Rightarrow> if afv_closed doc sid then Inr () else Inl ''strip_open'')"

definition auto_release_check :: "audio \<Rightarrow> pgroup \<Rightarrow> string \<Rightarrow> mstate reading \<Rightarrow> int \<Rightarrow> string reading
    \<Rightarrow> string list \<Rightarrow> cdoc option \<Rightarrow> string + unit" where
  "auto_release_check au g u mixer n_inputs console strips live_doc =
     (case release_by_fader au g u mixer n_inputs console strips of
        Inl r \<Rightarrow> r
      | Inr sid \<Rightarrow> release_by_doc live_doc sid)"

end
