(* ===== verification/Playout_Config.thy ===== *)
theory Playout_Config
  imports Playout_Ops
begin

text \<open>
  The configuration of the playout groups (\<open>app/playout_groups.py\<close>): \<open>_validate_config\<close>
  with its refusals in the order of the code, and the operations on the table of groups that rest on it
  (\<open>create_group\<close>, \<open>update_group\<close>, \<open>delete_group\<close>).
\<close>

subsection \<open>What the validation reads\<close>

text \<open>The containers of the site by type: the project of each player, the number of inputs of each
  mixer, the strips of each console; the members of each synchronous playback.\<close>

record site =
  si_players :: "string \<rightharpoonup> int option"
  si_mixers :: "string \<rightharpoonup> int"
  si_consoles :: "string \<rightharpoonup> string list"
  si_sync :: "string list list"

record config =
  cf_name :: string
  cf_members :: "string list"
  cf_trigger :: string
  cf_mixer :: "string option"
  cf_console :: "string option"
  cf_channels :: "(string \<times> channel) list"
  cf_auto_release :: bool
  cf_out_of_order :: string
  cf_auto_next :: bool

definition trigger_of :: "string \<Rightarrow> trigger option" where
  "trigger_of s =
     (if s = [] \<or> s = ''manual'' then Some Manual else if s = ''mixer'' then Some By_mixer else None)"

definition out_of_order_of :: "string \<Rightarrow> out_of_order option" where
  "out_of_order_of s =
     (if s = [] \<or> s = ''skip'' then Some Oo_skip else if s = ''requeue'' then Some Oo_requeue
      else if s = ''refuse'' then Some Oo_refuse else None)"

fun trigger_text :: "trigger \<Rightarrow> string" where
  "trigger_text Manual = ''manual''"
| "trigger_text By_mixer = ''mixer''"

fun out_of_order_text :: "out_of_order \<Rightarrow> string" where
  "out_of_order_text Oo_skip = ''skip''"
| "out_of_order_text Oo_requeue = ''requeue''"
| "out_of_order_text Oo_refuse = ''refuse''"

subsection \<open>The checks\<close>

text \<open>The loop over the members: each is a player, and none comes twice.\<close>

fun check_members :: "(string \<Rightarrow> bool) \<Rightarrow> string list \<Rightarrow> string list \<Rightarrow> perr + string list" where
  "check_members player acc [] = Inr acc"
| "check_members player acc (u # us) =
     (if \<not> player u then Inl (PlayoutError ''not_a_player'')
      else if u \<in> set acc then Inl (PlayoutError ''duplicate_member'')
      else check_members player (acc @ [u]) us)"

text \<open>The designation of one output, checked against what is deployed (\<open>None\<close>: no mixer, no
  console designated); a strip given by its rank is resolved to its id.\<close>

definition check_channel :: "int option \<Rightarrow> string list option \<Rightarrow> channel \<Rightarrow> perr + channel" where
  "check_channel n_in console ch =
     (let sid = or_none (ch_strip_id ch) in
      if (case (ch_mixer_input ch, n_in) of (Some mi, Some n) \<Rightarrow> \<not> (1 \<le> mi \<and> mi \<le> n) | _ \<Rightarrow> False)
      then Inl (PlayoutError ''mixer_input_unknown'')
      else case console of
             Some strips \<Rightarrow>
               (if sid \<noteq> None \<or> ch_strip ch \<noteq> None then
                  (case strip_ref (ch\<lparr>ch_strip_id := sid\<rparr>) strips of
                     None \<Rightarrow> Inl (PlayoutError ''strip_unknown'')
                   | Some ref \<Rightarrow>
                       if ref = [] then Inl (PlayoutError ''strip_unknown'')
                       else Inr \<lparr>ch_mixer_input = ch_mixer_input ch,
                                 ch_strip = map_option (\<lambda>i. int i + 1) (find_index (\<lambda>s. s = ref) strips),
                                 ch_strip_id = Some ref\<rparr>)
                else Inr \<lparr>ch_mixer_input = ch_mixer_input ch, ch_strip = ch_strip ch, ch_strip_id = sid\<rparr>)
           | None \<Rightarrow> Inr \<lparr>ch_mixer_input = ch_mixer_input ch, ch_strip = ch_strip ch, ch_strip_id = sid\<rparr>)"

fun check_channels :: "int option \<Rightarrow> string list option \<Rightarrow> (string \<times> channel) list \<Rightarrow> string list
    \<Rightarrow> perr + (string \<times> channel) list" where
  "check_channels n_in console raw [] = Inr []"
| "check_channels n_in console raw (u # us) =
     (case check_channel n_in console (case map_of raw u of None \<Rightarrow> no_channel | Some ch \<Rightarrow> ch) of
        Inl e \<Rightarrow> Inl e
      | Inr ch \<Rightarrow>
          (case check_channels n_in console raw us of
             Inl e \<Rightarrow> Inl e
           | Inr chs \<Rightarrow> Inr ((u, ch) # chs)))"

text \<open>The validated configuration is returned as the fields of a group.\<close>

definition validate_config :: "site \<Rightarrow> pgroup list \<Rightarrow> config \<Rightarrow> int option \<Rightarrow> perr + (pgroup \<Rightarrow> pgroup)" where
  "validate_config si groups cfg gid =
     (let name = take 80 (py_strip (cf_name cfg)) in
      if name = [] then Inl (PlayoutError ''name_required'')
      else case check_members (\<lambda>u. si_players si u \<noteq> None) [] (cf_members cfg) of
        Inl e \<Rightarrow> Inl e
      | Inr members \<Rightarrow>
        if length members < 2 then Inl (PlayoutError ''too_few_members'')
        else if length members > max_members then Inl (PlayoutError ''too_many_members'')
        else if \<exists>other \<in> set groups. Some (pg_id other) \<noteq> gid \<and> set (pg_members other) \<inter> set members \<noteq> {}
        then Inl (PlayoutError ''member_in_other_group'')
        else if \<exists>sg \<in> set (si_sync si). set sg \<inter> set members \<noteq> {}
        then Inl (PlayoutError ''member_in_sync_group'')
        else case trigger_of (cf_trigger cfg) of
          None \<Rightarrow> Inl (PlayoutError ''bad_trigger'')
        | Some trig \<Rightarrow>
          let mixer_uuid = or_none (cf_mixer cfg);
              console_uuid = or_none (cf_console cfg);
              mixer = (case mixer_uuid of None \<Rightarrow> None | Some m \<Rightarrow> si_mixers si m);
              console = (case console_uuid of None \<Rightarrow> None | Some c \<Rightarrow> si_consoles si c)
          in
          if mixer_uuid \<noteq> None \<and> mixer = None then Inl (PlayoutError ''mixer_not_found'')
          else if console_uuid \<noteq> None \<and> console = None then Inl (PlayoutError ''console_not_found'')
          else case check_channels mixer console (cf_channels cfg) members of
            Inl e \<Rightarrow> Inl e
          | Inr channels \<Rightarrow>
            if trig = By_mixer \<and> (mixer = None \<or> (\<exists>ch \<in> set channels. ch_mixer_input (snd ch) = None))
            then Inl (PlayoutError ''mixer_required'')
            else if cf_auto_release cfg \<and>
                    (mixer = None \<or> console = None \<or>
                     (\<exists>ch \<in> set channels. ch_mixer_input (snd ch) = None \<or> \<not> some_text (ch_strip_id (snd ch))))
            then Inl (PlayoutError ''auto_release_incomplete'')
            else case out_of_order_of (cf_out_of_order cfg) of
              None \<Rightarrow> Inl (PlayoutError ''bad_out_of_order'')
            | Some ooo \<Rightarrow>
              Inr (\<lambda>g. g\<lparr>pg_name := name, pg_members := members, pg_trigger := trig,
                         pg_mixer := mixer_uuid, pg_console := console_uuid, pg_channels := channels,
                         pg_auto_release := cf_auto_release cfg, pg_out_of_order := ooo,
                         pg_auto_next := cf_auto_next cfg,
                         pg_project :=
                           (case remdups (map (\<lambda>u. the (si_players si u)) members) of
                              [p] \<Rightarrow> p | _ \<Rightarrow> None)\<rparr>))"

subsection \<open>The table of groups\<close>

definition config_of :: "pgroup \<Rightarrow> config" where
  "config_of g =
     \<lparr>cf_name = pg_name g, cf_members = pg_members g, cf_trigger = trigger_text (pg_trigger g),
      cf_mixer = pg_mixer g, cf_console = pg_console g, cf_channels = pg_channels g,
      cf_auto_release = pg_auto_release g, cf_out_of_order = out_of_order_text (pg_out_of_order g),
      cf_auto_next = pg_auto_next g\<rparr>"

definition get_group :: "pgroup list \<Rightarrow> int \<Rightarrow> pgroup option" where
  "get_group gs gid = find (\<lambda>g. pg_id g = gid) gs"

definition save_group :: "pgroup \<Rightarrow> pgroup list \<Rightarrow> pgroup list" where
  "save_group g gs = map (\<lambda>x. if pg_id x = pg_id g then g else x) gs"

definition empty_group :: "int \<Rightarrow> pgroup" where
  "empty_group gid =
     \<lparr>pg_id = gid, pg_name = [], pg_project = None, pg_members = [], pg_items = [], pg_cursor = None,
      pg_air_member = None, pg_air_live = False, pg_release = [], pg_trigger = Manual, pg_mixer = None,
      pg_console = None, pg_channels = [], pg_auto_release = False, pg_out_of_order = Oo_skip,
      pg_auto_next = False\<rparr>"

text \<open>\<open>create_group\<close>; \<open>gid\<close> is the identity SQLite gives to the new row.\<close>

definition create_group :: "site \<Rightarrow> int \<Rightarrow> config \<Rightarrow> pgroup list \<Rightarrow> perr + pgroup list" where
  "create_group si gid cfg gs =
     (case validate_config si gs cfg None of
        Inl e \<Rightarrow> Inl e
      | Inr upd \<Rightarrow> Inr (gs @ [upd (empty_group gid)]))"

text \<open>\<open>update_group\<close>: \<open>edit\<close> puts the keys the caller gives over those of the group.\<close>

definition settle_members :: "pgroup \<Rightarrow> pgroup" where
  "settle_members g =
     (let gone = (case pg_air_member g of None \<Rightarrow> True | Some a \<Rightarrow> a \<notin> set (pg_members g)) in
      g\<lparr>pg_air_member := (if gone then None else pg_air_member g),
        pg_air_live := (if gone then False else pg_air_live g),
        pg_release := filter (\<lambda>(u, t). u \<in> set (pg_members g)) (pg_release g)\<rparr>)"

definition update_group :: "site \<Rightarrow> int \<Rightarrow> (config \<Rightarrow> config) \<Rightarrow> pgroup list \<Rightarrow> perr + pgroup list" where
  "update_group si gid edit gs =
     (case get_group gs gid of
        None \<Rightarrow> Inl (PlayoutError ''unknown_group'')
      | Some g \<Rightarrow>
          (case validate_config si gs (edit (config_of g)) (Some (pg_id g)) of
             Inl e \<Rightarrow> Inl e
           | Inr upd \<Rightarrow> Inr (save_group (settle_members (upd g)) gs)))"

definition delete_group :: "int \<Rightarrow> pgroup list \<Rightarrow> perr + pgroup list" where
  "delete_group gid gs =
     (case get_group gs gid of
        None \<Rightarrow> Inl (PlayoutError ''unknown_group'')
      | Some _ \<Rightarrow> Inr (filter (\<lambda>g. pg_id g \<noteq> gid) gs))"

end
