(* ===== verification/Playout_Facts.thy ===== *)
theory Playout_Facts
  imports Playout_Config
begin

text \<open>
  The facts on the distribution of a playlist: where an item is found, which items are to come, which
  output each of them is assigned to, and what a confirmed take does to the three.
\<close>

subsection \<open>Searching\<close>

lemma find_index_Some:
  "find_index P xs = Some i \<longleftrightarrow> i < length xs \<and> P (xs ! i) \<and> (\<forall>j < i. \<not> P (xs ! j))"
proof (induction xs arbitrary: i)
  case (Cons x xs)
  show ?case
  proof (cases i)
    case 0
    then show ?thesis by auto
  next
    case (Suc k)
    have "(\<forall>j < Suc k. \<not> P ((x # xs) ! j)) \<longleftrightarrow> \<not> P x \<and> (\<forall>j < k. \<not> P (xs ! j))"
      by (simp add: All_less_Suc2)
    then show ?thesis using Suc Cons.IH [of k] by auto
  qed
qed simp

lemma find_index_None: "find_index P xs = None \<longleftrightarrow> (\<forall>x \<in> set xs. \<not> P x)"
  by (induction xs) auto

lemma find_index_distinct: "distinct xs \<Longrightarrow> i < length xs \<Longrightarrow> find_index (\<lambda>x. x = xs ! i) xs = Some i"
  unfolding find_index_Some by (auto simp: nth_eq_iff_index_eq)

lemma find_item_nth:
  "distinct (map it_id items) \<Longrightarrow> i < length items \<Longrightarrow> find_item items (it_id (items ! i)) = Some i"
  using nth_eq_iff_index_eq [of "map it_id items"] unfolding find_item_def find_index_Some by force

lemma find_item_append:
  assumes "distinct (map it_id (xs @ it # ys))"
  shows "find_item (xs @ it # ys) (it_id it) = Some (length xs)"
  using find_item_nth [OF assms, of "length xs"] by simp

lemma find_item_Some:
  "find_item items c = Some i \<Longrightarrow> i < length items \<and> it_id (items ! i) = c"
  by (simp add: find_item_def find_index_Some)

lemma find_item_cong: "map it_id xs = map it_id ys \<Longrightarrow> find_item xs c = find_item ys c"
proof (induction xs arbitrary: ys)
  case (Cons x xs)
  then obtain y ys' where "ys = y # ys'" and "it_id x = it_id y" and "map it_id xs = map it_id ys'"
    by (cases ys) auto
  then show ?case using Cons.IH by (simp add: find_item_def)
qed (simp add: find_item_def)

lemma after_cursor_le: "after_cursor g \<le> length (pg_items g)"
  by (auto simp: after_cursor_def cursor_index_def split: option.split dest: find_item_Some)

lemma cursor_index_less: "int i \<le> cursor_index (pg_items g) (pg_cursor g) \<longleftrightarrow> i < after_cursor g"
  by (auto simp: after_cursor_def cursor_index_def split: option.split)

lemma after_cursor_cong:
  "map it_id (pg_items g) = map it_id (pg_items h) \<Longrightarrow> pg_cursor g = pg_cursor h \<Longrightarrow>
   after_cursor g = after_cursor h"
  using find_item_cong [of "pg_items g" "pg_items h"]
  by (simp add: after_cursor_def cursor_index_def split: option.split)

lemma after_cursor_at:
  assumes "pg_items g = xs @ it # ys" and "pg_cursor g = Some (it_id it)"
    and "distinct (map it_id (pg_items g))"
  shows "after_cursor g = length xs + 1"
  using assms find_item_append [of xs it ys] by (simp add: after_cursor_def cursor_index_def)

subsection \<open>Slices\<close>

lemma update_slice_split [simp]:
  "update_slice f (length xs) (length xs + length ys) (xs @ ys @ zs) = xs @ map f ys @ zs"
  by (simp add: update_slice_def)

lemma length_update_slice [simp]: "length (update_slice f a b xs) = length xs"
  by (simp add: update_slice_def)

lemma update_slice_ids:
  "(\<And>x. it_id (f x) = it_id x) \<Longrightarrow> map it_id (update_slice f a b xs) = map it_id xs"
proof -
  assume "\<And>x. it_id (f x) = it_id x"
  then have "map it_id (map f ys) = map it_id ys" for ys by simp
  then have "map it_id (update_slice f a b xs) =
      map it_id (take a xs @ take (b - a) (drop a xs) @ drop (b - a) (drop a xs))"
    by (simp add: update_slice_def add.commute)
  also have "\<dots> = map it_id xs" by (metis append_take_drop_id)
  finally show ?thesis .
qed

lemma take_update_slice [simp]: "take a (update_slice f a b xs) = take a xs"
  by (simp add: update_slice_def min_def)

lemma skip_all: "map (\<lambda>it. if it_skipped it then it else it\<lparr>it_skipped := True\<rparr>) xs = map (\<lambda>it. it\<lparr>it_skipped := True\<rparr>) xs"
  by simp

subsection \<open>Well-formed groups\<close>

definition group_ok :: "pgroup \<Rightarrow> bool" where
  "group_ok g \<longleftrightarrow>
     distinct (pg_members g) \<and> 2 \<le> length (pg_members g) \<and> length (pg_members g) \<le> max_members \<and>
     [] \<notin> set (pg_members g) \<and>
     distinct (map it_id (pg_items g)) \<and> length (pg_items g) \<le> max_items \<and>
     (\<forall>c. pg_cursor g = Some c \<longrightarrow> c \<in> it_id ` set (pg_items g)) \<and>
     (pg_air_live g \<longrightarrow> (\<exists>a \<in> set (pg_members g). pg_air_member g = Some a)) \<and>
     fst ` set (pg_release g) \<subseteq> set (pg_members g) \<and> distinct (map fst (pg_release g)) \<and>
     (\<forall>a. air g = Some a \<longrightarrow> a \<notin> fst ` set (pg_release g)) \<and>
     (\<forall>it \<in> set (take (after_cursor g) (pg_items g)). it_skipped it \<or> it_played_on it \<noteq> None)"

lemma group_okD:
  assumes "group_ok g"
  shows "distinct (pg_members g)" and "2 \<le> length (pg_members g)" and "pg_members g \<noteq> []"
    and "[] \<notin> set (pg_members g)" and "distinct (map it_id (pg_items g))"
    and "fst ` set (pg_release g) \<subseteq> set (pg_members g)"
    and "air g = Some a \<Longrightarrow> a \<notin> fst ` set (pg_release g)"
    and "length (pg_items g) \<le> max_items"
    and "pg_cursor g = Some c \<Longrightarrow> c \<in> it_id ` set (pg_items g)"
  using assms by (auto simp: group_ok_def)

lemma air_member: "air g = Some a \<Longrightarrow> a \<in> set (pg_members g) \<and> a \<noteq> [] \<and> pg_air_member g = Some a \<and> pg_air_live g"
  by (auto simp: air_def base_member_def split: option.splits if_splits)

subsection \<open>Assignments\<close>

lemma distinct_upcoming: "distinct (map it_id (pg_items g)) \<Longrightarrow> distinct (map it_id (upcoming g))"
  unfolding upcoming_def by (intro distinct_map_filter) (simp add: drop_map [symmetric])

lemma upcoming_subset: "set (upcoming g) \<subseteq> set (drop (after_cursor g) (pg_items g))"
  by (auto simp: upcoming_def)

lemma assignment_nth:
  assumes d: "distinct (map it_id (pg_items g))" and ms: "pg_members g \<noteq> []" and k: "k < length (upcoming g)"
  shows "assignment g (it_id (upcoming g ! k)) = Some (slot g k)"
proof -
  let ?e = "map (\<lambda>(k, it). (it_id it, slot g k)) (enumerate 0 (upcoming g))"
  have fst: "map fst ?e = map it_id (upcoming g)"
    by (rule nth_equalityI) (simp_all add: nth_enumerate_eq)
  then have "distinct (map fst ?e)" using distinct_upcoming [OF d] by simp
  moreover have "(it_id (upcoming g ! k), slot g k) \<in> set ?e"
    using k by (force simp: in_set_enumerate_eq)
  ultimately show ?thesis
    using ms by (simp add: assignment_def map_of_rev_distinct)
qed

lemma assignment_None: "c \<notin> it_id ` set (upcoming g) \<Longrightarrow> assignment g c = None"
  by (auto simp: assignment_def map_of_eq_None_iff rev_map [symmetric] in_set_enumerate_eq image_iff)

lemma slot_member: "pg_members g \<noteq> [] \<Longrightarrow> slot g k \<in> set (pg_members g)"
  by (simp add: slot_def)

lemma mod_window: "(a + j) mod n = (a + k) mod n \<Longrightarrow> j \<le> k \<Longrightarrow> k < j + n \<Longrightarrow> j = (k::nat)"
proof -
  assume e: "(a + j) mod n = (a + k) mod n" and "j \<le> k" and "k < j + n"
  then have "n dvd (a + k) - (a + j)" by (metis add_le_cancel_left mod_eq_dvd_iff_nat)
  then have "n dvd k - j" by simp
  moreover have "k - j < n" using \<open>k < j + n\<close> \<open>j \<le> k\<close> by linarith
  ultimately have "k - j = 0" using dvd_imp_le by (metis gr0I leD)
  then show "j = k" using \<open>j \<le> k\<close> by simp
qed

lemma slot_inj:
  assumes "distinct (pg_members g)" and "pg_members g \<noteq> []" and "slot g j = slot g k"
    and "j \<le> k" and "k < j + length (pg_members g)"
  shows "j = k"
proof -
  have "(first_slot g + j) mod length (pg_members g) = (first_slot g + k) mod length (pg_members g)"
    using assms nth_eq_iff_index_eq [of "pg_members g"] by (simp add: slot_def)
  then show ?thesis using assms(4,5) mod_window by blast
qed

text \<open>With a base, the last of N consecutive items falls on the base itself.\<close>

lemma first_slot_base:
  assumes "base_member g = Some b" and "b \<noteq> []"
  obtains i where "find_index (\<lambda>m. m = b) (pg_members g) = Some i" and "i < length (pg_members g)"
    and "pg_members g ! i = b" and "first_slot g = i + 1"
proof -
  have "b \<in> set (pg_members g)"
    using assms by (auto simp: base_member_def split: option.splits if_splits)
  then obtain i where i: "find_index (\<lambda>m. m = b) (pg_members g) = Some i"
    using find_index_None [of "\<lambda>m. m = b"] by (cases "find_index (\<lambda>m. m = b) (pg_members g)") auto
  moreover have "i < length (pg_members g)" and "pg_members g ! i = b"
    using i by (simp_all add: find_index_Some)
  ultimately show ?thesis using that assms by (simp add: first_slot_def)
qed

lemma slot_base:
  assumes "base_member g = Some b" and "b \<noteq> []" and "distinct (pg_members g)"
  shows "slot g k = b \<longleftrightarrow> (k + 1) mod length (pg_members g) = 0"
proof -
  obtain i where i: "i < length (pg_members g)" "pg_members g ! i = b" "first_slot g = i + 1"
    using first_slot_base assms(1,2) by metis
  let ?n = "length (pg_members g)"
  have "(i + 1 + k) mod ?n < ?n" using i(1) by (intro mod_less_divisor) linarith
  then have "slot g k = b \<longleftrightarrow> (i + (k + 1)) mod ?n = i"
    using i(1) nth_eq_iff_index_eq [OF assms(3), of "(i + 1 + k) mod ?n" i]
    unfolding slot_def i(3) i(2) [symmetric] by (simp add: add.commute add.left_commute)
  also have "\<dots> \<longleftrightarrow> ?n dvd (i + (k + 1)) - i"
    using i(1) mod_eq_dvd_iff_nat [of i "i + (k + 1)" ?n] by simp
  finally show ?thesis by (simp add: dvd_eq_mod_eq_0)
qed

lemma slot_not_air:
  assumes "air g = Some a" and "distinct (pg_members g)" and "k < length (pg_members g) - 1"
  shows "slot g k \<noteq> a"
proof -
  have "base_member g = Some a" and "a \<noteq> []" using assms(1) by (auto simp: air_def split: option.splits if_splits)
  then show ?thesis using slot_base [of g a k] assms(2,3) by simp
qed

subsection \<open>What each output wants\<close>

lemma fold_wanted:
  assumes "\<forall>k < length its. assignment g (it_id (its ! k)) = Some (s k)"
    and "\<forall>j k. j < k \<and> k < length its \<longrightarrow> s j \<noteq> s k"
    and "\<forall>k < length its. s k \<notin> dom want"
  shows "fold (\<lambda>it want. case assignment g (it_id it) of None \<Rightarrow> want | Some m \<Rightarrow> want(m \<mapsto> it)) its want u =
           Some it \<longleftrightarrow> want u = Some it \<or> (\<exists>k < length its. s k = u \<and> its ! k = it)"
  using assms
proof (induction its arbitrary: want s)
  case (Cons x xs)
  have x: "assignment g (it_id x) = Some (s 0)" using Cons.prems(1) by force
  have p1: "\<forall>k < length xs. assignment g (it_id (xs ! k)) = Some (s (Suc k))" using Cons.prems(1) by force
  have p2: "\<forall>j k. j < k \<and> k < length xs \<longrightarrow> s (Suc j) \<noteq> s (Suc k)" using Cons.prems(2) by simp
  have p3: "\<forall>k < length xs. s (Suc k) \<notin> dom (want(s 0 \<mapsto> x))"
  proof (intro allI impI)
    fix k assume "k < length xs"
    then have "s 0 \<noteq> s (Suc k)" and "s (Suc k) \<notin> dom want"
      using Cons.prems(2) [rule_format, of 0 "Suc k"] Cons.prems(3) by auto
    then show "s (Suc k) \<notin> dom (want(s 0 \<mapsto> x))" by auto
  qed
  have new: "want (s 0) = None" using Cons.prems(3) by force
  have "(want(s 0 \<mapsto> x)) u = Some it \<longleftrightarrow> want u = Some it \<or> s 0 = u \<and> x = it"
    using new by auto
  moreover have "(\<exists>k < length (x # xs). s k = u \<and> (x # xs) ! k = it) \<longleftrightarrow>
      s 0 = u \<and> x = it \<or> (\<exists>k < length xs. s (Suc k) = u \<and> xs ! k = it)"
    by (simp add: Ex_less_Suc2)
  ultimately show ?case
    using Cons.IH [OF p1 p2 p3] unfolding fold.simps comp_def x option.case by blast
qed simp

lemma wanted_iff:
  assumes ok: "group_ok g"
  shows "wanted g u = Some it \<longleftrightarrow>
           (\<exists>k < cue_count g. k < length (upcoming g) \<and> slot g k = u \<and> upcoming g ! k = it)"
proof -
  note D = group_okD [OF ok]
  let ?its = "take (cue_count g) (upcoming g)"
  have c: "cue_count g \<le> length (pg_members g)" by (simp add: cue_count_def)
  have a: "\<forall>k < length ?its. assignment g (it_id (?its ! k)) = Some (slot g k)"
    using assignment_nth [OF D(5) D(3)] by simp
  have b: "\<forall>j k. j < k \<and> k < length ?its \<longrightarrow> slot g j \<noteq> slot g k"
    using slot_inj [OF D(1) D(3)] c by (metis add.commute length_take less_imp_le_nat min_less_iff_conj
        nat_neq_iff order_less_le_trans trans_less_add1)
  show ?thesis
    unfolding wanted_def using fold_wanted [OF a b, of Map.empty u it] by auto
qed

lemma wanted_air: "group_ok g \<Longrightarrow> air g = Some a \<Longrightarrow> wanted g a = None"
proof -
  assume ok: "group_ok g" and a: "air g = Some a"
  have "wanted g a \<noteq> Some it" for it
    using slot_not_air [OF a group_okD(1) [OF ok]] a by (auto simp: wanted_iff [OF ok] cue_count_def)
  then show ?thesis by (cases "wanted g a") auto
qed

lemma plan_cue_iff:
  "fst (plan_of g u) = Cue \<longleftrightarrow> air g \<noteq> Some u \<and> u \<notin> fst ` set (pg_release g) \<and> wanted g u \<noteq> None"
  by (simp add: plan_of_def)

lemma next_target_iff:
  assumes "group_ok g"
  shows "next_target g = (if upcoming g = [] then None else Some (hd (upcoming g), slot g 0))"
proof (cases "upcoming g")
  case (Cons it its)
  then have "assignment g (it_id it) = Some (slot g 0)"
    using assignment_nth [OF group_okD(5,3) [OF assms], of 0] by simp
  then show ?thesis using Cons by (simp add: next_target_def)
qed (simp add: next_target_def)

end
