(* ===== verification/Playout_Steps.thy ===== *)
theory Playout_Steps
  imports Playout_Facts "HOL-Library.Multiset"
begin

text \<open>
  The operations on a playout group as steps: what each of them does to the playlist, the step relation
  that interleaves them, and the invariant every group keeps.
\<close>

subsection \<open>The confirmed take\<close>

definition mark_skipped :: "item \<Rightarrow> item" where
  "mark_skipped it = it\<lparr>it_skipped := True\<rparr>"

definition mark_played :: "string \<Rightarrow> item \<Rightarrow> item" where
  "mark_played u it = it\<lparr>it_skipped := False, it_played_on := Some u\<rparr>"

lemma mark_ids [simp]: "it_id (mark_skipped it) = it_id it" "it_id (mark_played u it) = it_id it"
  "it_skipped (mark_skipped it)" "\<not> it_skipped (mark_played u it)" "it_played_on (mark_played u it) = Some u"
  by (simp_all add: mark_skipped_def mark_played_def)

definition taken_items :: "bool \<Rightarrow> string \<Rightarrow> item list \<Rightarrow> item \<Rightarrow> item list" where
  "taken_items requeue u mid it =
     (let passed = filter (\<lambda>x. \<not> it_skipped x) mid
      in if passed \<noteq> [] \<and> requeue then filter it_skipped mid @ mark_played u it # passed
         else map mark_skipped mid @ [mark_played u it])"

definition taken_release :: "pgroup \<Rightarrow> string \<Rightarrow> rat \<Rightarrow> (string \<times> rat) list" where
  "taken_release g u now =
     (let rp = filter (\<lambda>(m, t). m \<noteq> u) (pg_release g)
      in case air g of None \<Rightarrow> rp | Some p \<Rightarrow> if p \<noteq> u then dict_put p now rp else rp)"

lemma filter_ids_mset: "mset (map it_id (filter P xs)) + mset (map it_id (filter (\<lambda>x. \<not> P x) xs)) = mset (map it_id xs)"
  by (induction xs) auto

lemma taken_items_mset: "mset (map it_id (taken_items rq u mid it)) = mset (map it_id (mid @ [it]))"
  using filter_ids_mset [of it_skipped mid] by (auto simp: taken_items_def Let_def comp_def multiset.map_comp)

lemma distinct_taken:
  assumes "distinct (map it_id (pre @ mid @ it # rest))"
  shows "distinct (map it_id (pre @ taken_items rq u mid it @ rest))"
proof -
  have "mset (map it_id (pre @ taken_items rq u mid it @ rest)) = mset (map it_id (pre @ mid @ it # rest))"
    using taken_items_mset [of rq u mid it] by simp
  then show ?thesis using assms mset_eq_imp_distinct_iff by blast
qed

lemma confirm_take_shape:
  assumes items: "pg_items g = pre @ mid @ it # rest" and a: "after_cursor g = length pre"
    and d: "distinct (map it_id (pg_items g))"
  shows "confirm_take g u (it_id it) now =
           Inr (g\<lparr>pg_items := pre @ taken_items (pg_out_of_order g = Oo_requeue) u mid it @ rest,
                  pg_cursor := Some (it_id it), pg_air_member := Some u, pg_air_live := True,
                  pg_release := taken_release g u now\<rparr>)"
proof -
  let ?i = "length pre + length mid"
  have f: "find_item (pg_items g) (it_id it) = Some ?i"
    using find_item_append [of "pre @ mid" it rest] d items by simp
  have mid: "take (?i - after_cursor g) (drop (after_cursor g) (pg_items g)) = mid"
    by (simp add: items a)
  have at: "pg_items g ! ?i = it" by (simp add: items nth_append)
  have rest: "drop (max (after_cursor g) (?i + 1)) (pg_items g) = rest" by (simp add: items a)
  have pre: "take (after_cursor g) (pg_items g) = pre" by (simp add: items a)
  let ?passed = "filter (\<lambda>x. \<not> it_skipped x) mid"
  show ?thesis
  proof (cases "?passed \<noteq> [] \<and> pg_out_of_order g = Oo_requeue")
    case True
    let ?new = "pre @ filter it_skipped mid @ [it] @ ?passed @ rest"
    have "mset (map it_id ?new) = mset (map it_id (pg_items g))"
      using filter_ids_mset [of it_skipped mid] by (simp add: items)
    then have "distinct (map it_id ?new)" using d mset_eq_imp_distinct_iff by blast
    then have "find_item ?new (it_id it) = Some (length pre + length (filter it_skipped mid))"
      using find_item_append [of "pre @ filter it_skipped mid" it "?passed @ rest"] by simp
    then show ?thesis
      unfolding confirm_take_def f option.case Let_def mid at rest pre if_P [OF True]
      using True by (simp add: taken_items_def taken_release_def mark_played_def list_update_append nth_append Let_def)
  next
    case False
    have up: "update_slice (\<lambda>it. if it_skipped it then it else it\<lparr>it_skipped := True\<rparr>)
        (after_cursor g) ?i (pg_items g) = pre @ map mark_skipped mid @ it # rest"
      using update_slice_split [of _ pre mid "it # rest"]
      by (simp add: items a skip_all mark_skipped_def)
    show ?thesis
      unfolding confirm_take_def f option.case Let_def mid at rest pre if_not_P [OF False] up
      using False by (auto simp add: taken_items_def taken_release_def mark_played_def list_update_append nth_append Let_def)
  qed
qed

lemma filter_eq_append:
  "filter P xs = us @ vs \<Longrightarrow> \<exists>ys zs. xs = ys @ zs \<and> filter P ys = us \<and> filter P zs = vs"
proof (induction xs arbitrary: us)
  case (Cons x xs)
  show ?case
  proof (cases "P x \<and> us = []")
    case True
    then show ?thesis using Cons.prems by (intro exI [of _ "[]"] exI [of _ "x # xs"]) simp
  next
    case False
    then obtain us' where "filter P xs = us' @ vs" and "us = (if P x then x # us' else us')"
      using Cons.prems by (cases us) (auto split: if_splits)
    then obtain ys zs where "xs = ys @ zs" "filter P ys = us'" "filter P zs = vs" using Cons.IH by blast
    then show ?thesis using \<open>us = _\<close> by (intro exI [of _ "x # ys"] exI [of _ zs]) simp
  qed
qed simp

text \<open>An item to come splits the playlist: what is before it, what is after it.\<close>

lemma upcoming_split:
  assumes "upcoming g = ps @ it # qs"
  obtains pre mid rest where "pg_items g = pre @ mid @ it # rest" and "length pre = after_cursor g"
    and "filter (\<lambda>x. \<not> it_skipped x) mid = ps" and "filter (\<lambda>x. \<not> it_skipped x) rest = qs"
proof -
  let ?P = "\<lambda>x. \<not> it_skipped x"
  let ?pre = "take (after_cursor g) (pg_items g)"
  obtain us vs where uv: "drop (after_cursor g) (pg_items g) = us @ vs"
    "filter ?P us = ps" "filter ?P vs = it # qs"
    using assms using filter_eq_append unfolding upcoming_def by metis
  obtain ws rest where w: "vs = ws @ it # rest" "\<forall>x \<in> set ws. \<not> ?P x" "filter ?P rest = qs"
    using uv(3) unfolding filter_eq_Cons_iff by metis
  have "pg_items g = ?pre @ (us @ ws) @ it # rest"
    using uv(1) w(1) by (metis append.assoc append_take_drop_id)
  moreover have "length ?pre = after_cursor g" using after_cursor_le by simp
  moreover have "filter ?P (us @ ws) = ps" using uv(2) w(2) by (simp add: filter_empty_conv)
  ultimately show ?thesis using that w(3) by blast
qed

lemma confirm_take_split:
  assumes ok: "group_ok g"
    and s: "pg_items g = pre @ mid @ it # rest" "length pre = after_cursor g"
      "filter (\<lambda>x. \<not> it_skipped x) mid = ps" "filter (\<lambda>x. \<not> it_skipped x) rest = qs"
  obtains g' where "confirm_take g u (it_id it) now = Inr g'"
    and "upcoming g' = (if pg_out_of_order g = Oo_requeue then ps @ qs else qs)"
    and "mset (map it_id (pg_items g')) = mset (map it_id (pg_items g))"
    and "pg_members g' = pg_members g" and "pg_air_member g' = Some u" and "pg_air_live g'"
    and "pg_cursor g' = Some (it_id it)" and "pg_release g' = taken_release g u now"
    and "take (after_cursor g) (pg_items g') = take (after_cursor g) (pg_items g)"
    and "air_item g' = Some (mark_played u it)"
    and "\<forall>x \<in> set (take (after_cursor g') (pg_items g')).
           x \<in> set (take (after_cursor g) (pg_items g)) \<or> it_skipped x \<or> it_played_on x \<noteq> None"
    and "length (pg_items g') = length (pg_items g)"
proof -
  note d = group_okD(5) [OF ok]
  let ?rq = "pg_out_of_order g = Oo_requeue"
  let ?g = "g\<lparr>pg_items := pre @ taken_items ?rq u mid it @ rest, pg_cursor := Some (it_id it),
              pg_air_member := Some u, pg_air_live := True, pg_release := taken_release g u now\<rparr>"
  have e: "confirm_take g u (it_id it) now = Inr ?g"
    using confirm_take_shape [OF s(1) s(2) [symmetric] d] .
  obtain ks ls where t: "taken_items ?rq u mid it = ks @ mark_played u it # ls"
    "filter (\<lambda>x. \<not> it_skipped x) ls = (if ?rq then ps else [])" "\<forall>x \<in> set ks. it_skipped x"
  proof (cases "ps \<noteq> [] \<and> ?rq")
    case True
    then have "taken_items ?rq u mid it = filter it_skipped mid @ mark_played u it # ps"
      using s(3) by (simp add: taken_items_def)
    then show ?thesis by (rule that) (use True s(3) in auto)
  next
    case False
    then have "taken_items ?rq u mid it = map mark_skipped mid @ mark_played u it # []"
      using s(3) by (auto simp: taken_items_def)
    then show ?thesis by (rule that) (use False in auto)
  qed
  have dd: "distinct (map it_id (pg_items ?g))" using distinct_taken [of pre mid it rest ?rq u] d s(1) by simp
  have c: "after_cursor ?g = length (pre @ ks) + 1"
    by (rule after_cursor_at [where it = "mark_played u it" and ys = "ls @ rest"]) (use t dd in simp_all)
  have "upcoming ?g = (if ?rq then ps @ qs else qs)"
    unfolding upcoming_def c using t s(4) by simp
  moreover have "mset (map it_id (pg_items ?g)) = mset (map it_id (pg_items g))"
    using taken_items_mset [of ?rq u mid it] s(1) by simp
  moreover have "take (after_cursor g) (pg_items ?g) = take (after_cursor g) (pg_items g)"
    using s(1,2) by simp
  moreover have "cursor_index (pg_items ?g) (pg_cursor ?g) = int (length (pre @ ks))"
    using c by (simp add: after_cursor_def)
  then have "air_item ?g = Some (mark_played u it)"
    using t by (simp add: air_item_def nth_append Let_def nat_int_add)
  moreover have "\<forall>x \<in> set (take (after_cursor ?g) (pg_items ?g)).
      x \<in> set (take (after_cursor g) (pg_items g)) \<or> it_skipped x \<or> it_played_on x \<noteq> None"
    unfolding c using t s(1,2) by auto
  moreover have "length (pg_items ?g) = length (pg_items g)"
    using \<open>mset (map it_id (pg_items ?g)) = _\<close> by (metis length_map size_mset)
  ultimately show ?thesis using that [OF e] by simp
qed

lemma confirm_take_upcoming:
  assumes ok: "group_ok g" and up: "upcoming g = ps @ it # qs"
  obtains g' where "confirm_take g u (it_id it) now = Inr g'"
    and "upcoming g' = (if pg_out_of_order g = Oo_requeue then ps @ qs else qs)"
    and "mset (map it_id (pg_items g')) = mset (map it_id (pg_items g))"
    and "pg_members g' = pg_members g" and "pg_air_member g' = Some u" and "pg_air_live g'"
    and "pg_cursor g' = Some (it_id it)" and "pg_release g' = taken_release g u now"
    and "take (after_cursor g) (pg_items g') = take (after_cursor g) (pg_items g)"
    and "air_item g' = Some (mark_played u it)"
  using upcoming_split [OF up] confirm_take_split [OF ok] by metis

lemma confirm_take_past:
  assumes d: "distinct (map it_id (pg_items g))" and i: "find_item (pg_items g) c = Some i" "i < after_cursor g"
  shows "confirm_take g u c now =
           Inr (g\<lparr>pg_items := (pg_items g)[i := mark_played u (pg_items g ! i)],
                  pg_cursor := Some c, pg_air_member := Some u, pg_air_live := True,
                  pg_release := taken_release g u now\<rparr>)"
proof -
  have z: "i - after_cursor g = 0" using i(2) by simp
  have "update_slice f (after_cursor g) i xs = xs" for f and xs :: "item list"
    using z by (simp add: update_slice_def)
  then show ?thesis
    unfolding confirm_take_def i(1) option.case Let_def z
    by (simp add: taken_release_def mark_played_def Let_def)
qed

subsection \<open>The rotation after a take\<close>

lemma taken_release_keys:
  "fst ` set (taken_release g u now) =
     (fst ` set (pg_release g) - {u}) \<union> (case air g of None \<Rightarrow> {} | Some p \<Rightarrow> if p \<noteq> u then {p} else {})"
proof -
  have "fst ` set (filter (\<lambda>(m, t). m \<noteq> u) (pg_release g)) = fst ` set (pg_release g) - {u}" by force
  then show ?thesis unfolding taken_release_def Let_def by (auto split: option.split)
qed

lemma distinct_taken_release: "distinct (map fst (pg_release g)) \<Longrightarrow> distinct (map fst (taken_release g u now))"
  by (auto simp: taken_release_def Let_def distinct_map_filter intro: distinct_dict_put split: option.split)

lemma slot_after:
  assumes "pg_members g' = pg_members g" and "pg_air_member g' = Some (slot g k)"
    and "distinct (pg_members g)" and "pg_members g \<noteq> []" and "[] \<notin> set (pg_members g)"
  shows "slot g' j = slot g (k + 1 + j)"
proof -
  let ?n = "length (pg_members g)"
  have lt: "(first_slot g + k) mod ?n < ?n" using assms(4) by simp
  have m: "slot g k \<in> set (pg_members g)" using slot_member [OF assms(4)] .
  then have "base_member g' = Some (slot g k)" and "slot g k \<noteq> []"
    using assms(1,2,5) by (auto simp: base_member_def)
  then have "first_slot g' = (first_slot g + k) mod ?n + 1"
    using find_index_distinct [OF assms(3) lt] assms(1) unfolding first_slot_def slot_def by simp
  then have "(first_slot g' + j) mod ?n = (first_slot g + (k + 1 + j)) mod ?n"
    using mod_add_left_eq [of "first_slot g + k" ?n "1 + j"] by (simp add: ac_simps)
  then show ?thesis by (simp add: slot_def assms(1))
qed

lemma air_after:
  "pg_members g' = pg_members g \<Longrightarrow> pg_air_member g' = Some u \<Longrightarrow> pg_air_live g' \<Longrightarrow> u \<in> set (pg_members g) \<Longrightarrow>
   [] \<notin> set (pg_members g) \<Longrightarrow> air g' = Some u"
  by (auto simp: air_def base_member_def)

lemma group_ok_taken:
  assumes ok: "group_ok g" and u: "u \<in> set (pg_members g)"
    and ids: "mset (map it_id (pg_items h)) = mset (map it_id (pg_items g))"
    and h: "pg_members h = pg_members g" "pg_air_member h = Some u" "pg_air_live h"
      "pg_cursor h = Some c" "pg_release h = taken_release g u now"
    and c: "c \<in> it_id ` set (pg_items g)"
    and pre: "\<forall>x \<in> set (take (after_cursor h) (pg_items h)).
       x \<in> set (take (after_cursor g) (pg_items g)) \<or> it_skipped x \<or> it_played_on x \<noteq> None"
  shows "group_ok h"
proof -
  note D = group_okD [OF ok]
  have a: "air h = Some u" using air_after [of h g u] h u D(4) by simp
  have "it_id ` set (pg_items h) = it_id ` set (pg_items g)"
    using arg_cong [OF ids, of set_mset] by simp
  moreover have "distinct (map it_id (pg_items h))" using D(5) mset_eq_imp_distinct_iff [OF ids] by simp
  moreover have "length (pg_items h) = length (pg_items g)" using ids by (metis length_map size_mset)
  moreover have "fst ` set (pg_release h) \<subseteq> set (pg_members g)" and "u \<notin> fst ` set (pg_release h)"
    using h(5) D(6) air_member [of g] by (auto simp: taken_release_keys split: option.splits)
  ultimately show ?thesis
    using ok h a c u pre distinct_taken_release [of g u now] by (auto simp: group_ok_def)
qed

lemma confirm_take_ok:
  assumes ok: "group_ok g" and u: "u \<in> set (pg_members g)" and e: "confirm_take g u c now = Inr g'"
  shows "group_ok g'"
proof -
  note d = group_okD(5) [OF ok]
  obtain i where i: "find_item (pg_items g) c = Some i"
    using e by (auto simp: confirm_take_def split: option.splits)
  note n = find_item_Some [OF i]
  then have c: "c \<in> it_id ` set (pg_items g)" by (metis image_eqI nth_mem)
  show ?thesis
  proof (cases "i < after_cursor g")
    case True
    let ?h = "g\<lparr>pg_items := (pg_items g)[i := mark_played u (pg_items g ! i)], pg_cursor := Some c,
              pg_air_member := Some u, pg_air_live := True, pg_release := taken_release g u now\<rparr>"
    have ids: "map it_id (pg_items ?h) = map it_id (pg_items g)"
      using n by (auto intro!: nth_equalityI simp: nth_list_update)
    then have "after_cursor ?h = i + 1"
      using find_item_cong [OF ids] i by (simp add: after_cursor_def cursor_index_def)
    then have "set (take (after_cursor ?h) (pg_items ?h)) \<subseteq>
        insert (mark_played u (pg_items g ! i)) (set (take (after_cursor g) (pg_items g)))"
      using True n set_take_subset_set_take [of i "after_cursor g" "pg_items g"]
      by (auto simp: take_Suc_conv_app_nth)
    then have "group_ok ?h"
      by (intro group_ok_taken [OF ok u _ _ _ _ _ _ c]) (use ids in \<open>auto simp: mset_map [symmetric] simp del: mset_map\<close>)
    then show ?thesis using confirm_take_past [OF d i True] e by simp
  next
    case False
    let ?pre = "take (after_cursor g) (pg_items g)"
    let ?mid = "take (i - after_cursor g) (drop (after_cursor g) (pg_items g))"
    have s: "pg_items g = ?pre @ ?mid @ pg_items g ! i # drop (i + 1) (pg_items g)"
      using False n by (metis Suc_eq_plus1 append.assoc append_take_drop_id drop_drop id_take_nth_drop
          le_add_diff_inverse2 not_less take_add add.commute)
    have "length ?pre = after_cursor g" using after_cursor_le by simp
    from confirm_take_split [OF ok s this refl refl, of u now] obtain h where h:
      "confirm_take g u (it_id (pg_items g ! i)) now = Inr h"
      "mset (map it_id (pg_items h)) = mset (map it_id (pg_items g))"
      "pg_members h = pg_members g" "pg_air_member h = Some u" "pg_air_live h"
      "pg_cursor h = Some (it_id (pg_items g ! i))" "pg_release h = taken_release g u now"
      "\<forall>x \<in> set (take (after_cursor h) (pg_items h)).
         x \<in> set (take (after_cursor g) (pg_items g)) \<or> it_skipped x \<or> it_played_on x \<noteq> None"
      by metis
    moreover have "h = g'" using h(1) e n by simp
    ultimately show ?thesis using group_ok_taken [OF ok u h(2-7) _ h(8)] c n by simp
  qed
qed

end
