(* ===== verification/Playout_Edits.thy ===== *)
theory Playout_Edits
  imports Playout_Steps
begin

text \<open>
  The edits of a playlist keep what has been played and what is on air where it is; the step relation of
  a group and the invariant \<open>group_ok\<close> over every interleaving of takes, CUEs, releases, edits,
  additions, resets and new configurations.
\<close>

subsection \<open>Lists\<close>

lemma mset_remove_at: "i < length xs \<Longrightarrow> add_mset (xs ! i) (mset (remove_at i xs)) = mset xs"
  using id_take_nth_drop [of i xs] by (metis Suc_eq_plus1 mset_append mset.simps(2) remove_at_def
      union_mset_add_mset_right)

lemma mset_move_item: "i < length xs \<Longrightarrow> mset (move_item i t xs) = mset xs"
proof -
  assume "i < length xs"
  then have "mset (move_item i t xs) = add_mset (xs ! i) (mset (remove_at i xs))"
    unfolding move_item_def Let_def
    by (metis (no_types) append_Cons append_Nil append_take_drop_id mset.simps(2) mset_append
        union_mset_add_mset_right)
  then show ?thesis using mset_remove_at \<open>i < length xs\<close> by metis
qed

lemma take_move_item: "a \<le> i \<Longrightarrow> a \<le> t \<Longrightarrow> t < length xs \<Longrightarrow> i < length xs \<Longrightarrow> take a (move_item i t xs) = take a xs"
  by (simp add: move_item_def remove_at_def Let_def min_def)

lemma length_remove_at: "i < length xs \<Longrightarrow> length (remove_at i xs) = length xs - 1"
  by (simp add: remove_at_def)

lemma length_move_item [simp]: "i < length xs \<Longrightarrow> length (move_item i t xs) = length xs"
  using mset_move_item [of i xs t] by (metis size_mset)

lemma nth_move_item:
  assumes "i < length xs" and "t < length xs" shows "move_item i t xs ! t = xs ! i"
proof -
  have "length (take t (remove_at i xs)) = t" using assms length_remove_at [OF assms(1)] by simp
  then show ?thesis unfolding move_item_def Let_def by (metis append_Cons nth_append_length)
qed

lemma set_skipped_ids [simp]: "map it_id (set_skipped i b xs) = map it_id xs"
proof (cases "i < length xs")
  case True
  then have "(map it_id xs)[i := it_id (xs ! i)] = map it_id xs" by (metis list_update_id nth_map)
  then show ?thesis by (simp add: set_skipped_def map_update)
qed (simp add: set_skipped_def list_update_beyond)

lemma take_set_skipped [simp]: "a \<le> i \<Longrightarrow> take a (set_skipped i b xs) = take a xs"
  by (simp add: set_skipped_def)

subsection \<open>An edit after the cursor\<close>

lemma clamp_target_bounds:
  "i < length (pg_items g) \<Longrightarrow> after_cursor g \<le> i \<Longrightarrow>
   after_cursor g \<le> clamp_target g to \<and> clamp_target g to < length (pg_items g)"
  by (auto simp: clamp_target_def)

lemma item_op_cases:
  assumes e: "item_op g op c v = Inr g'"
  obtains i items' where "find_item (pg_items g) c = Some i" and "g' = g\<lparr>pg_items := items'\<rparr>"
    and "op = ''drop'' \<and> int i \<noteq> cursor_index (pg_items g) (pg_cursor g) \<and> items' = remove_at i (pg_items g) \<or>
         op \<noteq> ''drop'' \<and> after_cursor g \<le> i \<and> take (after_cursor g) items' = take (after_cursor g) (pg_items g) \<and>
         mset (map it_id items') = mset (map it_id (pg_items g))"
proof -
  let ?xs = "pg_items g"
  obtain i where i: "find_item ?xs c = Some i" using e by (auto simp: item_op_def Let_def split: option.splits)
  note n = find_item_Some [OF i]
  show ?thesis
  proof (cases "op = ''drop''")
    case True
    then have "g' = g\<lparr>pg_items := remove_at i ?xs\<rparr>" and "int i \<noteq> cursor_index ?xs (pg_cursor g)"
      using e i by (auto simp: item_op_def Let_def split: if_splits)
    then show ?thesis using that [OF i] True by blast
  next
    case False
    have a: "after_cursor g \<le> i"
      using e i False cursor_index_less [of i g] by (auto simp: item_op_def Let_def split: if_splits)
    have e': "(if op = ''skip'' then Inr (g\<lparr>pg_items := set_skipped i (value_true v) ?xs\<rparr>)
             else if op = ''unskip'' then Inr (g\<lparr>pg_items := set_skipped i False ?xs\<rparr>)
             else if op = ''up'' \<or> op = ''down'' \<or> op = ''move'' then
               (case move_target op i v of
                  None \<Rightarrow> Inl (PlayoutError ''bad_position'')
                | Some to \<Rightarrow> Inr (if clamp_target g to \<noteq> i
                    then g\<lparr>pg_items := move_item i (clamp_target g to) ?xs\<rparr> else g))
             else if op = ''goto'' then
               Inr (g\<lparr>pg_items := set_skipped i False
                        (update_slice (\<lambda>it. it\<lparr>it_skipped := True\<rparr>) (after_cursor g) i ?xs)\<rparr>)
             else Inl (PlayoutError ''unknown_op'')) = Inr g'"
      using e a cursor_index_less [of i g] unfolding item_op_def Let_def i option.case if_not_P [OF False]
      by (simp only: not_less [symmetric] not_not if_False)
    have keep: "take (after_cursor g) xs' = take (after_cursor g) ?xs \<Longrightarrow>
        mset (map it_id xs') = mset (map it_id ?xs) \<Longrightarrow> g' = g\<lparr>pg_items := xs'\<rparr> \<Longrightarrow> ?thesis" for xs'
      using that [OF i] False a by blast
    have same: "g' = g \<Longrightarrow> ?thesis" using keep [of ?xs] by simp
    have move: "g' = g\<lparr>pg_items := move_item i (clamp_target g to) ?xs\<rparr> \<Longrightarrow> ?thesis" for to
      using keep [of "move_item i (clamp_target g to) ?xs"] n a clamp_target_bounds [of i g to]
      by (simp add: take_move_item mset_move_item)
    have skip: "g' = g\<lparr>pg_items := set_skipped i b ?xs\<rparr> \<Longrightarrow> ?thesis" for b
      using keep [of "set_skipped i b ?xs"] a by (simp del: mset_map)
    have "map it_id (update_slice (\<lambda>it. it\<lparr>it_skipped := True\<rparr>) (after_cursor g) i ?xs) = map it_id ?xs"
      by (intro update_slice_ids) simp
    then have goto: "g' = g\<lparr>pg_items := set_skipped i False
        (update_slice (\<lambda>it. it\<lparr>it_skipped := True\<rparr>) (after_cursor g) i ?xs)\<rparr> \<Longrightarrow> ?thesis"
      using keep [of "set_skipped i False (update_slice (\<lambda>it. it\<lparr>it_skipped := True\<rparr>) (after_cursor g) i ?xs)"] a
      by (simp del: mset_map)
    show ?thesis
      using e' same move skip goto by (auto split: if_splits option.splits)
  qed
qed

lemma after_cursor_prefix:
  assumes ok: "group_ok g" and d: "distinct (map it_id xs)"
    and t: "take (after_cursor g) xs = take (after_cursor g) (pg_items g)"
  shows "after_cursor (g\<lparr>pg_items := xs\<rparr>) = after_cursor g"
proof (cases "pg_cursor g")
  case None
  then show ?thesis by (simp add: after_cursor_def cursor_index_def)
next
  case (Some c)
  then have "c \<in> it_id ` set (pg_items g)" using group_okD(9) [OF ok] by blast
  then obtain i where i: "find_item (pg_items g) c = Some i"
    using find_index_None [of "\<lambda>it. it_id it = c" "pg_items g"]
    by (cases "find_item (pg_items g) c") (auto simp: find_item_def)
  then have a: "after_cursor g = i + 1" using Some by (simp add: after_cursor_def cursor_index_def)
  note n = find_item_Some [OF i]
  have len: "i < length xs" using arg_cong [OF t, of length] a n by simp
  have "xs ! i = pg_items g ! i" using arg_cong [OF t, of "\<lambda>l. l ! i"] a by simp
  then have "find_item xs c = Some i" using find_item_nth [OF d len] n by simp
  then show ?thesis using a Some by (simp add: after_cursor_def cursor_index_def)
qed

lemma group_ok_items:
  assumes ok: "group_ok g" and "distinct (map it_id xs)" and "length xs \<le> max_items"
    and "\<forall>c. pg_cursor g = Some c \<longrightarrow> c \<in> it_id ` set xs"
    and "\<forall>it \<in> set (take (after_cursor (g\<lparr>pg_items := xs\<rparr>)) xs). it_skipped it \<or> it_played_on it \<noteq> None"
  shows "group_ok (g\<lparr>pg_items := xs\<rparr>)"
proof -
  have "air (g\<lparr>pg_items := xs\<rparr>) = air g"
    by (auto simp: air_def base_member_def split: option.split)
  then show ?thesis using assms by (simp add: group_ok_def)
qed

lemma remove_at_split: "xs = ys @ x # zs \<Longrightarrow> remove_at (length ys) xs = ys @ zs"
  by (simp add: remove_at_def)

text \<open>Dropping an item: the cursor stays on its item.\<close>

lemma drop_cursor:
  assumes ok: "group_ok g" and i: "i < length (pg_items g)"
    and ci: "int i \<noteq> cursor_index (pg_items g) (pg_cursor g)"
  shows "after_cursor (g\<lparr>pg_items := remove_at i (pg_items g)\<rparr>) =
           (if i < after_cursor g then after_cursor g - 1 else after_cursor g)"
    and "distinct (map it_id (remove_at i (pg_items g)))"
    and "pg_cursor g = Some c \<Longrightarrow> c \<in> it_id ` set (remove_at i (pg_items g))"
proof -
  let ?xs = "pg_items g"
  note D = group_okD [OF ok]
  have "mset (map it_id ?xs) = add_mset (it_id (?xs ! i)) (mset (map it_id (remove_at i ?xs)))"
    using mset_remove_at [OF i] by (metis image_mset_add_mset mset_map)
  then have "distinct (it_id (?xs ! i) # map it_id (remove_at i ?xs))"
    using D(5) mset_eq_imp_distinct_iff [of "map it_id ?xs" "it_id (?xs ! i) # map it_id (remove_at i ?xs)"] by simp
  then show d: "distinct (map it_id (remove_at i ?xs))" by simp
  have key: "\<exists>ys zs. remove_at i ?xs = ys @ ?xs ! k # zs \<and> length ys = (if i < k then k - 1 else k)"
    if k: "k < length ?xs" "k \<noteq> i" for k
  proof (cases "i < k")
    case True
    have "drop (i + 1) ?xs = take (k - (i + 1)) (drop (i + 1) ?xs) @ ?xs ! k # drop (k + 1) ?xs"
      using True k id_take_nth_drop [of "k - (i + 1)" "drop (i + 1) ?xs"] by simp
    then show ?thesis using True k unfolding remove_at_def
      by (intro exI [of _ "take i ?xs @ take (k - (i + 1)) (drop (i + 1) ?xs)"] exI [of _ "drop (k + 1) ?xs"])
        (auto simp: min_def)
  next
    case False
    then have lt: "k < i" using k by simp
    have "take i ?xs = take k ?xs @ ?xs ! k # drop (k + 1) (take i ?xs)"
      using lt i id_take_nth_drop [of k "take i ?xs"] by (simp add: min_def)
    then show ?thesis using False lt i unfolding remove_at_def
      by (intro exI [of _ "take k ?xs"] exI [of _ "drop (k + 1) (take i ?xs) @ drop (i + 1) ?xs"])
        (auto simp: min_def)
  qed
  have cur: "\<exists>k. find_item ?xs c = Some k \<and> k \<noteq> i \<and> after_cursor g = k + 1" if c: "pg_cursor g = Some c" for c
  proof -
    have "c \<in> it_id ` set ?xs" using D(9) c by blast
    then obtain k where "find_item ?xs c = Some k"
      using find_index_None [of "\<lambda>it. it_id it = c" ?xs] by (cases "find_item ?xs c") (auto simp: find_item_def)
    then show ?thesis using ci c by (auto simp: cursor_index_def after_cursor_def)
  qed
  show "c \<in> it_id ` set (remove_at i ?xs)" if c: "pg_cursor g = Some c"
  proof -
    obtain k where k: "find_item ?xs c = Some k" "k \<noteq> i" using cur [OF c] by blast
    then have "?xs ! k \<in> set (remove_at i ?xs)" using key [of k] find_item_Some by fastforce
    then show ?thesis using find_item_Some [OF k(1)] by blast
  qed
  show "after_cursor (g\<lparr>pg_items := remove_at i ?xs\<rparr>) = (if i < after_cursor g then after_cursor g - 1 else after_cursor g)"
  proof (cases "pg_cursor g")
    case None
    then show ?thesis by (simp add: after_cursor_def cursor_index_def)
  next
    case (Some c)
    then obtain k where k: "find_item ?xs c = Some k" "k \<noteq> i" "after_cursor g = k + 1" using cur by blast
    note nk = find_item_Some [OF k(1)]
    obtain ys zs where s: "remove_at i ?xs = ys @ ?xs ! k # zs" "length ys = (if i < k then k - 1 else k)"
      using key nk k(2) by blast
    then show ?thesis
      using after_cursor_at [of "g\<lparr>pg_items := remove_at i ?xs\<rparr>" ys "?xs ! k" zs] d Some nk k by auto
  qed
qed

lemma take_remove_at:
  "i < length xs \<Longrightarrow> set (take (if i < a then a - 1 else a) (remove_at i xs)) \<subseteq> set (take a xs)"
  using set_take_subset_set_take [of "a - 1" a xs] set_take_subset_set_take [of i a xs]
    drop_take [of "i + 1" a xs] in_set_dropD [of _ "i + 1" "take a xs"]
  by (auto simp: remove_at_def min_def)

lemma item_op_ok:
  assumes ok: "group_ok g" and e: "item_op g op c v = Inr g'"
  shows "group_ok g'"
proof -
  note D = group_okD [OF ok]
  obtain i xs where i: "find_item (pg_items g) c = Some i" "g' = g\<lparr>pg_items := xs\<rparr>"
    and cs: "op = ''drop'' \<and> int i \<noteq> cursor_index (pg_items g) (pg_cursor g) \<and> xs = remove_at i (pg_items g) \<or>
         op \<noteq> ''drop'' \<and> after_cursor g \<le> i \<and> take (after_cursor g) xs = take (after_cursor g) (pg_items g) \<and>
         mset (map it_id xs) = mset (map it_id (pg_items g))"
    using item_op_cases [OF e] .
  note n = find_item_Some [OF i(1)]
  have played: "\<forall>it \<in> set (take (after_cursor g) (pg_items g)). it_skipped it \<or> it_played_on it \<noteq> None"
    using ok by (simp add: group_ok_def)
  from cs show ?thesis
  proof
    assume "op = ''drop'' \<and> int i \<noteq> cursor_index (pg_items g) (pg_cursor g) \<and> xs = remove_at i (pg_items g)"
    then have ne: "int i \<noteq> cursor_index (pg_items g) (pg_cursor g)" and xs: "xs = remove_at i (pg_items g)" by auto
    have len: "i < length (pg_items g)" using n by simp
    show ?thesis
      unfolding i(2) xs
    proof (rule group_ok_items [OF ok])
      show "\<forall>it \<in> set (take (after_cursor (g\<lparr>pg_items := remove_at i (pg_items g)\<rparr>)) (remove_at i (pg_items g))).
              it_skipped it \<or> it_played_on it \<noteq> None"
        unfolding drop_cursor(1) [OF ok len ne]
        using take_remove_at [OF len, of "after_cursor g"] played by blast
    qed (use drop_cursor(2,3) [OF ok len ne] length_remove_at [OF len] D(8) in auto)
  next
    assume a: "op \<noteq> ''drop'' \<and> after_cursor g \<le> i \<and> take (after_cursor g) xs = take (after_cursor g) (pg_items g) \<and>
         mset (map it_id xs) = mset (map it_id (pg_items g))"
    then have m: "mset (map it_id xs) = mset (map it_id (pg_items g))" by blast
    have d: "distinct (map it_id xs)" using D(5) mset_eq_imp_distinct_iff [OF m] by simp
    have ids: "it_id ` set xs = it_id ` set (pg_items g)" using arg_cong [OF m, of set_mset] by simp
    have "length xs = length (pg_items g)" using m by (metis length_map size_mset)
    then show ?thesis
      unfolding i(2) using after_cursor_prefix [OF ok d] a d ids D(8,9) played
      by (intro group_ok_items [OF ok]) auto
  qed
qed

subsection \<open>The other operations\<close>

lemma ids_new_items: "map it_id (new_items fresh new) = map fresh [0..<length (new_items fresh new)]"
  by (rule nth_equalityI) (simp_all add: new_items_def nth_enumerate_eq)

lemma add_items_ok:
  assumes ok: "group_ok g" and inj: "inj fresh" and new: "\<forall>k. fresh k \<notin> it_id ` set (pg_items g)"
    and e: "add_items fresh g raw mode = Inr (g', news)"
  shows "group_ok g'"
proof -
  note D = group_okD [OF ok]
  let ?news = "new_items fresh raw"
  have ids: "it_id ` set ?news \<subseteq> range fresh"
    by (metis ids_new_items image_set list.set_map subset_UNIV image_mono)
  have dn: "distinct (map it_id ?news)"
    unfolding ids_new_items using inj by (simp add: distinct_map inj_on_subset [of fresh UNIV])
  have "range fresh \<inter> it_id ` set (pg_items g) = {}" using new by auto
  then have disj: "it_id ` set ?news \<inter> it_id ` set (pg_items g) = {}" using ids by blast
  have played: "\<forall>it \<in> set (take (after_cursor g) (pg_items g)). it_skipped it \<or> it_played_on it \<noteq> None"
    using ok by (simp add: group_ok_def)
  have len: "length (pg_items g') \<le> max_items"
    using e by (auto simp: add_items_def Let_def split: if_splits)
  consider "g' = g\<lparr>pg_items := ?news, pg_cursor := None\<rparr>"
    | xs where "g' = g\<lparr>pg_items := xs\<rparr>" "mset xs = mset (pg_items g) + mset ?news"
        "take (after_cursor g) xs = take (after_cursor g) (pg_items g)"
  proof -
    let ?a = "after_cursor g"
    have m: "mset (take ?a (pg_items g) @ ?news @ drop ?a (pg_items g)) = mset (pg_items g) + mset ?news"
      by (metis append_take_drop_id mset_append union_assoc union_commute)
    show ?thesis
      using e that(1) that(2) [of "take ?a (pg_items g) @ ?news @ drop ?a (pg_items g)"]
        that(2) [of "pg_items g @ ?news"] m after_cursor_le [of g]
      by (auto simp: add_items_def Let_def min_def split: if_splits)
  qed
  then show ?thesis
  proof cases
    case 1
    have "air g' = air g" using 1 by (auto simp: air_def base_member_def split: option.split)
    then show ?thesis using ok 1 dn len by (simp add: group_ok_def after_cursor_def cursor_index_def)
  next
    case 2
    have "set xs = set (pg_items g) \<union> set ?news" using arg_cong [OF 2(2), of set_mset] by simp
    moreover have d: "distinct (map it_id xs)"
      using mset_eq_imp_distinct_iff [of "map it_id xs" "map it_id (pg_items g @ ?news)"] 2(2) D(5) dn disj by auto
    ultimately show ?thesis
      using 2(1,3) len played D(9) after_cursor_prefix [OF ok d 2(3)] unfolding 2(1)
      by (intro group_ok_items [OF ok]) auto
  qed
qed

lemma reset_ok: "group_ok g \<Longrightarrow> group_ok (reset g)"
proof -
  assume ok: "group_ok g"
  have "air (reset g) = air g" by (auto simp: reset_def air_def base_member_def split: option.split)
  then show ?thesis
    using ok by (simp add: group_ok_def reset_def after_cursor_def cursor_index_def comp_def)
qed

lemma air_stop: "air (stop_air g u) = (if air g = Some u then None else air g)"
  by (auto simp: stop_air_def air_def base_member_def split: option.splits if_splits)

lemma stop_air_ok: "group_ok g \<Longrightarrow> group_ok (stop_air g u)"
proof -
  assume ok: "group_ok g"
  have "after_cursor (stop_air g u) = after_cursor g" by (simp add: stop_air_def after_cursor_def)
  moreover have "fst ` set (pg_release (stop_air g u)) \<subseteq> fst ` set (pg_release g)" by (auto simp: stop_air_def)
  moreover have "distinct (map fst (pg_release (stop_air g u)))"
    using ok by (simp add: stop_air_def group_ok_def distinct_map_filter)
  ultimately show ?thesis
    using ok unfolding group_ok_def air_stop by (auto simp: stop_air_def)
qed

text \<open>The outputs an automatic release takes off the list.\<close>

definition released :: "(string \<Rightarrow> bool) \<Rightarrow> pgroup \<Rightarrow> pgroup" where
  "released P g = g\<lparr>pg_release := filter (\<lambda>(u, t). \<not> P u) (pg_release g)\<rparr>"

lemma released_ok: "group_ok g \<Longrightarrow> group_ok (released P g)"
proof -
  assume ok: "group_ok g"
  have "air (released P g) = air g" by (auto simp: released_def air_def base_member_def split: option.split)
  moreover have "after_cursor (released P g) = after_cursor g" by (simp add: released_def after_cursor_def)
  ultimately show ?thesis using ok by (auto simp: group_ok_def released_def distinct_map_filter)
qed

subsection \<open>Configurations\<close>

lemma check_members_Inr:
  "check_members player acc us = Inr ms \<Longrightarrow> distinct acc \<Longrightarrow>
   ms = acc @ us \<and> distinct ms \<and> (\<forall>u \<in> set us. player u)"
  by (induction player acc us rule: check_members.induct) (auto split: if_splits)

lemma check_channels_Inr:
  "check_channels n_in console raw us = Inr chs \<Longrightarrow>
   map fst chs = us \<and>
   (\<forall>(u, ch) \<in> set chs.
      check_channel n_in console (case map_of raw u of None \<Rightarrow> no_channel | Some c \<Rightarrow> c) = Inr ch)"
  by (induction us arbitrary: chs) (auto split: sum.splits)

lemma validate_config_Inr:
  assumes "validate_config si gs cfg gid = Inr upd"
  obtains trig ooo channels project mixer console where
    "\<forall>g. upd g = g\<lparr>pg_name := take 80 (py_strip (cf_name cfg)), pg_members := cf_members cfg, pg_trigger := trig,
        pg_mixer := or_none (cf_mixer cfg), pg_console := or_none (cf_console cfg), pg_channels := channels,
        pg_auto_release := cf_auto_release cfg, pg_out_of_order := ooo, pg_auto_next := cf_auto_next cfg,
        pg_project := project\<rparr>"
    and "distinct (cf_members cfg)" and "2 \<le> length (cf_members cfg)" and "length (cf_members cfg) \<le> max_members"
    and "\<forall>u \<in> set (cf_members cfg). si_players si u \<noteq> None"
    and "\<forall>h \<in> set gs. Some (pg_id h) \<noteq> gid \<longrightarrow> set (pg_members h) \<inter> set (cf_members cfg) = {}"
    and "\<forall>sg \<in> set (si_sync si). set sg \<inter> set (cf_members cfg) = {}"
    and "mixer = (case or_none (cf_mixer cfg) of None \<Rightarrow> None | Some m \<Rightarrow> si_mixers si m)"
    and "console = (case or_none (cf_console cfg) of None \<Rightarrow> None | Some c \<Rightarrow> si_consoles si c)"
    and "check_channels mixer console (cf_channels cfg) (cf_members cfg) = Inr channels"
    and "trig = By_mixer \<longrightarrow> mixer \<noteq> None \<and> (\<forall>ch \<in> set channels. ch_mixer_input (snd ch) \<noteq> None)"
    and "cf_auto_release cfg \<longrightarrow> mixer \<noteq> None \<and> console \<noteq> None \<and>
          (\<forall>ch \<in> set channels. ch_mixer_input (snd ch) \<noteq> None \<and> some_text (ch_strip_id (snd ch)))"
proof -
  obtain ms where m: "check_members (\<lambda>u. si_players si u \<noteq> None) [] (cf_members cfg) = Inr ms"
    using assms unfolding validate_config_def Let_def by (auto split: if_splits sum.splits)
  then have ms: "ms = cf_members cfg" "distinct ms" "\<forall>u \<in> set ms. si_players si u \<noteq> None"
    using check_members_Inr [OF m] by auto
  obtain trig where t: "trigger_of (cf_trigger cfg) = Some trig"
    using assms unfolding validate_config_def Let_def m sum.case by (auto split: if_splits option.splits)
  let ?mixer = "case or_none (cf_mixer cfg) of None \<Rightarrow> None | Some m \<Rightarrow> si_mixers si m"
  let ?console = "case or_none (cf_console cfg) of None \<Rightarrow> None | Some c \<Rightarrow> si_consoles si c"
  obtain chs where c: "check_channels ?mixer ?console (cf_channels cfg) ms = Inr chs"
    using assms unfolding validate_config_def Let_def m sum.case t option.case
    by (cases "check_channels ?mixer ?console (cf_channels cfg) ms") (auto split: if_splits)
  obtain ooo where o: "out_of_order_of (cf_out_of_order cfg) = Some ooo"
    using assms unfolding validate_config_def Let_def m sum.case t option.case c
    by (cases "out_of_order_of (cf_out_of_order cfg)") (auto split: if_splits)
  note a = assms [unfolded validate_config_def Let_def m sum.case t option.case c o]
  show ?thesis
    by (rule that [where trig = trig and channels = chs and ooo = ooo and mixer = ?mixer and console = ?console])
      (use a ms c in \<open>auto split: if_splits\<close>)
qed

subsection \<open>The item on air\<close>

lemma air_item_nth:
  "air_item g = (if after_cursor g = 0 then None else Some (pg_items g ! (after_cursor g - 1)))"
  by (auto simp: air_item_def after_cursor_def Let_def nat_diff_distrib nat_eq_iff intro!: arg_cong [where f = "(!) (pg_items g)"])

lemma air_item_iff:
  assumes ok: "group_ok g"
  shows "air_item g = Some it \<longleftrightarrow> it \<in> set (pg_items g) \<and> pg_cursor g = Some (it_id it)"
proof (cases "pg_cursor g")
  case None
  then show ?thesis by (simp add: air_item_def cursor_index_def)
next
  case (Some c)
  note d = group_okD(5) [OF ok]
  have "c \<in> it_id ` set (pg_items g)" using group_okD(9) [OF ok Some] .
  then obtain k where k: "k < length (pg_items g)" "c = it_id (pg_items g ! k)" by (metis imageE in_set_conv_nth)
  then have a: "air_item g = Some (pg_items g ! k)"
    using find_item_nth [OF d k(1)] Some by (simp add: air_item_def cursor_index_def)
  have "x = pg_items g ! k" if "x \<in> set (pg_items g)" "it_id x = it_id (pg_items g ! k)" for x
    using d that k(1) by (metis distinct_map inj_onD nth_mem)
  then show ?thesis using a k Some by auto
qed

lemma remove_at_filter:
  assumes "distinct (map it_id xs)" and "i < length xs" and "it_id (xs ! i) = c"
  shows "remove_at i xs = filter (\<lambda>it. it_id it \<noteq> c) xs"
proof -
  have xs: "xs = take i xs @ xs ! i # drop (Suc i) xs" using assms(2) by (rule id_take_nth_drop)
  then have "distinct (map it_id (take i xs @ xs ! i # drop (Suc i) xs))" using assms(1) by simp
  then have out: "c \<notin> it_id ` set (take i xs)" "c \<notin> it_id ` set (drop (Suc i) xs)"
    unfolding map_append list.map distinct_append distinct.simps list.set set_map assms(3) by blast+
  have "filter (\<lambda>it. it_id it \<noteq> c) (take i xs) = take i xs" "filter (\<lambda>it. it_id it \<noteq> c) (drop (Suc i) xs) = drop (Suc i) xs"
    using out by (auto intro!: filter_True)
  then have "filter (\<lambda>it. it_id it \<noteq> c) (take i xs @ xs ! i # drop (Suc i) xs) = take i xs @ drop (Suc i) xs"
    using assms(3) by (simp only: filter_append filter.simps) simp
  then show ?thesis using xs by (simp add: remove_at_def)
qed

lemma item_op_drop:
  assumes ok: "group_ok g" and e: "item_op g ''drop'' c v = Inr g'"
  shows "c \<in> it_id ` set (pg_items g) \<and> pg_cursor g \<noteq> Some c \<and> pg_items g' = filter (\<lambda>it. it_id it \<noteq> c) (pg_items g)"
proof -
  obtain i xs where i: "find_item (pg_items g) c = Some i" "g' = g\<lparr>pg_items := xs\<rparr>"
    and d: "int i \<noteq> cursor_index (pg_items g) (pg_cursor g)" "xs = remove_at i (pg_items g)"
    using item_op_cases [OF e] by blast
  note n = find_item_Some [OF i(1)]
  have "pg_cursor g \<noteq> Some c" using d(1) i(1) by (auto simp: cursor_index_def)
  then show ?thesis using remove_at_filter [OF group_okD(5) [OF ok]] n i(2) d(2) by force
qed

lemma item_op_air_item:
  assumes ok: "group_ok g" and e: "item_op g op c v = Inr g'"
  shows "air_item g' = air_item g"
proof -
  have ok': "group_ok g'" using item_op_ok [OF ok e] .
  note d = group_okD(5) [OF ok]
  obtain i xs where i: "find_item (pg_items g) c = Some i" "g' = g\<lparr>pg_items := xs\<rparr>"
    and cs: "op = ''drop'' \<and> int i \<noteq> cursor_index (pg_items g) (pg_cursor g) \<and> xs = remove_at i (pg_items g) \<or>
         op \<noteq> ''drop'' \<and> after_cursor g \<le> i \<and> take (after_cursor g) xs = take (after_cursor g) (pg_items g) \<and>
         mset (map it_id xs) = mset (map it_id (pg_items g))"
    using item_op_cases [OF e] .
  from cs show ?thesis
  proof
    assume dr: "op = ''drop'' \<and> int i \<noteq> cursor_index (pg_items g) (pg_cursor g) \<and> xs = remove_at i (pg_items g)"
    have sub: "set xs \<subseteq> set (pg_items g)" using dr by (auto simp: remove_at_def dest: in_set_takeD in_set_dropD)
    have "air_item g' = Some it \<longleftrightarrow> air_item g = Some it" for it
    proof
      assume "air_item g' = Some it"
      then show "air_item g = Some it" using air_item_iff [OF ok] air_item_iff [OF ok'] sub i(2) by auto
    next
      assume a: "air_item g = Some it"
      then have c: "pg_cursor g = Some (it_id it)" "it \<in> set (pg_items g)" using air_item_iff [OF ok] by auto
      then obtain y where "y \<in> set xs" "it_id y = it_id it"
        using group_okD(9) [OF ok'] i(2) by fastforce
      then have "y = it" using d c(2) sub by (metis distinct_map inj_onD subsetD)
      then show "air_item g' = Some it" using air_item_iff [OF ok'] \<open>y \<in> set xs\<close> c(1) i(2) by simp
    qed
    then show ?thesis by (metis not_Some_eq)
  next
    assume a: "op \<noteq> ''drop'' \<and> after_cursor g \<le> i \<and> take (after_cursor g) xs = take (after_cursor g) (pg_items g) \<and>
         mset (map it_id xs) = mset (map it_id (pg_items g))"
    then have t: "take (after_cursor g) xs = take (after_cursor g) (pg_items g)" by blast
    have "distinct (map it_id xs)" using group_okD(5) [OF ok'] i(2) by simp
    then have "after_cursor g' = after_cursor g" using after_cursor_prefix [OF ok _ t] i(2) by simp
    moreover have "xs ! (after_cursor g - 1) = pg_items g ! (after_cursor g - 1)" if "after_cursor g \<noteq> 0"
      using arg_cong [OF t, of "\<lambda>l. l ! (after_cursor g - 1)"] that by simp
    ultimately show ?thesis using i(2) by (simp add: air_item_nth)
  qed
qed

end
