(* ===== verification/Playout_Table.thy ===== *)
theory Playout_Table
  imports Playout_Edits
begin

text \<open>
  The table of playout groups as a state machine: a step is an operation on one group, or the creation,
  the update or the deletion of a group.  Every table the steps reach keeps its groups well formed and
  shares no player between two groups.
\<close>

subsection \<open>Steps of a group\<close>

inductive gstep :: "pgroup \<Rightarrow> pgroup \<Rightarrow> bool" where
  take: "u \<in> set (pg_members g) \<Longrightarrow> confirm_take g u c now = Inr g' \<Longrightarrow> gstep g g'"
| stop: "gstep g (stop_air g u)"
| release: "gstep g (released P g)"
| edit: "item_op g op c v = Inr g' \<Longrightarrow> gstep g g'"
| add: "inj fresh \<Longrightarrow> \<forall>k. fresh k \<notin> it_id ` set (pg_items g) \<Longrightarrow> add_items fresh g raw mode = Inr (g', news)
    \<Longrightarrow> gstep g g'"
| reset: "gstep g (reset g)"

lemma gstep_ok: "gstep g g' \<Longrightarrow> group_ok g \<Longrightarrow> group_ok g'"
  by (induction rule: gstep.induct)
    (blast intro: confirm_take_ok stop_air_ok released_ok item_op_ok add_items_ok reset_ok)+

lemma confirm_take_frame:
  "confirm_take g u c now = Inr g' \<Longrightarrow> pg_id g' = pg_id g \<and> pg_members g' = pg_members g"
  unfolding confirm_take_def by (auto simp: Let_def split: option.splits prod.splits)

lemma add_items_frame:
  "add_items fresh g raw mode = Inr (g', news) \<Longrightarrow> pg_id g' = pg_id g \<and> pg_members g' = pg_members g"
  by (auto simp: add_items_def Let_def split: if_splits)

lemma item_op_frame: "item_op g op c v = Inr g' \<Longrightarrow> g' = g\<lparr>pg_items := pg_items g'\<rparr>"
  using item_op_cases [of g op c v g'] by (metis pgroup.select_convs(5) pgroup.surjective pgroup.update_convs(5))

lemma gstep_frame: "gstep g g' \<Longrightarrow> pg_id g' = pg_id g \<and> pg_members g' = pg_members g"
proof (induction rule: gstep.induct)
  case (edit g op c v g')
  then have "g' = g\<lparr>pg_items := pg_items g'\<rparr>" by (rule item_op_frame)
  then show ?case by (metis pgroup.select_convs(1,4) pgroup.surjective pgroup.update_convs(5))
qed (auto simp: confirm_take_frame stop_air_def released_def reset_def dest: add_items_frame)

subsection \<open>Configurations\<close>

lemma settled_ok:
  assumes ok: "group_ok g" and v: "validate_config si gs cfg gid = Inr upd" and si: "si_players si [] = None"
  shows "group_ok (settle_members (upd g))"
proof -
  obtain t oo chs p where u: "upd g = g\<lparr>pg_name := take 80 (py_strip (cf_name cfg)), pg_members := cf_members cfg,
      pg_trigger := t, pg_mixer := or_none (cf_mixer cfg), pg_console := or_none (cf_console cfg),
      pg_channels := chs, pg_auto_release := cf_auto_release cfg, pg_out_of_order := oo,
      pg_auto_next := cf_auto_next cfg, pg_project := p\<rparr>"
    and m: "distinct (cf_members cfg)" "2 \<le> length (cf_members cfg)" "length (cf_members cfg) \<le> max_members"
      "\<forall>u \<in> set (cf_members cfg). si_players si u \<noteq> None"
    using validate_config_Inr [OF v] by metis
  let ?h = "settle_members (upd g)"
  have same: "pg_items ?h = pg_items g" "pg_cursor ?h = pg_cursor g" "pg_members ?h = cf_members cfg"
    "pg_release ?h = filter (\<lambda>(u, t). u \<in> set (cf_members cfg)) (pg_release g)"
    by (simp_all add: settle_members_def u Let_def)
  have air: "a \<notin> fst ` set (pg_release g)" if "air ?h = Some a" for a
  proof -
    have "pg_air_live g" and "pg_air_member g = Some a" and "a \<noteq> []"
      using air_member [OF that] by (auto simp: settle_members_def u Let_def split: if_splits)
    then have "air g = Some a" using ok by (auto simp: group_ok_def air_def base_member_def)
    then show ?thesis using group_okD(7) [OF ok] by blast
  qed
  have live: "pg_air_live ?h \<Longrightarrow> \<exists>a \<in> set (pg_members ?h). pg_air_member ?h = Some a"
    by (auto simp: settle_members_def u Let_def split: if_splits option.splits)
  have "[] \<notin> set (cf_members cfg)" using m(4) si by auto
  moreover have "after_cursor ?h = after_cursor g" using same by (simp add: after_cursor_def)
  moreover have "fst ` set (pg_release ?h) \<subseteq> set (cf_members cfg)" using same by auto
  ultimately show ?thesis
    using ok m air live unfolding group_ok_def same by (auto simp: distinct_map_filter)
qed

lemma created_ok:
  assumes v: "validate_config si gs cfg gid = Inr upd" and si: "si_players si [] = None"
  shows "group_ok (upd (empty_group k))"
proof -
  obtain t oo chs p where u: "upd (empty_group k) = (empty_group k)\<lparr>pg_name := take 80 (py_strip (cf_name cfg)),
      pg_members := cf_members cfg,
      pg_trigger := t, pg_mixer := or_none (cf_mixer cfg), pg_console := or_none (cf_console cfg),
      pg_channels := chs, pg_auto_release := cf_auto_release cfg, pg_out_of_order := oo,
      pg_auto_next := cf_auto_next cfg, pg_project := p\<rparr>"
    and m: "distinct (cf_members cfg)" "2 \<le> length (cf_members cfg)" "length (cf_members cfg) \<le> max_members"
      "\<forall>u \<in> set (cf_members cfg). si_players si u \<noteq> None"
    using validate_config_Inr [OF v] by metis
  then show ?thesis
    using si by (auto simp: group_ok_def empty_group_def air_def base_member_def after_cursor_def cursor_index_def)
qed

lemma upd_frame:
  assumes "validate_config si gs cfg gid = Inr upd"
  shows "pg_id (upd g) = pg_id g" and "pg_members (upd g) = cf_members cfg"
    and "pg_id (settle_members g) = pg_id g" and "pg_members (settle_members g) = pg_members g"
    and "\<forall>h \<in> set gs. Some (pg_id h) \<noteq> gid \<longrightarrow> set (pg_members h) \<inter> set (pg_members (upd g)) = {}"
proof -
  obtain t oo chs p where u: "\<forall>g. upd g = g\<lparr>pg_name := take 80 (py_strip (cf_name cfg)), pg_members := cf_members cfg,
      pg_trigger := t, pg_mixer := or_none (cf_mixer cfg), pg_console := or_none (cf_console cfg),
      pg_channels := chs, pg_auto_release := cf_auto_release cfg, pg_out_of_order := oo,
      pg_auto_next := cf_auto_next cfg, pg_project := p\<rparr>"
    and d: "\<forall>h \<in> set gs. Some (pg_id h) \<noteq> gid \<longrightarrow> set (pg_members h) \<inter> set (cf_members cfg) = {}"
    using validate_config_Inr [OF assms] by metis
  show "pg_id (upd g) = pg_id g" and m: "pg_members (upd g) = cf_members cfg" using u by simp_all
  show "pg_id (settle_members g) = pg_id g" and "pg_members (settle_members g) = pg_members g"
    by (simp_all add: settle_members_def Let_def)
  show "\<forall>h \<in> set gs. Some (pg_id h) \<noteq> gid \<longrightarrow> set (pg_members h) \<inter> set (pg_members (upd g)) = {}"
    using d m by simp
qed

subsection \<open>The table\<close>

inductive tstep :: "site \<Rightarrow> pgroup list \<Rightarrow> pgroup list \<Rightarrow> bool" for si :: site where
  change: "g \<in> set gs \<Longrightarrow> gstep g g' \<Longrightarrow> tstep si gs (save_group g' gs)"
| create: "gid \<notin> pg_id ` set gs \<Longrightarrow> create_group si gid cfg gs = Inr gs' \<Longrightarrow> tstep si gs gs'"
| update: "update_group si gid ed gs = Inr gs' \<Longrightarrow> tstep si gs gs'"
| delete: "delete_group gid gs = Inr gs' \<Longrightarrow> tstep si gs gs'"

definition table_ok :: "pgroup list \<Rightarrow> bool" where
  "table_ok gs \<longleftrightarrow>
     distinct (map pg_id gs) \<and> (\<forall>g \<in> set gs. group_ok g) \<and>
     (\<forall>g \<in> set gs. \<forall>h \<in> set gs. pg_id g \<noteq> pg_id h \<longrightarrow> set (pg_members g) \<inter> set (pg_members h) = {})"

lemma save_group_set: "set (save_group g gs) \<subseteq> insert g {h \<in> set gs. pg_id h \<noteq> pg_id g}"
  by (auto simp: save_group_def)

lemma save_group_ok:
  assumes ok: "table_ok gs" and g: "group_ok g"
    and dis: "\<forall>h \<in> set gs. pg_id h \<noteq> pg_id g \<longrightarrow> set (pg_members h) \<inter> set (pg_members g) = {}"
  shows "table_ok (save_group g gs)"
proof -
  have "map pg_id (save_group g gs) = map pg_id gs" by (induction gs) (auto simp: save_group_def)
  moreover have el: "h = g \<or> h \<in> set gs \<and> pg_id h \<noteq> pg_id g" if "h \<in> set (save_group g gs)" for h
    using that save_group_set [of g gs] by blast
  moreover have "set (pg_members h) \<inter> set (pg_members k) = {}"
    if "h \<in> set (save_group g gs)" "k \<in> set (save_group g gs)" "pg_id h \<noteq> pg_id k" for h k
    using el [OF that(1)] el [OF that(2)] that(3) dis ok unfolding table_ok_def
    by (elim disjE conjE) (metis Int_commute)+
  ultimately show ?thesis
    using ok g unfolding table_ok_def by metis
qed

lemma tstep_ok:
  assumes si: "si_players si [] = None" and st: "tstep si gs gs'" and ok: "table_ok gs"
  shows "table_ok gs'"
  using st
proof cases
  case (change g g')
  then have "group_ok g'" and f: "pg_id g' = pg_id g" "pg_members g' = pg_members g"
    using gstep_ok gstep_frame ok by (auto simp: table_ok_def)
  then show ?thesis
    using change ok unfolding change(1) by (intro save_group_ok) (auto simp: table_ok_def)
next
  case (create gid cfg)
  obtain upd where v: "validate_config si gs cfg None = Inr upd" and e: "gs' = gs @ [upd (empty_group gid)]"
    using create(2) by (auto simp: create_group_def split: sum.splits)
  note f = upd_frame [OF v]
  have "pg_id (upd (empty_group gid)) = gid" using f(1) by (simp add: empty_group_def)
  then show ?thesis
    using ok create(1) created_ok [OF v si, of gid] f(5) [of "empty_group gid"]
    unfolding table_ok_def e by (auto simp: Int_commute)
next
  case (update gid ed)
  obtain g upd where g: "get_group gs gid = Some g"
    and v: "validate_config si gs (ed (config_of g)) (Some (pg_id g)) = Inr upd"
    and e: "gs' = save_group (settle_members (upd g)) gs"
    using update by (auto simp: update_group_def split: option.splits sum.splits)
  have "g \<in> set gs" using g by (auto simp: get_group_def find_Some_iff)
  then have "group_ok (settle_members (upd g))" using settled_ok [OF _ v si] ok by (auto simp: table_ok_def)
  then show ?thesis
    unfolding e using upd_frame [OF v] by (intro save_group_ok [OF ok]) auto
next
  case (delete gid)
  then have "gs' = filter (\<lambda>g. pg_id g \<noteq> gid) gs" by (auto simp: delete_group_def split: option.splits)
  then show ?thesis using ok by (auto simp: table_ok_def distinct_map_filter)
qed

lemma tsteps_ok:
  "(tstep si)\<^sup>*\<^sup>* gs gs' \<Longrightarrow> si_players si [] = None \<Longrightarrow> table_ok gs \<Longrightarrow> table_ok gs'"
  by (induction rule: rtranclp_induct) (blast intro: tstep_ok)+

end
