(* ===== verification/Playout_Engine.thy ===== *)
theory Playout_Engine
  imports Playout_Table
begin

text \<open>
  The engine of the playout groups (class \<open>Engine\<close> of \<open>app/playout_groups.py\<close>): the commands
  \<open>play\<close> and \<open>cue\<close> and the pass the loop makes over a group.

  The engine's world is a parameter: the containers of the site, the answer of a player to a request
  and the clock, both of which may depend on the requests sent so far, the fetch service, the readings
  of the mixer and of the console.  The requests are logged in the state; an exception is a value.
\<close>

subsection \<open>The world\<close>

record player =
  pl_vmid :: int
  pl_running :: bool

record console =
  co_vmid :: int
  co_running :: bool
  co_strips :: "string list"

datatype request =
    Get_state int
  | Post_play int
  | Post_pause int
  | Post_file int item
  | Post_queue_clear int

text \<open>\<open>rp_obs\<close> is the body as the \<open>/state\<close> of a player (\<open>None\<close>: not a dictionary).\<close>

record reply =
  rp_code :: int
  rp_obs :: "obs option"
  rp_missing :: bool
  rp_error :: "string option"

record fetch =
  fe_job :: "string option"
  fe_state :: string
  fe_error :: "string option"

record world =
  w_players :: "string \<rightharpoonup> player"
  w_http :: "request list \<Rightarrow> request \<Rightarrow> reply"
  w_now :: "request list \<Rightarrow> rat"
  w_fetch_start :: "string \<Rightarrow> int \<Rightarrow> string + fetch"
  w_fetch_get :: "string \<Rightarrow> fetch option"
  w_mixers :: "string \<rightharpoonup> int"
  w_consoles :: "string \<rightharpoonup> console"
  w_console_view :: "int \<Rightarrow> string option"
  w_console_doc :: "int \<Rightarrow> cdoc option"
  w_audio :: audio

definition active_fetch :: "string list" where
  "active_fetch = [''queued'', ''copying'', ''verifying'']"

definition mixer_fresh_s :: rat where "mixer_fresh_s = 3"
definition console_poll_s :: rat where "console_poll_s = 1 / 2"
definition console_doc_poll_s :: rat where "console_doc_poll_s = 1"
definition poll_members_s :: rat where "poll_members_s = 1"

subsection \<open>The state of the engine\<close>

text \<open>What is known of one output.  \<open>rt_fetch\<close> goes with the item it is for.\<close>

record rt =
  rt_obs :: "obs option"
  rt_reachable :: bool
  rt_cmd :: "string option"
  rt_cmd_at :: rat
  rt_fetch :: "(fetch \<times> string) option"
  rt_fetch_at :: rat
  rt_error :: "string option"
  rt_joined :: bool
  rt_vmid :: "int option"

record take =
  tk_member :: string
  tk_item :: string
  tk_since :: rat
  tk_source :: string

record failure =
  fl_at :: rat
  fl_output :: string
  fl_item :: string
  fl_reason :: string
  fl_source :: string

record take_alert =
  ta_group :: string
  ta_output :: string
  ta_item :: string
  ta_reason :: string
  ta_vmid :: "int option"

record endwatch =
  ew_item :: "string option"
  ew_pos :: "rat option"
  ew_fired :: bool

record eng =
  e_rt :: "int \<times> string \<rightharpoonup> rt"
  e_views :: "string \<rightharpoonup> mstate option \<times> rat"
  e_console_cache :: "string \<rightharpoonup> string option \<times> rat"
  e_doc_cache :: "string \<rightharpoonup> cdoc option \<times> rat"
  e_endwatch :: "int \<rightharpoonup> endwatch"
  e_why :: "int \<times> string \<rightharpoonup> string"
  e_program_prev :: "int \<Rightarrow> string set option"
  e_pending :: "int \<rightharpoonup> take"
  e_failures :: "int \<rightharpoonup> failure"
  e_alerts :: "take_alert list"
  e_log :: "request list"
  e_last_poll :: rat
  e_errors :: nat

definition new_rt :: rt where
  "new_rt = \<lparr>rt_obs = None, rt_reachable = False, rt_cmd = None, rt_cmd_at = 0, rt_fetch = None,
             rt_fetch_at = 0, rt_error = None, rt_joined = False, rt_vmid = None\<rparr>"

definition new_engine :: eng where
  "new_engine = \<lparr>e_rt = Map.empty, e_views = Map.empty, e_console_cache = Map.empty,
     e_doc_cache = Map.empty, e_endwatch = Map.empty, e_why = Map.empty, e_program_prev = (\<lambda>_. None),
     e_pending = Map.empty, e_failures = Map.empty, e_alerts = [], e_log = [], e_last_poll = 0,
     e_errors = 0\<rparr>"

definition rt_of :: "eng \<Rightarrow> int \<Rightarrow> string \<Rightarrow> rt" where
  "rt_of e gid u = (case e_rt e (gid, u) of None \<Rightarrow> new_rt | Some r \<Rightarrow> r)"

definition set_rt :: "int \<Rightarrow> string \<Rightarrow> (rt \<Rightarrow> rt) \<Rightarrow> eng \<Rightarrow> eng" where
  "set_rt gid u f e = e\<lparr>e_rt := (e_rt e)((gid, u) \<mapsto> f (rt_of e gid u))\<rparr>"

definition http :: "world \<Rightarrow> request \<Rightarrow> eng \<Rightarrow> eng \<times> reply" where
  "http w rq e = (e\<lparr>e_log := e_log e @ [rq]\<rparr>, w_http w (e_log e) rq)"

definition now_of :: "world \<Rightarrow> eng \<Rightarrow> rat" where
  "now_of w e = w_now w (e_log e)"

definition member_letter :: "pgroup \<Rightarrow> string \<Rightarrow> string option" where
  "member_letter g u = map_option letter (find_index (\<lambda>m. m = u) (pg_members g))"

subsection \<open>Commands\<close>

text \<open>\<open>_load\<close>: \<open>POST /file\<close> with the cue; a media missing on the player is fetched.\<close>

definition load :: "world \<Rightarrow> int \<Rightarrow> string \<Rightarrow> int \<Rightarrow> item \<Rightarrow> eng \<Rightarrow> eng \<times> bool" where
  "load w gid u vmid it e =
     (let e = set_rt gid u (\<lambda>r. r\<lparr>rt_cmd := Some (it_id it), rt_cmd_at := now_of w e, rt_error := None\<rparr>) e;
          (e, rp) = http w (Post_file vmid it) e
      in if rp_code rp = 200 then (e, True)
         else if rp_code rp = 409 \<and> rp_missing rp \<and> some_text (it_asset it) then
           (case w_fetch_start w (or_empty (it_asset it)) vmid of
              Inr j \<Rightarrow> (set_rt gid u (\<lambda>r. r\<lparr>rt_fetch := Some (j, it_id it), rt_fetch_at := now_of w e\<rparr>) e, False)
            | Inl msg \<Rightarrow> (set_rt gid u (\<lambda>r. r\<lparr>rt_error := Some (''fetch: '' @ msg)\<rparr>) e, False))
         else (set_rt gid u (\<lambda>r. r\<lparr>rt_error := Some (if some_text (rp_error rp) then or_empty (rp_error rp)
                                                    else ''HTTP '' @ str_int (rp_code rp))\<rparr>) e, False))"

text \<open>\<open>_fail\<close>: a take that failed is forgotten, and said.\<close>

definition fail_take :: "world \<Rightarrow> pgroup \<Rightarrow> string \<Rightarrow> item option \<Rightarrow> string \<Rightarrow> string \<Rightarrow> eng \<Rightarrow> eng" where
  "fail_take w g u it reason source e =
     (let out = (case member_letter g u of Some l \<Rightarrow> l | None \<Rightarrow> ''?'') in
      e\<lparr>e_pending := (e_pending e)(pg_id g := None),
        e_failures := (e_failures e)(pg_id g \<mapsto>
          \<lparr>fl_at = now_of w e, fl_output = out, fl_item = item_label it, fl_reason = reason,
           fl_source = source\<rparr>),
        e_alerts := e_alerts e @ [\<lparr>ta_group = pg_name g, ta_output = out, ta_item = item_label it,
           ta_reason = reason, ta_vmid = map_option pl_vmid (w_players w u)\<rparr>]\<rparr>)"

datatype played = Resumed | Waiting item

definition play :: "world \<Rightarrow> pgroup \<Rightarrow> string \<Rightarrow> string \<Rightarrow> eng \<Rightarrow> eng \<times> (perr + played)" where
  "play w g u source e =
     (if e_pending e (pg_id g) \<noteq> None then (e, Inl (PlayoutError ''take_pending''))
      else if u \<notin> set (pg_members g) then (e, Inl (PyError ''ValueError''))
      else case w_players w u of
        None \<Rightarrow> (e, Inl (PlayoutError ''output_gone''))
      | Some c \<Rightarrow>
        if air g = Some u then
          (let (e, rp) = http w (Post_play (pl_vmid c)) e
           in if rp_code rp \<noteq> 200 then (e, Inl (PlayoutError ''play_failed'')) else (e, Inr Resumed))
        else
          let it = snd (plan_of g u) in
          if (case (it, next_target g) of
                (Some i, Some (n, t)) \<Rightarrow> it_id i \<noteq> it_id n \<and> pg_out_of_order g = Oo_refuse
              | _ \<Rightarrow> False)
          then (e, Inl (PlayoutError ''out_of_order''))
          else
            let (e, rp) = http w (Get_state (pl_vmid c)) e in
            if rp_code rp \<noteq> 200 then
              (fail_take w g u it ''unreachable'' source e, Inl (PlayoutError ''output_unreachable''))
            else
              (case it of
                 None \<Rightarrow> (fail_take w g u it ''not_cued'' source e, Inl (PlayoutError ''not_cued''))
               | Some i \<Rightarrow>
                 if \<not> matches (rp_obs rp) it \<or> fst (plan_of g u) \<noteq> Cue then
                   (fail_take w g u it ''not_cued'' source e, Inl (PlayoutError ''not_cued''))
                 else
                   let (e, rp) = http w (Post_play (pl_vmid c)) e in
                   if rp_code rp \<noteq> 200 then
                     (fail_take w g u it (''HTTP '' @ str_int (rp_code rp)) source e,
                      Inl (PlayoutError ''play_failed''))
                   else
                     (e\<lparr>e_pending := (e_pending e)(pg_id g \<mapsto>
                          \<lparr>tk_member = u, tk_item = it_id i, tk_since = now_of w e, tk_source = source\<rparr>),
                        e_failures := (e_failures e)(pg_id g := None)\<rparr>,
                      Inr (Waiting i))))"

definition cue :: "world \<Rightarrow> pgroup \<Rightarrow> string \<Rightarrow> eng \<Rightarrow> eng \<times> (perr + bool)" where
  "cue w g u e =
     (case w_players w u of
        None \<Rightarrow> (e, Inl (PlayoutError ''output_gone''))
      | Some c \<Rightarrow>
        if u \<notin> set (pg_members g) then (e, Inl (PyError ''KeyError''))
        else case snd (plan_of g u) of
          None \<Rightarrow> (let (e, rp) = http w (Post_pause (pl_vmid c)) e in (e, Inr (rp_code rp = 200)))
        | Some i \<Rightarrow> (let (e, ok) = load w (pg_id g) u (pl_vmid c) i e in (e, Inr ok)))"

subsection \<open>Readings\<close>

text \<open>\<open>_observe\<close>: the \<open>/state\<close> of an output; its own queue is cleared when it joins the group.\<close>

definition observe :: "world \<Rightarrow> int \<Rightarrow> string \<Rightarrow> eng \<Rightarrow> eng \<times> obs option" where
  "observe w gid u e =
     (case w_players w u of
        None \<Rightarrow> (set_rt gid u (\<lambda>r. r\<lparr>rt_reachable := False, rt_obs := None, rt_vmid := None\<rparr>) e, None)
      | Some c \<Rightarrow>
        if \<not> pl_running c then
          (set_rt gid u (\<lambda>r. r\<lparr>rt_reachable := False, rt_obs := None, rt_vmid := Some (pl_vmid c)\<rparr>) e, None)
        else
          let e = set_rt gid u (\<lambda>r. r\<lparr>rt_vmid := Some (pl_vmid c)\<rparr>) e;
              (e, rp) = http w (Get_state (pl_vmid c)) e
          in case (if rp_code rp = 200 then rp_obs rp else None) of
               None \<Rightarrow> (set_rt gid u (\<lambda>r. r\<lparr>rt_reachable := False\<rparr>) e, None)
             | Some st \<Rightarrow>
                 let e = set_rt gid u (\<lambda>r. r\<lparr>rt_reachable := True, rt_obs := Some st\<rparr>) e in
                 if rt_joined (rt_of e gid u) then (e, Some st)
                 else
                   let (e, _) = http w (Post_queue_clear (pl_vmid c)) e
                   in (set_rt gid u (\<lambda>r. r\<lparr>rt_joined := True\<rparr>) e, Some st))"

definition mixer_ref :: "string \<Rightarrow> string" where
  "mixer_ref m = ''uuid:'' @ m"

definition mixer_state :: "world \<Rightarrow> eng \<Rightarrow> pgroup \<Rightarrow> mstate reading" where
  "mixer_state w e g =
     (if \<not> some_text (pg_mixer g) then RNone
      else
        let m = or_empty (pg_mixer g) in
        if w_mixers w m = None then RMissing
        else case e_views e (mixer_ref m) of
               None \<Rightarrow> RUnreachable
             | Some (st, t) \<Rightarrow>
                 (case st of
                    None \<Rightarrow> RUnreachable
                  | Some s \<Rightarrow> if now_of w e - t > mixer_fresh_s then RUnreachable else RView s))"

definition program :: "world \<Rightarrow> eng \<Rightarrow> pgroup \<Rightarrow> string set option" where
  "program w e g =
     (case mixer_state w e g of
        RView st \<Rightarrow> program_members (w_audio w) st (pg_channels g)
      | _ \<Rightarrow> None)"

definition console_state :: "world \<Rightarrow> pgroup \<Rightarrow> rat \<Rightarrow> eng \<Rightarrow> eng \<times> string reading \<times> string list" where
  "console_state w g now e =
     (if \<not> some_text (pg_console g) then (e, RNone, [])
      else
        let cu = or_empty (pg_console g) in
        case w_consoles w cu of
          None \<Rightarrow> (e, RMissing, [])
        | Some c \<Rightarrow>
          let fresh = (case e_console_cache e cu of None \<Rightarrow> None
                       | Some (v, t) \<Rightarrow> if now - t \<ge> console_poll_s then None else Some (v, t));
              hit = (case fresh of Some h \<Rightarrow> h
                     | None \<Rightarrow> (if co_running c then w_console_view w (co_vmid c) else None, now));
              e = e\<lparr>e_console_cache := (e_console_cache e)(cu \<mapsto> hit)\<rparr>
          in (e, (case fst hit of None \<Rightarrow> RUnreachable | Some v \<Rightarrow> RView v), co_strips c))"

definition live_doc :: "world \<Rightarrow> pgroup \<Rightarrow> rat \<Rightarrow> eng \<Rightarrow> eng \<times> cdoc option" where
  "live_doc w g now e =
     (if \<not> some_text (pg_console g) then (e, None)
      else
        let cu = or_empty (pg_console g) in
        case w_consoles w cu of
          None \<Rightarrow> (e, None)
        | Some c \<Rightarrow>
          let fresh = (case e_doc_cache e cu of None \<Rightarrow> None
                       | Some (v, t) \<Rightarrow> if now - t \<ge> console_doc_poll_s then None else Some (v, t));
              hit = (case fresh of Some h \<Rightarrow> h | None \<Rightarrow> (w_console_doc w (co_vmid c), now));
              e = e\<lparr>e_doc_cache := (e_doc_cache e)(cu \<mapsto> hit)\<rparr>
          in (e, fst hit))"

end
