(* ===== verification/Playout_Pass.thy ===== *)
theory Playout_Pass
  imports Playout_Engine
begin

text \<open>
  One pass of the loop over a group (\<open>Engine._group\<close> of \<open>app/playout_groups.py\<close>): the pending
  take, the end of the clip, the mixer, the releases, the loads; and the pass over all the groups
  (\<open>Engine.tick\<close>).
\<close>

subsection \<open>The pending take\<close>

text \<open>
  \<open>_check_take\<close>.  The group comes back, changed when the take is acquired; the exceptions are
  \<open>list.index\<close> on a member that has left the group, after the acquisition, and the plan of such a
  member, after the time out.
\<close>

definition check_take :: "world \<Rightarrow> pgroup \<Rightarrow> eng \<Rightarrow> eng \<times> (perr + pgroup \<times> bool)" where
  "check_take w g e =
     (case e_pending e (pg_id g) of
        None \<Rightarrow> (e, Inr (g, False))
      | Some p \<Rightarrow>
        let u = tk_member p in
        case find_item (pg_items g) (tk_item p) of
          None \<Rightarrow> (fail_take w g u None ''item_removed'' (tk_source p) e, Inr (g, False))
        | Some i \<Rightarrow>
          let it = pg_items g ! i; (e, ob) = observe w (pg_id g) u e in
          if is_playing ob (Some it) then
            (let e' = e\<lparr>e_pending := (e_pending e)(pg_id g := None)\<rparr> in
             case confirm_take g u (it_id it) (now_of w e) of
               Inl err \<Rightarrow> (e, Inl err)
             | Inr g' \<Rightarrow> if u \<in> set (pg_members g) then (e', Inr (g', True))
                         else (e', Inl (PyError ''ValueError'')))
          else if now_of w e - tk_since p > take_timeout_s then
            (let e = fail_take w g u (Some it) ''not_observed'' (tk_source p) e in
             if (case program w e g of None \<Rightarrow> False | Some s \<Rightarrow> u \<in> s) then (e, Inr (g, False))
             else
               (case cue w g u e of
                  (e, Inl (PyError x)) \<Rightarrow> (e, Inl (PyError x))
                | (e, _) \<Rightarrow> (e, Inr (g, False))))
          else (e, Inr (g, False)))"

subsection \<open>The end of the clip on air\<close>

definition clip_ended :: "rat option \<Rightarrow> obs \<Rightarrow> bool" where
  "clip_ended prev ob =
     (ob_eof ob \<or>
      (case prev of None \<Rightarrow> False
       | Some p \<Rightarrow> ob_duration ob > 0 \<and> p \<ge> ob_duration ob - end_wrap_s \<and> ob_position ob < p - 1))"

definition end_of_clip :: "world \<Rightarrow> pgroup \<Rightarrow> eng \<Rightarrow> eng" where
  "end_of_clip w g e =
     (case air g of
        None \<Rightarrow> e
      | Some a \<Rightarrow>
        if \<not> pg_auto_next g \<or> e_pending e (pg_id g) \<noteq> None then e
        else
          let (e, ob) = observe w (pg_id g) a e;
              it = air_item g;
              ew = (case e_endwatch e (pg_id g) of
                      Some x \<Rightarrow> if ew_item x = pg_cursor g then x
                                else \<lparr>ew_item = pg_cursor g, ew_pos = None, ew_fired = False\<rparr>
                    | None \<Rightarrow> \<lparr>ew_item = pg_cursor g, ew_pos = None, ew_fired = False\<rparr>);
              e = e\<lparr>e_endwatch := (e_endwatch e)(pg_id g \<mapsto> ew)\<rparr>
          in case ob of
               None \<Rightarrow> e
             | Some st \<Rightarrow>
               if \<not> matches ob it \<or> ew_fired ew then e
               else
                 let ended = clip_ended (ew_pos ew) st;
                     ew = ew\<lparr>ew_pos := Some (ob_position st)\<rparr>;
                     e = e\<lparr>e_endwatch := (e_endwatch e)(pg_id g \<mapsto> ew)\<rparr>
                 in case next_target g of
                      None \<Rightarrow> e
                    | Some (n, t) \<Rightarrow>
                      if \<not> ended then e
                      else fst (play w g t ''auto_next''
                             (e\<lparr>e_endwatch := (e_endwatch e)(pg_id g \<mapsto> ew\<lparr>ew_fired := True\<rparr>)\<rparr>)))"

subsection \<open>The mixer\<close>

definition mixer_trigger :: "world \<Rightarrow> pgroup \<Rightarrow> string set option \<Rightarrow> eng \<Rightarrow> eng" where
  "mixer_trigger w g prog e =
     (let before = e_program_prev e (pg_id g);
          e = e\<lparr>e_program_prev := (e_program_prev e)(pg_id g := prog)\<rparr>
      in if pg_trigger g = By_mixer \<and> e_pending e (pg_id g) = None then
           (case mixer_should_play g prog before of
              None \<Rightarrow> e
            | Some u \<Rightarrow> fst (play w g u ''mixer'' e))
         else e)"

subsection \<open>The releases\<close>

definition release_one :: "world \<Rightarrow> pgroup \<Rightarrow> rat \<Rightarrow> mstate reading \<Rightarrow> int \<Rightarrow> string reading \<Rightarrow> string list
    \<Rightarrow> string \<Rightarrow> eng \<times> string list \<Rightarrow> eng \<times> string list" where
  "release_one w g now mst n_in cview strips u st =
     (case st of (e, rel) \<Rightarrow>
        let (e, r) = (case release_by_fader (w_audio w) g u mst n_in cview strips of
                        Inl r \<Rightarrow> (e, r)
                      | Inr sid \<Rightarrow> (case live_doc w g now e of (e, d) \<Rightarrow> (e, release_by_doc d sid)))
        in (case r of
              Inl why \<Rightarrow> (e\<lparr>e_why := (e_why e)((pg_id g, u) \<mapsto> why)\<rparr>, rel)
            | Inr _ \<Rightarrow> (e\<lparr>e_why := (e_why e)((pg_id g, u) := None)\<rparr>, rel @ [u])))"

definition releases :: "world \<Rightarrow> pgroup \<Rightarrow> rat \<Rightarrow> eng \<Rightarrow> eng \<times> string list" where
  "releases w g now e =
     (if pg_release g = [] then (e, [])
      else
        let mst = mixer_state w e g;
            n_in = (case pg_mixer g of None \<Rightarrow> 0
                    | Some m \<Rightarrow> (case w_mixers w m of None \<Rightarrow> 0 | Some n \<Rightarrow> n));
            (e, cview, strips) = (if pg_auto_release g then console_state w g now e else (e, RNone, []))
        in fold (release_one w g now mst n_in cview strips) (map fst (pg_release g)) (e, []))"

text \<open>The CUE of the released outputs; a \<open>PlayoutError\<close> is logged, another exception ends the pass.\<close>

fun cue_all :: "world \<Rightarrow> pgroup \<Rightarrow> string list \<Rightarrow> eng \<Rightarrow> eng \<times> perr option" where
  "cue_all w g [] e = (e, None)"
| "cue_all w g (u # us) e =
     (case cue w g u e of
        (e, Inl (PyError x)) \<Rightarrow> (e, Some (PyError x))
      | (e, _) \<Rightarrow> cue_all w g us e)"

subsection \<open>The loads\<close>

text \<open>What a fetch under way says of an output: wait, wait and show the failure, or load.\<close>

datatype fetch_step = Fetching_on | Fetch_failed string | Load_now

definition fetch_verdict :: "rat \<Rightarrow> rt \<Rightarrow> fetch \<Rightarrow> fetch_step" where
  "fetch_verdict now r f =
     (if fe_state f \<in> set active_fetch then Fetching_on
      else if fe_state f = ''failed'' \<and> now - rt_fetch_at r < fetch_retry_s then
        Fetch_failed (''fetch: '' @ (if some_text (fe_error f) then or_empty (fe_error f) else ''failed''))
      else Load_now)"

definition load_member :: "world \<Rightarrow> pgroup \<Rightarrow> rat \<Rightarrow> string set option \<Rightarrow> string option \<Rightarrow> string \<Rightarrow> eng \<Rightarrow> eng" where
  "load_member w g now prog taking u e =
     (let gid = pg_id g; r = rt_of e gid u in
      case plan_of g u of
        (Cue, Some it) \<Rightarrow>
          (case w_players w u of
             None \<Rightarrow> e
           | Some c \<Rightarrow>
             if taking = Some u \<or> \<not> rt_reachable r \<or> (case prog of None \<Rightarrow> False | Some s \<Rightarrow> u \<in> s)
                \<or> matches (rt_obs r) (Some it) then e
             else
               (case rt_fetch r of
                  Some (f, i) \<Rightarrow>
                    if i = it_id it then
                      let f = (case (if some_text (fe_job f) then w_fetch_get w (or_empty (fe_job f)) else None) of
                                 Some j \<Rightarrow> j | None \<Rightarrow> f)
                      in (case fetch_verdict now r f of
                            Fetching_on \<Rightarrow> set_rt gid u (\<lambda>r. r\<lparr>rt_fetch := Some (f, i)\<rparr>) e
                          | Fetch_failed msg \<Rightarrow>
                              set_rt gid u (\<lambda>r. r\<lparr>rt_fetch := Some (f, i), rt_error := Some msg\<rparr>) e
                          | Load_now \<Rightarrow>
                              fst (load w gid u (pl_vmid c) it (set_rt gid u (\<lambda>r. r\<lparr>rt_fetch := None\<rparr>) e)))
                    else if rt_cmd r = Some (it_id it) \<and> now - rt_cmd_at r < cmd_retry_s then e
                    else fst (load w gid u (pl_vmid c) it e)
                | None \<Rightarrow>
                    if rt_cmd r = Some (it_id it) \<and> now - rt_cmd_at r < cmd_retry_s then e
                    else fst (load w gid u (pl_vmid c) it e)))
      | _ \<Rightarrow> e)"

definition loads :: "world \<Rightarrow> pgroup \<Rightarrow> rat \<Rightarrow> string set option \<Rightarrow> eng \<Rightarrow> eng" where
  "loads w g now prog e =
     fold (load_member w g now prog (map_option tk_member (e_pending e (pg_id g)))) (pg_members g) e"

subsection \<open>The pass\<close>

text \<open>The table after the pass, the engine, and the exception that ended it, if any.\<close>

definition group_pass :: "world \<Rightarrow> int \<Rightarrow> pgroup list \<Rightarrow> eng \<Rightarrow> pgroup list \<times> eng \<times> perr option" where
  "group_pass w gid gs e =
     (case get_group gs gid of
        None \<Rightarrow> (gs, e, None)
      | Some g \<Rightarrow>
        let now = now_of w e; prog = program w e g in
        case check_take w g e of
          (e, Inl err) \<Rightarrow> (gs, e, Some err)
        | (e, Inr (g, changed)) \<Rightarrow>
          let e = end_of_clip w g e;
              e = mixer_trigger w g prog e;
              (e, rel) = releases w g now e;
              g = (if rel = [] then g
                   else g\<lparr>pg_release := filter (\<lambda>(u, t). u \<notin> set rel) (pg_release g)\<rparr>);
              gs = (if changed \<or> rel \<noteq> [] then save_group g gs else gs)
          in case cue_all w g rel e of
               (e, Some err) \<Rightarrow> (gs, e, Some err)
             | (e, None) \<Rightarrow> (gs, loads w g now prog e, None))"

subsection \<open>The tick\<close>

definition poll :: "world \<Rightarrow> pgroup list \<Rightarrow> eng \<Rightarrow> eng" where
  "poll w gs e = fold (\<lambda>g. fold (\<lambda>u e. fst (observe w (pg_id g) u e)) (pg_members g)) gs e"

definition forget :: "int \<Rightarrow> eng \<Rightarrow> eng" where
  "forget gid e =
     e\<lparr>e_rt := (\<lambda>k. if fst k = gid then None else e_rt e k),
       e_program_prev := (e_program_prev e)(gid := None), e_pending := (e_pending e)(gid := None),
       e_failures := (e_failures e)(gid := None), e_endwatch := (e_endwatch e)(gid := None),
       e_why := (\<lambda>k. if fst k = gid then None else e_why e k)\<rparr>"

text \<open>\<open>gone\<close> lists the groups the engine knows and the table no longer has.\<close>

definition tick :: "world \<Rightarrow> int list \<Rightarrow> pgroup list \<Rightarrow> eng \<Rightarrow> pgroup list \<times> eng" where
  "tick w known gs e =
     (let now = now_of w e;
          e = (if now - e_last_poll e \<ge> poll_members_s then poll w gs (e\<lparr>e_last_poll := now\<rparr>) else e);
          (gs', e) = fold (\<lambda>g (gs, e). case group_pass w (pg_id g) gs e of
                              (gs, e, None) \<Rightarrow> (gs, e)
                            | (gs, e, Some _) \<Rightarrow> (gs, e\<lparr>e_errors := e_errors e + 1\<rparr>)) gs (gs, e)
      in (gs', fold forget (filter (\<lambda>k. k \<notin> set (map pg_id gs)) known) e))"

subsection \<open>Operations of the interface\<close>

definition need :: "pgroup list \<Rightarrow> int \<Rightarrow> perr + pgroup" where
  "need gs gid = (case get_group gs gid of None \<Rightarrow> Inl (PlayoutError ''unknown_group'') | Some g \<Rightarrow> Inr g)"

definition op_play :: "world \<Rightarrow> pgroup list \<Rightarrow> int \<Rightarrow> string \<Rightarrow> string \<Rightarrow> eng \<Rightarrow> eng \<times> (perr + played)" where
  "op_play w gs gid out source e =
     (case need gs gid of
        Inl err \<Rightarrow> (e, Inl err)
      | Inr g \<Rightarrow> (case member_by_letter g out of Inl err \<Rightarrow> (e, Inl err) | Inr u \<Rightarrow> play w g u source e))"

definition op_next :: "world \<Rightarrow> pgroup list \<Rightarrow> int \<Rightarrow> string \<Rightarrow> eng \<Rightarrow> eng \<times> (perr + played)" where
  "op_next w gs gid source e =
     (case need gs gid of
        Inl err \<Rightarrow> (e, Inl err)
      | Inr g \<Rightarrow> (case next_target g of
                   None \<Rightarrow> (e, Inl (PlayoutError ''end_of_playlist''))
                 | Some (it, t) \<Rightarrow> play w g t source e))"

definition op_cue :: "world \<Rightarrow> pgroup list \<Rightarrow> int \<Rightarrow> string \<Rightarrow> eng \<Rightarrow> pgroup list \<times> eng \<times> (perr + bool)" where
  "op_cue w gs gid out e =
     (case need gs gid of
        Inl err \<Rightarrow> (gs, e, Inl err)
      | Inr g \<Rightarrow>
        (case member_by_letter g out of
           Inl err \<Rightarrow> (gs, e, Inl err)
         | Inr u \<Rightarrow>
           if map_option tk_member (e_pending e (pg_id g)) = Some u then (gs, e, Inl (PlayoutError ''take_pending''))
           else
             let g = stop_air g u in
             case cue w g u e of (e, r) \<Rightarrow> (save_group g gs, e, r)))"

definition op_item :: "pgroup list \<Rightarrow> int \<Rightarrow> string \<Rightarrow> string \<Rightarrow> op_value \<Rightarrow> perr + pgroup list" where
  "op_item gs gid op c v =
     (case need gs gid of
        Inl err \<Rightarrow> Inl err
      | Inr g \<Rightarrow> (case item_op g op c v of Inl err \<Rightarrow> Inl err | Inr g' \<Rightarrow> Inr (save_group g' gs)))"

definition op_add :: "(nat \<Rightarrow> string) \<Rightarrow> pgroup list \<Rightarrow> int \<Rightarrow> raw_item list \<Rightarrow> string \<Rightarrow> perr + pgroup list \<times> item list" where
  "op_add fresh gs gid new mode =
     (case need gs gid of
        Inl err \<Rightarrow> Inl err
      | Inr g \<Rightarrow> (case add_items fresh g new mode of
                   Inl err \<Rightarrow> Inl err | Inr (g', news) \<Rightarrow> Inr (save_group g' gs, news)))"

definition op_reset :: "pgroup list \<Rightarrow> int \<Rightarrow> perr + pgroup list" where
  "op_reset gs gid =
     (case need gs gid of Inl err \<Rightarrow> Inl err | Inr g \<Rightarrow> Inr (save_group (reset g) gs))"

definition op_delete :: "pgroup list \<Rightarrow> int \<Rightarrow> eng \<Rightarrow> perr + pgroup list \<times> eng" where
  "op_delete gs gid e =
     (case delete_group gid gs of Inl err \<Rightarrow> Inl err | Inr gs' \<Rightarrow> Inr (gs', forget gid e))"

definition first_member_vmid :: "world \<Rightarrow> pgroup \<Rightarrow> int option" where
  "first_member_vmid w g =
     (case find (\<lambda>u. case w_players w u of None \<Rightarrow> False | Some c \<Rightarrow> pl_running c) (pg_members g) of
        None \<Rightarrow> None
      | Some u \<Rightarrow> map_option pl_vmid (w_players w u))"

definition group_of_member :: "pgroup list \<Rightarrow> string \<Rightarrow> pgroup option" where
  "group_of_member gs u = find (\<lambda>g. u \<in> set (pg_members g)) gs"

end
