(* ===== verification/Playout_Pass_Facts.thy ===== *)
theory Playout_Pass_Facts
  imports Playout_Pass "HOL-Library.Sublist"
begin

text \<open>
  What a pass of the engine sends to the players, what it keeps, and under which readings it acquires a
  take or releases an output.
\<close>

subsection \<open>What every step keeps\<close>

text \<open>An engine state later in the same pass: more requests sent, the same views of the mixers.\<close>

definition later :: "eng \<Rightarrow> eng \<Rightarrow> bool" where
  "later e e' \<longleftrightarrow> prefix (e_log e) (e_log e') \<and> e_views e' = e_views e"

named_theorems later_intro \<open>steps of the engine that lead to a later state\<close>

lemma later_refl [simp, later_intro]: "later e e"
  by (simp add: later_def)

lemma later_trans [trans]: "later a b \<Longrightarrow> later b c \<Longrightarrow> later a c"
  by (auto simp: later_def)

lemma set_rt_log [simp]: "e_log (set_rt gid u f e) = e_log e" "e_views (set_rt gid u f e) = e_views e"
  "e_pending (set_rt gid u f e) = e_pending e" "e_alerts (set_rt gid u f e) = e_alerts e"
  by (simp_all add: set_rt_def)

lemma http_log [simp]: "e_log (fst (http w rq e)) = e_log e @ [rq]" "e_views (fst (http w rq e)) = e_views e"
  "e_pending (fst (http w rq e)) = e_pending e" "snd (http w rq e) = w_http w (e_log e) rq"
  "e_alerts (fst (http w rq e)) = e_alerts e"
  by (simp_all add: http_def)

lemma fail_take_log [simp]: "e_log (fail_take w g u it r s e) = e_log e" "e_views (fail_take w g u it r s e) = e_views e"
  "e_pending (fail_take w g u it r s e) = (e_pending e)(pg_id g := None)"
  by (simp_all add: fail_take_def Let_def)

lemma fail_take_alert: "\<exists>a. e_alerts (fail_take w g u it r s e) = e_alerts e @ [a]"
  by (simp add: fail_take_def Let_def)

lemma load_log: "e_log (fst (load w gid u v it e)) = e_log e @ [Post_file v it]"
  "e_views (fst (load w gid u v it e)) = e_views e"
  "e_pending (fst (load w gid u v it e)) = e_pending e"
  by (simp_all add: load_def Let_def http_def split: sum.split prod.split)

lemma observe_log:
  "\<exists>l. e_log (fst (observe w gid u e)) = e_log e @ l \<and> (\<forall>v it. Post_file v it \<notin> set l) \<and> (\<forall>v. Post_play v \<notin> set l)"
  "e_views (fst (observe w gid u e)) = e_views e" "e_pending (fst (observe w gid u e)) = e_pending e"
  by (auto simp: observe_def Let_def http_def split: option.split prod.split)

lemma observe_obs:
  assumes "snd (observe w gid u e) = Some ob"
  shows "\<exists>c. w_players w u = Some c \<and> pl_running c \<and> rp_code (w_http w (e_log e) (Get_state (pl_vmid c))) = 200 \<and>
             rp_obs (w_http w (e_log e) (Get_state (pl_vmid c))) = Some ob"
  using assms by (auto simp: observe_def Let_def http_def split: option.splits if_splits prod.splits)

subsection \<open>PLAY\<close>

lemma play_log:
  assumes "play w g u source e = (e', r)"
  shows "\<exists>l. e_log e' = e_log e @ l \<and> (\<forall>v it. Post_file v it \<notin> set l) \<and> e_views e' = e_views e"
  using assms
  by (auto simp: play_def Let_def http_def split: if_splits option.splits prod.splits)

lemma play_later: "later e (fst (play w g u source e))"
  using play_log [of w g u source e] by (metis later_def prefixI prod.collapse)

text \<open>A player is started only on the item it is seen to hold, or resumed when it is on air.\<close>

definition started_cued :: "world \<Rightarrow> pgroup \<Rightarrow> string \<Rightarrow> eng \<Rightarrow> int \<Rightarrow> bool" where
  "started_cued w g u e v \<longleftrightarrow>
     (\<exists>c. w_players w u = Some c \<and> v = pl_vmid c \<and>
        (air g = Some u \<or>
         (\<exists>it. plan_of g u = (Cue, Some it) \<and> rp_code (w_http w (e_log e) (Get_state v)) = 200 \<and>
               matches (rp_obs (w_http w (e_log e) (Get_state v))) (Some it))))"

lemma play_started:
  assumes "play w g u source e = (e', r)" and "e_log e' = e_log e @ l" and "Post_play v \<in> set l"
  shows "started_cued w g u e v"
proof -
  obtain c where c: "e_pending e (pg_id g) = None" "u \<in> set (pg_members g)" "w_players w u = Some c"
    using assms by (auto simp: play_def split: if_splits option.splits)
  show ?thesis
  proof (cases "air g = Some u")
    case True
    then have "v = pl_vmid c" using assms c by (auto simp: play_def http_def Let_def split: if_splits)
    then show ?thesis using True c by (simp add: started_cued_def)
  next
    case False
    obtain ro it where p: "plan_of g u = (ro, it)" by fastforce
    show ?thesis
      using assms c False
      by (auto simp: play_def http_def Let_def p started_cued_def split: if_splits option.splits prod.splits)
  qed
qed

lemma play_result:
  assumes "play w g u source e = (e', r)"
  shows "case r of
           Inr Resumed \<Rightarrow> air g = Some u \<and> e_pending e' = e_pending e
         | Inr (Waiting it) \<Rightarrow>
             plan_of g u = (Cue, Some it) \<and> e_pending e (pg_id g) = None \<and>
             (\<exists>t. e_pending e' = (e_pending e)(pg_id g \<mapsto>
                \<lparr>tk_member = u, tk_item = it_id it, tk_since = t, tk_source = source\<rparr>))
         | Inl err \<Rightarrow>
             e_pending e' = e_pending e \<and>
             (err \<in> {PlayoutError ''take_pending'', PlayoutError ''output_gone'', PlayoutError ''out_of_order'',
                      PyError ''ValueError''} \<or>
              air g = Some u \<and> err = PlayoutError ''play_failed'' \<or>
              (\<exists>a. e_alerts e' = e_alerts e @ [a] \<and> ta_group a = pg_name g))"
proof -
  have pd: "e_pending e (pg_id g) = None \<Longrightarrow> (e_pending e)(pg_id g := None) = e_pending e" by (simp add: fun_upd_idem)
  have fa: "\<exists>a. e_alerts (fail_take w g u it r s (e\<lparr>e_log := l\<rparr>)) = e_alerts e @ [a] \<and> ta_group a = pg_name g" for it r s l
    by (simp add: fail_take_def Let_def)
  obtain ro it where p: "plan_of g u = (ro, it)" by fastforce
  show ?thesis
  proof (cases "e_pending e (pg_id g) \<noteq> None \<or> u \<notin> set (pg_members g) \<or> w_players w u = None \<or> air g = Some u")
    case True
    then show ?thesis using assms
      by (auto simp: play_def http_def Let_def split: if_splits option.splits)
  next
    case False
    then obtain c where c: "w_players w u = Some c" by (cases "w_players w u") auto
    have n: "e_pending e (pg_id g) = None" using False by blast
    show ?thesis
      using assms False n pd [OF n] fa
      by (cases it) (auto simp: play_def http_def Let_def p c split: if_splits)
  qed
qed

lemma play_pending_other: "k \<noteq> pg_id g \<Longrightarrow> e_pending (fst (play w g u source e)) k = e_pending e k"
  using play_result [of w g u source e] by (cases "play w g u source e")
    (auto split: sum.splits played.splits)

subsection \<open>CUE and the pending take\<close>

lemma cue_log:
  "\<exists>l. e_log (fst (cue w g u e)) = e_log e @ l \<and> length l \<le> 1 \<and> (\<forall>v. Post_play v \<notin> set l) \<and>
       (\<forall>v it. Post_file v it \<in> set l \<longrightarrow> snd (plan_of g u) = Some it \<and> (\<exists>c. w_players w u = Some c \<and> v = pl_vmid c))"
  "e_views (fst (cue w g u e)) = e_views e" "e_pending (fst (cue w g u e)) = e_pending e"
proof -
  have l: "load w gid u v it e = (e1, b) \<Longrightarrow> e_log e1 = e_log e @ [Post_file v it] \<and> e_views e1 = e_views e \<and> e_pending e1 = e_pending e"
    for gid v it e1 b using load_log [of w gid u v it e] by simp
  show "\<exists>l. e_log (fst (cue w g u e)) = e_log e @ l \<and> length l \<le> 1 \<and> (\<forall>v. Post_play v \<notin> set l) \<and>
       (\<forall>v it. Post_file v it \<in> set l \<longrightarrow> snd (plan_of g u) = Some it \<and> (\<exists>c. w_players w u = Some c \<and> v = pl_vmid c))"
    by (auto simp: cue_def Let_def http_def dest: l split: option.split prod.split)
  show "e_views (fst (cue w g u e)) = e_views e" "e_pending (fst (cue w g u e)) = e_pending e"
    by (auto simp: cue_def Let_def http_def dest: l split: option.split prod.split)
qed

lemma cue_later: "later e (fst (cue w g u e))"
  using cue_log [of w g u e] by (auto simp: later_def)

lemma observe_later: "later e (fst (observe w gid u e))"
  using observe_log [of w gid u e] by (auto simp: later_def)

definition seen_playing :: "world \<Rightarrow> eng \<Rightarrow> string \<Rightarrow> item \<Rightarrow> bool" where
  "seen_playing w e u it \<longleftrightarrow>
     (\<exists>c ob. w_players w u = Some c \<and> pl_running c \<and>
        rp_code (w_http w (e_log e) (Get_state (pl_vmid c))) = 200 \<and>
        rp_obs (w_http w (e_log e) (Get_state (pl_vmid c))) = Some ob \<and> is_playing (Some ob) (Some it))"

subsection \<open>The files sent\<close>

text \<open>
  The files sent between two states all satisfy a condition, that depends on the log of the requests sent before.
\<close>

definition sent :: "(request list \<Rightarrow> int \<Rightarrow> item \<Rightarrow> bool) \<Rightarrow> eng \<Rightarrow> eng \<Rightarrow> bool" where
  "sent P e e' \<longleftrightarrow>
     e_views e' = e_views e \<and>
     (\<exists>l. e_log e' = e_log e @ l \<and> (\<forall>l1 v it l2. l = l1 @ Post_file v it # l2 \<longrightarrow> P (e_log e @ l1) v it))"

lemma sent_refl [simp]: "sent P e e"
  by (simp add: sent_def)

lemma split_append:
  assumes "l @ k = l1 @ x # l2"
  obtains k1 where "l = l1 @ x # k1" | k1 where "l1 = l @ k1" and "k = k1 @ x # l2"
proof -
  obtain us where "l = l1 @ us \<and> us @ k = x # l2 \<or> l @ us = l1 \<and> k = us @ x # l2"
    using assms by (auto simp: append_eq_append_conv2)
  then show ?thesis using that by (cases us) auto
qed

lemma sent_trans: "sent P a b \<Longrightarrow> sent P b c \<Longrightarrow> sent P a c"
proof -
  assume "sent P a b" and "sent P b c"
  then obtain l k where l: "e_log b = e_log a @ l" "\<And>l1 v it l2. l = l1 @ Post_file v it # l2 \<Longrightarrow> P (e_log a @ l1) v it"
    and k: "e_log c = e_log b @ k" "\<And>l1 v it l2. k = l1 @ Post_file v it # l2 \<Longrightarrow> P (e_log b @ l1) v it" and v: "e_views c = e_views a"
    unfolding sent_def by force
  have "P (e_log a @ l1) v it" if "l @ k = l1 @ Post_file v it # l2" for l1 v it l2
    using that
  proof (cases rule: split_append)
    case (1 k1)
    then show ?thesis by (rule l(2))
  next
    case (2 k1)
    then show ?thesis using k(2) [of k1 v it l2] l(1) by simp
  qed
  then show ?thesis unfolding sent_def using l(1) k(1) v by (intro conjI exI [of _ "l @ k"]) auto
qed

lemma sent_later: "sent P e e' \<Longrightarrow> later e e'"
  by (auto simp: sent_def later_def)

lemma sent_set_rt [simp]: "sent P e (set_rt gid u f e)"
  by (simp add: sent_def)

lemma sent_none: "e_views e' = e_views e \<Longrightarrow> e_log e' = e_log e @ l \<Longrightarrow> \<forall>v it. Post_file v it \<notin> set l \<Longrightarrow> sent P e e'"
  unfolding sent_def by (intro conjI exI [of _ l]) (simp, simp, metis in_set_conv_decomp)

text \<open>A command that sends one request at most.\<close>

lemma sent_one:
  assumes "e_views e' = e_views e" and "e_log e' = e_log e @ l" and "length l \<le> 1"
    and "\<And>v it. Post_file v it \<in> set l \<Longrightarrow> P (e_log e) v it"
  shows "sent P e e'"
proof -
  have "P (e_log e @ l1) v it" if "l = l1 @ Post_file v it # l2" for l1 v it l2
    using that assms(3) assms(4) [of v it] by (cases l1) auto
  then show ?thesis unfolding sent_def using assms(1,2) by blast
qed

lemma load_sent: "P (e_log e) v it \<Longrightarrow> sent P e (fst (load w gid u v it e))"
  by (rule sent_one [of _ _ "[Post_file v it]"]) (auto simp: load_log)

lemma cue_sent:
  "(\<And>c it. w_players w u = Some c \<Longrightarrow> P (e_log e) (pl_vmid c) it) \<Longrightarrow> sent P e (fst (cue w g u e))"
proof -
  assume P: "\<And>c it. w_players w u = Some c \<Longrightarrow> P (e_log e) (pl_vmid c) it"
  obtain l where "e_log (fst (cue w g u e)) = e_log e @ l" "length l \<le> 1"
    "\<forall>v it. Post_file v it \<in> set l \<longrightarrow> (\<exists>c. w_players w u = Some c \<and> v = pl_vmid c)"
    using cue_log(1) [of w g u e] by blast
  then show ?thesis using P by (intro sent_one [of _ _ l]) (auto simp: cue_log(2))
qed

text \<open>
  When a file is sent in a pass that starts in \<open>e\<close>: the mixer, as read at the start, does not show the output (a load); or the output is the one of a take that timed
  out, and the mixer read just before does not show it; or, read in the pass before the request, the mixer could be read and did not show it (a release).
\<close>

definition file_ok :: "world \<Rightarrow> pgroup \<Rightarrow> eng \<Rightarrow> request list \<Rightarrow> int \<Rightarrow> item \<Rightarrow> bool" where
  "file_ok w g e rqs v it \<longleftrightarrow>
     (\<exists>u c. w_players w u = Some c \<and> v = pl_vmid c \<and>
        ((\<forall>S. program w e g = Some S \<longrightarrow> u \<notin> S) \<or>
         (\<exists>p. e_pending e (pg_id g) = Some p \<and> tk_member p = u) \<and> (\<forall>S. program w (e\<lparr>e_log := rqs\<rparr>) g = Some S \<longrightarrow> u \<notin> S) \<or>
         (\<exists>k S. prefix (e_log e) k \<and> prefix k rqs \<and> program w (e\<lparr>e_log := k\<rparr>) g = Some S \<and> u \<notin> S)))"

lemma program_at: "later e e' \<Longrightarrow> program w (e\<lparr>e_log := e_log e'\<rparr>) g = program w e' g"
proof -
  assume l: "later e e'"
  then have "now_of w (e\<lparr>e_log := e_log e'\<rparr>) = now_of w e'" "e_views (e\<lparr>e_log := e_log e'\<rparr>) = e_views e'"
    by (simp_all add: now_of_def later_def)
  then show ?thesis unfolding program_def mixer_state_def by presburger
qed

lemma program_cong:
  assumes "pg_mixer g' = pg_mixer g" and "pg_channels g' = pg_channels g"
  shows "program w e g' = program w e g"
  unfolding program_def mixer_state_def assms ..

lemma check_take_spec:
  assumes "check_take w g e = (e', r)"
  shows "later e e' \<and> sent (file_ok w g e) e e' \<and>
         (\<forall>g' ch. r = Inr (g', ch) \<longrightarrow>
            \<not> ch \<and> g' = g \<or>
            ch \<and> (\<exists>p i t. e_pending e (pg_id g) = Some p \<and> find_item (pg_items g) (tk_item p) = Some i \<and>
                     tk_member p \<in> set (pg_members g) \<and> seen_playing w e (tk_member p) (pg_items g ! i) \<and>
                     confirm_take g (tk_member p) (it_id (pg_items g ! i)) t = Inr g'))"
proof (cases "e_pending e (pg_id g)")
  case None
  then show ?thesis using assms by (auto simp: check_take_def)
next
  case (Some p)
  show ?thesis
  proof (cases "find_item (pg_items g) (tk_item p)")
    case None
    then show ?thesis using assms Some by (auto simp: check_take_def Let_def later_def intro: sent_none)
  next
    case i: (Some i)
    let ?u = "tk_member p" and ?it = "pg_items g ! i"
    obtain e1 ob where o1: "observe w (pg_id g) ?u e = (e1, ob)" by fastforce
    obtain l1 where l1: "e_log e1 = e_log e @ l1" "\<forall>v it. Post_file v it \<notin> set l1" and v1: "e_views e1 = e_views e"
      using observe_log [of w "pg_id g" ?u e] o1 by auto
    have lat1: "later e e1" using observe_later [of e w "pg_id g" ?u] o1 by simp
    have s1: "sent (file_ok w g e) e (e1\<lparr>e_pending := x\<rparr>)" "sent (file_ok w g e) e e1" for x
      by (rule sent_none [OF _ _ l1(2)], simp_all add: v1 l1(1))+
    show ?thesis
    proof (cases "is_playing ob (Some ?it)")
      case True
      then obtain o' where "ob = Some o'" by (cases ob) (auto simp: is_playing_def)
      then have seen: "seen_playing w e ?u ?it"
        using observe_obs [of w "pg_id g" ?u e] o1 True unfolding seen_playing_def by (metis snd_conv)
      have "later e (e1\<lparr>e_pending := x\<rparr>)" for x using lat1 by (simp add: later_def)
      then show ?thesis
        using assms s1 lat1 seen Some i True
        by (auto simp: check_take_def o1 Let_def split: sum.splits if_splits)
    next
      case False
      let ?e2 = "fail_take w g ?u (Some ?it) ''not_observed'' (tk_source p) e1"
      have lat2: "later e ?e2" using lat1 by (simp add: later_def)
      have s2: "sent (file_ok w g e) e ?e2" using sent_none [OF _ _ l1(2)] by (simp add: v1 l1(1))
      obtain e3 r3 where c3: "cue w g ?u ?e2 = (e3, r3)" by fastforce
      have lat3: "later e e3" using later_trans [OF lat2] cue_later [of ?e2 w g ?u] c3 by simp
      have off: "sent (file_ok w g e) e e3" if "\<not> (case program w ?e2 g of None \<Rightarrow> False | Some s \<Rightarrow> ?u \<in> s)"
      proof -
        have "\<forall>S. program w (e\<lparr>e_log := e_log ?e2\<rparr>) g = Some S \<longrightarrow> ?u \<notin> S" unfolding program_at [OF lat2, of w g] using that by (auto split: option.splits)
        then have "sent (file_ok w g e) ?e2 (fst (cue w g ?u ?e2))"
          using Some by (intro cue_sent) (auto simp: file_ok_def)
        then show ?thesis using sent_trans [OF s2] c3 by simp
      qed
      show ?thesis
        using assms lat1 lat2 lat3 s1 s2 off Some i False
        by (auto simp: check_take_def o1 c3 Let_def split: if_splits sum.splits perr.splits)
    qed
  qed
qed

subsection \<open>The steps after the take\<close>

definition quiet :: "eng \<Rightarrow> eng \<Rightarrow> bool" where
  "quiet e e' \<longleftrightarrow> e_views e' = e_views e \<and> (\<exists>l. e_log e' = e_log e @ l \<and> (\<forall>v it. Post_file v it \<notin> set l))"

lemma quiet_refl [simp]: "quiet e e"
  by (simp add: quiet_def)

lemma quiet_trans: "quiet a b \<Longrightarrow> quiet b c \<Longrightarrow> quiet a c"
  unfolding quiet_def by (metis Un_iff append.assoc set_append)

lemma quiet_later: "quiet e e' \<Longrightarrow> later e e'"
  by (auto simp: quiet_def later_def)

lemma quiet_sent: "quiet e e' \<Longrightarrow> sent P e e'"
  unfolding quiet_def by (blast intro: sent_none)

lemma quiet_update [simp]:
  "quiet e (e\<lparr>e_endwatch := x\<rparr>)" "quiet e (e\<lparr>e_program_prev := y\<rparr>)" "quiet e (e\<lparr>e_why := z\<rparr>)"
  "quiet e (e\<lparr>e_console_cache := c\<rparr>)" "quiet e (e\<lparr>e_doc_cache := d\<rparr>)"
  by (simp_all add: quiet_def)

lemma play_quiet: "quiet e (fst (play w g u source e))"
  using play_log [of w g u source e] by (metis quiet_def prod.collapse)

lemma observe_quiet: "quiet e (fst (observe w gid u e))"
  using observe_log [of w gid u e] by (auto simp: quiet_def)

lemma end_of_clip_quiet: "quiet e (end_of_clip w g e)"
proof (cases "air g")
  case (Some a)
  obtain e1 ob where o1: "observe w (pg_id g) a e = (e1, ob)" by fastforce
  have q1: "quiet e e1" using observe_quiet [of e w "pg_id g" a] o1 by simp
  have q2: "quiet e (e1\<lparr>e_endwatch := x\<rparr>)" for x by (rule quiet_trans [OF q1]) simp
  have q4: "quiet e (fst (play w g t s (e1\<lparr>e_endwatch := x\<rparr>)))" for t s x
    by (rule quiet_trans [OF q2 play_quiet])
  show ?thesis
    using q1 q2 q4 Some by (auto simp: end_of_clip_def o1 Let_def split: option.split prod.split)
qed (simp add: end_of_clip_def)

lemma mixer_trigger_quiet: "quiet e (mixer_trigger w g prog e)"
  by (auto simp: mixer_trigger_def Let_def split: option.split
      intro: quiet_trans [OF quiet_update(2) play_quiet])

lemma live_doc_quiet: "live_doc w g now e = (e', d) \<Longrightarrow> quiet e e'"
  by (auto simp: live_doc_def Let_def split: option.splits if_splits)

lemma console_state_quiet: "console_state w g now e = (e', v, s) \<Longrightarrow> quiet e e'"
  by (auto simp: console_state_def Let_def split: option.splits if_splits)

text \<open>
  Every output the pass releases has passed \<open>auto_release_check\<close> on what was read: the view of the
  mixer and of the console in a state \<open>e\<close> of the pass, the document of the console in a later one.
\<close>

definition release_checked :: "world \<Rightarrow> pgroup \<Rightarrow> rat \<Rightarrow> eng \<Rightarrow> string \<Rightarrow> bool" where
  "release_checked w g now e u \<longleftrightarrow>
     (\<exists>n_in e1. later e e1 \<and>
        auto_release_check (w_audio w) g u (mixer_state w e g) n_in (fst (snd (console_state w g now e)))
          (snd (snd (console_state w g now e))) (snd (live_doc w g now e1)) = Inr ())"

lemma release_one_spec:
  assumes "release_one w g now mst n_in cview strips u (e, rel) = (e', rel')"
  shows "quiet e e' \<and>
         (rel' = rel \<or> rel' = rel @ [u] \<and>
            auto_release_check (w_audio w) g u mst n_in cview strips (snd (live_doc w g now e)) = Inr ())"
proof (cases "release_by_fader (w_audio w) g u mst n_in cview strips")
  case (Inl r)
  then show ?thesis
    using assms by (auto simp: release_one_def Let_def auto_release_check_def split: sum.splits)
next
  case (Inr sid)
  obtain e1 d where d: "live_doc w g now e = (e1, d)" by fastforce
  have q: "quiet e e1" using live_doc_quiet [OF d] .
  have q': "quiet e (e1\<lparr>e_why := x\<rparr>)" for x by (rule quiet_trans [OF q]) simp
  show ?thesis
    using assms Inr q' by (auto simp: release_one_def Let_def d auto_release_check_def split: sum.splits)
qed

lemma release_fold_spec:
  "fold (release_one w g now mst n_in cview strips) us (e, rel) = (e', rel') \<Longrightarrow>
   quiet e e' \<and> (\<forall>u \<in> set rel'. u \<in> set rel \<or> u \<in> set us \<and>
     (\<exists>e1. later e e1 \<and>
        auto_release_check (w_audio w) g u mst n_in cview strips (snd (live_doc w g now e1)) = Inr ()))"
proof (induction us arbitrary: e rel)
  case (Cons u us)
  obtain e1 rel1 where s: "release_one w g now mst n_in cview strips u (e, rel) = (e1, rel1)" by fastforce
  note s1 = release_one_spec [OF s]
  have lat: "later e e1" using s1 quiet_later by blast
  have "fold (release_one w g now mst n_in cview strips) us (e1, rel1) = (e', rel')" using Cons.prems s by simp
  note ih = Cons.IH [OF this]
  have "quiet e e'" using s1 ih quiet_trans by blast
  moreover have "u' \<in> set rel \<or> u' \<in> set (u # us) \<and>
     (\<exists>e1. later e e1 \<and>
        auto_release_check (w_audio w) g u' mst n_in cview strips (snd (live_doc w g now e1)) = Inr ())"
    if "u' \<in> set rel'" for u'
  proof (cases "u' \<in> set rel1")
    case True
    then show ?thesis using s1 later_refl by (metis list.set_intros(1) rotate1.simps(2) set_ConsD set_rotate1)
  next
    case False
    then show ?thesis using ih that lat later_trans by (metis list.set_intros(2))
  qed
  ultimately show ?case by blast
qed simp

lemma releases_spec:
  assumes "releases w g now e = (e', rel)"
  shows "quiet e e' \<and> set rel \<subseteq> fst ` set (pg_release g) \<and> (\<forall>u \<in> set rel. release_checked w g now e u)"
proof (cases "pg_release g = []")
  case True
  then show ?thesis using assms by (simp add: releases_def)
next
  case False
  obtain e1 v s where c: "(if pg_auto_release g then console_state w g now e else (e, RNone, [])) = (e1, v, s)"
    by (metis prod_cases3)
  have q: "quiet e e1" using c console_state_quiet [of w g now e] by (auto split: if_splits)
  let ?n = "case pg_mixer g of None \<Rightarrow> 0 | Some m \<Rightarrow> (case w_mixers w m of None \<Rightarrow> 0 | Some n \<Rightarrow> n)"
  have "fold (release_one w g now (mixer_state w e g) ?n v s) (map fst (pg_release g)) (e1, []) = (e', rel)"
    using assms False c by (simp add: releases_def Let_def)
  note f = release_fold_spec [OF this]
  have "release_checked w g now e u" if ur: "u \<in> set rel" for u
  proof -
    obtain e2 where e2: "later e1 e2"
      "auto_release_check (w_audio w) g u (mixer_state w e g) ?n v s (snd (live_doc w g now e2)) = Inr ()"
      using f ur by auto
    then have "pg_auto_release g" by (auto simp: auto_release_check_def release_by_fader_def Let_def split: if_splits)
    then have "v = fst (snd (console_state w g now e))" and "s = snd (snd (console_state w g now e))" using c by auto
    then show ?thesis
      unfolding release_checked_def using e2 later_trans [OF quiet_later [OF q] e2(1)] by blast
  qed
  then show ?thesis using f quiet_trans [OF q] by auto
qed

lemma release_by_fader_mixer:
  assumes "release_by_fader au g u mst n_in cview strips = Inl (Inr ()) \<or>
           release_by_fader au g u mst n_in cview strips = Inr sid"
  shows "pg_auto_release g \<and>
    (\<exists>m mi used. mst = RView m \<and> mixer_used_inputs au m = Some used \<and>
       ch_mixer_input (channel_of g u) = Some mi \<and> mi \<notin> used)"
  using assms unfolding release_by_fader_def Let_def
  by (auto split: if_splits option.splits reading.splits)

lemma release_checked_mixer:
  assumes "release_checked w g now e u"
  shows "pg_auto_release g \<and>
    (\<exists>m mi used. mixer_state w e g = RView m \<and> mixer_used_inputs (w_audio w) m = Some used \<and>
       ch_mixer_input (channel_of g u) = Some mi \<and> mi \<notin> used)"
proof -
  obtain n_in cview strips doc where "auto_release_check (w_audio w) g u (mixer_state w e g) n_in cview strips doc = Inr ()"
    using assms by (auto simp: release_checked_def)
  then show ?thesis
    using release_by_fader_mixer [of "w_audio w" g u "mixer_state w e g" n_in cview strips]
    by (auto simp: auto_release_check_def split: sum.splits)
qed

lemma released_off_program:
  assumes "release_checked w g now e u" and "distinct (map fst (pg_channels g))"
  obtains S where "program w e g = Some S" and "u \<notin> S"
proof -
  obtain m mi used where m: "mixer_state w e g = RView m" "mixer_used_inputs (w_audio w) m = Some used"
    "ch_mixer_input (channel_of g u) = Some mi" "mi \<notin> used"
    using release_checked_mixer [OF assms(1)] by blast
  have "(u, ch) \<in> set (pg_channels g) \<Longrightarrow> channel_of g u = ch" for ch
    using assms(2) by (simp add: channel_of_def)
  then show ?thesis
    using m by (intro that) (auto simp: program_def program_members_def split: option.splits)
qed

lemma cue_all_sent:
  "(\<And>u c rqs it. u \<in> set us \<Longrightarrow> w_players w u = Some c \<Longrightarrow> prefix (e_log e) rqs \<Longrightarrow> P rqs (pl_vmid c) it) \<Longrightarrow>
   sent P e (fst (cue_all w g us e))"
proof (induction us arbitrary: e)
  case (Cons u us)
  obtain e1 r where c: "cue w g u e = (e1, r)" by fastforce
  have "sent P e (fst (cue w g u e))" by (rule cue_sent) (rule Cons.prems, simp_all)
  then have s: "sent P e e1" using c by simp
  have "prefix (e_log e) (e_log e1)" using sent_later [OF s] by (simp add: later_def)
  then have "sent P e1 (fst (cue_all w g us e1))" by (intro Cons.IH Cons.prems) (auto elim: prefix_order.trans)
  then have "sent P e (fst (cue_all w g us e1))" using sent_trans [OF s] by blast
  then show ?case using c s by (simp split: sum.split perr.split)
qed simp

lemma load_member_sent:
  assumes "\<And>c it rqs. w_players w u = Some c \<Longrightarrow> (\<forall>S. prog = Some S \<longrightarrow> u \<notin> S) \<Longrightarrow> plan_of g u = (Cue, Some it)
      \<Longrightarrow> P rqs (pl_vmid c) it"
  shows "sent P e (load_member w g now prog taking u e)"
proof (cases "\<exists>c it. w_players w u = Some c \<and> plan_of g u = (Cue, Some it) \<and> (\<forall>S. prog = Some S \<longrightarrow> u \<notin> S)")
  case True
  then obtain c it where p: "w_players w u = Some c" "plan_of g u = (Cue, Some it)" and P: "P rqs (pl_vmid c) it" for rqs
    using assms by blast
  have l: "sent P e (fst (load w k u (pl_vmid c) it e))" for e k by (rule load_sent) (rule P)
  have l': "sent P e (fst (load w k u (pl_vmid c) it (set_rt k u f e)))" for k f
    by (rule sent_trans [OF sent_set_rt l])
  show ?thesis
    by (simp add: load_member_def Let_def p l l' split: option.split fetch_step.split)
next
  case False
  then have "load_member w g now prog taking u e = e"
    by (auto simp: load_member_def Let_def split: prod.split role.split option.split)
  then show ?thesis by simp
qed

lemma loads_sent:
  assumes "\<And>u c it rqs. w_players w u = Some c \<Longrightarrow> (\<forall>S. prog = Some S \<longrightarrow> u \<notin> S) \<Longrightarrow> plan_of g u = (Cue, Some it)
      \<Longrightarrow> P rqs (pl_vmid c) it"
  shows "sent P e (loads w g now prog e)"
proof -
  have "sent P e (fold (load_member w g now prog tk) us e)" for us tk
  proof (induction us arbitrary: e)
    case (Cons u us)
    have "sent P e (load_member w g now prog tk u e)" by (rule load_member_sent) (rule assms)
    then show ?case using Cons.IH sent_trans by fastforce
  qed simp
  then show ?thesis by (simp add: loads_def)
qed

subsection \<open>The whole pass\<close>

lemma confirm_take_keeps:
  assumes "confirm_take g u c now = Inr g'"
  shows "pg_mixer g' = pg_mixer g" and "pg_channels g' = pg_channels g" and "pg_members g' = pg_members g"
    and "pg_id g' = pg_id g" and "pg_auto_release g' = pg_auto_release g" and "pg_console g' = pg_console g"
    and "pg_release g' = taken_release g u now" and "pg_air_member g' = Some u" and "pg_air_live g'"
    and "pg_cursor g' = Some c"
  using assms unfolding confirm_take_def taken_release_def by (auto simp: Let_def split: option.splits prod.splits)

text \<open>The steps of a pass that went through the pending take.\<close>

lemma group_pass_steps:
  assumes "group_pass w gid gs e = (gs', e', err)" and "get_group gs gid = Some g"
  obtains (stopped) "gs' = gs" "err \<noteq> None" "check_take w g e = (e', Inl (the err))"
  | (through) e1 g1 ch rel e2 e3 where "check_take w g e = (e1, Inr (g1, ch))"
      "quiet e1 e2" "releases w g1 (now_of w e) e2 = (e3, rel)"
      "let g2 = (if rel = [] then g1 else g1\<lparr>pg_release := filter (\<lambda>(u, t). u \<notin> set rel) (pg_release g1)\<rparr>)
       in gs' = (if ch \<or> rel \<noteq> [] then save_group g2 gs else gs) \<and>
          (case cue_all w g2 rel e3 of
             (e4, Some x) \<Rightarrow> e' = e4 \<and> err = Some x
           | (e4, None) \<Rightarrow> e' = loads w g2 (now_of w e) (program w e g) e4 \<and> err = None)"
proof -
  obtain e1 r where c: "check_take w g e = (e1, r)" by fastforce
  show ?thesis
  proof (cases r)
    case (Inl x)
    then show ?thesis using assms c by (intro stopped) (auto simp: group_pass_def Let_def)
  next
    case (Inr p)
    obtain g1 ch where p: "p = (g1, ch)" by fastforce
    let ?e2 = "mixer_trigger w g1 (program w e g) (end_of_clip w g1 e1)"
    have q: "quiet e1 ?e2" by (rule quiet_trans [OF end_of_clip_quiet mixer_trigger_quiet])
    obtain e3 rel where r: "releases w g1 (now_of w e) ?e2 = (e3, rel)" by fastforce
    let ?g2 = "if rel = [] then g1 else g1\<lparr>pg_release := filter (\<lambda>(u, t). u \<notin> set rel) (pg_release g1)\<rparr>"
    obtain e4 x where c4: "cue_all w ?g2 rel e3 = (e4, x)" by fastforce
    have ct: "check_take w g e = (e1, Inr (g1, ch))" using c Inr p by simp
    note a = assms(1) [unfolded group_pass_def assms(2) option.case Let_def ct prod.case sum.case r c4]
    show ?thesis
      by (rule through [OF ct q r]) (use a in \<open>auto simp: Let_def c4 split: option.splits\<close>)
  qed
qed

lemma group_pass_files:
  assumes pass: "group_pass w gid gs e = (gs', e', err)" and g: "get_group gs gid = Some g"
    and ch: "distinct (map fst (pg_channels g))"
  shows "sent (file_ok w g e) e e'"
  using pass g
proof (cases rule: group_pass_steps)
  case stopped
  then show ?thesis using check_take_spec [of w g e e'] by blast
next
  case (through e1 g1 c rel e2 e3)
  let ?P = "file_ok w g e"
  have s1: "sent ?P e e1" using check_take_spec [OF through(1)] by blast
  have keep: "pg_mixer g1 = pg_mixer g" "pg_channels g1 = pg_channels g"
    using check_take_spec [OF through(1)] confirm_take_keeps by metis+
  have lat2: "later e e2" using later_trans [OF sent_later [OF s1] quiet_later [OF through(2)]] .
  have rel: "\<forall>u \<in> set rel. release_checked w g1 (now_of w e) e2 u" and q3: "quiet e2 e3"
    using releases_spec [OF through(3)] by blast+
  have lat3: "prefix (e_log e2) (e_log e3)" using quiet_later [OF q3] by (simp add: later_def)
  have off: "file_ok w g e rqs (pl_vmid c) it" if u: "u \<in> set rel" "w_players w u = Some c" and rqs: "prefix (e_log e3) rqs" for u c rqs it
  proof -
    obtain S where "program w e2 g1 = Some S" "u \<notin> S"
      using released_off_program [of w g1 "now_of w e" e2 u] rel u(1) ch keep by metis
    then have "program w (e\<lparr>e_log := e_log e2\<rparr>) g = Some S" "u \<notin> S"
      using program_at [OF lat2, of w g] program_cong [OF keep, of w e2] by simp_all
    moreover have "prefix (e_log e) (e_log e2)" using lat2 by (simp add: later_def)
    ultimately show ?thesis unfolding file_ok_def using u(2) prefix_order.trans [OF lat3 rqs] by blast
  qed
  have s3: "sent ?P e e3"
    by (rule sent_trans [OF s1 sent_trans [OF quiet_sent quiet_sent]]) (rule through(2), rule q3)
  let ?g2 = "if rel = [] then g1 else g1\<lparr>pg_release := filter (\<lambda>(u, t). u \<notin> set rel) (pg_release g1)\<rparr>"
  obtain e4 x where c4: "cue_all w ?g2 rel e3 = (e4, x)" by fastforce
  have "sent ?P e3 (fst (cue_all w ?g2 rel e3))" by (rule cue_all_sent) (rule off)
  then have s4: "sent ?P e e4" using sent_trans [OF s3] c4 by simp
  have "sent ?P e4 (loads w ?g2 (now_of w e) (program w e g) e4)"
    by (rule loads_sent) (auto simp: file_ok_def)
  then have "sent ?P e (loads w ?g2 (now_of w e) (program w e g) e4)" using sent_trans [OF s4] by blast
  then show ?thesis using through(4) s4 by (auto simp: Let_def c4 split: option.splits)
qed

lemma get_group_id: "get_group gs gid = Some g \<Longrightarrow> pg_id g = gid \<and> g \<in> set gs"
  by (auto simp: get_group_def find_Some_iff)

lemma get_save: "get_group gs (pg_id g) = Some h \<Longrightarrow> get_group (save_group g gs) (pg_id g) = Some g"
  by (induction gs) (auto simp: get_group_def save_group_def)

text \<open>What a pass may have written in the row of the group.\<close>

lemma group_pass_result:
  assumes pass: "group_pass w gid gs e = (gs', e', err)" and g: "get_group gs gid = Some g"
    and g': "get_group gs' gid = Some g'"
  shows "g' = g \<or>
    (\<exists>e1 g1 ch rel e2. check_take w g e = (e1, Inr (g1, ch)) \<and> later e e2 \<and> set rel \<subseteq> fst ` set (pg_release g1) \<and>
       (\<forall>u \<in> set rel. release_checked w g1 (now_of w e) e2 u) \<and>
       g' = (if rel = [] then g1 else g1\<lparr>pg_release := filter (\<lambda>(u, t). u \<notin> set rel) (pg_release g1)\<rparr>))"
  using pass g
proof (cases rule: group_pass_steps)
  case stopped
  then show ?thesis using g g' by simp
next
  case (through e1 g1 ch rel e2 e3)
  let ?g2 = "if rel = [] then g1 else g1\<lparr>pg_release := filter (\<lambda>(u, t). u \<notin> set rel) (pg_release g1)\<rparr>"
  have gs': "gs' = (if ch \<or> rel \<noteq> [] then save_group ?g2 gs else gs)" using through(4) by (simp add: Let_def)
  have later2: "later e e2"
    using check_take_spec [OF through(1)] quiet_later [OF through(2)] later_trans by blast
  note rel = releases_spec [OF through(3)]
  have id: "pg_id ?g2 = gid"
    using check_take_spec [OF through(1)] confirm_take_keeps(4) get_group_id [OF g] by (auto; metis)
  show ?thesis
  proof (cases "ch \<or> rel \<noteq> []")
    case True
    then have "g' = ?g2" using g' gs' get_save [of gs ?g2 g] id g by simp
    then show ?thesis using through(1) later2 rel by blast
  next
    case False
    then show ?thesis using gs' g g' by simp
  qed
qed

lemma release_checked_cong:
  assumes "pg_mixer g' = pg_mixer g" and "pg_channels g' = pg_channels g" and "pg_auto_release g' = pg_auto_release g"
    and "pg_console g' = pg_console g"
  shows "release_checked w g' now e u = release_checked w g now e u"
  unfolding release_checked_def auto_release_check_def release_by_fader_def channel_of_def mixer_state_def
    console_state_def live_doc_def assms ..

lemma auto_release_iff:
  "auto_release_check au g u mixer n_in console strips doc = Inr () \<longleftrightarrow>
     pg_auto_release g \<and> some_text (pg_mixer g) \<and> some_text (pg_console g) \<and>
     (some_text (ch_strip_id (channel_of g u)) \<or> ch_strip (channel_of g u) \<noteq> None) \<and>
     (\<exists>m mi used view sid. mixer = RView m \<and> mixer_used_inputs au m = Some used \<and>
        ch_mixer_input (channel_of g u) = Some mi \<and> 1 \<le> mi \<and>
        mi \<le> (if ms_inputs m \<noteq> 0 then int (ms_inputs m) else n_in) \<and> mi \<notin> used \<and>
        console = RView view \<and> strip_ref (channel_of g u) strips = Some sid \<and> sid \<noteq> [] \<and>
        (strip_closed au view sid = Some True \<or>
         strip_closed au view sid = Some False \<and> (\<exists>d. doc = Some d \<and> afv_closed d sid)))"
  (is "_ \<longleftrightarrow> ?R")
proof -
  have doc: "release_by_doc doc sid = Inr () \<longleftrightarrow> (\<exists>d. doc = Some d \<and> afv_closed d sid)" for sid
    by (auto simp: release_by_doc_def split: option.split)
  show ?thesis
    unfolding auto_release_check_def release_by_fader_def Let_def
    by (cases "ch_mixer_input (channel_of g u)"; cases mixer; cases console)
      (auto simp: doc split: option.split)
qed

end
