(* ===== verification/Playout_Properties.thy ===== *)
theory Playout_Properties
  imports Playout_Pass_Facts
begin

text \<open>
  The properties of the playout groups, with their witnesses on a group of three players and a playlist
  of five items.
\<close>

subsection \<open>A small group\<close>

definition demo_item :: "string \<Rightarrow> item" where
  "demo_item i = \<lparr>it_id = i, it_file = i @ ''.mov'', it_asset = None, it_title = None, it_skipped = False,
                  it_played_on = None\<rparr>"

definition demo_group :: pgroup where
  "demo_group = \<lparr>pg_id = 1, pg_name = ''g'', pg_project = None, pg_members = [''a'', ''b'', ''c''],
     pg_items = [(demo_item ''i1'')\<lparr>it_played_on := Some ''a''\<rparr>, demo_item ''i2'', demo_item ''i3'',
                 demo_item ''i4'', demo_item ''i5''],
     pg_cursor = Some ''i1'', pg_air_member = Some ''a'', pg_air_live = True, pg_release = [],
     pg_trigger = Manual, pg_mixer = Some ''m'', pg_console = Some ''k'',
     pg_channels = [(''a'', \<lparr>ch_mixer_input = Some 1, ch_strip = None, ch_strip_id = Some ''s1''\<rparr>),
                    (''b'', \<lparr>ch_mixer_input = Some 2, ch_strip = None, ch_strip_id = Some ''s2''\<rparr>),
                    (''c'', \<lparr>ch_mixer_input = Some 3, ch_strip = None, ch_strip_id = Some ''s3''\<rparr>)],
     pg_auto_release = True, pg_out_of_order = Oo_requeue, pg_auto_next = False\<rparr>"

lemma demo_group_ok: "group_ok demo_group"
proof -
  have "distinct (pg_members demo_group) \<and> 2 \<le> length (pg_members demo_group) \<and>
     length (pg_members demo_group) \<le> max_members \<and> [] \<notin> set (pg_members demo_group) \<and>
     distinct (map it_id (pg_items demo_group)) \<and> length (pg_items demo_group) \<le> max_items \<and>
     it_id ` set (pg_items demo_group) = {''i1'', ''i2'', ''i3'', ''i4'', ''i5''} \<and>
     air demo_group = Some ''a'' \<and> pg_release demo_group = [] \<and>
     (\<forall>it \<in> set (take (after_cursor demo_group) (pg_items demo_group)). it_skipped it \<or> it_played_on it \<noteq> None)"
    by code_simp
  then show ?thesis by (simp add: group_ok_def) (simp add: demo_group_def)
qed

subsection \<open>The rotation\<close>

text \<open>
  C19. The distribution takes the outputs in turn: the k-th item to come (from 0) goes to the output k
  places after the first slot, and two items less than N apart never share an output.  While an output
  is on air, an item is on it exactly when its rank from 1 is a multiple of N; so the N - 1 items
  before it, or the first N when nothing is on air, wait cued, each on its own output.
\<close>

theorem rotation:
  assumes "group_ok g" and "k < length (upcoming g)"
  shows "assignment g (it_id (upcoming g ! k)) = Some (pg_members g ! ((first_slot g + k) mod length (pg_members g))) \<and>
         (\<forall>j < k. k < j + length (pg_members g) \<longrightarrow>
            assignment g (it_id (upcoming g ! j)) \<noteq> assignment g (it_id (upcoming g ! k))) \<and>
         (\<forall>a. air g = Some a \<longrightarrow>
            (assignment g (it_id (upcoming g ! k)) = Some a \<longleftrightarrow> (k + 1) mod length (pg_members g) = 0)) \<and>
         (wanted g (pg_members g ! ((first_slot g + k) mod length (pg_members g))) = Some (upcoming g ! k) \<longleftrightarrow>
            k < (if air g = None then length (pg_members g) else length (pg_members g) - 1))"
proof (intro conjI allI impI)
  note D = group_okD [OF assms(1)]
  have a: "assignment g (it_id (upcoming g ! j)) = Some (slot g j)" if "j < length (upcoming g)" for j
    using assignment_nth [OF D(5) D(3) that] .
  show "assignment g (it_id (upcoming g ! k)) = Some (pg_members g ! ((first_slot g + k) mod length (pg_members g)))"
    using a [OF assms(2)] by (simp add: slot_def)
  show "assignment g (it_id (upcoming g ! j)) \<noteq> assignment g (it_id (upcoming g ! k))"
    if "j < k" and "k < j + length (pg_members g)" for j
    using a [of j] a [of k] slot_inj [OF D(1,3), of j k] that assms(2) by auto
  show "assignment g (it_id (upcoming g ! k)) = Some x \<longleftrightarrow> (k + 1) mod length (pg_members g) = 0" if "air g = Some x" for x
  proof -
    have "base_member g = Some x" "x \<noteq> []" using that by (auto simp: air_def split: option.splits if_splits)
    then show ?thesis using a [OF assms(2)] slot_base D(1) by simp
  qed
  have "wanted g (slot g k) = Some (upcoming g ! k) \<longleftrightarrow> k < cue_count g"
  proof
    assume "wanted g (slot g k) = Some (upcoming g ! k)"
    then obtain j where j: "j < cue_count g" "j < length (upcoming g)" "upcoming g ! j = upcoming g ! k"
      using wanted_iff [OF assms(1)] by blast
    have "distinct (upcoming g)" using D(5) by (simp add: upcoming_def distinct_map)
    then show "k < cue_count g" using j assms(2) nth_eq_iff_index_eq [of "upcoming g" j k] by simp
  qed (use wanted_iff [OF assms(1)] assms(2) in blast)
  then show "wanted g (pg_members g ! ((first_slot g + k) mod length (pg_members g))) = Some (upcoming g ! k) \<longleftrightarrow>
      k < (if air g = None then length (pg_members g) else length (pg_members g) - 1)"
    by (auto simp: cue_count_def slot_def)
qed

theorem rotation_witness:
  "assignment demo_group ''i3'' = Some ''c'' \<and> assignment demo_group ''i2'' \<noteq> assignment demo_group ''i3'' \<and>
   assignment demo_group ''i4'' = Some ''a'' \<and> air demo_group = Some ''a'' \<and> wanted demo_group ''c'' = Some (demo_item ''i3'')"
proof -
  have u: "upcoming demo_group = map demo_item [''i2'', ''i3'', ''i4'', ''i5'']" by code_simp
  have i: "it_id (demo_item i) = i" for i by (simp add: demo_item_def)
  have f: "first_slot demo_group = 1" and m: "pg_members demo_group = [''a'', ''b'', ''c'']" by code_simp+
  have "air demo_group = Some ''a''" by code_simp
  then show ?thesis using rotation [OF demo_group_ok, of 1] rotation [OF demo_group_ok, of 2] by (auto simp: u f m i)
qed

lemma ex_Suc_iff: "\<not> P 0 \<Longrightarrow> (\<exists>k. P k) \<longleftrightarrow> (\<exists>k. P (Suc k))"
  by (metis not0_implies_Suc)

text \<open>
  C20. Nobody reloads after a take in order: the item the group waits for next is played by the output
  that waits for it; every output other than the one that goes on air and the one that leaves it keeps
  its role and its item.
\<close>

theorem take_in_order_keeps:
  assumes ok: "group_ok g" and nt: "next_target g = Some (it, u)"
    and w: "x \<in> set (pg_members g)" "x \<noteq> u" "air g \<noteq> Some x"
  shows "\<exists>g'. confirm_take g u (it_id it) now = Inr g' \<and> air g' = Some u \<and> plan_of g' x = plan_of g x"
proof -
  note D = group_okD [OF ok]
  obtain qs where up: "upcoming g = [] @ it # qs" and u: "u = slot g 0"
    using nt next_target_iff [OF ok] by (cases "upcoming g") (auto split: if_splits)
  obtain g' where e: "confirm_take g u (it_id it) now = Inr g'" and up': "upcoming g' = qs"
    and f: "pg_members g' = pg_members g" "pg_air_member g' = Some u" "pg_air_live g'"
      "pg_release g' = taken_release g u now"
    by (rule confirm_take_upcoming [OF ok up, of u now]) (auto split: if_splits)
  have um: "u \<in> set (pg_members g)" using slot_member [OF D(3)] u by simp
  have ok': "group_ok g'" using confirm_take_ok [OF ok um e] .
  have air': "air g' = Some u" using air_after [OF f(1,2,3) um D(4)] .
  have s: "slot g' j = slot g (j + 1)" for j
    using slot_after [of g' g 0 j] f u D(1,3,4) by simp
  let ?n = "length (pg_members g)"
  have c': "cue_count g' = ?n - 1" by (simp add: cue_count_def air' f(1))
  have "wanted g' x = Some y \<longleftrightarrow> wanted g x = Some y" for y
  proof -
    have "wanted g x = Some y \<longleftrightarrow> (\<exists>k < cue_count g. k < Suc (length qs) \<and> slot g k = x \<and> (it # qs) ! k = y)"
      using wanted_iff [OF ok, of x y] up by simp
    also have "\<dots> \<longleftrightarrow> (\<exists>k. Suc k < cue_count g \<and> k < length qs \<and> slot g (Suc k) = x \<and> qs ! k = y)"
      using w(2) u by (subst ex_Suc_iff) auto
    also have "\<dots> \<longleftrightarrow> (\<exists>k < ?n - 1. k < length qs \<and> slot g (Suc k) = x \<and> qs ! k = y)"
    proof (cases "air g")
      case (Some a)
      have b: "base_member g = Some a" "a \<noteq> []" using Some by (auto simp: air_def split: option.splits if_splits)
      have "?n - 1 + 1 = ?n" using D(2) by linarith
      then have "slot g (?n - 1) = a" using slot_base [OF b D(1), of "?n - 1"] by simp
      then have "slot g (Suc k) = x \<Longrightarrow> Suc k \<noteq> ?n - 1" for k using w(3) Some by auto
      then have "Suc k < ?n - 1 \<and> k < length qs \<and> slot g (Suc k) = x \<and> qs ! k = y \<longleftrightarrow>
          k < ?n - 1 \<and> k < length qs \<and> slot g (Suc k) = x \<and> qs ! k = y" for k
        by (cases "slot g (Suc k) = x") (auto intro: Suc_lessI)
      moreover have "cue_count g = ?n - 1" using Some by (simp add: cue_count_def)
      ultimately show ?thesis by simp
    next
      case None
      then have "Suc k < cue_count g \<longleftrightarrow> k < ?n - 1" for k by (auto simp: cue_count_def)
      then show ?thesis by simp
    qed
    finally show ?thesis using wanted_iff [OF ok', of x y] by (simp add: s c' up')
  qed
  then have "wanted g' x = wanted g x" by (metis not_Some_eq)
  moreover have "x \<in> fst ` set (pg_release g') \<longleftrightarrow> x \<in> fst ` set (pg_release g)"
    using f(4) w by (auto simp: taken_release_keys split: option.split)
  ultimately have "plan_of g' x = plan_of g x" using w air' by (simp add: plan_of_def)
  then show ?thesis using e air' by blast
qed

theorem take_in_order_keeps_witness:
  "\<exists>g'. confirm_take demo_group ''b'' ''i2'' 7 = Inr g' \<and> air g' = Some ''b'' \<and>
        plan_of g' ''c'' = (Cue, Some (demo_item ''i3''))"
proof -
  have n: "next_target demo_group = Some (demo_item ''i2'', ''b'')" by code_simp
  have m: "''c'' \<in> set (pg_members demo_group)" "air demo_group \<noteq> Some ''c''"
    "plan_of demo_group ''c'' = (Cue, Some (demo_item ''i3''))" by code_simp+
  have "it_id (demo_item ''i2'') = ''i2''" by (simp add: demo_item_def)
  then show ?thesis using take_in_order_keeps [OF demo_group_ok n m(1) _ m(2), of 7] m(3) by simp
qed

subsection \<open>Takes and edits\<close>

text \<open>
  A PLAY out of order loses nothing: whatever the rank of the item among those to come, the take
  puts it on air as played by its output; under \<open>requeue\<close> the items it overtook come next, in their
  order, otherwise they are no longer to come; no item leaves the playlist and what was played before
  does not move.
\<close>

theorem take_out_of_order:
  assumes "group_ok g" and "upcoming g = ps @ it # qs"
  shows "\<exists>g'. confirm_take g u (it_id it) now = Inr g' \<and>
           upcoming g' = (if pg_out_of_order g = Oo_requeue then ps @ qs else qs) \<and>
           air_item g' = Some (it\<lparr>it_skipped := False, it_played_on := Some u\<rparr>) \<and>
           mset (map it_id (pg_items g')) = mset (map it_id (pg_items g)) \<and>
           take (after_cursor g) (pg_items g') = take (after_cursor g) (pg_items g)"
  by (rule confirm_take_upcoming [OF assms, of u now]) (auto simp: mark_played_def)

theorem take_out_of_order_witness:
  "\<exists>g'. confirm_take demo_group ''a'' ''i4'' 7 = Inr g' \<and>
        upcoming g' = map demo_item [''i2'', ''i3'', ''i5'']"
proof -
  have u: "upcoming demo_group = [demo_item ''i2'', demo_item ''i3''] @ demo_item ''i4'' # [demo_item ''i5'']" by code_simp
  have "it_id (demo_item ''i4'') = ''i4''" and "pg_out_of_order demo_group = Oo_requeue" by code_simp+
  then show ?thesis using take_out_of_order [OF demo_group_ok u, of "''a''" 7] by auto
qed

text \<open>
  C21. An edit never touches what is on air: whatever the operation, the item on air, the output and
  the outputs to release are the same before and after.  A drop removes the item it names, played or
  to come but never the one on air, and keeps all the others in their order; any other edit keeps
  every item, and those up to the one on air stay as they are.
\<close>

theorem item_op_keeps_air:
  assumes "group_ok g" and "item_op g op c v = Inr g'"
  shows "air_item g' = air_item g \<and> air g' = air g \<and> pg_release g' = pg_release g \<and> pg_cursor g' = pg_cursor g \<and>
         (if op = ''drop'' then c \<in> it_id ` set (pg_items g) \<and> pg_cursor g \<noteq> Some c \<and> pg_items g' = filter (\<lambda>it. it_id it \<noteq> c) (pg_items g)
          else mset (map it_id (pg_items g')) = mset (map it_id (pg_items g)) \<and>
            take (after_cursor g) (pg_items g') = take (after_cursor g) (pg_items g))"
proof -
  have f: "g' = g\<lparr>pg_items := pg_items g'\<rparr>" using item_op_frame [OF assms(2)] .
  have "air (g\<lparr>pg_items := xs\<rparr>) = air g" for xs by (auto simp: air_def base_member_def split: option.split)
  then have "air g' = air g" using f by metis
  moreover have "pg_release g' = pg_release g" and "pg_cursor g' = pg_cursor g" using f by (metis pgroup.select_convs
      pgroup.surjective pgroup.update_convs(5))+
  moreover have "c \<in> it_id ` set (pg_items g) \<and> pg_cursor g \<noteq> Some c \<and> pg_items g' = filter (\<lambda>it. it_id it \<noteq> c) (pg_items g)" if "op = ''drop''"
    using item_op_drop assms that by blast
  moreover have "mset (map it_id (pg_items g')) = mset (map it_id (pg_items g)) \<and>
      take (after_cursor g) (pg_items g') = take (after_cursor g) (pg_items g)" if "op \<noteq> ''drop''"
    using item_op_cases [OF assms(2)] that by (metis pgroup.select_convs(5) pgroup.surjective pgroup.update_convs(5))
  ultimately show ?thesis using item_op_air_item [OF assms] by simp
qed

theorem item_op_keeps_air_witness:
  "\<exists>g' h. item_op demo_group ''move'' ''i5'' (VInt 0) = Inr g' \<and> air_item g' = air_item demo_group \<and>
     item_op demo_group ''drop'' ''i2'' (VInt 0) = Inr h \<and> map it_id (pg_items h) = [''i1'', ''i3'', ''i4'', ''i5'']"
proof -
  have "(case item_op demo_group ''move'' ''i5'' (VInt 0) of Inl _ \<Rightarrow> False | Inr _ \<Rightarrow> True)"
    "(case item_op demo_group ''drop'' ''i2'' (VInt 0) of Inl _ \<Rightarrow> False | Inr _ \<Rightarrow> True)" by code_simp+
  then obtain g' h where m: "item_op demo_group ''move'' ''i5'' (VInt 0) = Inr g'" "item_op demo_group ''drop'' ''i2'' (VInt 0) = Inr h"
    by (auto split: sum.splits)
  moreover have "pg_items h = filter (\<lambda>it. it_id it \<noteq> ''i2'') (pg_items demo_group)" using item_op_keeps_air [OF demo_group_ok m(2)] by simp
  moreover have "map it_id (filter (\<lambda>it. it_id it \<noteq> ''i2'') (pg_items demo_group)) = [''i1'', ''i3'', ''i4'', ''i5'']" by code_simp
  ultimately show ?thesis using item_op_keeps_air [OF demo_group_ok m(1)] by auto
qed

subsection \<open>The table\<close>

text \<open>
  C22. In every table of groups the operations reach from the empty one, whatever their order: a player
  serves one group only, a group has between two and twenty-six distinct outputs, the item at the
  cursor is in the playlist, everything before it was played or skipped, the output on air is an output
  of the group and is never among those waiting for their release.
\<close>

theorem table_invariant:
  assumes "(tstep si)\<^sup>*\<^sup>* [] gs" and "si_players si [] = None"
  shows "(\<forall>g \<in> set gs. \<forall>h \<in> set gs. pg_id g \<noteq> pg_id h \<longrightarrow> set (pg_members g) \<inter> set (pg_members h) = {}) \<and>
         (\<forall>g \<in> set gs. distinct (pg_members g) \<and> 2 \<le> length (pg_members g) \<and> length (pg_members g) \<le> 26 \<and>
            (\<forall>c. pg_cursor g = Some c \<longrightarrow> c \<in> it_id ` set (pg_items g)) \<and>
            (\<forall>it \<in> set (take (after_cursor g) (pg_items g)). it_skipped it \<or> it_played_on it \<noteq> None) \<and>
            (\<forall>a. air g = Some a \<longrightarrow> a \<in> set (pg_members g) \<and> a \<notin> fst ` set (pg_release g)))"
proof -
  have t: "table_ok gs" using tsteps_ok [OF assms] by (simp add: table_ok_def)
  have m: "max_members = 26" by (simp add: max_members_def letters_def)
  have "distinct (pg_members g) \<and> 2 \<le> length (pg_members g) \<and> length (pg_members g) \<le> 26 \<and>
            (\<forall>c. pg_cursor g = Some c \<longrightarrow> c \<in> it_id ` set (pg_items g)) \<and>
            (\<forall>it \<in> set (take (after_cursor g) (pg_items g)). it_skipped it \<or> it_played_on it \<noteq> None) \<and>
            (\<forall>a. air g = Some a \<longrightarrow> a \<in> set (pg_members g) \<and> a \<notin> fst ` set (pg_release g))"
    if "g \<in> set gs" for g
  proof -
    have ok: "group_ok g" using t that by (simp add: table_ok_def)
    then show ?thesis unfolding group_ok_def m by (metis air_member)
  qed
  then show ?thesis using t unfolding table_ok_def by blast
qed

definition demo_site :: site where
  "demo_site = \<lparr>si_players = [''a'' \<mapsto> None, ''b'' \<mapsto> None, ''c'' \<mapsto> None], si_mixers = Map.empty,
                si_consoles = Map.empty, si_sync = []\<rparr>"

definition demo_config :: config where
  "demo_config = \<lparr>cf_name = ''g'', cf_members = [''a'', ''b'', ''c''], cf_trigger = [], cf_mixer = None,
     cf_console = None, cf_channels = [], cf_auto_release = False, cf_out_of_order = [], cf_auto_next = False\<rparr>"

theorem table_invariant_witness:
  "\<exists>g. (tstep demo_site)\<^sup>*\<^sup>* [] [g] \<and> distinct (pg_members g) \<and> length (pg_members g) \<le> 26"
proof -
  have "(case create_group demo_site 1 demo_config [] of Inl _ \<Rightarrow> False | Inr gs \<Rightarrow> length gs = 1)" by code_simp
  then obtain g where g: "create_group demo_site 1 demo_config [] = Inr [g]"
    by (auto split: sum.splits simp: length_Suc_conv)
  have "tstep demo_site [] [g]" by (rule tstep.create [OF _ g]) simp
  then have r: "(tstep demo_site)\<^sup>*\<^sup>* [] [g]" by blast
  have "si_players demo_site [] = None" by (simp add: demo_site_def)
  from table_invariant [OF r this] r show ?thesis by auto
qed

subsection \<open>The engine\<close>

text \<open>
  PLAY starts only what is cued, and says why it does not: a player is started only if it is on
  air, or waits in CUE and its \<open>/state\<close>, read just before, shows the item that is its own; a take is
  opened only when none is pending; a refusal leaves the pending takes as they were and either is
  one of the refusals given back to the caller without a command sent, or writes an alert that names
  the group, or is the failed resumption of the output on air.
\<close>

theorem play_only_cued:
  assumes "play w g u source e = (e', r)" and "e_log e' = e_log e @ l"
  shows "(\<forall>v. Post_play v \<in> set l \<longrightarrow> started_cued w g u e v) \<and>
         (case r of
            Inr Resumed \<Rightarrow> air g = Some u \<and> e_pending e' = e_pending e
          | Inr (Waiting it) \<Rightarrow>
              plan_of g u = (Cue, Some it) \<and> e_pending e (pg_id g) = None \<and>
              (\<exists>t. e_pending e' = (e_pending e)(pg_id g \<mapsto>
                 \<lparr>tk_member = u, tk_item = it_id it, tk_since = t, tk_source = source\<rparr>))
          | Inl err \<Rightarrow>
              e_pending e' = e_pending e \<and>
              (err \<in> {PlayoutError ''take_pending'', PlayoutError ''output_gone'', PlayoutError ''out_of_order'',
                       PyError ''ValueError''} \<or>
               air g = Some u \<and> err = PlayoutError ''play_failed'' \<or>
               (\<exists>a. e_alerts e' = e_alerts e @ [a] \<and> ta_group a = pg_name g)))"
  using play_started [OF assms] play_result [OF assms(1)] by blast

definition demo_obs :: "string \<Rightarrow> bool \<Rightarrow> obs" where
  "demo_obs f p = \<lparr>ob_asset = None, ob_file = Some f, ob_paused = Some p, ob_position = 0, ob_duration = 0, ob_eof = False\<rparr>"

text \<open>A site where the player 12 holds \<open>i2\<close>, paused or playing, and the mixer \<open>m\<close> shows input 1.\<close>

definition demo_world :: "bool \<Rightarrow> world" where
  "demo_world p = \<lparr>w_players = [''a'' \<mapsto> \<lparr>pl_vmid = 11, pl_running = True\<rparr>,
       ''b'' \<mapsto> \<lparr>pl_vmid = 12, pl_running = True\<rparr>, ''c'' \<mapsto> \<lparr>pl_vmid = 13, pl_running = True\<rparr>],
     w_http = (\<lambda>_ rq. \<lparr>rp_code = 200, rp_obs = (if rq = Get_state 12 then Some (demo_obs ''i2.mov'' p) else None),
                        rp_missing = False, rp_error = None\<rparr>),
     w_now = (\<lambda>_. 10), w_fetch_start = (\<lambda>_ _. Inl ''none''), w_fetch_get = (\<lambda>_. None),
     w_mixers = [''m'' \<mapsto> 4], w_consoles = [''k'' \<mapsto> \<lparr>co_vmid = 20, co_running = True, co_strips = [''s1'', ''s2'', ''s3'']\<rparr>],
     w_console_view = (\<lambda>_. Some ''faders''), w_console_doc = (\<lambda>_. None),
     w_audio = \<lparr>au_on_air = Some (\<lambda>_. ([2], [])), au_reading = Some (\<lambda>_ _. Some (-120, False))\<rparr>\<rparr>"

definition demo_engine :: eng where
  "demo_engine = new_engine\<lparr>e_views := [''uuid:m'' \<mapsto> (Some \<lparr>ms_pgm = Some 2, ms_inputs = 4, ms_text = []\<rparr>, 9)]\<rparr>"

theorem play_only_cued_witness:
  "started_cued (demo_world True) demo_group ''b'' demo_engine 12"
proof -
  let ?p = "play (demo_world True) demo_group ''b'' ''ui'' demo_engine"
  have l: "e_log (fst ?p) = e_log demo_engine @ [Get_state 12, Post_play 12]" by code_simp
  have "?p = (fst ?p, snd ?p)" by simp
  from play_only_cued [OF this l] show ?thesis by simp
qed

text \<open>
  C23. Nothing goes on air on a supposition: if a pass of the engine changes the cursor, the output on
  air or an item of a group, then a take was pending, the player answered 200 with a \<open>/state\<close> that
  shows the item of the take loaded and not paused, and the group is now on air with that output and
  that item.
\<close>

theorem pass_acquires_seen:
  assumes pass: "group_pass w gid gs e = (gs', e', err)" and g: "get_group gs gid = Some g"
    and g': "get_group gs' gid = Some g'" and ok: "group_ok g"
    and ch: "(pg_cursor g', pg_air_member g', pg_air_live g', pg_items g') \<noteq>
             (pg_cursor g, pg_air_member g, pg_air_live g, pg_items g)"
  shows "\<exists>p i. e_pending e gid = Some p \<and> find_item (pg_items g) (tk_item p) = Some i \<and>
           seen_playing w e (tk_member p) (pg_items g ! i) \<and>
           air g' = Some (tk_member p) \<and> pg_cursor g' = Some (tk_item p)"
proof -
  have "g' \<noteq> g" using ch by auto
  then obtain e1 g1 c rel where r: "check_take w g e = (e1, Inr (g1, c))"
    "g' = (if rel = [] then g1 else g1\<lparr>pg_release := filter (\<lambda>(u, t). u \<notin> set rel) (pg_release g1)\<rparr>)"
    using group_pass_result [OF pass g g'] by metis
  have "g1 \<noteq> g" using r(2) ch by (auto split: if_splits)
  then obtain p i t where p: "e_pending e (pg_id g) = Some p" "find_item (pg_items g) (tk_item p) = Some i"
    "tk_member p \<in> set (pg_members g)" "seen_playing w e (tk_member p) (pg_items g ! i)"
    "confirm_take g (tk_member p) (it_id (pg_items g ! i)) t = Inr g1"
    using check_take_spec [OF r(1)] by metis
  note k = confirm_take_keeps [OF p(5)]
  have "air g1 = Some (tk_member p)"
    using air_after [OF k(3) k(8) k(9) p(3)] group_okD(4) [OF ok] by simp
  moreover have "air g' = air g1" using r(2) by (auto simp: air_def base_member_def split: option.split)
  moreover have "pg_cursor g' = Some (tk_item p)" using r(2) k(10) find_item_Some [OF p(2)] by auto
  ultimately show ?thesis using p get_group_id [OF g] by metis
qed

definition demo_take :: take where
  "demo_take = \<lparr>tk_member = ''b'', tk_item = ''i2'', tk_since = 9, tk_source = ''ui''\<rparr>"

theorem pass_acquires_seen_witness:
  "seen_playing (demo_world False) (demo_engine\<lparr>e_pending := [1 \<mapsto> demo_take]\<rparr>) ''b'' (demo_item ''i2'')"
proof -
  let ?w = "demo_world False" and ?e = "demo_engine\<lparr>e_pending := [1 \<mapsto> demo_take]\<rparr>"
  let ?p = "group_pass ?w 1 [demo_group] ?e"
  have g: "get_group [demo_group] 1 = Some demo_group" by (simp add: get_group_def demo_group_def)
  have "map pg_cursor (fst ?p) = [Some ''i2'']" and "map pg_id (fst ?p) = [1]" by code_simp+
  then obtain g' where g': "fst ?p = [g']" "pg_cursor g' = Some ''i2''" "pg_id g' = 1" by auto
  have i: "pg_items demo_group ! 1 = demo_item ''i2''" and f: "find_item (pg_items demo_group) ''i2'' = Some 1"
    and c: "pg_cursor demo_group = Some ''i1''" by code_simp+
  have "?p = (fst ?p, fst (snd ?p), snd (snd ?p))" by simp
  from pass_acquires_seen [OF this g _ demo_group_ok, of g'] show ?thesis
    using g' c f i by (auto simp: get_group_def demo_take_def)
qed

text \<open>
  Nothing is released on a supposition: an output that a pass takes off the list of those to
  release is the one it puts on air, or it passed the test for automatic releases on what was read
  during the pass: the views of the designated mixer and console, then the document of the console.
\<close>

theorem pass_releases_read:
  assumes pass: "group_pass w gid gs e = (gs', e', err)" and g: "get_group gs gid = Some g"
    and g': "get_group gs' gid = Some g'" and ok: "group_ok g"
    and u: "u \<in> fst ` set (pg_release g)" "u \<notin> fst ` set (pg_release g')"
  shows "(\<exists>p. e_pending e gid = Some p \<and> tk_member p = u \<and> air g' = Some u) \<or>
         (\<exists>e1 e2 n_in. later e e1 \<and> later e1 e2 \<and>
            auto_release_check (w_audio w) g u (mixer_state w e1 g) n_in
              (fst (snd (console_state w g (now_of w e) e1))) (snd (snd (console_state w g (now_of w e) e1)))
              (snd (live_doc w g (now_of w e) e2)) = Inr ())"
proof -
  have "g' \<noteq> g" using u by auto
  then obtain e1 g1 c rel e2 where r: "check_take w g e = (e1, Inr (g1, c))" "later e e2"
    "\<forall>u \<in> set rel. release_checked w g1 (now_of w e) e2 u"
    "g' = (if rel = [] then g1 else g1\<lparr>pg_release := filter (\<lambda>(u, t). u \<notin> set rel) (pg_release g1)\<rparr>)"
    using group_pass_result [OF pass g g'] by metis
  have same: "pg_mixer g1 = pg_mixer g" "pg_channels g1 = pg_channels g" "pg_auto_release g1 = pg_auto_release g"
    "pg_console g1 = pg_console g"
    using check_take_spec [OF r(1)] confirm_take_keeps by metis+
  show ?thesis
  proof (cases "u \<in> set rel")
    case True
    then have "release_checked w g (now_of w e) e2 u" using r(3) release_checked_cong [OF same] by simp
    then show ?thesis using r(2) unfolding release_checked_def by blast
  next
    case False
    have n: "u \<notin> fst ` set (pg_release g1)" using r(4) u(2) False by (auto split: if_splits)
    then have "g1 \<noteq> g" using u(1) by auto
    then obtain p i t where p: "e_pending e (pg_id g) = Some p" "tk_member p \<in> set (pg_members g)"
      "confirm_take g (tk_member p) (it_id (pg_items g ! i)) t = Inr g1"
      using check_take_spec [OF r(1)] by metis
    note k = confirm_take_keeps [OF p(3)]
    have e: "u = tk_member p" using k(7) u(1) n by (auto simp: taken_release_keys)
    have "air g1 = Some (tk_member p)"
      using air_after [OF k(3) k(8) k(9) p(2)] group_okD(4) [OF ok] by simp
    moreover have "air g' = air g1" using r(4) by (auto simp: air_def base_member_def split: option.split)
    ultimately show ?thesis using p e get_group_id [OF g] by metis
  qed
qed

theorem pass_releases_read_witness:
  "\<exists>e1 e2 n_in. auto_release_check (w_audio (demo_world True)) (demo_group\<lparr>pg_release := [(''c'', 5)]\<rparr>) ''c''
     (mixer_state (demo_world True) e1 (demo_group\<lparr>pg_release := [(''c'', 5)]\<rparr>)) n_in
     (fst (snd (console_state (demo_world True) (demo_group\<lparr>pg_release := [(''c'', 5)]\<rparr>) 10 e1)))
     (snd (snd (console_state (demo_world True) (demo_group\<lparr>pg_release := [(''c'', 5)]\<rparr>) 10 e1)))
     (snd (live_doc (demo_world True) (demo_group\<lparr>pg_release := [(''c'', 5)]\<rparr>) 10 e2)) = Inr ()"
proof -
  let ?g = "demo_group\<lparr>pg_release := [(''c'', 5)]\<rparr>" and ?w = "demo_world True"
  let ?p = "group_pass ?w 1 [?g] demo_engine"
  have ok: "group_ok ?g"
    using demo_group_ok by (simp add: group_ok_def air_def base_member_def after_cursor_def) (simp add: demo_group_def)
  have g: "get_group [?g] 1 = Some ?g" by (simp add: get_group_def demo_group_def)
  have "map pg_release (fst ?p) = [[]]" and "map pg_id (fst ?p) = [1]" by code_simp+
  then obtain g' where g': "fst ?p = [g']" "pg_release g' = []" "pg_id g' = 1" by auto
  have "e_pending demo_engine 1 = None" and "now_of ?w demo_engine = 10" by code_simp+
  moreover have "?p = (fst ?p, fst (snd ?p), snd (snd ?p))" by simp
  ultimately show ?thesis
    using pass_releases_read [OF _ g _ ok, of ?w demo_engine "fst ?p" "fst (snd ?p)" "snd (snd ?p)" g' "''c''"] g'
    by (auto simp: get_group_def)
qed

text \<open>
  The test for automatic releases is the conjunction it claims to be: it answers yes exactly when
  the group asks for it, the designation is complete, the designated input exists and is used neither
  in the programme nor in a transition, and the designated strip exists and is closed, by its fader or,
  failing that, by the audio that follows the video in the live document.
\<close>

theorem auto_release_exact:
  "auto_release_check au g u mixer n_in console strips doc = Inr () \<longleftrightarrow>
     pg_auto_release g \<and> some_text (pg_mixer g) \<and> some_text (pg_console g) \<and>
     \<not> (\<not> some_text (ch_strip_id (channel_of g u)) \<and> ch_strip (channel_of g u) = None) \<and>
     (\<exists>m mi used view sid. mixer = RView m \<and> mixer_used_inputs au m = Some used \<and>
        ch_mixer_input (channel_of g u) = Some mi \<and> 1 \<le> mi \<and>
        mi \<le> (if ms_inputs m \<noteq> 0 then int (ms_inputs m) else n_in) \<and> mi \<notin> used \<and>
        console = RView view \<and> strip_ref (channel_of g u) strips = Some sid \<and> sid \<noteq> [] \<and>
        (strip_closed au view sid = Some True \<or>
         strip_closed au view sid = Some False \<and> (\<exists>d. doc = Some d \<and> afv_closed d sid)))"
  unfolding auto_release_iff de_Morgan_conj not_not ..



text \<open>
  A take is lost without a word: when the group is given other members while a take is pending and
  the player is then seen playing, the pass ends on an exception, the take is forgotten, the group is
  not changed, and neither an alert nor a failure says so.
\<close>

theorem take_lost_silently:
  "let g = demo_group\<lparr>pg_members := [''a'', ''c'']\<rparr>;
       (gs', e', err) = group_pass (demo_world False) 1 [g] (demo_engine\<lparr>e_pending := [1 \<mapsto> demo_take]\<rparr>)
   in err = Some (PyError ''ValueError'') \<and> map pg_cursor gs' = [Some ''i1''] \<and>
      e_pending e' 1 = None \<and> e_failures e' 1 = None \<and> e_alerts e' = []"
  by code_simp

end
