(* ===== verification/Json.thy ===== *)
theory Json
  imports Bobi_Prelude Complex_Main
begin

text \<open>
  The values Python reads from JSON (\<open>None\<close>, booleans, numbers, texts, lists, dictionaries with text keys), their truth
  value, and the conversions the modelled code applies to them.  A number is a rational; a dictionary is an
  association list in insertion order.
\<close>

datatype json =
    JNull
  | JBool bool
  | JNum rat
  | JStr string
  | JList "json list"
  | JDict "(string \<times> json) list"

fun truthy :: "json \<Rightarrow> bool" where
  "truthy JNull = False"
| "truthy (JBool b) = b"
| "truthy (JNum r) = (r \<noteq> 0)"
| "truthy (JStr s) = (s \<noteq> [])"
| "truthy (JList l) = (l \<noteq> [])"
| "truthy (JDict d) = (d \<noteq> [])"

type_synonym params = "(string \<times> json) list"

text \<open>\<open>p.get(k)\<close>, \<open>v or {}\<close> and \<open>v or w\<close>.\<close>

definition pget :: "params \<Rightarrow> string \<Rightarrow> json" where
  "pget p k = (case map_of p k of None \<Rightarrow> JNull | Some v \<Rightarrow> v)"

definition or_empty :: "json \<Rightarrow> json" where
  "or_empty v = (if truthy v then v else JDict [])"

definition py_or :: "json \<Rightarrow> json \<Rightarrow> json" where
  "py_or v w = (if truthy v then v else w)"

text \<open>
  \<open>int(v)\<close> and \<open>float(v)\<close>, \<open>None\<close> where Python raises.  \<open>int\<close> of a number cuts towards zero; a text is not read as a
  \<open>float\<close> here: the modelled code converts only numbers of a protocol to \<open>float\<close>.
\<close>

fun json_int :: "json \<Rightarrow> int option" where
  "json_int (JNum r) = Some (if 0 \<le> r then \<lfloor>r\<rfloor> else \<lceil>r\<rceil>)"
| "json_int (JBool b) = Some (if b then 1 else 0)"
| "json_int (JStr s) = py_int s"
| "json_int _ = None"

fun json_float :: "json \<Rightarrow> rat option" where
  "json_float (JNum r) = Some r"
| "json_float (JBool b) = Some (if b then 1 else 0)"
| "json_float _ = None"

fun json_str :: "json \<Rightarrow> string option" where
  "json_str (JStr s) = Some s"
| "json_str _ = None"

fun json_dict :: "json \<Rightarrow> params" where
  "json_dict (JDict d) = d"
| "json_dict _ = []"

end
