(* ===== verification/Macro_State.thy ===== *)
theory Macro_State
  imports Json
begin

text \<open>
  The data of \<open>app/macros.py\<close>: the steps of a macro in the form of blocks
  (\<open>blocks/v1\<close>) and the nodes and edges of a macro in the form of a graph (\<open>nodes/v2\<close>), with
  \<open>validate_graph\<close>.

  A step is a dictionary whose key \<open>type\<close> says what it is: \<open>SIf\<close> is \<open>type: "if"\<close>, \<open>SPar\<close> is
  \<open>type: "parallel"\<close> and \<open>SDo t p\<close> is every other step, \<open>t\<close> its type and \<open>p\<close> its other keys.
  The comment of a step is the value of its key \<open>comment\<close>, \<open>JNull\<close> when it has none.  The \<open>params\<close> of a
  node never have a key \<open>type\<close>, and the port of an edge is the number \<open>int(e.get("port") or 0)\<close>.
\<close>

text \<open>The key \<open>comment\<close> that \<open>_with_comment\<close> adds.\<close>

definition with_comment :: "params \<Rightarrow> json \<Rightarrow> params" where
  "with_comment p cm = (if truthy cm then dict_put ''comment'' cm p else p)"

datatype step =
    SIf json json "step list" "step list"
  | SPar json "step list list"
  | SDo string params

record node =
  nid :: string
  ntype :: string
  nparams :: params
  nx :: int
  ny :: int

record edge =
  efrom :: string
  eport :: int
  eto :: string

record graph =
  gnodes :: "node list"
  gedges :: "edge list"

text \<open>What a macro stores: \<open>Blocks\<close> is the format \<open>blocks/v1\<close>, \<open>Nodes\<close> the format \<open>nodes/v2\<close>.\<close>

datatype mgraph = Blocks "step list" | Nodes graph

subsection \<open>Steps that can be disabled\<close>

definition disableable_types :: "string list" where
  "disableable_types = [''action'', ''config'', ''post'', ''sleep'', ''wait'', ''set_var'', ''macro'']"

definition is_disabled :: "string \<Rightarrow> params \<Rightarrow> bool" where
  "is_disabled t p \<longleftrightarrow> t \<in> set disableable_types \<and> truthy (pget p ''disabled'')"

definition leaf_types :: "string list" where
  "leaf_types = [''action'', ''config'', ''post'', ''sleep'', ''wait'', ''set_var'']"

subsection \<open>Validation of a graph\<close>

definition graph_node_types :: "string list" where
  "graph_node_types = [''entry'', ''action'', ''config'', ''post'', ''sleep'', ''set_var'',
     ''wait'', ''macro'', ''cond'', ''choice'', ''join'']"

text \<open>\<open>len(v or [])\<close> of the JSON value of the key \<open>branches\<close>; a number has no length.\<close>

fun json_len :: "json \<Rightarrow> nat" where
  "json_len (JList l) = length l"
| "json_len (JDict d) = length d"
| "json_len (JStr s) = length s"
| "json_len _ = 0"

definition node_out_ports :: "node \<Rightarrow> nat" where
  "node_out_ports n =
     (if ntype n = ''cond'' then 2
      else if ntype n = ''choice'' then json_len (pget (nparams n) ''branches'') + 1
      else 1)"

datatype gerr =
    NodeWithoutId
  | DuplicateId string
  | UnknownType string string
  | EdgeFromUnknown string
  | EdgeToUnknown string
  | BadPort int string
  | NoEntry

text \<open>The loop over the nodes fills \<open>by_id\<close>; a node without an id is not entered.\<close>

fun check_nodes :: "(string \<times> node) list \<Rightarrow> node list \<Rightarrow> gerr list \<times> (string \<times> node) list" where
  "check_nodes by_id [] = ([], by_id)"
| "check_nodes by_id (n # ns) =
     (if nid n = [] then
        (let (es, d) = check_nodes by_id ns in (NodeWithoutId # es, d))
      else
        (let dup = (if map_of by_id (nid n) \<noteq> None then [DuplicateId (nid n)] else []);
             ty = (if ntype n \<notin> set graph_node_types then [UnknownType (ntype n) (nid n)] else []);
             (es, d) = check_nodes (dict_put (nid n) n by_id) ns
         in (dup @ ty @ es, d)))"

definition check_edge :: "(string \<times> node) list \<Rightarrow> edge \<Rightarrow> gerr list" where
  "check_edge by_id e =
     (if map_of by_id (efrom e) = None then [EdgeFromUnknown (efrom e)] else [])
     @ (if map_of by_id (eto e) = None then [EdgeToUnknown (eto e)] else [])
     @ (case map_of by_id (efrom e) of
          None \<Rightarrow> []
        | Some n \<Rightarrow> if 0 \<le> eport e \<and> eport e < int (node_out_ports n) then []
                    else [BadPort (eport e) (efrom e)])"

definition validate_graph :: "graph \<Rightarrow> gerr list" where
  "validate_graph g =
     (let (errs, by_id) = check_nodes [] (gnodes g)
      in errs @ concat (map (check_edge by_id) (gedges g))
         @ (if \<exists>n \<in> set (gnodes g). ntype n = ''entry'' then [] else [NoEntry]))"

subsection \<open>Reading a graph\<close>

text \<open>
  \<open>{n["id"]: n for n in nodes}\<close> (a later node of the same id wins), the edges that leave a port
  with their position in the list of edges, and the targets of all edges that leave a node.
\<close>

definition node_of :: "graph \<Rightarrow> string \<Rightarrow> node option" where
  "node_of g = map_of (rev (map (\<lambda>n. (nid n, n)) (gnodes g)))"

definition outs :: "graph \<Rightarrow> string \<Rightarrow> int \<Rightarrow> (string \<times> nat) list" where
  "outs g f p = map (\<lambda>(i, e). (eto e, i))
     (filter (\<lambda>(i, e). efrom e = f \<and> eport e = p) (enumerate 0 (gedges g)))"

definition succs :: "graph \<Rightarrow> string \<Rightarrow> string list" where
  "succs g f = map eto (filter (\<lambda>e. efrom e = f) (gedges g))"

definition mode_of :: "node \<Rightarrow> json" where
  "mode_of n = pget (nparams n) ''mode''"

definition mode_is :: "string \<Rightarrow> string \<Rightarrow> node \<Rightarrow> bool" where
  "mode_is dflt m n = ((if truthy (mode_of n) then mode_of n else JStr dflt) = JStr m)"

end
