(* ===== verification/Macro_Compile.thy ===== *)
theory Macro_Compile
  imports Macro_State
begin

text \<open>
  \<open>blocks_to_graph\<close> of \<open>app/macros.py\<close>: the compilation of a list of blocks into a graph.

  The counter \<open>seq\<close> of the code is the first argument of \<open>build\<close>; the nodes and the edges the code
  appends to its lists are returned in the order in which it appends them.  \<open>tails\<close> are the ports the
  next node is attached to.
\<close>

definition nname :: "nat \<Rightarrow> string" where
  "nname k = CHR ''n'' # str_nat k"

definition new_node :: "nat \<Rightarrow> string \<Rightarrow> params \<Rightarrow> node" where
  "new_node k t p = \<lparr>nid = nname k, ntype = t, nparams = p, nx = 0, ny = 0\<rparr>"

definition attach :: "(string \<times> int) list \<Rightarrow> string \<Rightarrow> edge list" where
  "attach tails t = map (\<lambda>(f, p). \<lparr>efrom = f, eport = p, eto = t\<rparr>) tails"

fun build :: "nat \<Rightarrow> step list \<Rightarrow> (string \<times> int) list
      \<Rightarrow> nat \<times> node list \<times> edge list \<times> (string \<times> int) list"
  and build_branches :: "nat \<Rightarrow> step list list \<Rightarrow> (string \<times> int) list \<Rightarrow> string
      \<Rightarrow> nat \<times> node list \<times> edge list" where
  "build n [] tails = (n, [], [], tails)"
| "build n (SIf c cm th el # ss) tails =
     (let c0 = new_node (Suc n) ''cond'' (with_comment [(''cond'', or_empty c)] cm);
          (n1, ns1, es1, t1) = build (Suc n) th [(nid c0, 0)];
          (n2, ns2, es2, t2) = build n1 el [(nid c0, 1)];
          (n3, ns3, es3, t3) = build n2 ss (t1 @ t2)
      in (n3, c0 # ns1 @ ns2 @ ns3, attach tails (nid c0) @ es1 @ es2 @ es3, t3))"
| "build n (SPar cm bs # ss) tails =
     (let (n0, ns0, es0, tl0) =
            (if 1 < length tails
             then (let m = new_node (Suc n) ''join'' [(''mode'', JStr ''any'')]
                   in (Suc n, [m], attach tails (nid m), [(nid m, 0)]))
             else (n, [], [], tails));
          j = new_node (Suc n0) ''join'' (with_comment [(''mode'', JStr ''all'')] cm);
          (n1, ns1, es1) = build_branches (Suc n0) bs tl0 (nid j);
          (n2, ns2, es2, t2) = build n1 ss [(nid j, 0)]
      in (n2, ns0 @ j # ns1 @ ns2, es0 @ es1 @ es2, t2))"
| "build n (SDo t p # ss) tails =
     (let d = new_node (Suc n) t p;
          (n1, ns1, es1, t1) = build (Suc n) ss [(nid d, 0)]
      in (n1, d # ns1, attach tails (nid d) @ es1, t1))"
| "build_branches n [] tails j = (n, [], [])"
| "build_branches n (b # bs) tails j =
     (let (n1, ns1, es1, t1) = build n b tails;
          (n2, ns2, es2) = build_branches n1 bs tails j
      in (n2, ns1 @ ns2, es1 @ attach t1 j @ es2))"

subsection \<open>Positions\<close>

text \<open>
  \<open>_layout\<close>: a pass pushes the target of every edge to a layer after its source; passes are repeated
  until one moves nothing, at most once per node.
\<close>

fun relax :: "edge list \<Rightarrow> (string \<Rightarrow> nat) \<Rightarrow> bool \<Rightarrow> (string \<Rightarrow> nat) \<times> bool" where
  "relax [] layer moved = (layer, moved)"
| "relax (e # es) layer moved =
     (if layer (eto e) < layer (efrom e) + 1
      then relax es (layer(eto e := layer (efrom e) + 1)) True
      else relax es layer moved)"

fun layers :: "nat \<Rightarrow> edge list \<Rightarrow> (string \<Rightarrow> nat) \<Rightarrow> (string \<Rightarrow> nat)" where
  "layers 0 es layer = layer"
| "layers (Suc k) es layer =
     (let (layer', moved) = relax es layer False
      in if moved then layers k es layer' else layer')"

fun place :: "(string \<Rightarrow> nat) \<Rightarrow> (nat \<Rightarrow> nat) \<Rightarrow> node list \<Rightarrow> node list" where
  "place layer lanes [] = []"
| "place layer lanes (n # ns) =
     (let l = layer (nid n)
      in n\<lparr>nx := 60 + 230 * int l, ny := 60 + 110 * int (lanes l)\<rparr>
         # place layer (lanes(l := lanes l + 1)) ns)"

definition layout :: "node list \<Rightarrow> edge list \<Rightarrow> node list" where
  "layout ns es = place (layers (length ns) es (\<lambda>_. 0)) (\<lambda>_. 0) ns"

definition blocks_to_graph :: "step list \<Rightarrow> graph" where
  "blocks_to_graph ss =
     (let e = new_node 1 ''entry'' [(''mode'', JStr ''manual'')];
          (n, ns, es, t) = build 1 ss [(nid e, 0)]
      in \<lparr>gnodes = layout (e # ns) es, gedges = es\<rparr>)"

end
