(* ===== verification/Macro_Parse.thy ===== *)
theory Macro_Parse
  imports Macro_Compile
begin

text \<open>
  \<open>graph_to_blocks\<close> of \<open>app/macros.py\<close>: the blocks of a graph that is well nested, or the reason
  why it has no blocks.

  The closures of the code share two sets, \<open>consumed\<close> (the nodes that became a step) and \<open>used\<close>
  (the positions of the edges that were followed): they are the record \<open>pst\<close>, passed from call to call.
  The recursion is not structural, so the parser takes fuel; \<open>Starved\<close> is a call without fuel, and
  \<open>graph_to_blocks\<close> gives two units per node and two more, because every second call at
  most consumes a node that was not consumed before.
\<close>

datatype unstructured =
    InvalidGraph "gerr list"
  | SeveralEntries
  | TriggerEntry
  | AmbiguousMerge
  | ReachedTwice string
  | DeadBranch
  | FanOutWithoutJoin
  | JoinAllOutside
  | NotABlock string string
  | OutsideStructure
  | KeyError string

datatype 'a res = Done 'a | Failed unstructured | Starved

fun bind_res :: "'a res \<Rightarrow> ('a \<Rightarrow> 'b res) \<Rightarrow> 'b res" where
  "bind_res (Done x) f = f x"
| "bind_res (Failed e) f = Failed e"
| "bind_res Starved f = Starved"

lemma bind_res_eq_Done:
  "bind_res r f = Done y \<longleftrightarrow> (\<exists>x. r = Done x \<and> f x = Done y)"
  by (cases r) auto

subsection \<open>Reachability\<close>

text \<open>
  \<open>_reach\<close>: the nodes reachable from a node, itself included.  The stack is a list whose head is its
  top; the new successors are pushed one after the other.
\<close>

fun push_new :: "string list \<Rightarrow> string list \<Rightarrow> string list \<Rightarrow> string list \<times> string list" where
  "push_new [] seen stack = (seen, stack)"
| "push_new (t # ts) seen stack =
     (if t \<in> set seen then push_new ts seen stack else push_new ts (t # seen) (t # stack))"

lemma push_new_set:
  "push_new ts seen stack = (seen', stack') \<Longrightarrow>
   set seen' = set seen \<union> set ts \<and> set stack' = set stack \<union> (set ts - set seen) \<and>
   (distinct seen \<longrightarrow> distinct seen') \<and>
   (seen' = seen \<and> stack' = stack \<or> (\<exists>t \<in> set ts. t \<notin> set seen))"
proof (induction ts seen stack rule: push_new.induct)
  case (2 t ts seen stack)
  then show ?case by (cases "t \<in> set seen") auto
qed auto

function reach_loop :: "graph \<Rightarrow> string list \<Rightarrow> string list \<Rightarrow> string list" where
  "reach_loop g seen [] = seen"
| "reach_loop g seen (x # stack) =
     (let (seen', stack') = push_new (succs g x) seen stack in reach_loop g seen' stack')"
  by pat_completeness auto

termination
proof (relation "measures [\<lambda>(g, seen, stack). card (eto ` set (gedges g) - set seen),
    \<lambda>(g, seen, stack). length stack]", goal_cases)
  case (2 g seen x stack s seen' stack')
  let ?T = "eto ` set (gedges g)"
  have s: "push_new (succs g x) seen stack = (seen', stack')" using 2 by simp
  have sub: "set (succs g x) \<subseteq> ?T" by (auto simp: succs_def)
  from push_new_set [OF s] consider (same) "seen' = seen" "stack' = stack"
    | (new) t where "t \<in> set (succs g x)" "t \<notin> set seen" "set seen' = set seen \<union> set (succs g x)"
    by blast
  then show ?case
  proof cases
    case same
    then show ?thesis by simp
  next
    case new
    then have "?T - set seen' \<subset> ?T - set seen" using sub by auto
    then have "card (?T - set seen') < card (?T - set seen)" by (simp add: psubset_card_mono)
    then show ?thesis by simp
  qed
qed simp

definition reach :: "graph \<Rightarrow> string \<Rightarrow> string list" where
  "reach g x = reach_loop g [x] [x]"

subsection \<open>Where branches meet\<close>

text \<open>
  \<open>_merge_of\<close>: the common node of all branches that reaches every other common node;
  \<open>Done None\<close> when no node is common.
\<close>

definition merge_of :: "graph \<Rightarrow> string list list \<Rightarrow> string option res" where
  "merge_of g groups =
     (let sets = map (\<lambda>hs. remdups (concat (map (reach g) hs))) groups;
          common = (case sets of [] \<Rightarrow> [] | s # ss \<Rightarrow> filter (\<lambda>x. \<forall>s' \<in> set ss. x \<in> set s') s)
      in if common = [] then Done None
         else (case filter (\<lambda>c. set common \<subseteq> set (reach g c)) common of
                 [c] \<Rightarrow> Done (Some c)
               | _ \<Rightarrow> Failed AmbiguousMerge))"

subsection \<open>The parser\<close>

record pst =
  consumed :: "string set"
  used :: "nat set"

definition consume :: "string \<Rightarrow> pst \<Rightarrow> pst res" where
  "consume x st =
     (if x \<in> consumed st then Failed (ReachedTwice x)
      else Done (st\<lparr>consumed := insert x (consumed st)\<rparr>))"

definition use_edge :: "nat \<Rightarrow> pst \<Rightarrow> pst" where
  "use_edge i st = st\<lparr>used := insert i (used st)\<rparr>"

definition is_join_all :: "graph \<Rightarrow> string option \<Rightarrow> bool" where
  "is_join_all g j =
     (case j of None \<Rightarrow> False
      | Some x \<Rightarrow> (case node_of g x of None \<Rightarrow> False
                   | Some n \<Rightarrow> ntype n = ''join'' \<and> mode_is ''all'' ''all'' n))"

definition comment_of :: "graph \<Rightarrow> string \<Rightarrow> json" where
  "comment_of g x =
     (case node_of g x of None \<Rightarrow> JNull
      | Some n \<Rightarrow> (let c = pget (nparams n) ''comment'' in if truthy c then c else JNull))"

function (sequential) parse_outs :: "nat \<Rightarrow> graph \<Rightarrow> pst \<Rightarrow> string \<Rightarrow> int \<Rightarrow> string option \<Rightarrow> (step list \<times> pst) res"
  and parse_from :: "nat \<Rightarrow> graph \<Rightarrow> pst \<Rightarrow> string \<Rightarrow> string option \<Rightarrow> (step list \<times> pst) res"
  and parse_branches :: "nat \<Rightarrow> graph \<Rightarrow> pst \<Rightarrow> (string \<times> nat) list \<Rightarrow> string option
        \<Rightarrow> (step list list \<times> pst) res" where
  "parse_outs 0 g st f p stop = Starved"
| "parse_outs (Suc k) g st f p stop =
     (case outs g f p of
        [] \<Rightarrow> if stop = None then Done ([], st) else Failed DeadBranch
      | [(t, i)] \<Rightarrow> parse_from k g (use_edge i st) t stop
      | ls \<Rightarrow>
          bind_res (merge_of g (map (\<lambda>(t, i). [t]) ls)) (\<lambda>m.
          case m of None \<Rightarrow> Failed FanOutWithoutJoin
          | Some j \<Rightarrow>
              if \<not> is_join_all g (Some j) then Failed FanOutWithoutJoin
              else
                bind_res (parse_branches k g st ls (Some j)) (\<lambda>(bs, st1).
                bind_res (consume j st1) (\<lambda>st2.
                bind_res (parse_outs k g st2 j 0 stop) (\<lambda>(ss, st3).
                Done (SPar (comment_of g j) bs # ss, st3))))))"
| "parse_from 0 g st x stop = Starved"
| "parse_from (Suc k) g st x stop =
     (if stop = Some x then Done ([], st)
      else
        (case node_of g x of None \<Rightarrow> Failed (KeyError x)
         | Some n \<Rightarrow>
             if ntype n = ''cond'' then
               bind_res (consume x st) (\<lambda>st0.
               let hs0 = map fst (outs g x 0); hs1 = map fst (outs g x 1)
               in bind_res (if hs0 \<noteq> [] \<and> hs1 \<noteq> [] then merge_of g [hs0, hs1] else Done None) (\<lambda>m.
                  bind_res (parse_outs k g st0 x 0 m) (\<lambda>(th, st1).
                  bind_res (parse_outs k g st1 x 1 m) (\<lambda>(el, st2).
                  let s = SIf (or_empty (pget (nparams n) ''cond'')) (comment_of g x) th el
                  in case m of None \<Rightarrow> Done ([s], st2)
                     | Some y \<Rightarrow> bind_res (parse_from k g st2 y stop) (\<lambda>(ss, st3). Done (s # ss, st3))))))
             else if ntype n = ''join'' then
               (if \<not> mode_is ''all'' ''any'' n then Failed JoinAllOutside
                else bind_res (consume x st) (\<lambda>st0. parse_outs k g st0 x 0 stop))
             else if ntype n \<in> {''entry'', ''choice''} then Failed (NotABlock x (ntype n))
             else
               bind_res (consume x st) (\<lambda>st0.
               bind_res (parse_outs k g st0 x 0 stop) (\<lambda>(ss, st1).
               Done (SDo (ntype n) (nparams n) # ss, st1)))))"
| "parse_branches k g st [] j = Done ([], st)"
| "parse_branches k g st (l # ls) j =
     (case k of 0 \<Rightarrow> Starved
      | Suc k' \<Rightarrow>
          bind_res (parse_from k' g (use_edge (snd l) st) (fst l) j) (\<lambda>(b, st1).
          bind_res (parse_branches k g st1 ls j) (\<lambda>(bs, st2).
          Done (b # bs, st2))))"
  by pat_completeness auto

termination
  by (relation "measures
    [\<lambda>a. case a of Inl (k, _) \<Rightarrow> k | Inr (Inl (k, _)) \<Rightarrow> k | Inr (Inr (k, _)) \<Rightarrow> k,
     \<lambda>a. case a of Inr (Inr (_, _, _, ls, _)) \<Rightarrow> length ls | _ \<Rightarrow> 0]") simp_all

text \<open>
  The tests of \<open>graph_to_blocks\<close>: a valid graph, one entry, started by hand, everything consumed at
  the end.
\<close>

definition graph_to_blocks :: "graph \<Rightarrow> step list res" where
  "graph_to_blocks g =
     (let errs = validate_graph g;
          entries = filter (\<lambda>n. ntype n = ''entry'') (gnodes g);
          k = 2 * length (gnodes g) + 2
      in if errs \<noteq> [] then Failed (InvalidGraph errs)
         else (case entries of
                 [e] \<Rightarrow>
                   if \<not> mode_is ''manual'' ''manual'' e then Failed TriggerEntry
                   else
                     bind_res (parse_outs k g \<lparr>consumed = {nid e}, used = {}\<rparr> (nid e) 0 None) (\<lambda>(ss, st).
                     if card (consumed st) \<noteq> length (gnodes g)
                        \<or> card (used st) \<noteq> length (gedges g)
                     then Failed OutsideStructure else Done ss)
               | _ \<Rightarrow> Failed SeveralEntries))"

definition graph_is_structured :: "graph \<Rightarrow> bool" where
  "graph_is_structured g = (case graph_to_blocks g of Done ss \<Rightarrow> True | _ \<Rightarrow> False)"

definition macro_structured :: "mgraph \<Rightarrow> bool" where
  "macro_structured m = (case m of Blocks ss \<Rightarrow> True | Nodes g \<Rightarrow> graph_is_structured g)"

end
