(* ===== verification/Macro_Run.thy ===== *)
theory Macro_Run
  imports Macro_Parse
begin

text \<open>
  The two engines of \<open>app/macros.py\<close>: \<open>_run_steps\<close> for blocks and the token interpreter
  \<open>_run_graph\<close> for graphs.

  What a step does to the containers, and what a condition reads, depends on the answers of the containers:
  the record \<open>world\<close> holds them as functions on a state of an arbitrary type, next to the cancel event, the data base of macros, the
  scheduler (\<open>w_pick\<close> chooses one of several threads that can go on) and the time-out of
  \<open>th.join(timeout=120)\<close> (\<open>w_late\<close>).  A thread is interleaved with the others between two steps,
  a token between two phases of its loop.
\<close>

datatype rerr =
    Cancelled
  | TooDeep
  | NoSuchMacro json
  | UnknownStep string
  | LoopLimit string
  | Raised string
  | AtNode string rerr
  | Several "rerr list"
  | BadGraph "gerr list"
  | BadEntry string
  | NoManualEntry
  | NoSuchNode string

record 's world =
  w_leaf :: "string \<Rightarrow> params \<Rightarrow> 's \<Rightarrow> string option \<times> 's"
  w_cond :: "json \<Rightarrow> 's \<Rightarrow> (string + bool) \<times> 's"
  w_cancelled :: "'s \<Rightarrow> bool"
  w_macro :: "json \<Rightarrow> 's \<Rightarrow> mgraph option"
  w_pick :: "nat \<Rightarrow> 's \<Rightarrow> nat \<times> 's"
  w_late :: "'s \<Rightarrow> bool \<times> 's"

definition max_depth :: nat where
  "max_depth = 5"

definition node_visits_max :: nat where
  "node_visits_max = 1000"

subsection \<open>A step that is not a structure\<close>

text \<open>
  The same in both engines: a disabled step is skipped, a macro runs synchronously one level deeper (\<open>sub\<close> is that
  run, \<open>None\<close> at the greatest depth), a leaf is executed, any other type is refused.
\<close>

definition exec_do :: "'s world \<Rightarrow> (mgraph \<Rightarrow> 's \<Rightarrow> rerr option \<times> 's) option
    \<Rightarrow> string \<Rightarrow> params \<Rightarrow> 's \<Rightarrow> rerr option \<times> 's" where
  "exec_do W sub t p s =
     (if is_disabled t p then (None, s)
      else if t = ''macro'' then
        (case sub of None \<Rightarrow> (Some TooDeep, s)
         | Some run \<Rightarrow>
             (case w_macro W (pget p ''macro_id'') s of
                None \<Rightarrow> (Some (NoSuchMacro (pget p ''macro_id'')), s)
              | Some m \<Rightarrow> run m s))
      else if t \<in> set leaf_types then
        (case w_leaf W t p s of (e, s') \<Rightarrow> (map_option Raised e, s'))
      else (Some (UnknownStep t), s))"

type_synonym 's exec = "string \<Rightarrow> params \<Rightarrow> 's \<Rightarrow> rerr option \<times> 's"

subsection \<open>The engine of the blocks\<close>

text \<open>
  A thread of \<open>_run_steps\<close>: the steps it still has to do, waiting for the branches of a \<open>parallel\<close> with
  the errors they raised so far, going on beside branches that \<open>join\<close> gave up, or finished.
\<close>

datatype thread =
    Todo "step list"
  | Wait "thread list" "rerr list" "step list"
  | Detached "thread list" thread
  | Ended "rerr option"

fun outcome :: "thread \<Rightarrow> rerr option option" where
  "outcome (Ended r) = Some r"
| "outcome (Detached cs t) = outcome t"
| "outcome _ = None"

definition alive :: "thread list \<Rightarrow> nat" where
  "alive cs = length (filter (\<lambda>c. outcome c = None) cs)"

definition new_error :: "thread \<Rightarrow> rerr list" where
  "new_error t = (case outcome t of Some (Some e) \<Rightarrow> [e] | _ \<Rightarrow> [])"

definition pick :: "'s world \<Rightarrow> nat \<Rightarrow> 's \<Rightarrow> nat \<times> 's" where
  "pick W n s = (if n \<le> 1 then (0, s) else (case w_pick W n s of (i, s') \<Rightarrow> (i mod n, s')))"

text \<open>\<open>raise RuntimeError(" ; ".join(errs))\<close> when a branch failed, else on to the steps after the \<open>parallel\<close>.\<close>

definition after_join :: "rerr list \<Rightarrow> step list \<Rightarrow> thread" where
  "after_join errs ss = (if errs = [] then Todo ss else Ended (Some (Several errs)))"

fun bstep :: "'s world \<Rightarrow> 's exec \<Rightarrow> thread \<Rightarrow> 's \<Rightarrow> thread \<times> 's"
  and bstep_nth :: "'s world \<Rightarrow> 's exec \<Rightarrow> nat \<Rightarrow> thread list \<Rightarrow> 's \<Rightarrow> thread list \<times> rerr list \<times> 's" where
  "bstep W ex (Ended r) s = (Ended r, s)"
| "bstep W ex (Todo []) s = (Ended None, s)"
| "bstep W ex (Todo (st # ss)) s =
     (if w_cancelled W s then (Ended (Some Cancelled), s)
      else
        (case st of
           SDo t p \<Rightarrow>
             (case ex t p s of (None, s') \<Rightarrow> (Todo ss, s') | (Some e, s') \<Rightarrow> (Ended (Some e), s'))
         | SIf c cm th el \<Rightarrow>
             (case w_cond W (or_empty c) s of
                (Inl e, s') \<Rightarrow> (Ended (Some (Raised e)), s')
              | (Inr b, s') \<Rightarrow> (Todo ((if b then th else el) @ ss), s'))
         | SPar cm bs \<Rightarrow> (Wait (map Todo bs) [] ss, s)))"
| "bstep W ex (Wait cs errs ss) s =
     (if alive cs = 0 then (after_join errs ss, s)
      else
        (case w_late W s of (late, s1) \<Rightarrow>
           if late then (Detached cs (after_join errs ss), s1)
           else (case pick W (alive cs) s1 of (i, s2) \<Rightarrow>
             (case bstep_nth W ex i cs s2 of (cs', e, s3) \<Rightarrow> (Wait cs' (errs @ e) ss, s3)))))"
| "bstep W ex (Detached cs t) s =
     (case pick W (Suc (alive cs)) s of (i, s1) \<Rightarrow>
        if i < alive cs
        then (case bstep_nth W ex i cs s1 of (cs', e, s2) \<Rightarrow> (Detached cs' t, s2))
        else (case bstep W ex t s1 of (t', s2) \<Rightarrow> (Detached cs t', s2)))"
| "bstep_nth W ex i [] s = ([], [], s)"
| "bstep_nth W ex i (c # cs) s =
     (if outcome c \<noteq> None then
        (case bstep_nth W ex i cs s of (cs', e, s') \<Rightarrow> (c # cs', e, s'))
      else
        (case i of
           0 \<Rightarrow> (case bstep W ex c s of (c', s') \<Rightarrow> (c' # cs, new_error c', s'))
         | Suc i' \<Rightarrow> (case bstep_nth W ex i' cs s of (cs', e, s') \<Rightarrow> (c # cs', e, s'))))"

text \<open>Every step of a thread that has not ended makes it smaller, so a run of blocks ends.\<close>

fun todo_size :: "step list \<Rightarrow> nat"
  and todo_sizes :: "step list list \<Rightarrow> nat" where
  "todo_size [] = 0"
| "todo_size (SIf c cm th el # ss) = Suc (todo_size th + todo_size el + todo_size ss)"
| "todo_size (SPar cm bs # ss) = todo_sizes bs + todo_size ss + 3"
| "todo_size (SDo t p # ss) = Suc (todo_size ss)"
| "todo_sizes [] = 0"
| "todo_sizes (b # bs) = Suc (todo_size b) + todo_sizes bs"

fun thread_size :: "thread \<Rightarrow> nat" where
  "thread_size (Ended r) = 0"
| "thread_size (Todo ss) = Suc (todo_size ss)"
| "thread_size (Wait cs errs ss) = sum_list (map thread_size cs) + todo_size ss + 3"
| "thread_size (Detached cs t) = sum_list (map thread_size cs) + thread_size t + 1"

lemma todo_size_append [simp]: "todo_size (xs @ ys) = todo_size xs + todo_size ys"
  by (induction xs rule: todo_size_todo_sizes.induct(1) [where Q = "\<lambda>_. True"]) simp_all

lemma todo_sizes_map: "sum_list (map (\<lambda>b. Suc (todo_size b)) bs) = todo_sizes bs"
  by (induction bs) simp_all

lemma pick_less: "0 < n \<Longrightarrow> pick W n s = (i, s') \<Longrightarrow> i < n"
  by (auto simp: pick_def split: if_splits prod.splits)

lemma after_join_size: "thread_size (after_join errs ss) \<le> Suc (todo_size ss)"
  by (simp add: after_join_def)

lemma alive_Cons: "alive (c # cs) = (if outcome c = None then Suc (alive cs) else alive cs)"
  by (simp add: alive_def)

lemma bstep_smaller:
  shows "outcome t = None \<Longrightarrow> thread_size (fst (bstep W ex t s)) < thread_size t"
    and "i < alive cs \<Longrightarrow>
      sum_list (map thread_size (fst (bstep_nth W ex i cs s))) < sum_list (map thread_size cs)"
proof (induction W ex t s and W ex i cs s rule: bstep_bstep_nth.induct)
  case (3 W ex st ss s)
  then show ?case
    by (cases st) (auto split: prod.splits option.splits sum.splits simp: todo_sizes_map comp_def)
next
  case (4 W ex cs errs ss s)
  then show ?case
    using after_join_size [of errs ss] pick_less [of "alive cs" W]
    by (auto split: prod.splits)
next
  case (5 W ex cs t s)
  then show ?case by (fastforce split: prod.splits)
next
  case (7 W ex i c cs s)
  then show ?case by (auto split: prod.splits nat.splits simp: alive_Cons)
qed (simp_all add: alive_def)

function run_thread :: "'s world \<Rightarrow> 's exec \<Rightarrow> thread \<Rightarrow> 's \<Rightarrow> rerr option \<times> 's" where
  "run_thread W ex t s =
     (case outcome t of
        Some r \<Rightarrow> (r, s)
      | None \<Rightarrow> (case bstep W ex t s of (t', s') \<Rightarrow> run_thread W ex t' s'))"
  by pat_completeness auto

termination
proof (relation "measure (\<lambda>(W, ex, t, s). thread_size t)", goal_cases)
  case (2 W ex t s t' s')
  from 2(2) have "thread_size t' = thread_size (fst (bstep W ex t s))" by (metis fst_conv)
  then show ?case using bstep_smaller(1) [OF 2(1), of W ex s] by simp
qed simp

declare run_thread.simps [simp del]

definition run_steps :: "'s world \<Rightarrow> 's exec \<Rightarrow> step list \<Rightarrow> 's \<Rightarrow> rerr option \<times> 's" where
  "run_steps W ex ss s = run_thread W ex (Todo ss) s"

subsection \<open>The token interpreter\<close>

text \<open>Where a token is in the loop of \<open>_token\<close>: before the visit, at a join, before and after the execution.\<close>

datatype token =
    AtVisit string
  | AtJoin string
  | AtExec string
  | AtNext string int

record gst =
  visits :: "string \<Rightarrow> nat"
  arrived :: "string \<Rightarrow> nat"
  fired :: "string \<Rightarrow> bool"
  gerrors :: "rerr list"

definition gst0 :: gst where
  "gst0 = \<lparr>visits = (\<lambda>_. 0), arrived = (\<lambda>_. 0), fired = (\<lambda>_. False), gerrors = []\<rparr>"

definition add_error :: "rerr \<Rightarrow> gst \<Rightarrow> gst" where
  "add_error e st = st\<lparr>gerrors := gerrors st @ [e]\<rparr>"

text \<open>\<open>_join_pass\<close>; \<open>expect\<close> is \<open>expected_in.get(nid, 1)\<close>.\<close>

definition join_pass :: "node \<Rightarrow> nat \<Rightarrow> gst \<Rightarrow> bool \<times> gst" where
  "join_pass n expect st =
     (let x = nid n in
      if mode_is ''all'' ''any'' n then
        (if fired st x then (False, st) else (True, st\<lparr>fired := (fired st)(x := True)\<rparr>))
      else if Suc (arrived st x) < max 1 expect
        then (False, st\<lparr>arrived := (arrived st)(x := Suc (arrived st x))\<rparr>)
        else (True, st\<lparr>arrived := (arrived st)(x := 0)\<rparr>))"

text \<open>The conditions of a \<open>choice\<close>, in order; the port after the last branch is the default.\<close>

fun json_items :: "json \<Rightarrow> json list" where
  "json_items (JList l) = l"
| "json_items (JDict d) = map (JStr \<circ> fst) d"
| "json_items (JStr s) = map (\<lambda>c. JStr [c]) s"
| "json_items _ = []"

fun branch_cond :: "json \<Rightarrow> json" where
  "branch_cond (JDict d) = (case map_of d ''cond'' of Some c \<Rightarrow> c | None \<Rightarrow> JDict d)"
| "branch_cond br = br"

fun choose_port :: "'s world \<Rightarrow> int \<Rightarrow> json list \<Rightarrow> 's \<Rightarrow> (rerr + int) \<times> 's" where
  "choose_port W i [] s = (Inr i, s)"
| "choose_port W i (br # brs) s =
     (case w_cond W (or_empty (branch_cond br)) s of
        (Inl e, s') \<Rightarrow> (Inl (Raised e), s')
      | (Inr b, s') \<Rightarrow> if b then (Inr i, s') else choose_port W (i + 1) brs s')"

definition exec_node :: "'s world \<Rightarrow> 's exec \<Rightarrow> node \<Rightarrow> 's \<Rightarrow> (rerr + int) \<times> 's" where
  "exec_node W ex n s =
     (if is_disabled (ntype n) (nparams n) then (Inr 0, s)
      else if ntype n \<in> {''entry'', ''join''} then (Inr 0, s)
      else if ntype n = ''cond'' then
        (case w_cond W (or_empty (pget (nparams n) ''cond'')) s of
           (Inl e, s') \<Rightarrow> (Inl (Raised e), s')
         | (Inr b, s') \<Rightarrow> (Inr (if b then 0 else 1), s'))
      else if ntype n = ''choice'' then choose_port W 0 (json_items (pget (nparams n) ''branches'')) s
      else
        (case ex (ntype n) (nparams n) s of
           (None, s') \<Rightarrow> (Inr 0, s')
         | (Some e, s') \<Rightarrow> (Inl e, s')))"

text \<open>One phase of a token: the tokens it becomes (none when it dies, several on a fan-out).\<close>

fun token_step :: "'s world \<Rightarrow> 's exec \<Rightarrow> graph \<Rightarrow> (string \<Rightarrow> nat) \<Rightarrow> token \<Rightarrow> gst \<Rightarrow> 's
      \<Rightarrow> token list \<times> gst \<times> 's" where
  "token_step W ex g expect (AtVisit x) st s =
     (if w_cancelled W s then ([], add_error Cancelled st, s)
      else
        (case node_of g x of
           None \<Rightarrow> ([], add_error (NoSuchNode x) st, s)
         | Some n \<Rightarrow>
             (let st' = st\<lparr>visits := (visits st)(x := Suc (visits st x))\<rparr> in
              if node_visits_max < visits st' x then ([], add_error (LoopLimit x) st', s)
              else if ntype n = ''join'' then ([AtJoin x], st', s)
              else ([AtExec x], st', s))))"
| "token_step W ex g expect (AtJoin x) st s =
     (case node_of g x of
        None \<Rightarrow> ([], add_error (NoSuchNode x) st, s)
      | Some n \<Rightarrow> (case join_pass n (expect x) st of
          (passes, st') \<Rightarrow> (if passes then [AtExec x] else [], st', s)))"
| "token_step W ex g expect (AtExec x) st s =
     (case node_of g x of
        None \<Rightarrow> ([], add_error (NoSuchNode x) st, s)
      | Some n \<Rightarrow> (case exec_node W ex n s of
          (Inl e, s') \<Rightarrow> ([], add_error (AtNode x e) st, s')
        | (Inr p, s') \<Rightarrow> ([AtNext x p], st, s')))"
| "token_step W ex g expect (AtNext x p) st s = (map AtVisit (map fst (outs g x p)), st, s)"

text \<open>
  The thread \<open>i\<close> moves: its token stays in its place, the other branches of a fan-out are appended to the
  threads.
\<close>

definition tokens_step :: "'s world \<Rightarrow> 's exec \<Rightarrow> graph \<Rightarrow> (string \<Rightarrow> nat) \<Rightarrow> nat
      \<Rightarrow> token list \<times> gst \<times> 's \<Rightarrow> token list \<times> gst \<times> 's" where
  "tokens_step W ex g expect i c =
     (case c of (ts, st, s) \<Rightarrow>
        (case token_step W ex g expect (ts ! i) st s of
           (rs, st', s') \<Rightarrow> (take i ts @ take 1 rs @ drop (Suc i) ts @ drop 1 rs, st', s')))"

text \<open>
  What bounds a run: the visits that are left, each worth \<open>length (gedges g) + 3\<close>, and the phases every token has left before
  its next visit.
\<close>

fun token_weight :: "graph \<Rightarrow> token \<Rightarrow> nat" where
  "token_weight g (AtVisit x) = 1"
| "token_weight g (AtJoin x) = length (gedges g) + 3"
| "token_weight g (AtExec x) = length (gedges g) + 2"
| "token_weight g (AtNext x p) = length (gedges g) + 1"

definition visits_left :: "graph \<Rightarrow> gst \<Rightarrow> nat" where
  "visits_left g st = sum_list (map (\<lambda>n. node_visits_max - visits st (nid n)) (gnodes g))"

definition run_bound :: "graph \<Rightarrow> token list \<Rightarrow> gst \<Rightarrow> nat" where
  "run_bound g ts st = visits_left g st * (length (gedges g) + 3) + sum_list (map (token_weight g) ts)"

lemma node_of_mem: "node_of g x = Some n \<Longrightarrow> n \<in> set (gnodes g) \<and> nid n = x"
  by (auto simp: node_of_def dest!: map_of_SomeD)

lemma visits_left_mono:
  "(\<And>x. visits st x \<le> visits st' x) \<Longrightarrow> visits_left g st' \<le> visits_left g st"
  unfolding visits_left_def by (rule sum_list_mono) (simp add: diff_le_mono2)

lemma visits_left_visit:
  assumes "node_of g x = Some n" and "visits st x < node_visits_max"
  shows "Suc (visits_left g (st\<lparr>visits := (visits st)(x := Suc (visits st x))\<rparr>)) \<le> visits_left g st"
proof -
  obtain as bs where g: "gnodes g = as @ n # bs" and x: "nid n = x"
    using node_of_mem [OF assms(1)] by (metis split_list)
  let ?st = "st\<lparr>visits := (visits st)(x := Suc (visits st x))\<rparr>"
  let ?f = "\<lambda>st n. node_visits_max - visits st (nid n)"
  have "sum_list (map (?f ?st) ns) \<le> sum_list (map (?f st) ns)" for ns
    by (rule sum_list_mono) (auto simp: diff_le_mono2)
  from this [of as] this [of bs] show ?thesis using assms(2) x unfolding visits_left_def g by simp
qed

lemma length_outs: "length (outs g x p) \<le> length (gedges g)"
  unfolding outs_def by (simp add: le_trans [OF length_filter_le])

lemma sum_weight_visit: "sum_list (map (token_weight g \<circ> (AtVisit \<circ> fst)) xs) = length xs"
  by (induction xs) simp_all

lemma visits_add_error [simp]: "visits (add_error e st) = visits st"
  by (simp add: add_error_def)

lemma visits_left_add_error [simp]: "visits_left g (add_error e st) = visits_left g st"
  by (simp add: visits_left_def)

lemma visits_left_join: "join_pass n k st = (b, st') \<Longrightarrow> visits_left g st' = visits_left g st"
  by (auto simp: join_pass_def Let_def visits_left_def split: if_splits)

lemma token_step_smaller:
  assumes "token_step W ex g expect t st s = (rs, st', s')"
  shows "run_bound g rs st' < run_bound g [t] st"
proof (cases t)
  case (AtVisit x)
  let ?st = "st\<lparr>visits := (visits st)(x := Suc (visits st x))\<rparr>"
  have le: "visits_left g ?st \<le> visits_left g st" by (rule visits_left_mono) simp
  show ?thesis
  proof (cases "w_cancelled W s \<or> node_of g x = None \<or> node_visits_max < Suc (visits st x)")
    case True
    then have "rs = [] \<and> (st' = add_error Cancelled st \<or> st' = add_error (NoSuchNode x) st \<or> st' = add_error (LoopLimit x) ?st)"
      using assms AtVisit by (auto simp: Let_def split: if_splits option.splits)
    then show ?thesis using le AtVisit by (auto simp: run_bound_def intro: le_imp_less_Suc mult_le_mono1)
  next
    case False
    then obtain n where n: "node_of g x = Some n" and v: "visits st x < node_visits_max" by auto
    have "st' = ?st \<and> (rs = [AtJoin x] \<or> rs = [AtExec x])"
      using assms AtVisit False n by (auto simp: Let_def split: if_splits)
    then show ?thesis using mult_le_mono1 [OF visits_left_visit [OF n v], of "length (gedges g) + 3"] AtVisit
      by (auto simp: run_bound_def)
  qed
next
  case (AtJoin x)
  then show ?thesis using assms visits_left_join
    by (auto simp: run_bound_def split: option.splits prod.splits if_splits)
next
  case (AtExec x)
  then show ?thesis using assms
    by (auto simp: run_bound_def split: option.splits prod.splits sum.splits)
next
  case (AtNext x p)
  then show ?thesis using assms length_outs [of g x p]
    by (auto simp: run_bound_def sum_weight_visit comp_assoc)
qed

lemma tokens_step_smaller:
  assumes "i < length ts" and "tokens_step W ex g expect i (ts, st, s) = (ts', st', s')"
  shows "run_bound g ts' st' < run_bound g ts st"
proof -
  obtain rs where r: "token_step W ex g expect (ts ! i) st s = (rs, st', s')"
    and ts': "ts' = take i ts @ take 1 rs @ drop (Suc i) ts @ drop 1 rs"
    using assms(2) by (auto simp: tokens_step_def split: prod.splits)
  let ?w = "\<lambda>ts. sum_list (map (token_weight g) ts)"
  have "?w ts = ?w (take i ts) + token_weight g (ts ! i) + ?w (drop (Suc i) ts)"
    using arg_cong [OF id_take_nth_drop [OF assms(1)], of ?w] by simp
  moreover have "?w rs = ?w (take 1 rs) + ?w (drop 1 rs)"
    by (cases rs) simp_all
  ultimately show ?thesis using token_step_smaller [OF r] ts' by (simp add: run_bound_def)
qed

text \<open>\<open>wait_all\<close>: the interpreter runs until no token is left.\<close>

function run_tokens :: "'s world \<Rightarrow> 's exec \<Rightarrow> graph \<Rightarrow> (string \<Rightarrow> nat) \<Rightarrow> token list \<Rightarrow> gst \<Rightarrow> 's
      \<Rightarrow> gst \<times> 's" where
  "run_tokens W ex g expect ts st s =
     (if ts = [] then (st, s)
      else (case pick W (length ts) s of (i, s1) \<Rightarrow>
        (case tokens_step W ex g expect i (ts, st, s1) of
           (ts', st', s') \<Rightarrow> run_tokens W ex g expect ts' st' s')))"
  by pat_completeness auto

termination
proof (relation "measure (\<lambda>(W, ex, g, expect, ts, st, s). run_bound g ts st)", goal_cases)
  case (2 W ex g expect ts st s i s1 ts' r st' s')
  have "i < length ts" using pick_less [of "length ts" W s i s1] 2(1,2) by (cases ts) simp_all
  moreover have e: "tokens_step W ex g expect i (ts, st, s1) = (ts', st', s')" using 2(3,4) by simp
  ultimately show ?case using tokens_step_smaller [of i ts W ex g expect st s1 ts' st' s'] by (simp add: e)
qed simp

declare run_tokens.simps [simp del]

text \<open>\<open>_run_graph\<close>: the entries that start, the arrivals every join expects, and the errors of the tokens.\<close>

definition start_nodes :: "graph \<Rightarrow> string option \<Rightarrow> rerr + string list" where
  "start_nodes g entry =
     (case entry of
        Some x \<Rightarrow>
          (case node_of g x of
             None \<Rightarrow> Inl (BadEntry x)
           | Some n \<Rightarrow> if ntype n = ''entry'' then Inr [x] else Inl (BadEntry x))
      | None \<Rightarrow>
          (let xs = map nid (filter (\<lambda>n. ntype n = ''entry'' \<and> mode_is ''manual'' ''manual'' n) (gnodes g))
           in if xs = [] then Inl NoManualEntry else Inr xs))"

definition reach_many :: "graph \<Rightarrow> string list \<Rightarrow> string list" where
  "reach_many g xs = reach_loop g (remdups xs) (rev xs)"

definition expected_in :: "graph \<Rightarrow> string list \<Rightarrow> string \<Rightarrow> nat" where
  "expected_in g starts =
     (let r = reach_many g starts
      in (\<lambda>x. let k = length (filter (\<lambda>e. eto e = x \<and> efrom e \<in> set r) (gedges g))
             in if k = 0 then 1 else k))"

definition run_graph :: "'s world \<Rightarrow> 's exec \<Rightarrow> graph \<Rightarrow> string option \<Rightarrow> 's \<Rightarrow> rerr option \<times> 's" where
  "run_graph W ex g entry s =
     (if validate_graph g \<noteq> [] then (Some (BadGraph (validate_graph g)), s)
      else
        (case start_nodes g entry of
           Inl e \<Rightarrow> (Some e, s)
         | Inr starts \<Rightarrow>
             (case run_tokens W ex g (expected_in g starts) (map AtVisit starts) gst0 s of
                (st, s') \<Rightarrow> ((if gerrors st = [] then None else Some (Several (gerrors st))), s'))))"

subsection \<open>Macros that run macros\<close>

text \<open>
  \<open>_run_subgraph\<close> at the depth \<open>max_depth - k\<close>: the format of the macro chooses the engine, and a step
  \<open>macro\<close> runs one level deeper.
\<close>

fun run_mgraph :: "'s world \<Rightarrow> nat \<Rightarrow> mgraph \<Rightarrow> 's \<Rightarrow> rerr option \<times> 's" where
  "run_mgraph W k m s =
     (let ex = exec_do W (case k of 0 \<Rightarrow> None | Suc k' \<Rightarrow> Some (\<lambda>m' s'. run_mgraph W k' m' s'))
      in case m of
           Blocks ss \<Rightarrow> run_steps W ex ss s
         | Nodes g \<Rightarrow> run_graph W ex g None s)"

declare run_mgraph.simps [simp del]

definition depth_exec :: "'s world \<Rightarrow> nat \<Rightarrow> 's exec" where
  "depth_exec W k = exec_do W (case k of 0 \<Rightarrow> None | Suc k' \<Rightarrow> Some (run_mgraph W k'))"

lemma run_mgraph_simps:
  "run_mgraph W k (Blocks ss) s = run_steps W (depth_exec W k) ss s"
  "run_mgraph W k (Nodes g) s = run_graph W (depth_exec W k) g None s"
  by (simp_all add: run_mgraph.simps [of W k] depth_exec_def)

end
