(* ===== verification/Macro_Shape.thy ===== *)
theory Macro_Shape
  imports Macro_Parse
begin

text \<open>
  What \<open>build\<close> returns: how many nodes a list of blocks becomes (\<open>width\<close>), their names, where the edges
  that lead into its code go (\<open>heads\<close>), and which ports its edges leave.
\<close>

lemma nname_inj [simp]: "nname a = nname b \<longleftrightarrow> a = b"
proof
  assume "nname a = nname b"
  then have "py_int (str_nat a) = py_int (str_nat b)" by (simp add: nname_def)
  then show "a = b" by (simp add: py_int_str_nat)
qed simp

definition names :: "nat \<Rightarrow> nat \<Rightarrow> string set" where
  "names a b = nname ` {a<..b}"

lemma nname_in_names [simp]: "nname x \<in> names a b \<longleftrightarrow> a < x \<and> x \<le> b"
  by (auto simp: names_def)

lemma names_empty [simp]: "names a a = {}"
  by (simp add: names_def)

lemma names_disjoint: "b \<le> c \<Longrightarrow> names a b \<inter> names c d = {}"
  by (auto simp: names_def)

lemma names_split: "a \<le> b \<Longrightarrow> b \<le> c \<Longrightarrow> names a c = names a b \<union> names b c"
  by (simp add: names_def image_Un [symmetric] ivl_disj_un_two)

lemma names_Suc: "a < b \<Longrightarrow> names a b = insert (nname (Suc a)) (names (Suc a) b)"
  by (auto simp: names_def image_def)

subsection \<open>How many nodes a block becomes, and where it starts\<close>

fun width :: "bool \<Rightarrow> step list \<Rightarrow> nat"
  and widths :: "step list list \<Rightarrow> nat" where
  "width m [] = 0"
| "width m (SIf c cm th el # ss) = Suc (width False th + width False el + width True ss)"
| "width m (SPar cm bs # ss) = (if m then 1 else 0) + Suc (widths bs + width False ss)"
| "width m (SDo t p # ss) = Suc (width False ss)"
| "widths [] = 0"
| "widths (b # bs) = width False b + widths bs"

definition kont :: "nat \<Rightarrow> step list \<Rightarrow> string option \<Rightarrow> string option" where
  "kont n ss k = (if ss = [] then k else Some (nname (Suc n)))"

definition klist :: "string option \<Rightarrow> string list" where
  "klist k = (case k of None \<Rightarrow> [] | Some x \<Rightarrow> [x])"

lemma klist_simps [simp]: "klist None = []" "klist (Some x) = [x]"
  by (simp_all add: klist_def)

fun heads :: "nat \<Rightarrow> bool \<Rightarrow> step list \<Rightarrow> string option \<Rightarrow> string list"
  and branch_heads :: "nat \<Rightarrow> step list list \<Rightarrow> string \<Rightarrow> string list" where
  "heads n m [] k = klist k"
| "heads n m (SIf c cm th el # ss) k = [nname (Suc n)]"
| "heads n m (SPar cm bs # ss) k =
     (if m then [nname (Suc n)] else branch_heads (Suc n) bs (nname (Suc n)))"
| "heads n m (SDo t p # ss) k = [nname (Suc n)]"
| "branch_heads n [] j = []"
| "branch_heads n (b # bs) j = heads n False b (Some j) @ branch_heads (n + width False b) bs j"

lemma heads_True: "heads n True ss k = klist (kont n ss k)"
  by (cases "(n, True, ss, k)" rule: heads.cases) (auto simp: kont_def)

lemma heads_k: "ss \<noteq> [] \<Longrightarrow> heads n m ss k = heads n m ss k'"
  by (cases "(n, m, ss, k)" rule: heads.cases) auto

subsection \<open>Ports\<close>

definition ptos :: "edge list \<Rightarrow> string \<Rightarrow> int \<Rightarrow> string list" where
  "ptos es f p = map eto (filter (\<lambda>e. efrom e = f \<and> eport e = p) es)"

lemma ptos_Nil [simp]: "ptos [] f p = []"
  by (simp add: ptos_def)

lemma ptos_append [simp]: "ptos (es @ es') f p = ptos es f p @ ptos es' f p"
  by (simp add: ptos_def)

lemma ptos_attach:
  "distinct tails \<Longrightarrow> ptos (attach tails x) f p = (if (f, p) \<in> set tails then [x] else [])"
  by (induction tails) (auto simp: ptos_def attach_def)

lemma ptos_empty: "(\<And>e. e \<in> set es \<Longrightarrow> efrom e = f \<Longrightarrow> eport e = p \<Longrightarrow> False) \<Longrightarrow> ptos es f p = []"
  by (auto simp: ptos_def filter_empty_conv)

lemma set_ptos: "x \<in> set (ptos es f p) \<longleftrightarrow> (\<exists>e \<in> set es. efrom e = f \<and> eport e = p \<and> eto e = x)"
  by (auto simp: ptos_def)

lemma attach_edges: "e \<in> set (attach tails x) \<longleftrightarrow>
    (efrom e, eport e) \<in> set tails \<and> eto e = x"
  by (cases e) (force simp: attach_def image_def)

subsection \<open>Induction over the blocks\<close>

lemma blocks_induct [case_names Nil If Par Do NilB ConsB]:
  assumes "P []"
    and "\<And>c cm th el ss. P th \<Longrightarrow> P el \<Longrightarrow> P ss \<Longrightarrow> P (SIf c cm th el # ss)"
    and "\<And>cm bs ss. Q bs \<Longrightarrow> P ss \<Longrightarrow> P (SPar cm bs # ss)"
    and "\<And>t p ss. P ss \<Longrightarrow> P (SDo t p # ss)"
    and "Q []"
    and "\<And>b bs. P b \<Longrightarrow> Q bs \<Longrightarrow> Q (b # bs)"
  shows "P ss" and "Q bs"
  using width_widths.induct [of "\<lambda>m. P" Q] assms by blast+

subsection \<open>What \<open>build\<close> returns\<close>

lemma build_IfE:
  assumes "build n (SIf c cm th el # ss) tails = (n', ns, es, t')"
  obtains n1 ns1 es1 t1 n2 ns2 es2 t2 ns3 es3
  where "build (Suc n) th [(nname (Suc n), 0)] = (n1, ns1, es1, t1)"
    and "build n1 el [(nname (Suc n), 1)] = (n2, ns2, es2, t2)"
    and "build n2 ss (t1 @ t2) = (n', ns3, es3, t')"
    and "ns = new_node (Suc n) ''cond'' (with_comment [(''cond'', or_empty c)] cm) # ns1 @ ns2 @ ns3"
    and "es = attach tails (nname (Suc n)) @ es1 @ es2 @ es3"
  using assms by (auto simp: Let_def new_node_def split: prod.splits)

lemma build_DoE:
  assumes "build n (SDo t p # ss) tails = (n', ns, es, t')"
  obtains ns1 es1
  where "build (Suc n) ss [(nname (Suc n), 0)] = (n', ns1, es1, t')"
    and "ns = new_node (Suc n) t p # ns1" and "es = attach tails (nname (Suc n)) @ es1"
  using assms by (auto simp: Let_def new_node_def split: prod.splits)

definition join_node :: "nat \<Rightarrow> json \<Rightarrow> node" where
  "join_node k cm = new_node k ''join'' (with_comment [(''mode'', JStr ''all'')] cm)"

lemma build_ParE:
  assumes "build n (SPar cm bs # ss) tails = (n', ns, es, t')"
  obtains n0 tl0 ns0 es0 n1 ns1 es1 ns2 es2
  where "if 1 < length tails
         then n0 = Suc n \<and> tl0 = [(nname (Suc n), 0)] \<and> es0 = attach tails (nname (Suc n)) \<and>
              ns0 = [new_node (Suc n) ''join'' [(''mode'', JStr ''any'')]]
         else n0 = n \<and> tl0 = tails \<and> es0 = [] \<and> ns0 = []"
    and "build_branches (Suc n0) bs tl0 (nname (Suc n0)) = (n1, ns1, es1)"
    and "build n1 ss [(nname (Suc n0), 0)] = (n', ns2, es2, t')"
    and "ns = ns0 @ join_node (Suc n0) cm # ns1 @ ns2" and "es = es0 @ es1 @ es2"
  using assms
  by (cases "1 < length tails") (auto simp: Let_def new_node_def join_node_def split: prod.splits)

lemma build_ConsBE:
  assumes "build_branches n (b # bs) tails j = (n', ns, es)"
  obtains n1 ns1 es1 t1 ns2 es2
  where "build n b tails = (n1, ns1, es1, t1)" and "build_branches n1 bs tails j = (n', ns2, es2)"
    and "ns = ns1 @ ns2" and "es = es1 @ attach t1 j @ es2"
  using assms by (auto simp: Let_def split: prod.splits)

lemma build_Nil [simp]: "build n [] tails = (n', ns, es, t') \<longleftrightarrow> n' = n \<and> ns = [] \<and> es = [] \<and> t' = tails"
  by auto


lemma build_width:
  shows "build n ss tails = (n', ns, es, t') \<Longrightarrow> tails \<noteq> [] \<Longrightarrow>
      n' = n + width (1 < length tails) ss \<and> t' \<noteq> []"
    and "build_branches n bs tails j = (n', ns, es) \<Longrightarrow> length tails = 1 \<Longrightarrow> n' = n + widths bs"
proof (induction ss and bs arbitrary: n tails n' ns es t' and n tails j n' ns es
    rule: blocks_induct)
  case (If c cm th el ss)
  from If.prems(1) show ?case
  proof (rule build_IfE, goal_cases)
    case (1 n1 ns1 es1 t1 n2 ns2 es2 t2 ns3 es3)
    from If.IH(1) [OF 1(1)] have a: "n1 = Suc n + width False th" "t1 \<noteq> []" by simp_all
    from If.IH(2) [OF 1(2)] have b: "n2 = n1 + width False el" "t2 \<noteq> []" by simp_all
    have "1 < length (t1 @ t2)" using a b by (cases t1; cases t2) auto
    with If.IH(3) [OF 1(3)] a b show ?case by simp
  qed
next
  case (Par cm bs ss)
  from Par.prems(1) show ?case
  proof (rule build_ParE, goal_cases)
    case (1 n0 tl0 ns0 es0 n1 ns1 es1 ns2 es2)
    have "length tl0 = 1" using 1(1) Par.prems(2) by (cases tails) (auto split: if_splits)
    from Par.IH(1) [OF 1(2) this] Par.IH(2) [OF 1(3)] 1(1) show ?case by (auto split: if_splits)
  qed
next
  case (Do t p ss)
  from Do.prems(1) show ?case by (rule build_DoE) (use Do.IH in fastforce)
next
  case (ConsB b bs)
  from ConsB.prems(1) show ?case
  proof (rule build_ConsBE, goal_cases)
    case (1 n1 ns1 es1 t1 ns2 es2)
    have ne: "tails \<noteq> []" using ConsB.prems(2) by auto
    from ConsB.IH(1) [OF 1(1) ne] ConsB.IH(2) [OF 1(2) ConsB.prems(2)] ConsB.prems(2)
    show ?case by simp
  qed
qed auto

lemma build_mono:
  "build n ss tails = (n', ns, es, t') \<Longrightarrow> tails \<noteq> [] \<Longrightarrow> n \<le> n'"
  "build_branches n bs tails j = (n', ns, es) \<Longrightarrow> length tails = 1 \<Longrightarrow> n \<le> n'"
  using build_width(1) [of n ss tails n' ns es t'] build_width(2) [of n bs tails j n' ns es] by auto

text \<open>The nodes are numbered in the order in which they are made.\<close>

lemma upt_ids: "a \<le> b \<Longrightarrow> b \<le> c \<Longrightarrow>
    map nname [Suc a..<Suc b] @ map nname [Suc b..<Suc c] = map nname [Suc a..<Suc c]"
proof -
  assume "a \<le> b" "b \<le> c"
  then have "[Suc a..<Suc c] = [Suc a..<Suc b] @ [Suc b..<Suc c]"
    using upt_add_eq_append [of "Suc a" "Suc b" "c - b"] by simp
  then show ?thesis by (simp del: upt_Suc)
qed

lemma upt_ids_Cons: "Suc a \<le> b \<Longrightarrow> nname (Suc a) # map nname [Suc (Suc a)..<Suc b] = map nname [Suc a..<Suc b]"
  by (simp add: upt_conv_Cons del: upt_Suc)

lemma nid_new_node [simp]: "nid (new_node k t p) = nname k" "nid (join_node k cm) = nname k"
  by (simp_all add: new_node_def join_node_def)

lemma build_ids:
  shows "build n ss tails = (n', ns, es, t') \<Longrightarrow> tails \<noteq> [] \<Longrightarrow> map nid ns = map nname [Suc n..<Suc n']"
    and "build_branches n bs tails j = (n', ns, es) \<Longrightarrow> length tails = 1 \<Longrightarrow>
       map nid ns = map nname [Suc n..<Suc n']"
proof (induction ss and bs arbitrary: n tails n' ns es t' and n tails j n' ns es
    rule: blocks_induct)
  case (If c cm th el ss)
  from If.prems(1) show ?case
  proof (rule build_IfE, goal_cases)
    case (1 n1 ns1 es1 t1 n2 ns2 es2 t2 ns3 es3)
    have t1: "t1 @ t2 \<noteq> []" using build_width(1) [OF 1(1)] by simp
    have "Suc n \<le> n1" "n1 \<le> n2" "n2 \<le> n'"
      using build_mono(1) [OF 1(1)] build_mono(1) [OF 1(2)] build_mono(1) [OF 1(3) t1] by simp_all
    then show ?case
      using If.IH(1) [OF 1(1)] If.IH(2) [OF 1(2)] If.IH(3) [OF 1(3) t1] 1(4)
      by (simp del: upt_Suc add: upt_ids upt_ids_Cons append_assoc [symmetric] del: append_assoc)
  qed
next
  case (Par cm bs ss)
  from Par.prems(1) show ?case
  proof (rule build_ParE, goal_cases)
    case (1 n0 tl0 ns0 es0 n1 ns1 es1 ns2 es2)
    have tl: "length tl0 = 1" using 1(1) Par.prems(2) by (cases tails) (auto split: if_splits)
    have le: "Suc n0 \<le> n1" "n1 \<le> n'" using build_mono(2) [OF 1(2) tl] build_mono(1) [OF 1(3)] by simp_all
    have "map nid (join_node (Suc n0) cm # ns1 @ ns2) = map nname [Suc n0..<Suc n']"
      using Par.IH(1) [OF 1(2) tl] Par.IH(2) [OF 1(3)] le
      by (simp del: upt_Suc add: upt_ids upt_ids_Cons)
    then show ?case using 1(1,4) le by (auto simp del: upt_Suc simp add: upt_ids_Cons split: if_splits)
  qed
next
  case (Do t p ss)
  from Do.prems(1) show ?case
  proof (rule build_DoE, goal_cases)
    case (1 ns1 es1)
    have "Suc n \<le> n'" using build_mono(1) [OF 1(1)] by simp
    then show ?case using Do.IH [OF 1(1)] 1(2) by (simp del: upt_Suc add: upt_ids_Cons)
  qed
next
  case (ConsB b bs)
  from ConsB.prems(1) show ?case
  proof (rule build_ConsBE, goal_cases)
    case (1 n1 ns1 es1 t1 ns2 es2)
    have ne: "tails \<noteq> []" using ConsB.prems(2) by auto
    from ConsB.IH(1) [OF 1(1) ne] ConsB.IH(2) [OF 1(2) ConsB.prems(2)] 1(3)
      build_mono(1) [OF 1(1) ne] build_mono(2) [OF 1(2) ConsB.prems(2)]
    show ?case by (simp del: upt_Suc add: upt_ids)
  qed
qed auto

lemma build_names: "build n ss tails = (n', ns, es, t') \<Longrightarrow> tails \<noteq> [] \<Longrightarrow> nid ` set ns = names n n'"
  using arg_cong [OF build_ids(1), of n ss tails n' ns es t' set]
  by (simp add: names_def atLeastLessThanSuc_atLeastAtMost atLeastSucAtMost_greaterThanAtMost del: upt_Suc)

subsection \<open>Where its edges go\<close>

definition fresh :: "(string \<times> int) list \<Rightarrow> nat \<Rightarrow> nat \<Rightarrow> bool" where
  "fresh tails a b \<longleftrightarrow> tails \<noteq> [] \<and> distinct tails \<and> fst ` set tails \<inter> names a b = {}"

lemma fresh_self [simp]: "fresh [(nname a, p)] a b"
  by (simp add: fresh_def)

lemma fresh_sub: "fresh tails a d \<Longrightarrow> a \<le> b \<Longrightarrow> c \<le> d \<Longrightarrow> fresh tails b c"
  by (fastforce simp: fresh_def names_def)

lemma build_tails:
  "build n ss tails = (n', ns, es, t') \<Longrightarrow> fresh tails n n' \<Longrightarrow>
     distinct t' \<and> set t' \<subseteq> (if ss = [] then set tails else names n n' \<times> UNIV)"
proof (induction ss arbitrary: n tails n' ns es t' rule: blocks_induct(1) [where Q = "\<lambda>_. True"])
  case (If c cm th el ss)
  from If.prems(1) show ?case
  proof (rule build_IfE, goal_cases)
    case (1 n1 ns1 es1 t1 n2 ns2 es2 t2 ns3 es3)
    have ne: "t1 @ t2 \<noteq> []" using build_width(1) [OF 1(1)] by simp
    have le: "Suc n \<le> n1" "n1 \<le> n2" "n2 \<le> n'"
      using build_mono(1) [OF 1(1)] build_mono(1) [OF 1(2)] build_mono(1) [OF 1(3) ne] by simp_all
    have a: "distinct t1" "set t1 \<subseteq> (if th = [] then {(nname (Suc n), 0)} else names (Suc n) n1 \<times> UNIV)"
      using If.IH(1) [OF 1(1)] by (auto split: if_splits)
    have "fresh [(nname (Suc n), 1)] n1 n2" using le by (simp add: fresh_def)
    from If.IH(2) [OF 1(2) this]
    have b: "distinct t2" "set t2 \<subseteq> (if el = [] then {(nname (Suc n), 1)} else names n1 n2 \<times> UNIV)"
      by (auto split: if_splits)
    have a': "set t1 \<subseteq> {(nname (Suc n), 0)} \<union> names (Suc n) n1 \<times> UNIV"
      and b': "set t2 \<subseteq> {(nname (Suc n), 1)} \<union> names n1 n2 \<times> UNIV"
      using a b by (auto split: if_splits)
    have d: "set t1 \<inter> set t2 = {}" using a' b' le by (fastforce simp: names_def)
    have sub: "set t1 \<union> set t2 \<subseteq> names n n2 \<times> UNIV" using a' b' le by (fastforce simp: names_def)
    then have "fst ` set (t1 @ t2) \<inter> names n2 n' = {}" using names_disjoint [of n2 n2 n n'] le by fastforce
    then have "fresh (t1 @ t2) n2 n'" using ne a b d by (simp add: fresh_def)
    from If.IH(3) [OF 1(3) this] sub le show ?case
      by (auto split: if_splits simp: names_def) fastforce+
  qed
next
  case (Par cm bs ss)
  from Par.prems(1) show ?case
  proof (rule build_ParE, goal_cases)
    case (1 n0 tl0 ns0 es0 n1 ns1 es1 ns2 es2)
    have "length tl0 = 1" using 1(1) Par.prems(2) by (cases tails) (auto simp: fresh_def split: if_splits)
    then have le: "n \<le> n0" "Suc n0 \<le> n1" "n1 \<le> n'"
      using 1(1) build_mono(2) [OF 1(2)] build_mono(1) [OF 1(3)] by (auto split: if_splits)
    have "fresh [(nname (Suc n0), 0)] n1 n'" using le by (simp add: fresh_def)
    from Par.IH [OF 1(3) this] le show ?case by (fastforce simp: names_def split: if_splits)
  qed
next
  case (Do t p ss)
  from Do.prems(1) show ?case
  proof (rule build_DoE, goal_cases)
    case (1 ns1 es1)
    have "Suc n \<le> n'" using build_mono(1) [OF 1(1)] by simp
    with Do.IH [OF 1(1)] show ?case by (fastforce simp: names_def split: if_splits)
  qed
qed (auto simp: fresh_def)

text \<open>The inversion of \<open>build\<close> with what holds of the parts.\<close>

lemma build_If_facts:
  assumes "build n (SIf c cm th el # ss) tails = (n', ns, es, t')"
  obtains n1 ns1 es1 t1 n2 ns2 es2 t2 ns3 es3
  where "build (Suc n) th [(nname (Suc n), 0)] = (n1, ns1, es1, t1)"
    and "build n1 el [(nname (Suc n), 1)] = (n2, ns2, es2, t2)"
    and "build n2 ss (t1 @ t2) = (n', ns3, es3, t')"
    and "ns = new_node (Suc n) ''cond'' (with_comment [(''cond'', or_empty c)] cm) # ns1 @ ns2 @ ns3"
    and "es = attach tails (nname (Suc n)) @ es1 @ es2 @ es3"
    and "Suc n \<le> n1" and "n1 \<le> n2" and "n2 \<le> n'"
    and "fresh [(nname (Suc n), 1)] n1 n2" and "fresh (t1 @ t2) n2 n'"
    and "set t1 \<subseteq> {(nname (Suc n), 0)} \<union> names (Suc n) n1 \<times> UNIV"
    and "set t2 \<subseteq> {(nname (Suc n), 1)} \<union> names n1 n2 \<times> UNIV"
    and "1 < length (t1 @ t2)"
  using assms
proof (rule build_IfE, goal_cases)
  case (1 n1 ns1 es1 t1 n2 ns2 es2 t2 ns3 es3)
  have ne: "t1 \<noteq> []" "t2 \<noteq> []" using build_width(1) [OF 1(2)] build_width(1) [OF 1(3)] by simp_all
  then have len: "1 < length (t1 @ t2)" by (cases t1; cases t2) auto
  have le: "Suc n \<le> n1" "n1 \<le> n2" "n2 \<le> n'"
    using build_mono(1) [OF 1(2)] build_mono(1) [OF 1(3)] build_mono(1) [OF 1(4)] ne by simp_all
  have f2: "fresh [(nname (Suc n), 1)] n1 n2" using le by (simp add: fresh_def)
  have a: "set t1 \<subseteq> {(nname (Suc n), 0)} \<union> names (Suc n) n1 \<times> UNIV"
    and b: "set t2 \<subseteq> {(nname (Suc n), 1)} \<union> names n1 n2 \<times> UNIV"
    using build_tails [OF 1(2)] build_tails [OF 1(3) f2] by (auto split: if_splits)
  have "distinct (t1 @ t2)" using build_tails [OF 1(2)] build_tails [OF 1(3) f2] a b le
    by (fastforce simp: names_def)
  moreover have "set (t1 @ t2) \<subseteq> names n n2 \<times> UNIV" using a b le by (fastforce simp: names_def)
  then have "fst ` set (t1 @ t2) \<inter> names n2 n' = {}"
    using names_disjoint [of n2 n2 n n'] le by fastforce
  ultimately have f3: "fresh (t1 @ t2) n2 n'" using ne by (simp add: fresh_def)
  show ?case by (rule 1(1) [OF 1(2-6) le f2 f3 a b len])
qed

lemma build_Par_facts:
  assumes "build n (SPar cm bs # ss) tails = (n', ns, es, t')" and "fresh tails n n'"
  obtains n0 tl0 ns0 es0 n1 ns1 es1 ns2 es2
  where "if 1 < length tails
         then n0 = Suc n \<and> tl0 = [(nname (Suc n), 0)] \<and> es0 = attach tails (nname (Suc n)) \<and>
              ns0 = [new_node (Suc n) ''join'' [(''mode'', JStr ''any'')]]
         else n0 = n \<and> tl0 = tails \<and> es0 = [] \<and> ns0 = []"
    and "build_branches (Suc n0) bs tl0 (nname (Suc n0)) = (n1, ns1, es1)"
    and "build n1 ss [(nname (Suc n0), 0)] = (n', ns2, es2, t')"
    and "ns = ns0 @ join_node (Suc n0) cm # ns1 @ ns2" and "es = es0 @ es1 @ es2"
    and "length tl0 = 1" and "n \<le> n0" and "Suc n0 \<le> n1" and "n1 \<le> n'"
    and "fresh tl0 (Suc n0) n1" and "fresh [(nname (Suc n0), 0)] n1 n'"
    and "tl0 = [(nname (Suc n), 0)] \<and> n0 = Suc n \<or> tl0 = tails \<and> n0 = n"
  using assms(1)
proof (rule build_ParE, goal_cases)
  case (1 n0 tl0 ns0 es0 n1 ns1 es1 ns2 es2)
  have tl: "length tl0 = 1" using 1(2) assms(2) by (cases tails) (auto simp: fresh_def split: if_splits)
  then have le: "n \<le> n0" "Suc n0 \<le> n1" "n1 \<le> n'"
    using 1(2) build_mono(2) [OF 1(3)] build_mono(1) [OF 1(4)] by (auto split: if_splits)
  have tl0: "tl0 = [(nname (Suc n), 0)] \<and> n0 = Suc n \<or> tl0 = tails \<and> n0 = n"
    using 1(2) by (auto split: if_splits)
  have f1: "fresh tl0 (Suc n0) n1" 
    using tl0 assms(2) fresh_sub [of tails n n' "Suc n0" n1] le by (auto simp: fresh_def)
  have f2: "fresh [(nname (Suc n0), 0)] n1 n'" using le by (simp add: fresh_def)
  show ?case by (rule 1(1) [OF 1(2-6) tl le f1 f2 tl0])
qed

lemma build_ConsB_facts:
  assumes "build_branches n (b # bs) tails j = (n', ns, es)" and "fresh tails n n'"
    and "length tails = 1"
  obtains n1 ns1 es1 t1 ns2 es2
  where "build n b tails = (n1, ns1, es1, t1)" and "build_branches n1 bs tails j = (n', ns2, es2)"
    and "ns = ns1 @ ns2" and "es = es1 @ attach t1 j @ es2"
    and "n \<le> n1" and "n1 \<le> n'" and "fresh tails n n1" and "fresh tails n1 n'"
    and "distinct t1" and "set t1 \<subseteq> (if b = [] then set tails else names n n1 \<times> UNIV)"
  using assms(1)
proof (rule build_ConsBE, goal_cases)
  case (1 n1 ns1 es1 t1 ns2 es2)
  have ne: "tails \<noteq> []" using assms(3) by auto
  have le: "n \<le> n1" "n1 \<le> n'" using build_mono(1) [OF 1(2) ne] build_mono(2) [OF 1(3) assms(3)] by simp_all
  have f: "fresh tails n n1" "fresh tails n1 n'" using fresh_sub [OF assms(2)] le by auto
  show ?case using build_tails [OF 1(2) f(1)] by (intro 1(1) [OF 1(2-5) le f]) simp_all
qed

lemma build_edges:
  shows "build n ss tails = (n', ns, es, t') \<Longrightarrow> fresh tails n n' \<Longrightarrow> e \<in> set es \<Longrightarrow>
       eto e \<in> names n n' \<and> (efrom e \<in> names n n' \<or> (efrom e, eport e) \<in> set tails)"
    and "build_branches n bs tails j = (n', ns, es) \<Longrightarrow> fresh tails n n' \<Longrightarrow> length tails = 1 \<Longrightarrow> e \<in> set es \<Longrightarrow>
       eto e \<in> insert j (names n n') \<and> (efrom e \<in> names n n' \<or> (efrom e, eport e) \<in> set tails)"
proof (induction ss and bs arbitrary: n tails n' ns es t' and n tails j n' ns es
    rule: blocks_induct)
  case (If c cm th el ss)
  from If.prems(1) show ?case
  proof (rule build_If_facts, goal_cases)
    case B: (1 n1 ns1 es1 t1 n2 ns2 es2 t2 ns3 es3)
    note le = B(6-8)
    have sub: "set (t1 @ t2) \<subseteq> names n n2 \<times> UNIV" using B(11,12) le by (fastforce simp: names_def)
    have N: "names (Suc n) n1 \<subseteq> names n n'" "names n1 n2 \<subseteq> names n n'" "names n2 n' \<subseteq> names n n'"
      "names n n2 \<subseteq> names n n'" "nname (Suc n) \<in> names n n'"
      using le by (auto simp: names_def)
    consider "e \<in> set (attach tails (nname (Suc n)))" | "e \<in> set es1" | "e \<in> set es2" | "e \<in> set es3"
      using If.prems(3) B(5) by auto
    then show ?case
    proof cases
      case 1 then show ?thesis using N by (auto simp: attach_edges)
    next
      case 2 then show ?thesis using If.IH(1) [OF B(1)] N by auto
    next
      case 3 then show ?thesis using If.IH(2) [OF B(2) B(9)] N by auto
    next
      case 4 then show ?thesis using If.IH(3) [OF B(3) B(10)] N sub by auto
    qed
  qed
next
  case (Par cm bs ss)
  from Par.prems(1,2) show ?case
  proof (rule build_Par_facts, goal_cases)
    case B: (1 n0 tl0 ns0 es0 n1 ns1 es1 ns2 es2)
    have N: "names (Suc n0) n1 \<subseteq> names n n'" "names n1 n' \<subseteq> names n n'" "nname (Suc n0) \<in> names n n'"
      "nname (Suc n) \<in> names n n'"
      using B(7-9) by (auto simp: names_def)
    consider "e \<in> set es0" | "e \<in> set es1" | "e \<in> set es2" using Par.prems(3) B(5) by auto
    then show ?case
    proof cases
      case 1 then show ?thesis using N B(1) by (auto simp: attach_edges split: if_splits)
    next
      case 2 then show ?thesis using Par.IH(1) [OF B(2) B(10) B(6) 2] N B(12) by auto
    next
      case 3 then show ?thesis using Par.IH(2) [OF B(3) B(11)] N by auto
    qed
  qed
next
  case (Do t p ss)
  from Do.prems(1) show ?case
  proof (rule build_DoE, goal_cases)
    case B: (1 ns1 es1)
    have "Suc n \<le> n'" using build_mono(1) [OF B(1)] by simp
    then have N: "names (Suc n) n' \<subseteq> names n n'" "nname (Suc n) \<in> names n n'" by (auto simp: names_def)
    consider "e \<in> set (attach tails (nname (Suc n)))" | "e \<in> set es1" using Do.prems(3) B(3) by auto
    then show ?case using Do.IH [OF B(1)] N by cases (auto simp: attach_edges)
  qed
next
  case (ConsB b bs)
  from ConsB.prems(1-3) show ?case
  proof (rule build_ConsB_facts, goal_cases)
    case B: (1 n1 ns1 es1 t1 ns2 es2)
    have N: "names n n1 \<subseteq> names n n'" "names n1 n' \<subseteq> names n n'" using B(5,6) by (auto simp: names_def)
    consider "e \<in> set es1" | "e \<in> set (attach t1 j)" | "e \<in> set es2" using ConsB.prems(4) B(4) by auto
    then show ?case
    proof cases
      case 1 then show ?thesis using ConsB.IH(1) [OF B(1) B(7)] N by auto
    next
      case 2 then show ?thesis using B(10) N by (auto simp: attach_edges split: if_splits)
    next
      case 3 then show ?thesis using ConsB.IH(2) [OF B(2) B(8) ConsB.prems(3) 3] N by auto
    qed
  qed
qed auto

lemma ptos_outside:
  "build n ss tails = (n', ns, es, t') \<Longrightarrow> fresh tails n n' \<Longrightarrow> f \<notin> names n n' \<Longrightarrow>
     (f, p) \<notin> set tails \<Longrightarrow> ptos es f p = []"
  "build_branches n bs tails j = (n', ns', es') \<Longrightarrow> fresh tails n n' \<Longrightarrow> length tails = 1 \<Longrightarrow>
     f \<notin> names n n' \<Longrightarrow> (f, p) \<notin> set tails \<Longrightarrow> ptos es' f p = []"
  by (rule ptos_empty; use build_edges in blast)+

lemma build_heads:
  shows "build n ss tails = (n', ns, es, t') \<Longrightarrow> fresh tails n n' \<Longrightarrow> (f, p) \<in> set tails \<Longrightarrow>
       ptos es f p = (if ss = [] then [] else heads n (1 < length tails) ss None)"
    and "build_branches n bs tails j = (n', ns, es) \<Longrightarrow> fresh tails n n' \<Longrightarrow> length tails = 1 \<Longrightarrow>
       (f, p) \<in> set tails \<Longrightarrow> ptos es f p = branch_heads n bs j"
proof (induction ss and bs arbitrary: n tails n' ns es t' f p and n tails j n' ns es f p
    rule: blocks_induct)
  case (If c cm th el ss)
  from If.prems(1) show ?case
  proof (rule build_If_facts, goal_cases)
    case B: (1 n1 ns1 es1 t1 n2 ns2 es2 t2 ns3 es3)
    have f: "f \<notin> names n n'" using If.prems(2,3) by (force simp: fresh_def)
    have "f \<noteq> nname (Suc n)" "f \<notin> names (Suc n) n1" "f \<notin> names n1 n2" "f \<notin> names n2 n'" "f \<notin> names n n2"
      using f B(6-8) by (auto simp: names_def)
    moreover from this have "(f, p) \<notin> set (t1 @ t2)" using B(11,12) by auto
    ultimately have "ptos es1 f p = []" "ptos es2 f p = []" "ptos es3 f p = []"
      using ptos_outside(1) [OF B(1)] ptos_outside(1) [OF B(2,9)] ptos_outside(1) [OF B(3,10)] by auto
    then show ?case using If.prems(2,3) B(5) by (simp add: ptos_attach fresh_def)
  qed
next
  case (Par cm bs ss)
  from Par.prems(1,2) show ?case
  proof (rule build_Par_facts, goal_cases)
    case B: (1 n0 tl0 ns0 es0 n1 ns1 es1 ns2 es2)
    have f: "f \<notin> names n n'" using Par.prems(2,3) by (force simp: fresh_def)
    have f': "f \<noteq> nname (Suc n)" "f \<noteq> nname (Suc n0)" "f \<notin> names (Suc n0) n1" "f \<notin> names n1 n'"
      using f B(7-9) by (auto simp: names_def)
    then have e2: "ptos es2 f p = []" using ptos_outside(1) [OF B(3,11)] by auto
    show ?case
    proof (cases "1 < length tails")
      case True
      then have "ptos es1 f p = []" using ptos_outside(2) [OF B(2,10,6)] f' B(1) by auto
      then show ?thesis using True e2 B(1,5) Par.prems(2,3) by (simp add: ptos_attach fresh_def)
    next
      case False
      then have "ptos es1 f p = branch_heads (Suc n0) bs (nname (Suc n0))"
        using Par.IH(1) [OF B(2,10,6)] Par.prems(3) B(1) by simp
      then show ?thesis using False e2 B(1,5) by simp
    qed
  qed
next
  case (Do t p' ss)
  from Do.prems(1) show ?case
  proof (rule build_DoE, goal_cases)
    case B: (1 ns1 es1)
    have "f \<notin> names n n'" using Do.prems(2,3) by (force simp: fresh_def)
    moreover have "Suc n \<le> n'" using build_mono(1) [OF B(1)] by simp
    ultimately have "f \<noteq> nname (Suc n)" "f \<notin> names (Suc n) n'" by (auto simp: names_def)
    then have "ptos es1 f p = []" using ptos_outside(1) [OF B(1)] by auto
    then show ?case using B(3) Do.prems(2,3) by (simp add: ptos_attach fresh_def)
  qed
next
  case (ConsB b bs)
  from ConsB.prems(1-3) show ?case
  proof (rule build_ConsB_facts, goal_cases)
    case B: (1 n1 ns1 es1 t1 ns2 es2)
    have n1: "n1 = n + width False b" using build_width(1) [OF B(1)] ConsB.prems(3) by (cases tails) auto
    have f: "f \<notin> names n n1" using ConsB.prems(4) B(7) by (force simp: fresh_def)
    have 2: "ptos es2 f p = branch_heads n1 bs j" by (rule ConsB.IH(2) [OF B(2,8) ConsB.prems(3,4)])
    have 1: "ptos es1 f p = (if b = [] then [] else heads n False b None)"
      using ConsB.IH(1) [OF B(1,7) ConsB.prems(4)] ConsB.prems(3) by simp
    have "(f, p) \<in> set t1 \<longleftrightarrow> b = []"
      using B(1,10) f ConsB.prems(4) by (auto split: if_splits)
    then show ?case using 1 2 B(4,9) n1 heads_k [of b n False None "Some j"]
      by (cases "b = []") (simp_all add: ptos_attach)
  qed
qed auto

end
