(* ===== verification/Macro_Wired.thy ===== *)
theory Macro_Wired
  imports Macro_Shape
begin

text \<open>
  The code of a list of blocks inside a larger graph.  \<open>wired g n m ss k\<close> says that the nodes after \<open>n\<close> of
  the graph \<open>g\<close> are the code of the steps \<open>ss\<close> and that this code continues at the node \<open>k\<close> (\<open>None\<close>:
  nowhere); \<open>m\<close> says whether several ports lead into it.  \<open>blocks_to_graph_wired\<close> proves it of a compiled graph;
  the round trip and the correctness of the execution only use \<open>wired\<close>.
\<close>

abbreviation tos :: "graph \<Rightarrow> string \<Rightarrow> int \<Rightarrow> string list" where
  "tos g f p \<equiv> ptos (gedges g) f p"

definition node_at :: "graph \<Rightarrow> nat \<Rightarrow> string \<Rightarrow> params \<Rightarrow> bool" where
  "node_at g k t p \<longleftrightarrow> (\<exists>x. node_of g (nname k) = Some x \<and> ntype x = t \<and> nparams x = p)"

definition ports_of :: "graph \<Rightarrow> nat \<Rightarrow> int set \<Rightarrow> bool" where
  "ports_of g k P \<longleftrightarrow> (\<forall>e \<in> set (gedges g). efrom e = nname k \<longrightarrow> eport e \<in> P)"

definition join_params :: "json \<Rightarrow> params" where
  "join_params cm = with_comment [(''mode'', JStr ''all'')] cm"

definition cond_params :: "json \<Rightarrow> json \<Rightarrow> params" where
  "cond_params c cm = with_comment [(''cond'', or_empty c)] cm"

fun wired :: "graph \<Rightarrow> nat \<Rightarrow> bool \<Rightarrow> step list \<Rightarrow> string option \<Rightarrow> bool"
  and wired_branches :: "graph \<Rightarrow> nat \<Rightarrow> step list list \<Rightarrow> string \<Rightarrow> bool" where
  "wired g n m [] k = True"
| "wired g n m (SIf c cm th el # ss) k =
     (let x = nname (Suc n); n1 = Suc n + width False th; n2 = n1 + width False el;
          k' = kont n2 ss k
      in node_at g (Suc n) ''cond'' (cond_params c cm) \<and> ports_of g (Suc n) {0, 1} \<and>
         tos g x 0 = heads (Suc n) False th k' \<and> tos g x 1 = heads n1 False el k' \<and>
         wired g (Suc n) False th k' \<and> wired g n1 False el k' \<and> wired g n2 True ss k)"
| "wired g n m (SPar cm bs # ss) k =
     (let n0 = (if m then Suc n else n); x = nname (Suc n0); n1 = Suc n0 + widths bs
      in (m \<longrightarrow> node_at g n0 ''join'' [(''mode'', JStr ''any'')] \<and> ports_of g n0 {0} \<and>
                tos g (nname n0) 0 = branch_heads (Suc n0) bs x) \<and>
         node_at g (Suc n0) ''join'' (join_params cm) \<and> ports_of g (Suc n0) {0} \<and>
         tos g x 0 = heads n1 False ss k \<and>
         wired_branches g (Suc n0) bs x \<and> wired g n1 False ss k)"
| "wired g n m (SDo t p # ss) k =
     (node_at g (Suc n) t p \<and> ports_of g (Suc n) {0} \<and>
      tos g (nname (Suc n)) 0 = heads (Suc n) False ss k \<and> wired g (Suc n) False ss k)"
| "wired_branches g n [] j = True"
| "wired_branches g n (b # bs) j =
     (wired g n False b (Some j) \<and> wired_branches g (n + width False b) bs j)"

subsection \<open>The output of \<open>build\<close> is wired\<close>

text \<open>\<open>carries g ns\<close>: the graph has the nodes \<open>ns\<close>, up to their positions.\<close>

definition carries :: "graph \<Rightarrow> node list \<Rightarrow> bool" where
  "carries g ns \<longleftrightarrow> (\<forall>x \<in> set ns. \<exists>y. node_of g (nid x) = Some y \<and> ntype y = ntype x \<and> nparams y = nparams x)"

lemma carries_Nil [simp]: "carries g []"
  by (simp add: carries_def)

lemma carries_append [simp]: "carries g (ns @ ns') \<longleftrightarrow> carries g ns \<and> carries g ns'"
  by (auto simp: carries_def)

lemma carries_Cons: "carries g (x # ns) \<longleftrightarrow>
    (\<exists>y. node_of g (nid x) = Some y \<and> ntype y = ntype x \<and> nparams y = nparams x) \<and> carries g ns"
  by (auto simp: carries_def)

lemma carries_new_node [simp]: "carries g (new_node k t p # ns) \<longleftrightarrow> node_at g k t p \<and> carries g ns"
  by (auto simp: node_at_def new_node_def carries_Cons)

lemma carries_join_node [simp]:
  "carries g (join_node k cm # ns) \<longleftrightarrow> node_at g k ''join'' (join_params cm) \<and> carries g ns"
  by (simp add: join_node_def join_params_def)

text \<open>
  \<open>flow es t k f p\<close>: where the edges \<open>es\<close> and the edges from the tails \<open>t\<close> to \<open>k\<close> lead from a port.
  \<open>leaves g es a b t k\<close>: between \<open>a\<close> and \<open>b\<close> the graph has no other edges.
\<close>

definition flow :: "edge list \<Rightarrow> (string \<times> int) list \<Rightarrow> string option \<Rightarrow> string \<Rightarrow> int \<Rightarrow> string list" where
  "flow es t k f p = ptos es f p @ (if (f, p) \<in> set t then klist k else [])"

definition leaves :: "graph \<Rightarrow> edge list \<Rightarrow> nat \<Rightarrow> nat \<Rightarrow> (string \<times> int) list \<Rightarrow> string option \<Rightarrow> bool" where
  "leaves g es a b t k \<longleftrightarrow> (\<forall>f \<in> names a b. \<forall>p. tos g f p = flow es t k f p)"

lemma ports_of_tos: "ports_of g k P \<longleftrightarrow> (\<forall>p. p \<notin> P \<longrightarrow> tos g (nname k) p = [])"
  unfolding ports_of_def ptos_def filter_empty_conv map_is_Nil_conv by blast

lemma ptos_attach_fresh: "fresh tails a b \<Longrightarrow> f \<in> names a b \<Longrightarrow> ptos (attach tails x) f p = []"
  by (force simp: fresh_def ptos_attach)

lemma flow_build:
  assumes "build n ss tls = (n', ns, es, t')" and "fresh tls n n'" and "f \<notin> names n n'"
  shows "flow es t' k f p = (if (f, p) \<in> set tls then heads n (1 < length tls) ss k else [])"
proof (cases "ss = []")
  case True
  then show ?thesis using assms(1) by (simp add: flow_def)
next
  case False
  then have "(f, p) \<notin> set t'" using build_tails [OF assms(1,2)] assms(3) by auto
  then show ?thesis
    using False build_heads(1) [OF assms(1,2)] ptos_outside(1) [OF assms(1-3)] heads_k [OF False, of n _ None k]
    by (simp add: flow_def)
qed

lemma leaves_If:
  assumes "build n (SIf c cm th el # ss) tails = (n', ns, es, t')" and "fresh tails n n'"
    and "leaves g es n n' t' k"
  obtains n1 ns1 es1 t1 n2 ns2 es2 t2 ns3 es3
  where "build (Suc n) th [(nname (Suc n), 0)] = (n1, ns1, es1, t1)"
    and "build n1 el [(nname (Suc n), 1)] = (n2, ns2, es2, t2)"
    and "build n2 ss (t1 @ t2) = (n', ns3, es3, t')"
    and "ns = new_node (Suc n) ''cond'' (cond_params c cm) # ns1 @ ns2 @ ns3"
    and "fresh [(nname (Suc n), 1)] n1 n2" and "fresh (t1 @ t2) n2 n'" and "1 < length (t1 @ t2)"
    and "leaves g es1 (Suc n) n1 t1 (kont n2 ss k)" and "leaves g es2 n1 n2 t2 (kont n2 ss k)"
    and "leaves g es3 n2 n' t' k"
    and "tos g (nname (Suc n)) 0 = heads (Suc n) False th (kont n2 ss k)"
    and "tos g (nname (Suc n)) 1 = heads n1 False el (kont n2 ss k)"
    and "ports_of g (Suc n) {0, 1}"
  using assms(1)
proof (rule build_If_facts, goal_cases)
  case B: (1 n1 ns1 es1 t1 n2 ns2 es2 t2 ns3 es3)
  let ?x = "nname (Suc n)" and ?k' = "kont n2 ss k"
  note out1 = ptos_outside(1) [OF B(2) fresh_self] and out2 = ptos_outside(1) [OF B(3,10)]
  have T: "tos g f p = ptos es1 f p @ ptos es2 f p @ flow es3 t' k f p" if "f \<in> names n n'" for f p
    using assms(3) that ptos_attach_fresh [OF assms(2) that] B(6) by (simp add: leaves_def flow_def)
  have T2: "tos g f p = ptos es1 f p @ ptos es2 f p @ (if (f, p) \<in> set t1 \<union> set t2 then klist ?k' else [])"
    if "f \<in> names n n2" for f p
  proof -
    have "f \<in> names n n'" "f \<notin> names n2 n'" using that B(7-9) by (auto simp: names_def)
    then show ?thesis using T [of f p] flow_build [OF B(4,11), of f k p] B(14) by (simp add: heads_True)
  qed
  have x: "?x \<in> names n n2" "?x \<notin> names (Suc n) n1" "?x \<notin> names n1 n2" using B(7-9) by (auto simp: names_def)
  have f1: "flow es1 t1 ?k' ?x p = (if p = 0 then heads (Suc n) False th ?k' else [])" for p
    using flow_build [OF B(2) fresh_self x(2)] by simp
  have f2: "flow es2 t2 ?k' ?x p = (if p = 1 then heads n1 False el ?k' else [])" for p
    using flow_build [OF B(3,10) x(3)] by simp
  have o1: "p \<noteq> 0 \<Longrightarrow> ptos es1 ?x p = [] \<and> (?x, p) \<notin> set t1" for p
    using out1 [OF x(2), of p] B(12) x(2) by auto
  have o2: "p \<noteq> 1 \<Longrightarrow> ptos es2 ?x p = [] \<and> (?x, p) \<notin> set t2" for p
    using out2 [OF x(3), of p] B(13) x(3) by auto
  have x0: "tos g ?x 0 = heads (Suc n) False th ?k'"
    using T2 [OF x(1), of 0] o2 [of 0] f1 [of 0] by (simp add: flow_def)
  have x1: "tos g ?x 1 = heads n1 False el ?k'"
    using T2 [OF x(1), of 1] o1 [of 1] f2 [of 1] by (simp add: flow_def)
  have P: "ports_of g (Suc n) {0, 1}"
    unfolding ports_of_tos using T2 [OF x(1)] o1 o2 by simp
  have L1: "leaves g es1 (Suc n) n1 t1 ?k'"
    unfolding leaves_def
  proof (intro ballI allI)
    fix f p assume "f \<in> names (Suc n) n1"
    then have f: "f \<notin> names n1 n2" "f \<noteq> ?x" "f \<in> names n n2" using B(7-9) by (auto simp: names_def)
    then have "ptos es2 f p = []" "(f, p) \<notin> set t2" using out2 B(13) by auto
    then show "tos g f p = flow es1 t1 ?k' f p" using T2 [OF f(3)] by (simp add: flow_def)
  qed
  have L2: "leaves g es2 n1 n2 t2 ?k'"
    unfolding leaves_def
  proof (intro ballI allI)
    fix f p assume "f \<in> names n1 n2"
    then have f: "f \<notin> names (Suc n) n1" "f \<noteq> ?x" "f \<in> names n n2" using B(7-9) by (auto simp: names_def)
    then have "ptos es1 f p = []" "(f, p) \<notin> set t1" using out1 B(12) by auto
    then show "tos g f p = flow es2 t2 ?k' f p" using T2 [OF f(3)] by (simp add: flow_def)
  qed
  have L3: "leaves g es3 n2 n' t' k"
    unfolding leaves_def
  proof (intro ballI allI)
    fix f p assume "f \<in> names n2 n'"
    then have f: "f \<notin> names (Suc n) n1" "f \<notin> names n1 n2" "f \<noteq> ?x" "f \<in> names n n'"
      using B(7-9) by (auto simp: names_def)
    then show "tos g f p = flow es3 t' k f p" using T [OF f(4)] out1 out2 by simp
  qed
  show ?case
    using B(5) by (intro B(1) [OF B(2-4) _ B(10,11,14) L1 L2 L3 x0 x1 P]) (simp add: cond_params_def)
qed

lemma leaves_Par:
  assumes "build n (SPar cm bs # ss) tails = (n', ns, es, t')" and "fresh tails n n'"
    and "leaves g es n n' t' k" and "carries g ns"
  obtains n0 tl0 n1 ns1 es1 ns2 es2
  where "n0 = (if 1 < length tails then Suc n else n)"
    and "build_branches (Suc n0) bs tl0 (nname (Suc n0)) = (n1, ns1, es1)"
    and "build n1 ss [(nname (Suc n0), 0)] = (n', ns2, es2, t')"
    and "length tl0 = 1" and "fresh tl0 (Suc n0) n1" and "fresh [(nname (Suc n0), 0)] n1 n'"
    and "carries g ns1" and "carries g ns2" and "node_at g (Suc n0) ''join'' (join_params cm)"
    and "leaves g es1 (Suc n0) n1 [] None" and "leaves g es2 n1 n' t' k"
    and "tos g (nname (Suc n0)) 0 = heads n1 False ss k" and "ports_of g (Suc n0) {0}"
    and "1 < length tails \<Longrightarrow> node_at g n0 ''join'' [(''mode'', JStr ''any'')] \<and> ports_of g n0 {0} \<and>
           tos g (nname n0) 0 = branch_heads (Suc n0) bs (nname (Suc n0))"
  using assms(1,2)
proof (rule build_Par_facts, goal_cases)
  case B: (1 n0 tl0 ns0 es0 n1 ns1 es1 ns2 es2)
  let ?j = "nname (Suc n0)"
  note out1 = ptos_outside(2) [OF B(3,11,7)]
  have n0: "n0 = (if 1 < length tails then Suc n else n)" using B(2) by (auto split: if_splits)
  have T: "tos g f p = ptos es1 f p @ flow es2 t' k f p" if "f \<in> names n n'" for f p
    using assms(3) that ptos_attach_fresh [OF assms(2) that] B(2,6)
    by (auto simp: leaves_def flow_def split: if_splits)
  have T2: "tos g f p = ptos es1 f p @ (if f = ?j \<and> p = 0 then heads n1 False ss k else [])"
    if "f \<in> names n n1" for f p
  proof -
    have "f \<in> names n n'" "f \<notin> names n1 n'" using that B(8-10) by (auto simp: names_def)
    then show ?thesis using T [of f p] flow_build [OF B(4,12), of f k p] by simp
  qed
  have j: "?j \<in> names n n1" "?j \<notin> names (Suc n0) n1" "\<And>p. (?j, p) \<notin> set tl0"
    using B(8-10,13) assms(2) by (force simp: names_def fresh_def)+
  have tj: "tos g ?j p = (if p = 0 then heads n1 False ss k else [])" for p
    using T2 [OF j(1)] out1 [OF j(2,3)] by simp
  have L1: "leaves g es1 (Suc n0) n1 [] None"
    unfolding leaves_def
  proof (intro ballI allI)
    fix f p assume f: "f \<in> names (Suc n0) n1"
    then have "f \<in> names n n1" "f \<noteq> ?j" using B(8-10) by (auto simp: names_def)
    then show "tos g f p = flow es1 [] None f p" using T2 by (simp add: flow_def)
  qed
  have L2: "leaves g es2 n1 n' t' k"
    unfolding leaves_def
  proof (intro ballI allI)
    fix f p assume f: "f \<in> names n1 n'"
    then have f': "f \<in> names n n'" "f \<notin> names (Suc n0) n1" "(f, p) \<notin> set tl0"
      using B(8-10,13) assms(2) by (force simp: names_def fresh_def)+
    then show "tos g f p = flow es2 t' k f p" using T [OF f'(1)] out1 by simp
  qed
  have M: "node_at g n0 ''join'' [(''mode'', JStr ''any'')] \<and> ports_of g n0 {0} \<and>
           tos g (nname n0) 0 = branch_heads (Suc n0) bs ?j" if m: "1 < length tails"
  proof -
    have m0: "tl0 = [(nname n0, 0)]" "nname n0 \<in> names n n1" "nname n0 \<notin> names (Suc n0) n1"
      using B(2,9) m by (auto simp: names_def)
    have "tos g (nname n0) p = (if p = 0 then branch_heads (Suc n0) bs ?j else [])" for p
      using T2 [OF m0(2)] out1 [OF m0(3)] build_heads(2) [OF B(3,11,7)] m0(1) by auto
    moreover have "node_at g n0 ''join'' [(''mode'', JStr ''any'')]" using assms(4) B(2,5) m by simp
    ultimately show ?thesis by (simp add: ports_of_tos)
  qed
  have C: "carries g ns1" "carries g ns2" "node_at g (Suc n0) ''join'' (join_params cm)"
    using assms(4) B(5) by simp_all
  show ?case by (rule B(1) [OF n0 B(3,4,7,11,12) C L1 L2 _ _ M]) (simp_all add: tj ports_of_tos)
qed

lemma leaves_Do:
  assumes "build n (SDo t p # ss) tails = (n', ns, es, t')" and "fresh tails n n'"
    and "leaves g es n n' t' k"
  obtains ns1 es1
  where "build (Suc n) ss [(nname (Suc n), 0)] = (n', ns1, es1, t')"
    and "ns = new_node (Suc n) t p # ns1" and "leaves g es1 (Suc n) n' t' k"
    and "tos g (nname (Suc n)) 0 = heads (Suc n) False ss k" and "ports_of g (Suc n) {0}"
  using assms(1)
proof (rule build_DoE, goal_cases)
  case B: (1 ns1 es1)
  let ?x = "nname (Suc n)"
  have le: "Suc n \<le> n'" using build_mono(1) [OF B(2)] by simp
  have T: "tos g f p = flow es1 t' k f p" if "f \<in> names n n'" for f p
    using assms(3) that ptos_attach_fresh [OF assms(2) that] B(4) by (simp add: leaves_def flow_def)
  have "tos g ?x p = (if p = 0 then heads (Suc n) False ss k else [])" for p
    using T [of ?x p] flow_build [OF B(2) fresh_self, of ?x k p] le by simp
  moreover have "leaves g es1 (Suc n) n' t' k" using T le by (auto simp: leaves_def names_def)
  ultimately show ?case using B(2,3) by (intro B(1)) (simp_all add: ports_of_tos)
qed

lemma leaves_ConsB:
  assumes "build_branches n (b # bs) tails j = (n', ns, es)" and "fresh tails n n'"
    and "length tails = 1" and "leaves g es n n' [] None"
  obtains n1 ns1 es1 t1 ns2 es2
  where "build n b tails = (n1, ns1, es1, t1)" and "build_branches n1 bs tails j = (n', ns2, es2)"
    and "ns = ns1 @ ns2" and "fresh tails n n1" and "fresh tails n1 n'"
    and "leaves g es1 n n1 t1 (Some j)" and "leaves g es2 n1 n' [] None"
  using assms(1-3)
proof (rule build_ConsB_facts, goal_cases)
  case B: (1 n1 ns1 es1 t1 ns2 es2)
  have T: "tos g f p = ptos es1 f p @ (if (f, p) \<in> set t1 then [j] else []) @ ptos es2 f p"
    if "f \<in> names n n'" for f p
    using assms(4) that B(5,10) by (simp add: leaves_def flow_def ptos_attach)
  have nt: "(f, p) \<notin> set tails" if "f \<in> names n n'" for f p
    using assms(2) that by (force simp: fresh_def)
  have L1: "leaves g es1 n n1 t1 (Some j)"
    unfolding leaves_def
  proof (intro ballI allI)
    fix f p assume "f \<in> names n n1"
    then have f: "f \<in> names n n'" "f \<notin> names n1 n'" using B(6,7) by (auto simp: names_def)
    then show "tos g f p = flow es1 t1 (Some j) f p"
      using T [OF f(1)] ptos_outside(2) [OF B(3,9) assms(3) f(2) nt [OF f(1)]] by (simp add: flow_def)
  qed
  have L2: "leaves g es2 n1 n' [] None"
    unfolding leaves_def
  proof (intro ballI allI)
    fix f p assume "f \<in> names n1 n'"
    then have f: "f \<in> names n n'" "f \<notin> names n n1" using B(6,7) by (auto simp: names_def)
    moreover from this have "(f, p) \<notin> set t1" using B(11) nt [OF f(1)] by (auto split: if_splits)
    ultimately show "tos g f p = flow es2 [] None f p"
      using T [OF f(1)] ptos_outside(1) [OF B(2,8) f(2) nt [OF f(1)]] by (simp add: flow_def)
  qed
  show ?case by (rule B(1) [OF B(2-4,8,9) L1 L2])
qed

lemma build_wired:
  shows "build n ss tails = (n', ns, es, t') \<Longrightarrow> fresh tails n n' \<Longrightarrow> carries g ns \<Longrightarrow>
       leaves g es n n' t' k \<Longrightarrow> wired g n (1 < length tails) ss k"
    and "build_branches n bs tails j = (n', ns, es) \<Longrightarrow> fresh tails n n' \<Longrightarrow> length tails = 1 \<Longrightarrow>
       carries g ns \<Longrightarrow> leaves g es n n' [] None \<Longrightarrow> wired_branches g n bs j"
proof (induction ss and bs arbitrary: n tails n' ns es t' k and n tails j n' ns es
    rule: blocks_induct)
  case (If c cm th el ss)
  from If.prems(1,2,4) show ?case
  proof (rule leaves_If, goal_cases)
    case B: (1 n1 ns1 es1 t1 n2 ns2 es2 t2 ns3 es3)
    have w: "n1 = Suc n + width False th" "n2 = n1 + width False el"
      using build_width(1) [OF B(1)] build_width(1) [OF B(2)] by simp_all
    have c: "node_at g (Suc n) ''cond'' (cond_params c cm)" "carries g ns1" "carries g ns2" "carries g ns3"
      using If.prems(3) B(4) by simp_all
    show ?case
      using If.IH(1) [OF B(1) fresh_self c(2) B(8)] If.IH(2) [OF B(2,5) c(3) B(9)]
        If.IH(3) [OF B(3,6) c(4) B(10)] c(1) B(7,11-13) w by (simp add: Let_def)
  qed
next
  case (Par cm bs ss)
  from Par.prems(1,2,4,3) show ?case
  proof (rule leaves_Par, goal_cases)
    case B: (1 n0 tl0 n1 ns1 es1 ns2 es2)
    have "n1 = Suc n0 + widths bs" by (rule build_width(2) [OF B(2,4)])
    then show ?case
      using Par.IH(1) [OF B(2,5,4,7,10)] Par.IH(2) [OF B(3,6,8,11)] B(1,9,12-14) by (simp add: Let_def)
  qed
next
  case (Do t p ss)
  from Do.prems(1,2,4) show ?case
  proof (rule leaves_Do, goal_cases)
    case B: (1 ns1 es1)
    then show ?case using Do.IH [OF B(1) fresh_self _ B(3)] Do.prems(3) by simp
  qed
next
  case (ConsB b bs)
  from ConsB.prems(1-3,5) show ?case
  proof (rule leaves_ConsB, goal_cases)
    case B: (1 n1 ns1 es1 t1 ns2 es2)
    have "n1 = n + width False b" using build_width(1) [OF B(1)] ConsB.prems(3) by (cases tails) auto
    then show ?case
      using ConsB.IH(1) [OF B(1,4) _ B(6)] ConsB.IH(2) [OF B(2,5) ConsB.prems(3) _ B(7)]
        ConsB.prems(3,4) B(3) by simp
  qed
qed auto

end
