(* ===== verification/Macro_Graph.thy ===== *)
theory Macro_Graph
  imports Macro_Wired
begin

text \<open>
  What \<open>blocks_to_graph\<close> answers: \<open>blocks_to_graph_wired\<close> (the code of the blocks after the entry),
  \<open>blocks_to_graph_valid\<close> (the graph passes \<open>validate_graph\<close>), and what the search \<open>reach\<close> computes
  (\<open>set_reach\<close>).
\<close>

subsection \<open>The positions change nothing else\<close>

lemma place_keeps:
  "map (\<lambda>n. (nid n, ntype n, nparams n)) (place layer lanes ns) = map (\<lambda>n. (nid n, ntype n, nparams n)) ns"
  by (induction ns arbitrary: lanes) (simp_all add: Let_def)

lemma layout_keeps:
  "map (\<lambda>n. (nid n, ntype n, nparams n)) (layout ns es) = map (\<lambda>n. (nid n, ntype n, nparams n)) ns"
  by (simp add: layout_def place_keeps)

lemma layout_nid: "map nid (layout ns es) = map nid ns"
  using arg_cong [OF layout_keeps, of "map fst"] by (simp add: comp_def)

lemma length_layout [simp]: "length (layout ns es) = length ns"
  using arg_cong [OF layout_nid, of length] by simp

lemma layout_member:
  assumes "x \<in> set ns"
  obtains y where "y \<in> set (layout ns es)" and "nid y = nid x" and "ntype y = ntype x" and "nparams y = nparams x"
proof -
  have "(nid x, ntype x, nparams x) \<in> set (map (\<lambda>n. (nid n, ntype n, nparams n)) (layout ns es))"
    unfolding layout_keeps using assms by force
  then show ?thesis using that by auto
qed

lemma node_of_distinct:
  "distinct (map nid (gnodes g)) \<Longrightarrow> y \<in> set (gnodes g) \<Longrightarrow> node_of g (nid y) = Some y"
  unfolding node_of_def by (intro map_of_is_SomeI) (auto simp: comp_def rev_map [symmetric])

lemma carries_layout:
  assumes "gnodes g = layout ns es" and "distinct (map nid ns)"
  shows "carries g ns"
  unfolding carries_def
proof
  fix x assume "x \<in> set ns"
  then obtain y where y: "y \<in> set (gnodes g)" "nid y = nid x" "ntype y = ntype x" "nparams y = nparams x"
    using layout_member assms(1) by metis
  moreover have "distinct (map nid (gnodes g))" using assms layout_nid by metis
  ultimately show "\<exists>y. node_of g (nid x) = Some y \<and> ntype y = ntype x \<and> nparams y = nparams x"
    using node_of_distinct by metis
qed

subsection \<open>The compiled graph\<close>

lemma blocks_to_graph_parts:
  obtains ns es t where "build 1 ss [(nname 1, 0)] = (1 + width False ss, ns, es, t)"
    and "gnodes (blocks_to_graph ss) = layout (new_node 1 ''entry'' [(''mode'', JStr ''manual'')] # ns) es"
    and "gedges (blocks_to_graph ss) = es"
proof -
  obtain n ns es t where b: "build 1 ss [(nname 1, 0)] = (n, ns, es, t)" by (metis prod_cases4)
  then have "n = 1 + width False ss" using build_width(1) [OF b] by simp
  with b show ?thesis by (intro that) (simp_all add: blocks_to_graph_def new_node_def)
qed

lemma upt_1_Cons: "nname 1 # map nname [Suc 1..<Suc (1 + w)] = map nname [1..<Suc (1 + w)]"
  by (simp add: upt_conv_Cons del: upt_Suc)

lemma blocks_to_graph_ids:
  "map nid (gnodes (blocks_to_graph ss)) = map nname [1..<Suc (1 + width False ss)]"
proof (rule blocks_to_graph_parts [of ss])
  fix ns es t
  assume b: "build 1 ss [(nname 1, 0)] = (1 + width False ss, ns, es, t)"
    and g: "gnodes (blocks_to_graph ss) = layout (new_node 1 ''entry'' [(''mode'', JStr ''manual'')] # ns) es"
  have "map nid ns = map nname [Suc 1..<Suc (1 + width False ss)]" using build_ids(1) [OF b] by simp
  then show ?thesis by (simp add: g layout_nid upt_1_Cons [symmetric] del: upt_Suc One_nat_def)
qed

lemma distinct_ids: "distinct (map nid (gnodes (blocks_to_graph ss)))"
  by (simp only: blocks_to_graph_ids) (simp add: distinct_map inj_on_def del: upt_Suc)

lemma length_gnodes: "length (gnodes (blocks_to_graph ss)) = Suc (width False ss)"
  using arg_cong [OF blocks_to_graph_ids, of length] by simp

theorem blocks_to_graph_wired:
  fixes ss :: "step list"
  defines "g \<equiv> blocks_to_graph ss"
  shows "wired g 1 False ss None"
    and "tos g (nname 1) 0 = heads 1 False ss None"
    and "ports_of g 1 {0}"
    and "node_at g 1 ''entry'' [(''mode'', JStr ''manual'')]"
    and "e \<in> set (gedges g) \<Longrightarrow> efrom e \<in> names 0 (1 + width False ss) \<and> eto e \<in> names 1 (1 + width False ss)"
proof -
  define n' where "n' = 1 + width False ss"
  obtain ns es t where b: "build 1 ss [(nname 1, 0)] = (n', ns, es, t)"
    and gn: "gnodes g = layout (new_node 1 ''entry'' [(''mode'', JStr ''manual'')] # ns) es"
    and ge: "gedges g = es"
    unfolding n'_def g_def by (rule blocks_to_graph_parts)
  have f: "fresh [(nname 1, 0)] 1 n'" by simp
  have "map nid (new_node 1 ''entry'' [(''mode'', JStr ''manual'')] # ns) = map nid (gnodes g)"
    by (simp add: gn layout_nid)
  then have C: "carries g (new_node 1 ''entry'' [(''mode'', JStr ''manual'')] # ns)"
    using carries_layout [OF gn] distinct_ids [of ss] by (simp add: g_def)
  have "leaves g es 1 n' t None" by (simp add: leaves_def flow_def ge)
  then show "wired g 1 False ss None"
    using build_wired(1) [OF b f] C by simp
  have x1: "nname 1 \<notin> names 1 n'" by simp
  show "tos g (nname 1) 0 = heads 1 False ss None"
    using build_heads(1) [OF b f, of "nname 1" 0] by (cases "ss = []") (simp_all add: ge)
  show "ports_of g 1 {0}"
    unfolding ports_of_tos ge using ptos_outside(1) [OF b f x1] by simp
  show "node_at g 1 ''entry'' [(''mode'', JStr ''manual'')]" using C by simp
  show "e \<in> set (gedges g) \<Longrightarrow> efrom e \<in> names 0 (1 + width False ss) \<and> eto e \<in> names 1 (1 + width False ss)"
    using build_edges(1) [OF b f, of e] by (auto simp: ge n'_def names_def)
qed

subsection \<open>It is valid\<close>

fun known_types :: "step list \<Rightarrow> bool"
  and known_types_branches :: "step list list \<Rightarrow> bool" where
  "known_types [] = True"
| "known_types (SIf c cm th el # ss) = (known_types th \<and> known_types el \<and> known_types ss)"
| "known_types (SPar cm bs # ss) = (known_types_branches bs \<and> known_types ss)"
| "known_types (SDo t p # ss) = (t \<in> set disableable_types \<and> known_types ss)"
| "known_types_branches [] = True"
| "known_types_branches (b # bs) = (known_types b \<and> known_types_branches bs)"

definition sound_node :: "graph \<Rightarrow> nat \<Rightarrow> bool" where
  "sound_node g x \<longleftrightarrow> (\<exists>nd. node_of g (nname x) = Some nd \<and>
     ntype nd \<in> set graph_node_types - {''entry'', ''choice''} \<and>
     (\<forall>e \<in> set (gedges g). efrom e = nname x \<longrightarrow> 0 \<le> eport e \<and> eport e < int (node_out_ports nd)))"

lemma sound_nodeI:
  "node_at g x t p \<Longrightarrow> ports_of g x P \<Longrightarrow> t \<in> set graph_node_types - {''entry'', ''choice''} \<Longrightarrow>
   (if t = ''cond'' then P = {0, 1} else P = {0}) \<Longrightarrow> sound_node g x"
  by (fastforce simp: node_at_def ports_of_def sound_node_def node_out_ports_def split: if_splits)

lemma disableable_known: "t \<in> set disableable_types \<Longrightarrow>
    t \<in> set graph_node_types - {''entry'', ''choice''} \<and> t \<noteq> ''cond'' \<and> t \<noteq> ''join''"
  by (auto simp: disableable_types_def graph_node_types_def)

lemma wired_sound:
  shows "wired g n m ss k \<Longrightarrow> known_types ss \<Longrightarrow> n < x \<Longrightarrow> x \<le> n + width m ss \<Longrightarrow> sound_node g x"
    and "wired_branches g n bs j \<Longrightarrow> known_types_branches bs \<Longrightarrow> n < x \<Longrightarrow> x \<le> n + widths bs \<Longrightarrow> sound_node g x"
proof (induction ss and bs arbitrary: n m k and n j rule: blocks_induct)
  case (If c cm th el ss)
  let ?n1 = "Suc n + width False th" let ?n2 = "?n1 + width False el"
  have W: "node_at g (Suc n) ''cond'' (cond_params c cm)" "ports_of g (Suc n) {0, 1}"
    "wired g (Suc n) False th (kont ?n2 ss k)" "wired g ?n1 False el (kont ?n2 ss k)" "wired g ?n2 True ss k"
    using If.prems(1) by (simp_all add: Let_def)
  consider "x = Suc n" | "Suc n < x" "x \<le> ?n1" | "?n1 < x" "x \<le> ?n2" | "?n2 < x" "x \<le> ?n2 + width True ss"
    using If.prems(3,4) by fastforce
  then show ?case
    using sound_nodeI [OF W(1,2)] If.IH(1) [OF W(3)] If.IH(2) [OF W(4)] If.IH(3) [OF W(5)] If.prems(2)
    by cases (simp_all add: graph_node_types_def)
next
  case (Par cm bs ss)
  let ?n0 = "if m then Suc n else n" let ?n1 = "Suc ?n0 + widths bs"
  have W: "m \<Longrightarrow> node_at g ?n0 ''join'' [(''mode'', JStr ''any'')]" "m \<Longrightarrow> ports_of g ?n0 {0}"
    "node_at g (Suc ?n0) ''join'' (join_params cm)" "ports_of g (Suc ?n0) {0}"
    "wired_branches g (Suc ?n0) bs (nname (Suc ?n0))" "wired g ?n1 False ss k"
    using Par.prems(1) by (simp_all add: Let_def)
  consider "m" "x = ?n0" | "x = Suc ?n0" | "Suc ?n0 < x" "x \<le> ?n1" | "?n1 < x" "x \<le> ?n1 + width False ss"
    using Par.prems(3,4) by (cases m) fastforce+
  then show ?case
    using sound_nodeI [OF W(1,2)] sound_nodeI [OF W(3,4)] Par.IH(1) [OF W(5)] Par.IH(2) [OF W(6)] Par.prems(2)
    by cases (simp_all add: graph_node_types_def)
next
  case (Do t p ss)
  have W: "node_at g (Suc n) t p" "ports_of g (Suc n) {0}" "wired g (Suc n) False ss k"
    using Do.prems(1) by simp_all
  consider "x = Suc n" | "Suc n < x" "x \<le> Suc n + width False ss" using Do.prems(3,4) by fastforce
  then show ?case
    using sound_nodeI [OF W(1,2)] Do.IH [OF W(3)] Do.prems(2) disableable_known [of t] by cases simp_all
next
  case (ConsB b bs)
  consider "n < x" "x \<le> n + width False b"
    | "n + width False b < x" "x \<le> n + width False b + widths bs" using ConsB.prems(3,4) by fastforce
  then show ?case using ConsB.IH ConsB.prems(1,2) by cases auto
qed simp_all

lemma check_nodes_ok:
  assumes "distinct (map nid ns)" and "\<And>n. n \<in> set ns \<Longrightarrow> nid n \<noteq> [] \<and> ntype n \<in> set graph_node_types"
    and "\<And>n. n \<in> set ns \<Longrightarrow> map_of d (nid n) = None"
  shows "\<exists>d'. check_nodes d ns = ([], d') \<and>
    (\<forall>x. map_of d' x = (case map_of (map (\<lambda>n. (nid n, n)) ns) x of None \<Rightarrow> map_of d x | Some n \<Rightarrow> Some n))"
  using assms
proof (induction ns arbitrary: d)
  case (Cons n ns)
  have n: "nid n \<noteq> []" "ntype n \<in> set graph_node_types" "map_of d (nid n) = None" using Cons.prems by auto
  have "\<exists>d'. check_nodes (dict_put (nid n) n d) ns = ([], d') \<and>
    (\<forall>x. map_of d' x = (case map_of (map (\<lambda>n. (nid n, n)) ns) x of
       None \<Rightarrow> map_of (dict_put (nid n) n d) x | Some n \<Rightarrow> Some n))"
    using Cons.prems by (intro Cons.IH) (auto, metis image_eqI)
  then obtain d' where d': "check_nodes (dict_put (nid n) n d) ns = ([], d')"
    "\<And>x. map_of d' x = (case map_of (map (\<lambda>n. (nid n, n)) ns) x of
       None \<Rightarrow> map_of (dict_put (nid n) n d) x | Some n \<Rightarrow> Some n)" by auto
  have no: "map_of (map (\<lambda>n. (nid n, n)) ns) (nid n) = None"
    using Cons.prems(1) by (force simp: map_of_eq_None_iff)
  show ?case using n d' no by (auto simp: Let_def split: option.splits)
qed simp

lemma option_eqI: "(\<And>y. a = Some y \<longleftrightarrow> b = Some y) \<Longrightarrow> a = b"
  by (cases a; cases b) auto

lemma node_of_map_of:
  assumes "distinct (map nid (gnodes g))"
  shows "node_of g = map_of (map (\<lambda>n. (nid n, n)) (gnodes g))"
proof (rule ext, rule option_eqI)
  fix x y
  show "node_of g x = Some y \<longleftrightarrow> map_of (map (\<lambda>n. (nid n, n)) (gnodes g)) x = Some y"
    unfolding node_of_def using assms
    by (subst (1 2) map_of_eq_Some_iff) (simp_all add: comp_def rev_map [symmetric])
qed

lemma node_of_compiled:
  assumes "known_types ss" and "0 < x" and "x \<le> 1 + width False ss"
  shows "\<exists>nd. node_of (blocks_to_graph ss) (nname x) = Some nd \<and> ntype nd \<in> set graph_node_types \<and>
     (\<forall>e \<in> set (gedges (blocks_to_graph ss)). efrom e = nname x \<longrightarrow>
        0 \<le> eport e \<and> eport e < int (node_out_ports nd))"
proof (cases "x = 1")
  case True
  then show ?thesis using blocks_to_graph_wired(3,4) [of ss]
    by (auto simp: node_at_def ports_of_def node_out_ports_def graph_node_types_def)
next
  case False
  with assms have "1 < x" "x \<le> 1 + width False ss" by auto
  then have "sound_node (blocks_to_graph ss) x"
    using wired_sound(1) [OF blocks_to_graph_wired(1) assms(1)] by blast
  then show ?thesis by (auto simp: sound_node_def)
qed

theorem blocks_to_graph_valid:
  assumes "known_types ss"
  shows "validate_graph (blocks_to_graph ss) = []"
proof -
  let ?g = "blocks_to_graph ss" let ?N = "1 + width False ss"
  have D: "distinct (map nid (gnodes ?g))" by (rule distinct_ids)
  have ids: "nid ` set (gnodes ?g) = names 0 ?N"
    using arg_cong [OF blocks_to_graph_ids [of ss], of set]
    by (simp add: names_def atLeastLessThanSuc_atLeastAtMost atLeastSucAtMost_greaterThanAtMost del: upt_Suc)
  have nodes: "nid n \<noteq> [] \<and> ntype n \<in> set graph_node_types" if n: "n \<in> set (gnodes ?g)" for n
  proof -
    have "nid n \<in> names 0 ?N" using n ids by blast
    then obtain x where x: "nid n = nname x" "0 < x" "x \<le> ?N" by (auto simp: names_def)
    moreover have "node_of ?g (nid n) = Some n" using D n by (rule node_of_distinct)
    ultimately show ?thesis using node_of_compiled [OF assms x(2,3)] by (auto simp: nname_def)
  qed
  obtain d' where c: "check_nodes [] (gnodes ?g) = ([], d')"
    and m: "\<And>x. map_of d' x = (case node_of ?g x of None \<Rightarrow> map_of [] x | Some n \<Rightarrow> Some n)"
    unfolding node_of_map_of [OF D] using check_nodes_ok [OF D nodes, of "[]"] by auto
  have d': "map_of d' x = node_of ?g x" for x
    using m [of x] by (cases "node_of ?g x") simp_all
  have "check_edge d' e = []" if e: "e \<in> set (gedges ?g)" for e
  proof -
    have "efrom e \<in> names 0 ?N" "eto e \<in> names 1 ?N" using blocks_to_graph_wired(5) [OF e] by auto
    then obtain x y where x: "efrom e = nname x" "0 < x" "x \<le> ?N" and y: "eto e = nname y" "0 < y" "y \<le> ?N"
      by (auto simp: names_def)
    show ?thesis
      using node_of_compiled [OF assms x(2,3)] node_of_compiled [OF assms y(2,3)] e
      by (auto simp: check_edge_def d' x(1) y(1))
  qed
  moreover have "\<exists>n \<in> set (gnodes ?g). ntype n = ''entry''"
  proof -
    obtain nd where nd: "node_of ?g (nname 1) = Some nd" "ntype nd = ''entry''"
      using blocks_to_graph_wired(4) by (auto simp: node_at_def)
    then have "nd \<in> set (gnodes ?g)" by (auto simp: node_of_def dest!: map_of_SomeD)
    with nd show ?thesis by blast
  qed
  ultimately show ?thesis by (simp add: validate_graph_def c)
qed

subsection \<open>The search\<close>

definition succ_rel :: "graph \<Rightarrow> (string \<times> string) set" where
  "succ_rel g = {(efrom e, eto e) | e. e \<in> set (gedges g)}"

lemma set_succs: "set (succs g x) = succ_rel g `` {x}"
  by (auto simp: succs_def succ_rel_def)

lemma reach_loop_spec:
  assumes "set stack \<subseteq> set seen" and "\<And>x. x \<in> set seen \<Longrightarrow> x \<notin> set stack \<Longrightarrow> set (succs g x) \<subseteq> set seen"
    and "distinct seen"
  shows "distinct (reach_loop g seen stack) \<and>
    set seen \<subseteq> set (reach_loop g seen stack) \<and>
    set (reach_loop g seen stack) \<subseteq> (succ_rel g)\<^sup>* `` set seen \<and>
    (\<forall>x \<in> set (reach_loop g seen stack). set (succs g x) \<subseteq> set (reach_loop g seen stack))"
  using assms
proof (induction g seen stack rule: reach_loop.induct)
  case (2 g seen x stack)
  obtain seen' stack' where p: "push_new (succs g x) seen stack = (seen', stack')" by fastforce
  note q = push_new_set [OF p]
  have IH: "distinct (reach_loop g seen' stack') \<and> set seen' \<subseteq> set (reach_loop g seen' stack') \<and>
    set (reach_loop g seen' stack') \<subseteq> (succ_rel g)\<^sup>* `` set seen' \<and>
    (\<forall>x \<in> set (reach_loop g seen' stack'). set (succs g x) \<subseteq> set (reach_loop g seen' stack'))"
  proof (rule 2(1) [OF p [symmetric] refl])
    show "set stack' \<subseteq> set seen'" using q 2(2) by auto
    show "set (succs g y) \<subseteq> set seen'" if "y \<in> set seen'" "y \<notin> set stack'" for y
      using q that 2(3) [of y] by (cases "y = x") auto
    show "distinct seen'" using q 2(4) by blast
  qed
  have sub: "set seen' \<subseteq> (succ_rel g)\<^sup>* `` set seen"
  proof
    fix z assume "z \<in> set seen'"
    then consider "z \<in> set seen" | "z \<in> set (succs g x)" using q by blast
    then show "z \<in> (succ_rel g)\<^sup>* `` set seen"
    proof cases
      case 2
      then have "(x, z) \<in> succ_rel g" using set_succs [of g x] by blast
      moreover have "x \<in> set seen" using "2.prems"(1) by simp
      ultimately show ?thesis by blast
    qed blast
  qed
  have "(succ_rel g)\<^sup>* `` set seen' \<subseteq> (succ_rel g)\<^sup>* `` set seen"
  proof
    fix z assume "z \<in> (succ_rel g)\<^sup>* `` set seen'"
    then obtain y where "y \<in> set seen'" "(y, z) \<in> (succ_rel g)\<^sup>*" by blast
    moreover from this sub obtain w where "w \<in> set seen" "(w, y) \<in> (succ_rel g)\<^sup>*" by blast
    ultimately show "z \<in> (succ_rel g)\<^sup>* `` set seen" by (meson ImageI rtrancl_trans)
  qed
  then have "set (reach_loop g seen' stack') \<subseteq> (succ_rel g)\<^sup>* `` set seen" using IH by blast
  moreover have "set seen \<subseteq> set (reach_loop g seen' stack')" using IH q by blast
  moreover have "reach_loop g seen (x # stack) = reach_loop g seen' stack'" by (simp add: p)
  ultimately show ?case using IH by simp
next
  case (1 g seen)
  then have "set seen \<subseteq> (succ_rel g)\<^sup>* `` set seen" by blast
  with 1 show ?case by simp
qed

lemma reach_closed:
  "distinct (reach g x) \<and> set [x] \<subseteq> set (reach g x) \<and> set (reach g x) \<subseteq> (succ_rel g)\<^sup>* `` set [x] \<and>
   (\<forall>y \<in> set (reach g x). set (succs g y) \<subseteq> set (reach g x))"
  unfolding reach_def by (rule reach_loop_spec) simp_all

lemma distinct_reach: "distinct (reach g x)"
  using reach_closed by blast

lemma set_reach: "set (reach g x) = (succ_rel g)\<^sup>* `` {x}"
proof
  show "set (reach g x) \<subseteq> (succ_rel g)\<^sup>* `` {x}" using reach_closed [of g x] by simp
  have "y \<in> set (reach g x)" if "(x, y) \<in> (succ_rel g)\<^sup>*" for y
    using that
  proof induction
    case base
    then show ?case using reach_closed [of g x] by simp
  next
    case (step y z)
    then have "z \<in> set (succs g y)" using set_succs [of g y] by blast
    then show ?case using reach_closed [of g x] step.IH by blast
  qed
  then show "(succ_rel g)\<^sup>* `` {x} \<subseteq> set (reach g x)" by blast
qed

end
