(* ===== verification/Macro_Reach.thy ===== *)
theory Macro_Reach
  imports Macro_Graph
begin

text \<open>
  Which nodes the code of a list of blocks reaches (\<open>wired_reach\<close>), that it has no cycle
  (\<open>wired_acyclic\<close>), and so where its branches meet (\<open>merge_of_meet\<close>).
\<close>

text \<open>
  The blocks whose compilation \<open>graph_to_blocks\<close> can read back: every \<open>parallel\<close> has two branches or
  more, and no branch of a \<open>parallel\<close> starts with a \<open>parallel\<close>.
\<close>

fun starts_par :: "step list \<Rightarrow> bool" where
  "starts_par (SPar cm bs # ss) = True"
| "starts_par ss = False"

fun convertible :: "step list \<Rightarrow> bool"
  and convertible_branches :: "step list list \<Rightarrow> bool" where
  "convertible [] = True"
| "convertible (SIf c cm th el # ss) = (convertible th \<and> convertible el \<and> convertible ss)"
| "convertible (SPar cm bs # ss) = (2 \<le> length bs \<and> convertible_branches bs \<and> convertible ss)"
| "convertible (SDo t p # ss) = convertible ss"
| "convertible_branches [] = True"
| "convertible_branches (b # bs) = (\<not> starts_par b \<and> convertible b \<and> convertible_branches bs)"

subsection \<open>What is reachable from a list of nodes\<close>

definition rset :: "graph \<Rightarrow> string list \<Rightarrow> string set" where
  "rset g xs = (succ_rel g)\<^sup>* `` set xs"

lemma rset_simps [simp]: "rset g [] = {}" "rset g (xs @ ys) = rset g xs \<union> rset g ys"
  by (auto simp: rset_def)

lemma rset_self: "x \<in> rset g [x]"
  by (auto simp: rset_def)

lemma succs_ports: "succ_rel g `` {x} = (\<Union>p. set (tos g x p))"
  by (simp add: succ_rel_def set_ptos Image_def set_eq_iff) blast

lemma rset_step: "rset g [x] = insert x ((succ_rel g)\<^sup>* `` (succ_rel g `` {x}))"
  unfolding rset_def by (auto elim: converse_rtranclE intro: converse_rtrancl_into_rtrancl)

lemma trancl_succs: "(x, y) \<in> (succ_rel g)\<^sup>+ \<longleftrightarrow> y \<in> (succ_rel g)\<^sup>* `` (succ_rel g `` {x})"
  by (auto dest: tranclD intro: rtrancl_into_trancl2)

definition after :: "graph \<Rightarrow> string \<Rightarrow> string set" where
  "after g x = {y. (x, y) \<in> (succ_rel g)\<^sup>+}"

lemma rset_after: "rset g [x] = insert x (after g x)"
  by (auto simp: rset_step after_def trancl_succs)

lemma after_ports_0:
  "ports_of g k {0} \<Longrightarrow> after g (nname k) = rset g (tos g (nname k) 0)"
proof -
  assume p: "ports_of g k {0}"
  then have "succ_rel g `` {nname k} = set (tos g (nname k) 0)"
    unfolding succs_ports ports_of_tos by (auto split: if_splits) (metis empty_iff list.set(1))
  then show ?thesis by (auto simp: after_def trancl_succs rset_def)
qed

lemma after_ports_01:
  "ports_of g k {0, 1} \<Longrightarrow> after g (nname k) = rset g (tos g (nname k) 0) \<union> rset g (tos g (nname k) 1)"
proof -
  assume p: "ports_of g k {0, 1}"
  then have "succ_rel g `` {nname k} = set (tos g (nname k) 0) \<union> set (tos g (nname k) 1)"
    unfolding succs_ports ports_of_tos by auto (metis empty_iff list.set(1))
  then show ?thesis by (auto simp: after_def trancl_succs rset_def)
qed

lemma names_cat: "names a (a + w) \<union> names (a + w) (a + w + v) = names a (a + w + v)"
  by (rule names_split [symmetric]) simp_all

lemma names_first: "insert (nname (Suc a)) (names (Suc a) (Suc a + w)) = names a (Suc a + w)"
  by (rule names_Suc [symmetric]) simp

lemma wired_reach:
  shows "wired g n m ss k \<Longrightarrow> convertible ss \<Longrightarrow>
       rset g (heads n m ss k) = names n (n + width m ss) \<union> rset g (klist k)"
    and "wired_branches g n bs j \<Longrightarrow> convertible_branches bs \<Longrightarrow>
       rset g (branch_heads n bs j) = names n (n + widths bs) \<union> (if bs = [] then {} else rset g [j])"
proof (induction ss and bs arbitrary: n m k and n j rule: blocks_induct)
  case (If c cm th el ss)
  let ?n1 = "Suc n + width False th" let ?n2 = "?n1 + width False el" let ?k' = "kont ?n2 ss k"
  have W: "ports_of g (Suc n) {0, 1}"
    "tos g (nname (Suc n)) 0 = heads (Suc n) False th ?k'" "tos g (nname (Suc n)) 1 = heads ?n1 False el ?k'"
    "wired g (Suc n) False th ?k'" "wired g ?n1 False el ?k'" "wired g ?n2 True ss k"
    using If.prems(1) by (simp_all add: Let_def)
  have "rset g (klist ?k') = names ?n2 (?n2 + width True ss) \<union> rset g (klist k)"
    using If.IH(3) [OF W(6)] If.prems(2) by (simp add: heads_True)
  then have "after g (nname (Suc n)) = names (Suc n) (?n2 + width True ss) \<union> rset g (klist k)"
    using after_ports_01 [OF W(1)] W(2,3) If.IH(1) [OF W(4)] If.IH(2) [OF W(5)] If.prems(2)
      names_cat [of "Suc n" "width False th" "width False el"]
      names_cat [of "Suc n" "width False th + width False el" "width True ss"]
    by (auto simp: add.assoc)
  then show ?case
    using names_first [of n "width False th + width False el + width True ss"]
    by (auto simp: rset_after add.assoc)
next
  case (Par cm bs ss)
  let ?n0 = "if m then Suc n else n" let ?n1 = "Suc ?n0 + widths bs" let ?j = "nname (Suc ?n0)"
  have W: "m \<Longrightarrow> ports_of g ?n0 {0}" "m \<Longrightarrow> tos g (nname ?n0) 0 = branch_heads (Suc ?n0) bs ?j"
    "ports_of g (Suc ?n0) {0}" "tos g ?j 0 = heads ?n1 False ss k"
    "wired_branches g (Suc ?n0) bs ?j" "wired g ?n1 False ss k"
    using Par.prems(1) by (simp_all add: Let_def)
  have J: "rset g [?j] = insert ?j (names ?n1 (?n1 + width False ss) \<union> rset g (klist k))"
    using Par.IH(2) [OF W(6)] Par.prems(2) W(4) by (simp add: rset_after after_ports_0 [OF W(3)])
  have "bs \<noteq> []" using Par.prems(2) by auto
  then have B0: "rset g (branch_heads (Suc ?n0) bs ?j) = names (Suc ?n0) ?n1 \<union> rset g [?j]"
    using Par.IH(1) [OF W(5)] Par.prems(2) by simp
  have N: "names ?n0 (?n1 + width False ss) =
      insert ?j (names (Suc ?n0) ?n1 \<union> names ?n1 (?n1 + width False ss))"
    unfolding names_cat [of "Suc ?n0" "widths bs" "width False ss"]
    using names_first [of ?n0 "widths bs + width False ss"] by (simp add: add.assoc)
  have B: "rset g (branch_heads (Suc ?n0) bs ?j) = names ?n0 (?n1 + width False ss) \<union> rset g (klist k)"
    unfolding B0 J N by blast
  show ?case
  proof (cases m)
    case True
    then have "rset g [nname (Suc n)] = insert (nname (Suc n)) (rset g (branch_heads (Suc ?n0) bs ?j))"
      using W(1,2) by (simp add: rset_after after_ports_0)
    then show ?thesis
      using True B names_first [of n "Suc (widths bs + width False ss)"]
      by (simp add: add.assoc Un_insert_left [symmetric] del: Un_insert_left)
  next
    case False
    then show ?thesis using B by (simp add: add.assoc)
  qed
next
  case (Do t p ss)
  have W: "ports_of g (Suc n) {0}" "tos g (nname (Suc n)) 0 = heads (Suc n) False ss k"
    "wired g (Suc n) False ss k"
    using Do.prems(1) by simp_all
  then show ?case
    using Do.IH [OF W(3)] Do.prems(2) names_first [of n "width False ss"]
    by (simp add: rset_after after_ports_0 Un_insert_left [symmetric] del: Un_insert_left)
next
  case (ConsB b bs)
  then have "rset g (heads n False b (Some j)) = names n (n + width False b) \<union> rset g [j]"
    "rset g (branch_heads (n + width False b) bs j) =
       names (n + width False b) (n + width False b + widths bs) \<union> (if bs = [] then {} else rset g [j])"
    by auto
  then show ?case using names_cat [of n "width False b" "widths bs"] by (auto simp: add.assoc)
qed simp_all

subsection \<open>No cycle\<close>

text \<open>\<open>apart g n w k\<close>: what is reachable from \<open>k\<close> does not lead back to the nodes of the code.\<close>

definition apart :: "graph \<Rightarrow> nat \<Rightarrow> nat \<Rightarrow> string option \<Rightarrow> bool" where
  "apart g n w k \<longleftrightarrow> (\<forall>i. n < i \<and> i \<le> n + w \<longrightarrow> nname i \<notin> rset g (klist k))"

lemma apart_sub: "apart g n w k \<Longrightarrow> n \<le> a \<Longrightarrow> a + v \<le> n + w \<Longrightarrow> apart g a v k"
  by (auto simp: apart_def)

text \<open>The parts of an \<open>if\<close> and of a \<open>parallel\<close> inside the code around them.\<close>

lemma wired_If_parts:
  fixes n th el
  defines "n1 \<equiv> Suc n + width False th" and "n2 \<equiv> Suc n + width False th + width False el"
  assumes "wired g n m (SIf c cm th el # ss) k" and "convertible (SIf c cm th el # ss)"
    and "apart g n (width m (SIf c cm th el # ss)) k"
  shows "wired g (Suc n) False th (kont n2 ss k)" and "wired g n1 False el (kont n2 ss k)" and "wired g n2 True ss k"
    and "node_at g (Suc n) ''cond'' (cond_params c cm)" and "ports_of g (Suc n) {0, 1}"
    and "tos g (nname (Suc n)) 0 = heads (Suc n) False th (kont n2 ss k)"
    and "tos g (nname (Suc n)) 1 = heads n1 False el (kont n2 ss k)"
    and "rset g (klist (kont n2 ss k)) = names n2 (n2 + width True ss) \<union> rset g (klist k)"
    and "apart g (Suc n) (width False th) (kont n2 ss k)" and "apart g n1 (width False el) (kont n2 ss k)"
    and "apart g n2 (width True ss) k"
    and "after g (nname (Suc n)) = names (Suc n) (n2 + width True ss) \<union> rset g (klist k)"
proof -
  show W: "wired g (Suc n) False th (kont n2 ss k)" "wired g n1 False el (kont n2 ss k)" "wired g n2 True ss k"
    "node_at g (Suc n) ''cond'' (cond_params c cm)" "ports_of g (Suc n) {0, 1}"
    "tos g (nname (Suc n)) 0 = heads (Suc n) False th (kont n2 ss k)"
    "tos g (nname (Suc n)) 1 = heads n1 False el (kont n2 ss k)"
    using assms(3) by (simp_all add: Let_def n1_def n2_def)
  show R: "rset g (klist (kont n2 ss k)) = names n2 (n2 + width True ss) \<union> rset g (klist k)"
    using wired_reach(1) [OF W(3)] assms(4) by (simp add: heads_True)
  show A: "apart g n2 (width True ss) k"
    by (rule apart_sub [OF assms(5)]) (simp_all add: n2_def)
  have "apart g (Suc n) (width False th) k" "apart g n1 (width False el) k"
    by (rule apart_sub [OF assms(5)], simp_all add: n1_def)+
  then show "apart g (Suc n) (width False th) (kont n2 ss k)" "apart g n1 (width False el) (kont n2 ss k)"
    unfolding apart_def R unfolding n1_def n2_def by auto
  have "names (Suc n) n1 \<union> names n1 n2 \<union> names n2 (n2 + width True ss) = names (Suc n) (n2 + width True ss)"
    using names_split [of "Suc n" n1 n2] names_split [of "Suc n" n2 "n2 + width True ss"]
    by (simp add: n1_def n2_def)
  then show "after g (nname (Suc n)) = names (Suc n) (n2 + width True ss) \<union> rset g (klist k)"
    using after_ports_01 [OF W(5)] W(6,7) wired_reach(1) [OF W(1)] wired_reach(1) [OF W(2)] assms(4) R
    by (auto simp: n1_def n2_def)
qed

lemma wired_Par_parts:
  fixes n m bs
  defines "n0 \<equiv> if m then Suc n else n"
  defines "n1 \<equiv> Suc n0 + widths bs"
  assumes "wired g n m (SPar cm bs # ss) k" and "convertible (SPar cm bs # ss)"
    and "apart g n (width m (SPar cm bs # ss)) k"
  shows "wired_branches g (Suc n0) bs (nname (Suc n0))" and "wired g n1 False ss k"
    and "node_at g (Suc n0) ''join'' (join_params cm)" and "ports_of g (Suc n0) {0}"
    and "tos g (nname (Suc n0)) 0 = heads n1 False ss k"
    and "after g (nname (Suc n0)) = names n1 (n1 + width False ss) \<union> rset g (klist k)"
    and "apart g (Suc n0) (widths bs) (Some (nname (Suc n0)))" and "apart g n1 (width False ss) k"
    and "m \<Longrightarrow> node_at g (Suc n) ''join'' [(''mode'', JStr ''any'')]" and "m \<Longrightarrow> ports_of g (Suc n) {0}"
    and "m \<Longrightarrow> tos g (nname (Suc n)) 0 = branch_heads (Suc n0) bs (nname (Suc n0))"
    and "rset g (branch_heads (Suc n0) bs (nname (Suc n0))) = names n0 (n1 + width False ss) \<union> rset g (klist k)"
proof -
  let ?j = "nname (Suc n0)"
  show W: "wired_branches g (Suc n0) bs ?j" "wired g n1 False ss k"
    "node_at g (Suc n0) ''join'' (join_params cm)" "ports_of g (Suc n0) {0}"
    "tos g ?j 0 = heads n1 False ss k"
    using assms(3) by (simp_all add: Let_def n0_def n1_def)
  show "m \<Longrightarrow> node_at g (Suc n) ''join'' [(''mode'', JStr ''any'')]" "m \<Longrightarrow> ports_of g (Suc n) {0}"
    "m \<Longrightarrow> tos g (nname (Suc n)) 0 = branch_heads (Suc n0) bs ?j"
    using assms(3) by (simp_all add: Let_def n0_def)
  show A: "after g ?j = names n1 (n1 + width False ss) \<union> rset g (klist k)"
    using after_ports_0 [OF W(4)] W(5) wired_reach(1) [OF W(2)] assms(4) by simp
  show "apart g n1 (width False ss) k"
    by (rule apart_sub [OF assms(5)]) (simp_all add: n1_def n0_def)
  have "apart g (Suc n0) (widths bs) k"
    by (rule apart_sub [OF assms(5)]) (simp_all add: n0_def)
  then show "apart g (Suc n0) (widths bs) (Some ?j)"
    unfolding apart_def klist_simps rset_after A n1_def by auto
  have "bs \<noteq> []" using assms(4) by auto
  then have B0: "rset g (branch_heads (Suc n0) bs ?j) = names (Suc n0) n1 \<union> rset g [?j]"
    using wired_reach(2) [OF W(1)] assms(4) by (simp add: n1_def)
  have N: "names n0 (n1 + width False ss) = insert ?j (names (Suc n0) n1 \<union> names n1 (n1 + width False ss))"
    unfolding n1_def names_cat [of "Suc n0" "widths bs" "width False ss"]
    using names_first [of n0 "widths bs + width False ss"] by (simp add: add.assoc)
  show "rset g (branch_heads (Suc n0) bs ?j) = names n0 (n1 + width False ss) \<union> rset g (klist k)"
    unfolding B0 rset_after A N by blast
qed

definition no_cycle :: "graph \<Rightarrow> nat \<Rightarrow> nat \<Rightarrow> bool" where
  "no_cycle g a b \<longleftrightarrow> (\<forall>i. a < i \<and> i \<le> b \<longrightarrow> nname i \<notin> after g (nname i))"

lemma no_cycle_Suc: "nname (Suc a) \<notin> after g (nname (Suc a)) \<Longrightarrow> no_cycle g (Suc a) b \<Longrightarrow> no_cycle g a b"
  unfolding no_cycle_def by (metis Suc_lessI)

lemma no_cycle_cat: "no_cycle g a b \<Longrightarrow> no_cycle g b c \<Longrightarrow> no_cycle g a c"
  unfolding no_cycle_def by (metis not_le_imp_less)

lemma wired_acyclic:
  shows "wired g n m ss k \<Longrightarrow> convertible ss \<Longrightarrow> apart g n (width m ss) k \<Longrightarrow> no_cycle g n (n + width m ss)"
    and "wired_branches g n bs j \<Longrightarrow> convertible_branches bs \<Longrightarrow> apart g n (widths bs) (Some j) \<Longrightarrow>
       no_cycle g n (n + widths bs)"
proof (induction ss and bs arbitrary: n m k and n j rule: blocks_induct)
  case (If c cm th el ss)
  note P = wired_If_parts [OF If.prems]
  have C: "convertible th" "convertible el" "convertible ss" using If.prems(2) by simp_all
  have x: "nname (Suc n) \<notin> after g (nname (Suc n))"
    using If.prems(3) unfolding P(12) apart_def by auto
  have "no_cycle g n (Suc n + width False th + width False el + width True ss)"
    by (rule no_cycle_Suc [OF x no_cycle_cat [OF If.IH(1) [OF P(1) C(1) P(9)]
        no_cycle_cat [OF If.IH(2) [OF P(2) C(2) P(10)] If.IH(3) [OF P(3) C(3) P(11)]]]])
  then show ?case by (simp add: add.assoc)
next
  case (Par cm bs ss)
  let ?n0 = "if m then Suc n else n"
  note P = wired_Par_parts [OF Par.prems]
  have C: "convertible_branches bs" "convertible ss" using Par.prems(2) by simp_all
  have x: "nname (Suc ?n0) \<notin> after g (nname (Suc ?n0))"
    using Par.prems(3) unfolding P(6) apart_def by auto
  have N: "no_cycle g ?n0 (Suc ?n0 + widths bs + width False ss)"
    by (rule no_cycle_Suc [OF x no_cycle_cat [OF Par.IH(1) [OF P(1) C(1) P(7)] Par.IH(2) [OF P(2) C(2) P(8)]]])
  show ?case
  proof (cases m)
    case True
    have "nname (Suc n) \<notin> after g (nname (Suc n))"
      using Par.prems(3) True unfolding after_ports_0 [OF P(10) [OF True]] P(11) [OF True] P(12) apart_def
      by auto
    then show ?thesis using no_cycle_Suc N True by (simp add: add.assoc)
  next
    case False
    then show ?thesis using N by (simp add: add.assoc)
  qed
next
  case (Do t p ss)
  have W: "ports_of g (Suc n) {0}" "tos g (nname (Suc n)) 0 = heads (Suc n) False ss k"
    "wired g (Suc n) False ss k"
    using Do.prems(1) by simp_all
  have A: "apart g (Suc n) (width False ss) k" by (rule apart_sub [OF Do.prems(3)]) simp_all
  have "nname (Suc n) \<notin> after g (nname (Suc n))"
    using Do.prems(2,3) wired_reach(1) [OF W(3)] unfolding after_ports_0 [OF W(1)] W(2) apart_def
    by auto
  then show ?case using no_cycle_Suc Do.IH [OF W(3) _ A] Do.prems(2) by simp
next
  case (ConsB b bs)
  have "no_cycle g n (n + width False b)"
    using ConsB.prems apart_sub [OF ConsB.prems(3), of n "width False b"] by (intro ConsB.IH(1)) auto
  moreover have "no_cycle g (n + width False b) (n + width False b + widths bs)"
    using ConsB.prems apart_sub [OF ConsB.prems(3), of "n + width False b" "widths bs"]
    by (intro ConsB.IH(2)) auto
  ultimately show ?case using no_cycle_cat by (simp add: add.assoc) 
qed (auto simp: no_cycle_def)

end
