(* ===== verification/Macro_Roundtrip.thy ===== *)
theory Macro_Roundtrip
  imports Macro_Reach
begin

text \<open>
  \<open>graph_to_blocks\<close> reads back what \<open>blocks_to_graph\<close> compiled: \<open>parse_wired\<close> is the induction over the
  blocks, \<open>graph_to_blocks_compiled\<close> its instance for a whole graph.
\<close>

text \<open>
  What the code normalises: \<open>cond or {}\<close> and a comment that is not truthy.  \<open>then\<close>, \<open>else\<close> and
  \<open>branches\<close> that are absent are empty lists in the data type already.
\<close>

definition norm_comment :: "json \<Rightarrow> json" where
  "norm_comment cm = (if truthy cm then cm else JNull)"

fun norm_blocks :: "step list \<Rightarrow> step list"
  and norm_branches :: "step list list \<Rightarrow> step list list" where
  "norm_blocks [] = []"
| "norm_blocks (SIf c cm th el # ss) =
     SIf (or_empty c) (norm_comment cm) (norm_blocks th) (norm_blocks el) # norm_blocks ss"
| "norm_blocks (SPar cm bs # ss) = SPar (norm_comment cm) (norm_branches bs) # norm_blocks ss"
| "norm_blocks (SDo t p # ss) = SDo t p # norm_blocks ss"
| "norm_branches [] = []"
| "norm_branches (b # bs) = norm_blocks b # norm_branches bs"

subsection \<open>Where branches meet\<close>

lemma filter_unique:
  assumes "distinct xs" and "{x \<in> set xs. P x} = {y}"
  shows "filter P xs = [y]"
proof -
  have s: "set (filter P xs) = {y}" using assms(2) by simp
  then have "length (filter P xs) = 1" using distinct_card [of "filter P xs"] assms(1) by simp
  with s show ?thesis by (cases "filter P xs") auto
qed

lemma merge_of_meet:
  assumes "gs \<noteq> []" and "(\<Inter>hs \<in> set gs. rset g hs) = rset g (klist k)"
    and "\<And>x. k = Some x \<Longrightarrow> x \<notin> after g x"
  shows "merge_of g gs = Done k"
proof -
  define sets where "sets = map (\<lambda>hs. remdups (concat (map (reach g) hs))) gs"
  define common where
    "common = (case sets of [] \<Rightarrow> [] | s # ss \<Rightarrow> filter (\<lambda>x. \<forall>s' \<in> set ss. x \<in> set s') s)"
  have "set (remdups (concat (map (reach g) hs))) = rset g hs" for hs
    by (simp add: set_reach rset_def) blast
  then have s: "set ` set sets = rset g ` set gs" by (simp add: sets_def image_image)
  obtain s0 ss0 where s0: "sets = s0 # ss0" using assms(1) by (cases sets) (auto simp: sets_def)
  have "set common = (\<Inter>s \<in> set sets. set s)" by (auto simp: common_def s0)
  also have "\<dots> = (\<Inter>hs \<in> set gs. rset g hs)" by (simp only: s)
  finally have c: "set common = rset g (klist k)" using assms(2) by simp
  have d: "distinct common" by (cases gs) (auto simp: common_def sets_def)
  have m: "merge_of g gs =
      (if common = [] then Done None
       else (case filter (\<lambda>c. set common \<subseteq> set (reach g c)) common of
               [c] \<Rightarrow> Done (Some c) | _ \<Rightarrow> Failed AmbiguousMerge))"
    by (simp add: merge_of_def common_def sets_def Let_def)
  show ?thesis
  proof (cases k)
    case None
    then show ?thesis using c m by simp
  next
    case (Some x)
    have R: "set (reach g y) = rset g [y]" for y by (simp add: set_reach rset_def)
    have "{y \<in> set common. set common \<subseteq> set (reach g y)} = {x}"
    proof (intro equalityI subsetI)
      fix y assume "y \<in> {y \<in> set common. set common \<subseteq> set (reach g y)}"
      then have y: "y \<in> rset g [x]" "x \<in> rset g [y]" using c Some R rset_self [of x g] by auto
      show "y \<in> {x}"
      proof (rule ccontr)
        assume "y \<notin> {x}"
        then have "y \<in> after g x" "x \<in> after g y" using y by (auto simp: rset_after)
        then have "x \<in> after g x" by (auto simp: after_def intro: trancl_trans)
        with assms(3) Some show False by blast
      qed
    next
      fix y assume "y \<in> {x}"
      then show "y \<in> {y \<in> set common. set common \<subseteq> set (reach g y)}"
        using c Some R rset_self [of x g] by auto
    qed
    then have "filter (\<lambda>y. set common \<subseteq> set (reach g y)) common = [x]" by (rule filter_unique [OF d])
    moreover have "common \<noteq> []" using c Some rset_self [of x g] by auto
    ultimately show ?thesis using m Some by simp
  qed
qed

subsection \<open>The sets of the parser\<close>

definition from_edges :: "graph \<Rightarrow> string set \<Rightarrow> nat set" where
  "from_edges g A = {i. i < length (gedges g) \<and> efrom (gedges g ! i) \<in> A}"

definition port_edges :: "graph \<Rightarrow> string \<Rightarrow> int \<Rightarrow> nat set" where
  "port_edges g f p = {i. i < length (gedges g) \<and> efrom (gedges g ! i) = f \<and> eport (gedges g ! i) = p}"

lemma outs_targets: "map fst (outs g f p) = tos g f p"
proof -
  have "map fst (map (\<lambda>(i, e). (eto e, i)) (filter (\<lambda>(i, e). efrom e = f \<and> eport e = p) (enumerate n es)))
      = ptos es f p" for n es
    by (induction es arbitrary: n) (simp_all add: ptos_def)
  then show ?thesis by (simp add: outs_def)
qed

lemma outs_edges: "snd ` set (outs g f p) = port_edges g f p"
  by (force simp: outs_def port_edges_def in_set_enumerate_eq image_def)

text \<open>\<open>adv g A I st\<close>: the nodes \<open>A\<close> are consumed, with the edges that leave them, and the edges \<open>I\<close> are used.\<close>

definition adv :: "graph \<Rightarrow> string set \<Rightarrow> nat set \<Rightarrow> pst \<Rightarrow> pst" where
  "adv g A I st = \<lparr>consumed = A \<union> consumed st, used = from_edges g A \<union> I \<union> used st\<rparr>"

lemma from_edges_Un: "from_edges g (A \<union> B) = from_edges g A \<union> from_edges g B"
  by (auto simp: from_edges_def)

lemma adv_adv: "adv g A I (adv g B J st) = adv g (B \<union> A) (J \<union> I) st"
  by (auto simp: adv_def from_edges_Un)

lemma consumed_adv [simp]: "consumed (adv g A I st) = A \<union> consumed st"
  by (simp add: adv_def)

lemma adv_empty [simp]: "adv g {} {} st = st"
  by (simp add: adv_def from_edges_def)

lemma adv_use_edge: "adv g A I (use_edge i st) = adv g A (insert i I) st"
  by (auto simp: adv_def use_edge_def)

lemma from_edges_port: "ports_of g k {0} \<Longrightarrow> from_edges g {nname k} = port_edges g (nname k) 0"
  by (auto simp: from_edges_def port_edges_def ports_of_def)

lemma from_edges_ports:
  "ports_of g k {0, 1} \<Longrightarrow> from_edges g {nname k} = port_edges g (nname k) 0 \<union> port_edges g (nname k) 1"
  by (auto simp: from_edges_def port_edges_def ports_of_def)

lemma consume_fresh: "x \<notin> consumed st \<Longrightarrow> consume x st = Done (st\<lparr>consumed := insert x (consumed st)\<rparr>)"
  by (simp add: consume_def)

lemma adv_port:
  "ports_of g k {0} \<Longrightarrow> adv g A (port_edges g (nname k) 0) (st\<lparr>consumed := insert (nname k) (consumed st)\<rparr>)
     = adv g (insert (nname k) A) {} st"
  using from_edges_port [of g k] from_edges_Un [of g "{nname k}" A] by (auto simp: adv_def)

lemma adv_ports:
  "ports_of g k {0, 1} \<Longrightarrow>
   adv g A (port_edges g (nname k) 0 \<union> port_edges g (nname k) 1) (st\<lparr>consumed := insert (nname k) (consumed st)\<rparr>)
     = adv g (insert (nname k) A) {} st"
  using from_edges_ports [of g k] from_edges_Un [of g "{nname k}" A] by (auto simp: adv_def)

subsection \<open>Reading back the code of blocks\<close>

definition ready :: "graph \<Rightarrow> nat \<Rightarrow> bool \<Rightarrow> step list \<Rightarrow> string option \<Rightarrow> pst \<Rightarrow> bool" where
  "ready g n m ss k st \<longleftrightarrow> wired g n m ss k \<and> convertible ss \<and> known_types ss \<and> apart g n (width m ss) k \<and>
     names n (n + width m ss) \<inter> consumed st = {} \<and> (\<forall>x. k = Some x \<longrightarrow> x \<notin> after g x)"

definition ready_branches :: "graph \<Rightarrow> nat \<Rightarrow> step list list \<Rightarrow> string \<Rightarrow> pst \<Rightarrow> bool" where
  "ready_branches g n bs j st \<longleftrightarrow> wired_branches g n bs j \<and> convertible_branches bs \<and> known_types_branches bs \<and>
     apart g n (widths bs) (Some j) \<and> names n (n + widths bs) \<inter> consumed st = {} \<and> j \<notin> after g j"

lemma ready_use_edge [simp]: "ready g n m ss k (use_edge i st) = ready g n m ss k st"
  by (simp add: ready_def use_edge_def)

definition reads_from :: "graph \<Rightarrow> step list \<Rightarrow> bool" where
  "reads_from g ss \<longleftrightarrow> (\<forall>n m k st f h. ready g n m ss k st \<longrightarrow> 2 * width m ss + 1 \<le> f \<longrightarrow> heads n m ss k = [h] \<longrightarrow>
     parse_from f g st h k = Done (norm_blocks ss, adv g (names n (n + width m ss)) {} st))"

definition reads_outs :: "graph \<Rightarrow> step list \<Rightarrow> bool" where
  "reads_outs g ss \<longleftrightarrow> (\<forall>n m k st f x p. ready g n m ss k st \<longrightarrow> 2 * width m ss + 2 \<le> f \<longrightarrow> tos g x p = heads n m ss k \<longrightarrow>
     parse_outs f g st x p k = Done (norm_blocks ss, adv g (names n (n + width m ss)) (port_edges g x p) st))"

definition reads_branches :: "graph \<Rightarrow> step list list \<Rightarrow> bool" where
  "reads_branches g bs \<longleftrightarrow> (\<forall>n j st f ls. ready_branches g n bs j st \<longrightarrow> 2 * widths bs + 2 \<le> f \<longrightarrow>
     map fst ls = branch_heads n bs j \<longrightarrow>
     parse_branches f g st ls (Some j) = Done (norm_branches bs, adv g (names n (n + widths bs)) (snd ` set ls) st))"

lemma heads_single: "\<not> starts_par b \<Longrightarrow> \<exists>h. heads n False b (Some j) = [h]"
  by (cases b rule: starts_par.cases) auto

lemma length_branch_heads: "convertible_branches bs \<Longrightarrow> length (branch_heads n bs j) = length bs"
proof (induction bs arbitrary: n)
  case (Cons b bs)
  then obtain h where "heads n False b (Some j) = [h]" using heads_single [of b n j] by auto
  with Cons show ?case by simp
qed simp

text \<open>Blocks that lead nowhere are read from a port without an edge, all others from the one edge of a port.\<close>

lemma outs_of_from:
  assumes "reads_from g ss" and "ready g n m ss k st" and "2 * width m ss + 2 \<le> f"
    and "tos g x p = heads n m ss k" and "heads n m ss k = [] \<and> ss = [] \<or> (\<exists>h. heads n m ss k = [h])"
  shows "parse_outs f g st x p k = Done (norm_blocks ss, adv g (names n (n + width m ss)) (port_edges g x p) st)"
proof -
  obtain f' where f: "f = Suc f'" "2 * width m ss + 1 \<le> f'" using assms(3) by (cases f) auto
  show ?thesis
  proof (cases "heads n m ss k = []")
    case True
    then have "ss = []" using assms(5) by auto
    moreover from this True have "k = None" by (cases k) simp_all
    moreover have "outs g x p = []" using outs_targets [of g x p] assms(4) True by simp
    moreover from this have "port_edges g x p = {}" using outs_edges [of g x p] by simp
    ultimately show ?thesis using f by simp
  next
    case False
    then obtain h where h: "heads n m ss k = [h]" using assms(5) by auto
    then have "map fst (outs g x p) = [h]" using outs_targets [of g x p] assms(4) by simp
    then obtain i where o: "outs g x p = [(h, i)]" by (cases "outs g x p") auto
    then have "port_edges g x p = {i}" using outs_edges [of g x p] by simp
    moreover have "parse_from f' g (use_edge i st) h k =
        Done (norm_blocks ss, adv g (names n (n + width m ss)) {} (use_edge i st))"
      using assms(1,2) f(2) h unfolding reads_from_def by simp
    ultimately show ?thesis using f o by (simp add: adv_use_edge)
  qed
qed

lemma reads_Do:
  assumes "reads_outs g ss"
  shows "reads_from g (SDo t p # ss)"
  unfolding reads_from_def
proof (intro allI impI)
  fix n m k st f h
  assume r: "ready g n m (SDo t p # ss) k st" and fuel: "2 * width m (SDo t p # ss) + 1 \<le> f"
    and h: "heads n m (SDo t p # ss) k = [h]"
  let ?x = "nname (Suc n)" let ?st = "st\<lparr>consumed := insert ?x (consumed st)\<rparr>"
  have W: "node_at g (Suc n) t p" "ports_of g (Suc n) {0}" "tos g ?x 0 = heads (Suc n) False ss k"
    "wired g (Suc n) False ss k" and t: "t \<in> set disableable_types" and C: "convertible ss" "known_types ss"
    and D: "names n (Suc n + width False ss) \<inter> consumed st = {}" and K: "\<forall>x. k = Some x \<longrightarrow> x \<notin> after g x"
    and A: "apart g n (Suc (width False ss)) k"
    using r by (simp_all add: ready_def)
  obtain f' where f: "f = Suc f'" "2 * width False ss + 2 \<le> f'" using fuel by (cases f) auto
  have D': "nname i \<notin> consumed st" if "n < i" "i \<le> Suc n + width False ss" for i
    using D that by (auto simp: disjoint_iff)
  then have x: "?x \<notin> consumed st" by simp
  have "ready g (Suc n) False ss k ?st"
    unfolding ready_def using W(4) C K D' apart_sub [OF A, of "Suc n" "width False ss"]
    by (auto simp: names_def)
  then have "parse_outs f' g ?st ?x 0 k = Done (norm_blocks ss, adv g (names (Suc n) (Suc n + width False ss)) (port_edges g ?x 0) ?st)"
    using assms f(2) W(3) unfolding reads_outs_def by blast
  then have o: "parse_outs f' g ?st ?x 0 k = Done (norm_blocks ss, adv g (names n (Suc n + width False ss)) {} st)"
    unfolding adv_port [OF W(2)] names_first .
  obtain nd where nd: "node_of g ?x = Some nd" "ntype nd = t" "nparams nd = p"
    using W(1) by (auto simp: node_at_def)
  have "k \<noteq> Some ?x" using A rset_self [of ?x g] by (auto simp: apart_def)
  then show "parse_from f g st h k = Done (norm_blocks (SDo t p # ss), adv g (names n (n + width m (SDo t p # ss))) {} st)"
    using h nd disableable_known [OF t] x o by (simp add: f(1) consume_fresh)
qed

lemma heads_Nil_iff: "convertible ss \<Longrightarrow> \<not> (starts_par ss \<and> \<not> m) \<Longrightarrow> heads n m ss k = [] \<longleftrightarrow> ss = [] \<and> k = None"
  by (cases ss rule: starts_par.cases) (cases k; simp)+

lemma convertible_heads: "convertible ss \<Longrightarrow> heads n m ss k = [] \<longleftrightarrow> ss = [] \<and> k = None"
proof (cases "starts_par ss \<and> \<not> m")
  case True
  assume c: "convertible ss"
  from True obtain cm bs ss' where ss: "ss = SPar cm bs # ss'" by (cases ss rule: starts_par.cases) auto
  then have "length (heads n m ss k) = length bs" using True c length_branch_heads by simp
  moreover have "2 \<le> length bs" using c ss by simp
  ultimately show ?thesis using ss by auto
qed (rule heads_Nil_iff)

lemma kont_fresh:
  assumes "wired g n True ss k" and "convertible ss" and "apart g n (width True ss) k"
    and "\<forall>x. k = Some x \<longrightarrow> x \<notin> after g x"
  shows "\<forall>x. kont n ss k = Some x \<longrightarrow> x \<notin> after g x"
proof (cases ss)
  case (Cons s ss')
  have "0 < width True ss" using Cons by (cases s) simp_all
  then have "nname (Suc n) \<notin> after g (nname (Suc n))"
    using wired_acyclic(1) [OF assms(1-3)] by (simp add: no_cycle_def)
  then show ?thesis using Cons by (simp add: kont_def)
qed (use assms in \<open>simp add: kont_def\<close>)

lemma comment_cond: "node_of g x = Some nd \<Longrightarrow> nparams nd = cond_params c cm \<Longrightarrow>
    comment_of g x = norm_comment cm \<and> or_empty (pget (nparams nd) ''cond'') = or_empty c"
  by (auto simp: comment_of_def cond_params_def with_comment_def pget_def norm_comment_def or_empty_def)

lemma comment_join: "node_of g x = Some nd \<Longrightarrow> nparams nd = join_params cm \<Longrightarrow>
    comment_of g x = norm_comment cm \<and> mode_is ''all'' ''all'' nd"
  by (auto simp: comment_of_def join_params_def with_comment_def pget_def norm_comment_def mode_is_def
      mode_of_def)

lemma reads_If:
  assumes IH: "reads_outs g th" "reads_outs g el" "reads_from g ss"
  shows "reads_from g (SIf c cm th el # ss)"
  unfolding reads_from_def
proof (intro allI impI)
  fix n m k st f h
  let ?ss = "SIf c cm th el # ss"
  assume r: "ready g n m ?ss k st" and fuel: "2 * width m ?ss + 1 \<le> f" and h: "heads n m ?ss k = [h]"
  let ?x = "nname (Suc n)" let ?n1 = "Suc n + width False th" let ?n2 = "?n1 + width False el"
  let ?n3 = "?n2 + width True ss" let ?k' = "kont ?n2 ss k"
  let ?st0 = "st\<lparr>consumed := insert ?x (consumed st)\<rparr>"
  let ?st1 = "adv g (names (Suc n) ?n1) (port_edges g ?x 0) ?st0"
  let ?st2 = "adv g (names ?n1 ?n2) (port_edges g ?x 1) ?st1"
  have w: "wired g n m ?ss k" "convertible ?ss" "apart g n (width m ?ss) k"
    and C: "convertible th" "convertible el" "convertible ss" "known_types th" "known_types el" "known_types ss"
    and D: "names n ?n3 \<inter> consumed st = {}" and K: "\<forall>x. k = Some x \<longrightarrow> x \<notin> after g x"
    using r by (simp_all add: ready_def add.assoc)
  note P = wired_If_parts [OF w]
  obtain f' where f: "f = Suc f'" "2 * width False th + 2 \<le> f'" "2 * width False el + 2 \<le> f'"
    "2 * width True ss + 1 \<le> f'" using fuel by (cases f) auto
  note K' = kont_fresh [OF P(3) C(3) P(11) K]
  have D': "nname i \<notin> consumed st" if "n < i" "i \<le> ?n3" for i using D that by (auto simp: disjoint_iff)
  have "ready g (Suc n) False th ?k' ?st0"
    unfolding ready_def using P C K' D' by (auto simp: names_def)
  then have o1: "parse_outs f' g ?st0 ?x 0 ?k' = Done (norm_blocks th, ?st1)"
    using IH(1) f(2) P(6) unfolding reads_outs_def by blast
  have "ready g ?n1 False el ?k' ?st1"
    unfolding ready_def using P C K' D' by (auto simp: names_def)
  then have o2: "parse_outs f' g ?st1 ?x 1 ?k' = Done (norm_blocks el, ?st2)"
    using IH(2) f(3) P(7) unfolding reads_outs_def by blast
  have r3: "ready g ?n2 True ss k ?st2"
    unfolding ready_def using P C K D' by (auto simp: names_def)
  have st2: "?st2 = adv g (names n ?n2) {} st"
    using adv_ports [OF P(5), of "names (Suc n) ?n2" st] names_first [of n "width False th + width False el"]
      names_cat [of "Suc n" "width False th" "width False el"]
    by (simp add: adv_adv add.assoc)
  have mer: "(if tos g ?x 0 \<noteq> [] \<and> tos g ?x 1 \<noteq> [] then merge_of g [tos g ?x 0, tos g ?x 1] else Done None)
     = Done ?k'"
  proof (cases "tos g ?x 0 \<noteq> [] \<and> tos g ?x 1 \<noteq> []")
    case True
    have "rset g (tos g ?x 0) \<inter> rset g (tos g ?x 1) = rset g (klist ?k')"
      unfolding P(6,7) wired_reach(1) [OF P(1) C(1)] wired_reach(1) [OF P(2) C(2)]
      using P(9,10) names_disjoint [of ?n1 ?n1 "Suc n" ?n2] by auto
    then have "merge_of g [tos g ?x 0, tos g ?x 1] = Done ?k'"
      using K' by (intro merge_of_meet) auto
    then show ?thesis using True by simp
  next
    case False
    then show ?thesis unfolding P(6,7) using convertible_heads C by auto
  qed
  obtain nd where nd: "node_of g ?x = Some nd" "ntype nd = ''cond''" "nparams nd = cond_params c cm"
    using P(4) by (auto simp: node_at_def)
  note cc = comment_cond [OF nd(1,3)]
  have kx: "k \<noteq> Some ?x" using w(3) rset_self [of ?x g] by (auto simp: apart_def)
  have hx: "h = ?x" using h by simp
  have step: "parse_from f g st h k =
      (case ?k' of
         None \<Rightarrow> Done ([SIf (or_empty c) (norm_comment cm) (norm_blocks th) (norm_blocks el)], ?st2)
       | Some y \<Rightarrow> bind_res (parse_from f' g ?st2 y k) (\<lambda>(ss, st3).
           Done (SIf (or_empty c) (norm_comment cm) (norm_blocks th) (norm_blocks el) # ss, st3)))"
    unfolding hx using nd kx D' mer o1 o2 cc
    by (simp add: f(1) consume_fresh outs_targets Let_def split: option.split)
  show "parse_from f g st h k = Done (norm_blocks ?ss, adv g (names n (n + width m ?ss)) {} st)"
  proof (cases ?k')
    case None
    then have "ss = []" by (auto simp: kont_def split: if_splits)
    then show ?thesis using step None st2 by (simp add: add.assoc)
  next
    case (Some y)
    have "parse_from f' g ?st2 y k = Done (norm_blocks ss, adv g (names ?n2 ?n3) {} ?st2)"
      using IH(3) r3 f(4) Some unfolding reads_from_def by (simp add: heads_True)
    moreover have "adv g (names ?n2 ?n3) {} ?st2 = adv g (names n ?n3) {} st"
      unfolding st2 using names_split [of n ?n2 ?n3] by (simp add: adv_adv)
    ultimately show ?thesis using step Some by (simp add: add.assoc)
  qed
qed

subsection \<open>Branches\<close>

lemma branches_meet:
  assumes "wired_branches g n bs j" and "convertible_branches bs" and "2 \<le> length bs"
    and "apart g n (widths bs) (Some j)"
  shows "(\<Inter>h \<in> set (branch_heads n bs j). rset g [h]) = rset g [j]"
proof
  have "rset g [j] \<subseteq> rset g [h]" if "h \<in> set (branch_heads n bs j)" for h
    using assms(1,2) that
  proof (induction bs arbitrary: n)
    case (Cons b bs)
    obtain h0 where h0: "heads n False b (Some j) = [h0]" using Cons.prems(2) heads_single [of b n j] by auto
    then have "rset g [h0] = names n (n + width False b) \<union> rset g [j]"
      using wired_reach(1) [of g n False b "Some j"] Cons.prems(1,2) by simp
    then show ?case using Cons h0 by auto
  qed simp
  then show "rset g [j] \<subseteq> (\<Inter>h \<in> set (branch_heads n bs j). rset g [h])" by blast
  obtain b1 b2 bs' where bs: "bs = b1 # b2 # bs'" using assms(3) by (cases bs; cases "tl bs") auto
  let ?n1 = "n + width False b1"
  obtain h1 where h1: "heads n False b1 (Some j) = [h1]" using assms(2) bs heads_single [of b1 n j] by auto
  obtain h2 where h2: "heads ?n1 False b2 (Some j) = [h2]" using assms(2) bs heads_single [of b2 ?n1 j] by auto
  have "rset g [h1] = names n ?n1 \<union> rset g [j]" "rset g [h2] = names ?n1 (?n1 + width False b2) \<union> rset g [j]"
    using wired_reach(1) [of g n False b1 "Some j"] wired_reach(1) [of g ?n1 False b2 "Some j"]
      assms(1,2) bs h1 h2 by simp_all
  then have "rset g [h1] \<inter> rset g [h2] \<subseteq> rset g [j]"
    using names_disjoint [of ?n1 ?n1 n "?n1 + width False b2"] by auto
  moreover have "{h1, h2} \<subseteq> set (branch_heads n bs j)" using h1 h2 bs by simp
  ultimately show "(\<Inter>h \<in> set (branch_heads n bs j). rset g [h]) \<subseteq> rset g [j]" by blast
qed

lemma reads_branches_Cons:
  assumes "reads_from g b" and "reads_branches g bs"
  shows "reads_branches g (b # bs)"
  unfolding reads_branches_def
proof (intro allI impI)
  fix n j st f and ls :: "(string \<times> nat) list"
  assume r: "ready_branches g n (b # bs) j st" and fuel: "2 * widths (b # bs) + 2 \<le> f"
    and ls: "map fst ls = branch_heads n (b # bs) j"
  let ?n1 = "n + width False b"
  have R: "wired g n False b (Some j)" "wired_branches g ?n1 bs j" "convertible b" "convertible_branches bs"
    "known_types b" "known_types_branches bs" "apart g n (width False b + widths bs) (Some j)" "j \<notin> after g j"
    "\<not> starts_par b" and D: "names n (?n1 + widths bs) \<inter> consumed st = {}"
    using r by (simp_all add: ready_branches_def add.assoc)
  have D': "nname i \<notin> consumed st" if "n < i" "i \<le> ?n1 + widths bs" for i
    using D that by (auto simp: disjoint_iff)
  obtain h where h: "heads n False b (Some j) = [h]" using heads_single [OF R(9)] by blast
  then obtain i ls' where l: "ls = (h, i) # ls'" "map fst ls' = branch_heads ?n1 bs j"
    using ls by (cases ls) auto
  obtain f' where f: "f = Suc f'" "2 * width False b + 1 \<le> f'" using fuel by (cases f) auto
  let ?st1 = "adv g (names n ?n1) {i} st"
  have "ready g n False b (Some j) st"
    using R D' apart_sub [OF R(7), of n "width False b"] by (auto simp: ready_def names_def)
  then have 1: "parse_from f' g (use_edge i st) h (Some j) = Done (norm_blocks b, ?st1)"
    using assms(1) f(2) h unfolding reads_from_def by (simp add: adv_use_edge)
  have "ready_branches g ?n1 bs j ?st1"
    using R D' apart_sub [OF R(7), of ?n1 "widths bs"] by (auto simp: ready_branches_def names_def)
  then have 2: "parse_branches f g ?st1 ls' (Some j) =
      Done (norm_branches bs, adv g (names ?n1 (?n1 + widths bs)) (snd ` set ls') ?st1)"
    using assms(2) fuel l(2) unfolding reads_branches_def by simp
  show "parse_branches f g st ls (Some j) =
      Done (norm_branches (b # bs), adv g (names n (n + widths (b # bs))) (snd ` set ls) st)"
    using 1 2 f(1) l(1) names_cat [of n "width False b" "widths bs"] by (simp add: adv_adv add.assoc)
qed

lemma reads_fan:
  fixes n m bs
  defines "n0 \<equiv> if m then Suc n else n"
  defines "n1 \<equiv> Suc n0 + widths bs"
  assumes IH: "reads_branches g bs" "reads_outs g ss"
    and w: "wired g n m (SPar cm bs # ss) k" "convertible (SPar cm bs # ss)"
      "apart g n (width m (SPar cm bs # ss)) k"
    and ty: "known_types (SPar cm bs # ss)"
    and D: "names n0 (n1 + width False ss) \<inter> consumed st = {}" and K: "\<forall>x. k = Some x \<longrightarrow> x \<notin> after g x"
    and fuel: "2 * (widths bs + width False ss) + 4 \<le> f"
    and o: "tos g x p = branch_heads (Suc n0) bs (nname (Suc n0))"
  shows "parse_outs f g st x p k =
    Done (SPar (norm_comment cm) (norm_branches bs) # norm_blocks ss,
          adv g (names n0 (n1 + width False ss)) (port_edges g x p) st)"
proof -
  let ?j = "nname (Suc n0)"
  note P = wired_Par_parts [OF w, folded n0_def, folded n1_def]
  have C: "2 \<le> length bs" "convertible_branches bs" "convertible ss" "known_types_branches bs" "known_types ss"
    using w(2) ty by simp_all
  have D': "nname i \<notin> consumed st" if "n0 < i" "i \<le> n1 + width False ss" for i
    using D that by (auto simp: disjoint_iff)
  obtain f' where f: "f = Suc f'" "2 * widths bs + 2 \<le> f'" "2 * width False ss + 2 \<le> f'"
    using fuel by (cases f) auto
  obtain l1 l2 ls where ls: "outs g x p = l1 # l2 # ls"
  proof -
    have "length (outs g x p) = length bs"
      using arg_cong [OF outs_targets, of length g x p] o length_branch_heads [OF C(2)] by simp
    with C(1) show ?thesis by (cases "outs g x p"; cases "tl (outs g x p)") (auto intro: that)
  qed
  have acyc: "?j \<notin> after g ?j" 
    using w(3) unfolding P(6) unfolding apart_def n0_def n1_def by auto
  have "(\<lambda>hs. rset g hs) ` (\<lambda>t. [t]) ` set (tos g x p) = (\<lambda>h. rset g [h]) ` set (tos g x p)" by (simp add: image_image)
  then have "merge_of g (map (\<lambda>t. [t]) (tos g x p)) = Done (Some ?j)"
    using branches_meet [OF P(1) C(2,1) P(7)] acyc ls outs_targets [of g x p] unfolding o
    by (intro merge_of_meet) (auto simp: image_image)
  moreover have "map (\<lambda>(t, i). [t]) (outs g x p) = map (\<lambda>t. [t]) (tos g x p)"
    unfolding outs_targets [symmetric] by (simp add: case_prod_unfold)
  ultimately have mer: "merge_of g (map (\<lambda>(t, i). [t]) (l1 # l2 # ls)) = Done (Some ?j)"
    using ls by simp
  obtain nd where nd: "node_of g ?j = Some nd" "ntype nd = ''join''" "nparams nd = join_params cm"
    using P(3) by (auto simp: node_at_def)
  note cj = comment_join [OF nd(1,3)]
  have ja: "is_join_all g (Some ?j)" using nd cj by (simp add: is_join_all_def)
  let ?st1 = "adv g (names (Suc n0) n1) (port_edges g x p) st"
  let ?st2 = "?st1\<lparr>consumed := insert ?j (consumed ?st1)\<rparr>"
  have "ready_branches g (Suc n0) bs ?j st"
    unfolding ready_branches_def using P(1,7) C acyc D' by (auto simp: names_def n1_def)
  then have 1: "parse_branches f' g st (l1 # l2 # ls) (Some ?j) = Done (norm_branches bs, ?st1)"
    using IH(1) f(2) o outs_targets [of g x p] outs_edges [of g x p] ls
    unfolding reads_branches_def n1_def by metis
  have "?j \<notin> consumed ?st1" using D' by (simp add: n1_def)
  then have 2: "consume ?j ?st1 = Done ?st2" by (rule consume_fresh)
  have "ready g n1 False ss k ?st2"
    unfolding ready_def using P(2,8) C K D' by (auto simp: names_def n1_def)
  then have 3: "parse_outs f' g ?st2 ?j 0 k =
      Done (norm_blocks ss, adv g (names n1 (n1 + width False ss)) (port_edges g ?j 0) ?st2)"
    using IH(2) f(3) P(5) unfolding reads_outs_def by blast
  have "adv g (names n1 (n1 + width False ss)) (port_edges g ?j 0) ?st2
      = adv g (names n0 (n1 + width False ss)) (port_edges g x p) st"
    unfolding adv_port [OF P(4)] adv_adv
    using names_first [of n0 "widths bs + width False ss"] names_cat [of "Suc n0" "widths bs" "width False ss"]
    by (simp add: n1_def add.assoc)
  then show ?thesis using mer ja 1 2 3 cj ls
    by (cases l1) (simp add: f(1) del: parse_branches.simps consumed_adv)
qed

lemma reads_Par_from:
  assumes "reads_branches g bs" and "reads_outs g ss"
  shows "reads_from g (SPar cm bs # ss)"
  unfolding reads_from_def
proof (intro allI impI)
  fix n m k st f h
  assume r: "ready g n m (SPar cm bs # ss) k st" and fuel: "2 * width m (SPar cm bs # ss) + 1 \<le> f"
    and h: "heads n m (SPar cm bs # ss) k = [h]"
  have w: "wired g n m (SPar cm bs # ss) k" "convertible (SPar cm bs # ss)"
    "apart g n (width m (SPar cm bs # ss)) k"
    and ty: "known_types (SPar cm bs # ss)" and K: "\<forall>x. k = Some x \<longrightarrow> x \<notin> after g x"
    and D: "names n (n + width m (SPar cm bs # ss)) \<inter> consumed st = {}"
    using r by (simp_all add: ready_def)
  have m: m
  proof (rule ccontr)
    assume "\<not> m"
    then have "length (heads n m (SPar cm bs # ss) k) = length bs" using w(2) length_branch_heads by simp
    with h w(2) show False by simp
  qed
  let ?x = "nname (Suc n)" let ?n1 = "Suc (Suc n) + widths bs" let ?st = "st\<lparr>consumed := insert ?x (consumed st)\<rparr>"
  note P = wired_Par_parts [OF w]
  have hx: "h = ?x" using h m by simp
  have D': "nname i \<notin> consumed st" if "n < i" "i \<le> ?n1 + width False ss" for i
    using D m that by (auto simp: disjoint_iff)
  obtain f' where f: "f = Suc f'" "2 * (widths bs + width False ss) + 4 \<le> f'"
    using fuel m by (cases f) auto
  obtain nd where nd: "node_of g ?x = Some nd" "ntype nd = ''join''" "nparams nd = [(''mode'', JStr ''any'')]"
    using P(9) [OF m] by (auto simp: node_at_def)
  have "mode_is ''all'' ''any'' nd" using nd(3) by (simp add: mode_is_def mode_of_def pget_def)
  moreover have "k \<noteq> Some ?x" using w(3) m rset_self [of ?x g] by (auto simp: apart_def)
  moreover have "?x \<notin> consumed st" using D' by simp
  moreover have "parse_outs f' g ?st ?x 0 k = Done (SPar (norm_comment cm) (norm_branches bs) # norm_blocks ss,
      adv g (names (Suc n) (?n1 + width False ss)) (port_edges g ?x 0) ?st)"
  proof -
    have "names (Suc n) (?n1 + width False ss) \<inter> consumed ?st = {}" using D' by (auto simp: names_def)
    then show ?thesis using reads_fan [OF assms w ty _ K f(2) P(11) [OF m], of ?st] m by simp
  qed
  moreover have "adv g (names (Suc n) (?n1 + width False ss)) (port_edges g ?x 0) ?st =
      adv g (names n (?n1 + width False ss)) {} st"
    unfolding adv_port [OF P(10) [OF m]] using names_first [of n "Suc (widths bs + width False ss)"]
    by (simp add: add.assoc)
  ultimately show "parse_from f g st h k = Done (norm_blocks (SPar cm bs # ss),
      adv g (names n (n + width m (SPar cm bs # ss))) {} st)"
    unfolding hx using nd m by (simp add: f(1) consume_fresh add.assoc)
qed

lemma reads_outsI:
  assumes F: "reads_from g ss" and P: "\<And>cm bs ss'. ss = SPar cm bs # ss' \<Longrightarrow> reads_branches g bs \<and> reads_outs g ss'"
  shows "reads_outs g ss"
  unfolding reads_outs_def
proof (intro allI impI)
  fix n m k st f x p
  assume r: "ready g n m ss k st" and fuel: "2 * width m ss + 2 \<le> f" and o: "tos g x p = heads n m ss k"
  show "parse_outs f g st x p k = Done (norm_blocks ss, adv g (names n (n + width m ss)) (port_edges g x p) st)"
  proof (cases "starts_par ss \<and> \<not> m")
    case False
    then have "heads n m ss k = [] \<and> ss = [] \<or> (\<exists>h. heads n m ss k = [h])"
      by (cases ss rule: starts_par.cases) (cases k; simp)+
    then show ?thesis by (rule outs_of_from [OF F r fuel o])
  next
    case True
    then obtain cm bs ss' where ss: "ss = SPar cm bs # ss'" by (cases ss rule: starts_par.cases) auto
    have m: "\<not> m" using True by simp
    have w: "wired g n m (SPar cm bs # ss') k" "convertible (SPar cm bs # ss')"
      "apart g n (width m (SPar cm bs # ss')) k"
      and ty: "known_types (SPar cm bs # ss')" and K: "\<forall>x. k = Some x \<longrightarrow> x \<notin> after g x"
      and D: "names n (n + width m (SPar cm bs # ss')) \<inter> consumed st = {}"
      using r ss by (simp_all add: ready_def)
    have "parse_outs f g st x p k = Done (SPar (norm_comment cm) (norm_branches bs) # norm_blocks ss',
        adv g (names n (Suc n + widths bs + width False ss')) (port_edges g x p) st)"
      using reads_fan [OF conjunct1 [OF P [OF ss]] conjunct2 [OF P [OF ss]] w ty _ K, of st f x p]
        D m fuel o ss by (simp add: add.assoc)
    then show ?thesis using ss m by (simp add: add.assoc)
  qed
qed

theorem parse_wired: "reads_from g ss \<and> reads_outs g ss" and parse_wired_branches: "reads_branches g bs"
proof (induction ss and bs rule: blocks_induct)
  case Nil
  have "reads_from g []"
    unfolding reads_from_def
  proof (intro allI impI)
    fix n m k st f h
    assume "2 * width m [] + 1 \<le> f" and h: "heads n m [] k = [h]"
    then obtain f' where "f = Suc f'" by (cases f) auto
    moreover have "k = Some h" using h by (cases k) simp_all
    ultimately show "parse_from f g st h k = Done (norm_blocks [], adv g (names n (n + width m [])) {} st)"
      by simp
  qed
  moreover from this have "reads_outs g []" by (rule reads_outsI) simp_all
  ultimately show ?case ..
next
  case (If c cm th el ss)
  then have "reads_from g (SIf c cm th el # ss)" using reads_If by blast
  moreover from this have "reads_outs g (SIf c cm th el # ss)" by (rule reads_outsI) simp_all
  ultimately show ?case ..
next
  case (Par cm bs ss)
  then have "reads_from g (SPar cm bs # ss)" using reads_Par_from by blast
  moreover from this have "reads_outs g (SPar cm bs # ss)" by (rule reads_outsI) (use Par in auto)
  ultimately show ?case ..
next
  case (Do t p ss)
  then have "reads_from g (SDo t p # ss)" using reads_Do by blast
  moreover from this have "reads_outs g (SDo t p # ss)" by (rule reads_outsI) simp_all
  ultimately show ?case ..
next
  case NilB
  show ?case by (simp add: reads_branches_def)
next
  case (ConsB b bs)
  then show ?case using reads_branches_Cons by blast
qed

subsection \<open>A whole graph\<close>

lemma entries_compiled:
  assumes "known_types ss"
  shows "\<exists>e. filter (\<lambda>n. ntype n = ''entry'') (gnodes (blocks_to_graph ss)) = [e] \<and>
    nid e = nname 1 \<and> nparams e = [(''mode'', JStr ''manual'')]"
proof -
  let ?g = "blocks_to_graph ss"
  note D = distinct_ids [of ss]
  obtain e where e: "node_of ?g (nname 1) = Some e" "ntype e = ''entry''" "nparams e = [(''mode'', JStr ''manual'')]"
    using blocks_to_graph_wired(4) [of ss] by (auto simp: node_at_def)
  have eg: "e \<in> set (gnodes ?g)" "nid e = nname 1"
    using e(1) by (auto simp: node_of_def dest!: map_of_SomeD)
  have "{n \<in> set (gnodes ?g). ntype n = ''entry''} = {e}"
  proof (intro equalityI subsetI)
    fix n assume n: "n \<in> {n \<in> set (gnodes ?g). ntype n = ''entry''}"
    then have nn: "node_of ?g (nid n) = Some n" using node_of_distinct [OF D] by simp
    have "nid n \<in> set (map nid (gnodes ?g))" using n by auto
    then obtain x where x: "nid n = nname x" "0 < x" "x \<le> 1 + width False ss"
      unfolding blocks_to_graph_ids by (auto simp del: upt_Suc)
    have "x = 1"
    proof (rule ccontr)
      assume "x \<noteq> 1"
      with x have "1 < x" "x \<le> 1 + width False ss" by auto
      then have "sound_node ?g x" using wired_sound(1) [OF blocks_to_graph_wired(1) assms(1)] by blast
      then show False using nn n x(1) by (auto simp: sound_node_def)
    qed
    then show "n \<in> {e}" using nn x(1) e(1) by simp
  qed (use e eg in auto)
  moreover have "distinct (gnodes ?g)" using D by (simp add: distinct_map)
  ultimately have "filter (\<lambda>n. ntype n = ''entry'') (gnodes ?g) = [e]" by (intro filter_unique)
  with e eg show ?thesis by blast
qed

theorem graph_to_blocks_compiled:
  assumes "convertible ss" and "known_types ss"
  shows "graph_to_blocks (blocks_to_graph ss) = Done (norm_blocks ss)"
proof -
  let ?g = "blocks_to_graph ss" let ?w = "width False ss"
  note W = blocks_to_graph_wired [where ss = ss]
  obtain e where e: "filter (\<lambda>n. ntype n = ''entry'') (gnodes ?g) = [e]" "nid e = nname 1"
    "nparams e = [(''mode'', JStr ''manual'')]" using entries_compiled [OF assms(2)] by blast
  let ?st = "\<lparr>consumed = {nname 1}, used = {}\<rparr>"
  have "ready ?g 1 False ss None ?st"
    using W(1) assms by (auto simp: ready_def apart_def names_def)
  moreover have "2 * ?w + 2 \<le> 2 * length (gnodes ?g) + 2" by (simp add: length_gnodes)
  ultimately have p: "parse_outs (2 * length (gnodes ?g) + 2) ?g ?st (nname 1) 0 None =
      Done (norm_blocks ss, adv ?g (names 1 (1 + ?w)) (port_edges ?g (nname 1) 0) ?st)"
    using parse_wired W(2) unfolding reads_outs_def by blast
  let ?fin = "adv ?g (names 1 (1 + ?w)) (port_edges ?g (nname 1) 0) ?st"
  have fin: "?fin = adv ?g (names 0 (1 + ?w)) {} \<lparr>consumed = {}, used = {}\<rparr>"
    using adv_port [OF W(3), of "names 1 (1 + ?w)" "\<lparr>consumed = {}, used = {}\<rparr>"] names_first [of 0 ?w] by simp
  have "card (names 0 (1 + ?w)) = 1 + ?w"
    unfolding names_def by (subst card_image) (simp_all add: inj_on_def)
  then have c: "card (consumed ?fin) = length (gnodes ?g)" unfolding fin by (simp add: length_gnodes)
  have "from_edges ?g (names 0 (1 + ?w)) = {..<length (gedges ?g)}"
    using W(5) nth_mem unfolding from_edges_def by blast
  then have u: "card (used ?fin) = length (gedges ?g)" unfolding fin by (simp add: adv_def)
  have "mode_is ''manual'' ''manual'' e" using e(3) by (simp add: mode_is_def mode_of_def pget_def)
  then show ?thesis
    using p c u e blocks_to_graph_valid [OF assms(2)]
    by (simp add: graph_to_blocks_def Let_def del: parse_outs.simps)
qed

end
