(* ===== verification/Macro_Sound.thy ===== *)
theory Macro_Sound
  imports Macro_Run Macro_Roundtrip
begin

text \<open>
  Facts on the two engines: every schedule of the tokens ends (\<open>choices_end\<close>), and on blocks without a
  \<open>parallel\<close> both engines do what the sequential reading \<open>straight\<close> of the blocks does
  (\<open>run_steps_straight\<close>, \<open>run_graph_straight\<close>).
\<close>

subsection \<open>Every schedule ends\<close>

text \<open>The threads after \<open>k\<close> choices of a scheduler \<open>f\<close> that may depend on anything.\<close>

fun after_choices :: "'s world \<Rightarrow> 's exec \<Rightarrow> graph \<Rightarrow> (string \<Rightarrow> nat) \<Rightarrow> (nat \<Rightarrow> nat) \<Rightarrow> nat
      \<Rightarrow> token list \<times> gst \<times> 's \<Rightarrow> token list \<times> gst \<times> 's" where
  "after_choices W ex g expect f 0 c = c"
| "after_choices W ex g expect f (Suc k) c =
     (let c' = after_choices W ex g expect f k c; n = length (fst c')
      in if n = 0 then c' else tokens_step W ex g expect (f k mod n) c')"

lemma after_choices_bound:
  "fst (after_choices W ex g expect f k (ts, st, s)) = [] \<or>
   run_bound g (fst (after_choices W ex g expect f k (ts, st, s)))
     (fst (snd (after_choices W ex g expect f k (ts, st, s)))) + k \<le> run_bound g ts st"
proof (induction k)
  case (Suc k)
  obtain ts1 st1 s1 where c: "after_choices W ex g expect f k (ts, st, s) = (ts1, st1, s1)" by (metis prod_cases3)
  show ?case
  proof (cases "ts1 = []")
    case True
    then show ?thesis using c by simp
  next
    case False
    obtain ts2 st2 s2 where d: "tokens_step W ex g expect (f k mod length ts1) (ts1, st1, s1) = (ts2, st2, s2)"
      by (metis prod_cases3)
    have "run_bound g ts2 st2 < run_bound g ts1 st1"
      using tokens_step_smaller [OF _ d] False by simp
    then show ?thesis using Suc.IH c d False by simp
  qed
qed simp

lemma choices_end:
  "\<exists>k \<le> run_bound g ts st. fst (after_choices W ex g expect f k (ts, st, s)) = []"
proof -
  let ?k = "run_bound g ts st"
  let ?c = "after_choices W ex g expect f ?k (ts, st, s)"
  have "fst ?c = [] \<or> run_bound g (fst ?c) (fst (snd ?c)) = 0"
    using after_choices_bound [of W ex g expect f ?k ts st s] by auto
  moreover have "run_bound g ts' st' = 0 \<Longrightarrow> ts' = []" for ts' st'
    by (cases ts'; cases "hd ts'") (simp_all add: run_bound_def)
  ultimately show ?thesis by blast
qed

lemma visits_left_gst0: "visits_left g gst0 = node_visits_max * length (gnodes g)"
  by (simp add: visits_left_def gst0_def sum_list_triv)

lemma run_bound_start: "run_bound g (map AtVisit xs) gst0 =
    node_visits_max * length (gnodes g) * (length (gedges g) + 3) + length xs"
  by (simp add: run_bound_def visits_left_gst0 comp_def sum_list_triv)

subsection \<open>The sequential reading of blocks\<close>

fun no_parallel :: "step list \<Rightarrow> bool" where
  "no_parallel [] = True"
| "no_parallel (SIf c cm th el # ss) = (no_parallel th \<and> no_parallel el \<and> no_parallel ss)"
| "no_parallel (SPar cm bs # ss) = False"
| "no_parallel (SDo t p # ss) = no_parallel ss"

fun and_then :: "rerr option \<times> 's \<Rightarrow> ('s \<Rightarrow> rerr option \<times> 's) \<Rightarrow> rerr option \<times> 's" where
  "and_then (None, s) f = f s"
| "and_then (Some e, s) f = (Some e, s)"

fun straight :: "'s world \<Rightarrow> 's exec \<Rightarrow> step list \<Rightarrow> 's \<Rightarrow> rerr option \<times> 's" where
  "straight W ex [] s = (None, s)"
| "straight W ex (SDo t p # ss) s =
     (if w_cancelled W s then (Some Cancelled, s) else and_then (ex t p s) (straight W ex ss))"
| "straight W ex (SIf c cm th el # ss) s =
     (if w_cancelled W s then (Some Cancelled, s)
      else (case w_cond W (or_empty c) s of
              (Inl e, s') \<Rightarrow> (Some (Raised e), s')
            | (Inr b, s') \<Rightarrow>
                and_then (if b then straight W ex th s' else straight W ex el s') (straight W ex ss)))"
| "straight W ex (SPar cm bs # ss) s = (None, s)"

lemma and_then_assoc: "and_then (and_then r f) g = and_then r (\<lambda>s. and_then (f s) g)"
  by (cases "(r, f)" rule: and_then.cases) simp_all

lemma straight_append:
  "no_parallel xs \<Longrightarrow> straight W ex (xs @ ys) s = and_then (straight W ex xs s) (straight W ex ys)"
proof (induction xs arbitrary: s rule: no_parallel.induct)
  case (2 c cm th el ss)
  then have "straight W ex (ss @ ys) = (\<lambda>s. and_then (straight W ex ss s) (straight W ex ys))" by auto
  then show ?case by (auto simp: and_then_assoc split: prod.split sum.split)
next
  case (4 t p ss)
  then have "straight W ex (ss @ ys) = (\<lambda>s. and_then (straight W ex ss s) (straight W ex ys))" by auto
  then show ?case by (simp add: and_then_assoc)
qed simp_all

lemma no_parallel_append [simp]: "no_parallel (xs @ ys) \<longleftrightarrow> no_parallel xs \<and> no_parallel ys"
  by (induction xs rule: no_parallel.induct) auto

lemma run_thread_Ended [simp]: "run_thread W ex (Ended r) s = (r, s)"
  by (simp add: run_thread.simps)

lemma run_thread_Todo:
  "run_thread W ex (Todo ss) s = (case bstep W ex (Todo ss) s of (t, s') \<Rightarrow> run_thread W ex t s')"
  by (subst run_thread.simps) simp

lemma run_steps_straight:
  "no_parallel ss \<Longrightarrow> run_steps W ex ss s = straight W ex ss s"
proof (induction "todo_size ss" arbitrary: ss s rule: less_induct)
  case less
  show ?case
  proof (cases ss)
    case Nil
    then show ?thesis by (simp add: run_steps_def run_thread_Todo)
  next
    case (Cons st ss')
    show ?thesis
    proof (cases st)
      case (SDo t p)
      then have "run_steps W ex ss' r = straight W ex ss' r" for r using less Cons by simp
      then show ?thesis
        unfolding run_steps_def Cons SDo run_thread_Todo [of W ex "SDo t p # ss'"]
        by (auto split: prod.split option.split)
    next
      case (SIf c cm th el)
      have "run_steps W ex ((if b then th else el) @ ss') r =
          and_then (if b then straight W ex th r else straight W ex el r) (straight W ex ss')" for b r
        using less Cons SIf by (auto simp: straight_append)
      then show ?thesis
        unfolding run_steps_def Cons SIf run_thread_Todo [of W ex "SIf c cm th el # ss'"]
        by (auto split: prod.split sum.split)
    next
      case (SPar cm bs)
      then show ?thesis using less.prems Cons by simp
    qed
  qed
qed

subsection \<open>One token\<close>

lemma run_tokens_Nil [simp]: "run_tokens W ex g expect [] st s = (st, s)"
  by (simp add: run_tokens.simps)

lemma run_tokens_one:
  "run_tokens W ex g expect [t] st s =
     (case token_step W ex g expect t st s of (rs, st', s') \<Rightarrow> run_tokens W ex g expect rs st' s')"
  by (subst run_tokens.simps) (auto simp: pick_def tokens_step_def split: prod.split; metis append_take_drop_id take_Suc_conv_app_nth)

text \<open>
  \<open>untouched st st' a b\<close>: from \<open>st\<close> to \<open>st'\<close> only visits of the nodes between \<open>a\<close> and \<open>b\<close> were counted;
  \<open>unseen\<close>: none of these nodes has been visited.
\<close>

definition untouched :: "gst \<Rightarrow> gst \<Rightarrow> nat \<Rightarrow> nat \<Rightarrow> bool" where
  "untouched st st' a b \<longleftrightarrow> gerrors st' = gerrors st \<and> (\<forall>x. x \<notin> names a b \<longrightarrow> visits st' x = visits st x)"

definition unseen :: "gst \<Rightarrow> nat \<Rightarrow> nat \<Rightarrow> bool" where
  "unseen st a b \<longleftrightarrow> (\<forall>i. a < i \<and> i \<le> b \<longrightarrow> visits st (nname i) = 0)"

text \<open>
  \<open>continues\<close>: the interpreter, started on the tokens \<open>ts\<close>, ends with an error where the outcome \<open>r\<close> is one, and
  otherwise goes on at \<open>k\<close> in the state of \<open>r\<close>.
\<close>

definition continues :: "'s world \<Rightarrow> 's exec \<Rightarrow> graph \<Rightarrow> (string \<Rightarrow> nat) \<Rightarrow> nat \<Rightarrow> nat \<Rightarrow> string option
      \<Rightarrow> token list \<Rightarrow> gst \<Rightarrow> 's \<Rightarrow> rerr option \<times> 's \<Rightarrow> bool" where
  "continues W ex g expect a b k ts st s r \<longleftrightarrow>
     (\<exists>st'. untouched st st' a b \<and>
        (case r of
           (None, s') \<Rightarrow> run_tokens W ex g expect ts st s = run_tokens W ex g expect (map AtVisit (klist k)) st' s'
         | (Some e, s') \<Rightarrow> \<exists>e'. run_tokens W ex g expect ts st s = (add_error e' st', s')))"

lemma untouched_trans: "untouched st st1 a b \<Longrightarrow> untouched st1 st2 c d \<Longrightarrow> a' \<le> a \<Longrightarrow> b \<le> b' \<Longrightarrow> a' \<le> c \<Longrightarrow> d \<le> b' \<Longrightarrow>
    untouched st st2 a' b'"
  unfolding untouched_def names_def by fastforce

lemma unseen_after: "unseen st a b \<Longrightarrow> untouched st st' c d \<Longrightarrow> d \<le> a \<or> b \<le> c \<Longrightarrow> unseen st' a b"
  unfolding unseen_def untouched_def by (metis (no_types, lifting) leD le_trans less_le_trans nname_in_names not_le)

lemma untouched_refl: "untouched st st a b"
  by (simp add: untouched_def)

lemma continues_error:
  "run_tokens W ex g expect ts st s = (add_error e' st', s') \<Longrightarrow> untouched st st' a b \<Longrightarrow>
   continues W ex g expect a b k ts st s (Some e, s')"
  by (auto simp: continues_def)

lemma continues_step:
  assumes "run_tokens W ex g expect ts st s = run_tokens W ex g expect ts1 st1 s1" and "untouched st st1 a0 b0"
    and "continues W ex g expect a1 b1 k ts1 st1 s1 r"
    and le: "a \<le> a0" "b0 \<le> b" "a \<le> a1" "b1 \<le> b"
  shows "continues W ex g expect a b k ts st s r"
proof -
  from assms(3) obtain st' where st': "untouched st1 st' a1 b1" and c: "case r of
      (None, s') \<Rightarrow> run_tokens W ex g expect ts1 st1 s1 = run_tokens W ex g expect (map AtVisit (klist k)) st' s'
    | (Some e, s') \<Rightarrow> \<exists>e'. run_tokens W ex g expect ts1 st1 s1 = (add_error e' st', s')"
    unfolding continues_def by (elim exE conjE) iprover
  have "untouched st st' a b" by (rule untouched_trans [OF assms(2) st' le])
  with c show ?thesis unfolding continues_def assms(1) by iprover
qed

lemma continues_then:
  assumes "continues W ex g expect a0 b0 k ts st s r"
    and "\<And>st' s'. untouched st st' a0 b0 \<Longrightarrow> r = (None, s') \<Longrightarrow>
      continues W ex g expect a1 b1 k' (map AtVisit (klist k)) st' s' (f s')"
    and "a \<le> a0" "b0 \<le> b" "a \<le> a1" "b1 \<le> b"
  shows "continues W ex g expect a b k' ts st s (and_then r f)"
proof (cases "(r, f)" rule: and_then.cases)
  case (1 s' f')
  then obtain st' where st': "untouched st st' a0 b0"
    "run_tokens W ex g expect ts st s = run_tokens W ex g expect (map AtVisit (klist k)) st' s'"
    using assms(1) by (auto simp: continues_def)
  then show ?thesis using continues_step [OF st'(2,1) assms(2) assms(3-6)] 1 by simp
next
  case (2 e s' f')
  then obtain st' e' where st': "untouched st st' a0 b0" "run_tokens W ex g expect ts st s = (add_error e' st', s')"
    using assms(1) by (auto simp: continues_def)
  have "untouched st st' a b" using untouched_trans [OF st'(1) untouched_refl] assms(3,4) by blast
  then show ?thesis using continues_error [OF st'(2)] 2 by simp
qed

subsection \<open>One node\<close>

definition count_visit :: "string \<Rightarrow> gst \<Rightarrow> gst" where
  "count_visit x st = st\<lparr>visits := (visits st)(x := Suc (visits st x))\<rparr>"

lemma untouched_visit: "a < i \<Longrightarrow> i \<le> b \<Longrightarrow> untouched st (count_visit (nname i) st) a b"
  by (auto simp: untouched_def count_visit_def)

lemma visit_cancelled:
  "w_cancelled W s \<Longrightarrow> run_tokens W ex g expect [AtVisit x] st s = (add_error Cancelled st, s)"
  by (simp add: run_tokens_one)

lemma visit_node:
  assumes "\<not> w_cancelled W s" and "node_of g x = Some nd" and "ntype nd \<noteq> ''join''" and "visits st x = 0"
  shows "run_tokens W ex g expect [AtVisit x] st s =
    (case exec_node W ex nd s of
       (Inl e, s') \<Rightarrow> (add_error (AtNode x e) (count_visit x st), s')
     | (Inr p, s') \<Rightarrow> run_tokens W ex g expect (map AtVisit (tos g x p)) (count_visit x st) s')"
  using assms
  by (simp add: run_tokens_one node_visits_max_def count_visit_def outs_targets [symmetric]
      split: prod.split sum.split)

lemma exec_do_disabled: "is_disabled t p \<Longrightarrow> exec_do W sub t p s = (None, s)"
  by (simp add: exec_do_def)

lemma exec_node_do:
  assumes "ntype nd = t" and "nparams nd = p" and "t \<in> set disableable_types" and "ex = exec_do W sub"
  shows "exec_node W ex nd s = (case ex t p s of (None, s') \<Rightarrow> (Inr 0, s') | (Some e, s') \<Rightarrow> (Inl e, s'))"
  using assms disableable_known [OF assms(3)] by (simp add: exec_node_def exec_do_disabled)

lemma exec_node_cond:
  assumes "ntype nd = ''cond''" and "nparams nd = cond_params c cm"
  shows "exec_node W ex nd s = (case w_cond W (or_empty c) s of
      (Inl e, s') \<Rightarrow> (Inl (Raised e), s') | (Inr b, s') \<Rightarrow> (Inr (if b then 0 else 1), s'))"
proof -
  have "or_empty (pget (cond_params c cm) ''cond'') = or_empty c"
    by (auto simp: cond_params_def with_comment_def pget_def or_empty_def)
  then show ?thesis using assms by (simp add: exec_node_def is_disabled_def disableable_types_def)
qed

lemma tokens_straight:
  assumes "ex = exec_do W sub"
  shows "wired g n m ss k \<Longrightarrow> no_parallel ss \<Longrightarrow> known_types ss \<Longrightarrow> unseen st n (n + width m ss) \<Longrightarrow>
    continues W ex g expect n (n + width m ss) k (map AtVisit (heads n m ss k)) st s (straight W ex ss s)"
proof (induction ss arbitrary: n m k st s rule: blocks_induct(1) [where Q = "\<lambda>_. True"])
  case Nil
  show ?case by (auto simp: continues_def intro: exI [of _ st] untouched_refl)
next
  case (If c cm th el ss)
  let ?x = "nname (Suc n)" let ?n1 = "Suc n + width False th" let ?n2 = "?n1 + width False el"
  let ?n3 = "?n2 + width True ss" let ?k' = "kont ?n2 ss k" let ?st1 = "count_visit ?x st"
  have W: "node_at g (Suc n) ''cond'' (cond_params c cm)"
    "tos g ?x 0 = heads (Suc n) False th ?k'" "tos g ?x 1 = heads ?n1 False el ?k'"
    "wired g (Suc n) False th ?k'" "wired g ?n1 False el ?k'" "wired g ?n2 True ss k"
    using If.prems(1) by (simp_all add: Let_def)
  have P: "no_parallel th" "no_parallel el" "no_parallel ss" "known_types th" "known_types el" "known_types ss"
    using If.prems(2,3) by simp_all
  have U: "unseen st n ?n3" using If.prems(4) by (simp add: add.assoc)
  have u1: "untouched st ?st1 n (Suc n)" by (rule untouched_visit) simp_all
  have U1: "unseen ?st1 (Suc n) ?n3" using U by (simp add: unseen_def count_visit_def)
  have W3: "width m (SIf c cm th el # ss) = ?n3 - n" by simp
  obtain nd where nd: "node_of g ?x = Some nd" "ntype nd = ''cond''" "nparams nd = cond_params c cm"
    using W(1) by (auto simp: node_at_def)
  have "continues W ex g expect n ?n3 k [AtVisit ?x] st s (straight W ex (SIf c cm th el # ss) s)"
  proof (cases "w_cancelled W s")
    case True
    then show ?thesis using continues_error [OF visit_cancelled [OF True] untouched_refl] by simp
  next
    case False
    have step: "run_tokens W ex g expect [AtVisit ?x] st s =
      (case w_cond W (or_empty c) s of
         (Inl e, s') \<Rightarrow> (add_error (AtNode ?x (Raised e)) ?st1, s')
       | (Inr b, s') \<Rightarrow> run_tokens W ex g expect (map AtVisit (tos g ?x (if b then 0 else 1))) ?st1 s')"
      using visit_node [OF False nd(1), of st ex expect] nd U
      by (simp add: exec_node_cond unseen_def split: prod.split sum.split)
    show ?thesis
    proof (cases "w_cond W (or_empty c) s")
      case (Pair r s')
      show ?thesis
      proof (cases r)
        case (Inl e)
        have "untouched st ?st1 n ?n3" by (rule untouched_visit) simp_all
        with step Pair Inl False show ?thesis by (simp add: continues_error)
      next
        case (Inr b)
        let ?br = "if b then th else el" let ?a = "if b then Suc n else ?n1"
        let ?w = "width False ?br"
        have br: "wired g ?a False ?br ?k'" "no_parallel ?br" "known_types ?br" "unseen ?st1 ?a (?a + ?w)"
          "tos g ?x (if b then 0 else 1) = heads ?a False ?br ?k'"
          using W P U1 by (auto simp: unseen_def)
        have le: "n \<le> ?a" "?a + ?w \<le> ?n2" "Suc n \<le> ?a" by auto
        have C: "continues W ex g expect ?a (?a + ?w) ?k' (map AtVisit (heads ?a False ?br ?k')) ?st1 s'
            (straight W ex ?br s')"
        proof (cases b)
          case True
          then show ?thesis using If.IH(1) [OF W(4) P(1,4), of ?st1 s'] br(4) by simp
        next
          case False
          then show ?thesis using If.IH(2) [OF W(5) P(2,5), of ?st1 s'] br(4) by simp
        qed
        have D: "continues W ex g expect ?a ?n3 k (map AtVisit (heads ?a False ?br ?k')) ?st1 s'
            (and_then (straight W ex ?br s') (straight W ex ss))"
        proof (rule continues_then [OF C])
          fix st' s''
          assume "untouched ?st1 st' ?a (?a + ?w)"
          then have "unseen st' ?n2 ?n3"
            using U1 le unseen_after [of ?st1 ?n2 ?n3 st' ?a "?a + ?w"] by (simp add: unseen_def)
          then have "continues W ex g expect ?n2 ?n3 k (map AtVisit (heads ?n2 True ss k)) st' s'' (straight W ex ss s'')"
            by (rule If.IH(3) [OF W(6) P(3,6)])
          then show "continues W ex g expect ?n2 ?n3 k (map AtVisit (klist ?k')) st' s'' (straight W ex ss s'')"
            by (simp add: heads_True)
        qed (use le in auto)
        have "run_tokens W ex g expect [AtVisit ?x] st s =
            run_tokens W ex g expect (map AtVisit (heads ?a False ?br ?k')) ?st1 s'"
          using step Pair Inr br(5) by simp
        from continues_step [OF this u1 D] have
          "continues W ex g expect n ?n3 k [AtVisit ?x] st s (and_then (straight W ex ?br s') (straight W ex ss))"
          by auto
        then show ?thesis using Pair Inr False by (cases b) simp_all
      qed
    qed
  qed
  then show ?case by (simp add: add.assoc)
next
  case (Par cm bs ss)
  then show ?case by simp
next
  case (Do t p ss)
  let ?x = "nname (Suc n)" let ?n3 = "Suc n + width False ss" let ?st1 = "count_visit ?x st"
  have W: "node_at g (Suc n) t p" "tos g ?x 0 = heads (Suc n) False ss k" "wired g (Suc n) False ss k"
    using Do.prems(1) by simp_all
  have P: "no_parallel ss" "known_types ss" "t \<in> set disableable_types" using Do.prems(2,3) by simp_all
  have U: "unseen st n ?n3" using Do.prems(4) by simp
  have u1: "untouched st ?st1 n (Suc n)" by (rule untouched_visit) simp_all
  have U1: "unseen ?st1 (Suc n) ?n3" using U by (simp add: unseen_def count_visit_def)
  obtain nd where nd: "node_of g ?x = Some nd" "ntype nd = t" "nparams nd = p"
    using W(1) by (auto simp: node_at_def)
  have "continues W ex g expect n ?n3 k [AtVisit ?x] st s (straight W ex (SDo t p # ss) s)"
  proof (cases "w_cancelled W s")
    case True
    then show ?thesis using continues_error [OF visit_cancelled [OF True] untouched_refl] by simp
  next
    case False
    have step: "run_tokens W ex g expect [AtVisit ?x] st s =
      (case ex t p s of
         (None, s') \<Rightarrow> run_tokens W ex g expect (map AtVisit (heads (Suc n) False ss k)) ?st1 s'
       | (Some e, s') \<Rightarrow> (add_error (AtNode ?x e) ?st1, s'))"
      using visit_node [OF False nd(1), of st ex expect] nd U W(2) disableable_known [OF P(3)]
        exec_node_do [OF nd(2,3) P(3) assms]
      by (simp add: unseen_def split: prod.split option.split)
    show ?thesis
    proof (cases "ex t p s")
      case (Pair r s')
      show ?thesis
      proof (cases r)
        case None
        with step Pair have e: "run_tokens W ex g expect [AtVisit ?x] st s =
          run_tokens W ex g expect (map AtVisit (heads (Suc n) False ss k)) ?st1 s'" by simp
        have "continues W ex g expect n ?n3 k [AtVisit ?x] st s (straight W ex ss s')"
          by (rule continues_step [OF e u1 Do.IH [OF W(3) P(1,2) U1]]) simp_all
        with None Pair False show ?thesis by simp
      next
        case (Some e)
        have "untouched st ?st1 n ?n3" by (rule untouched_visit) simp_all
        with step Pair Some False show ?thesis by (simp add: continues_error)
      qed
    qed
  qed
  then show ?case by simp
qed simp_all

subsection \<open>A whole graph\<close>

lemma start_compiled:
  assumes "known_types ss"
  shows "start_nodes (blocks_to_graph ss) None = Inr [nname 1]"
proof -
  obtain e where e: "filter (\<lambda>n. ntype n = ''entry'') (gnodes (blocks_to_graph ss)) = [e]" "nid e = nname 1"
    "nparams e = [(''mode'', JStr ''manual'')]" using entries_compiled [OF assms] by blast
  have "mode_is ''manual'' ''manual'' e" using e(3) by (simp add: mode_is_def mode_of_def pget_def)
  then have "filter (\<lambda>n. ntype n = ''entry'' \<and> mode_is ''manual'' ''manual'' n) (gnodes (blocks_to_graph ss)) = [e]"
    using arg_cong [OF e(1), of "filter (mode_is ''manual'' ''manual'')"] by simp
  then show ?thesis using e(2) by (simp add: start_nodes_def)
qed

text \<open>The graph engine on a compiled list of blocks: what the sequential reading does, after the test of the entry.\<close>

lemma run_graph_straight:
  assumes "no_parallel ss" and "known_types ss" and ex: "ex = exec_do W sub"
  shows "\<not> w_cancelled W s \<Longrightarrow>
      (case straight W ex ss s of
         (None, s') \<Rightarrow> run_graph W ex (blocks_to_graph ss) None s = (None, s')
       | (Some e, s') \<Rightarrow> \<exists>e'. run_graph W ex (blocks_to_graph ss) None s = (Some (Several [e']), s'))"
    and "w_cancelled W s \<Longrightarrow> run_graph W ex (blocks_to_graph ss) None s = (Some (Several [Cancelled]), s)"
proof -
  let ?g = "blocks_to_graph ss" let ?x = "nname 1" let ?expect = "expected_in ?g [?x]"
  let ?st1 = "count_visit ?x gst0"
  note B = blocks_to_graph_wired [where ss = ss]
  have run: "run_graph W ex ?g None s =
      (case run_tokens W ex ?g ?expect [AtVisit ?x] gst0 s of
         (st, s') \<Rightarrow> ((if gerrors st = [] then None else Some (Several (gerrors st))), s'))"
    using blocks_to_graph_valid [OF assms(2)] start_compiled [OF assms(2)] by (simp add: run_graph_def)
  show "w_cancelled W s \<Longrightarrow> run_graph W ex ?g None s = (Some (Several [Cancelled]), s)"
    by (simp add: run visit_cancelled add_error_def gst0_def)
  obtain nd where nd: "node_of ?g ?x = Some nd" "ntype nd = ''entry''"
    using B(4) by (auto simp: node_at_def)
  have en: "exec_node W ex nd s = (Inr 0, s)"
    using nd by (simp add: exec_node_def is_disabled_def disableable_types_def)
  have un: "unseen ?st1 1 (1 + width False ss)" by (simp add: unseen_def count_visit_def gst0_def)
  show "case straight W ex ss s of
         (None, s') \<Rightarrow> run_graph W ex ?g None s = (None, s')
       | (Some e, s') \<Rightarrow> \<exists>e'. run_graph W ex ?g None s = (Some (Several [e']), s')"
    if c: "\<not> w_cancelled W s"
  proof -
    have st: "run_tokens W ex ?g ?expect [AtVisit ?x] gst0 s =
        run_tokens W ex ?g ?expect (map AtVisit (heads 1 False ss None)) ?st1 s"
      using visit_node [OF c nd(1), of gst0 ex ?expect] nd(2) en B(2) by (simp add: gst0_def)
    let ?ts = "map AtVisit (heads 1 False ss None)"
    have "continues W ex ?g ?expect 1 (1 + width False ss) None ?ts ?st1 s (straight W ex ss s)"
      by (rule tokens_straight [OF ex B(1) assms(1,2) un])
    moreover obtain r s' where r: "straight W ex ss s = (r, s')" by fastforce
    moreover have "gerrors ?st1 = []" by (simp add: count_visit_def gst0_def)
    ultimately have "\<exists>st' e'. gerrors st' = [] \<and> run_tokens W ex ?g ?expect ?ts ?st1 s =
        (case r of None \<Rightarrow> (st', s') | Some e \<Rightarrow> (add_error e' st', s'))"
      by (cases r) (fastforce simp: continues_def untouched_def)+
    then show ?thesis unfolding run st using r by (cases r) (auto simp: add_error_def)
  qed
qed

end
