(* ===== verification/Macro_Triggers.thy ===== *)
theory Macro_Triggers
  imports Macro_State
begin

text \<open>
  The runs and the permanent triggers of \<open>app/macros.py\<close>: \<open>run_macro\<close>, the end of its thread,
  \<open>cancel_run\<close>, \<open>run_status\<close>, and a pass \<open>_triggers_tick\<close> of the poller.

  A pass reads the outside world once per trigger: \<open>answer\<close> is what the evaluation of its condition returns
  (\<open>None\<close>: it raises) and \<open>clock\<close> is \<open>time.monotonic()\<close> when the pass asks for it, in seconds.  The thread
  of a run is not part of a pass; \<open>finish_run\<close> is its last step.
\<close>

subsection \<open>Runs\<close>

record run =
  run_user :: string
  allow_system :: bool
  running :: bool
  cancel_set :: bool
  run_error :: "string option"

record macro_row =
  macro_name :: string
  macro_graph :: mgraph

type_synonym runs = "nat \<rightharpoonup> run"

datatype run_refusal = MacroNotFound | AlreadyRunning

definition run_macro :: "(nat \<rightharpoonup> macro_row) \<Rightarrow> nat \<Rightarrow> string \<Rightarrow> bool \<Rightarrow> runs \<Rightarrow> (run_refusal + run) \<times> runs" where
  "run_macro macros mid user allow rs =
     (case macros mid of
        None \<Rightarrow> (Inl MacroNotFound, rs)
      | Some m \<Rightarrow>
          if (case rs mid of None \<Rightarrow> False | Some r \<Rightarrow> running r) then (Inl AlreadyRunning, rs)
          else (let r = \<lparr>run_user = user, allow_system = allow, running = True, cancel_set = False, run_error = None\<rparr>
                in (Inr r, rs(mid \<mapsto> r))))"

text \<open>
  The end of the thread of a run, with the exception that ended it; the answer says whether the alert \<open>macro_echec\<close>
  is written.
\<close>

definition finish_run :: "nat \<Rightarrow> string option \<Rightarrow> runs \<Rightarrow> bool \<times> runs" where
  "finish_run mid err rs =
     (err \<noteq> None,
      case rs mid of None \<Rightarrow> rs | Some r \<Rightarrow> rs(mid \<mapsto> r\<lparr>running := False, run_error := err\<rparr>))"

definition cancel_run :: "nat \<Rightarrow> runs \<Rightarrow> bool \<times> runs" where
  "cancel_run mid rs =
     (case rs mid of
        None \<Rightarrow> (False, rs)
      | Some r \<Rightarrow> if running r then (True, rs(mid \<mapsto> r\<lparr>cancel_set := True\<rparr>)) else (False, rs))"

definition run_status :: "nat \<Rightarrow> runs \<Rightarrow> run option" where
  "run_status mid rs = rs mid"

subsection \<open>Triggers\<close>

record trigger =
  trig_id :: nat
  trig_name :: string
  trig_cond :: json
  cooldown_ms :: int
  trig_macro :: nat

text \<open>A fader condition has a poller of its own and is not evaluated here; macro 0 is no macro.\<close>

definition is_fader :: "json \<Rightarrow> bool" where
  "is_fader c = (case c of JDict d \<Rightarrow> pget d ''kind'' = JStr ''fader'' | _ \<Rightarrow> False)"

record pass =
  enabled :: "trigger list"
  answer :: "nat \<Rightarrow> bool option"
  clock :: "nat \<Rightarrow> rat"
  macros :: "nat \<rightharpoonup> macro_row"

text \<open>
  \<open>last_fired\<close> is \<open>_trig_last\<close>, \<open>prev\<close> is \<open>_trig_prev\<close>; \<open>advice\<close> collects the trigger and the macro of
  every advisory \<open>trigger_declenche\<close>.
\<close>

record poller =
  prev :: "nat \<rightharpoonup> bool"
  last_fired :: "nat \<rightharpoonup> rat"
  runs_of :: runs
  advice :: "(nat \<times> nat) list"

definition poller0 :: poller where
  "poller0 = \<lparr>prev = Map.empty, last_fired = Map.empty, runs_of = Map.empty, advice = []\<rparr>"

definition cooled :: "trigger \<Rightarrow> rat \<Rightarrow> rat option \<Rightarrow> bool" where
  "cooled tr now before =
     (case before of None \<Rightarrow> True | Some t \<Rightarrow> of_int (max 0 (cooldown_ms tr)) / 1000 \<le> now - t)"

definition trigger_user :: "trigger \<Rightarrow> string" where
  "trigger_user tr = ''trigger:'' @
     (if trig_name tr \<noteq> [] then trig_name tr else CHR ''#'' # str_nat (trig_id tr))"

text \<open>The body of the loop, from the evaluation of the condition to the advisory.\<close>

definition fire :: "pass \<Rightarrow> trigger \<Rightarrow> poller \<Rightarrow> poller" where
  "fire p tr st =
     (let st1 = st\<lparr>last_fired := (last_fired st)(trig_id tr \<mapsto> clock p (trig_id tr))\<rparr>
      in case run_macro (macros p) (trig_macro tr) (trigger_user tr) False (runs_of st1) of
           (Inl e, rs) \<Rightarrow> st1
         | (Inr r, rs) \<Rightarrow> st1\<lparr>runs_of := rs, advice := advice st1 @ [(trig_id tr, trig_macro tr)]\<rparr>)"

definition eval_trigger :: "pass \<Rightarrow> trigger \<Rightarrow> poller \<Rightarrow> poller" where
  "eval_trigger p tr st =
     (case answer p (trig_id tr) of
        None \<Rightarrow> st
      | Some cur \<Rightarrow>
          (let st1 = st\<lparr>prev := (prev st)(trig_id tr \<mapsto> cur)\<rparr>
           in if prev st (trig_id tr) = None \<or> \<not> cur \<or> prev st (trig_id tr) = Some True then st1
              else if \<not> cooled tr (clock p (trig_id tr)) (last_fired st (trig_id tr)) then st1
              else if trig_macro tr = 0 then st1
              else fire p tr st1))"

fun eval_triggers :: "pass \<Rightarrow> trigger list \<Rightarrow> poller \<Rightarrow> poller" where
  "eval_triggers p [] st = st"
| "eval_triggers p (tr # trs) st =
     eval_triggers p trs (if is_fader (trig_cond tr) then st else eval_trigger p tr st)"

definition polled :: "pass \<Rightarrow> trigger list" where
  "polled p = filter (\<lambda>tr. \<not> is_fader (trig_cond tr)) (enabled p)"

definition triggers_tick :: "pass \<Rightarrow> poller \<Rightarrow> poller" where
  "triggers_tick p st =
     (let st1 = eval_triggers p (enabled p) st
      in st1\<lparr>prev := (\<lambda>i. if i \<in> trig_id ` set (polled p) then prev st1 i else None)\<rparr>)"

subsection \<open>What one pass does to one trigger\<close>

definition trigger_fires :: "pass \<Rightarrow> trigger \<Rightarrow> poller \<Rightarrow> bool" where
  "trigger_fires p tr st \<longleftrightarrow>
     prev st (trig_id tr) = Some False \<and> answer p (trig_id tr) = Some True \<and>
     cooled tr (clock p (trig_id tr)) (last_fired st (trig_id tr)) \<and> trig_macro tr \<noteq> 0"

lemma fire_fields:
  "prev (fire p tr st) = prev st"
  "last_fired (fire p tr st) = (last_fired st)(trig_id tr \<mapsto> clock p (trig_id tr))"
  by (auto simp: fire_def Let_def split: prod.split sum.split)

lemma eval_trigger_prev:
  "prev (eval_trigger p tr st) = (case answer p (trig_id tr) of None \<Rightarrow> prev st | Some b \<Rightarrow> (prev st)(trig_id tr \<mapsto> b))"
  by (auto simp: eval_trigger_def Let_def fire_fields split: option.split)

lemma eval_trigger_last:
  "last_fired (eval_trigger p tr st) =
     (if trigger_fires p tr st then (last_fired st)(trig_id tr \<mapsto> clock p (trig_id tr)) else last_fired st)"
  by (auto simp: eval_trigger_def trigger_fires_def Let_def fire_fields split: option.split)

lemma eval_trigger_other:
  "trig_id tr \<noteq> i \<Longrightarrow> prev (eval_trigger p tr st) i = prev st i \<and> last_fired (eval_trigger p tr st) i = last_fired st i"
  by (auto simp: eval_trigger_prev eval_trigger_last split: option.split)

lemma eval_triggers_other:
  "i \<notin> trig_id ` set (filter (\<lambda>tr. \<not> is_fader (trig_cond tr)) trs) \<Longrightarrow>
   prev (eval_triggers p trs st) i = prev st i \<and> last_fired (eval_triggers p trs st) i = last_fired st i"
  by (induction p trs st rule: eval_triggers.induct) (auto simp: eval_trigger_other)

lemma trigger_fires_cong:
  "prev st (trig_id tr) = prev st' (trig_id tr) \<Longrightarrow> last_fired st (trig_id tr) = last_fired st' (trig_id tr) \<Longrightarrow>
   trigger_fires p tr st = trigger_fires p tr st'"
  by (simp add: trigger_fires_def)

lemma eval_triggers_at:
  assumes "distinct (map trig_id trs)" and "tr \<in> set trs" and "\<not> is_fader (trig_cond tr)"
  defines "i \<equiv> trig_id tr"
  shows "prev (eval_triggers p trs st) i = (case answer p i of None \<Rightarrow> prev st i | Some b \<Rightarrow> Some b)"
    and "last_fired (eval_triggers p trs st) i = (if trigger_fires p tr st then Some (clock p i) else last_fired st i)"
proof -
  obtain as bs where t: "trs = as @ tr # bs" using assms(2) by (metis split_list)
  have split: "eval_triggers p (xs @ ys) s = eval_triggers p ys (eval_triggers p xs s)" for xs ys s
    by (induction xs arbitrary: s) simp_all
  have n: "i \<notin> trig_id ` set as" "i \<notin> trig_id ` set bs" using assms(1) t by (auto simp: i_def)
  let ?s = "eval_triggers p as st"
  have s: "prev ?s i = prev st i" "last_fired ?s i = last_fired st i"
    using eval_triggers_other [of i as p st] n(1) by auto
  have e: "prev (eval_triggers p trs st) i = prev (eval_trigger p tr ?s) i"
    "last_fired (eval_triggers p trs st) i = last_fired (eval_trigger p tr ?s) i"
    using eval_triggers_other [of i bs p "eval_trigger p tr ?s"] n(2) assms(3) by (auto simp: t split)
  show "prev (eval_triggers p trs st) i = (case answer p i of None \<Rightarrow> prev st i | Some b \<Rightarrow> Some b)"
    unfolding e eval_trigger_prev using s by (auto simp: i_def split: option.split)
  show "last_fired (eval_triggers p trs st) i = (if trigger_fires p tr st then Some (clock p i) else last_fired st i)"
    unfolding e eval_trigger_last using s trigger_fires_cong [of ?s tr st p] by (auto simp: i_def)
qed

lemma tick_at:
  assumes "distinct (map trig_id (enabled p))" and "tr \<in> set (polled p)"
  defines "i \<equiv> trig_id tr"
  shows "prev (triggers_tick p st) i = (case answer p i of None \<Rightarrow> prev st i | Some b \<Rightarrow> Some b)"
    and "last_fired (triggers_tick p st) i = (if trigger_fires p tr st then Some (clock p i) else last_fired st i)"
  using eval_triggers_at [OF assms(1), of tr p st] assms(2)
  by (auto simp: triggers_tick_def Let_def polled_def i_def split: option.split)

lemma tick_absent:
  assumes "i \<notin> trig_id ` set (polled p)"
  shows "prev (triggers_tick p st) i = None" and "last_fired (triggers_tick p st) i = last_fired st i"
  using eval_triggers_other [of i "enabled p" p st] assms by (auto simp: triggers_tick_def Let_def polled_def)

subsection \<open>What one pass does to one macro\<close>

text \<open>A macro can be started when it exists and does not run; the run a trigger starts.\<close>

definition startable :: "pass \<Rightarrow> nat \<Rightarrow> runs \<Rightarrow> bool" where
  "startable p mid rs \<longleftrightarrow> macros p mid \<noteq> None \<and> (case rs mid of None \<Rightarrow> True | Some r \<Rightarrow> \<not> running r)"

definition started_by :: "trigger \<Rightarrow> run" where
  "started_by tr = \<lparr>run_user = trigger_user tr, allow_system = False, running = True, cancel_set = False, run_error = None\<rparr>"

lemma eval_trigger_runs:
  "runs_of (eval_trigger p tr st) mid =
     (if trigger_fires p tr st \<and> trig_macro tr = mid \<and> startable p mid (runs_of st) then Some (started_by tr) else runs_of st mid)"
  by (auto simp: eval_trigger_def trigger_fires_def fire_def run_macro_def startable_def started_by_def Let_def split: option.split)

lemma eval_trigger_advice:
  "advice (eval_trigger p tr st) =
     advice st @ (if trigger_fires p tr st \<and> startable p (trig_macro tr) (runs_of st) then [(trig_id tr, trig_macro tr)] else [])"
  by (auto simp: eval_trigger_def trigger_fires_def fire_def run_macro_def startable_def Let_def split: option.split)

lemma eval_triggers_runs:
  "distinct (map trig_id trs) \<Longrightarrow>
   runs_of (eval_triggers p trs st) mid =
     (case find (\<lambda>tr. \<not> is_fader (trig_cond tr) \<and> trigger_fires p tr st \<and> trig_macro tr = mid) trs of
        None \<Rightarrow> runs_of st mid
      | Some tr \<Rightarrow> if startable p mid (runs_of st) then Some (started_by tr) else runs_of st mid)"
proof (induction trs arbitrary: st)
  case (Cons tr trs)
  show ?case
  proof (cases "is_fader (trig_cond tr)")
    case True
    then show ?thesis using Cons by simp
  next
    case False
    let ?st = "eval_trigger p tr st"
    have "trigger_fires p t ?st = trigger_fires p t st" if "t \<in> set trs" for t
    proof (rule trigger_fires_cong)
      have "trig_id tr \<noteq> trig_id t" using Cons.prems that by auto
      then show "prev ?st (trig_id t) = prev st (trig_id t)" "last_fired ?st (trig_id t) = last_fired st (trig_id t)"
        using eval_trigger_other by blast+
    qed
    then have same: "find (\<lambda>t. \<not> is_fader (trig_cond t) \<and> trigger_fires p t ?st \<and> trig_macro t = mid) trs =
        find (\<lambda>t. \<not> is_fader (trig_cond t) \<and> trigger_fires p t st \<and> trig_macro t = mid) trs"
      by (intro find_cong) auto
    have d: "distinct (map trig_id trs)" using Cons.prems by simp
    have rest: "runs_of (eval_triggers p (tr # trs) st) mid = runs_of (eval_triggers p trs ?st) mid" using False by simp
    show ?thesis
    proof (cases "trigger_fires p tr st \<and> trig_macro tr = mid")
      case True
      then have "find (\<lambda>tr. \<not> is_fader (trig_cond tr) \<and> trigger_fires p tr st \<and> trig_macro tr = mid) (tr # trs) = Some tr"
        using False by simp
      moreover have r: "runs_of ?st mid = (if startable p mid (runs_of st) then Some (started_by tr) else runs_of st mid)"
        using True by (simp add: eval_trigger_runs)
      moreover have "\<not> startable p mid (runs_of ?st)"
        by (cases "startable p mid (runs_of st)") (simp_all add: startable_def r started_by_def)
      ultimately show ?thesis unfolding rest Cons.IH [OF d] by (simp split: option.split)
    next
      case quiet: False
      then have r: "runs_of ?st mid = runs_of st mid" by (auto simp: eval_trigger_runs)
      then have u: "startable p mid (runs_of ?st) = startable p mid (runs_of st)" by (simp add: startable_def)
      have f: "find (\<lambda>tr. \<not> is_fader (trig_cond tr) \<and> trigger_fires p tr st \<and> trig_macro tr = mid) (tr # trs) =
          find (\<lambda>tr. \<not> is_fader (trig_cond tr) \<and> trigger_fires p tr st \<and> trig_macro tr = mid) trs" using quiet by auto
      show ?thesis unfolding rest Cons.IH [OF d] same r u f ..
    qed
  qed
qed simp

lemma tick_runs:
  assumes "distinct (map trig_id (enabled p))"
  shows "runs_of (triggers_tick p st) mid =
     (case find (\<lambda>tr. trigger_fires p tr st \<and> trig_macro tr = mid) (polled p) of
        None \<Rightarrow> runs_of st mid
      | Some tr \<Rightarrow> if startable p mid (runs_of st) then Some (started_by tr) else runs_of st mid)"
proof -
  have "find P (filter Q xs) = find (\<lambda>x. Q x \<and> P x) xs" for P Q and xs :: "trigger list" by (induction xs) auto
  then show ?thesis using eval_triggers_runs [OF assms] by (simp add: triggers_tick_def Let_def polled_def)
qed

subsection \<open>Histories\<close>

text \<open>
  What happens to the runs between the passes: a user starts a macro, a run ends, somebody cancels one.  None of it is in the memory of the triggers.
\<close>

datatype event = Pass pass | Start "nat \<rightharpoonup> macro_row" nat string bool | Finish nat "string option" | Cancel nat

definition apply_event :: "event \<Rightarrow> poller \<Rightarrow> poller" where
  "apply_event ev st =
     (case ev of
        Pass p \<Rightarrow> triggers_tick p st
      | Start ms mid user allow \<Rightarrow> st\<lparr>runs_of := snd (run_macro ms mid user allow (runs_of st))\<rparr>
      | Finish mid err \<Rightarrow> st\<lparr>runs_of := snd (finish_run mid err (runs_of st))\<rparr>
      | Cancel mid \<Rightarrow> st\<lparr>runs_of := snd (cancel_run mid (runs_of st))\<rparr>)"

definition after_events :: "event list \<Rightarrow> poller" where
  "after_events evs = foldl (\<lambda>st ev. apply_event ev st) poller0 evs"

definition passes_of :: "event list \<Rightarrow> pass list" where
  "passes_of evs = [p. Pass p \<leftarrow> evs]"

text \<open>
  The last answer a trigger got since it was last enabled, read off the passes with the newest one first; a pass in
  which the evaluation raised has no answer.
\<close>

fun last_answer :: "pass list \<Rightarrow> nat \<Rightarrow> bool option" where
  "last_answer [] i = None"
| "last_answer (p # ps) i =
     (if i \<notin> trig_id ` set (polled p) then None
      else (case answer p i of Some b \<Rightarrow> Some b | None \<Rightarrow> last_answer ps i))"

definition rising_edge :: "pass list \<Rightarrow> pass \<Rightarrow> nat \<Rightarrow> bool" where
  "rising_edge ps p i \<longleftrightarrow> answer p i = Some True \<and> last_answer (rev ps) i = Some False"

lemma prev_after_events:
  "\<forall>q \<in> set (passes_of evs). distinct (map trig_id (enabled q)) \<Longrightarrow> prev (after_events evs) i = last_answer (rev (passes_of evs)) i"
proof (induction evs rule: rev_induct)
  case (snoc ev evs)
  have a: "after_events (evs @ [ev]) = apply_event ev (after_events evs)" by (simp add: after_events_def)
  have l: "passes_of (evs @ [ev]) = passes_of evs @ (case ev of Pass p \<Rightarrow> [p] | _ \<Rightarrow> [])"
    by (cases ev) (simp_all add: passes_of_def)
  have IH: "prev (after_events evs) i = last_answer (rev (passes_of evs)) i" using snoc by (simp add: l)
  show ?case
  proof (cases ev)
    case (Pass p)
    note a = a [unfolded Pass] and l = l [unfolded Pass]
    from Pass have p: "distinct (map trig_id (enabled p))" using snoc.prems by (simp add: l Pass)
    show ?thesis
    proof (cases "i \<in> trig_id ` set (polled p)")
      case True
      then obtain tr where "tr \<in> set (polled p)" "i = trig_id tr" by blast
      then show ?thesis using tick_at(1) [OF p, of tr "after_events evs"] IH
        by (auto simp: a l Pass apply_event_def split: option.split)
    next
      case False
      then show ?thesis using tick_absent(1) [OF False] by (simp add: a l Pass apply_event_def)
    qed
  next
    case (Start ms mid user allow)
    show ?thesis using IH by (simp add: Start a [unfolded Start] l [unfolded Start] apply_event_def)
  next
    case (Finish mid err)
    show ?thesis using IH by (simp add: Finish a [unfolded Finish] l [unfolded Finish] apply_event_def)
  next
    case (Cancel mid)
    show ?thesis using IH by (simp add: Cancel a [unfolded Cancel] l [unfolded Cancel] apply_event_def)
  qed
qed (simp add: after_events_def poller0_def passes_of_def)

end
