(* ===== verification/Macro_Properties.thy ===== *)
theory Macro_Properties
  imports Macro_Sound Macro_Triggers
begin

text \<open>
  The properties of the macros: the compilation of blocks into a graph (C38, C39, C11), the token interpreter (C40), the
  triggers (C10), and the two defects of the compilation (\<open>parallel_with_if_is_cut\<close>,
  \<open>nested_parallel_not_structured\<close>).
\<close>

subsection \<open>The concrete macros of the witnesses\<close>

text \<open>A world that writes down the names of the variables that are set, in which every condition holds.\<close>

definition log_world :: "string list world" where
  "log_world = \<lparr>w_leaf = (\<lambda>t p s. (None, s @ [case pget p ''name'' of JStr x \<Rightarrow> x | _ \<Rightarrow> []])),
     w_cond = (\<lambda>c s. (Inr True, s)), w_cancelled = (\<lambda>s. False), w_macro = (\<lambda>m s. None),
     w_pick = (\<lambda>n s. (0, s)), w_late = (\<lambda>s. (False, s))\<rparr>"

definition var_step :: "string \<Rightarrow> step" where
  "var_step x = SDo ''set_var'' [(''name'', JStr x)]"

definition branching :: "step list" where
  "branching = [SIf JNull JNull [var_step ''a''] [], var_step ''b'']"

definition fan_out :: "step list" where
  "fan_out = [SIf JNull (JStr ''hint'') [] [], SPar JNull [[var_step ''a''], [SIf JNull JNull [] [var_step ''b'']]]]"

definition nested_par :: "step list" where
  "nested_par = [SPar JNull [[SPar JNull [[var_step ''a''], [var_step ''b'']]], [var_step ''c'']]]"

definition par_with_if :: "step list" where
  "par_with_if = [SPar JNull [[SIf JNull JNull [var_step ''a''] []], [var_step ''b'']], var_step ''c'']"

subsection \<open>Compilation\<close>

text \<open>
  C26. Compiling blocks into a graph and converting the graph back gives the blocks again, with the normalisation of
  absent conditions and comments, whenever every \<open>parallel\<close> has at least two branches and no branch of a \<open>parallel\<close> starts
  with a \<open>parallel\<close>.
\<close>

theorem blocks_round_trip:
  assumes "convertible ss" and "known_types ss"
  shows "graph_to_blocks (blocks_to_graph ss) = Done (norm_blocks ss)"
  using assms by (rule graph_to_blocks_compiled)

theorem blocks_round_trip_witness:
  "graph_to_blocks (blocks_to_graph fan_out) =
     Done [SIf (JDict []) (JStr ''hint'') [] [],
           SPar JNull [[var_step ''a''], [SIf (JDict []) JNull [] [var_step ''b'']]]]"
proof -
  have "convertible fan_out" "known_types fan_out"
    by (simp_all add: fan_out_def var_step_def disableable_types_def)
  from blocks_round_trip [OF this] show ?thesis
    by (simp add: fan_out_def var_step_def norm_comment_def or_empty_def)
qed

text \<open>
  C27. A compiled macro without a \<open>parallel\<close> runs like its blocks: from the same state both engines leave the same state,
  and one of them fails exactly when the other does.
\<close>

theorem compiled_runs_alike:
  assumes "no_parallel ss" and "known_types ss" and "ss \<noteq> []"
  shows "let g = run_mgraph W k (Nodes (blocks_to_graph ss)) s; b = run_mgraph W k (Blocks ss) s
         in snd g = snd b \<and> (fst g = None \<longleftrightarrow> fst b = None)"
proof -
  obtain sub where ex: "depth_exec W k = exec_do W sub" by (simp add: depth_exec_def)
  have b: "run_mgraph W k (Blocks ss) s = straight W (depth_exec W k) ss s"
    by (simp add: run_mgraph_simps run_steps_straight [OF assms(1)])
  note g = run_graph_straight [OF assms(1,2) ex]
  show ?thesis
  proof (cases "w_cancelled W s")
    case True
    then have "straight W (depth_exec W k) ss s = (Some Cancelled, s)"
      using assms(1,3) by (cases "(W, depth_exec W k, ss, s)" rule: straight.cases) auto
    then show ?thesis using g(2) [OF True] by (simp add: b run_mgraph_simps(2) Let_def)
  next
    case False
    from g(1) [OF this] show ?thesis
      unfolding b run_mgraph_simps(2) Let_def by (auto split: prod.splits option.splits)
  qed
qed

theorem compiled_runs_alike_witness:
  "run_mgraph log_world max_depth (Blocks branching) [] = (None, [''a'', ''b'']) \<and>
   snd (run_mgraph log_world max_depth (Nodes (blocks_to_graph branching)) []) = [''a'', ''b''] \<and>
   fst (run_mgraph log_world max_depth (Nodes (blocks_to_graph branching)) []) = None"
proof -
  have b: "run_mgraph log_world max_depth (Blocks branching) [] = (None, [''a'', ''b''])" by code_simp
  have "no_parallel branching" "known_types branching" "branching \<noteq> []"
    by (simp_all add: branching_def var_step_def disableable_types_def)
  from compiled_runs_alike [OF this, of log_world max_depth "[]"] b show ?thesis by (simp add: Let_def)
qed

text \<open>
  C8. The graph that blocks compile to always passes \<open>validate_graph\<close>: distinct identifiers, known types, edges between
  known nodes that leave existing ports, an entry.
\<close>

theorem compiled_valid:
  assumes "known_types ss"
  shows "validate_graph (blocks_to_graph ss) = []"
  using assms by (rule blocks_to_graph_valid)

theorem compiled_valid_witness: "validate_graph (blocks_to_graph nested_par) = []"
  by (rule compiled_valid) (simp add: nested_par_def var_step_def disableable_types_def)

text \<open>
  A \<open>parallel\<close> whose branch holds an \<open>if\<close>: the join of the compiled graph expects one token for each of the two sides of
  the \<open>if\<close> and gets one, so it never fires, and the steps after the \<open>parallel\<close> are silently left out; the engine of the
  blocks does them.
\<close>

theorem parallel_with_if_is_cut:
  "run_mgraph log_world max_depth (Blocks par_with_if) [] = (None, [''a'', ''b'', ''c'']) \<and>
   run_mgraph log_world max_depth (Nodes (blocks_to_graph par_with_if)) [] = (None, [''a'', ''b''])"
proof
  show "run_mgraph log_world max_depth (Blocks par_with_if) [] = (None, [''a'', ''b'', ''c''])" by code_simp
  show "run_mgraph log_world max_depth (Nodes (blocks_to_graph par_with_if)) [] = (None, [''a'', ''b''])" by code_simp
qed

text \<open>
  A branch of a \<open>parallel\<close> that starts with a \<open>parallel\<close> shares the port of the outer one, and the compiled graph cannot
  be converted back.
\<close>

theorem nested_parallel_not_structured:
  "graph_to_blocks (blocks_to_graph nested_par) = Failed JoinAllOutside"
  by code_simp

subsection \<open>The token interpreter\<close>

text \<open>
  C28. A run of any graph ends, however its tokens are scheduled and whatever its steps answer: after a number of
  phases bounded by the thousand visits of every node no token is left.
\<close>

theorem graph_run_ends:
  "\<exists>k \<le> node_visits_max * length (gnodes g) * (length (gedges g) + 3) + length starts.
     fst (after_choices W ex g expect f k (map AtVisit starts, gst0, s)) = []"
  unfolding run_bound_start [symmetric] by (rule choices_end)

subsection \<open>Triggers\<close>

text \<open>
  C7. After any history of passes, runs started by users, ends and cancellations of runs, a pass starts a macro exactly when a trigger of it has a rising
  edge outside its cool-down (its condition holds now, and the last answer since it was enabled was that it did not) and the macro exists and does not run: the new run is
  the one of the first such trigger, every other macro is left as it was.  A trigger with such an edge is stamped, started or refused; no other is.
\<close>

theorem trigger_rising_edge:
  assumes d: "\<forall>q \<in> set (p # passes_of evs). distinct (map trig_id (enabled q))"
  defines "st \<equiv> after_events evs"
  defines "edge \<equiv> \<lambda>tr. rising_edge (passes_of evs) p (trig_id tr) \<and>
    cooled tr (clock p (trig_id tr)) (last_fired st (trig_id tr)) \<and> trig_macro tr \<noteq> 0"
  shows "runs_of (triggers_tick p st) mid =
      (case find (\<lambda>tr. edge tr \<and> trig_macro tr = mid) (polled p) of
         None \<Rightarrow> runs_of st mid
       | Some tr \<Rightarrow>
           if macros p mid \<noteq> None \<and> (\<forall>r. runs_of st mid = Some r \<longrightarrow> \<not> running r)
           then Some \<lparr>run_user = trigger_user tr, allow_system = False, running = True, cancel_set = False, run_error = None\<rparr>
           else runs_of st mid) \<and>
    (\<forall>tr \<in> set (polled p). last_fired (triggers_tick p st) (trig_id tr) =
       (if edge tr then Some (clock p (trig_id tr)) else last_fired st (trig_id tr)))"
proof -
  have e: "trigger_fires p tr st = edge tr" for tr
    using prev_after_events [of evs "trig_id tr"] d by (auto simp: trigger_fires_def edge_def rising_edge_def st_def)
  have p: "distinct (map trig_id (enabled p))" using d by simp
  have s: "startable p mid (runs_of st) \<longleftrightarrow> macros p mid \<noteq> None \<and> (\<forall>r. runs_of st mid = Some r \<longrightarrow> \<not> running r)"
    by (auto simp: startable_def split: option.split)
  show ?thesis
    using tick_runs [OF p, of st mid] tick_at(2) [OF p, of _ st] unfolding e s started_by_def by blast
qed

definition sensor :: trigger where
  "sensor = \<lparr>trig_id = 7, trig_name = ''on'', trig_cond = JDict [], cooldown_ms = 2000, trig_macro = 1\<rparr>"

definition sensor_pass :: "bool \<Rightarrow> rat \<Rightarrow> pass" where
  "sensor_pass b t =
     \<lparr>enabled = [sensor], answer = (\<lambda>_. Some b), clock = (\<lambda>_. t), macros = [1 \<mapsto> \<lparr>macro_name = ''m'', macro_graph = Blocks []\<rparr>]\<rparr>"

lemma sensor_edges:
  "find (\<lambda>tr. (rising_edge (passes_of [Pass (sensor_pass True 3), Pass (sensor_pass False 4)]) (sensor_pass True 5) (trig_id tr) \<and>
      cooled tr (clock (sensor_pass True 5) (trig_id tr)) (last_fired (after_events [Pass (sensor_pass True 3), Pass (sensor_pass False 4)]) (trig_id tr)) \<and>
      trig_macro tr \<noteq> 0) \<and> trig_macro tr = 1) (polled (sensor_pass True 5)) = Some sensor"
  "find (\<lambda>tr. (rising_edge (passes_of [Pass (sensor_pass False 3), Pass (sensor_pass True 4), Finish 1 None]) (sensor_pass True 9) (trig_id tr) \<and>
      cooled tr (clock (sensor_pass True 9) (trig_id tr))
        (last_fired (after_events [Pass (sensor_pass False 3), Pass (sensor_pass True 4), Finish 1 None]) (trig_id tr)) \<and>
      trig_macro tr \<noteq> 0) \<and> trig_macro tr = 1) (polled (sensor_pass True 9)) = None"
  by code_simp+

lemma sensor_runs:
  "runs_of (after_events [Pass (sensor_pass True 3), Pass (sensor_pass False 4)]) 1 = None"
  "map_option running (runs_of (after_events [Pass (sensor_pass False 3), Pass (sensor_pass True 4), Finish 1 None]) 1) = Some False"
  "macros (sensor_pass True 5) 1 \<noteq> None"
  by code_simp+

theorem trigger_rising_edge_witness:
  "runs_of (triggers_tick (sensor_pass True 5) (after_events [Pass (sensor_pass True 3), Pass (sensor_pass False 4)])) 1
     = Some \<lparr>run_user = ''trigger:on'', allow_system = False, running = True, cancel_set = False, run_error = None\<rparr> \<and>
   map_option running (runs_of (triggers_tick (sensor_pass True 9)
     (after_events [Pass (sensor_pass False 3), Pass (sensor_pass True 4), Finish 1 None])) 1) = Some False"
proof -
  have d: "\<forall>q \<in> set (sensor_pass True 5 # passes_of [Pass (sensor_pass True 3), Pass (sensor_pass False 4)]). distinct (map trig_id (enabled q))"
    "\<forall>q \<in> set (sensor_pass True 9 # passes_of [Pass (sensor_pass False 3), Pass (sensor_pass True 4), Finish 1 None]).
       distinct (map trig_id (enabled q))"
    by (simp_all add: passes_of_def sensor_pass_def)
  have "trigger_user sensor = ''trigger:on''" by code_simp
  then show ?thesis
    using trigger_rising_edge [OF d(1), of 1, THEN conjunct1] trigger_rising_edge [OF d(2), of 1, THEN conjunct1]
    unfolding sensor_edges option.case using sensor_runs by simp
qed

end
