(* ===== verification/Farm_State.thy ===== *)
theory Farm_State
  imports Json "HOL-Library.Product_Lexorder"
begin

text \<open>
  The state of the transcoding farm (\<open>app/transcode_farm.py\<close>): the tables \<open>farm_jobs\<close> and \<open>farm_members\<close>, the two
  dictionaries kept in memory (\<open>_member_state\<close>, \<open>_tasks\<close>), and what the farm reads of the rest of the orchestrator
  (containers, nodes, network shares).

  A column that may be \<open>NULL\<close> is an option.  The texts of errors are values of \<open>why\<close>: the code never
  reads them.  A time is a rational number of seconds, whichever clock it comes from.
\<close>

datatype jstatus = Pending | TransferIn | Running | TransferOut | Finished | Failed | Cancelled

datatype access = Direct | Stream | Copy

datatype src = Share int | Local int

datatype why =
    WText json
  | WHttp int
  | WFail
  | WNoAddress nat
  | WNet string
  | WBadReply
  | WAt string why
  | WShareRefused string why
  | WReceiveRefused string why
  | WOutputShareRefused why
  | WReturnRefused string why
  | WReturnFailed string
  | WReturnLost why
  | WCopyFailed string
  | WNotReceived why
  | WInterrupted
  | WGone nat
  | WUnreachable string "why option"
  | WJobLost string
  | WCancelledAt string
  | WReturnImpossible why

datatype binmark = Placed rat | PlaceFailed | PlaceLost

record job =
  j_id :: nat
  j_project :: "int option"
  j_src :: src
  j_path :: string
  j_type :: string
  j_params :: params
  j_outdir :: string
  j_priority :: int
  j_status :: jstatus
  j_access :: "access option"
  j_worker :: "nat option"
  j_worker_node :: "int option"
  j_worker_job :: "int option"
  j_server :: "nat option"
  j_token :: "string option"
  j_work_in :: "string option"
  j_work_out :: "string option"
  j_progress :: rat
  j_phase :: "string option"
  j_out_node :: "int option"
  j_out_path :: "string option"
  j_error :: "why option"
  j_info :: "params option"
  j_attempts :: nat
  j_lost :: "rat option"
  j_user :: "string option"
  j_created :: rat
  j_started :: "rat option"
  j_completed :: "rat option"
  j_proxy :: "(string \<times> string) option"
  j_storyboard :: "string option"
  j_asset :: "string option"
  j_bin :: "int option"
  j_bin_done :: "binmark option"

text \<open>\<open>node_id\<close> of the source, \<open>NULL\<close> for a share; \<open>j_proxy\<close> is \<open>proxy_asset\<close> with \<open>proxy_rel\<close>.\<close>

fun src_node :: "src \<Rightarrow> int option" where
  "src_node (Local n) = Some n"
| "src_node (Share g) = None"

text \<open>A container row as \<open>transcoders\<close> reads it; \<open>c_type\<close> is the \<open>type\<close> of its \<open>deploy_config\<close>.\<close>

record cont =
  c_vmid :: nat
  c_type :: string
  c_host :: string
  c_node :: "int option"
  c_project :: "int option"
  c_status :: string
  c_ip :: string

record tr =
  t_vmid :: nat
  t_host :: string
  t_node :: "int option"
  t_project :: "int option"
  t_status :: string
  t_ip :: string
  t_member :: bool

text \<open>An entry of \<open>_member_state\<close>: the last \<open>/state\<close> a transcoder answered.\<close>

record mstate =
  m_ok :: bool
  m_state :: params
  m_seen :: "rat option"
  m_error :: "why option"

text \<open>An entry of \<open>_tasks\<close>: the transfer in progress of a job.\<close>

datatype task =
    CopyIn
  | ReturnServer tr string "string list"
  | HostRunning
  | HostDone string
  | HostFailed why

text \<open>
  What other parts of the orchestrator hold: the containers, the nodes with their names, the connection of a granted share
  (\<open>storage._grants\<close>), the folder a share has in the containers of a project (\<open>container_entry\<close>), whether
  a node mounts a connection (\<open>node_has_conn\<close>), and the media folder of a project on a node.
\<close>

record ext =
  conts :: "cont list"
  nodes :: "(int \<times> string) list"
  grant_conn :: "int \<Rightarrow> int option"
  grant_entry :: "int \<Rightarrow> int option \<Rightarrow> string option"
  node_conn :: "int option \<Rightarrow> int \<Rightarrow> bool"
  media_dir :: "int option \<Rightarrow> int option \<Rightarrow> string"

record farm =
  jobs :: "job list"
  next_job :: nat
  members :: "(nat \<times> bool) list"
  mstates :: "nat \<rightharpoonup> mstate"
  tasks :: "nat \<rightharpoonup> task"
  farm_alerts :: "(nat \<times> nat \<times> why) list"
  env :: ext

definition max_attempts :: nat where
  "max_attempts = 3"

definition member_lost_s :: rat where
  "member_lost_s = 90"

definition bin_place_timeout_s :: rat where
  "bin_place_timeout_s = 1800"

definition work_dir :: string where
  "work_dir = ''.farm''"

definition active :: "jstatus list" where
  "active = [Pending, TransferIn, Running, TransferOut]"

definition finished :: "jstatus list" where
  "finished = [Finished, Failed, Cancelled]"

subsection \<open>The table of jobs\<close>

definition find_job :: "nat \<Rightarrow> farm \<Rightarrow> job option" where
  "find_job i s = find (\<lambda>j. j_id j = i) (jobs s)"

text \<open>
  \<open>_update\<close>: writes the columns when the job is in one of the expected statuses (\<open>[]\<close>: in any status)
  and says whether a row changed.
\<close>

definition expected :: "jstatus list \<Rightarrow> job \<Rightarrow> bool" where
  "expected ex j \<longleftrightarrow> ex = [] \<or> j_status j \<in> set ex"

definition upd_job :: "nat \<Rightarrow> jstatus list \<Rightarrow> (job \<Rightarrow> job) \<Rightarrow> farm \<Rightarrow> bool \<times> farm" where
  "upd_job i ex f s =
     (\<exists>j \<in> set (jobs s). j_id j = i \<and> expected ex j,
      s\<lparr>jobs := map (\<lambda>j. if j_id j = i \<and> expected ex j then f j else j) (jobs s)\<rparr>)"

definition rows_in :: "jstatus list \<Rightarrow> farm \<Rightarrow> job list" where
  "rows_in sts s = filter (\<lambda>j. j_status j \<in> set sts) (jobs s)"

text \<open>\<open>SELECT * FROM farm_jobs WHERE status='pending' ORDER BY priority DESC, id\<close>.\<close>

definition pending_queue :: "farm \<Rightarrow> job list" where
  "pending_queue s = sort_key (\<lambda>j. (- j_priority j, j_id j)) (rows_in [Pending] s)"

text \<open>The row an \<open>INSERT\<close> adds; \<open>AUTOINCREMENT\<close> never gives a number twice.\<close>

definition new_job :: "int option \<Rightarrow> src \<Rightarrow> string \<Rightarrow> string \<Rightarrow> params \<Rightarrow> string \<Rightarrow> int \<Rightarrow> string option \<Rightarrow> rat \<Rightarrow> job" where
  "new_job project source path jt ps out prio user now =
     \<lparr>j_id = 0, j_project = project, j_src = source, j_path = path, j_type = jt, j_params = ps, j_outdir = out,
      j_priority = prio, j_status = Pending, j_access = None, j_worker = None, j_worker_node = None,
      j_worker_job = None, j_server = None, j_token = None, j_work_in = None, j_work_out = None,
      j_progress = 0, j_phase = None, j_out_node = None, j_out_path = None, j_error = None, j_info = None,
      j_attempts = 0, j_lost = None, j_user = user, j_created = now, j_started = None, j_completed = None,
      j_proxy = None, j_storyboard = None, j_asset = None, j_bin = None, j_bin_done = None\<rparr>"

definition insert_job :: "job \<Rightarrow> farm \<Rightarrow> nat \<times> farm" where
  "insert_job j s =
     (next_job s, s\<lparr>jobs := jobs s @ [j\<lparr>j_id := next_job s\<rparr>], next_job := Suc (next_job s)\<rparr>)"

definition add_alert :: "nat \<Rightarrow> nat \<Rightarrow> why \<Rightarrow> farm \<Rightarrow> farm" where
  "add_alert i n w s = s\<lparr>farm_alerts := farm_alerts s @ [(i, n, w)]\<rparr>"

subsection \<open>Transcoders\<close>

text \<open>\<open>transcoders\<close>: every container of that type, with its membership.\<close>

definition tr_of :: "(nat \<times> bool) list \<Rightarrow> cont \<Rightarrow> tr" where
  "tr_of ms c = \<lparr>t_vmid = c_vmid c, t_host = c_host c, t_node = c_node c, t_project = c_project c,
     t_status = c_status c, t_ip = c_ip c,
     t_member = (case map_of ms (c_vmid c) of None \<Rightarrow> False | Some b \<Rightarrow> b)\<rparr>"

definition transcoders :: "farm \<Rightarrow> tr list" where
  "transcoders s = map (tr_of (members s)) (filter (\<lambda>c. c_type c = ''transcoder'') (conts (env s)))"

definition tr_by_vmid :: "tr list \<Rightarrow> nat option \<Rightarrow> tr option" where
  "tr_by_vmid ts v = (case v of None \<Rightarrow> None | Some i \<Rightarrow> find (\<lambda>t. t_vmid t = i) ts)"

definition state_of :: "farm \<Rightarrow> tr \<Rightarrow> params" where
  "state_of s t = (case mstates s (t_vmid t) of None \<Rightarrow> [] | Some m \<Rightarrow> m_state m)"

definition farm_capable :: "farm \<Rightarrow> tr \<Rightarrow> bool" where
  "farm_capable s t =
     (case mstates s (t_vmid t) of
        None \<Rightarrow> False
      | Some m \<Rightarrow> m_ok m \<and> truthy (pget (m_state m) ''farm_capable''))"

text \<open>\<open>_free_slots\<close>, \<open>None\<close> when a number of the state is not one; \<open>reserved\<close> are the places promised in this tick.\<close>

definition int_or :: "json \<Rightarrow> int \<Rightarrow> int option" where
  "int_or v d = (if truthy v then json_int v else Some d)"

definition free_slots :: "farm \<Rightarrow> (nat \<Rightarrow> int) \<Rightarrow> tr \<Rightarrow> int option" where
  "free_slots s reserved t =
     (case int_or (pget (state_of s t) ''max_concurrent'') 1 of
        None \<Rightarrow> None
      | Some limit \<Rightarrow>
          (case int_or (pget (state_of s t) ''jobs_running'') 0 of
             None \<Rightarrow> None
           | Some r \<Rightarrow>
               (case int_or (pget (state_of s t) ''jobs_pending'') 0 of
                  None \<Rightarrow> None
                | Some p \<Rightarrow> Some (limit - (r + p) - reserved (t_vmid t)))))"

text \<open>\<open>_able\<close>: a storyboard alone needs a transcoder that can make one.\<close>

definition able :: "farm \<Rightarrow> tr \<Rightarrow> job \<Rightarrow> bool" where
  "able s t j = (j_type j = ''storyboard'' \<longrightarrow> truthy (pget (state_of s t) ''storyboard''))"

end
