(* ===== verification/Farm_Prog.thy ===== *)
theory Farm_Prog
  imports Farm_State
begin

text \<open>
  The programs of the farm as interaction trees.  The dispatcher, the transfers and the requests of the users run in
  threads of their own; a tree says what a thread does between two points where another thread can run: an atomic
  action on the shared state (one statement on the data base, one block under \<open>_lock\<close>), a question to the outside world,
  or the start of a thread.  Exceptions are leaves, \<open>try_p\<close> is \<open>try ... except\<close>.

  \<open>advance\<close> makes one step of a tree; \<open>guar\<close> says what every atomic action of a tree keeps, whatever
  the world answers and whatever the other threads do in between; \<open>behaves\<close> collects the calls along a path of a tree.
\<close>

subsection \<open>The outside world\<close>

text \<open>The requests to the control port of a transcoder, and what comes back.\<close>

datatype req =
    GetState
  | Submit string string params "string option"
  | ShareFile string "string option"
  | Unshare string
  | Receive string string
  | ReceiveState string
  | JobState "int option"
  | CancelJob int
  | Fetch string string string "string option"
  | FetchState string
  | RemoveFile string

datatype resp = NetErr string | Reply int params

text \<open>
  The commands run on the host of a node: sending a file to an address, or fetching an address into a file without ever
  overwriting another file.  A command that ran answers its return code, and its last line or its diagnostic.
\<close>

datatype hcmd = Upload string string | Download string "string option" string

datatype hres = HostErr string | Ran int string

text \<open>The questions to the media registry, and the notices to it that a job ended.\<close>

datatype mreq = OutputAsset "int option" string | BinAdd int string | AssetSource string "string option"

datatype mres = MediaErr | MediaNone | MediaAsset string | MediaCopy int string

datatype notice = IndexSoon int | ProxyDone nat | StoryboardDone nat

datatype exn = Rejected why | Failure why | ValueError | LookupError

text \<open>The threads that transfers start.\<close>

datatype thread = CopyThread job tr | ReturnThread job string "string option" string

subsection \<open>Programs\<close>

datatype 'a prog =
    Ret 'a
  | Raise exn
  | Atom "farm \<Rightarrow> 'a prog \<times> farm"
  | Now "rat \<Rightarrow> 'a prog"
  | Fresh "string \<Rightarrow> 'a prog"
  | Call tr req "resp \<Rightarrow> 'a prog"
  | Host "int option" hcmd "hres \<Rightarrow> 'a prog"
  | Probe "int option" string "params \<Rightarrow> 'a prog"
  | Media mreq "mres \<Rightarrow> 'a prog"
  | Notice notice "'a prog"
  | Spawn thread "'a prog"

primrec bind :: "'a prog \<Rightarrow> ('a \<Rightarrow> 'b prog) \<Rightarrow> 'b prog" where
  "bind (Ret x) k = k x"
| "bind (Raise e) k = Raise e"
| "bind (Atom f) k = Atom (map_prod (\<lambda>p. bind p k) id \<circ> f)"
| "bind (Now g) k = Now ((\<lambda>p. bind p k) \<circ> g)"
| "bind (Fresh g) k = Fresh ((\<lambda>p. bind p k) \<circ> g)"
| "bind (Call t q g) k = Call t q ((\<lambda>p. bind p k) \<circ> g)"
| "bind (Host n c g) k = Host n c ((\<lambda>p. bind p k) \<circ> g)"
| "bind (Probe n x g) k = Probe n x ((\<lambda>p. bind p k) \<circ> g)"
| "bind (Media q g) k = Media q ((\<lambda>p. bind p k) \<circ> g)"
| "bind (Notice n p) k = Notice n (bind p k)"
| "bind (Spawn t p) k = Spawn t (bind p k)"

text \<open>\<open>try: p except Exception as e: h(e)\<close>.\<close>

primrec try_p :: "'a prog \<Rightarrow> (exn \<Rightarrow> 'a prog) \<Rightarrow> 'a prog" where
  "try_p (Ret x) h = Ret x"
| "try_p (Raise e) h = h e"
| "try_p (Atom f) h = Atom (map_prod (\<lambda>p. try_p p h) id \<circ> f)"
| "try_p (Now g) h = Now ((\<lambda>p. try_p p h) \<circ> g)"
| "try_p (Fresh g) h = Fresh ((\<lambda>p. try_p p h) \<circ> g)"
| "try_p (Call t q g) h = Call t q ((\<lambda>p. try_p p h) \<circ> g)"
| "try_p (Host n c g) h = Host n c ((\<lambda>p. try_p p h) \<circ> g)"
| "try_p (Probe n x g) h = Probe n x ((\<lambda>p. try_p p h) \<circ> g)"
| "try_p (Media q g) h = Media q ((\<lambda>p. try_p p h) \<circ> g)"
| "try_p (Notice n p) h = Notice n (try_p p h)"
| "try_p (Spawn t p) h = Spawn t (try_p p h)"

text \<open>The induction over a tree, with the rest of the program after an action in readable form.\<close>

lemma prog_induct [case_names Ret Raise Atom Now Fresh Call Host Probe Media Notice Spawn]:
  assumes "\<And>x. P (Ret x)" and "\<And>e. P (Raise e)"
    and "\<And>f. (\<And>s. P (fst (f s))) \<Longrightarrow> P (Atom f)"
    and "\<And>k. (\<And>x. P (k x)) \<Longrightarrow> P (Now k)"
    and "\<And>k. (\<And>x. P (k x)) \<Longrightarrow> P (Fresh k)"
    and "\<And>t q k. (\<And>x. P (k x)) \<Longrightarrow> P (Call t q k)"
    and "\<And>n c k. (\<And>x. P (k x)) \<Longrightarrow> P (Host n c k)"
    and "\<And>n y k. (\<And>x. P (k x)) \<Longrightarrow> P (Probe n y k)"
    and "\<And>q k. (\<And>x. P (k x)) \<Longrightarrow> P (Media q k)"
    and "\<And>n p. P p \<Longrightarrow> P (Notice n p)"
    and "\<And>t p. P p \<Longrightarrow> P (Spawn t p)"
  shows "P p"
proof (induction p)
  case (Atom f)
  have "P (fst (f s))" for s
    by (rule Atom [of "f s"]) (simp, cases "f s", simp add: fsts.intros)
  then show ?case by (rule assms(3))
qed (auto intro: assms)

definition attempt :: "'a prog \<Rightarrow> (exn + 'a) prog" where
  "attempt p = try_p (bind p (\<lambda>x. Ret (Inr x))) (\<lambda>e. Ret (Inl e))"

text \<open>\<open>try: p finally: q\<close>.\<close>

definition finally_p :: "'a prog \<Rightarrow> unit prog \<Rightarrow> 'a prog" where
  "finally_p p q =
     bind (attempt p) (\<lambda>r. bind q (\<lambda>_. case r of Inl e \<Rightarrow> Raise e | Inr x \<Rightarrow> Ret x))"

definition atom :: "(farm \<Rightarrow> 'a \<times> farm) \<Rightarrow> 'a prog" where
  "atom f = Atom (map_prod Ret id \<circ> f)"

definition get :: "(farm \<Rightarrow> 'a) \<Rightarrow> 'a prog" where
  "get f = atom (\<lambda>s. (f s, s))"

definition modify :: "(farm \<Rightarrow> farm) \<Rightarrow> unit prog" where
  "modify f = atom (\<lambda>s. ((), f s))"

definition update_p :: "nat \<Rightarrow> jstatus list \<Rightarrow> (job \<Rightarrow> job) \<Rightarrow> bool prog" where
  "update_p i ex f = atom (upd_job i ex f)"

definition task_get :: "nat \<Rightarrow> task option prog" where
  "task_get i = get (\<lambda>s. tasks s i)"

definition task_put :: "nat \<Rightarrow> task \<Rightarrow> unit prog" where
  "task_put i t = modify (\<lambda>s. s\<lparr>tasks := (tasks s)(i \<mapsto> t)\<rparr>)"

definition task_pop :: "nat \<Rightarrow> unit prog" where
  "task_pop i = modify (\<lambda>s. s\<lparr>tasks := (tasks s)(i := None)\<rparr>)"

definition when_p :: "bool \<Rightarrow> unit prog \<Rightarrow> unit prog" where
  "when_p b p = (if b then p else Ret ())"

definition lift_opt :: "why \<Rightarrow> 'a option \<Rightarrow> 'a prog" where
  "lift_opt w v = (case v of None \<Rightarrow> Raise (Failure w) | Some x \<Rightarrow> Ret x)"

primrec for_p :: "'a list \<Rightarrow> ('a \<Rightarrow> unit prog) \<Rightarrow> unit prog" where
  "for_p [] body = Ret ()"
| "for_p (x # xs) body = bind (body x) (\<lambda>_. for_p xs body)"

text \<open>\<open>_call\<close> raises without an address and on a network error; \<open>_call_quiet\<close> ignores both.\<close>

definition call_p :: "tr \<Rightarrow> req \<Rightarrow> (int \<times> params) prog" where
  "call_p t q =
     (if t_ip t = [] then Raise (Failure (WNoAddress (t_vmid t)))
      else Call t q (\<lambda>r. case r of NetErr e \<Rightarrow> Raise (Failure (WNet e)) | Reply c d \<Rightarrow> Ret (c, d)))"

definition call_quiet :: "tr \<Rightarrow> req \<Rightarrow> unit prog" where
  "call_quiet t q = try_p (bind (call_p t q) (\<lambda>_. Ret ())) (\<lambda>_. Ret ())"

definition reason :: "exn \<Rightarrow> why" where
  "reason e = (case e of Rejected w \<Rightarrow> w | Failure w \<Rightarrow> w | _ \<Rightarrow> WBadReply)"

definition error_of :: "params \<Rightarrow> int \<Rightarrow> why" where
  "error_of d c = (if truthy (pget d ''error'') then WText (pget d ''error'') else WHttp c)"

subsection \<open>One step of a program\<close>

text \<open>What the world answers to the question a program waits for; \<open>Silent\<close> where it asks nothing.\<close>

datatype ans =
    Silent
  | ATime rat
  | AText string
  | AResp resp
  | AHost hres
  | AProbe params
  | AMedia mres

fun advance :: "ans \<Rightarrow> 'a prog \<Rightarrow> farm \<Rightarrow> ('a prog \<times> farm \<times> thread option) option" where
  "advance Silent (Atom f) s = (case f s of (p, s') \<Rightarrow> Some (p, s', None))"
| "advance Silent (Notice n p) s = Some (p, s, None)"
| "advance Silent (Spawn t p) s = Some (p, s, Some t)"
| "advance (ATime x) (Now k) s = Some (k x, s, None)"
| "advance (AText x) (Fresh k) s = Some (k x, s, None)"
| "advance (AResp x) (Call t q k) s = Some (k x, s, None)"
| "advance (AHost x) (Host n c k) s = Some (k x, s, None)"
| "advance (AProbe x) (Probe n y k) s = Some (k x, s, None)"
| "advance (AMedia x) (Media q k) s = Some (k x, s, None)"
| "advance _ _ _ = None"

subsection \<open>What the atomic actions of a program keep\<close>

text \<open>
  \<open>guar I R D Q p\<close>: in a state in which \<open>I\<close> holds every atomic action of \<open>p\<close> makes a transition of \<open>R\<close>, the threads
  it starts satisfy \<open>D\<close>, and what it returns satisfies \<open>Q\<close>.
\<close>

primrec guar :: "(farm \<Rightarrow> bool) \<Rightarrow> (farm \<Rightarrow> farm \<Rightarrow> bool) \<Rightarrow> (thread \<Rightarrow> bool) \<Rightarrow> ('a \<Rightarrow> bool) \<Rightarrow> 'a prog \<Rightarrow> bool" where
  "guar I R D Q (Ret x) = Q x"
| "guar I R D Q (Raise e) = True"
| "guar I R D Q (Atom f) =
     (\<forall>s. I s \<longrightarrow> R s (snd (f s)) \<and> fst ((map_prod (guar I R D Q) id \<circ> f) s))"
| "guar I R D Q (Now k) = (\<forall>x. (guar I R D Q \<circ> k) x)"
| "guar I R D Q (Fresh k) = (\<forall>x. (guar I R D Q \<circ> k) x)"
| "guar I R D Q (Call t q k) = (\<forall>x. (guar I R D Q \<circ> k) x)"
| "guar I R D Q (Host n c k) = (\<forall>x. (guar I R D Q \<circ> k) x)"
| "guar I R D Q (Probe n y k) = (\<forall>x. (guar I R D Q \<circ> k) x)"
| "guar I R D Q (Media q k) = (\<forall>x. (guar I R D Q \<circ> k) x)"
| "guar I R D Q (Notice n p) = guar I R D Q p"
| "guar I R D Q (Spawn t p) = (D t \<and> guar I R D Q p)"

named_theorems guar_rules \<open>rules that follow the structure of a program\<close>

lemma guar_Ret [guar_rules]: "Q x \<Longrightarrow> guar I R D Q (Ret x)"
  by simp

lemma guar_Raise [guar_rules]: "guar I R D Q (Raise e)"
  by simp

lemma guar_Now [guar_rules]: "(\<And>x. guar I R D Q (k x)) \<Longrightarrow> guar I R D Q (Now k)"
  by simp

lemma guar_Fresh [guar_rules]: "(\<And>x. guar I R D Q (k x)) \<Longrightarrow> guar I R D Q (Fresh k)"
  by simp

lemma guar_Host [guar_rules]: "(\<And>x. guar I R D Q (k x)) \<Longrightarrow> guar I R D Q (Host n c k)"
  by simp

lemma guar_Probe [guar_rules]: "(\<And>x. guar I R D Q (k x)) \<Longrightarrow> guar I R D Q (Probe n y k)"
  by simp

lemma guar_Media [guar_rules]: "(\<And>x. guar I R D Q (k x)) \<Longrightarrow> guar I R D Q (Media q k)"
  by simp

lemma guar_Notice [guar_rules]: "guar I R D Q p \<Longrightarrow> guar I R D Q (Notice n p)"
  by simp

lemma guar_Spawn [guar_rules]: "D t \<Longrightarrow> guar I R D Q p \<Longrightarrow> guar I R D Q (Spawn t p)"
  by simp

lemma guar_bind:
  "guar I R D P p \<Longrightarrow> (\<And>x. P x \<Longrightarrow> guar I R D Q (k x)) \<Longrightarrow> guar I R D Q (bind p k)"
  by (induction p rule: prog_induct) auto

lemma guar_try [guar_rules]:
  "guar I R D Q p \<Longrightarrow> (\<And>e. guar I R D Q (h e)) \<Longrightarrow> guar I R D Q (try_p p h)"
  by (induction p rule: prog_induct) auto

lemma guar_weaken: "guar I R D P p \<Longrightarrow> (\<And>x. P x \<Longrightarrow> Q x) \<Longrightarrow> guar I R D Q p"
  by (induction p rule: prog_induct) auto

lemma guar_atom:
  "(\<And>s. I s \<Longrightarrow> R s (snd (f s)) \<and> Q (fst (f s))) \<Longrightarrow> guar I R D Q (atom f)"
  by (simp add: atom_def)

lemma guar_get: "(\<And>s. I s \<Longrightarrow> R s s \<and> Q (f s)) \<Longrightarrow> guar I R D Q (get f)"
  unfolding get_def by (rule guar_atom) simp

lemma guar_modify: "(\<And>s. I s \<Longrightarrow> R s (f s)) \<Longrightarrow> Q () \<Longrightarrow> guar I R D Q (modify f)"
  unfolding modify_def by (rule guar_atom) simp

lemma guar_attempt:
  "guar I R D Q p \<Longrightarrow> guar I R D (\<lambda>r. case r of Inl e \<Rightarrow> True | Inr x \<Rightarrow> Q x) (attempt p)"
  unfolding attempt_def by (rule guar_try) (auto intro: guar_bind)

lemma guar_finally [guar_rules]:
  "guar I R D Q p \<Longrightarrow> guar I R D (\<lambda>_. True) q \<Longrightarrow> guar I R D Q (finally_p p q)"
  unfolding finally_p_def
  by (rule guar_bind, erule guar_attempt) (auto intro: guar_bind split: sum.split)

lemma guar_when [guar_rules]: "(b \<Longrightarrow> guar I R D Q p) \<Longrightarrow> Q () \<Longrightarrow> guar I R D Q (when_p b p)"
  by (simp add: when_p_def)

lemma guar_lift: "(\<And>x. v = Some x \<Longrightarrow> Q x) \<Longrightarrow> guar I R D Q (lift_opt w v)"
  by (auto simp: lift_opt_def split: option.split)

lemma guar_for [guar_rules]:
  "(\<And>x. x \<in> set xs \<Longrightarrow> guar I R D (\<lambda>_. True) (body x)) \<Longrightarrow> guar I R D (\<lambda>_. True) (for_p xs body)"
  by (induction xs) (auto intro: guar_bind)

lemma guar_call: "guar I R D (\<lambda>_. True) (call_p t q)"
  by (auto simp: call_p_def split: resp.split)

lemma guar_quiet: "guar I R D (\<lambda>_. True) (call_quiet t q)"
  unfolding call_quiet_def by (rule guar_try) (auto intro: guar_bind [OF guar_call])

lemma guar_advance:
  assumes "guar I R D Q p" and "I s" and "advance a p s = Some (p', s', th)"
  shows "guar I R D Q p' \<and> (s' = s \<or> R s s') \<and> (\<forall>t. th = Some t \<longrightarrow> D t)"
  using assms by (cases "(a, p, s)" rule: advance.cases) (auto simp: map_prod_def split: prod.splits)

subsection \<open>The calls along a path of a program\<close>

text \<open>
  \<open>behaves I p cs r\<close>: there is a run of \<open>p\<close> in which \<open>I\<close> holds whenever it acts on the shared state, that
  sends the requests \<open>cs\<close> and ends in \<open>r\<close>.
\<close>

inductive behaves :: "(farm \<Rightarrow> bool) \<Rightarrow> 'a prog \<Rightarrow> (tr \<times> req) list \<Rightarrow> exn + 'a \<Rightarrow> bool" for I where
  behaves_Ret: "behaves I (Ret x) [] (Inr x)"
| behaves_Raise: "behaves I (Raise e) [] (Inl e)"
| behaves_Atom: "I s \<Longrightarrow> behaves I (fst (f s)) cs r \<Longrightarrow> behaves I (Atom f) cs r"
| behaves_Now: "behaves I (k x) cs r \<Longrightarrow> behaves I (Now k) cs r"
| behaves_Fresh: "behaves I (k x) cs r \<Longrightarrow> behaves I (Fresh k) cs r"
| behaves_Call: "behaves I (k x) cs r \<Longrightarrow> behaves I (Call t q k) ((t, q) # cs) r"
| behaves_Host: "behaves I (k x) cs r \<Longrightarrow> behaves I (Host n c k) cs r"
| behaves_Probe: "behaves I (k x) cs r \<Longrightarrow> behaves I (Probe n y k) cs r"
| behaves_Media: "behaves I (k x) cs r \<Longrightarrow> behaves I (Media q k) cs r"
| behaves_Notice: "behaves I p cs r \<Longrightarrow> behaves I (Notice n p) cs r"
| behaves_Spawn: "behaves I p cs r \<Longrightarrow> behaves I (Spawn t p) cs r"

inductive_cases behaves_RetE [elim!]: "behaves I (Ret x) cs r"
inductive_cases behaves_RaiseE [elim!]: "behaves I (Raise e) cs r"
inductive_cases behaves_AtomE: "behaves I (Atom f) cs r"
inductive_cases behaves_NowE [elim!]: "behaves I (Now k) cs r"
inductive_cases behaves_FreshE [elim!]: "behaves I (Fresh k) cs r"
inductive_cases behaves_CallE: "behaves I (Call t q k) cs r"
inductive_cases behaves_HostE [elim!]: "behaves I (Host n c k) cs r"
inductive_cases behaves_ProbeE [elim!]: "behaves I (Probe n y k) cs r"
inductive_cases behaves_MediaE [elim!]: "behaves I (Media q k) cs r"
inductive_cases behaves_NoticeE [elim!]: "behaves I (Notice n p) cs r"
inductive_cases behaves_SpawnE [elim!]: "behaves I (Spawn t p) cs r"

lemma behaves_bindE:
  assumes "behaves I (bind p k) cs r"
  obtains (stops) e where "behaves I p cs (Inl e)" "r = Inl e"
    | (goes) x as bs where "behaves I p as (Inr x)" "behaves I (k x) bs r" "cs = as @ bs"
proof -
  have "(\<exists>e. behaves I p cs (Inl e) \<and> r = Inl e) \<or> (\<exists>x as bs. behaves I p as (Inr x) \<and> behaves I (k x) bs r \<and> cs = as @ bs)"
    using assms
  proof (induction p arbitrary: cs rule: prog_induct)
    case (Ret x)
    then show ?case by (intro disjI2 exI [of _ x] exI [of _ "[]"] exI [of _ cs]) (simp add: behaves_Ret)
  next
    case (Raise e)
    then show ?case by (auto intro: behaves_Raise)
  next
    case (Atom f)
    then obtain s where s: "I s" and q: "behaves I (bind (fst (f s)) k) cs r"
      by (auto elim!: behaves_AtomE)
    from Atom.IH [OF q] s show ?case by (metis behaves_Atom)
  next
    case (Now g)
    then obtain x where q: "behaves I (bind (g x) k) cs r" by auto
    from Now.IH [OF q] show ?case by (metis behaves_Now)
  next
    case (Fresh g)
    then obtain x where q: "behaves I (bind (g x) k) cs r" by auto
    from Fresh.IH [OF q] show ?case by (metis behaves_Fresh)
  next
    case (Call t q g)
    then obtain x cs' where c: "cs = (t, q) # cs'" and q: "behaves I (bind (g x) k) cs' r"
      by (auto elim!: behaves_CallE)
    from Call.IH [OF q] show ?case unfolding c by (metis append_Cons behaves_Call)
  next
    case (Host n c g)
    then obtain x where q: "behaves I (bind (g x) k) cs r" by auto
    from Host.IH [OF q] show ?case by (metis behaves_Host)
  next
    case (Probe n y g)
    then obtain x where q: "behaves I (bind (g x) k) cs r" by auto
    from Probe.IH [OF q] show ?case by (metis behaves_Probe)
  next
    case (Media q g)
    then obtain x where q: "behaves I (bind (g x) k) cs r" by auto
    from Media.IH [OF q] show ?case by (metis behaves_Media)
  next
    case (Notice n p)
    then have q: "behaves I (bind p k) cs r" by auto
    from Notice.IH [OF q] show ?case by (metis behaves_Notice)
  next
    case (Spawn t p)
    then have q: "behaves I (bind p k) cs r" by auto
    from Spawn.IH [OF q] show ?case by (metis behaves_Spawn)
  qed
  then show ?thesis using that by blast
qed

end
