(* ===== verification/Farm_Paths.thy ===== *)
theory Farm_Paths
  imports Json
begin

text \<open>
  Paths and priorities as the farm reads them from its users: the functions of \<open>posixpath\<close> it calls, \<open>_clean_rel\<close>, and
  \<open>parse_priority\<close>.
\<close>

subsection \<open>posixpath\<close>

definition slash :: char where
  "slash = CHR ''/''"

definition basename :: "string \<Rightarrow> string" where
  "basename p = last (split_char slash p)"

definition rstrip_slash :: "string \<Rightarrow> string" where
  "rstrip_slash p = rev (dropWhile (\<lambda>c. c = slash) (rev p))"

definition dirname :: "string \<Rightarrow> string" where
  "dirname p =
     (let h = rev (dropWhile (\<lambda>c. c \<noteq> slash) (rev p))
      in if \<forall>c \<in> set h. c = slash then h else rstrip_slash h)"

definition path_join :: "string \<Rightarrow> string \<Rightarrow> string" where
  "path_join a b =
     (if b \<noteq> [] \<and> hd b = slash then b
      else if a = [] \<or> last a = slash then a @ b
      else a @ slash # b)"

text \<open>\<open>normpath\<close> of a path that begins with a slash: exactly two leading slashes are kept.\<close>

fun norm_parts :: "string list \<Rightarrow> string list \<Rightarrow> string list" where
  "norm_parts acc [] = rev acc"
| "norm_parts acc (c # cs) =
     (if c = [] \<or> c = ''.'' then norm_parts acc cs
      else if c = ''..'' then norm_parts (drop 1 acc) cs
      else norm_parts (c # acc) cs)"

definition normpath_abs :: "string \<Rightarrow> string" where
  "normpath_abs p =
     (if take 2 p = ''//'' \<and> take 3 p \<noteq> ''///'' then ''//'' else ''/'') @ join_with ''/'' (norm_parts [] (split_char slash p))"

subsection \<open>_clean_rel\<close>

text \<open>\<open>None\<close> where the code raises \<open>ValueError\<close>.\<close>

definition clean_rel :: "string \<Rightarrow> string option" where
  "clean_rel path =
     (let raw = py_strip path
      in if ''..'' \<in> set (split_char slash (map (\<lambda>c. if c = CHR 0x5C then slash else c) raw)) then None
         else
           (let p = dropWhile (\<lambda>c. c = slash) (normpath_abs (slash # raw))
            in if p = [] \<or> p = ''.'' \<or> take 2 p = ''..'' then None
               else if \<exists>part \<in> set (split_char slash p). take 1 part = ''.'' then None
               else Some p))"

subsection \<open>Priorities\<close>

definition priorities :: "(string \<times> int) list" where
  "priorities = [(''urgent'', 20), (''high'', 10), (''normal'', 0), (''low'', -10)]"

definition priority_name :: "int \<Rightarrow> string" where
  "priority_name n =
     (case map_of (map (\<lambda>(k, v). (v, k)) priorities) n of None \<Rightarrow> ''normal'' | Some k \<Rightarrow> k)"

definition parse_priority :: "string option \<Rightarrow> int option" where
  "parse_priority v =
     (case v of None \<Rightarrow> Some 0
      | Some x \<Rightarrow>
          if x = [] then Some 0
          else
            (let s = py_lower (py_strip x)
             in case map_of priorities s of Some n \<Rightarrow> Some n
                | None \<Rightarrow>
                    (case py_int s of None \<Rightarrow> None
                     | Some n \<Rightarrow> if n \<in> snd ` set priorities then Some n else None)))"

subsection \<open>A cleaned path stays below its root\<close>

lemma join_parts_split:
  "xs \<noteq> [] \<Longrightarrow> \<forall>x \<in> set xs. slash \<notin> set x \<Longrightarrow> split_char slash (join_with ''/'' xs) = xs"
  using split_join [of xs slash] by (simp add: slash_def)

lemma split_char_no_sep: "x \<in> set (split_char sep s) \<Longrightarrow> sep \<notin> set x"
  by (induction s arbitrary: x) (auto split: if_splits list.splits)

lemma norm_parts_set:
  "x \<in> set (norm_parts acc cs) \<Longrightarrow> x \<in> set acc \<or> x \<in> set cs \<and> x \<noteq> [] \<and> x \<noteq> ''.'' \<and> x \<noteq> ''..''"
  by (induction acc cs rule: norm_parts.induct) (auto split: if_splits dest: in_set_dropD)

lemma dropWhile_slash_join:
  "\<forall>x \<in> set xs. x \<noteq> [] \<and> slash \<notin> set x \<Longrightarrow> dropWhile (\<lambda>c. c = slash) (join_with ''/'' xs) = join_with ''/'' xs"
proof (cases xs rule: list.exhaust)
  case (Cons x ys)
  assume a: "\<forall>x \<in> set xs. x \<noteq> [] \<and> slash \<notin> set x"
  then obtain c cs where "x = c # cs" "c \<noteq> slash" using Cons by (cases x) auto
  then show ?thesis using Cons by (cases ys) simp_all
qed simp

lemma clean_rel_parts:
  assumes "clean_rel path = Some p"
  obtains xs where "xs \<noteq> []" "split_char slash p = xs" "p = join_with ''/'' xs"
    "\<forall>x \<in> set xs. x \<noteq> [] \<and> slash \<notin> set x \<and> x \<noteq> ''..'' \<and> take 1 x \<noteq> ''.''"
proof -
  define xs where "xs = norm_parts [] (split_char slash (slash # py_strip path))"
  have xs: "\<forall>x \<in> set xs. x \<noteq> [] \<and> slash \<notin> set x \<and> x \<noteq> ''..''"
    using norm_parts_set [of _ "[]" "split_char slash (slash # py_strip path)"] split_char_no_sep
    unfolding xs_def by fastforce
  have "dropWhile (\<lambda>c. c = slash) (normpath_abs (slash # py_strip path)) = join_with ''/'' xs"
    using dropWhile_slash_join [of xs] xs unfolding normpath_abs_def xs_def [symmetric]
    by (auto simp: slash_def)
  then have p: "p = join_with ''/'' xs" and ne: "p \<noteq> []"
    and hid: "\<forall>x \<in> set (split_char slash p). take 1 x \<noteq> ''.''"
    using assms by (auto simp: clean_rel_def Let_def split: if_splits)
  have "xs \<noteq> []" using p ne by auto
  then have "split_char slash p = xs" using join_parts_split [of xs] xs p by auto
  then show ?thesis using that [of xs] p xs hid \<open>xs \<noteq> []\<close> by auto
qed

end
