(* ===== verification/Farm_Dispatch.thy ===== *)
theory Farm_Dispatch
  imports Farm_Prog Farm_Paths
begin

text \<open>
  How the farm confides a job to a transcoder: which transcoders can take it and how each of them reads the source
  (\<open>_candidates\<close>), the request (\<open>_worker_params\<close>, \<open>_submit_to_worker\<close>), \<open>_dispatch\<close> itself, and the way back
  to the queue (\<open>_requeue\<close>, \<open>_cleanup\<close>).
\<close>

definition in_work_dir :: "string \<Rightarrow> nat \<Rightarrow> string" where
  "in_work_dir d i = work_dir @ ''/'' @ d @ ''/'' @ str_nat i"

definition base_url :: "tr \<Rightarrow> string" where
  "base_url t = ''http://'' @ t_ip t @ '':8082''"

definition file_url :: "tr \<Rightarrow> string \<Rightarrow> string" where
  "file_url t tok = base_url t @ ''/farm/file/'' @ tok"

definition host_abs :: "farm \<Rightarrow> int option \<Rightarrow> int option \<Rightarrow> string \<Rightarrow> string" where
  "host_abs s node project rel = rstrip_slash (media_dir (env s) node project) @ ''/'' @ rel"

subsection \<open>Cleaning up, and the way back to the queue\<close>

definition work_files :: "job \<Rightarrow> string list" where
  "work_files j =
     filter (\<lambda>p. take 6 p = work_dir @ ''/'')
       ((case j_work_out j of None \<Rightarrow> [] | Some p \<Rightarrow> [p, p @ ''.xml''])
        @ (case j_work_in j of None \<Rightarrow> [] | Some p \<Rightarrow> [p]))"

definition cleanup :: "job \<Rightarrow> unit prog" where
  "cleanup j =
     bind (get transcoders) (\<lambda>ts.
     bind (case (tr_by_vmid ts (j_server j), j_token j) of
             (Some sv, Some tok) \<Rightarrow> when_p (j_access j = Some Stream) (call_quiet sv (Unshare tok))
           | _ \<Rightarrow> Ret ()) (\<lambda>_.
     case tr_by_vmid ts (j_worker j) of
       None \<Rightarrow> Ret ()
     | Some w \<Rightarrow>
         when_p (j_access j \<in> {Some Stream, Some Copy})
           (for_p (work_files j) (\<lambda>p. call_quiet w (RemoveFile p)))))"

text \<open>The columns \<open>_requeue\<close> and \<open>retry\<close> clear.\<close>

definition unassigned :: "job \<Rightarrow> job" where
  "unassigned j = j\<lparr>j_status := Pending, j_worker := None, j_worker_node := None, j_worker_job := None,
     j_server := None, j_token := None, j_access := None, j_work_in := None, j_work_out := None,
     j_phase := None, j_progress := 0, j_lost := None\<rparr>"

definition fail_cols :: "why \<Rightarrow> rat \<Rightarrow> job \<Rightarrow> job" where
  "fail_cols w now j = j\<lparr>j_status := Failed, j_error := Some w, j_completed := Some now, j_phase := None\<rparr>"

definition requeue :: "job \<Rightarrow> why \<Rightarrow> unit prog" where
  "requeue j w =
     (let n = j_attempts j + 1 in
      bind (cleanup j) (\<lambda>_.
      if max_attempts \<le> n then
        Now (\<lambda>now.
        bind (update_p (j_id j) active (\<lambda>r. (fail_cols w now r)\<lparr>j_attempts := n\<rparr>)) (\<lambda>_.
        modify (add_alert (j_id j) n w)))
      else
        bind (update_p (j_id j) active (\<lambda>r. (unassigned r)\<lparr>j_error := Some w, j_attempts := n\<rparr>)) (\<lambda>_.
        Ret ())))"

subsection \<open>Candidates\<close>

record cand =
  k_tr :: tr
  k_access :: access
  k_input :: string
  k_server :: "tr option"

definition eligible :: "farm \<Rightarrow> job \<Rightarrow> tr \<Rightarrow> bool" where
  "eligible s j t \<longleftrightarrow> t_member t \<and> farm_capable s t \<and> t_project t = j_project j \<and> able s t j"

text \<open>How a transcoder reads the source; \<open>None\<close> when it does not see the share.\<close>

definition server_for :: "farm \<Rightarrow> tr list \<Rightarrow> job \<Rightarrow> tr option" where
  "server_for s ts j =
     find (\<lambda>t. t_node t = src_node (j_src j) \<and> t_project t = j_project j \<and> farm_capable s t) ts"

definition cand_of :: "farm \<Rightarrow> tr list \<Rightarrow> job \<Rightarrow> tr \<Rightarrow> cand option" where
  "cand_of s ts j t =
     (case j_src j of
        Share g \<Rightarrow>
          (case (grant_conn (env s) g, grant_entry (env s) g (j_project j)) of
             (Some conn, Some entry) \<Rightarrow>
               (if entry \<noteq> [] \<and> node_conn (env s) (t_node t) conn
                then Some \<lparr>k_tr = t, k_access = Direct, k_input = entry @ ''/'' @ j_path j, k_server = None\<rparr>
                else None)
           | _ \<Rightarrow> None)
      | Local n \<Rightarrow>
          (if t_node t = Some n
           then Some \<lparr>k_tr = t, k_access = Direct, k_input = j_path j, k_server = None\<rparr>
           else Some \<lparr>k_tr = t, k_access = (if server_for s ts j = None then Copy else Stream),
                      k_input = [], k_server = server_for s ts j\<rparr>))"

fun collect :: "farm \<Rightarrow> tr list \<Rightarrow> (nat \<Rightarrow> int) \<Rightarrow> job \<Rightarrow> tr list \<Rightarrow> cand list option" where
  "collect s ts reserved j [] = Some []"
| "collect s ts reserved j (t # rest) =
     (if \<not> eligible s j t then collect s ts reserved j rest
      else
        (case free_slots s reserved t of
           None \<Rightarrow> None
         | Some k \<Rightarrow>
             (if k \<le> 0 then collect s ts reserved j rest
              else
                (case cand_of s ts j t of
                   None \<Rightarrow> collect s ts reserved j rest
                 | Some c \<Rightarrow> map_option (Cons c) (collect s ts reserved j rest)))))"

fun rank :: "access \<Rightarrow> nat" where
  "rank Direct = 0"
| "rank Stream = 1"
| "rank Copy = 2"

definition slots :: "farm \<Rightarrow> (nat \<Rightarrow> int) \<Rightarrow> tr \<Rightarrow> int" where
  "slots s reserved t = (case free_slots s reserved t of None \<Rightarrow> 0 | Some k \<Rightarrow> k)"

text \<open>
  \<open>None\<close>: a transcoder answered a number that is not one, and \<open>_candidates\<close> raises.  A share whose grant is gone
  has no candidate at all.
\<close>

definition candidates :: "farm \<Rightarrow> tr list \<Rightarrow> (nat \<Rightarrow> int) \<Rightarrow> job \<Rightarrow> cand list option" where
  "candidates s ts reserved j =
     (if (case j_src j of Share g \<Rightarrow> grant_conn (env s) g = None | Local n \<Rightarrow> False) then Some []
      else map_option (sort_key (\<lambda>c. (rank (k_access c), - slots s reserved (k_tr c)))) (collect s ts reserved j ts))"

subsection \<open>The request to the transcoder\<close>

definition dict_update :: "params \<Rightarrow> params \<Rightarrow> params" where
  "dict_update p e = foldl (\<lambda>d (k, v). dict_put k v d) p e"

definition json_opt :: "string option \<Rightarrow> json" where
  "json_opt v = (case v of None \<Rightarrow> JNull | Some x \<Rightarrow> JStr x)"

definition user_json :: "job \<Rightarrow> json" where
  "user_json j = JStr (case j_user j of None \<Rightarrow> [] | Some u \<Rightarrow> u)"

definition storyboard_spec :: json where
  "storyboard_spec = JDict [(''max'', JNum 120), (''w'', JNum 320)]"

definition worker_params :: "job \<Rightarrow> params \<Rightarrow> params" where
  "worker_params j extra =
     (let p1 = dict_update (j_params j) extra;
          p2 = dict_put ''priority'' (JStr (priority_name (j_priority j)))
                 (dict_put ''_farm_job'' (JNum (of_nat (j_id j))) p1);
          p3 = (case j_proxy j of None \<Rightarrow> p2
                | Some (a, rel) \<Rightarrow> dict_put ''overwrite'' (JBool True) (dict_put ''_farm_proxy'' (JStr a) p2));
          p4 = (if j_storyboard j \<noteq> None \<and> map_of p3 ''storyboard'' = None
                then dict_put ''storyboard'' storyboard_spec p3 else p3)
      in dict_put ''_origin'' (JDict (dict_put ''user'' (user_json j) (json_dict (pget p4 ''_origin'')))) p4)"

text \<open>\<open>_source_identity\<close>: what a probe of the source on its own node says of it, nothing when it fails.\<close>

definition source_identity :: "job \<Rightarrow> params prog" where
  "source_identity j =
     bind (get (\<lambda>s. (host_abs s (src_node (j_src j)) (j_project j) (j_path j),
                     case src_node (j_src j) of None \<Rightarrow> None | Some n \<Rightarrow> map_of (nodes (env s)) n)))
       (\<lambda>(path, name). Probe (src_node (j_src j)) path (\<lambda>d.
        Ret ((''_farm_src'', JDict [(''path'', JStr (j_path j)), (''node'', json_opt name),
               (''fingerprint'', pget d ''fingerprint''), (''size'', pget d ''size''), (''mtime'', pget d ''mtime'')])
             # (if truthy (pget d ''asset_id'')
                then [(''_origin'', JDict [(''asset_id'', pget d ''asset_id''), (''user'', user_json j)])]
                else []))))"

definition remote_params :: "job \<Rightarrow> params \<Rightarrow> params" where
  "remote_params j identity =
     worker_params j (dict_update identity
       [(''output_dir'', JStr (in_work_dir ''out'' (j_id j))), (''_farm_src_name'', JStr (basename (j_path j)))])"

definition submit_to_worker :: "job \<Rightarrow> tr \<Rightarrow> string \<Rightarrow> params \<Rightarrow> int prog" where
  "submit_to_worker j t inp ps =
     (let out = (case j_proxy j of
                   None \<Rightarrow> None
                 | Some (a, rel) \<Rightarrow>
                     Some (if pget ps ''output_dir'' = JStr (j_outdir j) then rel
                           else path_join (case json_str (pget ps ''output_dir'') of None \<Rightarrow> [] | Some d \<Rightarrow> d)
                                  (basename rel)))
      in bind (call_p t (Submit (j_type j) inp ps out)) (\<lambda>(c, r).
         if c = 400 \<or> c = 404 then Raise (Rejected (error_of r c))
         else if c \<noteq> 200 \<or> \<not> truthy (pget r ''ok'') then Raise (Failure (error_of r c))
         else lift_opt WBadReply (json_int (pget r ''id''))))"

subsection \<open>\<open>_dispatch\<close>\<close>

definition base_cols :: "cand \<Rightarrow> rat \<Rightarrow> job \<Rightarrow> job" where
  "base_cols c now j = j\<lparr>j_worker := Some (t_vmid (k_tr c)), j_worker_node := t_node (k_tr c),
     j_access := Some (k_access c), j_server := map_option t_vmid (k_server c), j_error := None, j_lost := None,
     j_progress := 0, j_started := Some now\<rparr>"

definition running_cols :: "int \<Rightarrow> string \<Rightarrow> job \<Rightarrow> job" where
  "running_cols jid inp j = j\<lparr>j_status := Running, j_phase := Some ''queued'', j_worker_job := Some jid, j_work_in := Some inp\<rparr>"

definition start_copy_in :: "job \<Rightarrow> tr \<Rightarrow> unit prog" where
  "start_copy_in j t = bind (task_put (j_id j) CopyIn) (\<lambda>_. Spawn (CopyThread j t) (Ret ()))"

definition confide_direct :: "job \<Rightarrow> cand \<Rightarrow> rat \<Rightarrow> unit prog" where
  "confide_direct j c now =
     bind (submit_to_worker j (k_tr c) (k_input c) (worker_params j [(''output_dir'', JStr (j_outdir j))])) (\<lambda>jid.
     bind (update_p (j_id j) [Pending] (\<lambda>r. base_cols c now (running_cols jid (k_input c) r))) (\<lambda>_.
     Ret ()))"

definition confide_stream :: "job \<Rightarrow> cand \<Rightarrow> tr \<Rightarrow> rat \<Rightarrow> unit prog" where
  "confide_stream j c server now =
     Fresh (\<lambda>tok.
     bind (call_p server (ShareFile tok (Some (j_path j)))) (\<lambda>(code, r).
     if code \<noteq> 200 then Raise (Failure (WShareRefused (t_host server) (error_of r code)))
     else
       (let url = file_url server tok in
        bind (try_p (bind (source_identity j) (\<lambda>d. submit_to_worker j (k_tr c) url (remote_params j d)))
                (\<lambda>e. bind (call_quiet server (Unshare tok)) (\<lambda>_. Raise e))) (\<lambda>jid.
        bind (update_p (j_id j) [Pending]
                (\<lambda>r. (base_cols c now (running_cols jid url r))\<lparr>j_token := Some tok\<rparr>)) (\<lambda>_.
        Ret ())))))"

definition confide_copy :: "job \<Rightarrow> cand \<Rightarrow> rat \<Rightarrow> unit prog" where
  "confide_copy j c now =
     Fresh (\<lambda>tok.
     bind (call_p (k_tr c) (Receive tok (in_work_dir ''in'' (j_id j) @ ''/'' @ basename (j_path j)))) (\<lambda>(code, r).
     if code \<noteq> 200 then Raise (Failure (WReceiveRefused (t_host (k_tr c)) (error_of r code)))
     else
       bind (update_p (j_id j) [Pending]
               (\<lambda>r. (base_cols c now r)\<lparr>j_status := TransferIn, j_phase := Some ''copy_in'', j_token := Some tok\<rparr>)) (\<lambda>ok.
       if ok then bind (get (find_job (j_id j))) (\<lambda>row.
                    bind (lift_opt WBadReply row) (\<lambda>r. start_copy_in r (k_tr c)))
       else Ret ())))"

definition confide :: "job \<Rightarrow> cand \<Rightarrow> unit prog" where
  "confide j c =
     Now (\<lambda>now. try_p
       (case (k_access c, k_server c) of
          (Direct, _) \<Rightarrow> confide_direct j c now
        | (Stream, Some server) \<Rightarrow> confide_stream j c server now
        | _ \<Rightarrow> confide_copy j c now)
       (\<lambda>e. case e of
          Rejected w \<Rightarrow>
            Now (\<lambda>t. bind (update_p (j_id j) [Pending] (fail_cols (WAt (t_host (k_tr c)) w) t)) (\<lambda>_. Ret ()))
        | _ \<Rightarrow> requeue j (WAt (t_host (k_tr c)) (reason e))))"

text \<open>Whether the job was handled, and the places promised so far.\<close>

definition dispatch :: "job \<Rightarrow> tr list \<Rightarrow> (nat \<Rightarrow> int) \<Rightarrow> (bool \<times> (nat \<Rightarrow> int)) prog" where
  "dispatch j ts reserved =
     bind (get (\<lambda>s. candidates s ts reserved j)) (\<lambda>cs.
     bind (lift_opt WBadReply cs) (\<lambda>cs.
     case cs of
       [] \<Rightarrow> Ret (False, reserved)
     | c # _ \<Rightarrow>
         bind (confide j c) (\<lambda>_.
         Ret (True, reserved(t_vmid (k_tr c) := reserved (t_vmid (k_tr c)) + 1)))))"

text \<open>\<open>_mark_waiting\<close>: why a job of the queue was not taken.\<close>

definition mark_waiting :: "job \<Rightarrow> tr list \<Rightarrow> unit prog" where
  "mark_waiting j ts =
     bind (get (\<lambda>s. if \<exists>t \<in> set ts. eligible s j t then ''busy'' else ''no_transcoder'')) (\<lambda>want.
     when_p (j_phase j \<noteq> Some want)
       (bind (update_p (j_id j) [Pending] (\<lambda>r. r\<lparr>j_phase := Some want\<rparr>)) (\<lambda>_. Ret ())))"

text \<open>The loop of \<open>tick\<close> over the queue; an exception leaves the job and the places as they are.\<close>

primrec dispatch_all :: "tr list \<Rightarrow> job list \<Rightarrow> (nat \<Rightarrow> int) \<Rightarrow> unit prog" where
  "dispatch_all ts [] reserved = Ret ()"
| "dispatch_all ts (j # js) reserved =
     bind (try_p
       (bind (dispatch j ts reserved) (\<lambda>(handled, reserved').
        bind (when_p (\<not> handled) (mark_waiting j ts)) (\<lambda>_. Ret reserved')))
       (\<lambda>e. Ret reserved)) (\<lambda>reserved'.
     dispatch_all ts js reserved')"

end
