(* ===== verification/Farm_Follow.thy ===== *)
theory Farm_Follow
  imports Farm_Dispatch
begin

text \<open>
  How the farm follows a job it has confided: the threads that copy a source in or a result back, the end of a job
  (\<open>_finish\<close>), the state a transcoder reports (\<open>_follow\<close>) and the way back of the result (\<open>_follow_return\<close>).
\<close>

subsection \<open>The thread of a copy to the transcoder\<close>

definition out_of_reply :: "params \<Rightarrow> string \<Rightarrow> string option" where
  "out_of_reply d k = json_str (pget d k)"

definition not_received :: "params \<Rightarrow> int \<Rightarrow> why" where
  "not_received st code =
     WNotReceived (if truthy (pget st ''error'') then WText (pget st ''error'')
                   else if truthy (pget st ''state'') then WText (pget st ''state'') else WHttp code)"

definition copy_in_body :: "job \<Rightarrow> tr \<Rightarrow> unit prog" where
  "copy_in_body j t =
     (let tok = (case j_token j of None \<Rightarrow> [] | Some x \<Rightarrow> x) in
      bind (get (\<lambda>s. host_abs s (src_node (j_src j)) (j_project j) (j_path j))) (\<lambda>source.
      Host (src_node (j_src j)) (Upload source (base_url t @ ''/farm/upload/'' @ tok)) (\<lambda>h.
      case h of
        HostErr e \<Rightarrow> Raise (Failure (WNet e))
      | Ran rc out \<Rightarrow>
          if rc \<noteq> 0 then Raise (Failure (WCopyFailed out))
          else
            bind (call_p t (ReceiveState tok)) (\<lambda>(code, st).
            if code \<noteq> 200 \<or> pget st ''state'' \<noteq> JStr ''done''
            then Raise (Failure (not_received st code))
            else
              bind (get (find_job (j_id j))) (\<lambda>row.
              case row of
                None \<Rightarrow> Ret ()
              | Some cur \<Rightarrow>
                  if j_status cur \<noteq> TransferIn then Ret ()
                  else
                    bind (lift_opt WBadReply (out_of_reply st ''path'')) (\<lambda>inp.
                    bind (try_p
                      (bind (bind (source_identity cur) (\<lambda>d. submit_to_worker cur t inp (remote_params cur d))) (\<lambda>jid.
                       Ret (Inr jid)))
                      (\<lambda>e. case e of
                         Rejected w \<Rightarrow>
                           Now (\<lambda>now.
                           bind (update_p (j_id j) [TransferIn]
                                   (\<lambda>r. (fail_cols (WAt (t_host t) w) now r)\<lparr>j_work_in := Some inp\<rparr>)) (\<lambda>_.
                           bind (get (find_job (j_id j))) (\<lambda>row.
                           bind (lift_opt WBadReply row) (\<lambda>r.
                           bind (cleanup r) (\<lambda>_. Ret (Inl ()))))))
                       | _ \<Rightarrow> Raise e)) (\<lambda>res.
                    case res of
                      Inl _ \<Rightarrow> Ret ()
                    | Inr jid \<Rightarrow>
                        bind (update_p (j_id j) [TransferIn] (running_cols jid inp)) (\<lambda>_. Ret ())))))))) "

definition copy_in_thread :: "job \<Rightarrow> tr \<Rightarrow> unit prog" where
  "copy_in_thread j t =
     finally_p
       (try_p (copy_in_body j t)
          (\<lambda>e. bind (get (find_job (j_id j))) (\<lambda>row.
           case row of
             None \<Rightarrow> Ret ()
           | Some cur \<Rightarrow> when_p (j_status cur = TransferIn) (requeue cur (reason e)))))
       (task_pop (j_id j))"

subsection \<open>The way back of a result\<close>

text \<open>The thread of a return by the host of the source node; the answer of the host is the path it wrote.\<close>

definition strip_base :: "string \<Rightarrow> string \<Rightarrow> string" where
  "strip_base base p = (if take (length base) p = base then drop (length base) p else p)"

definition return_thread :: "job \<Rightarrow> string \<Rightarrow> string option \<Rightarrow> string \<Rightarrow> unit prog" where
  "return_thread j url side dest =
     try_p
       (bind (get (\<lambda>s. (host_abs s (src_node (j_src j)) (j_project j) dest,
                        rstrip_slash (host_abs s (src_node (j_src j)) (j_project j) []) @ ''/''))) (\<lambda>(final, base).
        Host (src_node (j_src j)) (Download url side final) (\<lambda>h.
        case h of
          HostErr e \<Rightarrow> Raise (Failure (WNet e))
        | Ran rc out \<Rightarrow>
            if rc \<noteq> 0 then Raise (Failure (WReturnFailed out))
            else task_put (j_id j) (HostDone (strip_base base out)))))
       (\<lambda>e. task_put (j_id j) (HostFailed (reason e)))"

fun thread_body :: "thread \<Rightarrow> unit prog" where
  "thread_body (CopyThread j t) = copy_in_thread j t"
| "thread_body (ReturnThread j url side dest) = return_thread j url side dest"

definition start_return :: "job \<Rightarrow> tr \<Rightarrow> unit prog" where
  "start_return j worker =
     Fresh (\<lambda>tok.
     bind (call_p worker (ShareFile tok (j_work_out j))) (\<lambda>(code, r).
     if code \<noteq> 200 then Raise (Failure (WOutputShareRefused (error_of r code)))
     else
       Fresh (\<lambda>side_tok.
       bind (try_p
         (case j_work_out j of
            None \<Rightarrow> Ret None
          | Some out \<Rightarrow>
              bind (call_p worker (ShareFile side_tok (Some (out @ ''.xml'')))) (\<lambda>(code, _).
              Ret (if code = 200 then Some (file_url worker side_tok) else None)))
         (\<lambda>e. Ret None)) (\<lambda>side.
       bind (lift_opt WBadReply (j_work_out j)) (\<lambda>out.
       let dest = path_join (j_outdir j) (basename out); url = file_url worker tok in
       bind (get transcoders) (\<lambda>ts.
       bind (get (\<lambda>s. server_for s ts j)) (\<lambda>server.
       case server of
         Some sv \<Rightarrow>
           bind (call_p sv (Fetch tok url dest side)) (\<lambda>(code, r).
           if code \<noteq> 200 then Raise (Failure (WReturnRefused (t_host sv) (error_of r code)))
           else task_put (j_id j) (ReturnServer sv tok [tok, side_tok]))
       | None \<Rightarrow>
           bind (task_put (j_id j) HostRunning) (\<lambda>_.
           Spawn (ReturnThread j url side dest) (Ret ())))))))))"

text \<open>A failed return is tried again; the result is still on the transcoder.\<close>

definition requeue_return :: "job \<Rightarrow> why \<Rightarrow> unit prog" where
  "requeue_return j w =
     (let n = j_attempts j + 1 in
      if max_attempts \<le> n then
        Now (\<lambda>now.
        bind (update_p (j_id j) [TransferOut]
                (\<lambda>r. (fail_cols (WReturnImpossible w) now r)\<lparr>j_attempts := n, j_out_node := j_worker_node j, j_out_path := j_work_out j\<rparr>)) (\<lambda>_.
        Ret ()))
      else
        bind (update_p (j_id j) [TransferOut] (\<lambda>r. r\<lparr>j_attempts := n, j_error := Some w\<rparr>)) (\<lambda>_. Ret ()))"

subsection \<open>The end of a job\<close>

definition set_info :: "params option \<Rightarrow> job \<Rightarrow> job" where
  "set_info i j = (case i of None \<Rightarrow> j | Some d \<Rightarrow> j\<lparr>j_info := Some d\<rparr>)"

definition finish :: "job \<Rightarrow> int option \<Rightarrow> string option \<Rightarrow> params option \<Rightarrow> unit prog" where
  "finish j node path info =
     Now (\<lambda>now.
     bind (update_p (j_id j) [Running, TransferOut]
             (\<lambda>r. set_info info (r\<lparr>j_status := Finished, j_progress := 1, j_phase := None, j_out_node := node,
                                  j_out_path := path, j_completed := Some now\<rparr>))) (\<lambda>ok.
     when_p ok
       (bind (case (j_bin j, node) of (Some b, Some n) \<Rightarrow> when_p (b \<noteq> 0 \<and> n \<noteq> 0) (Notice (IndexSoon n) (Ret ())) | _ \<Rightarrow> Ret ()) (\<lambda>_.
        bind (when_p (j_access j \<in> {Some Stream, Some Copy})
                (bind (get (find_job (j_id j))) (\<lambda>row. bind (lift_opt WBadReply row) cleanup))) (\<lambda>_.
        bind (when_p (j_proxy j \<noteq> None) (Notice (ProxyDone (j_id j)) (Ret ()))) (\<lambda>_.
        when_p (j_storyboard j \<noteq> None) (Notice (StoryboardDone (j_id j)) (Ret ()))))))))"

definition follow_return :: "job \<Rightarrow> tr \<Rightarrow> unit prog" where
  "follow_return j worker =
     bind (task_get (j_id j)) (\<lambda>task.
     case task of
       None \<Rightarrow> try_p (start_return j worker) (\<lambda>e. requeue_return j (reason e))
     | Some (ReturnServer sv tok toks) \<Rightarrow>
         bind (attempt (call_p sv (FetchState tok))) (\<lambda>r.
         case r of
           Inl e \<Rightarrow> Ret ()
         | Inr (code, st) \<Rightarrow>
             (let state = (if code = 200 then pget st ''state'' else JStr ''failed'') in
              if state = JStr ''done'' then
                bind (task_pop (j_id j)) (\<lambda>_.
                bind (for_p toks (\<lambda>wt. call_quiet worker (Unshare wt))) (\<lambda>_.
                finish j (src_node (j_src j)) (out_of_reply st ''path'') None))
              else if state = JStr ''failed'' then
                bind (task_pop (j_id j)) (\<lambda>_.
                requeue_return j (WReturnLost (error_of st code)))
              else Ret ()))
     | Some (HostDone path) \<Rightarrow>
         bind (task_pop (j_id j)) (\<lambda>_. finish j (src_node (j_src j)) (Some path) None)
     | Some (HostFailed w) \<Rightarrow>
         bind (task_pop (j_id j)) (\<lambda>_. requeue_return j w)
     | _ \<Rightarrow> Ret ())"

subsection \<open>\<open>_follow\<close>\<close>

text \<open>\<open>job.get("lost_since")\<close> as a truth value: the time zero counts as none.\<close>

definition lost_at :: "job \<Rightarrow> rat option" where
  "lost_at j = (case j_lost j of None \<Rightarrow> None | Some t \<Rightarrow> if t = 0 then None else Some t)"

definition follow_lost :: "job \<Rightarrow> tr \<Rightarrow> why option \<Rightarrow> unit prog" where
  "follow_lost j worker err =
     bind (case lost_at j of Some t \<Rightarrow> Ret t | None \<Rightarrow> Now Ret) (\<lambda>since.
     bind (when_p (lost_at j = None)
             (bind (update_p (j_id j) [] (\<lambda>r. r\<lparr>j_lost := Some since\<rparr>)) (\<lambda>_. Ret ()))) (\<lambda>_.
     Now (\<lambda>now. when_p (member_lost_s < now - since) (requeue j (WUnreachable (t_host worker) err)))))"

definition follow_reply :: "job \<Rightarrow> tr \<Rightarrow> params \<Rightarrow> unit prog" where
  "follow_reply j worker d =
     (let st = pget d ''status'';
          info = (case pget d ''info'' of JDict i \<Rightarrow> Some i | _ \<Rightarrow> None);
          some_info = (case info of Some [] \<Rightarrow> None | x \<Rightarrow> x)
      in
      if st = JStr ''pending'' \<or> st = JStr ''running'' then
        bind (lift_opt WBadReply (if truthy (pget d ''progress'') then json_float (pget d ''progress'') else Some 0)) (\<lambda>pr.
        bind (update_p (j_id j) [Running]
                (\<lambda>r. set_info some_info (r\<lparr>j_progress := pr, j_phase :=
                   Some (if st = JStr ''pending'' then ''queued''
                         else case json_str (pget d ''phase'') of None \<Rightarrow> ''encodage'' | Some [] \<Rightarrow> ''encodage'' | Some x \<Rightarrow> x)\<rparr>))) (\<lambda>_.
        Ret ()))
      else if st = JStr ''done'' then
        (if j_access j = Some Direct \<or> j_type j = ''storyboard''
         then finish j (t_node worker) (out_of_reply d ''output'') info
         else
           bind (update_p (j_id j) [Running]
                   (\<lambda>r. set_info some_info (r\<lparr>j_status := TransferOut, j_phase := Some ''copy_out'',
                          j_progress := 1, j_work_out := out_of_reply d ''output''\<rparr>))) (\<lambda>_.
           Ret ()))
      else if st = JStr ''failed'' then
        Now (\<lambda>now.
        bind (update_p (j_id j) [Running]
                (\<lambda>r. set_info some_info
                   (fail_cols (if truthy (pget d ''error'') then WText (pget d ''error'') else WFail) now r))) (\<lambda>_.
        cleanup j))
      else if st = JStr ''cancelled'' then
        Now (\<lambda>now.
        bind (update_p (j_id j) [Running]
                (\<lambda>r. r\<lparr>j_status := Cancelled, j_phase := None, j_completed := Some now,
                       j_error := Some (WCancelledAt (t_host worker))\<rparr>)) (\<lambda>_.
        cleanup j))
      else Ret ())"

definition follow_running :: "job \<Rightarrow> tr \<Rightarrow> unit prog" where
  "follow_running j worker =
     bind (attempt (call_p worker (JobState (j_worker_job j)))) (\<lambda>r.
     case r of
       Inl e \<Rightarrow> Ret ()
     | Inr (code, d) \<Rightarrow>
         if code = 404 then requeue j (WJobLost (t_host worker))
         else if code \<noteq> 200 then Ret ()
         else follow_reply j worker d)"

definition follow :: "job \<Rightarrow> tr list \<Rightarrow> unit prog" where
  "follow j ts =
     (if j_status j = TransferIn then
        bind (task_get (j_id j)) (\<lambda>task. when_p (task = None) (requeue j WInterrupted))
      else
        (case tr_by_vmid ts (j_worker j) of
           None \<Rightarrow> requeue j (WGone (case j_worker j of None \<Rightarrow> 0 | Some v \<Rightarrow> v))
         | Some worker \<Rightarrow>
             bind (get (\<lambda>s. mstates s (t_vmid worker))) (\<lambda>m.
             if (case m of None \<Rightarrow> True | Some x \<Rightarrow> \<not> m_ok x)
             then follow_lost j worker (case m of None \<Rightarrow> None | Some x \<Rightarrow> m_error x)
             else
               bind (when_p (lost_at j \<noteq> None)
                       (bind (update_p (j_id j) [] (\<lambda>r. r\<lparr>j_lost := None\<rparr>)) (\<lambda>_. Ret ()))) (\<lambda>_.
               if j_status j = TransferOut then follow_return j worker else follow_running j worker))))"

end
