(* ===== verification/Farm_Ops.thy ===== *)
theory Farm_Ops
  imports Farm_Follow
begin

text \<open>
  What users and the rest of the orchestrator ask of the farm: \<open>submit\<close> and its variants for media, \<open>cancel\<close>,
  \<open>retry\<close>, \<open>set_priority\<close>, \<open>purge\<close>, \<open>set_member\<close>.
\<close>

definition job_types :: "string list" where
  "job_types = [''video'', ''audio'', ''extract'', ''slate'']"

definition strip_slashes :: "string \<Rightarrow> string" where
  "strip_slashes p = rstrip_slash (dropWhile (\<lambda>c. c = slash) p)"

text \<open>The parameters of a user without the names the farm keeps for itself.\<close>

definition user_params :: "params \<Rightarrow> params" where
  "user_params ps = filter (\<lambda>(k, v). take 1 k \<noteq> ''_'' \<and> k \<noteq> ''priority'') ps"

definition value_or_raise :: "'a option \<Rightarrow> 'a prog" where
  "value_or_raise v = (case v of None \<Rightarrow> Raise ValueError | Some x \<Rightarrow> Ret x)"

definition check_p :: "bool \<Rightarrow> unit prog" where
  "check_p b = (if b then Ret () else Raise ValueError)"

definition clean_dir :: "string \<Rightarrow> string option" where
  "clean_dir out = (let d = strip_slashes (py_strip out) in if d = [] then Some [] else clean_rel d)"

definition bin_of :: "int option \<Rightarrow> int option" where
  "bin_of b = (if b = Some 0 then None else b)"

subsection \<open>Submitting\<close>

text \<open>\<open>source\<close> is \<open>None\<close> for a kind that is neither \<open>share\<close> nor \<open>local\<close>.\<close>

definition source_ok :: "farm \<Rightarrow> int option \<Rightarrow> src \<Rightarrow> bool" where
  "source_ok s project source =
     (case source of
        Share g \<Rightarrow> (case grant_entry (env s) g project of None \<Rightarrow> False | Some e \<Rightarrow> e \<noteq> [])
      | Local n \<Rightarrow> map_of (nodes (env s)) n \<noteq> None)"

definition insert_p :: "job \<Rightarrow> nat prog" where
  "insert_p j = atom (insert_job j)"

definition submit :: "int option \<Rightarrow> src option \<Rightarrow> string \<Rightarrow> string \<Rightarrow> params \<Rightarrow> string option \<Rightarrow> string
    \<Rightarrow> string option \<Rightarrow> int option \<Rightarrow> nat prog" where
  "submit project source path' jt ps priority out user b =
     bind (check_p (jt \<in> set job_types)) (\<lambda>_.
     bind (value_or_raise (clean_rel path')) (\<lambda>p.
     bind (value_or_raise source) (\<lambda>src.
     bind (get (\<lambda>s. source_ok s project src)) (\<lambda>ok.
     bind (check_p ok) (\<lambda>_.
     bind (value_or_raise (clean_dir out)) (\<lambda>d.
     bind (value_or_raise (parse_priority priority)) (\<lambda>prio.
     Now (\<lambda>now.
     insert_p ((new_job project src p jt (user_params ps) d prio user now)\<lparr>j_bin := bin_of b\<rparr>)))))))))"

text \<open>On a medium of the registry: out of any project, from the copy on a node, next to it by default.\<close>

definition submit_asset :: "string \<Rightarrow> string \<Rightarrow> params \<Rightarrow> string option \<Rightarrow> string \<Rightarrow> string option \<Rightarrow> string option
    \<Rightarrow> int option \<Rightarrow> nat prog" where
  "submit_asset asset jt ps priority out user version b =
     bind (check_p (jt \<in> set job_types)) (\<lambda>_.
     Media (AssetSource asset version) (\<lambda>r.
     case r of
       MediaCopy n p \<Rightarrow>
         bind (value_or_raise (if strip_slashes (py_strip out) = [] then Some (dirname p) else clean_dir out)) (\<lambda>d.
         bind (value_or_raise (clean_rel p)) (\<lambda>p'.
         bind (value_or_raise (parse_priority priority)) (\<lambda>prio.
         Now (\<lambda>now.
         insert_p ((new_job None (Local n) p' jt (user_params ps) d prio user now)\<lparr>j_asset := Some asset, j_bin := bin_of b\<rparr>)))))
     | _ \<Rightarrow> Raise ValueError))"

definition proxy_params :: "string \<Rightarrow> params" where
  "proxy_params kind =
     (if kind = ''video'' then [(''preset'', JStr ''playback_proxy'')] else [(''audio_preset'', JStr ''aac_128'')])"

definition proxy_name_ok :: "string \<Rightarrow> string \<Rightarrow> bool" where
  "proxy_name_ok d name \<longleftrightarrow> basename d = ''.proxies'' \<and> name \<noteq> [] \<and> take 1 name \<noteq> ''.''"

definition submit_proxy :: "string \<Rightarrow> int \<Rightarrow> string \<Rightarrow> string \<Rightarrow> string \<Rightarrow> string option \<Rightarrow> string option \<Rightarrow> bool \<Rightarrow> nat prog" where
  "submit_proxy asset node src_path rel kind priority user sb =
     bind (check_p (kind \<in> {''video'', ''audio''})) (\<lambda>_.
     bind (value_or_raise (clean_rel src_path)) (\<lambda>p.
     bind (check_p (proxy_name_ok (dirname rel) (basename rel))) (\<lambda>_.
     bind (check_p (dirname (dirname rel) = [] \<or> clean_rel (dirname (dirname rel)) \<noteq> None)) (\<lambda>_.
     bind (get (\<lambda>s. map_of (nodes (env s)) node \<noteq> None)) (\<lambda>known.
     bind (check_p known) (\<lambda>_.
     bind (value_or_raise (parse_priority priority)) (\<lambda>prio.
     Now (\<lambda>now.
     insert_p ((new_job None (Local node) p (if kind = ''video'' then ''video'' else ''audio'') (proxy_params kind)
                  (dirname rel) prio user now)
               \<lparr>j_proxy := Some (asset, rel), j_storyboard := (if sb \<and> kind = ''video'' then Some asset else None)\<rparr>))))))))) "

definition submit_storyboard :: "string \<Rightarrow> int \<Rightarrow> string \<Rightarrow> string option \<Rightarrow> string option \<Rightarrow> nat prog" where
  "submit_storyboard asset node proxy_path priority user =
     (let q = dropWhile (\<lambda>c. c = slash) (py_strip proxy_path); d = dirname q; name = basename q; parent = dirname d in
      bind (check_p (proxy_name_ok d name)) (\<lambda>_.
      bind (value_or_raise (if parent = [] then Some [] else map_option (\<lambda>p. p @ ''/'') (clean_rel parent))) (\<lambda>pre.
      bind (get (\<lambda>s. map_of (nodes (env s)) node \<noteq> None)) (\<lambda>known.
      bind (check_p known) (\<lambda>_.
      bind (value_or_raise (parse_priority priority)) (\<lambda>prio.
      Now (\<lambda>now.
      insert_p ((new_job None (Local node) (pre @ ''.proxies/'' @ name) ''storyboard''
                   [(''storyboard'', storyboard_spec)] [] prio user now)
                \<lparr>j_storyboard := Some asset\<rparr>)))))))) "

subsection \<open>Actions on a job\<close>

definition cancel :: "nat \<Rightarrow> unit prog" where
  "cancel i =
     bind (get (find_job i)) (\<lambda>row.
     case row of
       None \<Rightarrow> Raise LookupError
     | Some j \<Rightarrow>
         if j_status j \<notin> set active then Raise ValueError
         else
           bind (get transcoders) (\<lambda>ts.
           bind (case (tr_by_vmid ts (j_worker j), j_worker_job j) of
                   (Some w, Some jid) \<Rightarrow>
                     when_p (jid \<noteq> 0 \<and> j_status j = Running) (call_quiet w (CancelJob jid))
                 | _ \<Rightarrow> Ret ()) (\<lambda>_.
           Now (\<lambda>now.
           bind (update_p i active (\<lambda>r. r\<lparr>j_status := Cancelled, j_phase := None, j_completed := Some now\<rparr>)) (\<lambda>_.
           bind (task_pop i) (\<lambda>_.
           cleanup j))))))"

definition retry_cols :: "job \<Rightarrow> job" where
  "retry_cols j = (unassigned j)\<lparr>j_attempts := 0, j_error := None, j_out_node := None, j_out_path := None,
     j_info := None, j_started := None, j_completed := None\<rparr>"

definition retry :: "nat \<Rightarrow> unit prog" where
  "retry i =
     bind (get (find_job i)) (\<lambda>row.
     case row of
       None \<Rightarrow> Raise LookupError
     | Some j \<Rightarrow>
         if j_status j \<notin> set finished then Raise ValueError
         else bind (update_p i finished retry_cols) (\<lambda>_. Ret ()))"

definition set_priority :: "nat \<Rightarrow> string option \<Rightarrow> int prog" where
  "set_priority i v =
     bind (value_or_raise (parse_priority v)) (\<lambda>prio.
     bind (update_p i [Pending] (\<lambda>r. r\<lparr>j_priority := prio\<rparr>)) (\<lambda>ok.
     if ok then Ret prio else Raise ValueError))"

definition purgeable :: "int list option \<Rightarrow> job \<Rightarrow> bool" where
  "purgeable projects j \<longleftrightarrow> j_status j \<in> {Finished, Cancelled} \<and>
     (case projects of None \<Rightarrow> True
      | Some ps \<Rightarrow> (case j_project j of None \<Rightarrow> False | Some p \<Rightarrow> p \<in> set ps))"

definition purge :: "int list option \<Rightarrow> nat prog" where
  "purge projects =
     (if projects = Some [] then Ret 0
      else atom (\<lambda>s. (length (filter (purgeable projects) (jobs s)),
                      s\<lparr>jobs := filter (\<lambda>j. \<not> purgeable projects j) (jobs s)\<rparr>)))"

definition set_member :: "nat \<Rightarrow> bool \<Rightarrow> unit prog" where
  "set_member v enabled =
     bind (get (\<lambda>s. \<exists>c \<in> set (conts (env s)). c_vmid c = v \<and> c_type c = ''transcoder'')) (\<lambda>ok.
     bind (check_p ok) (\<lambda>_.
     modify (\<lambda>s. s\<lparr>members := dict_put v enabled (members s)\<rparr>)))"

end
