(* ===== verification/Farm_Tick.thy ===== *)
theory Farm_Tick
  imports Farm_Ops
begin

text \<open>
  One pass of the dispatcher (\<open>tick\<close>), and the whole system: the dispatcher, the requests of the users, the
  threads of the transfers, restarts of the orchestrator, and changes around the farm, interleaved action by action.
\<close>

subsection \<open>\<open>_refresh_states\<close>\<close>

definition put_mstate :: "tr \<Rightarrow> mstate \<Rightarrow> unit prog" where
  "put_mstate t m = modify (\<lambda>s. s\<lparr>mstates := (mstates s)(t_vmid t \<mapsto> m)\<rparr>)"

definition refresh_one :: "rat \<Rightarrow> tr \<Rightarrow> unit prog" where
  "refresh_one now t =
     (if t_status t \<noteq> ''running'' then
        put_mstate t \<lparr>m_ok = False, m_state = [], m_seen = None, m_error = Some (WText (JStr (t_status t)))\<rparr>
      else
        bind (get (\<lambda>s. case mstates s (t_vmid t) of None \<Rightarrow> None | Some m \<Rightarrow> m_seen m)) (\<lambda>seen.
        bind (attempt (call_p t GetState)) (\<lambda>r.
        put_mstate t
          (case r of
             Inl e \<Rightarrow> \<lparr>m_ok = False, m_state = [], m_seen = seen, m_error = Some (reason e)\<rparr>
           | Inr (c, d) \<Rightarrow>
               if c = 200 then \<lparr>m_ok = True, m_state = d, m_seen = Some now, m_error = None\<rparr>
               else \<lparr>m_ok = False, m_state = [], m_seen = seen, m_error = Some (WHttp c)\<rparr>))))"

definition refresh_states :: "tr list \<Rightarrow> unit prog" where
  "refresh_states ts = Now (\<lambda>now. for_p ts (refresh_one now))"

subsection \<open>\<open>_place_in_bins\<close>\<close>

definition output_asset :: "job \<Rightarrow> string option prog" where
  "output_asset j =
     (let name = basename (case j_out_path j of None \<Rightarrow> [] | Some p \<Rightarrow> p) in
      if name = [] then Ret None
      else Media (OutputAsset (j_out_node j) name) (\<lambda>r.
        case r of
          MediaErr \<Rightarrow> Raise (Failure WBadReply)
        | MediaAsset a \<Rightarrow> Ret (Some a)
        | _ \<Rightarrow> Ret None))"

definition set_bin_done :: "nat \<Rightarrow> binmark \<Rightarrow> unit prog" where
  "set_bin_done i b = bind (update_p i [] (\<lambda>r. r\<lparr>j_bin_done := Some b\<rparr>)) (\<lambda>_. Ret ())"

definition place_one :: "job \<Rightarrow> int \<Rightarrow> unit prog" where
  "place_one j b =
     bind (attempt
       (bind (output_asset j) (\<lambda>aid.
        case aid of
          Some (c # cs) \<Rightarrow>
            Media (BinAdd b (c # cs)) (\<lambda>r.
            if r = MediaErr then Raise (Failure WBadReply)
            else Now (\<lambda>t. bind (set_bin_done (j_id j) (Placed t)) (\<lambda>_. Ret True)))
        | _ \<Rightarrow> Ret False))) (\<lambda>r.
     case r of
       Inl e \<Rightarrow> set_bin_done (j_id j) PlaceFailed
     | Inr True \<Rightarrow> Ret ()
     | Inr False \<Rightarrow>
         Now (\<lambda>t.
         let age = (case j_completed j of None \<Rightarrow> 0 | Some c \<Rightarrow> t - c)
         in when_p (bin_place_timeout_s < age) (set_bin_done (j_id j) PlaceLost)))"

definition to_place :: "farm \<Rightarrow> job list" where
  "to_place s = filter (\<lambda>j. j_bin j \<noteq> None \<and> j_bin_done j = None) (rows_in [Finished] s)"

definition place_in_bins :: "unit prog" where
  "place_in_bins =
     bind (get to_place) (\<lambda>js.
     for_p js (\<lambda>j. case j_bin j of None \<Rightarrow> Ret () | Some b \<Rightarrow> place_one j b))"

subsection \<open>\<open>tick\<close>\<close>

definition promised :: "job list \<Rightarrow> nat \<Rightarrow> int" where
  "promised js v = int (length (filter (\<lambda>j. j_worker j = Some v) js))"

definition tick :: "unit prog" where
  "tick =
     bind (try_p place_in_bins (\<lambda>e. Ret ())) (\<lambda>_.
     bind (get transcoders) (\<lambda>ts.
     bind (refresh_states ts) (\<lambda>_.
     bind (get (rows_in [TransferIn, Running, TransferOut])) (\<lambda>js.
     bind (for_p js (\<lambda>j. try_p (follow j ts) (\<lambda>e. Ret ()))) (\<lambda>_.
     bind (get (rows_in [TransferIn])) (\<lambda>copies.
     bind (get pending_queue) (\<lambda>queue.
     dispatch_all ts queue (promised copies))))))))"

subsection \<open>The whole system\<close>

datatype user_op =
    OpCancel nat
  | OpRetry nat
  | OpPriority nat "string option"
  | OpPurge "int list option"
  | OpMember nat bool
  | OpSubmit "int option" "src option" string string params "string option" string "string option" "int option"
  | OpAsset string string params "string option" string "string option" "string option" "int option"
  | OpProxy string int string string string "string option" "string option" bool
  | OpStoryboard string int string "string option" "string option"

definition done_p :: "'a prog \<Rightarrow> unit prog" where
  "done_p p = bind p (\<lambda>_. Ret ())"

fun op_prog :: "user_op \<Rightarrow> unit prog" where
  "op_prog (OpCancel i) = cancel i"
| "op_prog (OpRetry i) = retry i"
| "op_prog (OpPriority i v) = done_p (set_priority i v)"
| "op_prog (OpPurge ps) = done_p (purge ps)"
| "op_prog (OpMember v b) = set_member v b"
| "op_prog (OpSubmit pr sr p jt ps prio out u b) = done_p (submit pr sr p jt ps prio out u b)"
| "op_prog (OpAsset a jt ps prio out u v b) = done_p (submit_asset a jt ps prio out u v b)"
| "op_prog (OpProxy a n p rel k prio u sb) = done_p (submit_proxy a n p rel k prio u sb)"
| "op_prog (OpStoryboard a n p prio u) = done_p (submit_storyboard a n p prio u)"

datatype role = Dispatcher | User user_op | Transfer thread

record sys =
  shared :: farm
  pool :: "(role \<times> unit prog) list"

fun stopped :: "unit prog \<Rightarrow> bool" where
  "stopped (Ret x) = True"
| "stopped (Raise e) = True"
| "stopped _ = False"

text \<open>
  A choice: the thread that moves with the answer it gets, a new tick (one dispatcher at a time), a request, a change
  around the farm, or a restart, which forgets the threads and the two dictionaries in memory and keeps the data base.
\<close>

datatype choice = Go nat ans | StartTick | StartOp user_op | Outside ext | Restart

fun sys_step :: "choice \<Rightarrow> sys \<Rightarrow> sys option" where
  "sys_step (Go i a) y =
     (if i < length (pool y) then
        (case advance a (snd (pool y ! i)) (shared y) of
           None \<Rightarrow> None
         | Some (p, s, th) \<Rightarrow>
             Some (y\<lparr>shared := s,
                     pool := (pool y)[i := (fst (pool y ! i), p)]
                             @ (case th of None \<Rightarrow> [] | Some t \<Rightarrow> [(Transfer t, thread_body t)])\<rparr>))
      else None)"
| "sys_step StartTick y =
     (if \<exists>(r, p) \<in> set (pool y). r = Dispatcher \<and> \<not> stopped p then None
      else Some (y\<lparr>pool := pool y @ [(Dispatcher, tick)]\<rparr>))"
| "sys_step (StartOp q) y = Some (y\<lparr>pool := pool y @ [(User q, op_prog q)]\<rparr>)"
| "sys_step (Outside x) y = Some (y\<lparr>shared := (shared y)\<lparr>env := x\<rparr>\<rparr>)"
| "sys_step Restart y =
     Some (y\<lparr>shared := (shared y)\<lparr>mstates := Map.empty, tasks := Map.empty\<rparr>, pool := []\<rparr>)"

fun run_choices :: "choice list \<Rightarrow> sys \<Rightarrow> sys option" where
  "run_choices [] y = Some y"
| "run_choices (c # cs) y = (case sys_step c y of None \<Rightarrow> None | Some y' \<Rightarrow> run_choices cs y')"

text \<open>The farm before its first job.\<close>

definition sys0 :: "ext \<Rightarrow> sys" where
  "sys0 x = \<lparr>shared = \<lparr>jobs = [], next_job = 1, members = [], mstates = Map.empty, tasks = Map.empty,
                       farm_alerts = [], env = x\<rparr>, pool = []\<rparr>"

inductive reachable :: "sys \<Rightarrow> bool" where
  start: "reachable (sys0 x)"
| move: "reachable y \<Longrightarrow> sys_step c y = Some y' \<Longrightarrow> reachable y'"

end
