(* ===== verification/Farm_Inv.thy ===== *)
theory Farm_Inv
  imports Farm_Tick
begin

text \<open>
  What every thread of the farm keeps: \<open>farm_ok\<close>, the invariant of the table of jobs, and \<open>may\<close>, what a thread in a
  given role may do to a job.  Both are shown action by action (\<open>guar\<close>), so they hold in every interleaving.
\<close>

subsection \<open>A job that makes sense\<close>

definition confided :: "job \<Rightarrow> bool" where
  "confided j \<longleftrightarrow> j_worker j \<noteq> None \<and> j_worker_job j \<noteq> None \<and> j_work_in j \<noteq> None \<and>
     j_access j \<noteq> None \<and>
     (j_token j = None) = (j_access j = Some Direct) \<and>
     (j_server j \<noteq> None) = (j_access j = Some Stream)"

definition waiting :: "job \<Rightarrow> bool" where
  "waiting j \<longleftrightarrow> j_worker j = None \<and> j_worker_node j = None \<and> j_worker_job j = None \<and> j_server j = None \<and>
     j_token j = None \<and> j_access j = None \<and> j_work_in j = None \<and> j_work_out j = None \<and> j_progress j = 0"

definition copying :: "job \<Rightarrow> bool" where
  "copying j \<longleftrightarrow> j_worker j \<noteq> None \<and> j_worker_job j = None \<and> j_server j = None \<and> j_token j \<noteq> None \<and>
     j_access j = Some Copy \<and> j_work_in j = None \<and> j_work_out j = None"

definition job_ok :: "job \<Rightarrow> bool" where
  "job_ok j \<longleftrightarrow> j_attempts j \<le> max_attempts \<and>
     (j_status j \<in> set active \<longrightarrow> j_attempts j < max_attempts \<and> j_completed j = None \<and> j_out_path j = None) \<and>
     (case j_status j of
        Pending \<Rightarrow> waiting j
      | TransferIn \<Rightarrow> copying j
      | Running \<Rightarrow> confided j \<and> j_work_out j = None
      | TransferOut \<Rightarrow> confided j
      | Finished \<Rightarrow> j_completed j \<noteq> None \<and> j_progress j = 1
      | Failed \<Rightarrow> j_completed j \<noteq> None \<and> j_error j \<noteq> None
      | Cancelled \<Rightarrow> j_completed j \<noteq> None)"

definition farm_ok :: "farm \<Rightarrow> bool" where
  "farm_ok s \<longleftrightarrow> distinct (map j_id (jobs s)) \<and> (\<forall>j \<in> set (jobs s). j_id j < next_job s \<and> job_ok j)"

subsection \<open>What a thread may do to a job\<close>

text \<open>What a user asked for, which nothing changes afterwards.\<close>

definition asked :: "job \<Rightarrow> int option \<times> src \<times> string \<times> string \<times> params \<times> string \<times> string option \<times> rat
    \<times> (string \<times> string) option \<times> string option \<times> string option \<times> int option" where
  "asked j = (j_project j, j_src j, j_path j, j_type j, j_params j, j_outdir j, j_user j, j_created j,
     j_proxy j, j_storyboard j, j_asset j, j_bin j)"

fun submitting :: "role \<Rightarrow> bool" where
  "submitting (User (OpSubmit _ _ _ _ _ _ _ _ _)) = True"
| "submitting (User (OpAsset _ _ _ _ _ _ _ _)) = True"
| "submitting (User (OpProxy _ _ _ _ _ _ _ _)) = True"
| "submitting (User (OpStoryboard _ _ _ _ _)) = True"
| "submitting _ = False"

text \<open>The changes of status a role may make to the job \<open>i\<close>.\<close>

fun arrow :: "role \<Rightarrow> nat \<Rightarrow> jstatus \<Rightarrow> jstatus \<Rightarrow> bool" where
  "arrow Dispatcher i a b \<longleftrightarrow> (a, b) \<in> {(Pending, TransferIn), (Pending, Running), (Running, TransferOut),
      (Running, Finished), (TransferOut, Finished), (Running, Cancelled)} \<or> a \<in> set active \<and> b \<in> {Pending, Failed}"
| "arrow (Transfer (CopyThread j t)) i a b \<longleftrightarrow> i = j_id j \<and>
     ((a, b) = (TransferIn, Running) \<or> a \<in> set active \<and> b \<in> {Pending, Failed})"
| "arrow (Transfer (ReturnThread j u sd d)) i a b \<longleftrightarrow> False"
| "arrow (User (OpCancel k)) i a b \<longleftrightarrow> i = k \<and> a \<in> set active \<and> b = Cancelled"
| "arrow (User (OpRetry k)) i a b \<longleftrightarrow> i = k \<and> a \<in> set finished \<and> b = Pending"
| "arrow (User q) i a b \<longleftrightarrow> False"

fun may_prio :: "role \<Rightarrow> nat \<Rightarrow> job \<Rightarrow> bool" where
  "may_prio (User (OpPriority k v)) i j \<longleftrightarrow> i = k \<and> j_status j = Pending"
| "may_prio _ i j \<longleftrightarrow> False"

fun may :: "role \<Rightarrow> nat \<Rightarrow> job option \<Rightarrow> job option \<Rightarrow> bool" where
  "may r i None None \<longleftrightarrow> True"
| "may r i None (Some j) \<longleftrightarrow> submitting r \<and> j_status j = Pending"
| "may r i (Some j) None \<longleftrightarrow> (case r of User (OpPurge ps) \<Rightarrow> purgeable ps j | _ \<Rightarrow> False)"
| "may r i (Some j) (Some j') \<longleftrightarrow> asked j' = asked j \<and>
     (j_priority j' = j_priority j \<or> may_prio r i j) \<and>
     (j_status j' = j_status j \<or> arrow r i (j_status j) (j_status j'))"

definition step_ok :: "role \<Rightarrow> farm \<Rightarrow> farm \<Rightarrow> bool" where
  "step_ok r s s' \<longleftrightarrow> farm_ok s' \<and> next_job s \<le> next_job s' \<and> (\<forall>i. may r i (find_job i s) (find_job i s'))"

subsection \<open>Reading and writing the table\<close>

lemma find_job_iff:
  assumes "distinct (map j_id (jobs s))"
  shows "find_job i s = Some j \<longleftrightarrow> j \<in> set (jobs s) \<and> j_id j = i"
proof -
  have "distinct (map j_id js) \<Longrightarrow> (find (\<lambda>j. j_id j = i) js = Some j) = (j \<in> set js \<and> j_id j = i)" for js
    by (induction js) (auto simp: rev_image_eqI)
  then show ?thesis using assms by (simp add: find_job_def)
qed

lemma find_job_mem: "find_job i s = Some j \<Longrightarrow> j \<in> set (jobs s) \<and> j_id j = i"
  by (auto simp: find_job_def find_Some_iff)

lemma find_map:
  "(\<And>j. j_id (f j) = j_id j) \<Longrightarrow> find (\<lambda>j. j_id j = i) (map f js) = map_option f (find (\<lambda>j. j_id j = i) js)"
  by (induction js) auto

lemma find_job_upd:
  assumes "\<And>j. j_id (f j) = j_id j"
  shows "find_job k (snd (upd_job i ex f s)) =
    map_option (\<lambda>j. if j_id j = i \<and> expected ex j then f j else j) (find_job k s)"
  using assms by (simp add: upd_job_def find_job_def find_map)

lemma may_refl: "may r i x x"
  by (cases x) (simp_all add: asked_def)

lemma step_ok_same:
  "farm_ok s \<Longrightarrow> jobs s' = jobs s \<Longrightarrow> next_job s' = next_job s \<Longrightarrow> step_ok r s s'"
  by (simp add: step_ok_def farm_ok_def find_job_def may_refl)

lemma step_ok_upd:
  assumes s: "farm_ok s" and i: "\<And>j. j_id (f j) = j_id j"
    and f: "\<And>j. job_ok j \<Longrightarrow> j_id j = i \<Longrightarrow> expected ex j \<Longrightarrow> job_ok (f j) \<and> may r i (Some j) (Some (f j))"
  shows "step_ok r s (snd (upd_job i ex f s))"
proof -
  have same: "map j_id (map (\<lambda>j. if j_id j = i \<and> expected ex j then f j else j) (jobs s)) = map j_id (jobs s)"
    using i by (simp add: comp_def if_distrib [of j_id] cong: if_cong)
  have js: "jobs (snd (upd_job i ex f s)) = map (\<lambda>j. if j_id j = i \<and> expected ex j then f j else j) (jobs s)"
    and nj: "next_job (snd (upd_job i ex f s)) = next_job s" by (simp_all add: upd_job_def)
  have "distinct (map j_id (jobs (snd (upd_job i ex f s))))"
    unfolding js same using s by (simp add: farm_ok_def)
  moreover have "\<forall>j \<in> set (jobs (snd (upd_job i ex f s))). j_id j < next_job s \<and> job_ok j"
    unfolding js using s f i by (auto simp: farm_ok_def)
  ultimately have "farm_ok (snd (upd_job i ex f s))" by (simp add: farm_ok_def nj)
  moreover have "may r k (find_job k s) (find_job k (snd (upd_job i ex f s)))" for k
  proof (cases "find_job k s")
    case (Some j)
    then have "job_ok j" "j_id j = k" using s find_job_mem by (auto simp: farm_ok_def)
    then show ?thesis using f [of j] Some may_refl [of r k "Some j"]
      unfolding find_job_upd [OF i] Some by auto
  qed (simp add: find_job_upd [OF i])
  ultimately show ?thesis by (simp add: step_ok_def upd_job_def)
qed

subsection \<open>Rules for programs\<close>

text \<open>\<open>keeps r p\<close>: a thread in the role \<open>r\<close> may run the program \<open>p\<close>.\<close>

definition keeps :: "role \<Rightarrow> 'a prog \<Rightarrow> bool" where
  "keeps r p = guar farm_ok (step_ok r) (\<lambda>_. True) (\<lambda>_. True) p"

named_theorems keep_rules \<open>one rule per construct of a program\<close>

lemma keeps_bind [keep_rules]: "keeps r p \<Longrightarrow> (\<And>x. keeps r (k x)) \<Longrightarrow> keeps r (bind p k)"
  unfolding keeps_def by (rule guar_bind)

lemma keeps_get: "(\<And>s. farm_ok s \<Longrightarrow> keeps r (k (f s))) \<Longrightarrow> keeps r (bind (get f) k)"
  unfolding keeps_def
  by (rule guar_bind [OF guar_get [where Q = "\<lambda>x. \<exists>s. farm_ok s \<and> x = f s"]]) (auto simp: step_ok_same)

lemma keeps_simps [simp]:
  "keeps r (Ret x)" "keeps r (Raise e)"
  "keeps r (Notice n p) = keeps r p" "keeps r (Spawn t p) = keeps r p"
  "keeps r (Now k1) = (\<forall>x. keeps r (k1 x))" "keeps r (Fresh k2) = (\<forall>x. keeps r (k2 x))"
  "keeps r (Host node c k3) = (\<forall>x. keeps r (k3 x))"
  "keeps r (Probe node y k4) = (\<forall>x. keeps r (k4 x))" "keeps r (Media q k5) = (\<forall>x. keeps r (k5 x))"
  by (simp_all add: keeps_def)

lemma keeps_get' [simp]: "keeps r (get f)"
  unfolding keeps_def by (rule guar_get) (simp add: step_ok_same)

lemma keeps_try [keep_rules]: "keeps r p \<Longrightarrow> (\<And>e. keeps r (h e)) \<Longrightarrow> keeps r (try_p p h)"
  unfolding keeps_def by (rule guar_try)

lemma keeps_attempt [simp]: "keeps r p \<Longrightarrow> keeps r (attempt p)"
  unfolding attempt_def by (intro keep_rules) simp_all

lemma keeps_finally [keep_rules]: "keeps r p \<Longrightarrow> keeps r q \<Longrightarrow> keeps r (finally_p p q)"
  unfolding keeps_def by (rule guar_finally)

lemma keeps_when [simp]: "keeps r (when_p b p) = (b \<longrightarrow> keeps r p)"
  by (simp add: when_p_def)

lemma keeps_lift [simp]: "keeps r (lift_opt w v)"
  by (simp add: lift_opt_def split: option.split)

lemma keeps_for [keep_rules]: "(\<And>x. x \<in> set xs \<Longrightarrow> keeps r (body x)) \<Longrightarrow> keeps r (for_p xs body)"
  unfolding keeps_def by (rule guar_for)

lemma keeps_call [simp]: "keeps r (call_p t q)"
  unfolding keeps_def by (rule guar_call)

lemma keeps_quiet [simp]: "keeps r (call_quiet t q)"
  unfolding keeps_def by (rule guar_quiet)

lemma keeps_modify:
  "(\<And>s. jobs (f s) = jobs s) \<Longrightarrow> (\<And>s. next_job (f s) = next_job s) \<Longrightarrow> keeps r (modify f)"
  unfolding keeps_def by (rule guar_modify) (simp_all add: step_ok_same)

lemma keeps_task [simp]: "keeps r (task_put i t)" "keeps r (task_pop i)" "keeps r (task_get i)"
  by (simp_all add: task_put_def task_pop_def task_get_def keeps_modify)

lemma keeps_alert [simp]: "keeps r (modify (add_alert i n w))"
  by (rule keeps_modify) (simp_all add: add_alert_def)

lemma keeps_update:
  assumes "\<And>j. j_id (f j) = j_id j"
    and "\<And>j. job_ok j \<Longrightarrow> j_id j = i \<Longrightarrow> expected ex j \<Longrightarrow> job_ok (f j) \<and> may r i (Some j) (Some (f j))"
  shows "keeps r (update_p i ex f)"
  unfolding keeps_def update_p_def
  by (rule guar_atom) (simp add: step_ok_upd [OF _ assms])

lemma farm_ok_find: "farm_ok s \<Longrightarrow> find_job i s = Some j \<Longrightarrow> job_ok j \<and> j_id j = i"
  using find_job_mem by (auto simp: farm_ok_def)

lemma farm_ok_rows: "farm_ok s \<Longrightarrow> j \<in> set (rows_in sts s) \<Longrightarrow> job_ok j \<and> j_status j \<in> set sts"
  by (auto simp: farm_ok_def rows_in_def)

lemma job_ok_attempts: "job_ok j \<Longrightarrow> j_status j \<in> set active \<Longrightarrow> j_attempts j < max_attempts"
  by (simp add: job_ok_def)

end
