(* ===== verification/Farm_Keeps.thy ===== *)
theory Farm_Keeps
  imports Farm_Inv
begin

text \<open>
  Every thread of the farm keeps the table of jobs and stays within its role: one lemma per program, then
  \<open>sys_keeps\<close> for the whole system.
\<close>

lemmas job_cols = unassigned_def fail_cols_def base_cols_def running_cols_def set_info_def retry_cols_def

lemmas job_facts = job_ok_def waiting_def copying_def confided_def asked_def expected_def active_def finished_def
  max_attempts_def

lemma set_info_id [simp]: "j_id (set_info i j) = j_id j"
  by (simp add: set_info_def split: option.split)

lemma keeps_cleanup [simp]: "keeps r (cleanup j)"
  unfolding cleanup_def by (intro keep_rules) (auto split: option.split intro!: keep_rules)

text \<open>Two roles put jobs back into the queue: the dispatcher, and the copy of the job itself.\<close>

fun requeues :: "role \<Rightarrow> nat \<Rightarrow> bool" where
  "requeues Dispatcher i = True"
| "requeues (Transfer (CopyThread j t)) i = (i = j_id j)"
| "requeues _ i = False"

lemma arrow_requeue: "requeues r i \<Longrightarrow> a \<in> set active \<Longrightarrow> b \<in> {Pending, Failed} \<Longrightarrow> arrow r i a b"
  by (cases "(r, i)" rule: requeues.cases) auto

lemma keeps_requeue:
  assumes r: "requeues r (j_id j)" and n: "j_attempts j < max_attempts"
  shows "keeps r (requeue j w)"
proof -
  have a: "arrow r (j_id j) (j_status k) b" if "expected active k" "b \<in> {Pending, Failed}" for k b
    using arrow_requeue [OF r] that by (auto simp: expected_def active_def)
  have failed: "keeps r (update_p (j_id j) active (\<lambda>r. (fail_cols w now r)\<lparr>j_attempts := Suc (j_attempts j)\<rparr>))" for now
    by (rule keeps_update) (use a n in \<open>auto simp: job_cols job_facts\<close>)
  have again: "keeps r (update_p (j_id j) active (\<lambda>r. (unassigned r)\<lparr>j_error := Some w, j_attempts := Suc (j_attempts j)\<rparr>))"
    if "Suc (j_attempts j) < max_attempts"
    by (rule keeps_update) (use a that in \<open>auto simp: job_cols job_facts\<close>)
  show ?thesis
    unfolding requeue_def Let_def by (auto intro!: keep_rules failed again)
qed

subsection \<open>Confiding a job\<close>

definition cand_ok :: "cand \<Rightarrow> bool" where
  "cand_ok c \<longleftrightarrow> (k_server c \<noteq> None) = (k_access c = Stream)"

lemma collect_mem:
  "collect s ts reserved j rest = Some cs \<Longrightarrow> c \<in> set cs \<Longrightarrow>
   \<exists>t \<in> set rest. eligible s j t \<and> 0 < slots s reserved t \<and> cand_of s ts j t = Some c"
proof (induction rest arbitrary: cs)
  case (Cons t rest)
  consider (skip) "collect s ts reserved j rest = Some cs"
    | (take) k c' cs' where "eligible s j t" "free_slots s reserved t = Some k" "0 < k" "cand_of s ts j t = Some c'"
        "collect s ts reserved j rest = Some cs'" "cs = c' # cs'"
    using Cons.prems(1) by (auto split: if_splits option.splits)
  then show ?case
  proof cases
    case skip
    then show ?thesis using Cons by auto
  next
    case take
    then show ?thesis using Cons.IH [of cs'] Cons.prems(2) by (auto simp: slots_def)
  qed
qed simp

lemma candidates_mem:
  assumes "candidates s ts reserved j = Some cs" and "c \<in> set cs"
  shows "\<exists>t \<in> set ts. eligible s j t \<and> 0 < slots s reserved t \<and> cand_of s ts j t = Some c"
  using assms collect_mem [of s ts reserved j ts] by (auto simp: candidates_def split: if_splits)

lemma cand_of_ok: "cand_of s ts j t = Some c \<Longrightarrow> cand_ok c \<and> k_tr c = t"
  by (auto simp: cand_of_def cand_ok_def split: src.splits option.splits if_splits)

lemma keeps_submit [simp]: "keeps r (submit_to_worker j t inp ps)"
  unfolding submit_to_worker_def Let_def by (intro keep_rules) (auto split: prod.split)

lemma keeps_identity [simp]: "keeps r (source_identity j)"
  unfolding source_identity_def by (intro keep_rules) (auto split: prod.split)

lemma keeps_confide:
  assumes c: "cand_ok c" and j: "j_attempts j < max_attempts"
  shows "keeps Dispatcher (confide j c)"
proof -
  have direct: "keeps Dispatcher (update_p (j_id j) [Pending] (\<lambda>r. base_cols c now (running_cols jid inp r)))"
    if "k_access c = Direct" for now jid inp
    by (rule keeps_update) (use c that in \<open>auto simp: job_cols job_facts cand_ok_def\<close>)
  have stream: "keeps Dispatcher (update_p (j_id j) [Pending]
      (\<lambda>r. (base_cols c now (running_cols jid inp r))\<lparr>j_token := Some tok\<rparr>))"
    if "k_access c = Stream" for now jid inp tok
    by (rule keeps_update) (use c that in \<open>auto simp: job_cols job_facts cand_ok_def\<close>)
  have copy: "keeps Dispatcher (update_p (j_id j) [Pending]
      (\<lambda>r. (base_cols c now r)\<lparr>j_status := TransferIn, j_phase := Some ''copy_in'', j_token := Some tok\<rparr>))"
    if "k_access c = Copy" for now tok
    by (rule keeps_update) (use c that in \<open>auto simp: job_cols job_facts cand_ok_def\<close>)
  have reject: "keeps Dispatcher (update_p (j_id j) [Pending] (fail_cols w t))" for w t
    by (rule keeps_update) (auto simp: job_cols job_facts)
  have start: "keeps Dispatcher (start_copy_in k t)" for k t
    unfolding start_copy_in_def by (intro keep_rules) simp_all
  have body: "keeps Dispatcher (case (k_access c, k_server c) of (Direct, _) \<Rightarrow> confide_direct j c now
      | (Stream, Some server) \<Rightarrow> confide_stream j c server now | _ \<Rightarrow> confide_copy j c now)" for now
  proof (cases "k_access c")
    case Direct
    then show ?thesis by (auto simp: confide_direct_def intro!: keep_rules direct)
  next
    case Stream
    then obtain sv where "k_server c = Some sv" using c by (auto simp: cand_ok_def)
    then show ?thesis using Stream
      by (auto simp: confide_stream_def Let_def split: prod.split intro!: keep_rules stream)
  next
    case Copy
    then show ?thesis by (auto simp: confide_copy_def split: prod.split intro!: keep_rules copy start)
  qed
  show ?thesis
    unfolding confide_def keeps_simps
    by (intro allI keeps_try body) (auto split: exn.split intro!: keep_rules reject keeps_requeue simp: j)
qed

lemma keeps_dispatch:
  assumes "j_attempts j < max_attempts"
  shows "keeps Dispatcher (dispatch j ts reserved)"
  unfolding dispatch_def
proof (rule keeps_get)
  fix s
  show "keeps Dispatcher (bind (lift_opt WBadReply (candidates s ts reserved j)) (\<lambda>cs. case cs of [] \<Rightarrow> Ret (False, reserved)
      | c # _ \<Rightarrow> bind (confide j c) (\<lambda>_. Ret (True, reserved(t_vmid (k_tr c) := reserved (t_vmid (k_tr c)) + 1)))))"
  proof (cases "candidates s ts reserved j")
    case (Some cs)
    show ?thesis
    proof (cases cs)
      case (Cons c cs')
      then have "cand_ok c" using candidates_mem [OF Some, of c] cand_of_ok by auto
      then show ?thesis using Some Cons assms
        by (auto simp: lift_opt_def intro!: keep_rules keeps_confide)
    qed (simp add: Some lift_opt_def)
  qed (simp add: lift_opt_def)
qed

lemma keeps_mark_waiting: "keeps Dispatcher (mark_waiting j ts)"
proof -
  have "keeps Dispatcher (update_p (j_id j) [Pending] (\<lambda>r. r\<lparr>j_phase := Some want\<rparr>))" for want
    by (rule keeps_update) (auto simp: job_facts)
  then show ?thesis unfolding mark_waiting_def by (auto intro!: keep_rules)
qed

lemma keeps_dispatch_all:
  "\<forall>j \<in> set js. j_attempts j < max_attempts \<Longrightarrow> keeps Dispatcher (dispatch_all ts js reserved)"
  by (induction js arbitrary: reserved)
    (auto split: prod.split intro!: keep_rules keeps_dispatch keeps_mark_waiting)

subsection \<open>Following a job\<close>

lemma keeps_finish: "keeps Dispatcher (finish j node path' info)"
proof -
  have "keeps Dispatcher (update_p (j_id j) [Running, TransferOut]
     (\<lambda>r. set_info info (r\<lparr>j_status := Finished, j_progress := 1, j_phase := None, j_out_node := node,
        j_out_path := path', j_completed := Some now\<rparr>)))" for now
    by (rule keeps_update) (auto simp: job_facts set_info_def split: option.splits)
  then show ?thesis unfolding finish_def
    by (auto split: option.split intro!: keep_rules)
qed

lemma keeps_requeue_return:
  assumes "j_attempts j < max_attempts"
  shows "keeps Dispatcher (requeue_return j w)"
proof -
  have failed: "keeps Dispatcher (update_p (j_id j) [TransferOut]
     (\<lambda>r. (fail_cols (WReturnImpossible w) now r)\<lparr>j_attempts := Suc (j_attempts j), j_out_node := j_worker_node j, j_out_path := j_work_out j\<rparr>))" for now
    by (rule keeps_update) (use assms in \<open>auto simp: job_cols job_facts\<close>)
  have again: "keeps Dispatcher (update_p (j_id j) [TransferOut]
     (\<lambda>r. r\<lparr>j_attempts := Suc (j_attempts j), j_error := Some w\<rparr>))"
    if "Suc (j_attempts j) < max_attempts"
    by (rule keeps_update) (use that in \<open>auto simp: job_facts\<close>)
  show ?thesis unfolding requeue_return_def Let_def by (auto intro!: keep_rules failed again)
qed

lemma keeps_start_return: "keeps Dispatcher (start_return j w)"
  unfolding start_return_def Let_def
  by (auto split: option.split prod.split intro!: keep_rules)

lemma keeps_follow_return:
  assumes "j_attempts j < max_attempts"
  shows "keeps Dispatcher (follow_return j w)"
  unfolding follow_return_def Let_def
  by (auto split: option.split task.split prod.split sum.split
      intro!: keep_rules keeps_start_return keeps_finish keeps_requeue_return [OF assms])

lemma keeps_follow_reply:
  "keeps Dispatcher (follow_reply j w d)"
proof -
  have run: "keeps Dispatcher (update_p (j_id j) [Running] (\<lambda>r. set_info i (r\<lparr>j_progress := pr, j_phase := ph\<rparr>)))" for i pr ph
    by (rule keeps_update) (auto simp: job_facts set_info_def split: option.splits access.splits)
  have out: "keeps Dispatcher (update_p (j_id j) [Running] (\<lambda>r. set_info i (r\<lparr>j_status := TransferOut, j_phase := ph,
      j_progress := 1, j_work_out := wo\<rparr>)))" for i ph wo
    by (rule keeps_update) (auto simp: job_facts set_info_def split: option.splits access.splits)
  have failed: "keeps Dispatcher (update_p (j_id j) [Running] (\<lambda>r. set_info i (fail_cols e now r)))" for i e now
    by (rule keeps_update) (auto simp: job_facts fail_cols_def set_info_def split: option.splits)
  have cancelled: "keeps Dispatcher (update_p (j_id j) [Running] (\<lambda>r. r\<lparr>j_status := Cancelled, j_phase := None,
      j_completed := Some now, j_error := e\<rparr>))" for now e
    by (rule keeps_update) (auto simp: job_facts)
  show ?thesis
    unfolding follow_reply_def Let_def
    by (auto intro!: keep_rules run out failed cancelled keeps_finish)
qed

lemma keeps_follow_lost:
  assumes "j_attempts j < max_attempts"
  shows "keeps Dispatcher (follow_lost j w e)"
proof -
  have "keeps Dispatcher (update_p (j_id j) [] (\<lambda>r. r\<lparr>j_lost := t\<rparr>))" for t
    by (rule keeps_update) (auto simp: job_facts split: jstatus.splits option.splits access.splits)
  then show ?thesis unfolding follow_lost_def
    by (auto split: option.split intro!: keep_rules keeps_requeue assms)
qed

lemma keeps_follow:
  assumes "j_attempts j < max_attempts"
  shows "keeps Dispatcher (follow j ts)"
proof -
  have lost: "keeps Dispatcher (update_p (j_id j) [] (\<lambda>r. r\<lparr>j_lost := t\<rparr>))" for t
    by (rule keeps_update) (auto simp: job_facts split: jstatus.splits option.splits access.splits)
  have running: "keeps Dispatcher (follow_running j w)" for w
    unfolding follow_running_def
    by (auto split: sum.split prod.split intro!: keep_rules keeps_requeue assms keeps_follow_reply)
  show ?thesis
    unfolding follow_def
    by (auto split: option.split intro!: keep_rules lost running keeps_requeue assms keeps_follow_lost keeps_follow_return)
qed

subsection \<open>A tick, the transfers and the requests\<close>

lemma keeps_place_one: "keeps Dispatcher (place_one j b)"
proof -
  have set: "keeps Dispatcher (set_bin_done i d)" for i d
  proof -
    have "keeps Dispatcher (update_p i [] (\<lambda>r. r\<lparr>j_bin_done := Some d\<rparr>))"
      by (rule keeps_update) (auto simp: job_facts split: jstatus.splits option.splits access.splits)
    then show ?thesis unfolding set_bin_done_def by (intro keep_rules) simp_all
  qed
  have asset: "keeps Dispatcher (output_asset j)"
    unfolding output_asset_def Let_def by (auto split: mres.split)
  show ?thesis unfolding place_one_def Let_def
    by (auto split: option.split list.split sum.split bool.split intro!: keep_rules keeps_attempt set asset)
qed

lemma keeps_refresh: "keeps Dispatcher (refresh_states ts)"
proof -
  have "keeps Dispatcher (put_mstate t m)" for t m
    unfolding put_mstate_def by (rule keeps_modify) simp_all
  then have "keeps Dispatcher (refresh_one now t)" for now t
    unfolding refresh_one_def by (auto intro!: keep_rules)
  then show ?thesis unfolding refresh_states_def by (auto intro!: keep_rules)
qed

lemma keeps_tick: "keeps Dispatcher tick"
proof -
  have bins: "keeps Dispatcher place_in_bins"
    unfolding place_in_bins_def
    by (auto split: option.split intro!: keep_rules keeps_place_one)
  have rest: "keeps Dispatcher (bind (get (rows_in [TransferIn])) (\<lambda>copies.
      bind (get pending_queue) (\<lambda>queue. dispatch_all ts queue (promised copies))))" for ts
    by (intro keep_rules keeps_get, simp, intro keeps_dispatch_all)
      (use farm_ok_rows in \<open>fastforce simp: pending_queue_def active_def dest: job_ok_attempts\<close>)
  have follows: "keeps Dispatcher (bind (get (rows_in [TransferIn, Running, TransferOut])) (\<lambda>js.
      bind (for_p js (\<lambda>j. try_p (follow j ts) (\<lambda>e. Ret ()))) (\<lambda>_.
      bind (get (rows_in [TransferIn])) (\<lambda>copies.
      bind (get pending_queue) (\<lambda>queue. dispatch_all ts queue (promised copies))))))" for ts
    by (intro keeps_get keep_rules rest keeps_follow keeps_simps)
      (use farm_ok_rows in \<open>fastforce simp: active_def dest: job_ok_attempts\<close>)
  show ?thesis
    unfolding tick_def by (intro keep_rules bins keeps_refresh follows) simp_all
qed

lemma farm_ok_copying:
  "farm_ok s \<Longrightarrow> find_job i s = Some j \<Longrightarrow> j_status j = TransferIn \<Longrightarrow> j_attempts j < max_attempts \<and> j_id j = i"
  using farm_ok_find [of s i j] by (auto simp: job_ok_def active_def)

lemma find_append: "find P (xs @ ys) = (case find P xs of None \<Rightarrow> find P ys | Some x \<Rightarrow> Some x)"
  by (induction xs) auto

lemma keeps_copy_in: "keeps (Transfer (CopyThread j t)) (copy_in_thread j t)"
proof -
  let ?r = "Transfer (CopyThread j t)"
  have run: "keeps ?r (update_p (j_id j) [TransferIn] (running_cols jid inp))" for jid inp
    by (rule keeps_update) (auto simp: job_cols job_facts)
  have reject: "keeps ?r (update_p (j_id j) [TransferIn] (\<lambda>r. (fail_cols w now r)\<lparr>j_work_in := i\<rparr>))" for w now i
    by (rule keeps_update) (auto simp: job_cols job_facts)
  have body: "keeps ?r (copy_in_body j t)"
    unfolding copy_in_body_def Let_def
    by (auto split: hres.split option.split prod.split exn.split sum.split intro!: keep_rules run reject)
  have again: "keeps ?r (bind (get (find_job (j_id j))) (\<lambda>row. case row of None \<Rightarrow> Ret ()
      | Some cur \<Rightarrow> when_p (j_status cur = TransferIn) (requeue cur w)))" for w
    by (rule keeps_get)
      (auto split: option.split intro!: keeps_requeue dest: farm_ok_copying)
  show ?thesis unfolding copy_in_thread_def by (intro keep_rules body again) simp
qed

lemma keeps_return: "keeps (Transfer (ReturnThread j u sd d)) (return_thread j u sd d)"
  unfolding return_thread_def by (auto split: hres.split prod.split intro!: keep_rules)

lemma keeps_thread: "keeps (Transfer th) (thread_body th)"
  by (cases th) (simp_all add: keeps_copy_in keeps_return)

lemma keeps_value [simp]: "keeps r (value_or_raise v)" "keeps r (check_p b)"
  by (simp_all add: value_or_raise_def check_p_def split: option.split)

lemma job_ok_new [simp]:
  "job_ok (new_job pr sr p jt ps out prio u now)" "j_status (new_job pr sr p jt ps out prio u now) = Pending"
  by (simp_all add: new_job_def job_facts)

lemma keeps_insert:
  assumes r: "submitting r" and j: "job_ok j" "j_status j = Pending"
  shows "keeps r (insert_p j)"
proof -
  have "step_ok r s (snd (insert_job j s))" if s: "farm_ok s" for s
  proof -
    let ?j = "j\<lparr>j_id := next_job s\<rparr>"
    have new: "next_job s \<notin> j_id ` set (jobs s)" using s by (auto simp: farm_ok_def)
    have "job_ok ?j" using j by (simp add: job_ok_def waiting_def)
    then have "farm_ok (snd (insert_job j s))"
      using s new by (auto simp: farm_ok_def insert_job_def less_Suc_eq)
    moreover have "may r i (find_job i s) (find_job i (snd (insert_job j s)))" for i
    proof (cases "find_job i s")
      case None
      then show ?thesis using r j(2) by (cases "i = next_job s") (auto simp: insert_job_def find_job_def find_append)
    next
      case (Some k)
      then have "find_job i (snd (insert_job j s)) = Some k"
        by (simp add: insert_job_def find_job_def find_append)
      then show ?thesis using Some may_refl by simp
    qed
    ultimately show ?thesis by (simp add: step_ok_def insert_job_def)
  qed
  then show ?thesis unfolding keeps_def insert_p_def by (intro guar_atom) simp
qed

lemma keeps_op: "keeps (User q) (op_prog q)"
proof (cases q)
  case (OpCancel i)
  have "keeps (User (OpCancel i)) (update_p i active (\<lambda>r. r\<lparr>j_status := Cancelled, j_phase := None, j_completed := Some now\<rparr>))" for now
    by (rule keeps_update) (auto simp: job_facts)
  then show ?thesis unfolding OpCancel op_prog.simps cancel_def
    by (auto split: option.split intro!: keep_rules)
next
  case (OpRetry i)
  have "keeps (User (OpRetry i)) (update_p i finished retry_cols)"
    by (rule keeps_update) (auto simp: job_cols job_facts)
  then show ?thesis unfolding OpRetry op_prog.simps retry_def
    by (auto split: option.split intro!: keep_rules)
next
  case (OpPriority i v)
  have "keeps (User (OpPriority i v)) (update_p i [Pending] (\<lambda>r. r\<lparr>j_priority := prio\<rparr>))" for prio
    by (rule keeps_update) (auto simp: job_facts)
  then show ?thesis unfolding OpPriority op_prog.simps set_priority_def done_p_def
    by (auto intro!: keep_rules)
next
  case (OpPurge ps)
  have "step_ok (User (OpPurge ps)) s (s\<lparr>jobs := filter (\<lambda>j. \<not> purgeable ps j) (jobs s)\<rparr>)" if s: "farm_ok s" for s
  proof -
    have d: "distinct (map j_id (jobs s))" using s by (simp add: farm_ok_def)
    let ?s = "s\<lparr>jobs := filter (\<lambda>j. \<not> purgeable ps j) (jobs s)\<rparr>"
    have d': "distinct (map j_id (jobs ?s))" using d by (simp add: distinct_map_filter)
    have "may (User (OpPurge ps)) i (find_job i s) (find_job i ?s)" for i
    proof (cases "find_job i s")
      case None
      then have "find_job i ?s = None" by (auto simp: find_job_def find_None_iff)
      then show ?thesis using None by simp
    next
      case (Some j)
      show ?thesis
      proof (cases "purgeable ps j")
        case True
        have "find_job i ?s \<noteq> Some k" for k
          using Some True find_job_iff [OF d, of i k] find_job_iff [OF d', of i k] by auto
        then have "find_job i ?s = None" by (cases "find_job i ?s") auto
        then show ?thesis using Some True by simp
      next
        case False
        then have "find_job i ?s = Some j" using Some find_job_iff [OF d] find_job_iff [OF d'] by simp
        then show ?thesis using Some may_refl by simp
      qed
    qed
    moreover have "farm_ok ?s" using s d' by (auto simp: farm_ok_def)
    ultimately show ?thesis by (simp add: step_ok_def)
  qed
  then have "keeps (User (OpPurge ps)) (purge ps)"
    unfolding purge_def keeps_def by (auto intro!: guar_atom)
  then show ?thesis unfolding OpPurge op_prog.simps done_p_def by (intro keep_rules) simp_all
next
  case (OpMember v b)
  show ?thesis unfolding OpMember op_prog.simps set_member_def
    by (auto intro!: keep_rules keeps_modify)
next
  case (OpSubmit pr sr p jt ps prio out u b)
  show ?thesis unfolding OpSubmit op_prog.simps submit_def done_p_def
    by (auto intro!: keep_rules keeps_insert simp: new_job_def job_facts)
next
  case (OpAsset a jt ps prio out u v b)
  show ?thesis unfolding OpAsset op_prog.simps submit_asset_def done_p_def
    by (auto split: mres.split intro!: keep_rules keeps_insert simp: new_job_def job_facts)
next
  case (OpProxy a n p rel k prio u sb)
  show ?thesis unfolding OpProxy op_prog.simps submit_proxy_def done_p_def
    by (auto intro!: keep_rules keeps_insert simp: new_job_def job_facts)
next
  case (OpStoryboard a n p prio u)
  show ?thesis unfolding OpStoryboard op_prog.simps submit_storyboard_def done_p_def Let_def
    by (auto intro!: keep_rules keeps_insert simp: new_job_def job_facts)
qed

subsection \<open>The whole system\<close>

definition sys_ok :: "sys \<Rightarrow> bool" where
  "sys_ok y \<longleftrightarrow> farm_ok (shared y) \<and> (\<forall>(r, p) \<in> set (pool y). keeps r p)"

lemma keeps_advance:
  assumes "keeps r p" and "farm_ok s" and "advance a p s = Some (p', s', th)"
  shows "keeps r p' \<and> step_ok r s s'"
  using guar_advance [OF assms(1) [unfolded keeps_def] assms(2,3)] step_ok_same [OF assms(2), of s]
  by (auto simp: keeps_def)

lemma sys_step_ok:
  assumes y: "sys_ok y" and st: "sys_step c y = Some y'"
  shows "sys_ok y' \<and>
     (case c of Go i a \<Rightarrow> step_ok (fst (pool y ! i)) (shared y) (shared y')
      | _ \<Rightarrow> jobs (shared y') = jobs (shared y))"
proof (cases c)
  case (Go i a)
  obtain p s th where i: "i < length (pool y)" and adv: "advance a (snd (pool y ! i)) (shared y) = Some (p, s, th)"
    and y': "y' = y\<lparr>shared := s, pool := (pool y)[i := (fst (pool y ! i), p)]
                     @ (case th of None \<Rightarrow> [] | Some t \<Rightarrow> [(Transfer t, thread_body t)])\<rparr>"
    using st Go by (auto split: if_splits option.splits)
  have "pool y ! i \<in> set (pool y)" using i by simp
  then have "keeps (fst (pool y ! i)) (snd (pool y ! i))" using y by (force simp: sys_ok_def)
  from keeps_advance [OF this _ adv] y have k: "keeps (fst (pool y ! i)) p"
    and s: "step_ok (fst (pool y ! i)) (shared y) s" by (auto simp: sys_ok_def)
  have "\<forall>(r, q) \<in> set ((pool y)[i := (fst (pool y ! i), p)]). keeps r q"
    using subsetD [OF set_update_subset_insert] y k by (fastforce simp: sys_ok_def)
  then have "sys_ok y'" using s unfolding sys_ok_def y'
    by (auto simp: keeps_thread step_ok_def split: option.splits)
  then show ?thesis using Go s y' by simp
next
  case (Outside x)
  then show ?thesis using y st by (auto simp: sys_ok_def farm_ok_def)
next
  case Restart
  then show ?thesis using y st by (auto simp: sys_ok_def farm_ok_def)
qed (use y st keeps_tick keeps_op in \<open>auto simp: sys_ok_def split: if_splits\<close>)

lemma reachable_ok: "reachable y \<Longrightarrow> sys_ok y"
proof (induction rule: reachable.induct)
  case (start x)
  show ?case by (simp add: sys0_def sys_ok_def farm_ok_def)
next
  case (move y c y')
  then show ?case using sys_step_ok by blast
qed

end
