(* ===== verification/Farm_Order.thy ===== *)
theory Farm_Order
  imports Farm_Keeps "HOL-Library.Sublist"
begin

text \<open>
  The order in which a tick serves its queue.  \<open>plan_jobs\<close> is the reference: the jobs in order, each with the best
  transcoder that is left.  Every behaviour of \<open>dispatch_all\<close> follows it (\<open>dispatch_follows_plan\<close>), whatever the
  other threads do to the table of jobs; the plan overtakes no job (\<open>plan_overtakes\<close>) and never promises a place twice
  (\<open>plan_places\<close>).
\<close>

definition book :: "(nat \<Rightarrow> int) \<Rightarrow> tr \<Rightarrow> nat \<Rightarrow> int" where
  "book reserved t = reserved(t_vmid t := reserved (t_vmid t) + 1)"

fun plan_jobs :: "farm \<Rightarrow> tr list \<Rightarrow> job list \<Rightarrow> (nat \<Rightarrow> int) \<Rightarrow> (job \<times> cand) list" where
  "plan_jobs s ts [] reserved = []"
| "plan_jobs s ts (j # js) reserved =
     (case candidates s ts reserved j of
        Some (c # cs) \<Rightarrow> (j, c) # plan_jobs s ts js (book reserved (k_tr c))
      | _ \<Rightarrow> plan_jobs s ts js reserved)"

text \<open>The requests that hand a job over, and the job they name.\<close>

fun takes :: "req \<Rightarrow> bool" where
  "takes (Submit _ _ _ _) = True"
| "takes (Receive _ _) = True"
| "takes _ = False"

fun names_job :: "req \<Rightarrow> job \<Rightarrow> bool" where
  "names_job (Submit jt inp ps out) j \<longleftrightarrow> pget ps ''_farm_job'' = JNum (of_nat (j_id j))"
| "names_job (Receive tok dest) j \<longleftrightarrow> dest = in_work_dir ''in'' (j_id j) @ ''/'' @ basename (j_path j)"
| "names_job _ j \<longleftrightarrow> False"

definition handed :: "(tr \<times> req) list \<Rightarrow> (tr \<times> req) list" where
  "handed cs = filter (\<lambda>(t, q). takes q) cs"

definition serves :: "tr \<times> req \<Rightarrow> job \<times> cand \<Rightarrow> bool" where
  "serves x y \<longleftrightarrow> fst x = k_tr (snd y) \<and> names_job (snd x) (fst y)"

lemma handed_simps [simp]: "handed [] = []" "handed (as @ bs) = handed as @ handed bs"
  "handed ((t, q) # cs) = (if takes q then (t, q) # handed cs else handed cs)"
  by (simp_all add: handed_def)

subsection \<open>What does not touch the plan\<close>

text \<open>The other threads change the table of jobs, not the states of the transcoders nor what surrounds the farm.\<close>

definition steady :: "farm \<Rightarrow> farm \<Rightarrow> bool" where
  "steady s s' \<longleftrightarrow> mstates s' = mstates s \<and> env s' = env s"

lemma steady_capable: "steady s s' \<Longrightarrow> farm_capable s' t = farm_capable s t"
  by (simp add: steady_def farm_capable_def)

lemma steady_state: "steady s s' \<Longrightarrow> state_of s' = state_of s"
  by (simp add: steady_def state_of_def fun_eq_iff)

lemma steady_slots: "steady s s' \<Longrightarrow> free_slots s' reserved t = free_slots s reserved t"
  unfolding free_slots_def by (simp only: steady_state)

lemma steady_eligible: "steady s s' \<Longrightarrow> eligible s' j t = eligible s j t"
  by (simp add: eligible_def steady_capable able_def steady_state)

lemma steady_env: "steady s s' \<Longrightarrow> env s' = env s"
  by (simp add: steady_def)

lemma steady_server: "steady s s' \<Longrightarrow> server_for s' ts j = server_for s ts j"
  by (simp add: server_for_def steady_capable)

lemma steady_cand: "steady s s' \<Longrightarrow> cand_of s' ts j t = cand_of s ts j t"
  unfolding cand_of_def by (simp only: steady_server steady_env)

lemma steady_candidates:
  assumes "steady s s'"
  shows "candidates s' ts reserved j = candidates s ts reserved j"
proof -
  have "collect s' ts reserved j rest = collect s ts reserved j rest" for rest
    by (induction rest)
      (simp_all only: collect.simps steady_eligible [OF assms] steady_slots [OF assms] steady_cand [OF assms])
  moreover have "slots s' reserved t = slots s reserved t" for t
    by (simp only: slots_def steady_slots [OF assms])
  ultimately show ?thesis unfolding candidates_def by (simp only: steady_env [OF assms])
qed

subsection \<open>The calls of the programs\<close>

named_theorems silent \<open>programs that hand no job over\<close>

definition hands_none :: "'a prog \<Rightarrow> bool" where
  "hands_none p \<longleftrightarrow> (\<forall>I cs r. behaves I p cs r \<longrightarrow> handed cs = [])"

lemma hands_none_simps [silent]:
  "hands_none (Ret x)" "hands_none (Raise e)"
  "(\<And>x. hands_none (k1 x)) \<Longrightarrow> hands_none (Now k1)" "(\<And>x. hands_none (k2 x)) \<Longrightarrow> hands_none (Fresh k2)"
  "(\<And>x. hands_none (k3 x)) \<Longrightarrow> hands_none (Probe n y k3)"
  by (auto simp: hands_none_def)

lemma hands_none_bind [silent]: "hands_none p \<Longrightarrow> (\<And>x. hands_none (k x)) \<Longrightarrow> hands_none (bind p k)"
  unfolding hands_none_def by (auto elim!: behaves_bindE) (metis append_Nil handed_simps(2))+

lemma behaves_try:
  "behaves I (try_p p h) cs r \<Longrightarrow>
   behaves I p cs r \<and> (\<exists>x. r = Inr x) \<or>
   (\<exists>e as bs. behaves I p as (Inl e) \<and> behaves I (h e) bs r \<and> cs = as @ bs)"
proof (induction p arbitrary: cs rule: prog_induct)
  case (Ret x)
  then show ?case by (auto intro: behaves_Ret)
next
  case (Raise e)
  then show ?case by (metis append_Nil behaves_Raise try_p.simps(2))
next
  case (Atom f)
  then obtain s where s: "I s" and q: "behaves I (try_p (fst (f s)) h) cs r" by (auto elim!: behaves_AtomE)
  from Atom.IH [OF q] s show ?case by (metis behaves_Atom)
next
  case (Now g)
  then obtain x where q: "behaves I (try_p (g x) h) cs r" by auto
  from Now.IH [OF q] show ?case by (metis behaves_Now)
next
  case (Fresh g)
  then obtain x where q: "behaves I (try_p (g x) h) cs r" by auto
  from Fresh.IH [OF q] show ?case by (metis behaves_Fresh)
next
  case (Call t q g)
  then obtain x cs' where c: "cs = (t, q) # cs'" and b: "behaves I (try_p (g x) h) cs' r"
    by (auto elim!: behaves_CallE)
  from Call.IH [OF b] show ?case unfolding c by (metis append_Cons behaves_Call)
next
  case (Host n c g)
  then obtain x where q: "behaves I (try_p (g x) h) cs r" by auto
  from Host.IH [OF q] show ?case by (metis behaves_Host)
next
  case (Probe n y g)
  then obtain x where q: "behaves I (try_p (g x) h) cs r" by auto
  from Probe.IH [OF q] show ?case by (metis behaves_Probe)
next
  case (Media q g)
  then obtain x where q: "behaves I (try_p (g x) h) cs r" by auto
  from Media.IH [OF q] show ?case by (metis behaves_Media)
next
  case (Notice n p)
  then have q: "behaves I (try_p p h) cs r" by auto
  from Notice.IH [OF q] show ?case by (metis behaves_Notice)
next
  case (Spawn t p)
  then have q: "behaves I (try_p p h) cs r" by auto
  from Spawn.IH [OF q] show ?case by (metis behaves_Spawn)
qed

lemma hands_none_try [silent]: "hands_none p \<Longrightarrow> (\<And>e. hands_none (h e)) \<Longrightarrow> hands_none (try_p p h)"
  unfolding hands_none_def by (metis append_Nil behaves_try handed_simps(2))

lemma hands_none_atom [silent]: "hands_none (atom f)" "hands_none (get g)" "hands_none (modify u)" "hands_none (update_p i ex w)"
  by (auto simp: hands_none_def get_def modify_def update_p_def atom_def elim!: behaves_AtomE)

lemma hands_none_when [silent]: "(b \<Longrightarrow> hands_none p) \<Longrightarrow> hands_none (when_p b p)"
  by (simp add: when_p_def hands_none_simps)

lemma hands_none_for [silent]: "(\<And>x. hands_none (body x)) \<Longrightarrow> hands_none (for_p xs body)"
  by (induction xs) (auto intro!: silent)

lemma hands_none_lift [silent]: "hands_none (lift_opt w v)"
  by (simp add: lift_opt_def silent split: option.split)

lemma behaves_call:
  "behaves I (call_p t q) cs r \<Longrightarrow> cs = [] \<and> (\<exists>e. r = Inl e) \<or> cs = [(t, q)]"
  by (auto simp: call_p_def split: if_splits resp.splits elim!: behaves_CallE)

lemma hands_none_call [silent]: "\<not> takes q \<Longrightarrow> hands_none (call_p t q)"
  using behaves_call [where t = t and q = q] unfolding hands_none_def by fastforce

lemma hands_none_quiet [silent]: "\<not> takes q \<Longrightarrow> hands_none (call_quiet t q)"
  unfolding call_quiet_def by (intro silent)

lemma hands_none_cleanup [silent]: "hands_none (cleanup j)"
  unfolding cleanup_def by (auto split: option.split intro!: silent)

lemma hands_none_requeue [silent]: "hands_none (requeue j w)"
  unfolding requeue_def Let_def by (auto intro!: silent)

lemma hands_none_identity [silent]: "hands_none (source_identity j)"
  unfolding source_identity_def by (auto split: prod.split intro!: silent)

lemma hands_none_waiting [silent]: "hands_none (mark_waiting j ts)"
  unfolding mark_waiting_def by (auto intro!: silent)

lemma hands_none_start [silent]: "hands_none (start_copy_in j t)"
  unfolding start_copy_in_def task_put_def
  by (rule hands_none_bind [OF hands_none_atom(3)]) (auto simp: hands_none_def)

subsection \<open>Programs that raise no exception\<close>

named_theorems calm \<open>programs that raise no exception\<close>

definition calmly :: "'a prog \<Rightarrow> bool" where
  "calmly p \<longleftrightarrow> (\<forall>I cs e. \<not> behaves I p cs (Inl e))"

lemma calmly_simps [calm]:
  "calmly (Ret x)" "calmly (atom f)" "calmly (get g)" "calmly (modify u)" "calmly (update_p i ex w)"
  "(\<And>x. calmly (k1 x)) \<Longrightarrow> calmly (Now k1)"
  by (auto simp: calmly_def get_def modify_def update_p_def atom_def elim!: behaves_AtomE)

lemma calmly_bind [calm]: "calmly p \<Longrightarrow> (\<And>x. calmly (k x)) \<Longrightarrow> calmly (bind p k)"
  unfolding calmly_def by (blast elim!: behaves_bindE)

lemma calmly_try [calm]: "(\<And>e. calmly (h e)) \<Longrightarrow> calmly (try_p p h)"
  unfolding calmly_def using behaves_try by blast

lemma calmly_when [calm]: "(b \<Longrightarrow> calmly p) \<Longrightarrow> calmly (when_p b p)"
  by (simp add: when_p_def calmly_simps)

lemma calmly_for [calm]: "(\<And>x. calmly (body x)) \<Longrightarrow> calmly (for_p xs body)"
  by (induction xs) (auto intro!: calm)

lemma calmly_requeue: "calmly (requeue j w)"
proof -
  have "calmly (cleanup j)"
    unfolding cleanup_def call_quiet_def by (auto split: option.split intro!: calm)
  then show ?thesis unfolding requeue_def Let_def by (auto intro!: calm)
qed

lemma calmly_confide: "calmly (confide j c)"
  unfolding confide_def by (intro calm) (auto split: exn.split intro!: calm calmly_requeue)

subsection \<open>What a dispatch hands over\<close>

lemma worker_params_names: "pget (worker_params j extra) ''_farm_job'' = JNum (of_nat (j_id j))"
  by (simp add: worker_params_def Let_def pget_def split: option.split)

lemma handed_submit:
  assumes "behaves I (submit_to_worker j t inp (worker_params j extra)) cs r"
  shows "handed cs = [] \<or> (\<exists>q. handed cs = [(t, q)] \<and> names_job q j)"
proof -
  obtain out where "behaves I (bind (call_p t (Submit (j_type j) inp (worker_params j extra) out)) (\<lambda>(c, r).
      if c = 400 \<or> c = 404 then Raise (Rejected (error_of r c))
      else if c \<noteq> 200 \<or> \<not> truthy (pget r ''ok'') then Raise (Failure (error_of r c))
      else lift_opt WBadReply (json_int (pget r ''id'')))) cs r"
    using assms unfolding submit_to_worker_def Let_def by blast
  then show ?thesis
  proof (cases rule: behaves_bindE)
    case (stops e)
    then show ?thesis using behaves_call worker_params_names by fastforce
  next
    case (goes x as bs)
    then have "bs = []" by (auto simp: lift_opt_def split: if_splits option.splits prod.splits)
    then show ?thesis using behaves_call [OF goes(1)] goes(3) worker_params_names by fastforce
  qed
qed

definition hands_one :: "job \<Rightarrow> tr \<Rightarrow> 'a prog \<Rightarrow> bool" where
  "hands_one j t p \<longleftrightarrow>
     (\<forall>I cs r. behaves I p cs r \<longrightarrow> handed cs = [] \<or> (\<exists>q. handed cs = [(t, q)] \<and> names_job q j))"

lemma hands_one_submit: "hands_one j t (submit_to_worker j t inp (worker_params j extra))"
  unfolding hands_one_def using handed_submit by blast

lemma hands_one_none: "hands_none p \<Longrightarrow> hands_one j t p"
  by (simp add: hands_one_def hands_none_def)

lemma hands_one_bind1:
  assumes "hands_one j t p" and "\<And>x. hands_none (k x)"
  shows "hands_one j t (bind p k)"
  using assms unfolding hands_one_def hands_none_def
  by (auto elim!: behaves_bindE) (metis append_Nil2)+

lemma hands_one_bind2:
  assumes "hands_none p" and "\<And>x. hands_one j t (k x)"
  shows "hands_one j t (bind p k)"
  using assms unfolding hands_one_def hands_none_def
  by (auto elim!: behaves_bindE) (metis append_Nil)+

lemma hands_one_try:
  assumes "hands_one j t p" and "\<And>e. hands_none (h e)"
  shows "hands_one j t (try_p p h)"
  unfolding hands_one_def
proof (intro allI impI)
  fix I cs r
  assume "behaves I (try_p p h) cs r"
  from behaves_try [OF this] show "handed cs = [] \<or> (\<exists>q. handed cs = [(t, q)] \<and> names_job q j)"
    using assms unfolding hands_one_def hands_none_def by (metis append_Nil2 handed_simps(2))
qed

lemma hands_one_Fresh: "(\<And>x. hands_one j t (k x)) \<Longrightarrow> hands_one j t (Fresh k)"
  by (auto simp: hands_one_def)

lemma hands_one_receive:
  "hands_one j t (call_p t (Receive tok (in_work_dir ''in'' (j_id j) @ ''/'' @ basename (j_path j))))"
  unfolding hands_one_def using behaves_call by fastforce

lemma hands_one_confide: "hands_one j (k_tr c) (confide j c)"
proof -
  have direct: "hands_one j (k_tr c) (confide_direct j c now)" for now
    unfolding confide_direct_def by (intro hands_one_bind1 hands_one_submit) (intro silent)
  have read: "hands_one j (k_tr c) (bind (source_identity j) (\<lambda>d. submit_to_worker j (k_tr c) url (remote_params j d)))" for url
    unfolding remote_params_def by (intro hands_one_bind2 hands_one_submit) (intro silent)
  have inner: "hands_one j (k_tr c) (bind (try_p (bind (source_identity j) (\<lambda>d. submit_to_worker j (k_tr c) url (remote_params j d)))
      (\<lambda>e. bind (call_quiet sv (Unshare tok)) (\<lambda>_. Raise e))) (\<lambda>jid. bind (update_p i ex (f jid)) (\<lambda>_. Ret ())))"
    for url sv tok i ex f
    by (intro hands_one_bind1 hands_one_try read) (intro silent; simp)+
  have stream: "hands_one j (k_tr c) (confide_stream j c sv now)" for sv now
    unfolding confide_stream_def Let_def
    by (intro hands_one_Fresh hands_one_bind2)
      (auto split: prod.split intro!: inner hands_one_none intro: silent)
  have copy: "hands_one j (k_tr c) (confide_copy j c now)" for now
    unfolding confide_copy_def
    by (intro hands_one_Fresh hands_one_bind1 hands_one_receive) (auto split: prod.split intro!: silent)
  have body: "hands_one j (k_tr c) (case (k_access c, k_server c) of (Direct, _) \<Rightarrow> confide_direct j c now
      | (Stream, Some server) \<Rightarrow> confide_stream j c server now | _ \<Rightarrow> confide_copy j c now)" for now
    by (auto split: access.split option.split simp: direct stream copy)
  have "hands_one j (k_tr c) (try_p (case (k_access c, k_server c) of (Direct, _) \<Rightarrow> confide_direct j c now
      | (Stream, Some server) \<Rightarrow> confide_stream j c server now | _ \<Rightarrow> confide_copy j c now)
      (\<lambda>e. case e of Rejected w \<Rightarrow> Now (\<lambda>t. bind (update_p (j_id j) [Pending] (fail_cols (WAt (t_host (k_tr c)) w) t)) (\<lambda>_. Ret ()))
        | _ \<Rightarrow> requeue j (WAt (t_host (k_tr c)) (reason e))))" for now
    by (rule hands_one_try [OF body]) (auto split: exn.split intro!: silent)
  then show ?thesis unfolding confide_def hands_one_def by blast
qed

text \<open>One turn of the queue, in a state like \<open>s\<close>.\<close>

lemma dispatch_turn:
  assumes "behaves (steady s) (dispatch j ts reserved) cs r"
  shows "case candidates s ts reserved j of
      None \<Rightarrow> handed cs = [] \<and> (\<exists>e. r = Inl e)
    | Some [] \<Rightarrow> handed cs = [] \<and> r = Inr (False, reserved)
    | Some (c # _) \<Rightarrow> (handed cs = [] \<or> (\<exists>q. handed cs = [(k_tr c, q)] \<and> names_job q j)) \<and>
        r = Inr (True, book reserved (k_tr c))"
proof -
  have step: "behaves (steady s) (bind (lift_opt WBadReply (candidates s ts reserved j)) (\<lambda>cs. case cs of [] \<Rightarrow> Ret (False, reserved)
      | c # _ \<Rightarrow> bind (confide j c) (\<lambda>_. Ret (True, reserved(t_vmid (k_tr c) := reserved (t_vmid (k_tr c)) + 1))))) cs r"
    using assms unfolding dispatch_def get_def atom_def
    by (auto elim!: behaves_AtomE simp: steady_candidates)
  show ?thesis
  proof (cases "candidates s ts reserved j")
    case None
    then show ?thesis using step by (auto simp: lift_opt_def)
  next
    case (Some l)
    show ?thesis
    proof (cases l)
      case Nil
      then show ?thesis using step Some by (auto simp: lift_opt_def)
    next
      case (Cons c l')
      then have "behaves (steady s) (bind (confide j c) (\<lambda>_. Ret (True, book reserved (k_tr c)))) cs r"
        using step Some by (simp add: lift_opt_def book_def)
      then show ?thesis
      proof (cases rule: behaves_bindE)
        case (stops e)
        then show ?thesis using calmly_confide by (auto simp: calmly_def)
      next
        case (goes x as bs)
        then have "r = Inr (True, book reserved (k_tr c))" "cs = as" by auto
        then show ?thesis using goes(1) hands_one_confide [of j c] Some Cons by (auto simp: hands_one_def)
      qed
    qed
  qed
qed

definition turn :: "tr list \<Rightarrow> job \<Rightarrow> (nat \<Rightarrow> int) \<Rightarrow> (nat \<Rightarrow> int) prog" where
  "turn ts j reserved =
     try_p (bind (dispatch j ts reserved) (\<lambda>(handled, reserved').
            bind (when_p (\<not> handled) (mark_waiting j ts)) (\<lambda>_. Ret reserved')))
       (\<lambda>e. Ret reserved)"

lemma turn_end:
  assumes "behaves (steady s) (bind (when_p b (mark_waiting j ts)) (\<lambda>_. Ret x)) cs r"
  shows "handed cs = [] \<and> r = Inr x"
proof -
  have "hands_none (bind (when_p b (mark_waiting j ts)) (\<lambda>_. Ret x))" by (intro silent)
  then have "handed cs = []" using assms unfolding hands_none_def by blast
  moreover have "calmly (when_p b (mark_waiting j ts))"
    unfolding mark_waiting_def by (auto intro!: calm)
  ultimately show ?thesis using assms
    by (auto elim!: behaves_bindE simp: calmly_def)
qed

lemma turn_outcome:
  assumes "behaves (steady s) (turn ts j reserved) cs r"
  shows "case candidates s ts reserved j of
      Some (c # _) \<Rightarrow> (handed cs = [] \<or> (\<exists>q. handed cs = [(k_tr c, q)] \<and> names_job q j)) \<and> r = Inr (book reserved (k_tr c))
    | _ \<Rightarrow> handed cs = [] \<and> r = Inr reserved"
proof -
  let ?rest = "\<lambda>(handled, reserved'). bind (when_p (\<not> handled) (mark_waiting j ts)) (\<lambda>_. Ret reserved')"
  have "(\<exists>x as bs. behaves (steady s) (dispatch j ts reserved) as (Inr x) \<and> behaves (steady s) (?rest x) bs r \<and> cs = as @ bs) \<or>
      (\<exists>e. behaves (steady s) (bind (dispatch j ts reserved) ?rest) cs (Inl e) \<and> r = Inr reserved)"
    using behaves_try [OF assms [unfolded turn_def]]
  proof (elim disjE conjE exE)
    fix x
    assume "behaves (steady s) (bind (dispatch j ts reserved) ?rest) cs r" "r = Inr x"
    then show ?thesis by (cases rule: behaves_bindE) (simp, blast)
  next
    fix e as bs
    assume "behaves (steady s) (bind (dispatch j ts reserved) ?rest) as (Inl e)"
      "behaves (steady s) (Ret reserved) bs r" "cs = as @ bs"
    then show ?thesis by auto
  qed
  then consider (runs) x as bs where "behaves (steady s) (dispatch j ts reserved) as (Inr x)"
      "behaves (steady s) (?rest x) bs r" "cs = as @ bs"
    | (raises) e where "behaves (steady s) (bind (dispatch j ts reserved) ?rest) cs (Inl e)" "r = Inr reserved"
    by blast
  then show ?thesis
  proof cases
    case runs
    obtain h r1 where x: "x = (h, r1)" by (cases x)
    have e: "handed bs = []" "r = Inr r1" using turn_end [of s "\<not> h" j ts r1 bs r] runs(2) x by auto
    show ?thesis using dispatch_turn [OF runs(1)] e runs(3) x
      by (auto split: option.splits list.splits)
  next
    case raises
    have "behaves (steady s) (dispatch j ts reserved) cs (Inl e)"
      using raises(1)
    proof (cases rule: behaves_bindE)
      case (goes x as bs)
      then show ?thesis using turn_end [of s "\<not> fst x" j ts "snd x" bs "Inl e"] by (cases x) auto
    qed simp
    from dispatch_turn [OF this] show ?thesis using raises(2) by (auto split: option.splits list.splits)
  qed
qed

lemma dispatch_all_Cons: "dispatch_all ts (j # js) reserved = bind (turn ts j reserved) (\<lambda>r'. dispatch_all ts js r')"
  by (simp add: turn_def)

text \<open>Every behaviour of the loop over the queue hands jobs over along the plan; a transcoder may refuse.\<close>

lemma follows_plan:
  "behaves (steady s) (dispatch_all ts js reserved) cs r \<Longrightarrow>
   \<exists>plan. subseq plan (plan_jobs s ts js reserved) \<and> list_all2 serves (handed cs) plan"
proof (induction js arbitrary: reserved cs)
  case Nil
  then show ?case by auto
next
  case (Cons j js)
  from Cons.prems [unfolded dispatch_all_Cons] show ?case
  proof (cases rule: behaves_bindE)
    case (stops e)
    then show ?thesis using turn_outcome [OF stops(1)] by (auto split: option.splits list.splits)
  next
    case (goes r' as bs)
    from Cons.IH [OF goes(2)] obtain plan where
      plan: "subseq plan (plan_jobs s ts js r')" "list_all2 serves (handed bs) plan" by blast
    note out = turn_outcome [OF goes(1)]
    show ?thesis
    proof (cases "\<exists>c l. candidates s ts reserved j = Some (c # l)")
      case True
      then obtain c l where c: "candidates s ts reserved j = Some (c # l)" by blast
      have r': "r' = book reserved (k_tr c)" using out c by auto
      from out c consider "handed as = []" | q where "handed as = [(k_tr c, q)]" "names_job q j" by auto
      then show ?thesis
      proof cases
        case 1
        then show ?thesis using plan c r' goes(3) by (intro exI [of _ plan]) auto
      next
        case 2
        then show ?thesis using plan c r' goes(3)
          by (intro exI [of _ "(j, c) # plan"]) (simp add: serves_def [of "(k_tr c, q)"])
      qed
    next
      case False
      then have "handed as = []" "r' = reserved" "plan_jobs s ts (j # js) reserved = plan_jobs s ts js reserved"
        using out by (auto split: option.splits list.splits)
      then show ?thesis using plan goes(3) by auto
    qed
  qed
qed

subsection \<open>The plan promises no place twice and overtakes no job\<close>

lemma slots_book: "free_slots s (book reserved t) u =
    map_option (\<lambda>k. if t_vmid u = t_vmid t then k - 1 else k) (free_slots s reserved u)"
  by (auto simp: free_slots_def book_def split: option.split)

lemma slots_book': "free_slots s reserved u \<noteq> None \<Longrightarrow>
    slots s (book reserved t) u = (if t_vmid u = t_vmid t then slots s reserved u - 1 else slots s reserved u)"
  by (auto simp: slots_def slots_book)

lemma free_slots_None: "free_slots s reserved u = None \<longleftrightarrow> free_slots s reserved' u = None"
  by (simp add: free_slots_def split: option.split)

lemma free_slots_vmid:
  assumes "t_vmid t = t_vmid u"
  shows "free_slots s reserved t = free_slots s reserved u"
  unfolding free_slots_def state_of_def by (simp only: assms)

lemma cand_slots:
  assumes "candidates s ts reserved j = Some cs" and "c \<in> set cs"
  shows "k_tr c \<in> set ts \<and> eligible s j (k_tr c) \<and> 0 < slots s reserved (k_tr c) \<and> cand_of s ts j (k_tr c) = Some c"
  using candidates_mem [OF assms] cand_of_ok by blast

lemma plan_places:
  "int (length (filter (\<lambda>(j, c). t_vmid (k_tr c) = t_vmid t) (plan_jobs s ts js reserved))) \<le> max 0 (slots s reserved t)"
proof (induction js arbitrary: reserved)
  case (Cons j js)
  show ?case
  proof (cases "\<exists>c l. candidates s ts reserved j = Some (c # l)")
    case True
    then obtain c l where c: "candidates s ts reserved j = Some (c # l)" by blast
    let ?u = "k_tr c"
    have pos: "0 < slots s reserved ?u" using cand_slots [OF c] by simp
    show ?thesis
    proof (cases "t_vmid ?u = t_vmid t")
      case True
      have e: "slots s reserved t = slots s reserved ?u" using free_slots_vmid [of t ?u] True by (simp add: slots_def)
      have "free_slots s reserved t \<noteq> None" using e pos by (auto simp: slots_def split: option.splits)
      then have "slots s (book reserved ?u) t = slots s reserved t - 1" using slots_book' True by simp
      then show ?thesis using Cons.IH [of "book reserved ?u"] c True pos e by simp
    next
      case False
      have "slots s (book reserved ?u) t = slots s reserved t"
        using False by (auto simp: slots_def slots_book split: option.split)
      then show ?thesis using Cons.IH [of "book reserved ?u"] c False by simp
    qed
  next
    case False
    then have "plan_jobs s ts (j # js) reserved = plan_jobs s ts js reserved"
      by (auto split: option.splits list.splits)
    then show ?thesis using Cons.IH by simp
  qed
qed simp

text \<open>The places promised once a part of the queue is served.\<close>

fun booked :: "farm \<Rightarrow> tr list \<Rightarrow> job list \<Rightarrow> (nat \<Rightarrow> int) \<Rightarrow> nat \<Rightarrow> int" where
  "booked s ts [] reserved = reserved"
| "booked s ts (j # js) reserved =
     (case candidates s ts reserved j of
        Some (c # cs) \<Rightarrow> booked s ts js (book reserved (k_tr c))
      | _ \<Rightarrow> booked s ts js reserved)"

lemma plan_append:
  "plan_jobs s ts (as @ bs) reserved = plan_jobs s ts as reserved @ plan_jobs s ts bs (booked s ts as reserved)"
  by (induction as arbitrary: reserved) (auto split: option.split list.split)

lemma plan_mem:
  "(j, c) \<in> set (plan_jobs s ts js reserved) \<Longrightarrow>
   j \<in> set js \<and> (\<exists>r l. (\<forall>v. reserved v \<le> r v) \<and> candidates s ts r j = Some (c # l))"
proof (induction js arbitrary: reserved)
  case (Cons k js)
  show ?case
  proof (cases "\<exists>d l. candidates s ts reserved k = Some (d # l)")
    case True
    then obtain d l where d: "candidates s ts reserved k = Some (d # l)" by blast
    have up: "reserved v \<le> book reserved (k_tr d) v" for v by (simp add: book_def)
    show ?thesis
    proof (cases "(j, c) = (k, d)")
      case True
      then show ?thesis using d by auto
    next
      case False
      then have "(j, c) \<in> set (plan_jobs s ts js (book reserved (k_tr d)))" using Cons.prems d by auto
      from Cons.IH [OF this] obtain r l where "j \<in> set js" "\<forall>v. book reserved (k_tr d) v \<le> r v"
        "candidates s ts r j = Some (c # l)" by blast
      then show ?thesis using up order_trans by (metis list.set_intros(2))
    qed
  next
    case False
    then have "plan_jobs s ts (k # js) reserved = plan_jobs s ts js reserved"
      by (auto split: option.splits list.splits)
    then show ?thesis using Cons.prems Cons.IH [of reserved] by auto
  qed
qed simp

lemma collect_complete:
  assumes "\<forall>t \<in> set rest. free_slots s reserved t \<noteq> None"
    and "t \<in> set rest" "eligible s j t" "0 < slots s reserved t" "cand_of s ts j t = Some c"
  shows "\<exists>cs. collect s ts reserved j rest = Some cs \<and> c \<in> set cs"
proof -
  have some: "\<exists>cs. collect s ts reserved j xs = Some cs" if "\<forall>t \<in> set xs. free_slots s reserved t \<noteq> None" for xs
    using that by (induction xs) (auto split: option.split)
  show ?thesis using assms
  proof (induction rest)
    case (Cons u rest)
    show ?case
    proof (cases "t = u")
      case True
      obtain cs where "collect s ts reserved j rest = Some cs" using some [of rest] Cons.prems(1) by auto
      then show ?thesis using True Cons.prems by (auto simp: slots_def split: option.splits)
    next
      case False
      then obtain cs where "collect s ts reserved j rest = Some cs" "c \<in> set cs" using Cons by auto
      then show ?thesis using Cons.prems(1) by (auto split: option.split)
    qed
  qed simp
qed

lemma candidates_complete:
  assumes "\<forall>t \<in> set ts. free_slots s reserved t \<noteq> None"
    and "t \<in> set ts" "eligible s j t" "0 < slots s reserved t" "cand_of s ts j t = Some c"
  shows "\<exists>cs. candidates s ts reserved j = Some cs \<and> c \<in> set cs"
  using collect_complete [OF assms] assms(5)
  by (auto simp: candidates_def cand_of_def split: src.splits option.splits)

lemma plan_overtakes:
  assumes nums: "\<forall>t \<in> set ts. free_slots s reserved t \<noteq> None"
    and later: "(j', c) \<in> set (plan_jobs s ts bs r1)" and up: "\<forall>v. r0 v \<le> r1 v"
    and j: "\<not> (\<exists>d l. candidates s ts r0 j = Some (d # l))"
  shows "\<not> (eligible s j (k_tr c) \<and> cand_of s ts j (k_tr c) \<noteq> None)"
proof
  assume a: "eligible s j (k_tr c) \<and> cand_of s ts j (k_tr c) \<noteq> None"
  from plan_mem [OF later] obtain r l where r: "\<forall>v. r1 v \<le> r v" and c: "candidates s ts r j' = Some (c # l)" by blast
  have t: "k_tr c \<in> set ts" "0 < slots s r (k_tr c)" using cand_slots [OF c] by auto
  have n: "\<forall>t \<in> set ts. free_slots s r0 t \<noteq> None" using nums free_slots_None by blast
  have "r0 v \<le> r v" for v using up r order_trans by blast
  then have "slots s r (k_tr c) \<le> slots s r0 (k_tr c)"
    by (auto simp: slots_def free_slots_def split: option.split)
  then have pos: "0 < slots s r0 (k_tr c)" using t by linarith
  obtain d where d: "cand_of s ts j (k_tr c) = Some d" using a by auto
  obtain cs where "candidates s ts r0 j = Some cs" "d \<in> set cs"
    using candidates_complete [OF n t(1) _ pos d] a by auto
  then show False using j by (cases cs) auto
qed

end
