(* ===== verification/Farm_Properties.thy ===== *)
theory Farm_Properties
  imports Farm_Order
begin

text \<open>
  The properties of the transcoding farm with their witnesses, and two races in its transfers (\<open>stale_return_loses_result\<close>,
  \<open>stale_copy_misdirects\<close>).
\<close>

subsection \<open>Executions\<close>

text \<open>\<open>drive n i as y\<close>: the thread \<open>i\<close> moves at most \<open>n\<close> times; the world gives it the answers \<open>as\<close> in turn.\<close>

fun drive :: "nat \<Rightarrow> nat \<Rightarrow> ans list \<Rightarrow> sys \<Rightarrow> sys" where
  "drive 0 i as y = y"
| "drive (Suc n) i as y =
     (case sys_step (Go i Silent) y of
        Some y' \<Rightarrow> drive n i as y'
      | None \<Rightarrow>
          (case as of
             [] \<Rightarrow> y
           | a # as' \<Rightarrow> (case sys_step (Go i a) y of None \<Rightarrow> y | Some y' \<Rightarrow> drive n i as' y')))"

definition start_op :: "user_op \<Rightarrow> sys \<Rightarrow> sys" where
  "start_op q y = the (sys_step (StartOp q) y)"

definition start_tick :: "sys \<Rightarrow> sys" where
  "start_tick y = (case sys_step StartTick y of None \<Rightarrow> y | Some y' \<Rightarrow> y')"

declare sys_step.simps [simp del]

lemma reachable_drive: "reachable y \<Longrightarrow> reachable (drive n i as y)"
proof (induction n i as y rule: drive.induct)
  case (2 n i as y)
  show ?case
  proof (cases "sys_step (Go i Silent) y")
    case None
    show ?thesis
    proof (cases as)
      case (Cons a as')
      then show ?thesis using None 2 by (cases "sys_step (Go i a) y") (auto intro: move)
    qed (use None 2 in simp)
  next
    case (Some y')
    have "reachable y'" using 2(3) Some by (rule move)
    then show ?thesis using 2(2) [OF Some] Some by simp
  qed
qed simp

lemma reachable_start_op: "reachable y \<Longrightarrow> reachable (start_op q y)"
  unfolding start_op_def by (rule move [where c = "StartOp q"]) (simp_all add: sys_step.simps)

lemma reachable_start_tick: "reachable y \<Longrightarrow> reachable (start_tick y)"
  unfolding start_tick_def by (cases "sys_step StartTick y") (auto intro: move)

lemmas reachable_runs = reachable_drive reachable_start_op reachable_start_tick

text \<open>Two nodes; one transcoder on the second, or two.\<close>

definition tc :: "nat \<Rightarrow> cont" where
  "tc v = \<lparr>c_vmid = v, c_type = ''transcoder'', c_host = ''tc'', c_node = Some 2, c_project = Some 7,
     c_status = ''running'', c_ip = ''10.0.0.2''\<rparr>"

definition demo_ext :: "nat list \<Rightarrow> ext" where
  "demo_ext vs = \<lparr>conts = map tc vs, nodes = [(1, ''n1''), (2, ''n2'')], grant_conn = (\<lambda>g. None),
     grant_entry = (\<lambda>g p. None), node_conn = (\<lambda>n c. False), media_dir = (\<lambda>n p. ''/m'')\<rparr>"

definition reply :: "params \<Rightarrow> ans" where
  "reply d = AResp (Reply 200 d)"

definition ready :: ans where
  "ready = reply [(''farm_capable'', JBool True), (''max_concurrent'', JNum 2)]"

definition accepted :: "rat \<Rightarrow> ans" where
  "accepted n = reply [(''ok'', JBool True), (''id'', JNum n)]"

definition copied :: ans where
  "copied = reply [(''state'', JStr ''done''), (''path'', JStr ''.farm/in/1/a.mov'')]"

definition encoded :: "string \<Rightarrow> ans" where
  "encoded out = reply [(''status'', JStr ''done''), (''output'', JStr out)]"

definition submitted :: "nat list \<Rightarrow> sys" where
  "submitted vs =
     drive 9 1 [ATime 5] (start_op (OpSubmit (Some 7) (Some (Local 1)) ''in//a.mov'' ''video'' [] None [] None None)
       (drive 9 0 [] (start_op (OpMember 11 True) (sys0 (demo_ext vs)))))"

text \<open>The job is copied to the transcoder 11, by the thread 3, after a tick, the thread 2.\<close>

definition copy_begun :: "nat list \<Rightarrow> sys" where
  "copy_begun vs =
     drive 40 2 ([ATime 10] @ map (\<lambda>_. ready) vs @ [ATime 11, AText ''t1'', reply []]) (start_tick (submitted vs))"

definition encoding :: sys where
  "encoding = drive 40 3 [AHost (Ran 0 []), copied, AProbe [], accepted 5] (copy_begun [11])"

lemma reachable_copy_begun: "reachable (copy_begun vs)"
  unfolding copy_begun_def submitted_def by (intro reachable_runs start)

lemma reachable_encoding: "reachable encoding"
  unfolding encoding_def by (intro reachable_drive reachable_copy_begun)

definition rows :: "sys \<Rightarrow> (nat \<times> jstatus \<times> nat option \<times> int option \<times> string option) list" where
  "rows y = map (\<lambda>j. (j_id j, j_status j, j_worker j, j_worker_job j, j_out_path j)) (jobs (shared y))"

lemma encoding_rows: "rows encoding = [(1, Running, Some 11, Some 5, None)]"
  by code_simp

subsection \<open>The table of jobs\<close>

text \<open>
  C5. In every state the farm can reach, whatever the interleaving of the dispatcher, the transfers, the requests of the
  users and the restarts, no two jobs share a number and every job makes sense: a job that waits has no transcoder, a job
  confided to a transcoder has all that its way of reading the source needs, an active job has been put back at most twice, and a
  job that ended has its end.
\<close>

theorem farm_table_ok:
  assumes "reachable y"
  shows "distinct (map j_id (jobs (shared y))) \<and> (\<forall>j \<in> set (jobs (shared y)). job_ok j)"
  using reachable_ok [OF assms] by (simp add: sys_ok_def farm_ok_def)

theorem farm_table_ok_witness:
  "rows encoding = [(1, Running, Some 11, Some 5, None)] \<and> list_all job_ok (jobs (shared encoding))"
  using encoding_rows farm_table_ok [OF reachable_encoding] by (simp add: list_all_iff)

text \<open>
  C25. What a step may do to a job depends on the thread that makes it: only the dispatcher and the copy of the job itself move it
  forward, only \<open>cancel\<close> cancels an active job on request, a job that ended leaves that state only by \<open>retry\<close> or
  \<open>purge\<close>, so that a cancellation always wins over the transfers and the dispatcher, and what the user asked for
  never changes.
\<close>

theorem farm_lifecycle:
  assumes "reachable y" and "sys_step c y = Some y'"
  shows "case c of
      Go k a \<Rightarrow> may (fst (pool y ! k)) i (find_job i (shared y)) (find_job i (shared y'))
    | _ \<Rightarrow> find_job i (shared y') = find_job i (shared y)"
  using sys_step_ok [OF reachable_ok [OF assms(1)] assms(2)]
  by (auto simp: step_ok_def find_job_def split: choice.splits)

theorem farm_lifecycle_witness:
  "sys_step (Go 4 Silent) (start_op (OpCancel 1) encoding) \<noteq> None \<and>
   may (User (OpCancel 1)) 1 (find_job 1 (shared (start_op (OpCancel 1) encoding)))
     (find_job 1 (shared (the (sys_step (Go 4 Silent) (start_op (OpCancel 1) encoding)))))"
proof -
  let ?y = "start_op (OpCancel 1) encoding"
  have r: "reachable ?y" by (intro reachable_runs reachable_encoding)
  have s: "sys_step (Go 4 Silent) ?y \<noteq> None" and p: "fst (pool ?y ! 4) = User (OpCancel 1)" by code_simp+
  then obtain y' where "sys_step (Go 4 Silent) ?y = Some y'" by auto
  from farm_lifecycle [OF r this, of 1] show ?thesis using s p \<open>sys_step (Go 4 Silent) ?y = Some y'\<close> by simp
qed

subsection \<open>The queue\<close>

text \<open>
  C11. A pass over the queue hands jobs over exactly along the reference plan, in which every job in turn takes the best transcoder
  that is left (a source read in place before a source read remotely before a copy, then the most free places), whatever the other
  threads do to the table meanwhile; a transcoder may refuse a job, nothing else is ever handed over.
\<close>

theorem dispatch_follows_plan:
  assumes "behaves (steady s) (dispatch_all ts js reserved) cs r"
  shows "\<exists>plan. subseq plan (plan_jobs s ts js reserved) \<and> list_all2 serves (handed cs) plan"
  by (rule follows_plan) fact

definition demo_tr :: tr where
  "demo_tr = \<lparr>t_vmid = 11, t_host = ''tc'', t_node = Some 2, t_project = Some 7, t_status = ''running'',
     t_ip = ''10.0.0.2'', t_member = True\<rparr>"

definition demo_job :: "nat \<Rightarrow> job" where
  "demo_job i = (new_job (Some 7) (Local 2) ''a.mov'' ''video'' [] [] 0 None 5)\<lparr>j_id := i\<rparr>"

definition one_place :: farm where
  "one_place = (shared (sys0 (demo_ext [11])))\<lparr>jobs := [demo_job 1, demo_job 2], next_job := 3,
     mstates := [11 \<mapsto> \<lparr>m_ok = True, m_state = [(''farm_capable'', JBool True)], m_seen = None, m_error = None\<rparr>]\<rparr>"

text \<open>The calls of a program whose actions all see the state \<open>s\<close>, given the answers of the world.\<close>

fun calls_of :: "nat \<Rightarrow> farm \<Rightarrow> ans list \<Rightarrow> 'a prog \<Rightarrow> ((tr \<times> req) list \<times> (exn + 'a)) option" where
  "calls_of 0 s as p = None"
| "calls_of (Suc n) s as p =
     (case p of
        Ret x \<Rightarrow> Some ([], Inr x)
      | Raise e \<Rightarrow> Some ([], Inl e)
      | Atom f \<Rightarrow> calls_of n s as (fst (f s))
      | Now k \<Rightarrow> (case as of ATime x # as' \<Rightarrow> calls_of n s as' (k x) | _ \<Rightarrow> None)
      | Fresh k \<Rightarrow> (case as of AText x # as' \<Rightarrow> calls_of n s as' (k x) | _ \<Rightarrow> None)
      | Call t q k \<Rightarrow>
          (case as of
             AResp x # as' \<Rightarrow> map_option (\<lambda>(cs, r). ((t, q) # cs, r)) (calls_of n s as' (k x))
           | _ \<Rightarrow> None)
      | _ \<Rightarrow> None)"

lemma calls_of_behaves:
  assumes "I s"
  shows "calls_of n s as p = Some (cs, r) \<Longrightarrow> behaves I p cs r"
proof (induction n arbitrary: as p cs)
  case (Suc n)
  show ?case
  proof (cases p)
    case (Atom f)
    then show ?thesis using Suc assms by (auto intro: behaves_Atom)
  next
    case (Call t q k)
    then show ?thesis using Suc by (auto split: list.splits ans.splits intro: behaves_Call)
  qed (use Suc in \<open>auto split: list.splits ans.splits intro: behaves_Ret behaves_Raise behaves_Now behaves_Fresh\<close>)
qed simp

text \<open>The first job is handed over, and the transcoder breaks the connection: it keeps the place, and the second job waits.\<close>

definition broken :: "ans list" where
  "broken = [ATime 1, AResp (NetErr ''reset'')]"

definition the_calls :: "(tr \<times> req) list" where
  "the_calls = [(demo_tr, Submit ''video'' ''a.mov'' (worker_params (demo_job 1) [(''output_dir'', JStr [])]) None)]"

lemma broken_behaves:
  "behaves (steady one_place) (dispatch_all [demo_tr] [demo_job 1, demo_job 2] (\<lambda>_. 0)) the_calls (Inr ())"
proof -
  have "calls_of 30 one_place broken (dispatch_all [demo_tr] [demo_job 1, demo_job 2] (\<lambda>_. 0)) = Some (the_calls, Inr ())"
    by code_simp
  then show ?thesis by (rule calls_of_behaves [rotated]) (simp add: steady_def)
qed

theorem dispatch_follows_plan_witness:
  "map (\<lambda>(j, c). j_id j) (plan_jobs one_place [demo_tr] [demo_job 1, demo_job 2] (\<lambda>_. 0)) = [1] \<and>
   (\<exists>plan. subseq plan (plan_jobs one_place [demo_tr] [demo_job 1, demo_job 2] (\<lambda>_. 0)) \<and>
      list_all2 serves the_calls plan)"
proof -
  have h: "handed the_calls = the_calls" by code_simp
  have "map (\<lambda>(j, c). j_id j) (plan_jobs one_place [demo_tr] [demo_job 1, demo_job 2] (\<lambda>_. 0)) = [1]" by code_simp
  then show ?thesis using dispatch_follows_plan [OF broken_behaves] unfolding h by blast
qed

text \<open>
  C18. In a pass over the queue no transcoder is handed more jobs than the places that were left to it: its limit, less what it
  runs and holds, less the copies already on their way to it.
\<close>

theorem no_overcommit:
  assumes "behaves (steady s) (dispatch_all ts js reserved) cs r"
  shows "length (filter (\<lambda>x. t_vmid (fst x) = t_vmid t) (handed cs)) \<le> nat (slots s reserved t)"
proof -
  obtain plan where sub: "subseq plan (plan_jobs s ts js reserved)" and l: "list_all2 serves (handed cs) plan"
    using follows_plan [OF assms] by blast
  have "length (filter (\<lambda>x. t_vmid (fst x) = t_vmid t) xs) = length (filter (\<lambda>(j, c). t_vmid (k_tr c) = t_vmid t) ys)"
    if "list_all2 serves xs ys" for xs ys
    using that by (induction rule: list_all2_induct) (auto simp: serves_def)
  from this [OF l] have "length (filter (\<lambda>x. t_vmid (fst x) = t_vmid t) (handed cs))
      \<le> length (filter (\<lambda>(j, c). t_vmid (k_tr c) = t_vmid t) (plan_jobs s ts js reserved))"
    using list_emb_length [OF subseq_filter [OF sub]] by metis
  then show ?thesis using plan_places [of t s ts js reserved] by linarith
qed

theorem no_overcommit_witness:
  "slots one_place (\<lambda>_. 0) demo_tr = 1 \<and>
   length (filter (\<lambda>x. t_vmid (fst x) = t_vmid demo_tr) (handed the_calls)) \<le> nat 1"
proof -
  have "slots one_place (\<lambda>_. 0) demo_tr = 1" by code_simp
  then show ?thesis using no_overcommit [OF broken_behaves, of demo_tr] by simp
qed

text \<open>
  C16. The queue is served by priority, then by age, and no job is overtaken: when a job is left waiting, a transcoder that takes a
  later job of the queue is one the first job could not use at all (another project, not enlisted, unable, or without access to its
  source).
\<close>

theorem no_overtaking:
  assumes nums: "\<forall>t \<in> set ts. free_slots s reserved t \<noteq> None" and q: "farm_ok q"
    and j: "j \<in> set (pending_queue q)" and j': "j' \<in> set (pending_queue q)"
    and before: "j_priority j' < j_priority j \<or> j_priority j' = j_priority j \<and> j_id j < j_id j'"
    and taken: "(j', c) \<in> set (plan_jobs s ts (pending_queue q) reserved)"
    and left: "\<forall>d. (j, d) \<notin> set (plan_jobs s ts (pending_queue q) reserved)"
  shows "\<not> (eligible s j (k_tr c) \<and> cand_of s ts j (k_tr c) \<noteq> None)"
proof -
  let ?key = "\<lambda>j. (- j_priority j, j_id j)"
  have lt: "?key j < ?key j'" using before by auto
  have sorted: "sorted (map ?key (pending_queue q))" unfolding pending_queue_def by (rule sorted_sort_key)
  obtain as bs where split: "pending_queue q = as @ j # bs" using j by (meson split_list)
  have "j' \<notin> set as" using sorted lt by (auto simp: split sorted_append)
  moreover have "j' \<noteq> j" using lt by auto
  ultimately have late: "j' \<in> set bs" using j' split by simp
  have early: "j' \<notin> set as" by fact
  let ?r = "booked s ts as reserved"
  note plan = plan_append [of s ts as "j # bs" reserved, folded split]
  have none: "\<not> (\<exists>d l. candidates s ts ?r j = Some (d # l))" using left unfolding plan by auto
  have "plan_jobs s ts (j # bs) ?r = plan_jobs s ts bs ?r" using none by (auto split: option.splits list.splits)
  moreover have "(j', c) \<notin> set (plan_jobs s ts as reserved)" using early plan_mem by blast
  ultimately have "(j', c) \<in> set (plan_jobs s ts bs ?r)" using taken unfolding plan by auto
  from plan_overtakes [OF _ this _ none] show ?thesis using nums free_slots_None by blast
qed

text \<open>The first job of the queue belongs to a project without a transcoder.\<close>

definition foreign_first :: farm where
  "foreign_first = one_place\<lparr>jobs := [(demo_job 1)\<lparr>j_project := Some 8, j_priority := 20\<rparr>, demo_job 2]\<rparr>"

theorem no_overtaking_witness:
  "map (\<lambda>(j, c). j_id j) (plan_jobs foreign_first [demo_tr] (pending_queue foreign_first) (\<lambda>_. 0)) = [2] \<and>
   \<not> (eligible foreign_first ((demo_job 1)\<lparr>j_project := Some 8, j_priority := 20\<rparr>) demo_tr \<and>
      cand_of foreign_first [demo_tr] ((demo_job 1)\<lparr>j_project := Some 8, j_priority := 20\<rparr>) demo_tr \<noteq> None)"
proof -
  let ?j = "(demo_job 1)\<lparr>j_project := Some 8, j_priority := 20\<rparr>"
  let ?c = "\<lparr>k_tr = demo_tr, k_access = Direct, k_input = ''a.mov'', k_server = None\<rparr>"
  have q: "pending_queue foreign_first = [?j, demo_job 2]" by code_simp
  have p: "plan_jobs foreign_first [demo_tr] [?j, demo_job 2] (\<lambda>_. 0) = [(demo_job 2, ?c)]" by code_simp
  have n: "free_slots foreign_first (\<lambda>_. 0) demo_tr = Some 1" by code_simp
  have ne: "?j \<noteq> demo_job 2" by code_simp
  have ok: "farm_ok foreign_first" by code_simp
  have "\<not> (eligible foreign_first ?j (k_tr ?c) \<and> cand_of foreign_first [demo_tr] ?j (k_tr ?c) \<noteq> None)"
    by (rule no_overtaking [where q = foreign_first and j' = "demo_job 2" and reserved = "\<lambda>_. 0"])
      (use q p n ok ne in \<open>simp_all add: demo_job_def new_job_def\<close>)
  then show ?thesis using q p by (simp add: demo_job_def new_job_def)
qed

subsection \<open>The paths of the users\<close>

text \<open>
  C10. A path the farm accepts from a user stays below the folder it is read in: it does not begin with a slash, and
  none of its parts is empty, goes up, or is hidden.  The other paths are refused, a path that goes up among them, written
  with slashes or with backslashes.
\<close>

theorem clean_rel_safe:
  assumes "clean_rel path = Some p"
  shows "p \<noteq> [] \<and> hd p \<noteq> slash \<and>
    (\<forall>part \<in> set (split_char slash p). part \<noteq> [] \<and> part \<noteq> ''..'' \<and> hd part \<noteq> CHR ''.'') \<and>
    ''..'' \<notin> set (split_char slash (map (\<lambda>c. if c = CHR 0x5C then slash else c) (py_strip path)))"
proof -
  from clean_rel_parts [OF assms] obtain xs where
    xs: "xs \<noteq> []" "split_char slash p = xs" "p = join_with ''/'' xs"
      "\<forall>x \<in> set xs. x \<noteq> [] \<and> slash \<notin> set x \<and> x \<noteq> ''..'' \<and> take 1 x \<noteq> ''.''" by blast
  obtain y ys where y: "xs = y # ys" using xs(1) by (cases xs) auto
  obtain c cs where c: "y = c # cs" using xs(4) y by (cases y) auto
  have "hd p = c" "p \<noteq> []" using xs(3) y c by (cases ys; simp)+
  moreover have "c \<noteq> slash" using xs(4) y c by auto
  moreover have "hd x \<noteq> CHR ''.''" if "x \<in> set xs" for x using xs(4) that by (cases x) fastforce+
  moreover have "''..'' \<notin> set (split_char slash (map (\<lambda>c. if c = CHR 0x5C then slash else c) (py_strip path)))"
    using assms by (auto simp: clean_rel_def Let_def split: if_splits)
  ultimately show ?thesis using xs by auto
qed

theorem clean_rel_safe_witness:
  "clean_rel '' /in//./a.mov '' = Some ''in/a.mov'' \<and> clean_rel ''in/../../etc'' = None \<and>
   clean_rel (''in'' @ CHR 0x5C # ''..'') = None \<and> clean_rel ''in/.hidden'' = None \<and> hd ''in/a.mov'' \<noteq> slash"
proof -
  have c: "clean_rel '' /in//./a.mov '' = Some ''in/a.mov''" by code_simp
  have n: "clean_rel ''in/../../etc'' = None" "clean_rel (''in'' @ CHR 0x5C # ''..'') = None"
    "clean_rel ''in/.hidden'' = None" by code_simp+
  show ?thesis using clean_rel_safe [OF c] c n by simp
qed

subsection \<open>Two races\<close>

text \<open>\<open>run_on n as p s\<close>: at most \<open>n\<close> steps of a program on its own, with the answers \<open>as\<close> of the world.\<close>

fun run_on :: "nat \<Rightarrow> ans list \<Rightarrow> 'a prog \<Rightarrow> farm \<Rightarrow> 'a prog \<times> farm" where
  "run_on 0 as p s = (p, s)"
| "run_on (Suc n) as p s =
     (case advance Silent p s of
        Some (p', s', _) \<Rightarrow> run_on n as p' s'
      | None \<Rightarrow>
          (case as of
             [] \<Rightarrow> (p, s)
           | a # as' \<Rightarrow> (case advance a p s of None \<Rightarrow> (p, s) | Some (p', s', _) \<Rightarrow> run_on n as' p' s')))"

lemma return_thread_runs:
  "run_on 9 [AHost (Ran 0 out)] (return_thread j url side dest) s =
     (Ret (), s\<lparr>tasks := (tasks s)(j_id j \<mapsto>
        HostDone (strip_base (rstrip_slash (host_abs s (src_node (j_src j)) (j_project j) []) @ ''/'') out))\<rparr>)"
  by (simp add: return_thread_def get_def atom_def task_put_def modify_def numeral_eq_Suc)

lemma follow_return_runs:
  assumes "tasks s (j_id j) = Some (HostDone path)"
  shows "jobs (snd (run_on 4 [ATime now] (follow_return j w) s)) =
    jobs (snd (upd_job (j_id j) [Running, TransferOut]
      (\<lambda>r. r\<lparr>j_status := Finished, j_progress := 1, j_phase := None, j_out_node := src_node (j_src j),
             j_out_path := Some path, j_completed := Some now\<rparr>) s))"
  using assms
  by (simp add: follow_return_def task_get_def task_pop_def get_def atom_def modify_def numeral_eq_Suc finish_def
      update_p_def upd_job_def expected_def set_info_def)

text \<open>
  The thread that brings a result back outlives a cancellation: it enters its result under the number of the job, whatever the
  job has become.  When the job, tried again (\<open>new\<close>), has a second result to bring back, the next tick takes the entry for the
  end of that return: the job ends with the path of the first result (\<open>old\<close>), after a question to nobody but the clock, and the second
  result is never brought back.
\<close>

theorem stale_return_loses_result:
  fixes out url dest :: string and side :: "string option" and old new :: job and s :: farm
  assumes same: "j_id new = j_id old" and row: "find_job (j_id old) s = Some new" and st: "j_status new = TransferOut"
  defines "s1 \<equiv> snd (run_on 9 [AHost (Ran 0 out)] (return_thread old url side dest) s)"
  shows "find_job (j_id old) s1 = Some new \<and>
    map_option (\<lambda>r. (j_status r, j_out_path r, j_work_out r))
      (find_job (j_id old) (snd (run_on 4 [ATime now] (follow_return new w) s1))) =
    Some (Finished, Some (strip_base (rstrip_slash (host_abs s (src_node (j_src old)) (j_project old) []) @ ''/'') out),
          j_work_out new)"
proof -
  let ?p = "strip_base (rstrip_slash (host_abs s (src_node (j_src old)) (j_project old) []) @ ''/'') out"
  let ?f = "\<lambda>r. r\<lparr>j_status := Finished, j_progress := 1, j_phase := None, j_out_node := src_node (j_src new),
             j_out_path := Some ?p, j_completed := Some now\<rparr>"
  have row1: "find_job (j_id old) s1 = Some new" and t: "tasks s1 (j_id new) = Some (HostDone ?p)"
    using row same by (simp_all add: s1_def return_thread_runs find_job_def)
  have "find_job (j_id old) (snd (run_on 4 [ATime now] (follow_return new w) s1)) =
      find_job (j_id old) (snd (upd_job (j_id new) [Running, TransferOut] ?f s1))"
    using follow_return_runs [OF t] by (simp add: find_job_def)
  also have "\<dots> = Some (?f new)"
    using row1 same st by (subst find_job_upd) (simp_all add: expected_def)
  finally show ?thesis using row1 by simp
qed

lemma copy_thread_runs:
  assumes row: "find_job (j_id old) s = Some new" and st: "j_status new = TransferIn"
    and ip: "t_ip t \<noteq> []" and path: "out_of_reply d ''path'' = Some inp" and st_d: "pget d ''state'' = JStr ''done''"
    and j_proxy: "j_proxy new = None" and ok: "truthy (pget r ''ok'')" "json_int (pget r ''id'') = Some jid"
    and same: "j_id new = j_id old"
  shows "jobs (snd (run_on 20 [AHost (Ran 0 out), AResp (Reply 200 d), AProbe [], AResp (Reply 200 r)] (copy_in_thread old t) s)) =
    jobs (snd (upd_job (j_id old) [TransferIn] (running_cols jid inp) s))"
  using assms
  by (simp add: copy_in_thread_def copy_in_body_def finally_p_def attempt_def task_pop_def get_def atom_def modify_def
      numeral_eq_Suc update_p_def upd_job_def expected_def call_p_def find_job_def lift_opt_def source_identity_def
      submit_to_worker_def Let_def)

text \<open>
  The thread that copies a source outlives a cancellation too, and only looks at the status of the job: when the job, tried again,
  is being copied to another transcoder, the old thread hands it over to its own (\<open>t\<close>), and the number \<open>t\<close> gave is
  followed on the other one.
\<close>

theorem stale_copy_misdirects:
  assumes "find_job (j_id old) s = Some new" and "j_status new = TransferIn" and "j_id new = j_id old"
    and "j_proxy new = None" and "t_ip t \<noteq> []" and "out_of_reply d ''path'' = Some inp"
    and "pget d ''state'' = JStr ''done''" and "truthy (pget r ''ok'')" and "json_int (pget r ''id'') = Some jid"
  shows "map_option (\<lambda>r. (j_status r, j_worker r, j_worker_job r))
    (find_job (j_id old)
      (snd (run_on 20 [AHost (Ran 0 out), AResp (Reply 200 d), AProbe [], AResp (Reply 200 r)] (copy_in_thread old t) s))) =
    Some (Running, j_worker new, Some jid)"
proof -
  have "find_job (j_id old)
      (snd (run_on 20 [AHost (Ran 0 out), AResp (Reply 200 d), AProbe [], AResp (Reply 200 r)] (copy_in_thread old t) s)) =
    find_job (j_id old) (snd (upd_job (j_id old) [TransferIn] (running_cols jid inp) s))"
    using copy_thread_runs [of old s new t d inp r jid out] assms by (simp add: find_job_def)
  also have "\<dots> = Some (running_cols jid inp new)"
    using assms by (subst find_job_upd) (simp_all add: expected_def running_cols_def)
  finally show ?thesis by (simp add: running_cols_def)
qed

end
