(* ===== verification/Vmid_Locks.thy ===== *)
theory Vmid_Locks
  imports Bobi_Prelude "HOL-Library.Char_ord" "HOL-Library.List_Lexorder"
begin

text \<open>
  The locks of the operations on containers (\<open>app/vmlocks.py\<close>): one re-entrant lock per vmid, taken by background threads
  around deploy, destroy, restart, resize and wiring, waited for with a timeout after which the operation runs all the same.

  A thread is a stack of the \<open>with\<close> blocks it is in; a block first takes its locks in the order of their keys, then runs its
  body, then gives the locks back in reverse order.  What the bodies do is outside this model.
\<close>

subsection \<open>Locks\<close>

text \<open>A vmid as callers pass it.  Its key is \<open>str(vmid)\<close>.\<close>

datatype vmid = VInt int | VStr string | VNone

fun key_of :: "vmid \<Rightarrow> string" where
  "key_of (VInt n) = str_int n"
| "key_of (VStr s) = s"
| "key_of VNone = ''None''"

fun vmid_truthy :: "vmid \<Rightarrow> bool" where
  "vmid_truthy (VInt n) = (n \<noteq> 0)"
| "vmid_truthy (VStr s) = (s \<noteq> [])"
| "vmid_truthy VNone = False"

text \<open>\<open>sorted({str(v) for v in vmids if v})\<close>.\<close>

definition ordered_keys :: "vmid list \<Rightarrow> string list" where
  "ordered_keys vs = sort (remdups (map key_of (filter vmid_truthy vs)))"

text \<open>The state of an \<open>RLock\<close>: free, or held by a thread, so many times.\<close>

type_synonym rlock = "(nat \<times> nat) option"

definition may_take :: "nat \<Rightarrow> rlock \<Rightarrow> bool" where
  "may_take i h = (case h of None \<Rightarrow> True | Some (j, n) \<Rightarrow> j = i)"

definition take_lock :: "nat \<Rightarrow> rlock \<Rightarrow> rlock" where
  "take_lock i h = (case h of None \<Rightarrow> Some (i, 1) | Some (j, n) \<Rightarrow> Some (j, Suc n))"

definition drop_lock :: "rlock \<Rightarrow> rlock" where
  "drop_lock h = (case h of None \<Rightarrow> None | Some (j, n) \<Rightarrow> if n \<le> 1 then None else Some (j, n - 1))"

subsection \<open>Threads\<close>

datatype stage = Taking | Body | Giving

text \<open>
  A \<open>with\<close> block: the keys it still has to take, those it went through with the answer of \<open>acquire\<close>, the last one
  first, and where it is.
\<close>

record frame =
  f_todo :: "string list"
  f_got :: "(string \<times> bool) list"
  f_stage :: stage

record locks =
  registry :: "string list"
  lock :: "string \<Rightarrow> rlock"
  stacks :: "frame list list"
  lock_alerts :: "string list"

text \<open>\<open>_lock_for\<close>: the lock of a key, created when there is none; a lock that was never taken is free.\<close>

definition lock_for :: "string \<Rightarrow> locks \<Rightarrow> locks" where
  "lock_for k y = (if k \<in> set (registry y) then y else y\<lparr>registry := k # registry y\<rparr>)"

definition set_lock :: "string \<Rightarrow> rlock \<Rightarrow> locks \<Rightarrow> locks" where
  "set_lock k h y = y\<lparr>lock := (lock y)(k := h)\<rparr>"

definition set_stack :: "nat \<Rightarrow> frame list \<Rightarrow> locks \<Rightarrow> locks" where
  "set_stack i fs y = y\<lparr>stacks := (stacks y)[i := fs]\<rparr>"

text \<open>\<open>_alerter_timeout\<close>.\<close>

definition alert_timeout :: "string \<Rightarrow> locks \<Rightarrow> locks" where
  "alert_timeout k y = y\<lparr>lock_alerts := lock_alerts y @ [k]\<rparr>"

text \<open>
  What a thread does next: it enters \<open>verrou_vmids\<close> or \<open>verrou_vmid\<close>, from nothing or from the body of a block; it
  asks \<open>est_verrouille\<close>; it goes on with its last block; its wait for a lock expires; or the body of its last block ends.
\<close>

datatype act = Enter "vmid list" | EnterOne vmid | Probe vmid | Proceed | Expire | Leave

definition in_code :: "frame list \<Rightarrow> bool" where
  "in_code fs = (case fs of [] \<Rightarrow> True | f # _ \<Rightarrow> f_stage f = Body)"

definition new_frame :: "string list \<Rightarrow> frame" where
  "new_frame ks = \<lparr>f_todo = ks, f_got = [], f_stage = Taking\<rparr>"

definition proceed :: "nat \<Rightarrow> frame \<Rightarrow> frame list \<Rightarrow> locks \<Rightarrow> locks option" where
  "proceed i f fs y =
     (case f_stage f of
        Taking \<Rightarrow>
          (case f_todo f of
             [] \<Rightarrow> Some (set_stack i (f\<lparr>f_stage := Body\<rparr> # fs) y)
           | k # ks \<Rightarrow>
               if may_take i (lock y k)
               then Some (set_stack i (f\<lparr>f_todo := ks, f_got := (k, True) # f_got f\<rparr> # fs)
                            (set_lock k (take_lock i (lock y k)) (lock_for k y)))
               else None)
      | Body \<Rightarrow> None
      | Giving \<Rightarrow>
          (case f_got f of
             [] \<Rightarrow> Some (set_stack i fs y)
           | (k, ok) # got \<Rightarrow>
               Some (set_stack i (f\<lparr>f_got := got\<rparr> # fs) (if ok then set_lock k (drop_lock (lock y k)) y else y))))"

definition expire :: "nat \<Rightarrow> frame \<Rightarrow> frame list \<Rightarrow> locks \<Rightarrow> locks option" where
  "expire i f fs y =
     (case (f_stage f, f_todo f) of
        (Taking, k # ks) \<Rightarrow>
          if may_take i (lock y k) then None
          else Some (alert_timeout k
                 (set_stack i (f\<lparr>f_todo := ks, f_got := (k, False) # f_got f\<rparr> # fs) (lock_for k y)))
      | _ \<Rightarrow> None)"

text \<open>
  \<open>est_verrouille\<close>: a lock that can be taken at once is given back in the next step; the answer is \<open>True\<close> when it could not
  be taken.
\<close>

definition est_verrouille :: "nat \<Rightarrow> vmid \<Rightarrow> locks \<Rightarrow> bool" where
  "est_verrouille i v y \<longleftrightarrow> \<not> may_take i (lock y (key_of v))"

definition probe :: "nat \<Rightarrow> vmid \<Rightarrow> locks \<Rightarrow> locks" where
  "probe i v y =
     (let k = key_of v; y1 = lock_for k y in
      if est_verrouille i v y then y1
      else set_stack i (\<lparr>f_todo = [], f_got = [(k, True)], f_stage = Giving\<rparr> # stacks y ! i)
             (set_lock k (take_lock i (lock y k)) y1))"

fun lock_step :: "nat \<Rightarrow> act \<Rightarrow> locks \<Rightarrow> locks option" where
  "lock_step i a y =
     (if length (stacks y) \<le> i then None
      else
        (case (a, stacks y ! i) of
           (Enter vs, fs) \<Rightarrow> if in_code fs then Some (set_stack i (new_frame (ordered_keys vs) # fs) y) else None
         | (EnterOne v, fs) \<Rightarrow> if in_code fs then Some (set_stack i (new_frame [key_of v] # fs) y) else None
         | (Probe v, fs) \<Rightarrow> if in_code fs then Some (probe i v y) else None
         | (Proceed, f # fs) \<Rightarrow> proceed i f fs y
         | (Expire, f # fs) \<Rightarrow> expire i f fs y
         | (Leave, f # fs) \<Rightarrow>
             if f_stage f = Body then Some (set_stack i (f\<lparr>f_stage := Giving\<rparr> # fs) y) else None
         | _ \<Rightarrow> None))"

definition locks0 :: "nat \<Rightarrow> locks" where
  "locks0 n = \<lparr>registry = [], lock = (\<lambda>k. None), stacks = replicate n [], lock_alerts = []\<rparr>"

end
