(* ===== verification/Vmid_Locks_Properties.thy ===== *)
theory Vmid_Locks_Properties
  imports Vmid_Locks
begin

text \<open>
  What the locks of the containers give: one holder at a time (\<open>one_holder\<close>), bodies on the same container that overlap only after an
  alert (\<open>bodies_serialised\<close>), and, when a thread that is in a block only enters blocks on containers it already holds, no
  deadlock: every operation ends without a timeout (\<open>operations_end\<close>).
\<close>

subsection \<open>Executions\<close>

definition held_count :: "string \<Rightarrow> frame list \<Rightarrow> nat" where
  "held_count k fs = sum_list (map (\<lambda>f. count_list (f_got f) (k, True)) fs)"

fun act_keys :: "act \<Rightarrow> string list" where
  "act_keys (Enter vs) = ordered_keys vs"
| "act_keys (EnterOne v) = [key_of v]"
| "act_keys (Probe v) = [key_of v]"
| "act_keys _ = []"

text \<open>A thread that is in a block enters blocks only on containers it holds.\<close>

definition nested_ok :: "nat \<Rightarrow> act \<Rightarrow> locks \<Rightarrow> bool" where
  "nested_ok i a y \<longleftrightarrow>
     stacks y ! i = [] \<or> (\<forall>k \<in> set (act_keys a). 0 < held_count k (stacks y ! i))"

inductive locks_reach :: "bool \<Rightarrow> locks \<Rightarrow> bool" for d where
  start: "locks_reach d (locks0 n)"
| move: "locks_reach d y \<Longrightarrow> (d \<Longrightarrow> nested_ok i a y) \<Longrightarrow> lock_step i a y = Some y' \<Longrightarrow> locks_reach d y'"

lemma held_count_simps [simp]:
  "held_count k [] = 0"
  "held_count k (f # fs) = count_list (f_got f) (k, True) + held_count k fs"
  by (simp_all add: held_count_def)

lemma held_count_pos: "0 < held_count k fs \<longleftrightarrow> (\<exists>f \<in> set fs. (k, True) \<in> set (f_got f))"
  by (induction fs) (auto simp: count_list_0_iff)

subsection \<open>The invariant of the locks\<close>

definition lock_ok :: "rlock \<Rightarrow> string \<Rightarrow> frame list list \<Rightarrow> bool" where
  "lock_ok h k ss =
     (case h of
        None \<Rightarrow> \<forall>i < length ss. held_count k (ss ! i) = 0
      | Some (j, m) \<Rightarrow> j < length ss \<and> 0 < m \<and> (\<forall>i < length ss. held_count k (ss ! i) = (if i = j then m else 0)))"

definition locks_ok :: "locks \<Rightarrow> bool" where
  "locks_ok y \<longleftrightarrow> (\<forall>k. lock_ok (lock y k) k (stacks y))"

lemma locks_okD: "locks_ok y \<Longrightarrow> lock_ok (lock y k) k (stacks y)"
  by (simp add: locks_ok_def)

lemma lock_ok_same:
  "lock_ok h k ss \<Longrightarrow> held_count k fs = held_count k (ss ! i) \<Longrightarrow> lock_ok h k (ss[i := fs])"
  by (cases "i < length ss") (auto simp: lock_ok_def nth_list_update split: option.splits if_splits)

lemma lock_ok_take:
  assumes "lock_ok h k ss" and "i < length ss" and "may_take i h" and "held_count k fs = Suc (held_count k (ss ! i))"
  shows "lock_ok (take_lock i h) k (ss[i := fs])"
  using assms by (cases h) (auto simp: lock_ok_def may_take_def take_lock_def nth_list_update)

lemma lock_ok_drop:
  assumes "lock_ok h k ss" and "i < length ss" and "held_count k (ss ! i) = Suc (held_count k fs)"
  shows "lock_ok (drop_lock h) k (ss[i := fs])"
proof (cases h)
  case None
  then show ?thesis using assms by (auto simp: lock_ok_def)
next
  case (Some jm)
  obtain j m where jm: "jm = (j, m)" by fastforce
  have all: "held_count k (ss ! x) = (if x = j then m else 0)" if "x < length ss" for x
    using assms(1) Some jm that by (auto simp: lock_ok_def)
  have "j = i" "m = Suc (held_count k fs)" using all [OF assms(2)] assms(3) by (auto split: if_splits)
  then show ?thesis using Some jm all assms(2)
    by (auto simp: lock_ok_def drop_lock_def nth_list_update)
qed

lemma lock_for_simps [simp]:
  "lock (lock_for k y) = lock y" "stacks (lock_for k y) = stacks y" "lock_alerts (lock_for k y) = lock_alerts y"
  by (simp_all add: lock_for_def)

lemma update_simps [simp]:
  "lock (set_stack i fs y) = lock y" "stacks (set_stack i fs y) = (stacks y)[i := fs]"
  "lock_alerts (set_stack i fs y) = lock_alerts y"
  "lock (set_lock k h y) = (lock y)(k := h)" "stacks (set_lock k h y) = stacks y"
  "lock_alerts (set_lock k h y) = lock_alerts y"
  "lock (alert_timeout k y) = lock y" "stacks (alert_timeout k y) = stacks y"
  "lock_alerts (alert_timeout k y) = lock_alerts y @ [k]"
  by (simp_all add: set_lock_def set_stack_def alert_timeout_def)

lemma locks_ok_more [simp]: "locks_ok (alert_timeout k y) = locks_ok y" "locks_ok (lock_for k y) = locks_ok y"
  by (simp_all add: locks_ok_def)

lemma locks_ok_same:
  "locks_ok y \<Longrightarrow> (\<And>k. held_count k fs = held_count k (stacks y ! i)) \<Longrightarrow> locks_ok (set_stack i fs y)"
  by (simp add: locks_ok_def lock_ok_same)

lemma locks_ok_take:
  assumes "locks_ok y" and "i < length (stacks y)" and "may_take i (lock y k)"
    and "\<And>k'. held_count k' fs = (if k' = k then 1 else 0) + held_count k' (stacks y ! i)"
  shows "locks_ok (set_stack i fs (set_lock k (take_lock i (lock y k)) (lock_for k y)))"
  using assms by (auto simp: locks_ok_def intro: lock_ok_same lock_ok_take)

lemma locks_ok_drop:
  assumes "locks_ok y" and "i < length (stacks y)"
    and "\<And>k'. held_count k' (stacks y ! i) = (if k' = k then 1 else 0) + held_count k' fs"
  shows "locks_ok (set_stack i fs (set_lock k (drop_lock (lock y k)) y))"
  using assms by (auto simp: locks_ok_def intro: lock_ok_same lock_ok_drop)

lemma sorted_ordered_keys: "sorted_wrt (<) (ordered_keys vs)"
  by (simp add: ordered_keys_def strict_sorted_iff)

lemma lock_step_cases [consumes 1, case_names enter probe_no probe body take give pop expire leave]:
  assumes "lock_step i a y = Some y'"
  obtains (enter) ks where "i < length (stacks y)" "in_code (stacks y ! i)" "sorted_wrt (<) ks" "act_keys a = ks"
      "y' = set_stack i (new_frame ks # stacks y ! i) y" "a \<notin> {Proceed, Leave}"
  | (probe_no) k where "y' = lock_for k y" "a \<notin> {Proceed, Leave}"
  | (probe) k where "i < length (stacks y)" "in_code (stacks y ! i)" "may_take i (lock y k)" "act_keys a = [k]" "a \<notin> {Proceed, Leave}"
      "y' = set_stack i (\<lparr>f_todo = [], f_got = [(k, True)], f_stage = Giving\<rparr> # stacks y ! i)
              (set_lock k (take_lock i (lock y k)) (lock_for k y))"
  | (body) f fs where "i < length (stacks y)" "stacks y ! i = f # fs" "f_stage f = Taking" "f_todo f = []"
      "y' = set_stack i (f\<lparr>f_stage := Body\<rparr> # fs) y" "a = Proceed"
  | (take) f fs k ks where "i < length (stacks y)" "stacks y ! i = f # fs" "f_stage f = Taking" "f_todo f = k # ks"
      "may_take i (lock y k)" "a = Proceed"
      "y' = set_stack i (f\<lparr>f_todo := ks, f_got := (k, True) # f_got f\<rparr> # fs)
              (set_lock k (take_lock i (lock y k)) (lock_for k y))"
  | (give) f fs k ok got where "i < length (stacks y)" "stacks y ! i = f # fs" "f_stage f = Giving"
      "f_got f = (k, ok) # got" "a = Proceed"
      "y' = set_stack i (f\<lparr>f_got := got\<rparr> # fs) (if ok then set_lock k (drop_lock (lock y k)) y else y)"
  | (pop) f fs where "i < length (stacks y)" "stacks y ! i = f # fs" "f_stage f = Giving" "f_got f = []"
      "y' = set_stack i fs y" "a = Proceed"
  | (expire) f fs k ks where "i < length (stacks y)" "stacks y ! i = f # fs" "f_stage f = Taking" "f_todo f = k # ks"
      "\<not> may_take i (lock y k)" "a = Expire"
      "y' = alert_timeout k (set_stack i (f\<lparr>f_todo := ks, f_got := (k, False) # f_got f\<rparr> # fs) (lock_for k y))"
  | (leave) f fs where "i < length (stacks y)" "stacks y ! i = f # fs" "f_stage f = Body" "a = Leave"
      "y' = set_stack i (f\<lparr>f_stage := Giving\<rparr> # fs) y"
proof -
  have i: "i < length (stacks y)" using assms by (auto split: if_splits)
  show thesis
  proof (cases a)
    case (Enter vs)
    then show thesis using assms i by (intro enter [of "ordered_keys vs"]) (auto simp: sorted_ordered_keys split: if_splits)
  next
    case (EnterOne v)
    then show thesis using assms i by (intro enter [of "[key_of v]"]) (auto split: if_splits)
  next
    case (Probe v)
    then have y': "y' = probe i v y" "in_code (stacks y ! i)" using assms i by (auto split: if_splits)
    show thesis
    proof (cases "est_verrouille i v y")
      case True
      then show thesis using y' by (intro probe_no [of "key_of v"]) (simp_all add: probe_def Let_def Probe)
    next
      case False
      then show thesis using y' i Probe by (intro probe [of "key_of v"]) (simp_all add: probe_def Let_def est_verrouille_def)
    qed
  next
    case Proceed
    then obtain f fs where st: "stacks y ! i = f # fs" and p: "proceed i f fs y = Some y'"
      using assms i by (auto split: list.splits)
    show thesis
    proof (cases "f_stage f")
      case Taking
      then show thesis using p i st Proceed
        by (cases "f_todo f") (auto simp: proceed_def split: if_splits intro: body take)
    next
      case Giving
      then show thesis using p i st Proceed
        by (cases "f_got f") (auto simp: proceed_def intro: pop give)
    qed (use p in \<open>simp add: proceed_def\<close>)
  next
    case Expire
    then obtain f fs where st: "stacks y ! i = f # fs" and p: "Vmid_Locks.expire i f fs y = Some y'"
      using assms i by (auto split: list.splits)
    then show thesis using i Expire
      by (auto simp: expire_def split: stage.splits list.splits if_splits intro: expire)
  next
    case Leave
    then show thesis using assms i by (auto split: list.splits if_splits intro: leave)
  qed
qed

lemma locks_ok_step:
  assumes ok: "locks_ok y" and step: "lock_step i a y = Some y'"
  shows "locks_ok y'"
  using step
proof (cases rule: lock_step_cases)
  case (probe_no k)
  then show ?thesis using ok by simp
next
  case (probe k)
  then show ?thesis by (auto intro: locks_ok_take [OF ok])
next
  case (take f fs k ks)
  then show ?thesis by (auto intro: locks_ok_take [OF ok])
next
  case (give f fs k b got)
  then show ?thesis by (auto intro: locks_ok_drop [OF ok] locks_ok_same [OF ok])
next
  case (expire f fs k ks)
  then show ?thesis using ok by (auto intro: locks_ok_same)
qed (auto simp: new_frame_def intro!: locks_ok_same [OF ok])

lemma locks_reach_ok: "locks_reach d y \<Longrightarrow> locks_ok y"
proof (induction rule: locks_reach.induct)
  case (start n)
  show ?case by (simp add: locks_ok_def lock_ok_def locks0_def)
next
  case (move y i a y')
  then show ?case using locks_ok_step by blast
qed

lemma held_lock:
  assumes "locks_ok y" and "i < length (stacks y)" and "0 < held_count k (stacks y ! i)"
  shows "\<exists>m. lock y k = Some (i, m)"
  using locks_okD [OF assms(1), of k] assms(2,3)
  by (auto simp: lock_ok_def split: option.splits if_splits)

lemma lock_held:
  assumes "locks_ok y" and "lock y k = Some (i, m)"
  shows "i < length (stacks y) \<and> 0 < held_count k (stacks y ! i)"
  using locks_okD [OF assms(1), of k] assms(2) by (auto simp: lock_ok_def)

subsection \<open>The blocks of a thread\<close>

text \<open>A block goes through its keys in strict order, and only the last block of a thread moves.\<close>

definition frame_ok :: "frame \<Rightarrow> bool" where
  "frame_ok f \<longleftrightarrow> sorted_wrt (<) (rev (map fst (f_got f)) @ f_todo f) \<and> (f_stage f \<noteq> Taking \<longrightarrow> f_todo f = [])"

definition stack_ok :: "string list \<Rightarrow> frame list \<Rightarrow> bool" where
  "stack_ok al fs \<longleftrightarrow> (\<forall>f \<in> set fs. frame_ok f \<and> (\<forall>k. (k, False) \<in> set (f_got f) \<longrightarrow> k \<in> set al)) \<and>
     (\<forall>f \<in> set (tl fs). f_stage f = Body)"

definition stacks_ok :: "locks \<Rightarrow> bool" where
  "stacks_ok y \<longleftrightarrow> (\<forall>fs \<in> set (stacks y). stack_ok (lock_alerts y) fs)"

lemma stacks_okD: "stacks_ok y \<Longrightarrow> i < length (stacks y) \<Longrightarrow> stack_ok (lock_alerts y) (stacks y ! i)"
  by (simp add: stacks_ok_def)

lemma stack_ok_more: "stack_ok al fs \<Longrightarrow> set al \<subseteq> set al' \<Longrightarrow> stack_ok al' fs"
  by (auto simp: stack_ok_def)

lemma stacks_ok_more [simp]: "stacks_ok (lock_for k y) = stacks_ok y" "stacks_ok (set_lock k h y) = stacks_ok y"
  by (simp_all add: stacks_ok_def)

lemma stacks_ok_set: "stacks_ok y \<Longrightarrow> stack_ok (lock_alerts y) fs \<Longrightarrow> stacks_ok (set_stack i fs y)"
  by (auto simp: stacks_ok_def dest!: set_update_subset_insert [THEN subsetD])

lemma stacks_ok_alert: "stacks_ok y \<Longrightarrow> stacks_ok (alert_timeout k y)"
  by (auto simp: stacks_ok_def intro: stack_ok_more)

lemma stack_ok_push:
  "stack_ok al fs \<Longrightarrow> in_code fs \<Longrightarrow> frame_ok f \<Longrightarrow> (\<And>k. (k, False) \<notin> set (f_got f)) \<Longrightarrow> stack_ok al (f # fs)"
  by (auto simp: stack_ok_def in_code_def split: list.splits)

lemma stack_ok_top:
  "stack_ok al (f # fs) \<Longrightarrow> (frame_ok f \<Longrightarrow> frame_ok g) \<Longrightarrow>
   (\<And>k. (k, False) \<in> set (f_got g) \<Longrightarrow> (k, False) \<in> set (f_got f) \<or> k \<in> set al) \<Longrightarrow> stack_ok al (g # fs)"
  by (auto simp: stack_ok_def)

lemma frame_ok_take: "frame_ok f \<Longrightarrow> f_todo f = k # ks \<Longrightarrow> frame_ok (f\<lparr>f_todo := ks, f_got := (k, b) # f_got f\<rparr>)"
  by (cases "f_stage f") (simp_all add: frame_ok_def)

lemma frame_ok_give: "frame_ok f \<Longrightarrow> f_got f = x # got \<Longrightarrow> frame_ok (f\<lparr>f_got := got\<rparr>)"
  by (simp add: frame_ok_def sorted_wrt_append)

lemma frame_ok_stage: "frame_ok f \<Longrightarrow> f_todo f = [] \<Longrightarrow> frame_ok (f\<lparr>f_stage := st\<rparr>)"
  by (simp add: frame_ok_def)

lemma frame_ok_single: "frame_ok \<lparr>f_todo = [], f_got = [(k, b)], f_stage = st\<rparr>"
  by (simp add: frame_ok_def)

lemma stack_ok_tl: "stack_ok al (f # fs) \<Longrightarrow> stack_ok al fs"
  by (cases fs) (auto simp: stack_ok_def)

lemma stacks_ok_step:
  assumes ok: "stacks_ok y" and step: "lock_step i a y = Some y'"
  shows "stacks_ok y'"
proof -
  have al: "stack_ok (lock_alerts y) (stacks y ! i)" if "i < length (stacks y)" using stacks_okD [OF ok that] .
  show ?thesis using step
  proof (cases rule: lock_step_cases)
    case (probe_no k)
    then show ?thesis using ok by simp
  next
    case (enter ks)
    then show ?thesis using al ok by (auto simp: new_frame_def frame_ok_def intro!: stacks_ok_set stack_ok_push)
  next
    case (probe k)
    then show ?thesis using al ok by (auto simp: frame_ok_single intro!: stacks_ok_set stack_ok_push)
  next
    case (pop f fs)
    then show ?thesis using al ok stack_ok_tl by (auto intro!: stacks_ok_set)
  next
    case (expire f fs k ks)
    let ?g = "f\<lparr>f_todo := ks, f_got := (k, False) # f_got f\<rparr>"
    have "stack_ok (lock_alerts y @ [k]) (f # fs)"
      using stack_ok_more [OF al [OF expire(1)], of "lock_alerts y @ [k]"] expire by auto
    then have g: "stack_ok (lock_alerts y @ [k]) (?g # fs)"
      using expire by (elim stack_ok_top) (auto intro: frame_ok_take)
    have "y' = set_stack i (?g # fs) (alert_timeout k (lock_for k y))"
      using expire by (simp add: set_stack_def alert_timeout_def)
    then show ?thesis using g ok by (auto intro!: stacks_ok_set stacks_ok_alert)
  next
    case (give f fs k b got)
    then show ?thesis using al ok by (auto intro!: stacks_ok_set intro: frame_ok_give elim!: stack_ok_top)
  next
    case (take f fs k ks)
    then show ?thesis using al ok by (auto intro!: stacks_ok_set intro: frame_ok_take elim!: stack_ok_top)
  next
    case (body f fs)
    then show ?thesis using al ok by (auto intro!: stacks_ok_set intro: frame_ok_stage elim!: stack_ok_top)
  next
    case (leave f fs)
    then have "frame_ok f \<Longrightarrow> f_todo f = []" by (simp add: frame_ok_def)
    then show ?thesis using leave al ok by (auto intro!: stacks_ok_set intro: frame_ok_stage elim!: stack_ok_top)
  qed
qed

lemma stacks_reach_ok: "locks_reach d y \<Longrightarrow> stacks_ok y"
proof (induction rule: locks_reach.induct)
  case (start n)
  show ?case by (simp add: stacks_ok_def stack_ok_def locks0_def)
next
  case (move y i a y')
  then show ?case using stacks_ok_step by blast
qed

subsection \<open>Progress\<close>

text \<open>The keys a nested block asks for are held by the blocks around it.\<close>

fun calm_stack :: "frame list \<Rightarrow> bool" where
  "calm_stack [] = True"
| "calm_stack (f # fs) = ((fs \<noteq> [] \<longrightarrow> (\<forall>k \<in> set (f_todo f). 0 < held_count k fs)) \<and> calm_stack fs)"

definition calm :: "locks \<Rightarrow> bool" where
  "calm y \<longleftrightarrow> (\<forall>fs \<in> set (stacks y). calm_stack fs)"

lemma calm_simps [simp]: "calm (lock_for k y) = calm y" "calm (set_lock k h y) = calm y" "calm (alert_timeout k y) = calm y"
  by (simp_all add: calm_def)

lemma calm_set: "calm y \<Longrightarrow> calm_stack fs \<Longrightarrow> calm (set_stack i fs y)"
  by (auto simp: calm_def dest!: set_update_subset_insert [THEN subsetD])

lemma calm_step:
  assumes ok: "calm y" and nest: "nested_ok i a y" and step: "lock_step i a y = Some y'"
  shows "calm y'"
proof -
  have c: "calm_stack (stacks y ! i)" if "i < length (stacks y)" using ok that by (simp add: calm_def)
  show ?thesis using step
  proof (cases rule: lock_step_cases)
    case (enter ks)
    then show ?thesis using c ok nest by (auto simp: new_frame_def nested_ok_def intro!: calm_set)
  qed (use c ok in \<open>auto intro!: calm_set\<close>)
qed

lemma reach_calm: "locks_reach True y \<Longrightarrow> calm y"
proof (induction rule: locks_reach.induct)
  case (start n)
  show ?case by (simp add: calm_def locks0_def)
next
  case (move y i a y')
  then show ?case using calm_step by blast
qed

text \<open>The steps a thread still has to make when no wait expires.\<close>

definition frame_weight :: "frame \<Rightarrow> nat" where
  "frame_weight f = length (f_got f) +
     (case f_stage f of Taking \<Rightarrow> 2 * length (f_todo f) + 3 | Body \<Rightarrow> 2 | Giving \<Rightarrow> 1)"

definition weight :: "locks \<Rightarrow> nat" where
  "weight y = sum_list (map (\<lambda>fs. sum_list (map frame_weight fs)) (stacks y))"

definition idle :: "locks \<Rightarrow> bool" where
  "idle y \<longleftrightarrow> (\<forall>fs \<in> set (stacks y). fs = [])"

lemma weight_set_stack:
  assumes "i < length (stacks y)" and "stacks z = stacks y"
    and "sum_list (map frame_weight (stacks y ! i)) = Suc (sum_list (map frame_weight fs))"
  shows "weight y = Suc (weight (set_stack i fs z))"
proof -
  let ?w = "\<lambda>fs. sum_list (map frame_weight fs)" and ?ss = "stacks y"
  have "?ss = take i ?ss @ ?ss ! i # drop (Suc i) ?ss" using assms(1) by (rule id_take_nth_drop)
  then have "weight y = sum_list (map ?w (take i ?ss)) + ?w (?ss ! i) + sum_list (map ?w (drop (Suc i) ?ss))"
    unfolding weight_def by (metis (no_types) add.assoc list.simps(9) map_append sum_list.Cons sum_list.append)
  moreover have "weight (set_stack i fs z) = sum_list (map ?w (take i ?ss)) + ?w fs + sum_list (map ?w (drop (Suc i) ?ss))"
    using assms(1,2) by (simp add: weight_def upd_conv_take_nth_drop add.assoc)
  ultimately show ?thesis using assms(3) by simp
qed

lemma weight_step:
  assumes "lock_step i a y = Some y'" and "a = Proceed \<or> a = Leave"
  shows "weight y = Suc (weight y')"
  using assms(1)
proof (cases rule: lock_step_cases)
  case (enter ks)
  then show ?thesis using assms(2) by auto
next
  case (probe_no k)
  then show ?thesis using assms(2) by auto
next
  case (probe k)
  then show ?thesis using assms(2) by auto
qed (use assms in \<open>auto simp: frame_weight_def intro!: weight_set_stack\<close>)

text \<open>A thread that cannot move is in one block, and waits for a key that another thread holds.\<close>

lemma stuck_thread:
  assumes y: "locks_ok y" "stacks_ok y" "calm y" and i: "i < length (stacks y)" and st: "stacks y ! i = f # fs"
    and stuck: "lock_step i Proceed y = None" "lock_step i Leave y = None"
  obtains k ks j m where "fs = []" "f_todo f = k # ks" "lock y k = Some (j, m)" "frame_ok f"
proof -
  have p: "proceed i f fs y = None" and nb: "f_stage f \<noteq> Body" using stuck i st by (auto split: if_splits)
  have "f_stage f = Taking" using p nb
    by (cases "f_stage f") (auto simp: proceed_def split: list.splits prod.splits)
  then obtain k ks where k: "f_todo f = k # ks" "\<not> may_take i (lock y k)"
    using p by (auto simp: proceed_def split: list.splits if_splits)
  then obtain j m where jm: "lock y k = Some (j, m)" "j \<noteq> i" by (auto simp: may_take_def split: option.splits)
  have "stack_ok (lock_alerts y) (f # fs)" using stacks_okD [OF y(2) i] st by simp
  then have "frame_ok f" by (simp add: stack_ok_def)
  moreover have "fs = []"
  proof (rule ccontr)
    assume "fs \<noteq> []"
    moreover have "calm_stack (f # fs)" using y(3) i st nth_mem unfolding calm_def by metis
    ultimately have "0 < held_count k (stacks y ! i)" using k(1) st by simp
    from held_lock [OF y(1) i this] show False using jm by auto
  qed
  ultimately show thesis using that k(1) jm(1) by blast
qed

theorem no_deadlock:
  assumes "locks_reach True y" and "\<not> idle y"
  shows "\<exists>i a y'. (a = Proceed \<or> a = Leave) \<and> lock_step i a y = Some y'"
proof (rule ccontr)
  assume none: "\<not> ?thesis"
  then have stuck: "lock_step i Proceed y = None" "lock_step i Leave y = None" for i by (metis option.exhaust)+
  note y = locks_reach_ok [OF assms(1)] stacks_reach_ok [OF assms(1)] reach_calm [OF assms(1)]
  note waits = stuck_thread [OF y _ _ stuck]
  define W where "W = {k. \<exists>i < length (stacks y). \<exists>f ks. stacks y ! i = [f] \<and> f_todo f = k # ks}"
  have "k \<in> (\<lambda>i. hd (f_todo (hd (stacks y ! i)))) ` {..<length (stacks y)}" if "k \<in> W" for k
  proof -
    from that obtain i f ks where "i < length (stacks y)" "stacks y ! i = [f]" "f_todo f = k # ks" by (auto simp: W_def)
    then have "k = hd (f_todo (hd (stacks y ! i)))" and "i \<in> {..<length (stacks y)}" by simp_all
    then show ?thesis by (rule image_eqI)
  qed
  then have fin: "finite W" by (intro finite_subset [OF _ finite_imageI [OF finite_lessThan]] subsetI)
  obtain i f fs where i: "i < length (stacks y)" "stacks y ! i = f # fs"
    using assms(2) by (auto simp: idle_def in_set_conv_nth neq_Nil_conv)
  obtain k ks where "fs = []" "f_todo f = k # ks" using waits [OF i] by blast
  then have "k \<in> W" using i unfolding W_def by blast
  then have "W \<noteq> {}" by blast
  then have "Max W \<in> W" using fin by simp
  then obtain i f ks where i: "i < length (stacks y)" "stacks y ! i = [f]" "f_todo f = Max W # ks" by (auto simp: W_def)
  obtain j m where "lock y (Max W) = Some (j, m)" using waits [OF i(1,2)] i(3) by (metis list.inject)
  from lock_held [OF y(1) this] have j: "j < length (stacks y)" and h: "0 < held_count (Max W) (stacks y ! j)" by auto
  then obtain g gs where g: "stacks y ! j = g # gs" by (cases "stacks y ! j") auto
  obtain k ks where w: "gs = []" "f_todo g = k # ks" "frame_ok g" using waits [OF j g] by metis
  have "(Max W, True) \<in> set (f_got g)" using h w(1) unfolding g held_count_pos by auto
  then have "Max W < k" using w(2,3) by (auto simp: frame_ok_def sorted_wrt_append dest: imageI [where f = fst])
  moreover have "k \<in> W" unfolding W_def using j g w by auto
  ultimately show False using Max_ge [OF fin, of k] by simp
qed

lemma idle_free: "locks_ok y \<Longrightarrow> idle y \<Longrightarrow> lock y k = None"
proof (rule ccontr)
  assume ok: "locks_ok y" and idle: "idle y" and "lock y k \<noteq> None"
  then obtain i m where "lock y k = Some (i, m)" by auto
  from lock_held [OF ok this] show False using idle nth_mem unfolding idle_def by fastforce
qed

lemma weight_idle: "weight y = 0 \<longleftrightarrow> idle y"
proof -
  have "frame_weight f \<noteq> 0" for f by (simp add: frame_weight_def split: stage.splits)
  then have "sum_list (map frame_weight fs) = 0 \<longleftrightarrow> fs = []" for fs by (cases fs) auto
  then show ?thesis by (auto simp: weight_def idle_def sum_list_eq_0_iff)
qed

subsection \<open>The properties\<close>

fun lock_run :: "(nat \<times> act) list \<Rightarrow> locks \<Rightarrow> locks option" where
  "lock_run [] y = Some y"
| "lock_run ((i, a) # as) y = (case lock_step i a y of None \<Rightarrow> None | Some y' \<Rightarrow> lock_run as y')"

fun calm_run :: "(nat \<times> act) list \<Rightarrow> locks \<Rightarrow> bool" where
  "calm_run [] y = True"
| "calm_run ((i, a) # as) y =
     (nested_ok i a y \<and> (case lock_step i a y of None \<Rightarrow> True | Some y' \<Rightarrow> calm_run as y'))"

lemma lock_run_reach:
  "locks_reach d y \<Longrightarrow> (d \<Longrightarrow> calm_run as y) \<Longrightarrow> lock_run as y = Some y' \<Longrightarrow> locks_reach d y'"
proof (induction as arbitrary: y)
  case (Cons ia as)
  obtain i a where ia: "ia = (i, a)" by fastforce
  obtain z where z: "lock_step i a y = Some z" "lock_run as z = Some y'"
    using Cons.prems(3) ia by (auto split: option.splits)
  have "locks_reach d z"
    by (rule locks_reach.move [OF Cons.prems(1) _ z(1)]) (use Cons.prems(2) ia in auto)
  then show ?case by (rule Cons.IH) (use Cons.prems(2) ia z in auto)
qed simp

lemma calm_run_inside: "\<forall>(i, a) \<in> set as. a = Proceed \<or> a = Leave \<Longrightarrow> calm_run as y"
  by (induction as y rule: calm_run.induct) (auto simp: nested_ok_def split: option.splits)

text \<open>
  C39. Two threads are in the bodies of operations on the same container at once only when a wait for that container's lock has
  expired, and that was said in an alert.
\<close>

theorem bodies_serialised:
  assumes r: "locks_reach d y" and ij: "i < length (stacks y)" "j < length (stacks y)"
    and f: "f \<in> set (stacks y ! i)" "k \<in> set (map fst (f_got f))" "f_stage f = Body"
    and g: "g \<in> set (stacks y ! j)" "k \<in> set (map fst (f_got g))" "f_stage g = Body"
  shows "i = j \<or> k \<in> set (lock_alerts y)"
proof (cases "(k, True) \<in> set (f_got f) \<and> (k, True) \<in> set (f_got g)")
  case True
  then have "0 < held_count k (stacks y ! i)" "0 < held_count k (stacks y ! j)" using f(1) g(1) held_count_pos by blast+
  then obtain m m' where "lock y k = Some (i, m)" "lock y k = Some (j, m')"
    using held_lock [OF locks_reach_ok [OF r]] ij by blast
  then show ?thesis by simp
next
  case False
  moreover obtain b c where "(k, b) \<in> set (f_got f)" "(k, c) \<in> set (f_got g)" using f(2) g(2) by auto
  ultimately have "(k, False) \<in> set (f_got f) \<or> (k, False) \<in> set (f_got g)" by (cases b; cases c) auto
  moreover have "stack_ok (lock_alerts y) (stacks y ! i)" "stack_ok (lock_alerts y) (stacks y ! j)"
    using stacks_okD [OF stacks_reach_ok [OF r]] ij by auto
  ultimately show ?thesis using f(1) g(1) by (auto simp: stack_ok_def)
qed

text \<open>
  C38. No operation waits for ever: when a thread inside an operation only enters operations on containers it already
  holds, then as long as any thread is in an operation some thread can go on without a timeout, and after a number of steps that is known in
  advance every operation has ended and every lock is free, whatever the order in which the threads run.
\<close>

theorem operations_end:
  assumes r: "locks_reach True y" and run: "lock_run as y = Some y'" and as: "\<forall>(i, a) \<in> set as. a = Proceed \<or> a = Leave"
  shows "length as \<le> weight y \<and>
    (if length as = weight y then idle y' \<and> (\<forall>k. lock y' k = None)
     else \<exists>i a z. (a = Proceed \<or> a = Leave) \<and> lock_step i a y' = Some z)"
proof -
  have r': "locks_reach True y'" by (rule lock_run_reach [OF r calm_run_inside [OF as] run])
  have w: "length as + weight y' = weight y"
    using run as
  proof (induction as arbitrary: y)
    case (Cons ia as)
    obtain i a where ia: "ia = (i, a)" by fastforce
    obtain z where z: "lock_step i a y = Some z" "lock_run as z = Some y'"
      using Cons.prems(1) ia by (auto split: option.splits)
    then show ?case using Cons.IH [of z] weight_step [of i a y z] Cons.prems(2) ia by auto
  qed simp
  show ?thesis
  proof (cases "idle y'")
    case True
    then show ?thesis using w weight_idle [of y'] idle_free [OF locks_reach_ok [OF r']] by simp
  next
    case False
    then show ?thesis using w weight_idle [of y'] no_deadlock [OF r'] by auto
  qed
qed

text \<open>
  A run: two threads enter operations on the containers 301 and 302, written in opposite orders and with a duplicate; the first
  one takes 301, the second one waits.
\<close>

definition entered :: "(nat \<times> act) list" where
  "entered = [(0, Enter [VInt 302, VInt 301]), (1, Enter [VStr ''301'', VInt 302, VInt 301, VInt 0]), (0, Proceed)]"

definition the_rest :: "(nat \<times> act) list" where
  "the_rest = [(0, Proceed), (0, Proceed), (0, Leave), (0, Proceed), (0, Proceed), (0, Proceed),
     (1, Proceed), (1, Proceed), (1, Proceed), (1, Leave), (1, Proceed), (1, Proceed), (1, Proceed)]"

definition two_threads :: locks where
  "two_threads = the (lock_run entered (locks0 2))"

lemma two_threads_reach: "locks_reach True two_threads"
proof -
  have "lock_run entered (locks0 2) \<noteq> None" and c: "calm_run entered (locks0 2)" by code_simp+
  then have "lock_run entered (locks0 2) = Some two_threads" by (auto simp: two_threads_def)
  then show ?thesis by (rule lock_run_reach [OF locks_reach.start c])
qed

theorem operations_end_witness:
  "weight two_threads = length the_rest \<and> lock_step 1 Proceed two_threads = None \<and>
   idle (the (lock_run the_rest two_threads))"
proof -
  have w: "weight two_threads = length the_rest" and b: "lock_step 1 Proceed two_threads = None" by code_simp+
  have "lock_run the_rest two_threads \<noteq> None" by code_simp
  then have run: "lock_run the_rest two_threads = Some (the (lock_run the_rest two_threads))" by simp
  have "\<forall>(i, a) \<in> set the_rest. a = Proceed \<or> a = Leave" by (simp add: the_rest_def)
  from operations_end [OF two_threads_reach run this] show ?thesis using w b by simp
qed

text \<open>The wait of the second thread expires; both threads are then in the bodies of their operations.\<close>

definition overlap :: locks where
  "overlap = the (lock_run [(0, Proceed), (0, Proceed), (1, Expire), (1, Expire), (1, Proceed)] two_threads)"

theorem bodies_serialised_witness:
  "map (\<lambda>fs. map f_stage fs) (stacks overlap) = [[Body], [Body]] \<and> ''301'' \<in> set (lock_alerts overlap)"
proof -
  let ?as = "[(0, Proceed), (0, Proceed), (1, Expire), (1, Expire), (1, Proceed)]"
  let ?f = "\<lparr>f_todo = [], f_got = [(''302'', True), (''301'', True)], f_stage = Body\<rparr>"
  let ?g = "\<lparr>f_todo = [], f_got = [(''302'', False), (''301'', False)], f_stage = Body\<rparr>"
  have "lock_run ?as two_threads \<noteq> None" and c: "calm_run ?as two_threads" by code_simp+
  then have "lock_run ?as two_threads = Some overlap" by (auto simp: overlap_def)
  then have r: "locks_reach True overlap" by (rule lock_run_reach [OF two_threads_reach c])
  have st: "stacks overlap = [[?f], [?g]]" by code_simp
  have "(0::nat) = 1 \<or> ''301'' \<in> set (lock_alerts overlap)"
    by (rule bodies_serialised [OF r, where f = ?f and g = ?g]) (simp_all add: st)
  then show ?thesis using st by simp
qed

end
