(* ===== verification/Edit_Lock.thy ===== *)
theory Edit_Lock
  imports Bobi_Prelude Complex_Main
begin

text \<open>
  The soft lock of an editor on a container (\<open>app/edit_lock.py\<close>): who has the wall in hand, kept in memory, renewed by a
  beat and abandoned after \<open>TTL_S\<close> seconds without one.  Every operation runs under one lock, at the time \<open>now\<close> it reads.
\<close>

record edit_lock =
  e_user :: "int option"
  e_name :: string
  e_since :: rat
  e_seen :: rat

type_synonym edit_table = "int \<Rightarrow> edit_lock option"

definition ttl_s :: rat where
  "ttl_s = 90"

definition drop_expired :: "rat \<Rightarrow> edit_table \<Rightarrow> edit_table" where
  "drop_expired now tab v =
     (case tab v of None \<Rightarrow> None | Some e \<Rightarrow> if ttl_s < now - e_seen e then None else Some e)"

text \<open>What the interface is told: \<open>libre\<close>, \<open>a_moi\<close>, the user, the name, \<open>depuis_s\<close>.\<close>

record edit_state =
  s_free :: bool
  s_mine :: bool
  s_user :: "int option"
  s_name :: string
  s_for :: int

definition whole_seconds :: "rat \<Rightarrow> int" where
  "whole_seconds t = (if 0 \<le> t then \<lfloor>t\<rfloor> else \<lceil>t\<rceil>)"

definition etat :: "int \<Rightarrow> int option \<Rightarrow> rat \<Rightarrow> edit_table \<Rightarrow> edit_state \<times> edit_table" where
  "etat v user now tab =
     (let tab1 = drop_expired now tab in
      (case tab1 v of
         None \<Rightarrow> \<lparr>s_free = True, s_mine = False, s_user = None, s_name = [], s_for = 0\<rparr>
       | Some e \<Rightarrow> \<lparr>s_free = False, s_mine = (user \<noteq> None \<and> e_user e = user), s_user = e_user e, s_name = e_name e,
                     s_for = whole_seconds (now - e_since e)\<rparr>,
       tab1))"

definition prendre :: "int \<Rightarrow> int option \<Rightarrow> string \<Rightarrow> bool \<Rightarrow> rat \<Rightarrow> edit_table \<Rightarrow> (bool \<times> edit_state) \<times> edit_table" where
  "prendre v user name force now tab =
     (let tab1 = drop_expired now tab in
      case tab1 v of
        Some e \<Rightarrow>
          if e_user e \<noteq> user \<and> \<not> force
          then ((False, \<lparr>s_free = False, s_mine = False, s_user = e_user e, s_name = e_name e,
                         s_for = whole_seconds (now - e_since e)\<rparr>), tab1)
          else
            (let since = (if e_user e = user then e_since e else now)
             in ((True, \<lparr>s_free = False, s_mine = True, s_user = user, s_name = name, s_for = whole_seconds (now - since)\<rparr>),
                 tab1(v \<mapsto> \<lparr>e_user = user, e_name = name, e_since = since, e_seen = now\<rparr>)))
      | None \<Rightarrow>
          ((True, \<lparr>s_free = False, s_mine = True, s_user = user, s_name = name, s_for = 0\<rparr>),
           tab1(v \<mapsto> \<lparr>e_user = user, e_name = name, e_since = now, e_seen = now\<rparr>)))"

definition rendre :: "int \<Rightarrow> int option \<Rightarrow> edit_table \<Rightarrow> bool \<times> edit_table" where
  "rendre v user tab =
     (case tab v of
        Some e \<Rightarrow> if e_user e = user then (True, tab(v := None)) else (False, tab)
      | None \<Rightarrow> (False, tab))"

subsection \<open>Histories\<close>

datatype edit_op = Take int "int option" string bool | Give int "int option" | Look int "int option"

fun edit_step :: "rat \<Rightarrow> edit_op \<Rightarrow> edit_table \<Rightarrow> edit_table" where
  "edit_step now (Take v u n f) tab = snd (prendre v u n f now tab)"
| "edit_step now (Give v u) tab = snd (rendre v u tab)"
| "edit_step now (Look v u) tab = snd (etat v u now tab)"

definition edit_run :: "(rat \<times> edit_op) list \<Rightarrow> edit_table \<Rightarrow> edit_table" where
  "edit_run ops tab = fold (\<lambda>(now, q). edit_step now q) ops tab"

text \<open>
  The editor \<open>u\<close> of \<open>v\<close>, last seen at \<open>t\<close>, is in time along a history: no operation comes more than \<open>TTL_S\<close> seconds after his last
  beat; and nobody else takes the lock by force, nor does he give it back.
\<close>

fun in_time :: "int \<Rightarrow> int option \<Rightarrow> rat \<Rightarrow> (rat \<times> edit_op) list \<Rightarrow> bool" where
  "in_time v u t [] = True"
| "in_time v u t ((now, q) # ops) =
     (now - t \<le> ttl_s \<and>
      (case q of
         Take w u' n f \<Rightarrow> if w = v \<and> u' = u then in_time v u now ops else \<not> (w = v \<and> f) \<and> in_time v u t ops
       | Give w u' \<Rightarrow> \<not> (w = v \<and> u' = u) \<and> in_time v u t ops
       | Look w u' \<Rightarrow> in_time v u t ops))"

lemma drop_expired_keeps: "tab v = Some e \<Longrightarrow> now - e_seen e \<le> ttl_s \<Longrightarrow> drop_expired now tab v = Some e"
  by (simp add: drop_expired_def)

lemma edit_step_keeps:
  assumes e: "tab v = Some e" "e_user e = u" and t: "now - e_seen e \<le> ttl_s"
    and q: "\<not> (\<exists>n u'. q = Take v u' n True \<and> u' \<noteq> u)" "q \<noteq> Give v u"
  shows "\<exists>e'. edit_step now q tab v = Some e' \<and> e_user e' = u \<and> e_since e' = e_since e \<and>
    e_seen e' = (case q of Take w u' n f \<Rightarrow> if w = v \<and> u' = u then now else e_seen e | _ \<Rightarrow> e_seen e)"
proof -
  note d = drop_expired_keeps [of tab v e now, OF e(1) t]
  show ?thesis
  proof (cases q)
    case (Take w u' n f)
    show ?thesis
    proof (cases "w = v")
      case True
      then have "u' \<noteq> u \<Longrightarrow> \<not> f" using q(1) Take by (cases f) auto
      then show ?thesis using d e(2) Take True by (auto simp: prendre_def Let_def)
    next
      case False
      then show ?thesis using d e(2) Take by (auto simp: prendre_def Let_def split: option.splits)
    qed
  next
    case (Give w u')
    then show ?thesis using e q(2) by (auto simp: rendre_def split: option.splits)
  next
    case (Look w u')
    then show ?thesis using d e(2) by (simp add: etat_def Let_def)
  qed
qed

text \<open>
  C40. An editor who beats in time keeps the lock, and the time since which he has it, through any operations of the others
  that do not take it by force; whoever else asks for it is refused.
\<close>

theorem editor_keeps_lock:
  assumes "tab v = Some e" and "e_user e = u" and "in_time v u (e_seen e) ops"
  shows "\<exists>e'. edit_run ops tab v = Some e' \<and> e_user e' = u \<and> e_since e' = e_since e"
  using assms
proof (induction ops arbitrary: tab e)
  case Nil
  then show ?case by (simp add: edit_run_def)
next
  case (Cons nq ops)
  obtain now q where nq: "nq = (now, q)" by fastforce
  have t: "now - e_seen e \<le> ttl_s" using Cons.prems(3) nq by simp
  have q: "\<not> (\<exists>n u'. q = Take v u' n True \<and> u' \<noteq> u)" "q \<noteq> Give v u"
    using Cons.prems(3) nq by (auto split: if_splits)
  obtain e' where e': "edit_step now q tab v = Some e'" "e_user e' = u" "e_since e' = e_since e"
    "e_seen e' = (case q of Take w u' n f \<Rightarrow> if w = v \<and> u' = u then now else e_seen e | _ \<Rightarrow> e_seen e)"
    using edit_step_keeps [of tab v e u now q, OF Cons.prems(1,2) t q] by blast
  have "in_time v u (e_seen e') ops" using Cons.prems(3) nq e'(4) by (auto split: edit_op.splits if_splits)
  from Cons.IH [of "edit_step now q tab" e', OF e'(1,2) this] show ?case using e'(3) nq by (simp add: edit_run_def)
qed

theorem editor_keeps_lock_witness:
  "edit_run [(0, Take 301 (Some 1) ''A'' False), (20, Take 301 (Some 2) ''B'' False), (80, Take 301 (Some 1) ''A'' False),
     (150, Take 301 (Some 2) ''B'' False), (160, Look 301 None)] Map.empty 301 \<noteq> None \<and>
   fst (fst (prendre 301 (Some 2) ''B'' False 100 Map.empty)) \<and>
   map_option e_user (edit_run [(20, Take 301 (Some 2) ''B'' False)] [301 \<mapsto> \<lparr>e_user = Some 1, e_name = ''A'', e_since = 0, e_seen = 0\<rparr>] 301)
     = Some (Some 1)"
proof -
  let ?e = "\<lparr>e_user = Some 1, e_name = ''A'', e_since = 0, e_seen = 0\<rparr>"
  have "\<exists>e'. edit_run [(20, Take 301 (Some 2) ''B'' False)] [301 \<mapsto> ?e] 301 = Some e' \<and> e_user e' = Some 1 \<and> e_since e' = e_since ?e"
    by (rule editor_keeps_lock) (simp_all add: ttl_s_def)
  then show ?thesis
    by (auto simp: edit_run_def prendre_def etat_def drop_expired_def ttl_s_def Let_def)
qed

text \<open>
  The answer of \<open>prendre\<close> is the new state of the lock: it is obtained exactly when nobody else holds a lock that is still fresh, or
  by force; once obtained it is the asker's and fresh; refused, it stays with its holder; no other container is concerned,
  except that abandoned locks go.
\<close>

theorem prendre_exact:
  "fst (fst (prendre v u n f now tab)) =
     (f \<or> (\<forall>e. tab v = Some e \<and> now - e_seen e \<le> ttl_s \<longrightarrow> e_user e = u)) \<and>
   snd (prendre v u n f now tab) v =
     (if fst (fst (prendre v u n f now tab))
      then Some \<lparr>e_user = u, e_name = n,
             e_since = (case drop_expired now tab v of Some e \<Rightarrow> if e_user e = u then e_since e else now | None \<Rightarrow> now),
             e_seen = now\<rparr>
      else tab v) \<and>
   (w \<noteq> v \<longrightarrow> snd (prendre v u n f now tab) w = drop_expired now tab w) \<and>
   s_mine (snd (fst (prendre v u n f now tab))) = fst (fst (prendre v u n f now tab))"
  by (cases "tab v") (auto simp: prendre_def drop_expired_def Let_def)

end
