(* ===== verification/Gpu_Pool.thy ===== *)
theory Gpu_Pool
  imports Bobi_Prelude
begin

text \<open>
  The allocation of the graphics cards of a node (\<open>app/gpu_pool.py\<close>): each container gets the index of one card, the least
  loaded one, and keeps it.  A card is shared: several containers may have the same index.
\<close>

text \<open>
  A node row as the module reads it: whether it has cards, and its count, \<open>None\<close> for a value that is not a number.  The table
  \<open>node_gpu_alloc\<close> holds (node, index, vmid); its key is (node, vmid).
\<close>

record gpu_node =
  gn_capable :: bool
  gn_count :: "int option"

record gpu_db =
  gpu_nodes :: "int \<Rightarrow> gpu_node option"
  gpu_rows :: "(int \<times> int \<times> int) list"

definition gpu_count :: "gpu_node option \<Rightarrow> int" where
  "gpu_count node =
     (case node of
        None \<Rightarrow> 0
      | Some n \<Rightarrow>
          if \<not> gn_capable n then 0
          else max 1 (case gn_count n of None \<Rightarrow> 1 | Some c \<Rightarrow> if c = 0 then 1 else c))"

text \<open>\<open>COUNT(*)\<close> of the rows of a node with an index.\<close>

definition load :: "gpu_db \<Rightarrow> int \<Rightarrow> int \<Rightarrow> nat" where
  "load db n g = length (filter (\<lambda>(m, h, v). m = n \<and> h = g) (gpu_rows db))"

definition held_gpu :: "gpu_db \<Rightarrow> int \<Rightarrow> int \<Rightarrow> int option" where
  "held_gpu db n v = map_option (\<lambda>(m, g, w). g) (find (\<lambda>(m, g, w). m = n \<and> w = v) (gpu_rows db))"

text \<open>\<open>min(counts, key=...)\<close>: the first of the least loaded.\<close>

fun least :: "('a \<Rightarrow> nat) \<Rightarrow> 'a \<Rightarrow> 'a list \<Rightarrow> 'a" where
  "least f b [] = b"
| "least f b (x # xs) = least f (if f x < f b then x else b) xs"

definition free_gpu :: "gpu_db \<Rightarrow> int \<Rightarrow> int \<Rightarrow> int" where
  "free_gpu db n ngpu = least (load db n) 0 [1..ngpu - 1]"

text \<open>The answer is the selector \<open>device=g\<close>, here its index.\<close>

definition allocate_gpu :: "int \<Rightarrow> int \<Rightarrow> gpu_db \<Rightarrow> gpu_db \<times> int option" where
  "allocate_gpu n v db =
     (if n = 0 \<or> gpu_count (gpu_nodes db n) \<le> 0 then (db, None)
      else
        (case held_gpu db n v of
           Some g \<Rightarrow> (db, Some g)
         | None \<Rightarrow>
             let g = free_gpu db n (gpu_count (gpu_nodes db n))
             in (db\<lparr>gpu_rows := filter (\<lambda>(m, h, w). \<not> (m = n \<and> w = v)) (gpu_rows db) @ [(n, g, v)]\<rparr>, Some g)))"

definition release_gpu :: "int \<Rightarrow> gpu_db \<Rightarrow> gpu_db" where
  "release_gpu v db = db\<lparr>gpu_rows := filter (\<lambda>(m, g, w). w \<noteq> v) (gpu_rows db)\<rparr>"

definition gpu_par_vmid :: "int \<Rightarrow> gpu_db \<Rightarrow> (int \<times> int) list" where
  "gpu_par_vmid n db =
     (if n = 0 then [] else map (\<lambda>(m, g, v). (v, g)) (filter (\<lambda>(m, g, v). m = n) (gpu_rows db)))"

text \<open>\<open>gpu_status\<close>: the count, the rows of the node, the load of each card.\<close>

definition gpu_status :: "int \<Rightarrow> gpu_db \<Rightarrow> int \<times> nat \<times> (int \<times> nat) list" where
  "gpu_status n db =
     (let ngpu = gpu_count (gpu_nodes db n)
      in (ngpu, if 0 < ngpu then length (filter (\<lambda>(m, g, v). m = n) (gpu_rows db)) else 0,
          map (\<lambda>g. (g, load db n g)) [0..ngpu - 1]))"

subsection \<open>Balance\<close>

lemma least_mem: "least f b xs \<in> insert b (set xs)"
  by (induction f b xs rule: least.induct) auto

lemma least_le: "f (least f b xs) \<le> f b \<and> (\<forall>x \<in> set xs. f (least f b xs) \<le> f x)"
proof (induction f b xs rule: least.induct)
  case (2 f b x xs)
  then show ?case by (cases "f x < f b") (auto intro: order_trans)
qed simp

lemma gpu_count_pos: "gpu_count nd \<le> 0 \<or> 1 \<le> gpu_count nd"
  by linarith

lemma free_gpu_range: "0 < ngpu \<Longrightarrow> 0 \<le> free_gpu db n ngpu \<and> free_gpu db n ngpu < ngpu"
  using least_mem [of "load db n" 0 "[1..ngpu - 1]"] by (auto simp: free_gpu_def)

lemma free_gpu_least: "0 \<le> g \<Longrightarrow> g < ngpu \<Longrightarrow> load db n (free_gpu db n ngpu) \<le> load db n g"
  using least_le [of "load db n" 0 "[1..ngpu - 1]"] by (cases "g = 0") (auto simp: free_gpu_def)

text \<open>The cards of a node are in balance: no two loads differ by more than one.\<close>

definition balanced :: "gpu_db \<Rightarrow> int \<Rightarrow> bool" where
  "balanced db n \<longleftrightarrow> (\<forall>g h. 0 \<le> g \<and> g < gpu_count (gpu_nodes db n) \<and> 0 \<le> h \<and> h < gpu_count (gpu_nodes db n)
     \<longrightarrow> load db n g \<le> Suc (load db n h))"

lemma find_snoc: "find P xs = None \<Longrightarrow> find P (xs @ ys) = find P ys"
  by (induction xs) (auto split: if_splits)

lemma held_gpu_None: "held_gpu db n v = None \<Longrightarrow> filter (\<lambda>(m, h, w). \<not> (m = n \<and> w = v)) (gpu_rows db) = gpu_rows db"
  by (auto simp: held_gpu_def find_None_iff filter_id_conv)

text \<open>
  An allocation answers a card of the node and keeps the balance of the cards; the same container asking again gets the same
  card and changes nothing; the cards of the other nodes and containers stay as they are.
\<close>

theorem allocate_gpu_balanced:
  assumes a: "allocate_gpu n v db = (db', Some g)" and new: "held_gpu db n v = None"
  shows "0 \<le> g \<and> g < gpu_count (gpu_nodes db n) \<and> gpu_rows db' = gpu_rows db @ [(n, g, v)] \<and>
    (\<forall>h. 0 \<le> h \<and> h < gpu_count (gpu_nodes db n) \<longrightarrow> load db n g \<le> load db n h) \<and>
    (balanced db n \<longrightarrow> balanced db' n) \<and> allocate_gpu n v db' = (db', Some g)"
proof -
  let ?k = "gpu_count (gpu_nodes db n)"
  have k: "n \<noteq> 0" "0 < ?k" using a by (auto simp: allocate_gpu_def split: if_splits)
  have g: "g = free_gpu db n ?k" and db': "db' = db\<lparr>gpu_rows := gpu_rows db @ [(n, g, v)]\<rparr>"
    using a k new held_gpu_None [OF new] by (auto simp: allocate_gpu_def Let_def)
  have le: "load db n g \<le> load db n h" if "0 \<le> h" "h < ?k" for h using free_gpu_least [OF that] g by simp
  have l: "load db' n h = load db n h + (if h = g then 1 else 0)" for h by (simp add: load_def db')
  have "balanced db' n" if b: "balanced db n"
    unfolding balanced_def
  proof (intro allI impI)
    fix x y assume xy: "0 \<le> x \<and> x < gpu_count (gpu_nodes db' n) \<and> 0 \<le> y \<and> y < gpu_count (gpu_nodes db' n)"
    then have xy': "0 \<le> x" "x < ?k" "0 \<le> y" "y < ?k" by (auto simp: db')
    then have "load db n x \<le> Suc (load db n y)" using b unfolding balanced_def by blast
    then show "load db' n x \<le> Suc (load db' n y)" using le [OF xy'(3,4)] l [of x] l [of y] by (simp split: if_splits)
  qed
  moreover have "held_gpu db' n v = Some g"
    using new by (simp add: held_gpu_def db' find_snoc)
  then have "allocate_gpu n v db' = (db', Some g)" using k by (simp add: allocate_gpu_def db')
  ultimately show ?thesis using free_gpu_range [of ?k db n] k g le db' by auto
qed

definition gpu_demo :: gpu_db where
  "gpu_demo = \<lparr>gpu_nodes = (\<lambda>n. Some \<lparr>gn_capable = True, gn_count = Some 2\<rparr>), gpu_rows = [(1, 0, 301), (2, 1, 302)]\<rparr>"

theorem allocate_gpu_balanced_witness:
  "snd (allocate_gpu 1 303 gpu_demo) = Some 1 \<and> gpu_rows (fst (allocate_gpu 1 303 gpu_demo)) = gpu_rows gpu_demo @ [(1, 1, 303)]"
proof -
  have "snd (allocate_gpu 1 303 gpu_demo) = Some 1" and new: "held_gpu gpu_demo 1 303 = None" by code_simp+
  then have "allocate_gpu 1 303 gpu_demo = (fst (allocate_gpu 1 303 gpu_demo), Some 1)" by (metis prod.collapse)
  from allocate_gpu_balanced [OF this new] show ?thesis using \<open>snd (allocate_gpu 1 303 gpu_demo) = Some 1\<close> by simp
qed

end
