(* ===== verification/Tally_State.thy ===== *)
theory Tally_State
  imports Bobi_Prelude
begin

text \<open>
  The tally of the plant (\<open>app/tally.py\<close>): which colour each flow has on each level.  Several writers (controllers, receivers,
  mixers) each state their own colours; what readers see is the sum of these.  This theory holds the two layers of the
  state, the ways to write them, the registry of the level carriers, the references to ports, and the colour of a flow as a
  reader takes it.

  Every function takes the lock of the module around each access; an action of \<open>tally_step\<close> is what one such section does.
\<close>

subsection \<open>Colours\<close>

type_synonym key = "string \<times> string"

definition off :: string where "off = ''off''"
definition amber :: string where "amber = ''amber''"

text \<open>\<open>a or "off"\<close>; a missing colour is the empty text here.\<close>

definition or_off :: "string \<Rightarrow> string" where
  "or_off a = (if a = [] then off else a)"

text \<open>The table \<open>_CUMUL\<close> has one entry, red and green; it and the default of the lookup give the same colour.\<close>

definition cumuler :: "string \<Rightarrow> string \<Rightarrow> string" where
  "cumuler a b =
     (let a = or_off a; b = or_off b in
      if a = off then b else if b = off then a else if a = b then a else amber)"

subsection \<open>The two layers\<close>

text \<open>
  \<open>par_source\<close>: what each writer states of each cell (a flow and a level).  \<open>t_state\<close>: the sum, the only one the readers see;
  a cell that is off is absent.  \<open>dirty\<close>: the signal of a change.  \<open>deduit\<close>, \<open>connus\<close>: the propagation of the last
  turn of the distributor, kept apart, and the flows it knew.
\<close>

record tally =
  par_source :: "(key \<times> (string \<times> string) list) list"
  t_state :: "(key \<times> string) list"
  dirty :: bool
  deduit :: "(key \<times> string) list"
  connus :: "string list"

definition tally0 :: tally where
  "tally0 = \<lparr>par_source = [], t_state = [], dirty = False, deduit = [], connus = []\<rparr>"

text \<open>\<open>d.get(k, "off")\<close>, \<open>d.get(k) or {}\<close> and \<open>d.pop(k, None)\<close>.\<close>

definition colour_at :: "(key \<times> string) list \<Rightarrow> key \<Rightarrow> string" where
  "colour_at d k = (case map_of d k of None \<Rightarrow> off | Some c \<Rightarrow> c)"

definition par_at :: "(key \<times> (string \<times> string) list) list \<Rightarrow> key \<Rightarrow> (string \<times> string) list" where
  "par_at d k = (case map_of d k of None \<Rightarrow> [] | Some p \<Rightarrow> p)"

definition dict_del :: "'k \<Rightarrow> ('k \<times> 'v) list \<Rightarrow> ('k \<times> 'v) list" where
  "dict_del k d = filter (\<lambda>p. fst p \<noteq> k) d"

definition cumul_of :: "(string \<times> string) list \<Rightarrow> string" where
  "cumul_of par = fold (\<lambda>(w, c) acc. cumuler acc c) par off"

definition cumul_des_sources :: "tally \<Rightarrow> key \<Rightarrow> string" where
  "cumul_des_sources t k = cumul_of (par_at (par_source t) k)"

text \<open>
  One turn of the loop of \<open>_poser_cases\<close>.  The first access creates the dictionary of the cell; the two \<open>continue\<close> leave it,
  perhaps empty.
\<close>

fun poser_case :: "string \<Rightarrow> key \<times> string \<Rightarrow> bool \<times> tally \<Rightarrow> bool \<times> tally" where
  "poser_case src (k, c) (change, t) =
     (let par = par_at (par_source t) k;
          t1 = t\<lparr>par_source := dict_put k par (par_source t)\<rparr> in
      if (if c = off then map_of par src = None else map_of par src = Some c) then (change, t1)
      else
        (let par' = (if c = off then dict_del src par else dict_put src c par);
             t2 = t1\<lparr>par_source := dict_put k par' (par_source t1)\<rparr>;
             neuf = cumul_des_sources t2 k;
             t3 = (if par' = [] then t2\<lparr>par_source := dict_del k (par_source t2)\<rparr> else t2) in
         if colour_at (t_state t3) k \<noteq> neuf
         then (True, t3\<lparr>t_state := (if neuf = off then dict_del k (t_state t3) else dict_put k neuf (t_state t3))\<rparr>)
         else (change, t3)))"

definition poser_cases_sous_verrou :: "string \<Rightarrow> (key \<times> string) list \<Rightarrow> tally \<Rightarrow> bool \<times> tally" where
  "poser_cases_sous_verrou src cases t = fold (poser_case src) cases (False, t)"

text \<open>The public \<open>poser_cases\<close>.\<close>

definition poser_cases :: "string \<Rightarrow> (key \<times> string) list \<Rightarrow> tally \<Rightarrow> bool \<times> tally" where
  "poser_cases src cases t = poser_cases_sous_verrou src cases t"

text \<open>The three sections of \<open>poser_tally\<close>: the cells the writer held, their removal, the new ones.\<close>

definition lit_cases :: "(key \<times> string) list \<Rightarrow> (key \<times> string) list" where
  "lit_cases cases = filter (\<lambda>(k, c). c \<noteq> [] \<and> c \<noteq> off) cases"

definition anciennes :: "string \<Rightarrow> tally \<Rightarrow> key list" where
  "anciennes src t = map fst (filter (\<lambda>(k, par). src \<in> fst ` set par) (par_source t))"

definition a_retirer :: "key list \<Rightarrow> (key \<times> string) list \<Rightarrow> (key \<times> string) list" where
  "a_retirer old cases = map (\<lambda>k. (k, off)) (filter (\<lambda>k. k \<notin> fst ` set cases) old)"

definition poser_tally :: "string \<Rightarrow> (key \<times> string) list \<Rightarrow> bool \<Rightarrow> tally \<Rightarrow> bool \<times> tally" where
  "poser_tally src cases reveiller t =
     (let cases = lit_cases cases;
          (change1, t1) = poser_cases_sous_verrou src (a_retirer (anciennes src t) cases) t;
          (change2, t2) = poser_cases_sous_verrou src cases t1;
          change = (change2 \<or> change1) in
      (change, if change \<and> reveiller then t2\<lparr>dirty := True\<rparr> else t2))"

subsection \<open>Signal and readings\<close>

definition signaler_changement :: "tally \<Rightarrow> tally" where
  "signaler_changement t = t\<lparr>dirty := True\<rparr>"

definition acquitter_changement :: "tally \<Rightarrow> tally" where
  "acquitter_changement t = t\<lparr>dirty := False\<rparr>"

definition etat_brut :: "tally \<Rightarrow> (key \<times> string) list" where
  "etat_brut t = t_state t"

definition get_tally_state :: "tally \<Rightarrow> (string \<times> string) list" where
  "get_tally_state t = map (\<lambda>((ref, lvl), c). (ref @ ''_'' @ lvl, c)) (t_state t)"

definition sources_du_tally :: "tally \<Rightarrow> (string \<times> (string \<times> string) list) list" where
  "sources_du_tally t =
     map (\<lambda>((ref, lvl), par). (ref @ ''_'' @ lvl, par)) (filter (\<lambda>(k, par). par \<noteq> []) (par_source t))"

definition poser_deduit :: "(key \<times> string) list \<Rightarrow> string list option \<Rightarrow> tally \<Rightarrow> tally" where
  "poser_deduit d c t = t\<lparr>deduit := d, connus := (case c of None \<Rightarrow> connus t | Some l \<Rightarrow> l)\<rparr>"

text \<open>The sections of the module that write, by any thread, in any order.\<close>

datatype tally_act = Cases string "(key \<times> string) list" | Signal | Ack | Deduce "(key \<times> string) list" "string list option"

fun tally_step :: "tally_act \<Rightarrow> tally \<Rightarrow> tally" where
  "tally_step (Cases src cs) t = snd (poser_cases_sous_verrou src cs t)"
| "tally_step Signal t = signaler_changement t"
| "tally_step Ack t = acquitter_changement t"
| "tally_step (Deduce d c) t = poser_deduit d c t"

subsection \<open>References to ports\<close>

text \<open>
  A port of a project (\<open>project_ports.port_shm\<close>): a source with a flow or following a destination of another project, or a destination
  with the flow it publishes.  \<open>b_port\<close> is \<open>None\<close> without the key, \<open>Some None\<close> for a value that is not a number.
\<close>

record port =
  pt_kind :: string
  b_internal :: string
  b_port :: "int option option"
  b_shm :: string

definition port_shm :: "(int \<Rightarrow> port option) \<Rightarrow> port option \<Rightarrow> string" where
  "port_shm get p =
     (case p of
        None \<Rightarrow> []
      | Some p \<Rightarrow>
          if pt_kind p \<noteq> ''source'' then b_internal p
          else
            (case b_port p of
               Some n \<Rightarrow>
                 (case Option.bind n get of
                    Some up \<Rightarrow> if pt_kind up = ''dest'' then b_internal up else []
                  | None \<Rightarrow> [])
             | None \<Rightarrow> b_shm p))"

definition resolve_ref :: "(int \<Rightarrow> port option) \<Rightarrow> string \<Rightarrow> string option" where
  "resolve_ref ports ref =
     (let ref = py_strip ref in
      if take 5 ref = ''port:''
      then (let shm = port_shm ports (Option.bind (py_int (drop 5 ref)) ports) in if shm = [] then None else Some shm)
      else Some ref)"

text \<open>\<open>resolve_ref(ref) or ref\<close>.\<close>

definition resolved :: "(int \<Rightarrow> port option) \<Rightarrow> string \<Rightarrow> string" where
  "resolved ports ref = (case resolve_ref ports ref of None \<Rightarrow> ref | Some s \<Rightarrow> if s = [] then ref else s)"

definition get_tally_level :: "(int \<Rightarrow> port option) \<Rightarrow> string \<Rightarrow> string \<Rightarrow> tally \<Rightarrow> string" where
  "get_tally_level ports ref lvl t = colour_at (t_state t) (resolved ports ref, lvl)"

text \<open>The colour of a flow for a reader, with that of its parent video if it has one.\<close>

definition flux_tally :: "(int \<Rightarrow> port option) \<Rightarrow> string \<Rightarrow> string \<Rightarrow> string option \<Rightarrow> tally \<Rightarrow> string" where
  "flux_tally ports ref lvl parent t =
     (let shm = resolved ports ref;
          c = cumuler (colour_at (t_state t) (shm, lvl)) (colour_at (deduit t) (shm, lvl)) in
      case parent of
        None \<Rightarrow> c
      | Some p \<Rightarrow>
          if p = [] \<or> p = shm then c
          else
            (let ps = resolved ports p
             in cumuler c (cumuler (colour_at (t_state t) (ps, lvl)) (colour_at (deduit t) (ps, lvl)))))"

subsection \<open>Level carriers\<close>

text \<open>
  A carrier owns levels; the functions that give its numbers and label references are left out.  The registry is a dictionary in
  insertion order.
\<close>

record porteur =
  niveaux :: "string list"
  nom :: string

type_synonym porteurs = "(string \<times> porteur) list"

definition enregistrer_porteur :: "string \<Rightarrow> string list \<Rightarrow> string \<Rightarrow> porteurs \<Rightarrow> porteurs" where
  "enregistrer_porteur cle niv name reg =
     (if cle = [] then reg
      else dict_put cle \<lparr>niveaux = filter (\<lambda>n. n \<noteq> []) niv, nom = (if name = [] then cle else name)\<rparr> reg)"

definition retirer_porteur :: "string \<Rightarrow> porteurs \<Rightarrow> porteurs" where
  "retirer_porteur cle reg = dict_del cle reg"

fun porteur_pour :: "string list \<Rightarrow> porteurs \<Rightarrow> (string \<times> string) option" where
  "porteur_pour [] reg = None"
| "porteur_pour (n # ns) reg =
     (case find (\<lambda>(cle, p). n \<in> set (niveaux p)) reg of
        Some (cle, p) \<Rightarrow> Some (n, cle)
      | None \<Rightarrow> porteur_pour ns reg)"

text \<open>A project with its number, its name and its levels; \<open>None\<close> when reading them fails.\<close>

record projet =
  pr_id :: int
  pr_name :: string
  pr_levels :: "string list option"

definition proj_cle :: "projet \<Rightarrow> string" where
  "proj_cle pr = ''proj:'' @ str_int (pr_id pr)"

definition has_levels :: "projet \<Rightarrow> bool" where
  "has_levels pr = (pr_levels pr \<noteq> None \<and> pr_levels pr \<noteq> Some [])"

definition rafraichir_porteurs_projets :: "projet list \<Rightarrow> porteurs \<Rightarrow> porteurs" where
  "rafraichir_porteurs_projets prs reg =
     (let live = filter has_levels prs;
          reg1 = fold (\<lambda>pr. enregistrer_porteur (proj_cle pr) (the (pr_levels pr))
                   (if pr_name pr = [] then ''Projet #'' @ str_int (pr_id pr) else pr_name pr)) live reg
      in fold retirer_porteur
           (filter (\<lambda>cle. take 5 cle = ''proj:'' \<and> cle \<notin> proj_cle ` set live) (map fst reg1)) reg1)"

subsection \<open>Flows that follow another one\<close>

text \<open>
  The labels as far as they attach a flow to a parent (\<open>parent_shm\<close>), the suffix rule as the list of its tails.
\<close>

definition ends_with :: "string \<Rightarrow> string \<Rightarrow> bool" where
  "ends_with s tail = (length tail \<le> length s \<and> drop (length s - length tail) s = tail)"

fun suffix_base :: "string list \<Rightarrow> (string \<Rightarrow> bool) \<Rightarrow> string \<Rightarrow> string option" where
  "suffix_base [] known shm = None"
| "suffix_base (tail # tails) known shm =
     (let base = take (length shm - length tail) shm in
      if tail \<noteq> [] \<and> ends_with shm tail \<and> length tail < length shm \<and> known base then Some base
      else suffix_base tails known shm)"

definition parent_video_de :: "(string \<times> string) list \<Rightarrow> string list \<Rightarrow> string list \<Rightarrow> string \<Rightarrow> string option" where
  "parent_video_de parents known suffixes shm =
     (if shm = [] then None
      else
        (let p = py_strip (case map_of parents shm of None \<Rightarrow> [] | Some p \<Rightarrow> p) in
         if p \<noteq> [] \<and> p \<noteq> shm then Some p else suffix_base suffixes (\<lambda>b. b \<in> set known) shm))"

text \<open>
  \<open>declared\<close>: for each produced flow, in the order of \<open>par_shm\<close>, what the ports of its container with that name say in
  \<open>tally_follows\<close>, the last one that says something winning; \<open>None\<close> where none does before the wiring, perhaps, raises.
\<close>

definition suiveurs_de :: "(string \<times> string option) list \<Rightarrow> (string \<times> string) list \<Rightarrow> string list \<Rightarrow> (string \<times> string) list" where
  "suiveurs_de declared parents suffixes =
     (let out = [(shm, f). (shm, Some f) \<leftarrow> declared];
          known = remdups (map fst declared @ map fst parents) in
      out @ [(shm, p). shm \<leftarrow> filter (\<lambda>s. s \<notin> fst ` set out) known,
                       p \<leftarrow> (case parent_video_de parents known suffixes shm of None \<Rightarrow> [] | Some p \<Rightarrow> if p \<noteq> [] \<and> p \<noteq> shm then [p] else [])])"

text \<open>
  \<open>heriter_soeurs\<close> reads the state before (\<open>avant\<close>) and adds to the state of the turn.
\<close>

definition inherit_from :: "(string \<times> string) list \<Rightarrow> key \<times> string \<Rightarrow> (key \<times> string) list \<Rightarrow> (key \<times> string) list" where
  "inherit_from suiveurs e st =
     (case e of ((shm, lvl), c) \<Rightarrow>
        if c = off then st
        else fold (\<lambda>(suiveur, suivi) st.
               if suivi = shm then dict_put (suiveur, lvl) (cumuler (colour_at st (suiveur, lvl)) c) st else st) suiveurs st)"

definition heriter_soeurs :: "(key \<times> string) list \<Rightarrow> (string \<times> string) list \<Rightarrow> (key \<times> string) list" where
  "heriter_soeurs state suiveurs = fold (inherit_from suiveurs) state state"

declare poser_case.simps [simp del] tally_step.simps [simp del]

end
