(* ===== verification/Tally_Propagate.thy ===== *)
theory Tally_Propagate
  imports Tally_State Json "HOL-Library.Multiset"
begin

text \<open>
  The propagation of the tally (\<open>app/tally.py\<close>): from the flows on air back through the graph of the elements, along the inputs that
  contribute to each output.  The ports of an element are what \<open>plugins.derive_wiring\<close> answers for it, and its \<open>/state\<close> what
  \<open>etat_ctrl_de\<close> answers for its vmid.  \<open>None\<close> is an exception of Python.
\<close>

subsection \<open>Elements\<close>

text \<open>The slot of a port: a number, a text, or none.\<close>

datatype slot = SNum int | SKey string | SNone

record in_port =
  ip_essence :: string
  ip_field :: string
  ip_slot :: slot

record out_port =
  op_shm :: string
  op_bus :: string
  op_label :: string
  op_counts :: bool

record element =
  el_vmid :: int
  el_type :: string
  el_params :: params
  el_in :: "in_port list"
  el_out :: "out_port list"

datatype rule = Toutes | Image

definition contribution :: "string \<Rightarrow> rule option" where
  "contribution ty = map_of
     [(''delay'', Toutes), (''color_corrector'', Toutes), (''udc'', Toutes), (''avsync'', Toutes), (''transcoder'', Toutes),
      (''v210_bridge'', Toutes), (''mixer'', Image), (''split'', Image)] ty"

definition profondeur_max :: nat where
  "profondeur_max = 12"

subsection \<open>What contributes to an output\<close>

text \<open>\<open>[int(i) for i in l if isinstance(i, int)]\<close>; a boolean is an \<open>int\<close>.\<close>

fun as_int :: "json \<Rightarrow> json option" where
  "as_int (JNum r) = (if of_int \<lfloor>r\<rfloor> = r then Some (JNum r) else None)"
| "as_int (JBool b) = Some (JNum (if b then 1 else 0))"
| "as_int _ = None"

definition only_ints :: "json list \<Rightarrow> json list" where
  "only_ints l = List.map_filter as_int l"

text \<open>The lists of the inputs in the picture, by bus, with the engines that do not publish them.\<close>

definition bus_list :: "json \<Rightarrow> string \<Rightarrow> json list option" where
  "bus_list t bus = (case t of JDict d \<Rightarrow> (case map_of d bus of Some (JList l) \<Rightarrow> Some (only_ints l) | _ \<Rightarrow> None) | _ \<Rightarrow> None)"

definition out_list :: "json \<Rightarrow> string \<Rightarrow> json list option" where
  "out_list t bus = (case t of JDict d \<Rightarrow> bus_list (pget d ''outputs'') (drop 4 bus) | _ \<Rightarrow> None)"

definition background :: "params \<Rightarrow> string \<Rightarrow> json list" where
  "background st bus = (case pget st bus of JNull \<Rightarrow> [] | i \<Rightarrow> [i])"

definition pgm_list :: "params \<Rightarrow> json list" where
  "pgm_list st = (case bus_list (pget st ''tally'') ''pgm'' of Some l \<Rightarrow> l | None \<Rightarrow> background st ''pgm'')"

definition entrees_a_l_image :: "params \<Rightarrow> string \<Rightarrow> json list" where
  "entrees_a_l_image st bus =
     (let t = pget st ''tally'' in
      if take 4 bus = ''out:''
      then (case out_list t bus of Some l \<Rightarrow> l | None \<Rightarrow> pgm_list st)
      else
        (case bus_list t bus of
           Some l \<Rightarrow> l
         | None \<Rightarrow> if bus = ''clean'' then pgm_list st else background st bus))"

definition bus_de_sortie :: "out_port list \<Rightarrow> string \<Rightarrow> string" where
  "bus_de_sortie outs shm =
     (if shm = [] then ''pgm''
      else
        (case find (\<lambda>p. op_shm p = shm) outs of
           None \<Rightarrow> ''pgm''
         | Some p \<Rightarrow>
             if op_bus p \<noteq> [] then op_bus p
             else (let l = py_lower (py_strip (op_label p)) in if l = [] then ''pgm'' else l)))"

text \<open>\<open>(v or "").strip()\<close> and \<open>(v or w or "").strip()\<close>.\<close>

definition strip_json :: "json \<Rightarrow> string option" where
  "strip_json v = (if \<not> truthy v then Some [] else map_option py_strip (json_str v))"

definition cle_input :: "json \<Rightarrow> string option" where
  "cle_input v = map_option (\<lambda>n. ''input_'' @ str_int (n + 1)) (json_int v)"

text \<open>
  \<open>champ.get(i)\<close>, where \<open>champ\<close> maps the slots of the inputs that name a field to that field, the last one winning; a list or a
  dictionary cannot be looked up.
\<close>

definition champ :: "in_port list \<Rightarrow> slot \<Rightarrow> string option" where
  "champ ins = map_of (rev (map (\<lambda>c. (ip_slot c, ip_field c)) (filter (\<lambda>c. ip_field c \<noteq> []) ins)))"

fun champ_get :: "in_port list \<Rightarrow> json \<Rightarrow> string option option" where
  "champ_get ins JNull = Some (champ ins SNone)"
| "champ_get ins (JBool b) = Some (champ ins (SNum (if b then 1 else 0)))"
| "champ_get ins (JNum r) = Some (if of_int \<lfloor>r\<rfloor> = r then champ ins (SNum \<lfloor>r\<rfloor>) else None)"
| "champ_get ins (JStr s) = Some (champ ins (SKey s))"
| "champ_get ins _ = None"

definition input_key :: "in_port list \<Rightarrow> json \<Rightarrow> string option" where
  "input_key ins i = Option.bind (champ_get ins i) (\<lambda>f. case f of Some k \<Rightarrow> Some k | None \<Rightarrow> cle_input i)"

text \<open>The flow at an input, from the live state, else from the parameters.\<close>

definition upstream :: "element \<Rightarrow> params \<Rightarrow> json \<Rightarrow> string option" where
  "upstream el st i =
     Option.bind (input_key (el_in el) i) (\<lambda>cle. strip_json (py_or (pget st cle) (pget (el_params el) cle)))"

definition declared_inputs :: "element \<Rightarrow> string list option" where
  "declared_inputs el =
     map_option (filter (\<lambda>e. e \<noteq> []))
       (those (map (\<lambda>p. strip_json (pget (el_params el) (ip_field p)))
                 (filter (\<lambda>p. (if ip_essence p = [] then ''video'' else ip_essence p) = ''video'') (el_in el))))"

definition add_new :: "string \<Rightarrow> string list \<Rightarrow> string list" where
  "add_new x out = (if x = [] \<or> x \<in> set out then out else out @ [x])"

definition entrees_contributives :: "element \<Rightarrow> params option \<Rightarrow> string \<Rightarrow> string list option" where
  "entrees_contributives el etat_ctrl shm =
     (case contribution (el_type el) of
        None \<Rightarrow> Some []
      | Some regle \<Rightarrow>
          Option.bind (declared_inputs el) (\<lambda>entrees.
            (case regle of
               Toutes \<Rightarrow> Some entrees
             | Image \<Rightarrow>
                 (case etat_ctrl of
                    None \<Rightarrow> Some []
                  | Some st \<Rightarrow>
                      if st = [] then Some []
                      else map_option (\<lambda>l. fold add_new l [])
                             (those (map (upstream el st) (entrees_a_l_image st (bus_de_sortie (el_out el) shm))))))))"

subsection \<open>The walk\<close>

text \<open>The inputs that contribute to a flow: those of its producer, none for a flow nobody produces.\<close>

type_synonym plant = "(string \<times> element) list"

definition amonts :: "plant \<Rightarrow> (int \<Rightarrow> params option) \<Rightarrow> string \<Rightarrow> string list option" where
  "amonts par_shm etat_ctrl_de shm =
     (case map_of par_shm shm of
        None \<Rightarrow> Some []
      | Some el \<Rightarrow> entrees_contributives el (etat_ctrl_de (el_vmid el)) shm)"

text \<open>
  An entry of the stack: a flow, its level and colour, and its depth.  \<open>file.pop()\<close> takes the last entry: the list here is the
  stack from its top.
\<close>

type_synonym visit = "string \<times> string \<times> string \<times> nat"

definition add_upstream :: "(key \<times> string) list \<Rightarrow> string \<Rightarrow> string \<Rightarrow> string \<Rightarrow> (key \<times> string) list \<Rightarrow> (key \<times> string) list" where
  "add_upstream etat niveau couleur amont ajouts =
     (if colour_at etat (amont, niveau) = off \<and> colour_at ajouts (amont, niveau) = off
      then dict_put (amont, niveau) couleur ajouts else ajouts)"

text \<open>An entry makes way for entries one deeper, and no entry is expanded below the cap.\<close>

definition room :: "visit \<Rightarrow> nat" where
  "room v = (case v of (shm, niveau, couleur, prof) \<Rightarrow> profondeur_max - prof)"

function propager_loop ::
  "(string \<Rightarrow> string list option) \<Rightarrow> (key \<times> string) list \<Rightarrow> visit list \<Rightarrow> key set \<Rightarrow> (key \<times> string) list
    \<Rightarrow> (key \<times> string) list option" where
  "propager_loop am etat [] vus ajouts = Some ajouts"
| "propager_loop am etat ((shm, niveau, couleur, prof) # pile) vus ajouts =
     (if profondeur_max \<le> prof \<or> (shm, niveau) \<in> vus then propager_loop am etat pile vus ajouts
      else
        (case am shm of
           None \<Rightarrow> None
         | Some ins \<Rightarrow>
             propager_loop am etat (rev (map (\<lambda>a. (a, niveau, couleur, Suc prof)) ins) @ pile) (insert (shm, niveau) vus)
               (fold (add_upstream etat niveau couleur) ins ajouts)))"
  by pat_completeness auto

termination
proof (relation "inv_image (mult less_than) (\<lambda>(am, etat, pile, vus, ajouts). image_mset room (mset pile))")
  show "wf (inv_image (mult less_than)
     (\<lambda>(am :: string \<Rightarrow> string list option, etat :: (key \<times> string) list, pile, vus :: key set, ajouts :: (key \<times> string) list).
        image_mset room (mset pile)))"
    by (intro wf_inv_image wf_mult wf_less_than)
next
  fix am etat shm niveau couleur prof pile vus ajouts
  show "((am, etat, pile, vus, ajouts), am, etat, (shm, niveau, couleur, prof) # pile, vus, ajouts)
      \<in> inv_image (mult less_than) (\<lambda>(am, etat, pile, vus, ajouts). image_mset room (mset pile))"
    by (simp add: subset_implies_mult)
next
  fix am :: "string \<Rightarrow> string list option" and etat :: "(key \<times> string) list"
    and shm niveau couleur :: string and prof :: nat and pile :: "visit list" and vus :: "key set" and ajouts :: "(key \<times> string) list"
    and ins :: "string list"
  assume "\<not> (profondeur_max \<le> prof \<or> (shm, niveau) \<in> vus)"
  then have p: "prof < profondeur_max" by simp
  have "(image_mset room (mset pile) + image_mset room (mset (map (\<lambda>a. (a, niveau, couleur, Suc prof)) ins)),
      image_mset room (mset pile) + {#room (shm, niveau, couleur, prof)#}) \<in> mult less_than"
    by (rule one_step_implies_mult) (use p in \<open>auto simp: room_def\<close>)
  then show "((am, etat, rev (map (\<lambda>a. (a, niveau, couleur, Suc prof)) ins) @ pile, insert (shm, niveau) vus,
        fold (add_upstream etat niveau couleur) ins ajouts), am, etat, (shm, niveau, couleur, prof) # pile, vus, ajouts)
      \<in> inv_image (mult less_than) (\<lambda>(am, etat, pile, vus, ajouts). image_mset room (mset pile))"
    by (simp add: add.commute)
qed

definition departs :: "plant \<Rightarrow> (key \<times> string) list \<Rightarrow> visit list" where
  "departs par_shm etat =
     rev [(ref, niveau, couleur, 0). ((ref, niveau), couleur) \<leftarrow> etat, couleur \<noteq> off \<and> map_of par_shm ref \<noteq> None]"

definition propager :: "(key \<times> string) list \<Rightarrow> plant \<Rightarrow> (int \<Rightarrow> params option) \<Rightarrow> (key \<times> string) list option" where
  "propager etat par_shm etat_ctrl_de = propager_loop (amonts par_shm etat_ctrl_de) etat (departs par_shm etat) {} []"

end
