(* ===== verification/Tally_Facts.thy ===== *)
theory Tally_Facts
  imports Tally_State
begin

text \<open>
  The sum of colours as a function of the set of lit contributions, the effect of a write on the contributions, and the invariant
  that ties the displayed layer to the contributed one.
\<close>

subsection \<open>The sum of colours\<close>

text \<open>The reference: nothing lit is off, one colour is that colour, two or more are amber.\<close>

definition sum_colour :: "string set \<Rightarrow> string" where
  "sum_colour L = (if L = {} then off else if card L = 1 then the_elem L else amber)"

definition lit_set :: "string set \<Rightarrow> string set" where
  "lit_set C = C - {[], off}"

lemma off_amber [simp]: "off \<noteq> []" "amber \<noteq> []" "off \<noteq> amber" "amber \<noteq> off"
  by (simp_all add: off_def amber_def)

lemma cumuler_off [simp]: "cumuler c off = or_off c" "cumuler off c = or_off c"
  by (simp_all add: cumuler_def or_off_def)

lemma or_off_idem [simp]: "or_off (or_off c) = or_off c" "or_off c \<noteq> []" "or_off off = off"
  by (simp_all add: or_off_def)

lemma cumuler_commute: "cumuler a b = cumuler b a"
  by (simp add: cumuler_def Let_def)

lemma cumuler_assoc: "cumuler (cumuler a b) c = cumuler a (cumuler b c)"
  by (auto simp: cumuler_def or_off_def Let_def)

lemma cumuler_idem [simp]: "cumuler a a = or_off a"
  by (simp add: cumuler_def Let_def)

lemma cumuler_ne [simp]: "cumuler a b \<noteq> []"
  by (auto simp: cumuler_def or_off_def Let_def)

lemma sum_colour_single [simp]: "sum_colour {c} = c" "sum_colour {} = off"
  by (simp_all add: sum_colour_def)

lemma cumuler_sum:
  assumes L: "finite L" "L \<inter> {[], off} = {}"
  shows "cumuler (sum_colour L) c = sum_colour (L \<union> lit_set {c})"
proof (cases "c = [] \<or> c = off")
  case True
  then have "lit_set {c} = {}" "cumuler (sum_colour L) c = or_off (sum_colour L)"
    by (auto simp: lit_set_def cumuler_def or_off_def Let_def)
  moreover have "sum_colour L \<noteq> []" using L by (auto simp: sum_colour_def card_1_singleton_iff)
  ultimately show ?thesis by (simp add: or_off_def)
next
  case c: False
  then have lit: "lit_set {c} = {c}" by (auto simp: lit_set_def)
  consider "L = {}" | d where "L = {d}" | "1 < card L"
    using L(1) by (metis card_0_eq card_1_singletonE less_one linorder_neqE_nat)
  then show ?thesis
  proof cases
    case 1
    then show ?thesis using c lit by (simp add: cumuler_def or_off_def)
  next
    case 2
    then have d: "d \<noteq> []" "d \<noteq> off" using L(2) by auto
    have "sum_colour {d, c} = (if d = c then c else amber)" by (auto simp: sum_colour_def)
    then show ?thesis using c d lit 2 by (simp add: cumuler_def or_off_def Let_def insert_commute)
  next
    case 3
    have "card L \<le> card (L \<union> {c})" using L(1) by (intro card_mono) auto
    then have "1 < card (L \<union> {c})" using 3 by simp
    moreover from this have "L \<union> {c} \<noteq> {}" "card (L \<union> {c}) \<noteq> 1" by auto
    moreover have "L \<noteq> {}" using 3 by auto
    ultimately have s: "sum_colour L = amber" "sum_colour (L \<union> {c}) = amber"
      using 3 unfolding sum_colour_def by simp_all
    show ?thesis using c unfolding lit s by (simp add: cumuler_def or_off_def Let_def)
  qed
qed

lemma cumul_of_acc:
  "finite L \<Longrightarrow> L \<inter> {[], off} = {} \<Longrightarrow>
   fold (\<lambda>(w, c) acc. cumuler acc c) par (sum_colour L) = sum_colour (L \<union> lit_set (snd ` set par))"
proof (induction par arbitrary: L)
  case (Cons p par)
  have "lit_set (insert (snd p) (snd ` set par)) = lit_set {snd p} \<union> lit_set (snd ` set par)" by (auto simp: lit_set_def)
  moreover have "finite (L \<union> lit_set {snd p})" "(L \<union> lit_set {snd p}) \<inter> {[], off} = {}"
    using Cons.prems by (auto simp: lit_set_def)
  ultimately show ?case
    using Cons.IH [of "L \<union> lit_set {snd p}"] Cons.prems by (simp add: case_prod_unfold cumuler_sum Un_assoc)
qed (simp add: lit_set_def)

lemma cumul_of_eq: "cumul_of par = sum_colour (lit_set (snd ` set par))"
  using cumul_of_acc [of "{}" par] by (simp add: cumul_of_def)

lemma sum_colour_mem: "sum_colour L \<in> insert off (insert amber L)"
proof (cases "card L = 1")
  case True
  then obtain c where "L = {c}" by (auto simp: card_1_singleton_iff)
  then show ?thesis by simp
qed (simp add: sum_colour_def)

lemma cumul_of_ne [simp]: "cumul_of par \<noteq> []"
  using sum_colour_mem [of "lit_set (snd ` set par)"] by (auto simp: cumul_of_eq lit_set_def)

lemma cumul_of_off_iff: "cumul_of par = off \<longleftrightarrow> lit_set (snd ` set par) = {}"
proof
  assume o: "cumul_of par = off"
  show "lit_set (snd ` set par) = {}"
  proof (rule ccontr)
    assume ne: "lit_set (snd ` set par) \<noteq> {}"
    then have "card (lit_set (snd ` set par)) = 1" using o by (simp add: cumul_of_eq sum_colour_def split: if_splits)
    then obtain c where "lit_set (snd ` set par) = {c}" by (auto simp: card_1_singleton_iff)
    then have "c = off" "c \<in> lit_set (snd ` set par)" using o by (auto simp: cumul_of_eq)
    then show False by (simp add: lit_set_def)
  qed
qed (simp add: cumul_of_eq)

subsection \<open>Dictionaries\<close>

lemma map_of_dict_del [simp]: "map_of (dict_del k d) = (map_of d)(k := None)"
  by (induction d) (auto simp: dict_del_def fun_eq_iff)

lemma distinct_dict_del: "distinct (map fst d) \<Longrightarrow> distinct (map fst (dict_del k d))"
  by (induction d) (auto simp: dict_del_def)

lemma colour_at_put [simp]: "colour_at (dict_put k c d) k' = (if k' = k then c else colour_at d k')"
  by (simp add: colour_at_def)

lemma colour_at_del [simp]: "colour_at (dict_del k d) k' = (if k' = k then off else colour_at d k')"
  by (simp add: colour_at_def)

lemma par_at_put [simp]: "par_at (dict_put k p d) k' = (if k' = k then p else par_at d k')"
  by (simp add: par_at_def)

lemma par_at_del [simp]: "par_at (dict_del k d) k' = (if k' = k then [] else par_at d k')"
  by (simp add: par_at_def)

subsection \<open>One write\<close>

text \<open>What a writer states of a cell.\<close>

definition said :: "tally \<Rightarrow> key \<Rightarrow> string \<Rightarrow> string option" where
  "said t k w = map_of (par_at (par_source t) k) w"

definition tally_ok :: "tally \<Rightarrow> bool" where
  "tally_ok t \<longleftrightarrow> (\<forall>k. map_of (t_state t) k =
     (let c = cumul_of (par_at (par_source t) k) in if c = off then None else Some c))"

lemma tally_okD:
  "tally_ok t \<Longrightarrow> map_of (t_state t) k =
     (let c = cumul_of (par_at (par_source t) k) in if c = off then None else Some c)"
  unfolding tally_ok_def by (erule spec)

lemma tally_okD2: "tally_ok t \<Longrightarrow> colour_at (t_state t) k = cumul_of (par_at (par_source t) k)"
  by (simp add: colour_at_def tally_okD Let_def)

lemma poser_case_cases [case_names same wrote]:
  obtains (same) "said t k src = (if c = off then None else Some c)"
      "poser_case src (k, c) (ch, t) = (ch, t\<lparr>par_source := dict_put k (par_at (par_source t) k) (par_source t)\<rparr>)"
  | (wrote) par ch' t' where "poser_case src (k, c) (ch, t) = (ch', t')"
      "map_of par = (map_of (par_at (par_source t) k))(src := if c = off then None else Some c)"
      "\<And>k'. par_at (par_source t') k' = (if k' = k then par else par_at (par_source t) k')"
      "map_of (t_state t') =
        (if colour_at (t_state t) k = cumul_of par then map_of (t_state t)
         else (map_of (t_state t))(k := if cumul_of par = off then None else Some (cumul_of par)))"
      "ch' \<longleftrightarrow> ch \<or> colour_at (t_state t) k \<noteq> cumul_of par"
proof (cases "said t k src = (if c = off then None else Some c)")
  case True
  then show thesis by (intro same) (auto simp: poser_case.simps said_def Let_def split: if_splits)
next
  case False
  define par where "par = (if c = off then dict_del src (par_at (par_source t) k) else dict_put src c (par_at (par_source t) k))"
  obtain ch' t' where p: "poser_case src (k, c) (ch, t) = (ch', t')" by fastforce
  have n: "\<not> (if c = off then map_of (par_at (par_source t) k) src = None else map_of (par_at (par_source t) k) src = Some c)"
    using False by (auto simp: said_def split: if_splits)
  note p' = p [unfolded poser_case.simps Let_def if_not_P [OF n] cumul_des_sources_def, folded par_def]
  show thesis
  proof (rule wrote [OF p])
    show "map_of par = (map_of (par_at (par_source t) k))(src := if c = off then None else Some c)"
      by (simp add: par_def)
    show "par_at (par_source t') k' = (if k' = k then par else par_at (par_source t) k')" for k'
      using p' by (auto split: if_splits)
    show "map_of (t_state t') =
        (if colour_at (t_state t) k = cumul_of par then map_of (t_state t)
         else (map_of (t_state t))(k := if cumul_of par = off then None else Some (cumul_of par)))"
      using p' by (auto split: if_splits)
    show "ch' \<longleftrightarrow> ch \<or> colour_at (t_state t) k \<noteq> cumul_of par"
      using p' by (auto split: if_splits)
  qed
qed

lemma poser_case_said:
  "said (snd (poser_case src (k, c) (ch, t))) k' w =
     (if k' = k \<and> w = src then if c = off then None else Some c else said t k' w)"
proof (rule poser_case_cases [of t k src c ch])
  assume "said t k src = (if c = off then None else Some c)"
    and "poser_case src (k, c) (ch, t) = (ch, t\<lparr>par_source := dict_put k (par_at (par_source t) k) (par_source t)\<rparr>)"
  then show ?thesis by (simp add: said_def)
next
  fix par ch' t'
  assume "poser_case src (k, c) (ch, t) = (ch', t')"
    and "map_of par = (map_of (par_at (par_source t) k))(src := if c = off then None else Some c)"
    and "\<And>k'. par_at (par_source t') k' = (if k' = k then par else par_at (par_source t) k')"
  then show ?thesis by (simp add: said_def)
qed

lemma poser_case_state:
  assumes ok: "tally_ok t" and p: "poser_case src (k, c) (ch, t) = (ch', t')"
  shows "tally_ok t' \<and> (ch' \<longleftrightarrow> ch \<or> map_of (t_state t') k \<noteq> map_of (t_state t) k) \<and>
    (\<forall>k'. k' \<noteq> k \<longrightarrow> map_of (t_state t') k' = map_of (t_state t) k')"
proof (rule poser_case_cases [of t k src c ch])
  assume "poser_case src (k, c) (ch, t) = (ch, t\<lparr>par_source := dict_put k (par_at (par_source t) k) (par_source t)\<rparr>)"
  then have t': "t' = t\<lparr>par_source := dict_put k (par_at (par_source t) k) (par_source t)\<rparr>" "ch' = ch" using p by simp_all
  have "tally_ok t'" unfolding tally_ok_def by (rule allI) (simp add: t' tally_okD [OF ok])
  then show ?thesis by (simp add: t')
next
  fix par ch1 t1
  assume w: "poser_case src (k, c) (ch, t) = (ch1, t1)"
    and par: "\<And>k'. par_at (par_source t1) k' = (if k' = k then par else par_at (par_source t) k')"
    and st: "map_of (t_state t1) =
        (if colour_at (t_state t) k = cumul_of par then map_of (t_state t)
         else (map_of (t_state t))(k := if cumul_of par = off then None else Some (cumul_of par)))"
    and ch: "ch1 \<longleftrightarrow> ch \<or> colour_at (t_state t) k \<noteq> cumul_of par"
  have e: "ch' = ch1" "t' = t1" using w p by simp_all
  have k: "map_of (t_state t) k = (if colour_at (t_state t) k = off then None else Some (colour_at (t_state t) k))"
    using tally_okD [OF ok, of k] tally_okD2 [OF ok, of k] by (simp add: Let_def)
  have "tally_ok t1" unfolding tally_ok_def
  proof
    fix k'
    show "map_of (t_state t1) k' = (let c = cumul_of (par_at (par_source t1) k') in if c = off then None else Some c)"
    proof (cases "k' = k")
      case True
      then show ?thesis using k by (simp add: par st Let_def split: if_splits)
    next
      case False
      then show ?thesis using tally_okD [OF ok, of k'] by (simp add: par st)
    qed
  qed
  moreover have "map_of (t_state t1) k = (if cumul_of par = off then None else Some (cumul_of par))" using st k by auto
  ultimately show ?thesis using ch st k unfolding e by (auto split: if_splits)
qed

lemma poser_case_dirty [simp]:
  "dirty (snd (poser_case src kc cht)) = dirty (snd cht)"
  by (cases kc; cases cht) (simp add: poser_case.simps Let_def)

subsection \<open>A section of writes\<close>

lemma cases_said:
  "said (snd (fold (poser_case src) cs (ch, t))) k w =
     (if w = src then (case map_of (rev cs) k of None \<Rightarrow> said t k w | Some c \<Rightarrow> if c = off then None else Some c)
      else said t k w)"
proof (induction cs arbitrary: ch t)
  case (Cons kc cs)
  obtain k0 c0 where kc: "kc = (k0, c0)" by fastforce
  obtain ch1 t1 where p: "poser_case src (k0, c0) (ch, t) = (ch1, t1)" by fastforce
  then show ?case
    using Cons.IH [of ch1 t1] poser_case_said [of src k0 c0 ch t k w] kc
    by (auto simp: map_add_def split: option.splits)
qed simp

lemma cases_ok:
  "tally_ok t \<Longrightarrow> tally_ok (snd (fold (poser_case src) cs (ch, t)))"
proof (induction cs arbitrary: ch t)
  case (Cons kc cs)
  obtain k0 c0 where kc: "kc = (k0, c0)" by fastforce
  obtain ch1 t1 where p: "poser_case src (k0, c0) (ch, t) = (ch1, t1)" by fastforce
  then show ?case using Cons.IH [of t1 ch1] poser_case_state [OF Cons.prems p] kc by simp
qed simp

lemma cases_elsewhere:
  "tally_ok t \<Longrightarrow> k \<notin> fst ` set cs \<Longrightarrow> map_of (t_state (snd (fold (poser_case src) cs (ch, t)))) k = map_of (t_state t) k"
proof (induction cs arbitrary: ch t)
  case (Cons kc cs)
  obtain k0 c0 where kc: "kc = (k0, c0)" by fastforce
  obtain ch1 t1 where p: "poser_case src (k0, c0) (ch, t) = (ch1, t1)" by fastforce
  note one = poser_case_state [OF Cons.prems(1) p]
  have "k \<noteq> k0" "k \<notin> fst ` set cs" using Cons.prems(2) kc by simp_all
  then have "map_of (t_state t1) k = map_of (t_state t) k" using one by blast
  then show ?case using Cons.IH [of t1 ch1] one \<open>k \<notin> fst ` set cs\<close> p kc by simp
qed simp

lemma cases_change:
  "tally_ok t \<Longrightarrow> distinct (map fst cs) \<Longrightarrow>
   fst (fold (poser_case src) cs (ch, t)) \<longleftrightarrow>
     ch \<or> (\<exists>k \<in> fst ` set cs. map_of (t_state (snd (fold (poser_case src) cs (ch, t)))) k \<noteq> map_of (t_state t) k)"
proof (induction cs arbitrary: ch t)
  case (Cons kc cs)
  obtain k0 c0 where kc: "kc = (k0, c0)" by fastforce
  obtain ch1 t1 where p: "poser_case src (k0, c0) (ch, t) = (ch1, t1)" by fastforce
  let ?t' = "snd (fold (poser_case src) cs (ch1, t1))"
  note one = poser_case_state [OF Cons.prems(1) p]
  have k0: "k0 \<notin> fst ` set cs" using Cons.prems(2) kc by simp
  have "map_of (t_state ?t') k0 = map_of (t_state t1) k0" using cases_elsewhere [of t1 k0 cs src ch1] one k0 by simp
  moreover have "map_of (t_state t1) k = map_of (t_state t) k" if "k \<in> fst ` set cs" for k using one k0 that by metis
  moreover have "fst (fold (poser_case src) cs (ch1, t1)) \<longleftrightarrow>
      ch1 \<or> (\<exists>k \<in> fst ` set cs. map_of (t_state ?t') k \<noteq> map_of (t_state t1) k)"
    using Cons.IH [of t1 ch1] one Cons.prems(2) by simp
  ultimately show ?case using one p kc by simp
qed simp

lemma cases_dirty [simp]: "dirty (snd (fold (poser_case src) cs cht)) = dirty (snd cht)"
  by (induction cs arbitrary: cht) simp_all

lemma tally_step_ok: "tally_ok t \<Longrightarrow> tally_ok (tally_step a t)"
proof (cases a)
  case (Cases src cs)
  assume "tally_ok t"
  then show ?thesis using Cases cases_ok by (simp add: tally_step.simps poser_cases_sous_verrou_def)
qed (simp_all add: tally_step.simps tally_ok_def signaler_changement_def acquitter_changement_def poser_deduit_def)

lemma tally_steps_ok: "tally_ok t \<Longrightarrow> tally_ok (fold tally_step as t)"
  by (induction as arbitrary: t) (simp_all add: tally_step_ok)

lemma tally0_ok: "tally_ok tally0"
  by (simp add: tally_ok_def tally0_def par_at_def cumul_of_def)

fun writes :: "string \<Rightarrow> tally_act \<Rightarrow> bool" where
  "writes src (Cases w cs) = (w = src)"
| "writes src _ = False"

lemma step_said:
  "said (tally_step a t) k w =
     (case a of Cases src cs \<Rightarrow> if w = src then (case map_of (rev cs) k of None \<Rightarrow> said t k w | Some c \<Rightarrow> if c = off then None else Some c)
                               else said t k w
              | _ \<Rightarrow> said t k w)"
proof (cases a)
  case (Cases src cs)
  then show ?thesis using cases_said [of src cs False t k w] by (simp add: tally_step.simps poser_cases_sous_verrou_def)
qed (simp_all add: tally_step.simps signaler_changement_def acquitter_changement_def poser_deduit_def said_def)

lemma steps_said_cong:
  "(\<forall>k. said t k w = said t' k w) \<Longrightarrow> \<forall>k. said (fold tally_step as t) k w = said (fold tally_step as t') k w"
proof (induction as arbitrary: t t')
  case (Cons a as)
  have "said (tally_step a t) k w = said (tally_step a t') k w" for k
    unfolding step_said spec [OF Cons.prems, of k] ..
  then have "\<forall>k. said (tally_step a t) k w = said (tally_step a t') k w" by (rule allI)
  from Cons.IH [OF this] show ?case by simp
qed simp

lemma others_said: "\<forall>a \<in> set as. \<not> writes src a \<Longrightarrow> said (fold tally_step as t) k src = said t k src"
proof (induction as arbitrary: t)
  case (Cons a as)
  then have "said (tally_step a t) k src = said t k src" unfolding step_said by (cases a) auto
  then show ?case using Cons by simp
qed simp

lemma anciennes_said: "said t k src \<noteq> None \<Longrightarrow> k \<in> set (anciennes src t)"
proof -
  assume "said t k src \<noteq> None"
  then obtain par where par: "map_of (par_source t) k = Some par" "map_of par src \<noteq> None"
    by (auto simp: said_def par_at_def split: option.splits)
  then have "(k, par) \<in> set (par_source t)" "src \<in> fst ` set par"
    using map_of_SomeD by (fastforce, auto simp: map_of_eq_None_iff)
  then show "k \<in> set (anciennes src t)" unfolding anciennes_def by force
qed

end
