(* ===== verification/Tally_Walk.thy ===== *)
theory Tally_Walk
  imports Tally_Propagate Tally_Facts
begin

text \<open>
  What the walk of the propagation colours: only inputs that contribute, in at most twelve steps, to a flow on air, and, when no path from a
  flow on air is longer, all of them.
\<close>

subsection \<open>The graph of contributions\<close>

definition contributes :: "(string \<Rightarrow> string list option) \<Rightarrow> (string \<times> string) set" where
  "contributes am = {(x, y). \<exists>ins. am x = Some ins \<and> y \<in> set ins}"

text \<open>A flow on air: one of the plant, with a colour on the level.\<close>

definition lit :: "plant \<Rightarrow> (key \<times> string) list \<Rightarrow> string \<Rightarrow> string \<Rightarrow> string \<Rightarrow> bool" where
  "lit par_shm etat r n c \<longleftrightarrow> ((r, n), c) \<in> set etat \<and> c \<noteq> off \<and> map_of par_shm r \<noteq> None"

lemma departs_lit: "(s, n, c, p) \<in> set (departs par_shm etat) \<longleftrightarrow> p = 0 \<and> lit par_shm etat s n c"
  by (auto simp: departs_def lit_def)

lemma contributes_iff: "am x = Some ins \<Longrightarrow> (x, y) \<in> contributes am \<longleftrightarrow> y \<in> set ins"
  by (simp add: contributes_def)

lemma add_all:
  "c \<noteq> off \<Longrightarrow> map_of (fold (add_upstream etat n c) ins aj) k =
     (if snd k = n \<and> fst k \<in> set ins \<and> colour_at etat k = off \<and> colour_at aj k = off then Some c else map_of aj k)"
proof (induction ins arbitrary: aj)
  case (Cons x ins)
  then show ?case by (cases k) (auto simp: add_upstream_def)
qed simp

subsection \<open>Soundness\<close>

text \<open>An entry of the stack, and a colour that was added, with the path they come from.\<close>

definition traced :: "(string \<Rightarrow> string list option) \<Rightarrow> (string \<Rightarrow> string \<Rightarrow> string \<Rightarrow> bool) \<Rightarrow> visit \<Rightarrow> bool" where
  "traced am lamp v = (case v of (s, n, c, p) \<Rightarrow> p \<le> profondeur_max \<and> (\<exists>r. lamp r n c \<and> (r, s) \<in> contributes am ^^ p))"

definition grounded ::
  "(string \<Rightarrow> string list option) \<Rightarrow> (string \<Rightarrow> string \<Rightarrow> string \<Rightarrow> bool) \<Rightarrow> (key \<times> string) list \<Rightarrow> (key \<times> string) list \<Rightarrow> bool" where
  "grounded am lamp etat aj \<longleftrightarrow> (\<forall>s n c. map_of aj (s, n) = Some c \<longrightarrow>
     colour_at etat (s, n) = off \<and> (\<exists>r p. lamp r n c \<and> 0 < p \<and> p \<le> profondeur_max \<and> (r, s) \<in> contributes am ^^ p))"

lemma traced_step:
  assumes "traced am lamp (s, n, c, p)" and "p < profondeur_max" and "am s = Some ins" and "y \<in> set ins"
  shows "traced am lamp (y, n, c, Suc p)"
  using assms contributes_iff [of am s ins y] by (auto simp: traced_def)

lemma propager_loop_sound:
  assumes "propager_loop am etat st vus aj = Some aj'" and "\<forall>v \<in> set st. traced am lamp v" and "grounded am lamp etat aj"
    and off: "\<And>r n c. lamp r n c \<Longrightarrow> c \<noteq> off"
  shows "grounded am lamp etat aj'"
  using assms(1-3)
proof (induction am etat st vus aj rule: propager_loop.induct)
  case (2 am etat shm n c p st vus aj)
  show ?case
  proof (cases "profondeur_max \<le> p \<or> (shm, n) \<in> vus")
    case True
    then show ?thesis using 2 by (auto split: if_splits)
  next
    case False
    obtain ins where ins: "am shm = Some ins"
      using 2(3) False by (auto split: option.splits)
    have tr: "traced am lamp (shm, n, c, p)" using 2(4) by simp
    then obtain r where r: "lamp r n c" "(r, shm) \<in> contributes am ^^ p" by (auto simp: traced_def)
    let ?aj = "fold (add_upstream etat n c) ins aj"
    have "\<forall>v \<in> set (rev (map (\<lambda>a. (a, n, c, Suc p)) ins) @ st). traced am lamp v"
      using 2(4) traced_step [OF tr _ ins] False by auto
    moreover have "grounded am lamp etat ?aj"
      unfolding grounded_def
    proof (intro allI impI)
      fix s m d assume a: "map_of ?aj (s, m) = Some d"
      show "colour_at etat (s, m) = off \<and> (\<exists>r q. lamp r m d \<and> 0 < q \<and> q \<le> profondeur_max \<and> (r, s) \<in> contributes am ^^ q)"
      proof (cases "map_of aj (s, m) = Some d")
        case True
        then show ?thesis using 2(5) unfolding grounded_def by blast
      next
        case new: False
        then have "m = n" "s \<in> set ins" "colour_at etat (s, m) = off" "d = c"
          using a off [OF r(1)] by (auto simp: add_all split: if_splits)
        moreover have "(r, s) \<in> contributes am ^^ Suc p" using r(2) contributes_iff [where am = am and x = shm, OF ins] \<open>s \<in> set ins\<close> by auto
        ultimately show ?thesis using r(1) False by (intro conjI exI [of _ r] exI [of _ "Suc p"]) simp_all
      qed
    qed
    moreover have "propager_loop am etat (rev (map (\<lambda>a. (a, n, c, Suc p)) ins) @ st) (insert (shm, n) vus) ?aj = Some aj'"
      using 2(3) False ins by simp
    ultimately show ?thesis using 2(2) [OF False ins] by blast
  qed
qed simp

subsection \<open>Completeness\<close>

text \<open>
  A flow is settled on a level when it was visited or nothing contributes to it; it is pending when it is on the stack.
\<close>

definition settled :: "(string \<Rightarrow> string list option) \<Rightarrow> key set \<Rightarrow> key \<Rightarrow> bool" where
  "settled am vus k \<longleftrightarrow> k \<in> vus \<or> contributes am `` {fst k} = {}"

definition pending :: "(string \<Rightarrow> string list option) \<Rightarrow> visit list \<Rightarrow> key set \<Rightarrow> key \<Rightarrow> bool" where
  "pending am st vus k \<longleftrightarrow> settled am vus k \<or> (\<exists>c p. (fst k, snd k, c, p) \<in> set st)"

definition covered :: "(key \<times> string) list \<Rightarrow> (key \<times> string) list \<Rightarrow> key \<Rightarrow> bool" where
  "covered etat aj k \<longleftrightarrow> colour_at etat k \<noteq> off \<or> map_of aj k \<noteq> None"

definition closing ::
  "(string \<Rightarrow> string list option) \<Rightarrow> (key \<times> string) list \<Rightarrow> visit list \<Rightarrow> key set \<Rightarrow> (key \<times> string) list \<Rightarrow> bool" where
  "closing am etat st vus aj \<longleftrightarrow>
     (\<forall>s n y. (s, n) \<in> vus \<longrightarrow> (s, y) \<in> contributes am \<longrightarrow> pending am st vus (y, n) \<and> covered etat aj (y, n))"

lemma covered_mono:
  assumes "covered etat aj k" and "c \<noteq> off"
  shows "covered etat (fold (add_upstream etat n c) ins aj) k"
  using assms by (auto simp: covered_def add_all)

lemma propager_loop_complete:
  assumes "propager_loop am etat st vus aj = Some aj'" and "\<forall>v \<in> set st. traced am lamp v" and "closing am etat st vus aj"
    and "\<forall>k \<in> K. pending am st vus k" and "\<forall>k. colour_at aj k = off \<longrightarrow> map_of aj k = None"
    and off: "\<And>r n c. lamp r n c \<Longrightarrow> c \<noteq> off"
    and short: "\<And>r n c s p. lamp r n c \<Longrightarrow> (r, s) \<in> contributes am ^^ p \<Longrightarrow> p \<le> profondeur_max"
  shows "\<exists>vus'. closing am etat [] vus' aj' \<and> (\<forall>k \<in> K. pending am [] vus' k)"
  using assms(1-5) short
proof (induction am etat st vus aj rule: propager_loop.induct)
  case (1 am etat vus aj)
  then show ?case by auto
next
  case (2 am etat shm n c p st vus aj)
  have tr: "traced am lamp (shm, n, c, p)" using 2(4) by simp
  then obtain r where r: "lamp r n c" "(r, shm) \<in> contributes am ^^ p" by (auto simp: traced_def)
  show ?case
  proof (cases "profondeur_max \<le> p \<or> (shm, n) \<in> vus")
    case True
    have "settled am vus (shm, n)"
    proof (cases "(shm, n) \<in> vus")
      case False
      have "(shm, y) \<notin> contributes am" for y
      proof
        assume "(shm, y) \<in> contributes am"
        then have "(r, y) \<in> contributes am ^^ Suc p" using r(2) by auto
        then show False using 2(8) [OF r(1)] True False by fastforce
      qed
      then show ?thesis by (auto simp: settled_def)
    qed (simp add: settled_def)
    then have drop: "pending am st vus k" if "pending am ((shm, n, c, p) # st) vus k" for k
      using that by (cases k) (auto simp: pending_def)
    have "closing am etat st vus aj" using 2(5) drop unfolding closing_def by blast
    moreover have "\<forall>k \<in> K. pending am st vus k" using 2(6) drop by blast
    moreover have "propager_loop am etat st vus aj = Some aj'" using 2(3) True by simp
    ultimately show ?thesis using 2(1) [OF True] 2(4,7,8) by simp
  next
    case False
    obtain ins where ins: "am shm = Some ins" using 2(3) False by (auto split: option.splits)
    let ?aj = "fold (add_upstream etat n c) ins aj" and ?st = "rev (map (\<lambda>a. (a, n, c, Suc p)) ins) @ st"
    have c: "c \<noteq> off" by (rule off [OF r(1)])
    have "\<forall>v \<in> set ?st. traced am lamp v"
      using 2(4) traced_step [OF tr _ ins] False by auto
    moreover have go: "pending am ?st (insert (shm, n) vus) k" if "pending am ((shm, n, c, p) # st) vus k" for k
      using that by (cases k) (auto simp: pending_def settled_def)
    have new: "pending am ?st (insert (shm, n) vus) (y, n) \<and> covered etat ?aj (y, n)" if "y \<in> set ins" for y
    proof
      have "(y, n, c, Suc p) \<in> set ?st" using that by simp
      then show "pending am ?st (insert (shm, n) vus) (y, n)" unfolding pending_def by auto
      have "colour_at aj (y, n) \<noteq> off \<longrightarrow> map_of aj (y, n) \<noteq> None"
        by (cases "map_of aj (y, n)") (simp_all add: colour_at_def)
      then show "covered etat ?aj (y, n)" using that by (auto simp: covered_def add_all [OF c])
    qed
    have "closing am etat ?st (insert (shm, n) vus) ?aj"
      unfolding closing_def
    proof (intro allI impI)
      fix s m y assume "(s, m) \<in> insert (shm, n) vus" and sy: "(s, y) \<in> contributes am"
      then consider "s = shm" "m = n" | "(s, m) \<in> vus" by blast
      then show "pending am ?st (insert (shm, n) vus) (y, m) \<and> covered etat ?aj (y, m)"
      proof cases
        case 1
        then show ?thesis using new sy contributes_iff [where am = am and x = shm, OF ins] by simp
      next
        case 2
        then show ?thesis using \<open>closing am etat ((shm, n, c, p) # st) vus aj\<close> sy go covered_mono [OF _ c]
          unfolding closing_def by blast
      qed
    qed
    moreover have "\<forall>k \<in> K. pending am ?st (insert (shm, n) vus) k" using 2(6) go by blast
    moreover have "\<forall>k. colour_at ?aj k = off \<longrightarrow> map_of ?aj k = None"
    proof (intro allI impI)
      fix k assume o: "colour_at ?aj k = off"
      have "map_of ?aj k = Some c \<or> map_of ?aj k = map_of aj k" by (simp add: add_all [OF c])
      then show "map_of ?aj k = None"
      proof
        assume "map_of ?aj k = Some c"
        then show ?thesis using o c by (simp add: colour_at_def)
      next
        assume e: "map_of ?aj k = map_of aj k"
        then have "colour_at aj k = off" using o by (simp add: colour_at_def)
        then show ?thesis using e spec [OF 2(7), of k] by simp
      qed
    qed
    moreover have "propager_loop am etat ?st (insert (shm, n) vus) ?aj = Some aj'" using 2(3) False ins by simp
    ultimately show ?thesis using 2(2) [OF False ins] 2(8) by blast
  qed
qed

lemma closed_reach:
  assumes cl: "closing am etat [] vus aj" and k: "pending am [] vus (r, n)" and p: "(r, s) \<in> contributes am ^^ p"
  shows "pending am [] vus (s, n) \<and> (0 < p \<longrightarrow> covered etat aj (s, n))"
  using p
proof (induction p arbitrary: s)
  case 0
  then show ?case using k by simp
next
  case (Suc p)
  then obtain x where x: "(r, x) \<in> contributes am ^^ p" "(x, s) \<in> contributes am" by auto
  then have "(x, n) \<in> vus" using Suc.IH [OF x(1)] by (auto simp: pending_def settled_def)
  then show ?case using cl x(2) unfolding closing_def by blast
qed

end
