(* ===== verification/Tally_Mixer.thy ===== *)
theory Tally_Mixer
  imports Tally_Propagate
begin

text \<open>
  The thread that turns the states of the mixers into tally (\<open>_mixer_publisher_tick\<close>, \<open>_sortie_a_l_antenne\<close>).  The list of the
  containers, the levels of the projects, the ports and the answers of the mixers are what the tick reads.  A level and the name of a
  flow are texts; a value of another type counts as the empty text here.
\<close>

record mixer_world =
  mw_elements :: "element list"
  mw_levels :: "int \<Rightarrow> string list"
  mw_ports :: "int \<Rightarrow> port option"
  mw_state :: "int \<Rightarrow> params option"

text \<open>
  The memory of the publisher: the tally of the module, \<open>_mixers_publies\<close>, \<open>_etat_mixer\<close>.  \<open>changed\<close> says whether the readers are
  to be woken; two documents are the same here when they have the same keys in the same order.
\<close>

record publisher =
  pub_tally :: tally
  publies :: "int list"
  etat_mixer :: "(int \<times> params) list"
  changed :: bool

definition text_of :: "json \<Rightarrow> string" where
  "text_of v = (case v of JStr s \<Rightarrow> s | _ \<Rightarrow> [])"

definition mixer_source :: "int \<Rightarrow> string" where
  "mixer_source v = ''mixer:'' @ str_int v"

definition upper_char :: "char \<Rightarrow> char" where
  "upper_char c = (let k = (of_char c :: nat) in if 97 \<le> k \<and> k \<le> 122 then char_of (k - 32) else c)"

subsection \<open>The levels and the outputs of a mixer\<close>

definition mixer_levels :: "mixer_world \<Rightarrow> element \<Rightarrow> string list" where
  "mixer_levels w el =
     (let v = pget (el_params el) ''tally_level_base'';
          own = (if truthy v then (case v of JList l \<Rightarrow> map text_of l | v \<Rightarrow> [text_of v]) else [])
      in if own = [] then mw_levels w (el_vmid el) else own)"

definition counting_outputs :: "element \<Rightarrow> out_port list" where
  "counting_outputs el =
     (let counts = filter op_counts (el_out el) in
      if counts \<noteq> [] then counts
      else
        (case find (\<lambda>p. map upper_char (op_label p) = ''PGM'') (el_out el) of
           Some p \<Rightarrow> [p]
         | None \<Rightarrow> take 1 (el_out el)))"

definition sortie_a_l_antenne :: "(int \<Rightarrow> port option) \<Rightarrow> element \<Rightarrow> string list \<Rightarrow> tally \<Rightarrow> bool" where
  "sortie_a_l_antenne ports el lvls t \<longleftrightarrow>
     (\<exists>p \<in> set (counting_outputs el). op_shm p \<noteq> [] \<and>
        (\<exists>n \<in> set lvls. map_of (etat_brut t) (resolved ports (op_shm p), n) = Some ''red''))"

subsection \<open>What a mixer states\<close>

definition bus_colour :: "params \<Rightarrow> string \<Rightarrow> string \<Rightarrow> string" where
  "bus_colour ps key dflt =
     (case map_of ps key of
        Some (JStr c) \<Rightarrow> if c \<in> {''red'', ''green'', ''off''} then c else dflt
      | _ \<Rightarrow> dflt)"

text \<open>The flows at the inputs in the picture; \<open>None\<close> where the index of an input is not a number.\<close>

definition bus_flows :: "params \<Rightarrow> string \<Rightarrow> string list option" where
  "bus_flows st bus =
     those (map (\<lambda>i. map_option (\<lambda>k. text_of (pget st k)) (cle_input i)) (entrees_a_l_image st bus))"

definition poser_flux :: "string list \<Rightarrow> string \<Rightarrow> string \<Rightarrow> (key \<times> string) list \<Rightarrow> (key \<times> string) list" where
  "poser_flux lvls couleur shm want =
     (if shm = [] then want
      else fold (\<lambda>l want. dict_put (shm, l) (cumuler (case map_of want (shm, l) of None \<Rightarrow> [] | Some c \<Rightarrow> c) couleur) want) lvls want)"

definition poser_bus ::
  "(int \<Rightarrow> port option) \<Rightarrow> string list \<Rightarrow> string \<Rightarrow> string list \<Rightarrow> (key \<times> string) list \<Rightarrow> (key \<times> string) list" where
  "poser_bus ports lvls couleur shms want =
     (if couleur = off then want else fold (\<lambda>shm. poser_flux lvls couleur (resolved ports shm)) shms want)"

definition tally_force :: "element \<Rightarrow> bool" where
  "tally_force el = (case map_of (el_params el) ''tally_force'' of None \<Rightarrow> True | Some v \<Rightarrow> truthy v)"

definition want_of ::
  "(int \<Rightarrow> port option) \<Rightarrow> element \<Rightarrow> string list \<Rightarrow> string list \<Rightarrow> string list \<Rightarrow> tally \<Rightarrow> (key \<times> string) list" where
  "want_of ports el lvls pgm pvw t =
     (if \<not> tally_force el \<and> \<not> sortie_a_l_antenne ports el lvls t then []
      else poser_bus ports lvls (bus_colour (el_params el) ''tally_pvw_color'' ''green'') pvw
             (poser_bus ports lvls (bus_colour (el_params el) ''tally_pgm_color'' ''red'') pgm []))"

subsection \<open>The tick\<close>

definition retirer_mixer :: "int \<Rightarrow> publisher \<Rightarrow> publisher" where
  "retirer_mixer v p =
     (if v \<notin> set (publies p) then p
      else
        (let (ch, t) = poser_tally (mixer_source v) [] False (pub_tally p) in
         p\<lparr>pub_tally := t, publies := filter (\<lambda>u. u \<noteq> v) (publies p), changed := (ch \<or> changed p)\<rparr>))"

definition is_mixer :: "element \<Rightarrow> bool" where
  "is_mixer el \<longleftrightarrow> el_type el = ''mixer''"

definition emits :: "mixer_world \<Rightarrow> element \<Rightarrow> bool" where
  "emits w el \<longleftrightarrow> truthy (pget (el_params el) ''tally_emit'') \<and> mixer_levels w el \<noteq> []"

text \<open>One turn of the loop over the containers; \<open>None\<close> is an exception, which ends the tick.\<close>

definition publish_one :: "mixer_world \<Rightarrow> element \<Rightarrow> publisher \<Rightarrow> bool \<times> publisher" where
  "publish_one w el p =
     (if \<not> is_mixer el then (True, p)
      else if \<not> emits w el then (True, retirer_mixer (el_vmid el) p)
      else
        (case mw_state w (el_vmid el) of
           None \<Rightarrow> (True, p)
         | Some st \<Rightarrow>
             (let v = el_vmid el;
                  p1 = p\<lparr>changed := (changed p \<or> map_of (etat_mixer p) v \<noteq> Some st), etat_mixer := dict_put v st (etat_mixer p)\<rparr>
              in (case (bus_flows st ''pgm'', bus_flows st ''pvw'') of
                    (Some pgm, Some pvw) \<Rightarrow>
                      (let want = want_of (mw_ports w) el (mixer_levels w el) pgm pvw (pub_tally p1);
                           (ch, t) = poser_tally (mixer_source v) want False (pub_tally p1)
                       in (True, p1\<lparr>pub_tally := t, publies := List.insert v (publies p1), changed := (ch \<or> changed p1)\<rparr>))
                  | _ \<Rightarrow> (False, p1)))))"

fun publish_all :: "mixer_world \<Rightarrow> element list \<Rightarrow> publisher \<Rightarrow> bool \<times> publisher" where
  "publish_all w [] p = (True, p)"
| "publish_all w (el # els) p =
     (case publish_one w el p of
        (True, p') \<Rightarrow> publish_all w els p'
      | (False, p') \<Rightarrow> (False, p'))"

text \<open>
  The sweep over the mixers that were published and are no longer met, and the wake-up; neither is reached when the loop raises.
\<close>

definition mixer_publisher_tick :: "mixer_world \<Rightarrow> publisher \<Rightarrow> bool \<times> publisher" where
  "mixer_publisher_tick w p0 =
     (case publish_all w (mw_elements w) (p0\<lparr>changed := False\<rparr>) of
        (False, p) \<Rightarrow> (False, p)
      | (True, p) \<Rightarrow>
          (let vus = map el_vmid (filter is_mixer (mw_elements w));
               p' = fold retirer_mixer (filter (\<lambda>v. v \<notin> set vus) (publies p)) p
           in (True, if changed p' then p'\<lparr>pub_tally := signaler_changement (pub_tally p')\<rparr> else p')))"

end
