(* ===== verification/Tally_Turn.thy ===== *)
theory Tally_Turn
  imports Tally_Mixer
begin

text \<open>
  One turn of the distributor (\<open>_distributor\<close>): the state of the turn, that is what was received, what the propagation deduces and what the
  followers inherit; and what the windows and the overlays of a multiview are told of it.  The texts of the labels come from
  another part of the module, here from the world.
\<close>

subsection \<open>The state of the turn\<close>

text \<open>Who produces each flow: the first container that says so.\<close>

definition producers :: "element list \<Rightarrow> plant" where
  "producers els =
     fold (\<lambda>(shm, el) d. if map_of d shm = None then d @ [(shm, el)] else d)
       [(py_strip (op_shm p), el). el \<leftarrow> els, p \<leftarrow> el_out el, py_strip (op_shm p) \<noteq> []] []"

definition set_defaults :: "(key \<times> string) list \<Rightarrow> (key \<times> string) list \<Rightarrow> (key \<times> string) list" where
  "set_defaults deduits state = fold (\<lambda>(k, c) st. if map_of st k = None then st @ [(k, c)] else st) deduits state"

record turn_world =
  tw_elements :: "element list"
  tw_state :: "int \<Rightarrow> params option"
  tw_declared :: "(string \<times> string option) list"
  tw_parents :: "(string \<times> string) list"
  tw_suffixes :: "string list"

text \<open>When the propagation raises, the turn goes on with what was received, and the deductions of the turn before stay.\<close>

definition turn_state :: "turn_world \<Rightarrow> tally \<Rightarrow> (key \<times> string) list \<times> tally" where
  "turn_state w t =
     (let state = etat_brut t; par_shm = producers (tw_elements w) in
      case propager state par_shm (tw_state w) of
        None \<Rightarrow> (state, t)
      | Some deduits \<Rightarrow>
          (heriter_soeurs (set_defaults deduits state)
             (suiveurs_de (tw_declared w) (tw_parents w) (tw_suffixes w)),
           poser_deduit deduits (Some (map fst par_shm)) t))"

subsection \<open>Windows\<close>

definition umd_shows_pushed_text :: "params \<Rightarrow> params \<Rightarrow> bool" where
  "umd_shows_pushed_text c fc =
     (let src = py_or (pget c ''text_source'') (JStr ''name'') in
      src = JStr ''tsl'' \<or> (src = JStr ''tile'' \<and> pget fc ''label_source'' = JStr ''protocol''))"

definition components :: "json \<Rightarrow> json" where
  "components v = pget (json_dict (or_empty v)) ''components''"

definition veut_texte_pousse :: "params \<Rightarrow> params \<Rightarrow> bool" where
  "veut_texte_pousse fc ps \<longleftrightarrow>
     (truthy (pget fc ''show_label'') \<and> pget fc ''label_source'' = JStr ''protocol'') \<or>
     (let own = components (pget fc ''template'');
          comps = (if own = JNull then components (pget ps ''default_template'') else own)
      in case comps of
           JList l \<Rightarrow> \<exists>c \<in> set l. (case c of
             JDict d \<Rightarrow> pget d ''type'' = JStr ''umd'' \<and> umd_shows_pushed_text d fc | _ \<Rightarrow> False)
         | _ \<Rightarrow> False)"

definition dev_shm :: string where
  "dev_shm = ''/dev/shm/''"

definition bare_shm :: "string \<Rightarrow> string" where
  "bare_shm s = (let s = py_strip s in if take (length dev_shm) s = dev_shm then drop (length dev_shm) s else s)"

text \<open>The levels asked for: a list, one value, or those of the project.\<close>

definition asked_levels :: "params \<Rightarrow> string \<Rightarrow> string list \<Rightarrow> string list" where
  "asked_levels d key proj =
     (let v = pget d key;
          own = (if truthy v then (case v of JList l \<Rightarrow> map text_of l | v \<Rightarrow> [text_of v]) else [])
      in if own = [] then proj else own)"

definition level_colour ::
  "(key \<times> string) list \<Rightarrow> (int \<Rightarrow> port option) \<Rightarrow> porteurs \<Rightarrow> string list \<Rightarrow> string \<Rightarrow> string" where
  "level_colour state ports reg lvls shm =
     (case porteur_pour lvls reg of None \<Rightarrow> off | Some (l, cle) \<Rightarrow> colour_at state (resolved ports shm, l))"

definition red_on :: "string \<Rightarrow> bool" where "red_on e \<longleftrightarrow> e = ''red'' \<or> e = amber"
definition green_on :: "string \<Rightarrow> bool" where "green_on e \<longleftrightarrow> e = ''green'' \<or> e = amber"

text \<open>An update of a window: its index, the slot, the colour, the text if the window takes it.\<close>

datatype update = Update nat string string "string option"

record turn_env =
  te_ports :: "int \<Rightarrow> port option"
  te_reg :: porteurs
  te_proj :: "string list"
  te_label :: "nat \<Rightarrow> int \<Rightarrow> string"
  te_row :: "string \<Rightarrow> json \<Rightarrow> string"

text \<open>
  The updates of one window; a path that is not a text counts as the empty one.  The label column is converted outside of any \<open>try\<close>: \<open>None\<close> is an exception that ends the thread.
\<close>

definition window_updates :: "turn_env \<Rightarrow> (key \<times> string) list \<Rightarrow> params \<Rightarrow> nat \<Rightarrow> params \<Rightarrow> update list option" where
  "window_updates en state ps i fc =
     (let shm = bare_shm (text_of (pget fc ''path''));
          want_red = truthy (pget fc ''tally_red''); want_green = truthy (pget fc ''tally_green'');
          want_text = veut_texte_pousse fc ps;
          lvls = asked_levels fc ''tally_level'' (te_proj en) in
      if \<not> (want_red \<or> want_green \<or> want_text) \<or> (lvls = [] \<and> \<not> want_text) then Some []
      else
        (case json_int (py_or (pget fc ''label_col'') (JNum 0)) of
           None \<Rightarrow> None
         | Some col \<Rightarrow>
             (let e = level_colour state (te_ports en) (te_reg en) lvls shm;
                  l = (if want_red \<and> red_on e then ''red'' else off);
                  r = (if want_green \<and> green_on e then ''green'' else off);
                  text = (if want_text then Some (te_label en i col) else None)
              in Some [Update i ''L'' l text, Update i ''R'' r text])))"

definition tsl_direct :: "params \<Rightarrow> bool option" where
  "tsl_direct ps =
     (case pget ps ''tsl_mode'' of
        v \<Rightarrow> if truthy v then Some (v = JStr ''direct'')
             else map_option (\<lambda>n. 0 < n \<and> \<not> truthy (pget ps ''tsl_remote'')) (json_int (py_or (pget ps ''tsl_port'') (JNum 0))))"

text \<open>The windows of a wall; those that are not a dictionary are skipped, with their index.\<close>

fun wall_loop :: "turn_env \<Rightarrow> (key \<times> string) list \<Rightarrow> params \<Rightarrow> nat \<Rightarrow> json list \<Rightarrow> update list option" where
  "wall_loop en state ps i [] = Some []"
| "wall_loop en state ps i (JDict fc # fcs) =
     Option.bind (window_updates en state ps i fc) (\<lambda>us. map_option (\<lambda>vs. us @ vs) (wall_loop en state ps (Suc i) fcs))"
| "wall_loop en state ps i (fc # fcs) = wall_loop en state ps (Suc i) fcs"

definition wall_updates :: "turn_env \<Rightarrow> (key \<times> string) list \<Rightarrow> params \<Rightarrow> update list option" where
  "wall_updates en state ps =
     Option.bind (tsl_direct ps) (\<lambda>direct.
       if direct then Some []
       else (case pget ps ''flux_config'' of JList l \<Rightarrow> wall_loop en state ps 0 l | _ \<Rightarrow> Some []))"

subsection \<open>Targets of the other plugins\<close>

text \<open>What a plugin's \<open>tally_targets\<close> answers for a source, and what it is told: the key, the flow, red, green, the text.\<close>

datatype target = Target string string string string string

definition target_update :: "turn_env \<Rightarrow> (key \<times> string) list \<Rightarrow> (string \<Rightarrow> string) \<Rightarrow> json \<Rightarrow> target option" where
  "target_update en state label cible =
     (case cible of
        JDict c \<Rightarrow>
          (let shm = bare_shm (text_of (pget c ''shm'')) in
           if shm = [] then None
           else
             (let e = level_colour state (te_ports en) (te_reg en) (asked_levels c ''niveau'' (te_proj en)) shm;
                  cle = text_of (pget c ''cle'')
              in Some (Target (if cle = [] then shm else cle) shm (if red_on e then ''red'' else off)
                   (if green_on e then ''green'' else off) (label shm))))
      | _ \<Rightarrow> None)"

subsection \<open>Overlays\<close>

text \<open>A text overlay tied to a row of the labels: its identifier, its text, whether it is lit.\<close>

definition overlay_update :: "turn_env \<Rightarrow> (key \<times> string) list \<Rightarrow> params \<Rightarrow> (json \<times> string \<times> bool) option" where
  "overlay_update en state ov =
     (if text_of (pget ov ''kind'') \<noteq> ''text'' \<or> py_or (pget ov ''text_source'') (JStr ''local'') \<noteq> JStr ''tsl'' then None
      else
        (let row = py_strip (text_of (pget ov ''label_row''));
             lvls = asked_levels ov ''tally_level'' (te_proj en);
             red = truthy (pget ov ''tally_red''); green = truthy (pget ov ''tally_green'');
             e = level_colour state (te_ports en) (te_reg en) lvls row;
             active = (row \<noteq> [] \<and> lvls \<noteq> [] \<and> (red \<or> green) \<and> ((red \<and> red_on e) \<or> (green \<and> green_on e)))
         in Some (pget ov ''id'', if row = [] then [] else te_row en row (pget ov ''label_col''), active)))"

subsection \<open>Pushing\<close>

text \<open>
  A packet is sent when it differs from the last one that was received, or five seconds after it; a failure forgets the last one.
\<close>

definition must_push :: "('p \<times> rat) option \<Rightarrow> 'p \<Rightarrow> rat \<Rightarrow> bool" where
  "must_push prev p now = (case prev of None \<Rightarrow> True | Some (q, ts) \<Rightarrow> \<not> (q = p \<and> now - ts < 5))"

definition push_turn :: "bool \<Rightarrow> 'p \<Rightarrow> rat \<Rightarrow> ('p \<times> rat) option \<Rightarrow> ('p \<times> rat) option" where
  "push_turn sent p now prev = (if must_push prev p now then if sent then Some (p, now) else None else prev)"

end
