(* ===== verification/Tally_Properties.thy ===== *)
theory Tally_Properties
  imports Tally_Walk Tally_Turn
begin

text \<open>
  What the tally promises: the displayed colours are always the sum of what the writers state, a writer replaces exactly its own part,
  the propagation lights what contributes to a flow on air and nothing else, and the two readers of the result agree.
\<close>

subsection \<open>The displayed layer\<close>

text \<open>
  C29. Whatever the writers, the deductions and the signals, in any order, a cell displays the sum of what the writers state of it, and is
  absent when nothing is lit: one colour when all lit contributions have it, amber as soon as two differ.
\<close>

theorem displayed_is_sum:
  "map_of (t_state (fold tally_step as tally0)) k =
     (let L = lit_set (snd ` set (par_at (par_source (fold tally_step as tally0)) k))
      in if L = {} then None else Some (if card L = 1 then the_elem L else amber))"
proof -
  let ?par = "par_at (par_source (fold tally_step as tally0)) k"
  have "map_of (t_state (fold tally_step as tally0)) k = (if cumul_of ?par = off then None else Some (cumul_of ?par))"
    using tally_okD [OF tally_steps_ok [OF tally0_ok]] by (simp add: Let_def)
  then show ?thesis by (simp only: cumul_of_off_iff) (simp add: cumul_of_eq sum_colour_def Let_def)
qed

subsection \<open>A writer replaces its part\<close>

text \<open>The sections of \<open>poser_tally\<close>, with what other threads do before, between and after them.\<close>

definition poser_tally_among ::
  "string \<Rightarrow> (key \<times> string) list \<Rightarrow> tally_act list \<Rightarrow> tally_act list \<Rightarrow> tally_act list \<Rightarrow> tally \<Rightarrow> tally" where
  "poser_tally_among src cases before between after t =
     (let old = anciennes src t;
          t1 = tally_step (Cases src (a_retirer old (lit_cases cases))) (fold tally_step before t);
          t2 = tally_step (Cases src (lit_cases cases)) (fold tally_step between t1)
      in fold tally_step after t2)"

lemma poser_tally_alone:
  "snd (poser_tally src cases False t) = poser_tally_among src cases [] [] [] t"
  by (simp add: poser_tally_def poser_tally_among_def Let_def case_prod_unfold tally_step.simps)

lemma distinct_lit_cases: "distinct (map fst cs) \<Longrightarrow> distinct (map fst (lit_cases cs))"
  by (induction cs) (auto simp: lit_cases_def)

lemma map_of_lit_cases:
  "distinct (map fst cs) \<Longrightarrow> map_of (lit_cases cs) k = (case map_of cs k of Some c \<Rightarrow> if c = [] \<or> c = off then None else Some c | None \<Rightarrow> None)"
  by (induction cs) (auto simp: lit_cases_def map_of_eq_None_iff split: option.splits)

lemma lit_cases_not_off: "map_of (lit_cases cs) k = Some c \<Longrightarrow> c \<noteq> off \<and> c \<noteq> []"
  by (drule map_of_SomeD) (simp add: lit_cases_def)

lemma map_of_a_retirer:
  "map_of (rev (a_retirer old cs)) k = (if k \<in> set old \<and> k \<notin> fst ` set cs then Some off else None)"
proof (cases "map_of (rev (a_retirer old cs)) k")
  case None
  then have "k \<notin> fst ` set (a_retirer old cs)" by (simp add: map_of_eq_None_iff)
  then show ?thesis using None by (force simp: a_retirer_def)
next
  case (Some c)
  then have "(k, c) \<in> set (a_retirer old cs)" using map_of_SomeD by fastforce
  then show ?thesis using Some by (auto simp: a_retirer_def)
qed

lemma removed_said:
  assumes "\<And>k. said t0 k src \<noteq> None \<Longrightarrow> k \<in> set old"
  shows "said (tally_step (Cases src (a_retirer old cs)) t0) k src = (if k \<in> fst ` set cs then said t0 k src else None)"
  using assms [of k] by (auto simp: step_said map_of_a_retirer split: option.splits)

lemma written_said:
  assumes "distinct (map fst cs)" and "\<And>k. k \<notin> fst ` set (lit_cases cs) \<Longrightarrow> said t0 k src = None"
  shows "said (tally_step (Cases src (lit_cases cs)) t0) k src = map_of (lit_cases cs) k"
proof (cases "map_of (lit_cases cs) k")
  case None
  then have "k \<notin> fst ` set (lit_cases cs)" by (simp only: map_of_eq_None_iff not_False_eq_True)
  then show ?thesis
    using None assms(2) [of k] map_of_rev_distinct [OF distinct_lit_cases [OF assms(1)]] by (simp add: step_said)
next
  case (Some c)
  then show ?thesis
    using lit_cases_not_off [OF Some] map_of_rev_distinct [OF distinct_lit_cases [OF assms(1)]] by (simp add: step_said)
qed

lemma cases_other_said: "w \<noteq> src \<Longrightarrow> said (tally_step (Cases src cs) t) k w = said t k w"
  by (simp add: step_said)

lemma among_own:
  assumes d: "distinct (map fst cases)" and o: "\<forall>a \<in> set (before @ between @ after). \<not> writes src a"
  shows "said (poser_tally_among src cases before between after t) k src = map_of (lit_cases cases) k"
proof -
  let ?cs = "lit_cases cases" and ?old = "anciennes src t"
  let ?t0 = "fold tally_step before t"
  let ?t1 = "tally_step (Cases src (a_retirer ?old ?cs)) ?t0"
  let ?t2 = "fold tally_step between ?t1"
  have ob: "\<forall>a \<in> set before. \<not> writes src a" "\<forall>a \<in> set between. \<not> writes src a" "\<forall>a \<in> set after. \<not> writes src a"
    using o by auto
  have "said ?t0 k src \<noteq> None \<Longrightarrow> k \<in> set ?old" for k
    using anciennes_said [of t k src] by (simp add: others_said [OF ob(1)])
  then have "said ?t1 k src = (if k \<in> fst ` set ?cs then said ?t0 k src else None)" for k by (rule removed_said)
  then have "k \<notin> fst ` set ?cs \<Longrightarrow> said ?t2 k src = None" for k by (simp add: others_said [OF ob(2)])
  then have "said (tally_step (Cases src ?cs) ?t2) k src = map_of ?cs k" by (rule written_said [OF d])
  then show ?thesis unfolding poser_tally_among_def Let_def others_said [OF ob(3)] .
qed

lemma among_other:
  assumes w: "w \<noteq> src"
  shows "said (poser_tally_among src cases before between after t) k w = said (fold tally_step (before @ between @ after) t) k w"
proof -
  let ?t0 = "fold tally_step before t"
  let ?t1 = "tally_step (Cases src (a_retirer (anciennes src t) (lit_cases cases))) ?t0"
  let ?t3 = "tally_step (Cases src (lit_cases cases)) (fold tally_step between ?t1)"
  have "\<forall>k. said ?t1 k w = said ?t0 k w" using cases_other_said [OF w] by blast
  from steps_said_cong [OF this, of between] have "\<forall>k. said ?t3 k w = said (fold tally_step between ?t0) k w"
    using cases_other_said [OF w] by simp
  from steps_said_cong [OF this, of after]
  have "said (fold tally_step after ?t3) k w = said (fold tally_step after (fold tally_step between ?t0)) k w" by (rule spec)
  then show ?thesis unfolding poser_tally_among_def Let_def by simp
qed

lemma poser_tally_said:
  assumes "distinct (map fst cases)"
  shows "said (snd (poser_tally src cases False t)) k w = (if w = src then map_of (lit_cases cases) k else said t k w)"
  using among_own [OF assms, of "[]" "[]" "[]" src] among_other [of w src cases "[]" "[]" "[]"]
  by (simp add: poser_tally_alone)

text \<open>
  C30. A writer replaces its whole contribution, and only that: whatever the others do before, between and after the sections of
  \<open>poser_tally\<close>, in the end it states exactly the lit cells it was given, and the others state what they would have stated without it.
\<close>

theorem poser_tally_replaces:
  assumes d: "distinct (map fst cases)" and o: "\<forall>a \<in> set (before @ between @ after). \<not> writes src a"
  shows "said (poser_tally_among src cases before between after t) k src = map_of (lit_cases cases) k \<and>
    (w \<noteq> src \<longrightarrow> said (poser_tally_among src cases before between after t) k w
       = said (fold tally_step (before @ between @ after) t) k w)"
  using among_own [OF d o] among_other by simp

theorem poser_tally_replaces_witness:
  "said (poser_tally_among ''mixer:301'' [((''cam1'', ''L''), ''red'')] [Cases ''tsl:1'' [((''cam2'', ''L''), ''green'')]]
      [Cases ''tsl:1'' [((''cam1'', ''L''), ''green'')]] []
      (snd (poser_tally ''mixer:301'' [((''cam2'', ''L''), ''red'')] True tally0))) (''cam2'', ''L'') ''mixer:301'' = None"
  using poser_tally_replaces [of "[((''cam1'', ''L''), ''red'')]" "[Cases ''tsl:1'' [((''cam2'', ''L''), ''green'')]]"
      "[Cases ''tsl:1'' [((''cam1'', ''L''), ''green'')]]" "[]" "''mixer:301''"
      "snd (poser_tally ''mixer:301'' [((''cam2'', ''L''), ''red'')] True tally0)" "(''cam2'', ''L'')"]
  by (simp add: lit_cases_def off_def)

text \<open>
  The call wakes the readers exactly when some displayed colour moved.
\<close>

theorem poser_tally_wakes:
  assumes ok: "tally_ok t" and d: "distinct (map fst cases)" and p: "poser_tally src cases True t = (change, t')"
    and old: "distinct (map fst (par_source t))"
  shows "change = (map_of (t_state t') \<noteq> map_of (t_state t)) \<and> dirty t' = (dirty t \<or> change)"
proof -
  let ?cs = "lit_cases cases"
  obtain c1 t1 where one: "poser_cases_sous_verrou src (a_retirer (anciennes src t) ?cs) t = (c1, t1)" by fastforce
  obtain c2 t2 where two: "poser_cases_sous_verrou src ?cs t1 = (c2, t2)" by fastforce
  note one' = one [unfolded poser_cases_sous_verrou_def] and two' = two [unfolded poser_cases_sous_verrou_def]
  have ok1: "tally_ok t1" using cases_ok [OF ok, of src "a_retirer (anciennes src t) ?cs" False] one' by simp
  have da: "distinct (map fst (a_retirer (anciennes src t) ?cs))"
  proof -
    have "distinct (anciennes src t)" unfolding anciennes_def using old by (rule distinct_map_filter)
    then show ?thesis by (simp add: a_retirer_def comp_def)
  qed
  have dis: "k \<notin> fst ` set ?cs" if "k \<in> fst ` set (a_retirer (anciennes src t) ?cs)" for k
    using that by (force simp: a_retirer_def)
  have e1: "map_of (t_state t1) k = map_of (t_state t) k" if "k \<notin> fst ` set (a_retirer (anciennes src t) ?cs)" for k
    using cases_elsewhere [OF ok that, of src False] one' by simp
  have e2: "map_of (t_state t2) k = map_of (t_state t1) k" if "k \<notin> fst ` set ?cs" for k
    using cases_elsewhere [OF ok1 that, of src False] two' by simp
  have c1: "c1 \<longleftrightarrow> (\<exists>k \<in> fst ` set (a_retirer (anciennes src t) ?cs). map_of (t_state t1) k \<noteq> map_of (t_state t) k)"
    using cases_change [OF ok da, of src False] one' by simp
  have c2: "c2 \<longleftrightarrow> (\<exists>k \<in> fst ` set ?cs. map_of (t_state t2) k \<noteq> map_of (t_state t1) k)"
    using cases_change [OF ok1 distinct_lit_cases [OF d], of src False] two' by simp
  have "c1 \<or> c2 \<longleftrightarrow> (\<exists>k. map_of (t_state t2) k \<noteq> map_of (t_state t) k)"
    using c1 c2 e1 e2 dis by metis
  also have "\<dots> \<longleftrightarrow> map_of (t_state t2) \<noteq> map_of (t_state t)"
    unfolding fun_eq_iff [of "map_of (t_state t2)"] by (rule not_all [symmetric])
  finally have moved: "c1 \<or> c2 \<longleftrightarrow> map_of (t_state t2) \<noteq> map_of (t_state t)" .
  have "dirty t1 = dirty t" "dirty t2 = dirty t1"
    using cases_dirty [of src "a_retirer (anciennes src t) ?cs" "(False, t)"] one' cases_dirty [of src ?cs "(False, t1)"] two' by simp_all
  moreover have "change = (c1 \<or> c2)" "t' = (if c1 \<or> c2 then t2\<lparr>dirty := True\<rparr> else t2)"
    using p one two by (auto simp: poser_tally_def Let_def)
  ultimately show ?thesis unfolding moved by simp
qed

end
