(* ===== verification/Tally_Mixer_Properties.thy ===== *)
theory Tally_Mixer_Properties
  imports Tally_Properties
begin

text \<open>
  What the publisher of the mixers states: after a tick each mixer that emits and answers states exactly the inputs in its picture, with
  the colours of its two buses, and no mixer that is gone, silent or without levels states anything.
\<close>

subsection \<open>What a mixer states\<close>

lemma or_off_id [simp]: "or_off (cumuler a b) = cumuler a b"
  by (simp add: or_off_def)

lemma cumuler_or_off [simp]: "cumuler a (or_off b) = cumuler a b"
  by (simp add: cumuler_def or_off_def Let_def)

lemma cumuler_again [simp]: "cumuler (cumuler a b) b = cumuler a b"
  by (simp add: cumuler_assoc)

lemma cumuler_dflt: "cumuler (case map_of want k of None \<Rightarrow> [] | Some c \<Rightarrow> c) d = cumuler (colour_at want k) d"
  by (simp add: colour_at_def cumuler_def or_off_def split: option.splits)

lemma colour_at_Nil [simp]: "colour_at [] k = off"
  by (simp add: colour_at_def)

lemma poser_levels:
  "colour_at (fold (\<lambda>l want. dict_put (shm, l) (cumuler (colour_at want (shm, l)) d) want) lvls want) (s, n) =
     (if s = shm \<and> n \<in> set lvls then cumuler (colour_at want (s, n)) d else colour_at want (s, n))"
  by (induction lvls arbitrary: want) auto

lemma poser_flux_colour:
  "colour_at (poser_flux lvls d shm want) (s, n) =
     (if s = shm \<and> s \<noteq> [] \<and> n \<in> set lvls then cumuler (colour_at want (s, n)) d else colour_at want (s, n))"
  by (auto simp: poser_flux_def poser_levels cumuler_dflt)

lemma poser_bus_colour:
  "colour_at (poser_bus ports lvls d shms want) (s, n) =
     (if d \<noteq> off \<and> s \<noteq> [] \<and> n \<in> set lvls \<and> s \<in> resolved ports ` set shms then cumuler (colour_at want (s, n)) d
      else colour_at want (s, n))"
proof (cases "d = off")
  case False
  have "colour_at (fold (\<lambda>shm. poser_flux lvls d (resolved ports shm)) shms want) (s, n) =
     (if s \<noteq> [] \<and> n \<in> set lvls \<and> s \<in> resolved ports ` set shms then cumuler (colour_at want (s, n)) d else colour_at want (s, n))"
    by (induction shms arbitrary: want) (auto simp: poser_flux_colour)
  then show ?thesis using False by (simp add: poser_bus_def)
qed (simp add: poser_bus_def)

lemma poser_flux_keys: "distinct (map fst want) \<Longrightarrow> distinct (map fst (poser_flux lvls d shm want))"
proof -
  assume "distinct (map fst want)"
  then have "distinct (map fst (fold (\<lambda>l want. dict_put (shm, l) (cumuler (case map_of want (shm, l) of None \<Rightarrow> [] | Some c \<Rightarrow> c) d) want) lvls want))"
    by (induction lvls arbitrary: want) (simp_all add: distinct_dict_put)
  then show ?thesis using \<open>distinct (map fst want)\<close> by (simp add: poser_flux_def)
qed

lemma poser_bus_keys: "distinct (map fst want) \<Longrightarrow> distinct (map fst (poser_bus ports lvls d shms want))"
proof -
  assume "distinct (map fst want)"
  then have "distinct (map fst (fold (\<lambda>shm. poser_flux lvls d (resolved ports shm)) shms want))"
    by (induction shms arbitrary: want) (simp_all add: poser_flux_keys)
  then show ?thesis using \<open>distinct (map fst want)\<close> by (simp add: poser_bus_def)
qed

lemma want_of_keys: "distinct (map fst (want_of ports el lvls pgm pvw t))"
  by (simp add: want_of_def poser_bus_keys)

text \<open>The colour of each bus where it shows the flow, and their sum.\<close>

definition on_bus :: "(int \<Rightarrow> port option) \<Rightarrow> string list \<Rightarrow> string \<Rightarrow> string \<Rightarrow> string" where
  "on_bus ports flows colour s = (if s \<in> resolved ports ` set flows then colour else off)"

definition mixer_says :: "(int \<Rightarrow> port option) \<Rightarrow> element \<Rightarrow> string list \<Rightarrow> string list \<Rightarrow> string list \<Rightarrow> key \<Rightarrow> string" where
  "mixer_says ports el lvls pgm pvw k =
     (if fst k \<noteq> [] \<and> snd k \<in> set lvls
      then cumuler (on_bus ports pgm (bus_colour (el_params el) ''tally_pgm_color'' ''red'') (fst k))
             (on_bus ports pvw (bus_colour (el_params el) ''tally_pvw_color'' ''green'') (fst k))
      else off)"

lemma bus_colour_ne: "d \<noteq> [] \<Longrightarrow> bus_colour ps key d \<noteq> []"
  by (auto simp: bus_colour_def split: option.splits json.splits)

lemma want_of_colour:
  "colour_at (want_of ports el lvls pgm pvw t) k =
     (if tally_force el \<or> sortie_a_l_antenne ports el lvls t then mixer_says ports el lvls pgm pvw k else off)"
proof -
  obtain s n where k: "k = (s, n)" by fastforce
  have "bus_colour (el_params el) ''tally_pgm_color'' ''red'' \<noteq> []" "bus_colour (el_params el) ''tally_pvw_color'' ''green'' \<noteq> []"
    by (rule bus_colour_ne, simp)+
  then show ?thesis
    by (auto simp: want_of_def k poser_bus_colour mixer_says_def on_bus_def or_off_def)
qed

lemma want_of_lit: "map_of (lit_cases (want_of ports el lvls pgm pvw t)) k =
    (let c = colour_at (want_of ports el lvls pgm pvw t) k in if c = off \<or> c = [] then None else Some c)"
  by (simp add: map_of_lit_cases [OF want_of_keys] colour_at_def Let_def split: option.splits)

subsection \<open>The tick\<close>

lemma str_int_inj: "str_int i = str_int j \<Longrightarrow> i = j"
proof -
  have neg: "str_int i = CHR ''-'' # str_nat (nat (- i))" if "i < 0" for i :: int using that by (simp add: str_int_def)
  have pos: "str_int i = str_nat (nat i)" if "0 \<le> i" for i :: int using that by (simp add: str_int_def)
  have dash: "str_nat n \<noteq> CHR ''-'' # s" for n s
  proof
    assume "str_nat n = CHR ''-'' # s"
    with str_nat_digits [of n] have "is_digit (CHR ''-'')" by (metis list.set_intros(1))
    moreover have "\<not> is_digit (CHR ''-'')" by code_simp
    ultimately show False by simp
  qed
  have inj: "str_nat m = str_nat n \<Longrightarrow> m = n" for m n
    by (metis nat_int option.inject py_int_str_nat)
  assume e: "str_int i = str_int j"
  consider "i < 0" "j < 0" | "i < 0" "0 \<le> j" | "0 \<le> i" "j < 0" | "0 \<le> i" "0 \<le> j" by linarith
  then show "i = j"
  proof cases
    case 1
    then have "nat (- i) = nat (- j)" using e by (intro inj) (simp add: neg)
    then show ?thesis using 1 by simp
  next
    case 2
    then show ?thesis using e dash [of "nat j"] by (metis neg pos)
  next
    case 3
    then show ?thesis using e dash [of "nat i"] by (metis neg pos)
  next
    case 4
    then have "nat i = nat j" using e by (intro inj) (simp add: pos)
    then show ?thesis using 4 by simp
  qed
qed

lemma mixer_source_inj [simp]: "mixer_source v = mixer_source u \<longleftrightarrow> v = u"
  using str_int_inj by (auto simp: mixer_source_def)

text \<open>The publisher only has contributions for the mixers it remembers.\<close>

definition remembers :: "publisher \<Rightarrow> bool" where
  "remembers p \<longleftrightarrow> (\<forall>v k. said (pub_tally p) k (mixer_source v) \<noteq> None \<longrightarrow> v \<in> set (publies p))"

lemma retirer_said:
  assumes "remembers p"
  shows "said (pub_tally (retirer_mixer v p)) k w = (if w = mixer_source v then None else said (pub_tally p) k w)"
proof (cases "v \<in> set (publies p)")
  case True
  then show ?thesis using poser_tally_said [of "[]" "mixer_source v" "pub_tally p" k w]
    by (simp add: retirer_mixer_def case_prod_unfold Let_def lit_cases_def)
next
  case False
  then have "said (pub_tally p) k (mixer_source v) = None" using assms unfolding remembers_def by blast
  then show ?thesis using False by (simp add: retirer_mixer_def)
qed

lemma retirer_publies [simp]: "set (publies (retirer_mixer v p)) = set (publies p) - {v}"
  by (auto simp: retirer_mixer_def case_prod_unfold Let_def)

lemma retirer_remembers: "remembers p \<Longrightarrow> remembers (retirer_mixer v p)"
  unfolding remembers_def by (auto simp: retirer_said [unfolded remembers_def])

lemma sweep_said:
  "remembers p \<Longrightarrow> remembers (fold retirer_mixer vs p) \<and> set (publies (fold retirer_mixer vs p)) = set (publies p) - set vs \<and>
   said (pub_tally (fold retirer_mixer vs p)) k w = (if w \<in> mixer_source ` set vs then None else said (pub_tally p) k w)"
proof (induction vs arbitrary: p)
  case (Cons v vs)
  then show ?case using Cons.IH [OF retirer_remembers [OF Cons.prems, of v]] retirer_said [OF Cons.prems, of v k w] by auto
qed simp

text \<open>
  What one container of the list leads to from \<open>t\<close> to \<open>t'\<close>; \<open>tq\<close> is the tally when its turn comes, where its outputs are looked up when it must be on air.
\<close>

definition published :: "mixer_world \<Rightarrow> tally \<Rightarrow> element \<Rightarrow> tally \<Rightarrow> tally \<Rightarrow> key \<Rightarrow> bool" where
  "published w tq el t t' k \<longleftrightarrow>
     (case mw_state w (el_vmid el) of
        None \<Rightarrow> said t' k (mixer_source (el_vmid el)) = said t k (mixer_source (el_vmid el))
      | Some st \<Rightarrow>
          (\<exists>pgm pvw. bus_flows st ''pgm'' = Some pgm \<and> bus_flows st ''pvw'' = Some pvw \<and>
             said t' k (mixer_source (el_vmid el)) =
               (let c = (if tally_force el \<or> sortie_a_l_antenne (mw_ports w) el (mixer_levels w el) tq then mixer_says (mw_ports w) el (mixer_levels w el) pgm pvw k else off)
                in if c = off then None else Some c)))"

lemma mixer_says_ne: "mixer_says ports el lvls pgm pvw k \<noteq> []"
  by (simp add: mixer_says_def)

lemma published_same:
  "published w tq el t0 t k \<Longrightarrow> said t' k (mixer_source (el_vmid el)) = said t k (mixer_source (el_vmid el)) \<Longrightarrow> published w tq el t0 t' k"
  unfolding published_def by (simp only:)

lemma publish_one_said:
  assumes r: "remembers p" and one: "publish_one w el p = (True, p')"
  shows "remembers p' \<and> (\<forall>k s. s \<noteq> mixer_source (el_vmid el) \<longrightarrow> said (pub_tally p') k s = said (pub_tally p) k s) \<and>
    (\<not> is_mixer el \<longrightarrow> p' = p) \<and>
    (is_mixer el \<and> \<not> emits w el \<longrightarrow> (\<forall>k. said (pub_tally p') k (mixer_source (el_vmid el)) = None)) \<and>
    (is_mixer el \<and> emits w el \<longrightarrow> (\<forall>k. published w (pub_tally p) el (pub_tally p) (pub_tally p') k))"
proof (cases "is_mixer el \<and> emits w el")
  case False
  then show ?thesis using one r retirer_said [OF r, of "el_vmid el"] retirer_remembers [OF r, of "el_vmid el"]
    by (cases "is_mixer el") (auto simp: publish_one_def)
next
  case True
  show ?thesis
  proof (cases "mw_state w (el_vmid el)")
    case None
    then show ?thesis using one r True by (auto simp: publish_one_def published_def)
  next
    case (Some st)
    let ?v = "el_vmid el" and ?lv = "mixer_levels w el"
    obtain pgm pvw where f: "bus_flows st ''pgm'' = Some pgm" "bus_flows st ''pvw'' = Some pvw"
      using one True Some by (auto simp: publish_one_def Let_def split: option.splits)
    let ?want = "want_of (mw_ports w) el ?lv pgm pvw (pub_tally p)"
    have p': "pub_tally p' = snd (poser_tally (mixer_source ?v) ?want False (pub_tally p))" "set (publies p') = insert ?v (set (publies p))"
      using one True Some f by (auto simp: publish_one_def Let_def case_prod_unfold)
    have said': "said (pub_tally p') k s =
        (if s = mixer_source ?v then map_of (lit_cases ?want) k else said (pub_tally p) k s)" for k s
      unfolding p'(1) by (rule poser_tally_said [OF want_of_keys])
    have "remembers p'"
      unfolding remembers_def
    proof (intro allI impI)
      fix v k assume "said (pub_tally p') k (mixer_source v) \<noteq> None"
      then have "v = ?v \<or> said (pub_tally p) k (mixer_source v) \<noteq> None" by (auto simp: said')
      then show "v \<in> set (publies p')" using r [unfolded remembers_def, rule_format, of k v] p'(2) by auto
    qed
    moreover have "\<forall>k s. s \<noteq> mixer_source ?v \<longrightarrow> said (pub_tally p') k s = said (pub_tally p) k s"
      by (simp add: said')
    moreover have "published w (pub_tally p) el (pub_tally p) (pub_tally p') k" for k
    proof -
      let ?air = "tally_force el \<or> sortie_a_l_antenne (mw_ports w) el ?lv (pub_tally p)"
      have "said (pub_tally p') k (mixer_source ?v) =
          (let c = (if ?air then mixer_says (mw_ports w) el ?lv pgm pvw k else off) in if c = off then None else Some c)"
        using mixer_says_ne by (simp add: said' want_of_lit want_of_colour Let_def)
      then show ?thesis unfolding published_def Some option.case using f
        by (intro exI [of _ pgm] exI [of _ pvw]) simp
    qed
    ultimately show ?thesis using True by simp
  qed
qed

lemma published_before:
  "published w tq el t t' k \<Longrightarrow> said t k (mixer_source (el_vmid el)) = said t0 k (mixer_source (el_vmid el)) \<Longrightarrow> published w tq el t0 t' k"
  unfolding published_def by (simp only:)

lemma publish_all_said:
  assumes "remembers p" and "distinct (map el_vmid els)" and "publish_all w els p = (True, p')"
  shows "remembers p' \<and> (\<forall>k s. s \<notin> (\<lambda>el. mixer_source (el_vmid el)) ` {el \<in> set els. is_mixer el} \<longrightarrow> said (pub_tally p') k s = said (pub_tally p) k s) \<and>
    (\<forall>el \<in> set els. is_mixer el \<and> \<not> emits w el \<longrightarrow> (\<forall>k. said (pub_tally p') k (mixer_source (el_vmid el)) = None)) \<and>
    (\<forall>as el bs. els = as @ el # bs \<and> is_mixer el \<and> emits w el \<longrightarrow>
       (\<exists>q. publish_all w as p = (True, q) \<and> (\<forall>k. published w (pub_tally q) el (pub_tally p) (pub_tally p') k)))"
  using assms
proof (induction els arbitrary: p)
  case (Cons el els)
  obtain p1 where one: "publish_one w el p = (True, p1)" and rest: "publish_all w els p1 = (True, p')"
    using Cons.prems(3) by (auto split: prod.splits bool.splits)
  note o = publish_one_said [OF Cons.prems(1) one]
  note quiet = o [THEN conjunct2, THEN conjunct2, THEN conjunct2, THEN conjunct1, THEN mp]
    and loud = o [THEN conjunct2, THEN conjunct2, THEN conjunct2, THEN conjunct2, THEN mp]
  let ?src = "\<lambda>el. mixer_source (el_vmid el)"
  have r1: "remembers p1" using o by blast
  have "distinct (map el_vmid els)" using Cons.prems(2) by simp
  note i = Cons.IH [OF r1 this rest]
  have fresh: "?src el \<notin> ?src ` {e \<in> set els. is_mixer e}" using Cons.prems(2) by auto
  have keep: "said (pub_tally p') k (?src el) = said (pub_tally p1) k (?src el)" for k using i fresh by blast
  have other: "said (pub_tally p1) k (?src e) = said (pub_tally p) k (?src e)" if "e \<in> set els" for e k
  proof -
    have "el_vmid el \<notin> el_vmid ` set els" using Cons.prems(2) by simp
    then have "el_vmid e \<noteq> el_vmid el" using imageI [OF that, of el_vmid] by metis
    then have "?src e \<noteq> ?src el" by simp
    then show ?thesis using o by blast
  qed
  have A: "said (pub_tally p') k s = said (pub_tally p) k s" if "s \<notin> ?src ` {e \<in> set (el # els). is_mixer e}" for k s
  proof -
    have "s \<notin> ?src ` {e \<in> set els. is_mixer e}" using that by auto
    then have "said (pub_tally p') k s = said (pub_tally p1) k s" using i by blast
    moreover have "said (pub_tally p1) k s = said (pub_tally p) k s"
    proof (cases "is_mixer el")
      case True
      then have "s \<noteq> ?src el" using that by auto
      then show ?thesis using o by blast
    next
      case False
      then have "p1 = p" using o by blast
      then show ?thesis by simp
    qed
    ultimately show ?thesis by simp
  qed
  have B: "said (pub_tally p') k (?src e) = None" if "e \<in> set (el # els)" "is_mixer e \<and> \<not> emits w e" for e k
  proof (cases "e = el")
    case True
    then have "is_mixer el \<and> \<not> emits w el" using that(2) by simp
    then have "\<forall>k. said (pub_tally p1) k (?src el) = None" by (rule quiet)
    then have "said (pub_tally p1) k (?src el) = None" by (rule spec)
    then show ?thesis using keep True by simp
  next
    case False
    then have "e \<in> set els" using that(1) by simp
    then show ?thesis using i that(2) by blast
  qed
  have C: "\<exists>q. publish_all w as p = (True, q) \<and> (\<forall>k. published w (pub_tally q) e (pub_tally p) (pub_tally p') k)"
    if e: "el # els = as @ e # bs" "is_mixer e" "emits w e" for as e bs
  proof (cases as)
    case Nil
    then have "e = el" "is_mixer el \<and> emits w el" using e by simp_all
    then have "\<forall>k. published w (pub_tally p) e (pub_tally p) (pub_tally p1) k" using loud by blast
    then have "published w (pub_tally p) e (pub_tally p) (pub_tally p') k" for k
      using published_same keep \<open>e = el\<close> by blast
    then show ?thesis using Nil by simp
  next
    case (Cons a as')
    then have s: "els = as' @ e # bs" "a = el" using e(1) by simp_all
    then obtain q where q: "publish_all w as' p1 = (True, q)" "\<forall>k. published w (pub_tally q) e (pub_tally p1) (pub_tally p') k"
      using i e(2,3) by blast
    have "e \<in> set els" using s by simp
    then have "published w (pub_tally q) e (pub_tally p) (pub_tally p') k" for k
      using q(2) published_before other by blast
    moreover have "publish_all w as p = (True, q)" using q(1) one Cons s(2) by simp
    ultimately show ?thesis by blast
  qed
  show ?case using i A B C by blast
qed simp

text \<open>A tick that is not broken off: the loop over the containers, then the sweep of the mixers that were not met.\<close>

lemma tick_parts:
  assumes r: "remembers p" and d: "distinct (map el_vmid (mw_elements w))" and t: "mixer_publisher_tick w p = (True, p')"
  obtains p1 where "publish_all w (mw_elements w) (p\<lparr>changed := False\<rparr>) = (True, p1)" and "remembers p1" and "remembers p'"
    and "set (publies p') \<subseteq> el_vmid ` {el \<in> set (mw_elements w). is_mixer el}"
    and "\<And>k s. s \<notin> mixer_source ` (set (publies p1) - el_vmid ` {el \<in> set (mw_elements w). is_mixer el}) \<Longrightarrow>
      said (pub_tally p') k s = said (pub_tally p1) k s"
proof -
  let ?els = "mw_elements w"
  obtain p1 where all: "publish_all w ?els (p\<lparr>changed := False\<rparr>) = (True, p1)"
    using t by (auto simp: mixer_publisher_tick_def split: prod.splits bool.splits)
  let ?gone = "filter (\<lambda>v. v \<notin> set (map el_vmid (filter is_mixer ?els))) (publies p1)"
  have "remembers (p\<lparr>changed := False\<rparr>)" using r by (simp add: remembers_def)
  then have r1: "remembers p1" using publish_all_said [OF _ d all] by blast
  define p2 where "p2 = fold retirer_mixer ?gone p1"
  have sw: "remembers p2" "set (publies p2) = set (publies p1) - set ?gone"
    "said (pub_tally p2) k s = (if s \<in> mixer_source ` set ?gone then None else said (pub_tally p1) k s)" for k s
    using sweep_said [OF r1, of ?gone] by (simp_all add: p2_def)
  have p': "p' = (if changed p2 then p2\<lparr>pub_tally := signaler_changement (pub_tally p2)\<rparr> else p2)"
    using t unfolding mixer_publisher_tick_def all Let_def p2_def by simp
  have said': "said (pub_tally p') k s = said (pub_tally p2) k s" and publies': "publies p' = publies p2" for k s
    by (simp_all add: p' signaler_changement_def said_def)
  have "remembers p'" using sw(1) unfolding remembers_def said' publies' .
  moreover have "set (publies p') \<subseteq> el_vmid ` {el \<in> set ?els. is_mixer el}" unfolding publies' sw(2) by auto
  moreover have "set ?gone = set (publies p1) - el_vmid ` {el \<in> set ?els. is_mixer el}" by auto
  ultimately show thesis using that [OF all r1] unfolding said' sw(3) by simp
qed

text \<open>
  C33. After a tick that is not broken off, every mixer that emits and answers states, on its levels, the sum of the colours of its two buses for exactly the flows in
  their pictures if it is forced, or if one of its counting outputs is red when its turn comes; and nothing if neither.  One that does not answer keeps what it
  stated; one that does not emit, and one that is gone, states nothing; and nobody else is touched.
\<close>

theorem mixers_state_their_picture:
  assumes r: "remembers p" and d: "distinct (map el_vmid (mw_elements w))" and t: "mixer_publisher_tick w p = (True, p')"
  shows "remembers p' \<and>
    (mw_elements w = as @ el # bs \<and> is_mixer el \<and> emits w el \<longrightarrow>
       (\<exists>q. publish_all w as (p\<lparr>changed := False\<rparr>) = (True, q) \<and> published w (pub_tally q) el (pub_tally p) (pub_tally p') k)) \<and>
    ((\<forall>el \<in> set (mw_elements w). el_vmid el = v \<longrightarrow> \<not> (is_mixer el \<and> emits w el)) \<longrightarrow> said (pub_tally p') k (mixer_source v) = None) \<and>
    (s \<notin> range mixer_source \<longrightarrow> said (pub_tally p') k s = said (pub_tally p) k s)"
proof -
  let ?mixers = "{el \<in> set (mw_elements w). is_mixer el}"
  obtain p1 where all: "publish_all w (mw_elements w) (p\<lparr>changed := False\<rparr>) = (True, p1)" and r1: "remembers p1" and r': "remembers p'"
    and pub: "set (publies p') \<subseteq> el_vmid ` ?mixers"
    and same: "\<And>k s. s \<notin> mixer_source ` (set (publies p1) - el_vmid ` ?mixers) \<Longrightarrow> said (pub_tally p') k s = said (pub_tally p1) k s"
    using tick_parts [OF r d t] by blast
  have "remembers (p\<lparr>changed := False\<rparr>)" "pub_tally (p\<lparr>changed := False\<rparr>) = pub_tally p" using r by (simp_all add: remembers_def)
  note a = publish_all_said [OF this(1) d all, unfolded this(2)]
  have mixer: "said (pub_tally p') k (mixer_source (el_vmid e)) = said (pub_tally p1) k (mixer_source (el_vmid e))" if "e \<in> ?mixers" for e k
    by (rule same) (use that in auto)
  have E: "\<exists>q. publish_all w as (p\<lparr>changed := False\<rparr>) = (True, q) \<and> published w (pub_tally q) el (pub_tally p) (pub_tally p') k"
    if e: "mw_elements w = as @ el # bs" "is_mixer el" "emits w el"
  proof -
    obtain q where q: "publish_all w as (p\<lparr>changed := False\<rparr>) = (True, q)" "published w (pub_tally q) el (pub_tally p) (pub_tally p1) k"
      using a e by blast
    have "el \<in> ?mixers" using e by simp
    from published_same [OF q(2) mixer [OF this]] q(1) show ?thesis by blast
  qed
  have S: "said (pub_tally p') k (mixer_source v) = None"
    if none: "\<forall>el \<in> set (mw_elements w). el_vmid el = v \<longrightarrow> \<not> (is_mixer el \<and> emits w el)"
  proof (cases "v \<in> el_vmid ` ?mixers")
    case True
    then obtain e where e: "e \<in> set (mw_elements w)" "is_mixer e" "el_vmid e = v" by auto
    then have "\<not> emits w e" using none by blast
    then have "said (pub_tally p1) k (mixer_source (el_vmid e)) = None" using a e(1,2) by blast
    then show ?thesis using mixer [of e k] e by simp
  next
    case False
    then have "v \<notin> set (publies p')" using pub by blast
    then show ?thesis using r' unfolding remembers_def by blast
  qed
  have O: "said (pub_tally p') k s = said (pub_tally p) k s" if "s \<notin> range mixer_source"
  proof -
    have "said (pub_tally p') k s = said (pub_tally p1) k s" by (rule same) (use that in auto)
    moreover have "s \<notin> (\<lambda>el. mixer_source (el_vmid el)) ` ?mixers" using that by auto
    then have "said (pub_tally p1) k s = said (pub_tally p) k s" using a by blast
    ultimately show ?thesis by simp
  qed
  show ?thesis using r' E S O by blast
qed

text \<open>
  Three mixers: 301 is forced, 303 and 304 are not; the output of 303 shows in the picture of 301, that of 304 shows nowhere.
\<close>

definition demo_gate :: "int \<Rightarrow> string \<Rightarrow> element" where
  "demo_gate v out =
     \<lparr>el_vmid = v, el_type = ''mixer'',
      el_params = [(''tally_emit'', JBool True), (''tally_force'', JBool False), (''tally_level_base'', JList [JStr ''L''])],
      el_in = [], el_out = [\<lparr>op_shm = out, op_bus = [], op_label = ''PGM'', op_counts = False\<rparr>]\<rparr>"

definition demo_forced :: element where
  "demo_forced = \<lparr>el_vmid = 301, el_type = ''mixer'', el_params = [(''tally_emit'', JBool True), (''tally_level_base'', JList [JStr ''L''])],
                  el_in = [], el_out = []\<rparr>"

definition demo_mixer_world :: mixer_world where
  "demo_mixer_world =
     \<lparr>mw_elements = [demo_forced, demo_gate 303 ''cam1'', demo_gate 304 ''dark''],
      mw_levels = (\<lambda>v. []), mw_ports = (\<lambda>i. None),
      mw_state = (\<lambda>v. if v = 301
                      then Some [(''pgm'', JNum 0), (''pvw'', JNum 1), (''input_1'', JStr ''cam1''), (''input_2'', JStr ''cam2'')]
                      else Some [(''pgm'', JNum 0), (''pvw'', JNum 1), (''input_1'', JStr ''cam8''), (''input_2'', JStr ''cam9'')])\<rparr>"

definition demo_publisher :: publisher where
  "demo_publisher =
     \<lparr>pub_tally = snd (poser_tally ''mixer:301'' [((''cam3'', ''L''), ''red'')] False
                    (snd (poser_tally ''mixer:302'' [((''cam7'', ''L''), ''green'')] False tally0))),
      publies = [301, 302], etat_mixer = [], changed = False\<rparr>"

lemma demo_remembers: "remembers demo_publisher"
proof -
  have s: "mixer_source 301 = ''mixer:301''" "mixer_source 302 = ''mixer:302''" by code_simp+
  have "par_source (pub_tally demo_publisher) = [((''cam7'', ''L''), [(''mixer:302'', ''green'')]), ((''cam3'', ''L''), [(''mixer:301'', ''red'')])]"
    by code_simp
  then have "said (pub_tally demo_publisher) k (mixer_source v) \<noteq> None \<Longrightarrow> mixer_source v = mixer_source 301 \<or> mixer_source v = mixer_source 302" for v k
    unfolding said_def par_at_def s by (auto split: if_splits)
  then show ?thesis unfolding remembers_def by (fastforce simp: demo_publisher_def)
qed

theorem mixers_state_their_picture_witness:
  "\<exists>p'. mixer_publisher_tick demo_mixer_world demo_publisher = (True, p') \<and>
     said (pub_tally p') (''cam7'', ''L'') (mixer_source 302) = None \<and>
     said (pub_tally p') (''cam9'', ''L'') (mixer_source 303) = Some ''green'' \<and>
     said (pub_tally p') (''cam9'', ''L'') (mixer_source 304) = None"
proof -
  obtain p' where t: "mixer_publisher_tick demo_mixer_world demo_publisher = (True, p')"
  proof -
    have "fst (mixer_publisher_tick demo_mixer_world demo_publisher)" by code_simp
    then show thesis using that by (metis prod.collapse)
  qed
  have d: "distinct (map el_vmid (mw_elements demo_mixer_world))" by code_simp
  note c = mixers_state_their_picture [OF demo_remembers d t]
  have gone: "said (pub_tally p') (''cam7'', ''L'') (mixer_source 302) = None"
    using c [where v = 302 and k = "(''cam7'', ''L'')"] by (auto simp: demo_mixer_world_def demo_forced_def demo_gate_def)
  let ?k = "(''cam9'', ''L'')" and ?q = "\<lambda>els. publish_all demo_mixer_world els (demo_publisher\<lparr>changed := False\<rparr>)"
  have open3: "fst (?q [demo_forced])" "sortie_a_l_antenne (mw_ports demo_mixer_world) (demo_gate 303 ''cam1'') (mixer_levels demo_mixer_world (demo_gate 303 ''cam1'')) (pub_tally (snd (?q [demo_forced])))"
    by code_simp+
  have shut4: "fst (?q [demo_forced, demo_gate 303 ''cam1''])" "\<not> sortie_a_l_antenne (mw_ports demo_mixer_world) (demo_gate 304 ''dark'')
      (mixer_levels demo_mixer_world (demo_gate 304 ''dark'')) (pub_tally (snd (?q [demo_forced, demo_gate 303 ''cam1''])))"
    by code_simp+
  have el: "is_mixer (demo_gate 303 ''cam1'') \<and> emits demo_mixer_world (demo_gate 303 ''cam1'')" "is_mixer (demo_gate 304 ''dark'') \<and> emits demo_mixer_world (demo_gate 304 ''dark'')"
    "\<not> tally_force (demo_gate 304 ''dark'')" "el_vmid (demo_gate v s) = v" for v s
    by (code_simp, code_simp, code_simp, simp add: demo_gate_def)
  have st: "mw_state demo_mixer_world 303 = mw_state demo_mixer_world 304" "\<exists>s. mw_state demo_mixer_world 303 = Some s"
    by (simp_all add: demo_mixer_world_def)
  have fl: "bus_flows (the (mw_state demo_mixer_world 303)) ''pgm'' = Some [''cam8'']" "bus_flows (the (mw_state demo_mixer_world 303)) ''pvw'' = Some [''cam9'']"
    by code_simp+
  have says: "mixer_says (mw_ports demo_mixer_world) (demo_gate 303 ''cam1'') (mixer_levels demo_mixer_world (demo_gate 303 ''cam1'')) [''cam8''] [''cam9''] ?k = ''green''"
    by code_simp
  have "mw_elements demo_mixer_world = [demo_forced] @ demo_gate 303 ''cam1'' # [demo_gate 304 ''dark'']"
    "mw_elements demo_mixer_world = [demo_forced, demo_gate 303 ''cam1''] @ demo_gate 304 ''dark'' # []"
    by (simp_all add: demo_mixer_world_def)
  note c3 = c [where k = ?k and v = 302, THEN conjunct2, THEN conjunct1, rule_format, OF conjI, OF this(1) el(1)]
    and c4 = c [where k = ?k and v = 302, THEN conjunct2, THEN conjunct1, rule_format, OF conjI, OF this(2) el(2)]
  obtain q3 where "?q [demo_forced] = (True, q3)" "published demo_mixer_world (pub_tally q3) (demo_gate 303 ''cam1'') (pub_tally demo_publisher) (pub_tally p') ?k"
    using c3 by blast
  then have "said (pub_tally p') ?k (mixer_source 303) = Some ''green''"
    using open3(2) st(2) fl says by (auto simp: published_def el(4) Let_def off_def)
  moreover obtain q4 where "?q [demo_forced, demo_gate 303 ''cam1''] = (True, q4)"
    "published demo_mixer_world (pub_tally q4) (demo_gate 304 ''dark'') (pub_tally demo_publisher) (pub_tally p') ?k"
    using c4 by blast
  then have "said (pub_tally p') ?k (mixer_source 304) = None"
    using shut4(2) st fl el(3) by (auto simp: published_def el(4) Let_def)
  ultimately show ?thesis using t gone by blast
qed

end
