(* ===== verification/Tally_Air.thy ===== *)
theory Tally_Air
  imports Tally_Properties
begin

text \<open>
  The propagation seen from outside, the state of a turn of the distributor, and the agreement of its two readers.
\<close>

subsection \<open>Propagation\<close>

lemma departs_traced:
  "\<forall>v \<in> set (departs par_shm etat). traced (amonts par_shm ctrl) (lit par_shm etat) v"
proof
  fix v assume "v \<in> set (departs par_shm etat)"
  moreover obtain s n c p where "v = (s, n, c, p)" by (cases v)
  ultimately show "traced (amonts par_shm ctrl) (lit par_shm etat) v" by (simp add: departs_lit traced_def)
qed

lemma propager_grounded:
  "propager etat par_shm ctrl = Some aj \<Longrightarrow> grounded (amonts par_shm ctrl) (lit par_shm etat) etat aj"
  unfolding propager_def by (erule propager_loop_sound [OF _ departs_traced]) (auto simp: grounded_def lit_def)

text \<open>
  C31. A colour the propagation deduces for a flow on a level is the colour, on that level, of a flow on air of which it is an input: it
  contributes to it in at most twelve steps; and the flow had no colour of its own on that level.
\<close>

theorem propagation_sound:
  assumes p: "propager etat par_shm ctrl = Some aj" and k: "map_of aj (s, n) = Some c"
  shows "colour_at etat (s, n) = off \<and>
    (\<exists>r d. lit par_shm etat r n c \<and> 0 < d \<and> d \<le> profondeur_max \<and> (r, s) \<in> contributes (amonts par_shm ctrl) ^^ d)"
  using propager_grounded [OF p] k by (simp add: grounded_def)

text \<open>
  C32. When no chain of contributions from a flow on air is longer than twelve steps, the propagation colours exactly the flows without
  a colour of their own that contribute, in however many steps, to a flow on air.
\<close>

theorem propagation_complete:
  assumes p: "propager etat par_shm ctrl = Some aj"
    and short: "\<And>r n c s d. lit par_shm etat r n c \<Longrightarrow> (r, s) \<in> contributes (amonts par_shm ctrl) ^^ d \<Longrightarrow> d \<le> profondeur_max"
  shows "map_of aj (s, n) \<noteq> None \<longleftrightarrow> colour_at etat (s, n) = off \<and>
    (\<exists>r c d. lit par_shm etat r n c \<and> 0 < d \<and> (r, s) \<in> contributes (amonts par_shm ctrl) ^^ d)"
proof
  assume "map_of aj (s, n) \<noteq> None"
  then show "colour_at etat (s, n) = off \<and>
      (\<exists>r c d. lit par_shm etat r n c \<and> 0 < d \<and> (r, s) \<in> contributes (amonts par_shm ctrl) ^^ d)"
    using propager_grounded [OF p] unfolding grounded_def by blast
next
  let ?am = "amonts par_shm ctrl"
  assume r: "colour_at etat (s, n) = off \<and> (\<exists>r c d. lit par_shm etat r n c \<and> 0 < d \<and> (r, s) \<in> contributes ?am ^^ d)"
  then obtain r c d where r: "lit par_shm etat r n c" "0 < d" "(r, s) \<in> contributes ?am ^^ d" "colour_at etat (s, n) = off" by blast
  have "\<exists>vus'. closing ?am etat [] vus' aj \<and> (\<forall>k \<in> {(r, n)}. pending ?am [] vus' k)"
  proof (rule propager_loop_complete [OF p [unfolded propager_def] departs_traced])
    have "(r, n, c, 0) \<in> set (departs par_shm etat)" using r(1) by (simp add: departs_lit)
    then show "\<forall>k \<in> {(r, n)}. pending ?am (departs par_shm etat) {} k" unfolding pending_def by auto
  qed (use short in \<open>auto simp: closing_def colour_at_def lit_def\<close>)
  then obtain vus where "closing ?am etat [] vus aj" "pending ?am [] vus (r, n)" by blast
  from closed_reach [OF this r(3)] r(2,4) show "map_of aj (s, n) \<noteq> None" by (simp add: covered_def)
qed

text \<open>A wall shows a delay of the mixer's output; the mixer has a camera on its programme and another one in preparation.\<close>

definition demo_mixer :: element where
  "demo_mixer = \<lparr>el_vmid = 301, el_type = ''mixer'', el_params = [(''input_1'', JStr ''cam1''), (''input_2'', JStr ''cam2'')],
     el_in = [], el_out = [\<lparr>op_shm = ''mix_pgm'', op_bus = [], op_label = ''PGM'', op_counts = False\<rparr>]\<rparr>"

definition demo_delay :: element where
  "demo_delay = \<lparr>el_vmid = 302, el_type = ''delay'', el_params = [(''input_1'', JStr ''mix_pgm'')],
     el_in = [\<lparr>ip_essence = ''video'', ip_field = ''input_1'', ip_slot = SNum 0\<rparr>],
     el_out = [\<lparr>op_shm = ''delayed'', op_bus = [], op_label = [], op_counts = False\<rparr>]\<rparr>"

definition demo_plant :: plant where
  "demo_plant = [(''mix_pgm'', demo_mixer), (''delayed'', demo_delay)]"

definition demo_ctrl :: "int \<Rightarrow> params option" where
  "demo_ctrl v = (if v = 301 then Some [(''pgm'', JNum 0), (''pvw'', JNum 1)] else None)"

definition demo_state :: "(key \<times> string) list" where
  "demo_state = [((''delayed'', ''L''), ''red'')]"

lemma demo_propager:
  "propager demo_state demo_plant demo_ctrl = Some [((''mix_pgm'', ''L''), ''red''), ((''cam1'', ''L''), ''red'')]"
  by code_simp

theorem propagation_sound_witness:
  "propager demo_state demo_plant demo_ctrl = Some [((''mix_pgm'', ''L''), ''red''), ((''cam1'', ''L''), ''red'')] \<and>
   (\<exists>r d. lit demo_plant demo_state r ''L'' ''red'' \<and> 0 < d \<and> d \<le> profondeur_max \<and>
      (r, ''cam1'') \<in> contributes (amonts demo_plant demo_ctrl) ^^ d)"
  using propagation_sound [OF demo_propager, of "''cam1''" "''L''" "''red''"] demo_propager by simp

text \<open>A rank that falls along every contribution bounds the chains.\<close>

lemma ranked_chain:
  fixes rank :: "string \<Rightarrow> nat"
  assumes f: "\<And>x y. (x, y) \<in> R \<Longrightarrow> rank y < rank x"
  shows "(r, s) \<in> R ^^ d \<Longrightarrow> d + rank s \<le> rank r"
proof (induction d arbitrary: s)
  case (Suc d)
  then obtain x where "(r, x) \<in> R ^^ d" "(x, s) \<in> R" by auto
  then show ?case using Suc.IH f by fastforce
qed simp

lemma demo_amonts:
  "amonts demo_plant demo_ctrl x =
     (if x = ''mix_pgm'' then Some [''cam1''] else if x = ''delayed'' then Some [''mix_pgm''] else Some [])"
proof -
  have "amonts demo_plant demo_ctrl ''mix_pgm'' = Some [''cam1'']" "amonts demo_plant demo_ctrl ''delayed'' = Some [''mix_pgm'']"
    by code_simp+
  moreover have "x \<noteq> ''mix_pgm'' \<Longrightarrow> x \<noteq> ''delayed'' \<Longrightarrow> amonts demo_plant demo_ctrl x = Some []"
    by (simp add: amonts_def demo_plant_def)
  ultimately show ?thesis by auto
qed

theorem propagation_complete_witness:
  "map_of (the (propager demo_state demo_plant demo_ctrl)) (''cam1'', ''L'') \<noteq> None \<and>
   (map_of (the (propager demo_state demo_plant demo_ctrl)) (''cam2'', ''L'') = None)
     = (\<not> (colour_at demo_state (''cam2'', ''L'') = off \<and>
         (\<exists>r c d. lit demo_plant demo_state r ''L'' c \<and> 0 < d \<and> (r, ''cam2'') \<in> contributes (amonts demo_plant demo_ctrl) ^^ d)))"
proof -
  have short: "d \<le> profondeur_max" if "(r, s) \<in> contributes (amonts demo_plant demo_ctrl) ^^ d" for r s :: string and d
  proof -
    have "d + (if s = ''delayed'' then 2 else if s = ''mix_pgm'' then 1 else 0)
        \<le> (if r = ''delayed'' then 2 else if r = ''mix_pgm'' then 1 else 0)"
      by (rule ranked_chain [OF _ that, of "\<lambda>x. if x = ''delayed'' then 2 else if x = ''mix_pgm'' then 1 else 0"])
        (auto simp: contributes_def demo_amonts split: if_splits)
    then show ?thesis by (auto simp: profondeur_max_def split: if_splits)
  qed
  show ?thesis
    using propagation_complete [OF demo_propager, of "''cam2''" "''L''"] short demo_propager by auto
qed

subsection \<open>Two limits of the walk\<close>

definition demo_udc :: "string list \<Rightarrow> element" where
  "demo_udc ins = \<lparr>el_vmid = 0, el_type = ''udc'',
     el_params = map (\<lambda>x. (x, JStr x)) ins,
     el_in = map (\<lambda>x. \<lparr>ip_essence = ''video'', ip_field = x, ip_slot = SNone\<rparr>) ins, el_out = []\<rparr>"

definition long_way :: plant where
  "long_way = map (\<lambda>(x, ins). (x, demo_udc ins))
     [(''out'', [''x'', ''b1'']), (''b1'', [''b2'']), (''b2'', [''b3'']), (''b3'', [''b4'']), (''b4'', [''b5'']), (''b5'', [''b6'']),
      (''b6'', [''b7'']), (''b7'', [''b8'']), (''b8'', [''b9'']), (''b9'', [''b10'']), (''b10'', [''x'']), (''x'', [''y'']), (''y'', [''cam''])]"

text \<open>
  A camera three steps from the output on air stays dark: the walk takes the longer way first, so that \<open>x\<close> is visited at depth 11 and
  what follows it falls below the cap; the short way then finds \<open>x\<close> already visited.
\<close>

theorem near_camera_missed:
  "map_of (the (propager [((''out'', ''L''), ''red'')] long_way (\<lambda>v. None))) (''cam'', ''L'') = None \<and>
   amonts long_way (\<lambda>v. None) ''out'' = Some [''x'', ''b1''] \<and> amonts long_way (\<lambda>v. None) ''x'' = Some [''y''] \<and>
   amonts long_way (\<lambda>v. None) ''y'' = Some [''cam'']"
  by (intro conjI) code_simp+

text \<open>
  A camera that feeds a red and a green output of one level gets the colour of the one visited first, not their sum.
\<close>

theorem one_colour_only:
  "map_of (the (propager [((''o1'', ''L''), ''red''), ((''o2'', ''L''), ''green'')]
      [(''o1'', demo_udc [''cam'']), (''o2'', demo_udc [''cam''])] (\<lambda>v. None))) (''cam'', ''L'') = Some ''green'' \<and>
   cumuler ''red'' ''green'' = amber"
  by (intro conjI) code_simp+

text \<open>\<open>poser_cases\<close> changes what is displayed without the wake-up that \<open>attendre_changement\<close> promises.\<close>

lemma poser_cases_sleeps:
  "dirty (snd (poser_cases src cs t)) = dirty t \<and> fst (poser_cases ''tsl:1'' [((''cam'', ''L''), ''red'')] tally0)"
proof
  show "dirty (snd (poser_cases src cs t)) = dirty t" by (simp add: poser_cases_def poser_cases_sous_verrou_def)
  show "fst (poser_cases ''tsl:1'' [((''cam'', ''L''), ''red'')] tally0)" by code_simp
qed

end
