(* ===== verification/Tally_Readers.thy ===== *)
theory Tally_Readers
  imports Tally_Air
begin

text \<open>
  Two parts of the program read the tally of a flow with what is deduced and inherited: the distributor, which builds the state of a turn, and
  \<open>flux_tally\<close>, for the consoles that follow the video.  They agree on a flow of the turn whose container declares no \<open>tally_follows\<close>, and
  not in general: two examples are at the end of the section.
\<close>

subsection \<open>Keys\<close>

lemma poser_case_keys:
  assumes "distinct (map fst (par_source t))" and "distinct (map fst (t_state t))"
  shows "distinct (map fst (par_source (snd (poser_case src kc (ch, t))))) \<and>
    distinct (map fst (t_state (snd (poser_case src kc (ch, t)))))"
  using assms by (cases kc) (simp add: poser_case.simps Let_def distinct_dict_put distinct_dict_del)

lemma cases_keys:
  "distinct (map fst (par_source t)) \<Longrightarrow> distinct (map fst (t_state t)) \<Longrightarrow>
   distinct (map fst (par_source (snd (fold (poser_case src) cs (ch, t))))) \<and>
   distinct (map fst (t_state (snd (fold (poser_case src) cs (ch, t)))))"
proof (induction cs arbitrary: ch t)
  case (Cons kc cs)
  obtain ch1 t1 where p: "poser_case src kc (ch, t) = (ch1, t1)" by fastforce
  then show ?case using Cons.IH [of t1 ch1] poser_case_keys [OF Cons.prems, of src kc ch] by simp
qed simp

lemma steps_keys:
  "distinct (map fst (par_source t)) \<Longrightarrow> distinct (map fst (t_state t)) \<Longrightarrow>
   distinct (map fst (par_source (fold tally_step as t))) \<and> distinct (map fst (t_state (fold tally_step as t)))"
proof (induction as arbitrary: t)
  case (Cons a as)
  have "distinct (map fst (par_source (tally_step a t))) \<and> distinct (map fst (t_state (tally_step a t)))"
    using Cons.prems cases_keys [OF Cons.prems]
    by (cases a) (simp_all add: tally_step.simps poser_cases_sous_verrou_def signaler_changement_def acquitter_changement_def poser_deduit_def)
  then show ?case using Cons.IH by simp
qed simp

subsection \<open>Defaults and followers\<close>

lemma map_of_set_defaults:
  "map_of (set_defaults ded st) k = (case map_of st k of None \<Rightarrow> map_of ded k | Some c \<Rightarrow> Some c)"
proof (induction ded arbitrary: st)
  case Nil
  then show ?case by (simp add: set_defaults_def split: option.splits)
next
  case (Cons p ded)
  then show ?case by (cases p) (auto simp: set_defaults_def map_add_def split: option.splits)
qed

lemma distinct_set_defaults: "distinct (map fst st) \<Longrightarrow> distinct (map fst (set_defaults ded st))"
proof (induction ded arbitrary: st)
  case (Cons p ded)
  obtain k c where p: "p = (k, c)" by fastforce
  have "distinct (map fst (if map_of st k = None then st @ [(k, c)] else st))"
    using Cons.prems by (auto simp: map_of_eq_None_iff)
  from Cons.IH [OF this] show ?case unfolding p set_defaults_def by (simp only: fold_simps prod.case)
qed (simp add: set_defaults_def)

definition shown :: "(key \<times> string) list \<Rightarrow> bool" where
  "shown st \<longleftrightarrow> (\<forall>k. colour_at st k \<noteq> [])"

lemma followers_of:
  assumes "distinct (map fst su)" and "shown st"
  shows "shown (fold (\<lambda>(f, s) st. if s = shm then dict_put (f, l) (cumuler (colour_at st (f, l)) c) st else st) su st) \<and>
    colour_at (fold (\<lambda>(f, s) st. if s = shm then dict_put (f, l) (cumuler (colour_at st (f, l)) c) st else st) su st) (u, n) =
     (if n = l \<and> map_of su u = Some shm then cumuler (colour_at st (u, n)) c else colour_at st (u, n))"
  using assms
proof (induction su arbitrary: st)
  case (Cons p su)
  obtain f s where p: "p = (f, s)" by fastforce
  let ?st = "if s = shm then dict_put (f, l) (cumuler (colour_at st (f, l)) c) st else st"
  have "shown ?st" using Cons.prems(2) by (simp add: shown_def)
  moreover have "map_of su f = None" using Cons.prems(1) p by (simp add: map_of_eq_None_iff)
  ultimately show ?case using Cons.IH [of ?st] Cons.prems(1) p by auto
qed simp

lemma inherit_one:
  assumes "distinct (map fst su)" and "shown st"
  shows "shown (inherit_from su ((s, l), c) st) \<and>
    colour_at (inherit_from su ((s, l), c) st) (u, n) =
      (if c \<noteq> off \<and> n = l \<and> map_of su u = Some s then cumuler (colour_at st (u, n)) c else colour_at st (u, n))"
proof (cases "c = off")
  case True
  then show ?thesis using assms(2) by (simp add: inherit_from_def)
next
  case False
  then have "inherit_from su ((s, l), c) st =
      fold (\<lambda>(f, s') st. if s' = s then dict_put (f, l) (cumuler (colour_at st (f, l)) c) st else st) su st"
    by (simp add: inherit_from_def)
  then show ?thesis using followers_of [OF assms, where shm = s and l = l and c = c and u = u and n = n] False by simp
qed

lemma inherit_all:
  assumes su: "distinct (map fst su)" and "shown st" and "distinct (map fst es)"
  shows "colour_at (fold (inherit_from su) es st) (u, n) =
     (case map_of su u of None \<Rightarrow> colour_at st (u, n)
      | Some s \<Rightarrow> if colour_at es (s, n) = off then colour_at st (u, n) else cumuler (colour_at st (u, n)) (colour_at es (s, n)))"
  using assms(2,3)
proof (induction es arbitrary: st)
  case Nil
  then show ?case by (simp add: colour_at_def split: option.splits)
next
  case (Cons e es)
  obtain s0 l0 c0 where e: "e = ((s0, l0), c0)" by (metis prod.collapse)
  let ?st = "inherit_from su e st"
  have one: "shown ?st" "colour_at ?st (u, n) =
      (if c0 \<noteq> off \<and> n = l0 \<and> map_of su u = Some s0 then cumuler (colour_at st (u, n)) c0 else colour_at st (u, n))"
    using inherit_one [OF su Cons.prems(1), of s0 l0 c0 u n] e by simp_all
  have "(s0, l0) \<notin> fst ` set es" using Cons.prems(2) e by simp
  then have new: "colour_at es (s0, l0) = off" by (simp add: colour_at_def map_of_eq_None_iff [THEN iffD2])
  have tail: "colour_at (e # es) k = (if k = (s0, l0) then c0 else colour_at es k)" for k
    by (simp add: colour_at_def e)
  show ?case
  proof (cases "map_of su u")
    case None
    then show ?thesis using Cons.IH [OF one(1)] Cons.prems(2) one(2) by simp
  next
    case (Some s)
    then show ?thesis using Cons.IH [OF one(1)] Cons.prems(2) one(2) new by (cases "(s, n) = (s0, l0)") (auto simp: tail)
  qed
qed

text \<open>A follower shows the sum of its own colour and that of the flow it follows, both before the turn's inheritance: one step.\<close>

lemma heriter_soeurs_exact:
  assumes "distinct (map fst su)" and "shown st" and "distinct (map fst st)"
  shows "colour_at (heriter_soeurs st su) (u, n) =
     (case map_of su u of None \<Rightarrow> colour_at st (u, n) | Some s \<Rightarrow> cumuler (colour_at st (u, n)) (colour_at st (s, n)))"
proof -
  have "colour_at st (u, n) \<noteq> []" using assms(2) by (simp add: shown_def)
  then show ?thesis using inherit_all [OF assms] by (auto simp: heriter_soeurs_def or_off_def split: option.splits)
qed

subsection \<open>The readers agree\<close>

lemma suiveurs_distinct:
  assumes "distinct (map fst declared)"
  shows "distinct (map fst (suiveurs_de declared parents suffixes))"
proof -
  let ?out = "[(shm, f). (shm, Some f) \<leftarrow> declared]"
  have sub: "fst ` set [(shm, f). (shm, Some f) \<leftarrow> ds] \<subseteq> fst ` set ds" for ds :: "(string \<times> string option) list"
    by (force split: option.splits)
  have "distinct (map fst ?out)"
    using assms
  proof (induction declared)
    case (Cons d ds)
    obtain x y where d: "d = (x, y)" by fastforce
    have "x \<notin> fst ` set ds" using Cons.prems d by simp
    then have "x \<notin> fst ` set [(shm, f). (shm, Some f) \<leftarrow> ds]" using sub [of ds] by (rule contra_subsetD [rotated])
    then show ?case using Cons d by (cases y) simp_all
  qed simp
  with sub have out: "distinct (map fst ?out) \<and> fst ` set ?out \<subseteq> fst ` set declared" by blast
  define g where "g = (\<lambda>shm. case parent_video_de parents (remdups (map fst declared @ map fst parents)) suffixes shm of
      None \<Rightarrow> [] | Some p \<Rightarrow> if p \<noteq> [] \<and> p \<noteq> shm then [p] else [])"
  have two: "distinct (map fst [(shm, p). shm \<leftarrow> xs, p \<leftarrow> g shm]) \<and> fst ` set [(shm, p). shm \<leftarrow> xs, p \<leftarrow> g shm] \<subseteq> set xs"
    if "distinct xs" for xs
    using that
  proof (induction xs)
    case (Cons x xs)
    have "g x = [] \<or> (\<exists>p. g x = [p])" by (auto simp: g_def split: option.splits)
    then show ?case using Cons by auto
  qed simp
  let ?free = "filter (\<lambda>s. s \<notin> fst ` set ?out) (remdups (map fst declared @ map fst parents))"
  let ?rest = "[(shm, p). shm \<leftarrow> ?free, p \<leftarrow> g shm]"
  have "distinct ?free" by simp
  note rest = two [OF this]
  have free: "set ?free \<inter> fst ` set ?out = {}" by auto
  have "distinct (map fst (?out @ ?rest))"
    unfolding map_append distinct_append set_map using out rest free by blast
  then show ?thesis unfolding suiveurs_de_def Let_def g_def .
qed

lemma base_colour:
  assumes ok: "tally_ok t" and g: "\<And>k c. map_of ded k = Some c \<Longrightarrow> colour_at (t_state t) k = off \<and> c \<noteq> [] \<and> c \<noteq> off"
  shows "colour_at (set_defaults ded (t_state t)) k = cumuler (colour_at (t_state t) k) (colour_at ded k)"
    and "colour_at (set_defaults ded (t_state t)) k \<noteq> []"
proof -
  have st: "map_of (t_state t) k = None \<or> (\<exists>c. map_of (t_state t) k = Some c \<and> c \<noteq> off \<and> c \<noteq> [])"
    using tally_okD [OF ok, of k] by (auto simp: Let_def)
  show "colour_at (set_defaults ded (t_state t)) k = cumuler (colour_at (t_state t) k) (colour_at ded k)"
  proof (cases "map_of (t_state t) k")
    case None
    then show ?thesis using g [of k] by (cases "map_of ded k") (auto simp: colour_at_def map_of_set_defaults or_off_def)
  next
    case (Some c)
    then have c: "c \<noteq> off" "c \<noteq> []" using st by auto
    then have "map_of ded k = None" using g [of k] Some by (cases "map_of ded k") (auto simp: colour_at_def)
    then show ?thesis using Some c by (simp add: colour_at_def map_of_set_defaults or_off_def)
  qed
  then show "colour_at (set_defaults ded (t_state t)) k \<noteq> []" by simp
qed

text \<open>The follower of a flow in the turn: the one its container declares, else the parent video of the page of the labels.\<close>

lemma map_of_one:
  assumes "\<And>x. g x = [] \<or> (\<exists>p. g x = [p])"
  shows "map_of [(x, p). x \<leftarrow> xs, p \<leftarrow> g x] s = (if s \<in> set xs then (case g s of [] \<Rightarrow> None | p # _ \<Rightarrow> Some p) else None)"
proof (induction xs)
  case (Cons x xs)
  then show ?case using assms [of x] by (auto split: list.splits)
qed simp

lemma suffix_base_cong: "set known = set known' \<Longrightarrow> parent_video_de ps known sf s = parent_video_de ps known' sf s"
  unfolding parent_video_de_def by (simp only:)

lemma suiveurs_free:
  assumes free: "\<And>f. (s, Some f) \<notin> set declared" and known: "s \<in> set (map fst declared @ map fst parents)"
    and same: "set known' = set (map fst declared @ map fst parents)"
  shows "map_of (suiveurs_de declared parents suffixes) s =
    (case parent_video_de parents known' suffixes s of None \<Rightarrow> None | Some p \<Rightarrow> if p \<noteq> [] \<and> p \<noteq> s then Some p else None)"
proof -
  let ?known = "remdups (map fst declared @ map fst parents)" and ?out = "[(shm, f). (shm, Some f) \<leftarrow> declared]"
  let ?g = "\<lambda>shm. case parent_video_de parents ?known suffixes shm of None \<Rightarrow> [] | Some p \<Rightarrow> if p \<noteq> [] \<and> p \<noteq> shm then [p] else []"
  have out: "s \<notin> fst ` set ?out" using free by (auto split: option.splits)
  have one: "?g x = [] \<or> (\<exists>p. ?g x = [p])" for x by (auto split: option.splits)
  have eq: "parent_video_de parents ?known suffixes s = parent_video_de parents known' suffixes s"
    by (rule suffix_base_cong) (use same in auto)
  have "s \<in> set (filter (\<lambda>s. s \<notin> fst ` set ?out) ?known)" using known out by auto
  then have "map_of [(shm, p). shm \<leftarrow> filter (\<lambda>s. s \<notin> fst ` set ?out) ?known, p \<leftarrow> ?g shm] s = (case ?g s of [] \<Rightarrow> None | p # _ \<Rightarrow> Some p)"
    unfolding map_of_one [OF one] by (rule if_P)
  moreover have "map_of ?out s = None" using out by (simp add: map_of_eq_None_iff)
  ultimately show ?thesis unfolding suiveurs_de_def Let_def map_of_append map_add_def eq by (auto split: option.splits)
qed

lemma producers_distinct: "distinct (map fst (producers els))"
proof -
  have "distinct (map fst (fold (\<lambda>(shm, el) d. if map_of d shm = None then d @ [(shm, el)] else d) ps d))"
    if "distinct (map fst d)" for ps and d :: "(string \<times> element) list"
    using that
  proof (induction ps arbitrary: d)
    case (Cons q ps)
    obtain x y where q: "q = (x, y)" by fastforce
    have "distinct (map fst (if map_of d x = None then d @ [(x, y)] else d))" using Cons.prems by (auto simp: map_of_eq_None_iff)
    from Cons.IH [OF this] show ?case by (simp add: q)
  qed simp
  from this [of "[]"] show ?thesis by (simp add: producers_def)
qed

text \<open>Read with the follower of the turn, the colours are those of the turn.\<close>

lemma follower_read:
  assumes t: "t = fold tally_step acts tally0" and w: "turn_state w t = (st, t')"
    and p: "propager (t_state t) (producers (tw_elements w)) (tw_state w) \<noteq> None"
    and su: "su = suiveurs_de (tw_declared w) (tw_parents w) (tw_suffixes w)"
    and d: "distinct (map fst (tw_declared w))"
    and ref: "resolved ports s = s" "\<And>q. map_of su s = Some q \<Longrightarrow> resolved ports q = q \<and> q \<noteq> []"
  shows "flux_tally ports s l (map_of su s) t' = colour_at st (s, l)"
proof -
  obtain ded where ded: "propager (t_state t) (producers (tw_elements w)) (tw_state w) = Some ded" using p by blast
  have st: "st = heriter_soeurs (set_defaults ded (t_state t)) su" "t_state t' = t_state t" "deduit t' = ded"
    using w ded by (auto simp: turn_state_def etat_brut_def su poser_deduit_def Let_def)
  have ok: "tally_ok t" unfolding t by (rule tally_steps_ok [OF tally0_ok])
  have keys: "distinct (map fst (t_state t))" using steps_keys [of tally0 acts] t by (simp add: tally0_def)
  have lamp: "c \<noteq> [] \<and> c \<noteq> off" if "lit par (t_state t) r n c" for par r n c
  proof -
    have "map_of (t_state t) (r, n) = Some c" using that keys by (simp add: lit_def)
    then show ?thesis using tally_okD [OF ok, of "(r, n)"] by (auto simp: Let_def split: if_splits)
  qed
  have g: "colour_at (t_state t) k = off \<and> c \<noteq> [] \<and> c \<noteq> off" if "map_of ded k = Some c" for k c
    using propager_grounded [OF ded] that lamp unfolding grounded_def by (cases k) blast
  let ?base = "set_defaults ded (t_state t)"
  note base = base_colour [OF ok g]
  have "colour_at st (s, l) = (case map_of su s of None \<Rightarrow> colour_at ?base (s, l)
      | Some q \<Rightarrow> cumuler (colour_at ?base (s, l)) (colour_at ?base (q, l)))"
    unfolding st(1)
    by (rule heriter_soeurs_exact) (use d su suiveurs_distinct keys distinct_set_defaults base(2) in \<open>auto simp: shown_def\<close>)
  then show ?thesis
    using ref base(1) base(2) [where k = "(s, l)"] by (auto simp: flux_tally_def st(2,3) Let_def or_off_def split: option.splits)
qed

text \<open>
  C34. After a turn whose propagation succeeds, \<open>flux_tally\<close> called with the parent its documentation names (\<open>parent_video_de\<close>, on the flows known since that turn and
  the labels) answers the colour the distributor used in the turn: received, deduced and inherited, each counted once; for every flow that the turn knows and whose
  container declares no \<open>tally_follows\<close>, when the flow and its parent are written as the names they resolve to (not
  as the reference of a port, without blanks around).
\<close>

theorem readers_agree:
  assumes t: "t = fold tally_step acts tally0" and w: "turn_state w t = (st, t')"
    and p: "propager (t_state t) (producers (tw_elements w)) (tw_state w) \<noteq> None"
    and d: "map fst (tw_declared w) = map fst (producers (tw_elements w))"
    and known: "s \<in> set (map fst (tw_declared w) @ map fst (tw_parents w))" and free: "\<forall>f. (s, Some f) \<notin> set (tw_declared w)"
    and parent: "parent = parent_video_de (tw_parents w) (connus t' @ map fst (tw_parents w)) (tw_suffixes w) s"
    and ref: "resolved ports s = s" "\<forall>q. parent = Some q \<longrightarrow> resolved ports q = q"
  shows "flux_tally ports s l parent t' = colour_at st (s, l)"
proof -
  let ?su = "suiveurs_de (tw_declared w) (tw_parents w) (tw_suffixes w)"
  have "connus t' = map fst (producers (tw_elements w))"
    using w p by (auto simp: turn_state_def etat_brut_def poser_deduit_def Let_def)
  then have su: "map_of ?su s = (case parent of None \<Rightarrow> None | Some p \<Rightarrow> if p \<noteq> [] \<and> p \<noteq> s then Some p else None)"
    unfolding parent by (intro suiveurs_free) (use free known d in auto)
  have "distinct (map fst (tw_declared w))" unfolding d by (rule producers_distinct)
  then have "flux_tally ports s l (map_of ?su s) t' = colour_at st (s, l)"
    by (intro follower_read [OF t w p refl]) (use ref su in \<open>auto split: option.splits if_splits\<close>)
  moreover have "flux_tally ports s l (map_of ?su s) t' = flux_tally ports s l parent t'"
    unfolding su using ref(1) by (auto simp: flux_tally_def Let_def split: option.splits)
  ultimately show ?thesis by simp
qed

text \<open>A microphone attached to the first camera of the demonstration is lit with it.\<close>

definition demo_turn :: turn_world where
  "demo_turn = \<lparr>tw_elements = [demo_mixer, demo_delay], tw_state = demo_ctrl,
     tw_declared = [(''mix_pgm'', None), (''delayed'', None)], tw_parents = [(''micro'', ''cam1'')], tw_suffixes = [''_audio_0'']\<rparr>"

definition demo_air :: tally where
  "demo_air = fold tally_step [Cases ''tsl:1'' [((''delayed'', ''L''), ''red'')]] tally0"

theorem readers_agree_witness:
  "flux_tally (\<lambda>i. None) ''micro'' ''L'' (Some ''cam1'') (snd (turn_state demo_turn demo_air))
     = colour_at (fst (turn_state demo_turn demo_air)) (''micro'', ''L'') \<and>
   colour_at (fst (turn_state demo_turn demo_air)) (''micro'', ''L'') = ''red''"
proof
  let ?t' = "snd (turn_state demo_turn demo_air)"
  have pv: "parent_video_de (tw_parents demo_turn) (connus ?t' @ map fst (tw_parents demo_turn)) (tw_suffixes demo_turn) ''micro'' = Some ''cam1''"
    by code_simp
  have p: "propager (t_state demo_air) (producers (tw_elements demo_turn)) (tw_state demo_turn) \<noteq> None" by code_simp
  have d: "map fst (tw_declared demo_turn) = map fst (producers (tw_elements demo_turn))" by code_simp
  have r: "resolved (\<lambda>i. None) ''micro'' = ''micro''" "resolved (\<lambda>i. None) ''cam1'' = ''cam1''" by code_simp+
  show "flux_tally (\<lambda>i. None) ''micro'' ''L'' (Some ''cam1'') ?t' = colour_at (fst (turn_state demo_turn demo_air)) (''micro'', ''L'')"
    by (rule readers_agree [OF demo_air_def prod.collapse [symmetric] p d _ _ pv [symmetric]]) (auto simp: demo_turn_def r)
  show "colour_at (fst (turn_state demo_turn demo_air)) (''micro'', ''L'') = ''red''" by code_simp
qed

text \<open>
  Where they do not.  The overlay of a player declares that it follows a camera (\<open>tally_follows\<close>), and the label of its flow names another parent: the distributor
  shows the colour of the camera, \<open>flux_tally\<close> that of the parent.
\<close>

definition declared_turn :: turn_world where
  "declared_turn = demo_turn\<lparr>tw_declared := [(''mix_pgm'', None), (''delayed'', Some ''cam7'')], tw_parents := [(''delayed'', ''cam9'')]\<rparr>"

theorem declared_follower_not_read:
  "let t = fold tally_step [Cases ''tsl:1'' [((''cam7'', ''L''), ''red'')]] tally0; (st, t') = turn_state declared_turn t;
       parent = parent_video_de (tw_parents declared_turn) (connus t' @ map fst (tw_parents declared_turn)) (tw_suffixes declared_turn) ''delayed''
   in colour_at st (''delayed'', ''L'') = ''red'' \<and> flux_tally (\<lambda>i. None) ''delayed'' ''L'' parent t' = off"
  by code_simp

text \<open>
  And a parent written as the reference of a port: \<open>flux_tally\<close> resolves it, the distributor looks for a flow of that name and finds none.
\<close>

definition port_turn :: turn_world where
  "port_turn = demo_turn\<lparr>tw_parents := [(''micro'', ''port:5'')]\<rparr>"

theorem port_parent_not_followed:
  "let t = fold tally_step [Cases ''tsl:1'' [((''cam1'', ''L''), ''red'')]] tally0; (st, t') = turn_state port_turn t;
       parent = parent_video_de (tw_parents port_turn) (connus t' @ map fst (tw_parents port_turn)) (tw_suffixes port_turn) ''micro'';
       ports = (\<lambda>i. if i = 5 then Some \<lparr>pt_kind = ''dest'', b_internal = ''cam1'', b_port = None, b_shm = []\<rparr> else None)
   in colour_at st (''micro'', ''L'') = off \<and> flux_tally ports ''micro'' ''L'' parent t' = ''red''"
  by code_simp

subsection \<open>Windows, carriers, packets\<close>

text \<open>
  A window that wants a colour on some level, or the text, is always told both slots: a flow without a carrier or without a colour is told off, never
  skipped.
\<close>

lemma window_told:
  assumes "window_updates en st ps i fc = Some us"
    and "veut_texte_pousse fc ps \<or> ((truthy (pget fc ''tally_red'') \<or> truthy (pget fc ''tally_green'')) \<and> asked_levels fc ''tally_level'' (te_proj en) \<noteq> [])"
  shows "\<exists>l r x. us = [Update i ''L'' l x, Update i ''R'' r x] \<and>
    (l = ''red'' \<longleftrightarrow> truthy (pget fc ''tally_red'') \<and>
       red_on (level_colour st (te_ports en) (te_reg en) (asked_levels fc ''tally_level'' (te_proj en)) (bare_shm (text_of (pget fc ''path''))))) \<and>
    (r = ''green'' \<longleftrightarrow> truthy (pget fc ''tally_green'') \<and>
       green_on (level_colour st (te_ports en) (te_reg en) (asked_levels fc ''tally_level'' (te_proj en)) (bare_shm (text_of (pget fc ''path'')))))"
  using assms by (auto simp: window_updates_def Let_def off_def split: if_splits option.splits)

text \<open>
  The thread of the distributor ends on a label column that is not a number in one window of one wall.
\<close>

lemma bad_column_ends_turn:
  "wall_updates en st [(''tsl_mode'', JStr ''central''), (''flux_config'', JList [JDict
     [(''tally_red'', JBool True), (''tally_level'', JStr ''L''), (''label_col'', JStr ''name'')]])] = None"
proof -
  have c: "json_int (JStr ''name'') = None" by code_simp
  show ?thesis
    by (simp add: wall_updates_def tsl_direct_def window_updates_def asked_levels_def pget_def py_or_def Let_def c del: json_int.simps)
qed

lemma map_of_fold_retirer: "map_of (fold retirer_porteur ks reg) c = (if c \<in> set ks then None else map_of reg c)"
  by (induction ks arbitrary: reg) (auto simp: retirer_porteur_def)

lemma proj_cle_ne [simp]: "proj_cle pr \<noteq> []"
  by (simp add: proj_cle_def)

lemma keys_fold_enregistrer:
  "map_of (fold (\<lambda>pr. enregistrer_porteur (proj_cle pr) (f pr) (g pr)) prs reg) c \<noteq> None
     \<longleftrightarrow> c \<in> proj_cle ` set prs \<or> map_of reg c \<noteq> None"
proof (induction prs arbitrary: reg)
  case (Cons pr prs)
  show ?case unfolding fold_simps Cons.IH by (auto simp: enregistrer_porteur_def)
qed simp

lemma proj_cle_prefix: "take 5 (proj_cle pr) = ''proj:''"
  by (simp add: proj_cle_def)

text \<open>After a refresh the carriers of projects are those of the projects with levels; the carriers of the protocols are untouched.\<close>

lemma projects_refreshed:
  "map_of (rafraichir_porteurs_projets prs reg) c \<noteq> None \<longleftrightarrow>
     (if take 5 c = ''proj:'' then c \<in> proj_cle ` set (filter has_levels prs) else map_of reg c \<noteq> None)"
proof -
  define L where "L = proj_cle ` set (filter has_levels prs)"
  define reg1 where "reg1 = fold (\<lambda>pr. enregistrer_porteur (proj_cle pr) (the (pr_levels pr))
      (if pr_name pr = [] then ''Projet #'' @ str_int (pr_id pr) else pr_name pr)) (filter has_levels prs) reg"
  have L: "c \<in> L \<Longrightarrow> take 5 c = ''proj:''" using proj_cle_prefix by (auto simp: L_def)
  have r1: "map_of reg1 c \<noteq> None \<longleftrightarrow> c \<in> L \<or> map_of reg c \<noteq> None"
    unfolding reg1_def L_def by (rule keys_fold_enregistrer)
  have gone: "c \<in> set (filter (\<lambda>cle. take 5 cle = ''proj:'' \<and> cle \<notin> L) (map fst reg1)) \<longleftrightarrow>
      map_of reg1 c \<noteq> None \<and> take 5 c = ''proj:'' \<and> c \<notin> L"
    by (simp add: map_of_eq_None_iff conj_commute)
  show ?thesis
    unfolding rafraichir_porteurs_projets_def Let_def L_def [symmetric] reg1_def [symmetric] map_of_fold_retirer gone
    using L r1 by auto
qed

end
