(* ===== verification/Share_State.thy ===== *)
theory Share_State
  imports Bobi_Prelude
begin

text \<open>
  The scope of a user in the data base of the media (\<open>app/media_registry.py\<close>) and what is shared with him
  (\<open>app/media_sharing.py\<close>): the rows of the shares, who sees which media and which bins, and what the content of a shared bin is.

  The search of an intelligent bin is a parameter: its answer for a query and a scope, \<open>None\<close> where it is not valid any more.  The
  number of a bin is a number here, where the table of the shares keeps its text.
\<close>

subsection \<open>Tables\<close>

datatype share_target = TAsset string | TBin int
datatype recipient = RUser int | RGroup int | RProject int

record share_row =
  sh_id :: int
  sh_target :: share_target
  sh_recipient :: recipient
  sh_level :: string
  sh_sharer :: "int option"
  sh_name :: string
  sh_projects :: "int list option"
  sh_expires :: "int option"

text \<open>A bin: its parent, its project, its search if it is an intelligent one.\<close>

record bin_row =
  bn_parent :: "int option"
  bn_project :: "int option"
  bn_query :: "string option"

record log_row =
  lg_actor :: string
  lg_action :: string
  lg_target :: share_target
  lg_recipient :: recipient
  lg_level :: string

record media_db =
  md_assets :: "string list"
  md_project :: "(int \<times> string) list"
  md_bins :: "(int \<times> bin_row) list"
  md_items :: "(int \<times> string) list"
  md_shares :: "share_row list"
  md_log :: "log_row list"
  md_next :: int

text \<open>
  What the main data base answers: the users with their access (global or not), the projects of a user, his groups, and which groups and
  projects exist.
\<close>

record directory =
  dr_user :: "int \<Rightarrow> bool option"
  dr_projects :: "int \<Rightarrow> int list"
  dr_groups :: "int \<Rightarrow> int list"
  dr_group :: "int \<Rightarrow> bool"
  dr_project :: "int \<Rightarrow> bool"

subsection \<open>Scopes\<close>

text \<open>
  The scope of a restricted user: his projects, and the media and bins shared with him, with their level.  \<open>None\<close> is the global
  access.
\<close>

record mscope =
  sc_projects :: "int list"
  sc_assets :: "(string \<times> string) list"
  sc_bins :: "(int \<times> string) list"

definition bare_scope :: "int list \<Rightarrow> mscope" where
  "bare_scope ps = \<lparr>sc_projects = ps, sc_assets = [], sc_bins = []\<rparr>"

definition base_scope :: "mscope option \<Rightarrow> mscope option" where
  "base_scope sc = map_option (\<lambda>s. bare_scope (sc_projects s)) sc"

definition user_base :: "directory \<Rightarrow> int \<Rightarrow> bool \<Rightarrow> mscope option" where
  "user_base d uid glob = (if glob then None else Some (bare_scope (dr_projects d uid)))"

definition in_projects :: "media_db \<Rightarrow> int list \<Rightarrow> string \<Rightarrow> bool" where
  "in_projects m ps a \<longleftrightarrow> (\<exists>p \<in> set ps. (p, a) \<in> set (md_project m))"

definition shared_asset :: "mscope \<Rightarrow> string \<Rightarrow> bool" where
  "shared_asset s a \<longleftrightarrow> map_of (sc_assets s) a \<noteq> None"

definition asset_visible :: "media_db \<Rightarrow> string \<Rightarrow> mscope option \<Rightarrow> bool" where
  "asset_visible m a sc =
     (if a = [] then False
      else
        (case sc of
           None \<Rightarrow> a \<in> set (md_assets m)
         | Some s \<Rightarrow> if shared_asset s a then a \<in> set (md_assets m) else in_projects m (sc_projects s) a))"

definition visible_ids :: "media_db \<Rightarrow> string list \<Rightarrow> mscope option \<Rightarrow> string list" where
  "visible_ids m ids sc =
     (case sc of
        None \<Rightarrow> ids
      | Some s \<Rightarrow> filter (\<lambda>a. shared_asset s a \<or> in_projects m (sc_projects s) a) ids)"

text \<open>The clause of \<open>scope_sql\<close>, as a test on the identity of a media.\<close>

definition scope_sql :: "media_db \<Rightarrow> mscope option \<Rightarrow> string \<Rightarrow> bool" where
  "scope_sql m sc a =
     (case sc of
        None \<Rightarrow> True
      | Some s \<Rightarrow> (sc_projects s \<noteq> [] \<and> in_projects m (sc_projects s) a) \<or> (sc_assets s \<noteq> [] \<and> shared_asset s a))"

subsection \<open>Visible bins\<close>

text \<open>
  The recursion \<open>ok\<close> with its memory: a bin is visible when it has no project or one of the scope, and its parent, if it is in the
  table, is visible.  \<open>room\<close> is what is left of the 64 levels.
\<close>

fun bin_ok :: "(int \<times> bin_row) list \<Rightarrow> int list \<Rightarrow> nat \<Rightarrow> int \<Rightarrow> (int \<times> bool) list \<Rightarrow> bool \<times> (int \<times> bool) list" where
  "bin_ok rows sid room b memo =
     (case map_of memo b of
        Some v \<Rightarrow> (v, memo)
      | None \<Rightarrow>
          (case map_of rows b of
             None \<Rightarrow> (False, dict_put b False memo)
           | Some r \<Rightarrow>
               (case room of
                  0 \<Rightarrow> (False, dict_put b False memo)
                | Suc room' \<Rightarrow>
                    if \<not> (case bn_project r of None \<Rightarrow> True | Some p \<Rightarrow> p \<in> set sid) then (False, dict_put b False memo)
                    else
                      (case bn_parent r of
                         None \<Rightarrow> (True, dict_put b True memo)
                       | Some p \<Rightarrow>
                           if map_of rows p = None then (True, dict_put b True memo)
                           else (case bin_ok rows sid room' p memo of (v, memo') \<Rightarrow> (v, dict_put b v memo'))))))"

fun own_bins :: "(int \<times> bin_row) list \<Rightarrow> int list \<Rightarrow> int list \<Rightarrow> (int \<times> bool) list \<Rightarrow> int list" where
  "own_bins rows sid [] memo = []"
| "own_bins rows sid (b # bs) memo =
     (case bin_ok rows sid 64 b memo of (v, memo') \<Rightarrow> (if v then [b] else []) @ own_bins rows sid bs memo')"

definition visible_bin_ids :: "media_db \<Rightarrow> mscope option \<Rightarrow> int list" where
  "visible_bin_ids m sc =
     (let rows = md_bins m in
      case sc of
        None \<Rightarrow> map fst rows
      | Some s \<Rightarrow> own_bins rows (sc_projects s) (map fst rows) [] @ filter (\<lambda>b. b \<in> fst ` set rows) (map fst (sc_bins s)))"

definition bin_visible :: "media_db \<Rightarrow> int \<Rightarrow> mscope option \<Rightarrow> bool" where
  "bin_visible m b sc \<longleftrightarrow> b \<in> set (visible_bin_ids m sc)"

text \<open>\<open>bin_subtree\<close>: breadth first, each bin once.\<close>

definition kids :: "(int \<times> bin_row) list \<Rightarrow> int \<Rightarrow> int list" where
  "kids rows b = map fst (filter (\<lambda>(i, r). bn_parent r = Some b) rows)"

function subtree_loop :: "(int \<times> bin_row) list \<Rightarrow> int list \<Rightarrow> int list \<Rightarrow> int list" where
  "subtree_loop rows [] out = out"
| "subtree_loop rows (x # stack) out =
     (if x \<in> set out then subtree_loop rows stack out
      else subtree_loop rows (stack @ kids rows x) (out @ [x]))"
  by pat_completeness auto
termination
proof (relation "measures [\<lambda>(rows, stack, out). card ({b. kids rows b \<noteq> []} - set out), \<lambda>(rows, stack, out). length stack]")
  show "wf (measures [\<lambda>(rows :: (int \<times> bin_row) list, stack :: int list, out). card ({b. kids rows b \<noteq> []} - set out),
      \<lambda>(rows, stack, out). length stack])" by simp
next
  fix rows :: "(int \<times> bin_row) list" and x :: int and stack out :: "int list"
  show "((rows, stack, out), rows, x # stack, out) \<in> measures
      [\<lambda>(rows, stack, out). card ({b. kids rows b \<noteq> []} - set out), \<lambda>(rows, stack, out). length stack]" by simp
next
  fix rows :: "(int \<times> bin_row) list" and x :: int and stack out :: "int list"
  assume x: "x \<notin> set out"
  have fin: "finite {b. kids rows b \<noteq> []}"
    by (rule finite_subset [of _ "(\<lambda>(i, r). the (bn_parent r)) ` set rows"]) (auto simp: kids_def filter_empty_conv image_iff, force)
  show "((rows, stack @ kids rows x, out @ [x]), rows, x # stack, out) \<in> measures
      [\<lambda>(rows, stack, out). card ({b. kids rows b \<noteq> []} - set out), \<lambda>(rows, stack, out). length stack]"
  proof (cases "kids rows x = []")
    case True
    then have "{b. kids rows b \<noteq> []} - set (out @ [x]) = {b. kids rows b \<noteq> []} - set out" by auto
    then show ?thesis using True by simp
  next
    case False
    then have "{b. kids rows b \<noteq> []} - set (out @ [x]) \<subset> {b. kids rows b \<noteq> []} - set out" using x by auto
    then have "card ({b. kids rows b \<noteq> []} - set (out @ [x])) < card ({b. kids rows b \<noteq> []} - set out)"
      using fin by (intro psubset_card_mono) auto
    then show ?thesis by simp
  qed
qed

definition bin_subtree :: "media_db \<Rightarrow> int \<Rightarrow> int list" where
  "bin_subtree m b = subtree_loop (md_bins m) [b] []"

subsection \<open>The content of a shared bin\<close>

type_synonym finder = "string \<Rightarrow> mscope option \<Rightarrow> string list option"

definition bin_medias :: "media_db \<Rightarrow> finder \<Rightarrow> mscope option \<Rightarrow> int \<Rightarrow> string list" where
  "bin_medias m srch sharer b =
     (case map_of (md_bins m) b of
        None \<Rightarrow> []
      | Some r \<Rightarrow>
          (case bn_query r of
             Some q \<Rightarrow> (case srch q sharer of None \<Rightarrow> [] | Some l \<Rightarrow> l)
           | None \<Rightarrow> map snd (filter (\<lambda>(i, a). i = b) (md_items m))))"

definition bin_content :: "media_db \<Rightarrow> finder \<Rightarrow> int \<Rightarrow> mscope option \<Rightarrow> int list \<times> string list" where
  "bin_content m srch b sharer =
     (let vis = visible_bin_ids m sharer in
      if sharer \<noteq> None \<and> b \<notin> set vis then ([], [])
      else
        (let bins = filter (\<lambda>x. (sharer = None \<or> x \<in> set vis) \<and> map_of (md_bins m) x \<noteq> None) (bin_subtree m b)
         in (bins, visible_ids m (remdups (concat (map (bin_medias m srch sharer) bins))) sharer)))"

end
