(* ===== verification/Share_Ops.thy ===== *)
theory Share_Ops
  imports Share_State
begin

text \<open>
  The operations on the shares (\<open>app/media_sharing.py\<close>): the evaluation of what is shared with a user, the rights, creating, changing,
  withdrawing and expiring a share, and the marks that keep a shared media out of the project of the container it is loaded in.
  Times are whole seconds; \<open>now\<close> is the time an operation reads.
\<close>

subsection \<open>What is shared with a user\<close>

definition recipients_of :: "directory \<Rightarrow> int \<Rightarrow> recipient list" where
  "recipients_of d uid = [RUser uid] @ map RGroup (dr_groups d uid) @ map RProject (dr_projects d uid)"

definition expired :: "int \<Rightarrow> share_row \<Rightarrow> bool" where
  "expired now r \<longleftrightarrow> (case sh_expires r of None \<Rightarrow> False | Some e \<Rightarrow> e \<le> now)"

definition log_of_row :: "string \<Rightarrow> string \<Rightarrow> share_row \<Rightarrow> log_row" where
  "log_of_row actor action r =
     \<lparr>lg_actor = actor, lg_action = action, lg_target = sh_target r, lg_recipient = sh_recipient r, lg_level = sh_level r\<rparr>"

definition purge_expired :: "int \<Rightarrow> media_db \<Rightarrow> media_db" where
  "purge_expired now m =
     m\<lparr>md_shares := filter (\<lambda>r. \<not> expired now r) (md_shares m),
       md_log := md_log m @ map (log_of_row '''' ''expire'') (filter (expired now) (md_shares m))\<rparr>"

definition active_rows :: "int \<Rightarrow> recipient list \<Rightarrow> media_db \<Rightarrow> share_row list" where
  "active_rows now rs m = filter (\<lambda>r. \<not> expired now r \<and> sh_recipient r \<in> set rs) (md_shares (purge_expired now m))"

text \<open>
  The scope of the one who shares, now: \<open>None\<close> when he is gone; for a share without a user, the projects frozen in it.
\<close>

definition sharer_scope :: "directory \<Rightarrow> share_row \<Rightarrow> mscope option option" where
  "sharer_scope d r =
     (case sh_sharer r of
        Some u \<Rightarrow> (case dr_user d u of None \<Rightarrow> None | Some glob \<Rightarrow> Some (user_base d u glob))
      | None \<Rightarrow> Some (map_option bare_scope (sh_projects r)))"

definition rank :: "string \<Rightarrow> nat" where
  "rank l = (if l = ''use'' then 1 else if l = ''edit'' then 2 else 0)"

definition level_of :: "share_row \<Rightarrow> string" where
  "level_of r = (if sh_level r \<in> {''use'', ''edit''} then sh_level r else ''use'')"

text \<open>\<open>up\<close>: the highest level wins.\<close>

definition up :: "'k \<Rightarrow> string \<Rightarrow> ('k \<times> string) list \<Rightarrow> ('k \<times> string) list" where
  "up k lvl d = (if (case map_of d k of None \<Rightarrow> 0 | Some l \<Rightarrow> rank l) < rank lvl then dict_put k lvl d else d)"

definition evaluate_row ::
  "media_db \<Rightarrow> directory \<Rightarrow> finder \<Rightarrow> int \<Rightarrow> share_row \<Rightarrow> (string \<times> string) list \<times> (int \<times> string) list
    \<Rightarrow> (string \<times> string) list \<times> (int \<times> string) list" where
  "evaluate_row m d srch uid r acc =
     (if sh_sharer r = Some uid then acc
      else
        (case sharer_scope d r of
           None \<Rightarrow> acc
         | Some sc \<Rightarrow>
             (case sh_target r of
                TAsset a \<Rightarrow> if asset_visible m a sc then (up a (level_of r) (fst acc), snd acc) else acc
              | TBin b \<Rightarrow>
                  (case bin_content m srch b sc of
                     (bins, ids) \<Rightarrow>
                       if bins = [] then acc
                       else (fold (\<lambda>a. up a ''use'') ids (fst acc), fold (\<lambda>b. up b (level_of r)) bins (snd acc))))))"

definition evaluate ::
  "media_db \<Rightarrow> directory \<Rightarrow> finder \<Rightarrow> int \<Rightarrow> int \<Rightarrow> (string \<times> string) list \<times> (int \<times> string) list" where
  "evaluate m d srch now uid = fold (evaluate_row m d srch uid) (active_rows now (recipients_of d uid) m) ([], [])"

text \<open>The scope of a user: global, nobody's, or his projects with what is shared with him.\<close>

definition user_scope :: "media_db \<Rightarrow> directory \<Rightarrow> finder \<Rightarrow> int \<Rightarrow> int option \<Rightarrow> mscope option" where
  "user_scope m d srch now user =
     (case user of
        None \<Rightarrow> Some (bare_scope [])
      | Some uid \<Rightarrow>
          if dr_user d uid = Some True then None
          else (case evaluate m d srch now uid of
                  (as, bs) \<Rightarrow> Some \<lparr>sc_projects = dr_projects d uid, sc_assets = as, sc_bins = bs\<rparr>))"

subsection \<open>Rights\<close>

definition owns_asset :: "media_db \<Rightarrow> mscope option \<Rightarrow> string \<Rightarrow> bool" where
  "owns_asset m sc a = asset_visible m a (base_scope sc)"

definition owns_bin :: "media_db \<Rightarrow> mscope option \<Rightarrow> int \<Rightarrow> bool" where
  "owns_bin m sc b = bin_visible m b (base_scope sc)"

definition need_rank :: "string \<Rightarrow> nat" where
  "need_rank need = (if rank need = 0 then 99 else rank need)"

definition asset_allows :: "media_db \<Rightarrow> mscope option \<Rightarrow> string \<Rightarrow> string \<Rightarrow> bool" where
  "asset_allows m sc a need =
     (case sc of
        None \<Rightarrow> asset_visible m a None
      | Some s \<Rightarrow>
          if owns_asset m sc a then asset_visible m a sc
          else (case map_of (sc_assets s) a of
                  None \<Rightarrow> False
                | Some lvl \<Rightarrow> lvl \<noteq> [] \<and> need \<noteq> ''owner'' \<and> need_rank need \<le> rank lvl))"

definition bin_allows :: "media_db \<Rightarrow> mscope option \<Rightarrow> int \<Rightarrow> string \<Rightarrow> bool" where
  "bin_allows m sc b need =
     (case sc of
        None \<Rightarrow> bin_visible m b None
      | Some s \<Rightarrow>
          if owns_bin m sc b then bin_visible m b sc
          else (case map_of (sc_bins s) b of
                  None \<Rightarrow> False
                | Some lvl \<Rightarrow> lvl \<noteq> [] \<and> need \<noteq> ''owner'' \<and> need_rank need \<le> rank lvl))"

definition check_can_share :: "media_db \<Rightarrow> mscope option \<Rightarrow> string list \<Rightarrow> share_target \<Rightarrow> string \<Rightarrow> string option" where
  "check_can_share m sc perms tg level =
     (if ''media.manage'' \<notin> set perms then Some ''missing_permission''
      else if \<not> (case tg of TAsset a \<Rightarrow> asset_visible m a (base_scope sc) | TBin b \<Rightarrow> bin_visible m b (base_scope sc))
      then Some ''not_owner''
      else if level \<notin> {''use'', ''edit''} then Some ''level_invalid''
      else None)"

subsection \<open>Creating, changing, withdrawing\<close>

definition target_known :: "media_db \<Rightarrow> share_target \<Rightarrow> bool" where
  "target_known m tg = (case tg of TAsset a \<Rightarrow> a \<in> set (md_assets m) | TBin b \<Rightarrow> map_of (md_bins m) b \<noteq> None)"

definition recipient_known :: "directory \<Rightarrow> recipient \<Rightarrow> bool" where
  "recipient_known d rc = (case rc of RUser u \<Rightarrow> dr_user d u \<noteq> None | RGroup g \<Rightarrow> dr_group d g | RProject p \<Rightarrow> dr_project d p)"

text \<open>The end of a share, parsed: \<open>None\<close> without end; it has to be after now.\<close>

definition share ::
  "directory \<Rightarrow> int \<Rightarrow> share_target \<Rightarrow> recipient \<Rightarrow> string \<Rightarrow> int option \<Rightarrow> int option \<Rightarrow> string \<Rightarrow> int list option
    \<Rightarrow> media_db \<Rightarrow> string + share_row \<times> media_db" where
  "share d now tg rc level expires uid name projects m =
     (if level \<notin> {''use'', ''edit''} then Inl ''level_invalid''
      else if \<not> target_known m tg then Inl ''target_unknown''
      else if \<not> recipient_known d rc then Inl ''recipient_unknown''
      else if uid \<noteq> None \<and> rc = RUser (the uid) then Inl ''recipient_self''
      else if (case expires of None \<Rightarrow> False | Some e \<Rightarrow> e \<le> now) then Inl ''expires_past''
      else
        (let sp = (if uid \<noteq> None then None else projects);
             old = find (\<lambda>r. sh_target r = tg \<and> sh_recipient r = rc) (md_shares m);
             row = \<lparr>sh_id = (case old of None \<Rightarrow> md_next m | Some r \<Rightarrow> sh_id r), sh_target = tg, sh_recipient = rc, sh_level = level,
                    sh_sharer = uid, sh_name = name, sh_projects = sp, sh_expires = expires\<rparr>
         in (case old of
               Some r \<Rightarrow>
                 Inr (row, m\<lparr>md_shares := map (\<lambda>x. if sh_id x = sh_id r then row else x) (md_shares m),
                             md_log := md_log m @ [log_of_row name ''update'' row]\<rparr>)
             | None \<Rightarrow>
                 Inr (row, m\<lparr>md_shares := md_shares m @ [row], md_next := md_next m + 1,
                             md_log := md_log m @ [log_of_row name ''share'' row]\<rparr>))))"

definition revoke :: "int \<Rightarrow> string \<Rightarrow> media_db \<Rightarrow> bool \<times> media_db" where
  "revoke sid actor m =
     (case find (\<lambda>r. sh_id r = sid) (md_shares m) of
        None \<Rightarrow> (False, m)
      | Some r \<Rightarrow>
          (True, m\<lparr>md_shares := filter (\<lambda>x. sh_id x \<noteq> sh_id r) (md_shares m),
                   md_log := md_log m @ [log_of_row actor ''revoke'' r]\<rparr>))"

subsection \<open>Loading a shared media in a container\<close>

type_synonym marks = "((string \<times> int) \<times> int) list"

definition no_link_ttl :: int where
  "no_link_ttl = 21600"

definition mark_no_link :: "int \<Rightarrow> string \<Rightarrow> int \<Rightarrow> marks \<Rightarrow> marks" where
  "mark_no_link now a v mk = dict_put (a, v) (now + no_link_ttl) (filter (\<lambda>(k, t). \<not> t < now) mk)"

definition link_suppressed :: "int \<Rightarrow> string \<Rightarrow> int \<Rightarrow> marks \<Rightarrow> bool \<times> marks" where
  "link_suppressed now a v mk =
     ((case map_of mk (a, v) of None \<Rightarrow> False | Some t \<Rightarrow> now \<le> t), filter (\<lambda>(k, t). k \<noteq> (a, v)) mk)"

definition guard_container_load :: "media_db \<Rightarrow> mscope option \<Rightarrow> int \<Rightarrow> string list \<Rightarrow> int \<Rightarrow> marks \<Rightarrow> nat \<times> marks" where
  "guard_container_load m sc now aids v mk =
     (case sc of
        None \<Rightarrow> (0, mk)
      | Some s \<Rightarrow>
          (let only = filter (\<lambda>a. a \<noteq> [] \<and> \<not> owns_asset m sc a \<and> shared_asset s a) aids
           in (length only, fold (\<lambda>a. mark_no_link now a v) only mk)))"

definition link_project :: "string \<Rightarrow> int \<Rightarrow> media_db \<Rightarrow> media_db" where
  "link_project a p m = (if (p, a) \<in> set (md_project m) then m else m\<lparr>md_project := md_project m @ [(p, a)]\<rparr>)"

text \<open>\<open>project\<close>: the project of the container, \<open>None\<close> without one (or 0).\<close>

definition link_container_project :: "int \<Rightarrow> string \<Rightarrow> int \<Rightarrow> int option \<Rightarrow> media_db \<times> marks \<Rightarrow> media_db \<times> marks" where
  "link_container_project now a v project y =
     (case link_suppressed now a v (snd y) of
        (True, mk) \<Rightarrow> (fst y, mk)
      | (False, mk) \<Rightarrow>
          ((case project of None \<Rightarrow> fst y | Some p \<Rightarrow> if p = 0 \<or> a = [] then fst y else link_project a p (fst y)), mk))"

end
