(* ===== verification/Share_Load.thy ===== *)
theory Share_Load
  imports Share_Ops "HOL-Library.Sublist"
begin

text \<open>
  Sending media to a container (\<open>registry_send\<close> in \<open>app/routes/media_registry_api.py\<close>, \<open>resolve_for_container\<close> and \<open>send_to\<close> in
  \<open>app/media_registry.py\<close>): the media become paths the container sees, those seen only through a share are marked, and once the
  container took the paths each of their media enters the project of the container, unless its mark says no.

  The requests to the container are one answer of the world, and the links of one send are made at one time.
\<close>

subsection \<open>Files and versions\<close>

text \<open>The rows of \<open>media_files\<close> in the order of the queries: share, node, path.\<close>

record file_row =
  fr_node :: int
  fr_share :: int
  fr_path :: string
  fr_asset :: "string option"
  fr_main :: bool
  fr_present :: bool
  fr_version :: string

text \<open>The name and the chosen version of each media, the versions in the order of their creation, the files.\<close>

record catalogue =
  ct_info :: "(string \<times> string \<times> string option) list"
  ct_versions :: "(string \<times> string) list"
  ct_files :: "file_row list"

definition original :: string where
  "original = ''original''"

definition files_of :: "catalogue \<Rightarrow> string \<Rightarrow> file_row list" where
  "files_of c a = filter (\<lambda>f. fr_asset f = Some a \<and> fr_main f) (ct_files c)"

definition version_keys :: "catalogue \<Rightarrow> string \<Rightarrow> string list" where
  "version_keys c a = map snd (filter (\<lambda>(i, k). i = a) (ct_versions c))"

definition effective_default :: "string option \<Rightarrow> string list \<Rightarrow> bool \<Rightarrow> string" where
  "effective_default stored keys original_has_files =
     (if stored \<noteq> None \<and> the stored \<noteq> [] \<and> the stored \<in> set keys then the stored
      else if original_has_files \<or> keys = [] then original
      else hd keys)"

definition default_version :: "catalogue \<Rightarrow> string \<Rightarrow> string" where
  "default_version c a =
     (case map_of (ct_info c) a of
        None \<Rightarrow> original
      | Some (n, stored) \<Rightarrow>
          effective_default stored (version_keys c a) (\<exists>f \<in> set (files_of c a). fr_version f = original))"

text \<open>\<open>None\<close> is the \<open>ValueError\<close> of a version the media does not have.\<close>

definition resolve_version :: "catalogue \<Rightarrow> string \<Rightarrow> string option \<Rightarrow> string option" where
  "resolve_version c a version =
     (let v = py_lower (py_strip (case version of None \<Rightarrow> '''' | Some s \<Rightarrow> s)) in
      if v = [] \<or> v = ''default'' then Some (default_version c a)
      else if v = original then Some original
      else if (a, v) \<in> set (ct_versions c) then Some v
      else None)"

subsection \<open>What a container sees\<close>

definition rstrip_slash :: "string \<Rightarrow> string" where
  "rstrip_slash s = rev (dropWhile (\<lambda>c. c = CHR ''/'') (rev s))"

definition base_name :: "string \<Rightarrow> string" where
  "base_name s = rev (takeWhile (\<lambda>c. c \<noteq> CHR ''/'') (rev s))"

text \<open>A container: its node and its project, with the folder of that project.\<close>

record site =
  st_node :: "int option"
  st_project :: "int option"
  st_folder :: "string option"

definition container_view :: "site \<Rightarrow> int option \<times> string" where
  "container_view s =
     (st_node s,
      (if st_project s = None \<or> st_project s = Some 0 then ''''
       else (case st_folder s of None \<Rightarrow> '''' | Some f \<Rightarrow> if f = [] then '''' else base_name (rstrip_slash f) @ ''/'')))"

definition local_path :: "file_row list \<Rightarrow> int option \<Rightarrow> string \<Rightarrow> string \<Rightarrow> string option" where
  "local_path copies nid pre version =
     (case find (\<lambda>f. fr_version f = version \<and> Some (fr_node f) = nid \<and> fr_present f \<and> fr_share f = 0 \<and> prefix pre (fr_path f)) copies of
        None \<Rightarrow> None
      | Some f \<Rightarrow> Some (drop (length pre) (fr_path f)))"

subsection \<open>Resolving\<close>

datatype missing = Unknown | NoVersion string "string option" | NoCopy string

record resolved =
  rs_paths :: "string list"
  rs_missing :: "missing list"
  rs_origins :: "(string \<times> string) list"

definition miss :: "missing \<Rightarrow> resolved \<Rightarrow> resolved" where
  "miss x r = r\<lparr>rs_missing := rs_missing r @ [x]\<rparr>"

definition found :: "string \<Rightarrow> string \<Rightarrow> resolved \<Rightarrow> resolved" where
  "found p a r = r\<lparr>rs_paths := rs_paths r @ [p], rs_origins := dict_put p a (rs_origins r)\<rparr>"

definition name_or :: "catalogue \<Rightarrow> string \<Rightarrow> string" where
  "name_or c a = (case map_of (ct_info c) a of None \<Rightarrow> a | Some (n, s) \<Rightarrow> n)"

definition resolve_asset ::
  "media_db \<Rightarrow> catalogue \<Rightarrow> mscope option \<Rightarrow> int option \<times> string \<Rightarrow> string option \<Rightarrow> string \<Rightarrow> resolved \<Rightarrow> resolved" where
  "resolve_asset m c sc vw version a r =
     (if sc \<noteq> None \<and> \<not> asset_visible m a sc then miss Unknown r
      else
        (case resolve_version c a version of
           None \<Rightarrow> miss (NoVersion (name_or c a) version) r
         | Some v \<Rightarrow>
             (case local_path (files_of c a) (fst vw) (snd vw) v of
                None \<Rightarrow> miss (NoCopy (name_or c a)) r
              | Some p \<Rightarrow> if p = [] then miss (NoCopy (name_or c a)) r else found p a r)))"

text \<open>An item: a node (0 or none where it is not given) and a path there; the row of a media it may belong to.\<close>

definition main_row :: "catalogue \<Rightarrow> int option \<Rightarrow> string \<Rightarrow> file_row option" where
  "main_row c nid p = find (\<lambda>f. Some (fr_node f) = nid \<and> fr_path f = p \<and> fr_asset f \<noteq> None \<and> fr_main f) (ct_files c)"

definition resolve_item ::
  "media_db \<Rightarrow> catalogue \<Rightarrow> mscope option \<Rightarrow> int option \<times> string \<Rightarrow> int option \<times> string \<Rightarrow> resolved \<Rightarrow> resolved" where
  "resolve_item m c sc vw it r =
     (let nid = fst it; p = snd it; pre = snd vw;
          hidden = (sc \<noteq> None \<and> (case main_row c nid p of None \<Rightarrow> False | Some f \<Rightarrow> \<not> asset_visible m (the (fr_asset f)) sc));
          here = (case fst vw of None \<Rightarrow> - 1 | Some n \<Rightarrow> if n = 0 then - 1 else n)
      in if hidden then miss Unknown r
         else if (case nid of None \<Rightarrow> 0 | Some n \<Rightarrow> n) = here \<and> prefix pre p
         then r\<lparr>rs_paths := rs_paths r @ [drop (length pre) p]\<rparr>
         else
           (case main_row c nid p of
              None \<Rightarrow> miss (NoCopy (base_name p)) r
            | Some f \<Rightarrow>
                (case local_path (files_of c (the (fr_asset f))) (fst vw) pre (fr_version f) of
                   None \<Rightarrow> miss (NoCopy (base_name p)) r
                 | Some lp \<Rightarrow> if lp = [] then miss (NoCopy (base_name p)) r else found lp (the (fr_asset f)) r)))"

definition resolve_for_container ::
  "media_db \<Rightarrow> catalogue \<Rightarrow> mscope option \<Rightarrow> site \<Rightarrow> string list \<Rightarrow> (int option \<times> string) list \<Rightarrow> string option \<Rightarrow> resolved" where
  "resolve_for_container m c sc s aids items version =
     fold (resolve_item m c sc (container_view s)) items
       (fold (resolve_asset m c sc (container_view s) version) aids \<lparr>rs_paths = [], rs_missing = [], rs_origins = []\<rparr>)"

subsection \<open>Sending\<close>

definition link_path :: "(string \<times> string) list \<Rightarrow> int \<Rightarrow> int \<Rightarrow> int option \<Rightarrow> string \<Rightarrow> media_db \<times> marks \<Rightarrow> media_db \<times> marks" where
  "link_path origins now v project p y =
     (case map_of origins p of
        None \<Rightarrow> y
      | Some a \<Rightarrow> if a = [] then y else link_container_project now a v project y)"

datatype answer = Sent "missing list" | Refused | NoCopies "missing list"

text \<open>
  \<open>took\<close>: the container took every path; else \<open>send_to\<close> raises before any link.  \<open>now\<close> and \<open>later\<close> are the times of the marks and of the
  links, \<open>v\<close> the container.
\<close>

definition registry_send ::
  "catalogue \<Rightarrow> mscope option \<Rightarrow> site \<Rightarrow> int \<Rightarrow> int \<Rightarrow> int \<Rightarrow> bool \<Rightarrow> string list \<Rightarrow> (int option \<times> string) list \<Rightarrow> string option
    \<Rightarrow> media_db \<times> marks \<Rightarrow> answer \<times> media_db \<times> marks" where
  "registry_send c sc s v now later took aids items version y =
     (let r = resolve_for_container (fst y) c sc s aids items version;
          mk = snd (guard_container_load (fst y) sc now (remdups (map snd (rs_origins r))) v (snd y))
      in if rs_paths r = [] then (NoCopies (rs_missing r), fst y, mk)
         else if \<not> took then (Refused, fst y, mk)
         else (Sent (rs_missing r), fold (link_path (rs_origins r) later v (st_project s)) (rs_paths r) (fst y, mk)))"

end
