(* ===== verification/Share_Properties.thy ===== *)
theory Share_Properties
  imports Share_Ops
begin

text \<open>
  Who may do what with a shared media: exactly its owners, and whoever a live share of somebody who sees it himself, by his own projects, is
  addressed to, up to its level; the lists and the single tests agree; a withdrawal acts at once; loading a shared media does not
  spread it.
\<close>

subsection \<open>Levels\<close>

definition rk :: "('k \<times> string) list \<Rightarrow> 'k \<Rightarrow> nat" where
  "rk d k = (case map_of d k of None \<Rightarrow> 0 | Some l \<Rightarrow> rank l)"

lemma rk_up: "rk (up k l d) x = (if x = k then max (rk d x) (rank l) else rk d x)"
  by (auto simp: up_def rk_def)

lemma rk_ups: "rk (fold (\<lambda>a. up a l) xs d) x = (if x \<in> set xs then max (rk d x) (rank l) else rk d x)"
  by (induction xs arbitrary: d) (auto simp: rk_up)

lemma rk_pos: "0 < n \<Longrightarrow> n \<le> rk d k \<longleftrightarrow> (\<exists>l. map_of d k = Some l \<and> n \<le> rank l)"
  by (auto simp: rk_def split: option.splits)

lemma rank_level_of: "0 < rank (level_of r)"
  by (simp add: level_of_def rank_def)

subsection \<open>What a share grants\<close>

text \<open>
  A live share addressed to the user, by somebody else who is still there, of this media or of a bin that has it, as the sharer sees
  them now with his own projects; a bin only ever gives the lower level to what is in it.
\<close>

definition live :: "directory \<Rightarrow> int \<Rightarrow> int \<Rightarrow> share_row \<Rightarrow> bool" where
  "live d now uid r \<longleftrightarrow> \<not> expired now r \<and> sh_recipient r \<in> set (recipients_of d uid) \<and> sh_sharer r \<noteq> Some uid"

definition gives :: "media_db \<Rightarrow> directory \<Rightarrow> finder \<Rightarrow> share_row \<Rightarrow> string \<Rightarrow> string \<Rightarrow> bool" where
  "gives m d srch r a lvl \<longleftrightarrow>
     (\<exists>sc. sharer_scope d r = Some sc \<and>
        (case sh_target r of
           TAsset b \<Rightarrow> b = a \<and> asset_visible m a sc \<and> lvl = level_of r
         | TBin b \<Rightarrow> a \<in> set (snd (bin_content m srch b sc)) \<and> lvl = ''use''))"

definition gives_bin :: "media_db \<Rightarrow> directory \<Rightarrow> finder \<Rightarrow> share_row \<Rightarrow> int \<Rightarrow> string \<Rightarrow> bool" where
  "gives_bin m d srch r x lvl \<longleftrightarrow>
     (\<exists>sc b. sharer_scope d r = Some sc \<and> sh_target r = TBin b \<and> x \<in> set (fst (bin_content m srch b sc)) \<and> lvl = level_of r)"

lemma bin_content_Nil: "fst (bin_content m srch b sc) = [] \<Longrightarrow> snd (bin_content m srch b sc) = []"
proof -
  assume f: "fst (bin_content m srch b sc) = []"
  let ?bins = "filter (\<lambda>x. (sc = None \<or> x \<in> set (visible_bin_ids m sc)) \<and> map_of (md_bins m) x \<noteq> None) (bin_subtree m b)"
  show ?thesis
  proof (cases "sc \<noteq> None \<and> b \<notin> set (visible_bin_ids m sc)")
    case True
    then show ?thesis by (simp add: bin_content_def Let_def)
  next
    case False
    then have c: "bin_content m srch b sc =
        (?bins, visible_ids m (remdups (concat (map (bin_medias m srch sc) ?bins))) sc)"
      unfolding bin_content_def Let_def by (simp only: if_False)
    then have "?bins = []" using f by (simp only: fst_conv)
    then show ?thesis unfolding c snd_conv \<open>?bins = []\<close> by (simp add: visible_ids_def split: option.splits)
  qed
qed

lemma evaluate_row_rk:
  assumes n: "0 < n"
  shows "n \<le> rk (fst (evaluate_row m d srch uid r acc)) a \<longleftrightarrow>
      n \<le> rk (fst acc) a \<or> (sh_sharer r \<noteq> Some uid \<and> (\<exists>lvl. gives m d srch r a lvl \<and> n \<le> rank lvl))"
    and "n \<le> rk (snd (evaluate_row m d srch uid r acc)) b \<longleftrightarrow>
      n \<le> rk (snd acc) b \<or> (sh_sharer r \<noteq> Some uid \<and> (\<exists>lvl. gives_bin m d srch r b lvl \<and> n \<le> rank lvl))"
proof -
  consider "sh_sharer r = Some uid \<or> sharer_scope d r = None"
    | sc x where "sh_sharer r \<noteq> Some uid" "sharer_scope d r = Some sc" "sh_target r = TAsset x"
    | sc x where "sh_sharer r \<noteq> Some uid" "sharer_scope d r = Some sc" "sh_target r = TBin x"
    by (metis option.exhaust share_target.exhaust)
  then have "(n \<le> rk (fst (evaluate_row m d srch uid r acc)) a \<longleftrightarrow>
      n \<le> rk (fst acc) a \<or> (sh_sharer r \<noteq> Some uid \<and> (\<exists>lvl. gives m d srch r a lvl \<and> n \<le> rank lvl))) \<and>
     (n \<le> rk (snd (evaluate_row m d srch uid r acc)) b \<longleftrightarrow>
      n \<le> rk (snd acc) b \<or> (sh_sharer r \<noteq> Some uid \<and> (\<exists>lvl. gives_bin m d srch r b lvl \<and> n \<le> rank lvl)))"
  proof cases
    case 1
    then show ?thesis by (auto simp: evaluate_row_def gives_def gives_bin_def)
  next
    case 2
    then show ?thesis by (auto simp: evaluate_row_def gives_def gives_bin_def rk_up)
  next
    case 3
    obtain bins ids where c: "bin_content m srch x sc = (bins, ids)" by fastforce
    show ?thesis
    proof (cases "bins = []")
      case True
      then have "ids = []" using bin_content_Nil [of m srch x sc] c by simp
      then show ?thesis using 3 c True by (auto simp: evaluate_row_def gives_def gives_bin_def)
    next
      case False
      then show ?thesis using 3 c by (auto simp: evaluate_row_def gives_def gives_bin_def rk_ups)
    qed
  qed
  then show "n \<le> rk (fst (evaluate_row m d srch uid r acc)) a \<longleftrightarrow>
      n \<le> rk (fst acc) a \<or> (sh_sharer r \<noteq> Some uid \<and> (\<exists>lvl. gives m d srch r a lvl \<and> n \<le> rank lvl))"
    and "n \<le> rk (snd (evaluate_row m d srch uid r acc)) b \<longleftrightarrow>
      n \<le> rk (snd acc) b \<or> (sh_sharer r \<noteq> Some uid \<and> (\<exists>lvl. gives_bin m d srch r b lvl \<and> n \<le> rank lvl))" by blast+
qed

lemma evaluate_rows_rk:
  assumes n: "0 < n"
  shows "n \<le> rk (fst (fold (evaluate_row m d srch uid) rows acc)) a \<longleftrightarrow>
      n \<le> rk (fst acc) a \<or> (\<exists>r \<in> set rows. sh_sharer r \<noteq> Some uid \<and> (\<exists>lvl. gives m d srch r a lvl \<and> n \<le> rank lvl))"
    and "n \<le> rk (snd (fold (evaluate_row m d srch uid) rows acc)) b \<longleftrightarrow>
      n \<le> rk (snd acc) b \<or> (\<exists>r \<in> set rows. sh_sharer r \<noteq> Some uid \<and> (\<exists>lvl. gives_bin m d srch r b lvl \<and> n \<le> rank lvl))"
  by (induction rows arbitrary: acc) (simp_all add: evaluate_row_rk [OF n] disj_assoc)

lemma evaluate_rk:
  assumes n: "0 < n"
  shows "n \<le> rk (fst (evaluate m d srch now uid)) a \<longleftrightarrow>
      (\<exists>r \<in> set (md_shares m). live d now uid r \<and> (\<exists>lvl. gives m d srch r a lvl \<and> n \<le> rank lvl))"
    and "n \<le> rk (snd (evaluate m d srch now uid)) b \<longleftrightarrow>
      (\<exists>r \<in> set (md_shares m). live d now uid r \<and> (\<exists>lvl. gives_bin m d srch r b lvl \<and> n \<le> rank lvl))"
  unfolding evaluate_def evaluate_rows_rk [OF n] using n
  by (auto simp: rk_def active_rows_def purge_expired_def live_def)

definition graded :: "('k \<times> string) list \<Rightarrow> bool" where
  "graded d \<longleftrightarrow> (\<forall>k l. map_of d k = Some l \<longrightarrow> 0 < rank l)"

lemma graded_up: "graded d \<Longrightarrow> graded (up k l d)"
  by (auto simp: graded_def up_def)

lemma graded_ups: "graded d \<Longrightarrow> graded (fold (\<lambda>a. up a l) xs d)"
  by (induction xs arbitrary: d) (simp_all add: graded_up)

lemma graded_evaluate: "graded (fst (evaluate m d srch now uid))"
proof -
  have one: "graded (fst (evaluate_row m d srch uid r acc))" if "graded (fst acc)" for r acc
    using that by (auto simp: evaluate_row_def graded_up graded_ups split: option.splits share_target.splits prod.splits)
  have "graded (fst (fold (evaluate_row m d srch uid) rows acc))" if "graded (fst acc)" for rows acc
    using that by (induction rows arbitrary: acc) (simp_all add: one)
  moreover have "graded ([] :: (string \<times> string) list)" by (simp add: graded_def)
  ultimately show ?thesis by (simp add: evaluate_def)
qed

subsection \<open>Access\<close>

text \<open>The references of the data base: a media of a project exists, and has an identity.\<close>

definition media_ok :: "media_db \<Rightarrow> bool" where
  "media_ok m \<longleftrightarrow> snd ` set (md_project m) \<subseteq> set (md_assets m) \<and> [] \<notin> set (md_assets m)"

definition restricted :: "directory \<Rightarrow> int \<Rightarrow> bool" where
  "restricted d uid \<longleftrightarrow> dr_user d uid \<noteq> Some True"

lemma restricted_scope:
  "restricted d uid \<Longrightarrow> user_scope m d srch now (Some uid) =
     Some \<lparr>sc_projects = dr_projects d uid, sc_assets = fst (evaluate m d srch now uid), sc_bins = snd (evaluate m d srch now uid)\<rparr>"
  by (simp add: restricted_def user_scope_def case_prod_unfold)

lemma in_projects_ok: "media_ok m \<Longrightarrow> in_projects m ps a \<Longrightarrow> a \<noteq> [] \<and> a \<in> set (md_assets m)"
  by (auto simp: media_ok_def in_projects_def)

lemma owns_restricted:
  "restricted d uid \<Longrightarrow> media_ok m \<Longrightarrow> owns_asset m (user_scope m d srch now (Some uid)) a = in_projects m (dr_projects d uid) a"
  using in_projects_ok by (auto simp: owns_asset_def restricted_scope base_scope_def bare_scope_def asset_visible_def shared_asset_def)

lemma need_rank_simps [simp]: "need_rank ''use'' = 1" "need_rank ''edit'' = 2"
  by (simp_all add: need_rank_def rank_def)

text \<open>
  C35. A restricted user may use or change a media exactly when it is in one of his projects or a live share gives it to him at that level:
  a share somebody else made, who is still there and sees the media now by his own projects.  What he received he cannot hand on, and
  nothing is ever given for good: \<open>owner\<close> is for the projects alone.
\<close>

theorem access_exact:
  assumes u: "restricted d uid" and m: "media_ok m" and need: "need \<in> {''use'', ''edit'', ''owner''}"
  shows "asset_allows m (user_scope m d srch now (Some uid)) a need \<longleftrightarrow>
    in_projects m (dr_projects d uid) a \<or>
    (need \<noteq> ''owner'' \<and> (\<exists>r \<in> set (md_shares m). live d now uid r \<and> (\<exists>lvl. gives m d srch r a lvl \<and> rank need \<le> rank lvl)))"
proof (cases "in_projects m (dr_projects d uid) a")
  case True
  have "asset_visible m a (user_scope m d srch now (Some uid))"
    using True in_projects_ok [OF m True] by (simp add: asset_visible_def restricted_scope [OF u])
  moreover have "owns_asset m (user_scope m d srch now (Some uid)) a" using True owns_restricted [OF u m] by simp
  ultimately show ?thesis using True by (simp add: asset_allows_def restricted_scope [OF u])
next
  case False
  let ?as = "fst (evaluate m d srch now uid)"
  have own: "\<not> owns_asset m (user_scope m d srch now (Some uid)) a" using False owns_restricted [OF u m] by simp
  have "asset_allows m (user_scope m d srch now (Some uid)) a need \<longleftrightarrow>
      need \<noteq> ''owner'' \<and> (\<exists>l. map_of ?as a = Some l \<and> l \<noteq> [] \<and> need_rank need \<le> rank l)"
    unfolding asset_allows_def restricted_scope [OF u] option.case if_not_P [OF own [unfolded restricted_scope [OF u]]]
    by (cases "map_of ?as a") (simp_all add: conj_commute conj_left_commute)
  also have "\<dots> \<longleftrightarrow> need \<noteq> ''owner'' \<and> rank need \<le> rk ?as a"
    using need by (cases "map_of ?as a") (auto simp: rk_def rank_def)
  also have "need \<noteq> ''owner'' \<and> rank need \<le> rk ?as a \<longleftrightarrow>
      need \<noteq> ''owner'' \<and> (\<exists>r \<in> set (md_shares m). live d now uid r \<and> (\<exists>lvl. gives m d srch r a lvl \<and> rank need \<le> rank lvl))"
  proof (cases "need = ''owner''")
    case False
    then have "0 < rank need" using need by (auto simp: rank_def)
    then show ?thesis using evaluate_rk(1) [of "rank need" m d srch now uid a] by simp
  qed simp
  finally show ?thesis using False by simp
qed

text \<open>
  The demonstration: user 1 has project 10 with media a and b, user 2 project 20; user 1 shared a with user 2, to change it, and a
  bin with b with the members of project 20; user 2 shared a, which he only received, with user 3.
\<close>

definition demo_media :: media_db where
  "demo_media =
     \<lparr>md_assets = [''a'', ''b''], md_project = [(10, ''a''), (10, ''b'')],
      md_bins = [(5, \<lparr>bn_parent = None, bn_project = Some 10, bn_query = None\<rparr>)], md_items = [(5, ''b'')],
      md_shares =
        [\<lparr>sh_id = 1, sh_target = TAsset ''a'', sh_recipient = RUser 2, sh_level = ''edit'', sh_sharer = Some 1, sh_name = [],
          sh_projects = None, sh_expires = None\<rparr>,
         \<lparr>sh_id = 2, sh_target = TBin 5, sh_recipient = RProject 20, sh_level = ''edit'', sh_sharer = Some 1, sh_name = [],
          sh_projects = None, sh_expires = Some 100\<rparr>,
         \<lparr>sh_id = 3, sh_target = TAsset ''a'', sh_recipient = RUser 3, sh_level = ''use'', sh_sharer = Some 2, sh_name = [],
          sh_projects = None, sh_expires = None\<rparr>],
      md_log = [], md_next = 4\<rparr>"

definition demo_dir :: directory where
  "demo_dir =
     \<lparr>dr_user = (\<lambda>u. if u \<in> {1, 2, 3} then Some False else None), dr_projects = (\<lambda>u. if u = 1 then [10] else if u = 2 then [20] else []),
      dr_groups = (\<lambda>u. []), dr_group = (\<lambda>g. False), dr_project = (\<lambda>p. True)\<rparr>"

definition demo_find :: finder where
  "demo_find q sc = None"

lemma demo_media_ok: "media_ok demo_media" "restricted demo_dir 2" "restricted demo_dir 3"
  by (simp_all add: media_ok_def demo_media_def restricted_def demo_dir_def)

lemma demo_access:
  "asset_allows demo_media (user_scope demo_media demo_dir demo_find 50 (Some 2)) ''a'' ''edit''"
  "asset_allows demo_media (user_scope demo_media demo_dir demo_find 50 (Some 2)) ''b'' ''use''"
  "\<not> asset_allows demo_media (user_scope demo_media demo_dir demo_find 50 (Some 2)) ''b'' ''edit''"
  "\<not> asset_allows demo_media (user_scope demo_media demo_dir demo_find 100 (Some 2)) ''b'' ''use''"
  "\<not> asset_allows demo_media (user_scope demo_media demo_dir demo_find 50 (Some 3)) ''a'' ''use''"
  by code_simp+

theorem access_exact_witness:
  "(\<exists>r \<in> set (md_shares demo_media). live demo_dir 50 2 r \<and>
      (\<exists>lvl. gives demo_media demo_dir demo_find r ''a'' lvl \<and> rank ''edit'' \<le> rank lvl)) \<and>
   \<not> (\<exists>r \<in> set (md_shares demo_media). live demo_dir 50 3 r \<and>
      (\<exists>lvl. gives demo_media demo_dir demo_find r ''a'' lvl \<and> rank ''use'' \<le> rank lvl))"
proof -
  have "\<not> in_projects demo_media (dr_projects demo_dir 2) ''a''" by (simp add: in_projects_def demo_media_def demo_dir_def)
  then show ?thesis
    using access_exact [OF demo_media_ok(2,1), of "''edit''" demo_find 50 "''a''"] demo_access(1)
      access_exact [OF demo_media_ok(3,1), of "''use''" demo_find 50 "''a''"] demo_access(5) by simp
qed

subsection \<open>Bins\<close>

lemma owns_bin_visible: "owns_bin m sc b \<Longrightarrow> bin_visible m b sc"
  by (auto simp: owns_bin_def bin_visible_def visible_bin_ids_def base_scope_def bare_scope_def Let_def split: option.splits)

text \<open>The same for a bin, whose level covers its sub-bins as the sharer sees them.\<close>

theorem bin_access_exact:
  assumes u: "restricted d uid" and need: "need \<in> {''use'', ''edit''}"
  shows "bin_allows m (user_scope m d srch now (Some uid)) b need \<longleftrightarrow>
    owns_bin m (user_scope m d srch now (Some uid)) b \<or>
    (\<exists>r \<in> set (md_shares m). live d now uid r \<and> (\<exists>lvl. gives_bin m d srch r b lvl \<and> rank need \<le> rank lvl))"
proof (cases "owns_bin m (user_scope m d srch now (Some uid)) b")
  case True
  then show ?thesis using owns_bin_visible [OF True] by (simp add: bin_allows_def restricted_scope [OF u])
next
  case own: False
  let ?bs = "snd (evaluate m d srch now uid)"
  have n: "need \<noteq> ''owner''" "0 < rank need" "need_rank need = rank need" using need by (auto simp: rank_def need_rank_def)
  have "bin_allows m (user_scope m d srch now (Some uid)) b need \<longleftrightarrow> rank need \<le> rk ?bs b"
    unfolding bin_allows_def restricted_scope [OF u] option.case if_not_P [OF own [unfolded restricted_scope [OF u]]]
    using n by (cases "map_of ?bs b") (auto simp: rk_def rank_def)
  then show ?thesis using own evaluate_rk(2) [OF n(2), of m d srch now uid b] by simp
qed

subsection \<open>Lists\<close>

text \<open>
  C37. The three ways the routes restrict what a user sees agree: the clause of the lists and searches, the filter on a list of
  identities, and the test on one media, which is the right to use it.
\<close>

theorem listing_agrees:
  assumes u: "restricted d uid" and m: "media_ok m" and a: "a \<in> set (md_assets m)"
  shows "scope_sql m (user_scope m d srch now (Some uid)) a = asset_allows m (user_scope m d srch now (Some uid)) a ''use'' \<and>
    asset_visible m a (user_scope m d srch now (Some uid)) = asset_allows m (user_scope m d srch now (Some uid)) a ''use'' \<and>
    (a \<in> set (visible_ids m (a # as) (user_scope m d srch now (Some uid)))) = asset_allows m (user_scope m d srch now (Some uid)) a ''use''"
proof -
  let ?as = "fst (evaluate m d srch now uid)" and ?P = "in_projects m (dr_projects d uid) a"
  let ?shared = "map_of ?as a \<noteq> None"
  have ne: "a \<noteq> []" using m a by (auto simp: media_ok_def)
  have P: "?P \<Longrightarrow> dr_projects d uid \<noteq> []" and S: "?shared \<Longrightarrow> ?as \<noteq> []" by (auto simp: in_projects_def)
  have "asset_allows m (user_scope m d srch now (Some uid)) a ''use'' = (?P \<or> ?shared)"
  proof (cases ?P)
    case True
    then show ?thesis using a ne owns_restricted [OF u m, of srch now a]
      by (simp add: asset_allows_def restricted_scope [OF u] asset_visible_def)
  next
    case False
    have lev: "map_of ?as a = Some l \<Longrightarrow> l \<noteq> [] \<and> 1 \<le> rank l" for l
      using graded_evaluate [of m d srch now uid, unfolded graded_def, rule_format, of a l] by (auto simp: rank_def split: if_splits)
    have "\<not> owns_asset m (user_scope m d srch now (Some uid)) a" using False owns_restricted [OF u m] by simp
    then show ?thesis using False lev
      by (cases "map_of ?as a") (auto simp: asset_allows_def restricted_scope [OF u])
  qed
  then show ?thesis using ne a P S
    by (auto simp: scope_sql_def asset_visible_def visible_ids_def restricted_scope [OF u] shared_asset_def)
qed

lemma user_two: "asset_allows demo_media (user_scope demo_media demo_dir demo_find 50 (Some 2)) ''a'' ''use''"
  by code_simp

theorem listing_agrees_witness:
  "scope_sql demo_media (user_scope demo_media demo_dir demo_find 50 (Some 2)) ''a''
   \<and> scope_sql demo_media (user_scope demo_media demo_dir demo_find 50 (Some 2)) ''b''
   \<and> \<not> scope_sql demo_media (user_scope demo_media demo_dir demo_find 50 (Some 3)) ''a''"
proof -
  have "''a'' \<in> set (md_assets demo_media)" "''b'' \<in> set (md_assets demo_media)" by (simp_all add: demo_media_def)
  then show ?thesis
    using listing_agrees [OF demo_media_ok(2,1), of "''a''" demo_find 50 "[]"] listing_agrees [OF demo_media_ok(2,1), of "''b''" demo_find 50 "[]"]
      listing_agrees [OF demo_media_ok(3,1), of "''a''" demo_find 50 "[]"] demo_access(2,5) user_two
    by simp
qed

text \<open>\<open>bin_subtree\<close> is the bin with all its descendants, each once, even where the parents form a ring.\<close>

definition child :: "(int \<times> bin_row) list \<Rightarrow> (int \<times> int) set" where
  "child rows = {(p, c). c \<in> set (kids rows p)}"

lemma subtree_loop_set:
  "\<forall>x \<in> set out. set (kids rows x) \<subseteq> set out \<union> set stack \<Longrightarrow> distinct out \<Longrightarrow>
     distinct (subtree_loop rows stack out) \<and> set (subtree_loop rows stack out) = set out \<union> (child rows)\<^sup>* `` set stack"
proof (induction rows stack out rule: subtree_loop.induct)
  case (1 rows out)
  then show ?case by simp
next
  case (2 rows x stack out)
  show ?case
  proof (cases "x \<in> set out")
    case True
    have "y \<in> set out \<union> (child rows)\<^sup>* `` set stack" if "(x, y) \<in> (child rows)\<^sup>*" for y
      using that
    proof induction
      case base
      then show ?case using True by simp
    next
      case (step y z)
      show ?case
      proof (cases "y \<in> set out")
        case True
        then have "z \<in> set out \<union> set (x # stack)" using 2(3) step(2) by (auto simp: child_def)
        then show ?thesis using \<open>x \<in> set out\<close> by auto
      next
        case False
        then show ?thesis using step(2,3) by (auto intro: rtrancl.rtrancl_into_rtrancl)
      qed
    qed
    moreover have "\<forall>y \<in> set out. set (kids rows y) \<subseteq> set out \<union> set stack" using 2(3) True by auto
    ultimately show ?thesis using 2(1) [OF True] 2(4) True by auto
  next
    case False
    have "\<forall>y \<in> set (out @ [x]). set (kids rows y) \<subseteq> set (out @ [x]) \<union> set (stack @ kids rows x)" using 2(3) by auto
    then have "distinct (subtree_loop rows (stack @ kids rows x) (out @ [x])) \<and>
        set (subtree_loop rows (stack @ kids rows x) (out @ [x])) =
          set (out @ [x]) \<union> (child rows)\<^sup>* `` set (stack @ kids rows x)" using 2(2) [OF False] 2(4) False by simp
    moreover have "(child rows)\<^sup>* `` {x} = insert x ((child rows)\<^sup>* `` set (kids rows x))"
      by (auto simp: child_def elim: converse_rtranclE intro: converse_rtrancl_into_rtrancl)
    ultimately show ?thesis using False by auto
  qed
qed

lemma bin_subtree_exact: "distinct (bin_subtree m b) \<and> set (bin_subtree m b) = (child (md_bins m))\<^sup>* `` {b}"
  using subtree_loop_set [of "[]" "md_bins m" "[b]"] by (simp add: bin_subtree_def)

subsection \<open>The table\<close>

definition row_ok :: "int \<Rightarrow> share_row \<Rightarrow> bool" where
  "row_ok n r \<longleftrightarrow> sh_id r < n \<and> sh_level r \<in> {''use'', ''edit''} \<and> (sh_sharer r = None \<or> sh_recipient r \<noteq> RUser (the (sh_sharer r)))"

definition shares_ok :: "media_db \<Rightarrow> bool" where
  "shares_ok m \<longleftrightarrow> distinct (map sh_id (md_shares m)) \<and> distinct (map (\<lambda>r. (sh_target r, sh_recipient r)) (md_shares m)) \<and>
     (\<forall>r \<in> set (md_shares m). row_ok (md_next m) r)"

lemma shares_ok_filter: "shares_ok m \<Longrightarrow> shares_ok (m\<lparr>md_shares := filter P (md_shares m), md_log := l\<rparr>)"
  by (simp add: shares_ok_def distinct_map_filter)

lemma replace_row:
  assumes "distinct (map sh_id rows)" "r \<in> set rows" "sh_id row = sh_id r" "f row = f r"
  shows "map f (map (\<lambda>x. if sh_id x = sh_id r then row else x) rows) = map f rows"
  using assms by (auto simp: distinct_map dest: inj_onD)

lemma share_ok:
  assumes ok: "shares_ok m" and s: "share d now tg rc level expires uid name projects m = Inr (row, m')"
  shows "shares_ok m'"
proof (cases "find (\<lambda>r. sh_target r = tg \<and> sh_recipient r = rc) (md_shares m)")
  case None
  have new: "(tg, rc) \<notin> (\<lambda>r. (sh_target r, sh_recipient r)) ` set (md_shares m)" using None by (auto simp: find_None_iff)
  have "md_next m \<notin> sh_id ` set (md_shares m)" using ok by (fastforce simp: shares_ok_def row_ok_def)
  moreover have "md_shares m' = md_shares m @ [row]" "md_next m' = md_next m + 1" "sh_id row = md_next m" "sh_target row = tg"
      "sh_recipient row = rc" "sh_level row \<in> {''use'', ''edit''}" "sh_sharer row = None \<or> rc \<noteq> RUser (the (sh_sharer row))"
    using s None by (auto simp: share_def Let_def split: if_splits)
  moreover have "row_ok (md_next m + 1) r" if "r \<in> set (md_shares m)" for r
    using that ok by (fastforce simp: shares_ok_def row_ok_def)
  ultimately show ?thesis using ok new by (auto simp: shares_ok_def row_ok_def)
next
  case (Some r)
  then have r: "r \<in> set (md_shares m)" "sh_target r = tg" "sh_recipient r = rc" by (auto simp: find_Some_iff)
  have row: "sh_id row = sh_id r" "sh_target row = tg" "sh_recipient row = rc" "level = sh_level row" "sh_sharer row = uid"
    and m': "md_shares m' = map (\<lambda>x. if sh_id x = sh_id r then row else x) (md_shares m)" "md_next m' = md_next m"
    and chk: "level \<in> {''use'', ''edit''}" "uid = None \<or> rc \<noteq> RUser (the uid)"
    using s Some by (auto simp: share_def Let_def split: if_splits)
  have d: "distinct (map sh_id (md_shares m))" using ok by (simp add: shares_ok_def)
  have a: "map sh_id (md_shares m') = map sh_id (md_shares m)"
    unfolding m' using d r(1) row(1) row(1) by (rule replace_row)
  have b: "map (\<lambda>r. (sh_target r, sh_recipient r)) (md_shares m') = map (\<lambda>r. (sh_target r, sh_recipient r)) (md_shares m)"
    unfolding m' by (rule replace_row [OF d r(1) row(1)]) (simp add: row r)
  have c: "x = row \<or> x \<in> set (md_shares m)" if "x \<in> set (md_shares m')" for x
    using that unfolding m' by (auto split: if_splits)
  have "row_ok (md_next m') row" using ok r(1) row chk m'(2) by (auto simp: shares_ok_def row_ok_def)
  then have "\<forall>x \<in> set (md_shares m'). row_ok (md_next m') x" using c ok m'(2) unfolding shares_ok_def by auto
  then show ?thesis using ok unfolding shares_ok_def a b by blast
qed

text \<open>
  Every operation keeps the table of the shares: one row for a target and a recipient, an identity of its own for each, a level that
  exists, nobody who shares with himself; and a withdrawal takes away exactly the one row.
\<close>

theorem shares_kept:
  assumes ok: "shares_ok m"
  shows "(\<forall>row m'. share d now tg rc level expires uid name projects m = Inr (row, m') \<longrightarrow> shares_ok m' \<and> row \<in> set (md_shares m')) \<and>
    shares_ok (snd (revoke sid actor m)) \<and>
    set (md_shares (snd (revoke sid actor m))) = {r \<in> set (md_shares m). sh_id r \<noteq> sid} \<and>
    shares_ok (purge_expired now m)"
proof (intro conjI allI impI)
  fix row m'
  assume s: "share d now tg rc level expires uid name projects m = Inr (row, m')"
  show "shares_ok m'" using share_ok [OF ok s] .
  show "row \<in> set (md_shares m')"
  proof (cases "find (\<lambda>r. sh_target r = tg \<and> sh_recipient r = rc) (md_shares m)")
    case None
    then show ?thesis using s by (auto simp: share_def Let_def split: if_splits)
  next
    case (Some r)
    then have "r \<in> set (md_shares m)" by (auto simp: find_Some_iff)
    moreover have "md_shares m' = map (\<lambda>x. if sh_id x = sh_id r then row else x) (md_shares m)"
      using s Some by (auto simp: share_def Let_def split: if_splits)
    ultimately show ?thesis by force
  qed
next
  show "shares_ok (snd (revoke sid actor m))" using ok by (auto simp: revoke_def shares_ok_filter split: option.splits)
  show "set (md_shares (snd (revoke sid actor m))) = {r \<in> set (md_shares m). sh_id r \<noteq> sid}"
    by (auto simp: revoke_def find_None_iff find_Some_iff split: option.splits)
  show "shares_ok (purge_expired now m)" using ok by (simp add: purge_expired_def shares_ok_filter)
qed

theorem shares_kept_witness:
  "shares_ok (snd (revoke 2 [] demo_media)) \<and> map sh_id (md_shares (snd (revoke 2 [] demo_media))) = [1, 3]"
proof -
  have "shares_ok demo_media" by code_simp
  moreover have "map sh_id (md_shares (snd (revoke 2 [] demo_media))) = [1, 3]" by code_simp
  ultimately show ?thesis using shares_kept [of demo_media] by blast
qed

end
