(* ===== verification/Share_Load_Properties.thy ===== *)
theory Share_Load_Properties
  imports Share_Load Share_Properties
begin

text \<open>
  Sending media to a container: which of them enter its project, exactly; what a media sent twice and a send that fails do to it.
\<close>

subsection \<open>Marks\<close>

definition marked :: "int \<Rightarrow> string \<times> int \<Rightarrow> marks \<Rightarrow> bool" where
  "marked now k mk \<longleftrightarrow> (case map_of mk k of None \<Rightarrow> False | Some t \<Rightarrow> now \<le> t)"

lemma map_of_filter_distinct:
  "distinct (map fst d) \<Longrightarrow> map_of (filter P d) k = (case map_of d k of None \<Rightarrow> None | Some v \<Rightarrow> if P (k, v) then Some v else None)"
proof (induction d)
  case (Cons x d)
  have "map_of d (fst x) = None" using Cons.prems by (simp add: map_of_eq_None_iff)
  moreover have "k = fst x \<Longrightarrow> map_of (filter P d) k = None" using Cons calculation by simp
  ultimately show ?case using Cons by (cases x) (auto split: option.splits)
qed simp

lemma mark_distinct: "distinct (map fst mk) \<Longrightarrow> distinct (map fst (mark_no_link now a v mk))"
  by (simp add: mark_no_link_def distinct_dict_put distinct_map_filter)

lemma marked_mark:
  assumes "distinct (map fst mk)" "now \<le> later" "later \<le> now + no_link_ttl"
  shows "marked later k (mark_no_link now a v mk) \<longleftrightarrow> k = (a, v) \<or> marked later k mk"
  using assms by (auto simp: marked_def mark_no_link_def map_of_filter_distinct split: option.splits)

lemma marks_fold:
  assumes "distinct (map fst mk)" "now \<le> later" "later \<le> now + no_link_ttl"
  shows "distinct (map fst (fold (\<lambda>a. mark_no_link now a v) as mk)) \<and>
    (marked later k (fold (\<lambda>a. mark_no_link now a v) as mk) \<longleftrightarrow> k \<in> (\<lambda>a. (a, v)) ` set as \<or> marked later k mk)"
  using assms(1) by (induction as arbitrary: mk) (auto simp: mark_distinct marked_mark [OF _ assms(2,3)])

lemma link_suppressed_marked: "link_suppressed now a v mk = (marked now (a, v) mk, filter (\<lambda>(k, t). k \<noteq> (a, v)) mk)"
  by (simp add: link_suppressed_def marked_def)

lemma marked_consumed:
  "distinct (map fst mk) \<Longrightarrow> marked now k (filter (\<lambda>(k, t). k \<noteq> (a, v)) mk) \<longleftrightarrow> k \<noteq> (a, v) \<and> marked now k mk"
  by (auto simp: marked_def map_of_filter_distinct split: option.splits)

subsection \<open>Links\<close>

definition sent_media :: "resolved \<Rightarrow> string list" where
  "sent_media r = List.map_filter (map_of (rs_origins r)) (rs_paths r)"

lemma in_link_project: "x \<in> set (md_project (link_project a p m)) \<longleftrightarrow> x = (p, a) \<or> x \<in> set (md_project m)"
  by (auto simp: link_project_def)

lemma link_container_fst:
  "a \<noteq> [] \<Longrightarrow> (q, b) \<in> set (md_project (fst (link_container_project now a v project (m, mk)))) \<longleftrightarrow>
     (q, b) \<in> set (md_project m) \<or> (project = Some q \<and> q \<noteq> 0 \<and> b = a \<and> \<not> marked now (a, v) mk)"
  by (auto simp: link_container_project_def link_suppressed_marked in_link_project split: bool.splits option.splits)

lemma link_container_snd:
  "snd (link_container_project now a v project (m, mk)) = filter (\<lambda>(k, t). k \<noteq> (a, v)) mk"
  by (auto simp: link_container_project_def link_suppressed_marked split: bool.splits)

text \<open>The links of a send: the first one of a media uses up its mark, so that a media sent twice is linked whatever its mark.\<close>

lemma links_exact:
  assumes "distinct (map fst mk)" "[] \<notin> set (List.map_filter (map_of origins) ps)"
  shows "(q, b) \<in> set (md_project (fst (fold (link_path origins now v project) ps (m, mk)))) \<longleftrightarrow>
     (q, b) \<in> set (md_project m) \<or>
     (project = Some q \<and> q \<noteq> 0 \<and> b \<in> set (List.map_filter (map_of origins) ps) \<and>
        (\<not> marked now (b, v) mk \<or> 2 \<le> count_list (List.map_filter (map_of origins) ps) b))"
  using assms
proof (induction ps arbitrary: m mk)
  case Nil
  then show ?case by (simp add: List.map_filter_def)
next
  case (Cons p ps)
  show ?case
  proof (cases "map_of origins p")
    case None
    then show ?thesis using Cons by (simp add: link_path_def List.map_filter_def)
  next
    case (Some a)
    let ?y = "link_container_project now a v project (m, mk)" and ?L = "List.map_filter (map_of origins) ps"
    have mp: "List.map_filter (map_of origins) (p # ps) = a # ?L"
      using Some by (simp add: List.map_filter_def)
    have ne: "a \<noteq> []" and rest: "[] \<notin> set ?L" using Cons.prems(2) unfolding mp by auto
    have step: "fold (link_path origins now v project) (p # ps) (m, mk) = fold (link_path origins now v project) ps (fst ?y, snd ?y)"
      using Some ne by (simp add: link_path_def)
    have d: "distinct (map fst (snd ?y))" using Cons.prems(1) by (simp add: link_container_snd distinct_map_filter)
    have more: "2 \<le> count_list (a # ?L) b \<longleftrightarrow> (if b = a then b \<in> set ?L else 2 \<le> count_list ?L b)"
      using count_list_0_iff [of ?L a] by auto
    have one: "2 \<le> count_list ?L b \<Longrightarrow> b \<in> set ?L" using count_list_0_iff [of ?L b] by auto
    show ?thesis
      unfolding step mp Cons.IH [OF d rest]
      unfolding link_container_fst [OF ne] link_container_snd marked_consumed [OF Cons.prems(1)] more
      using one by auto
  qed
qed

subsection \<open>What a send resolves\<close>

definition seen :: "media_db \<Rightarrow> mscope option \<Rightarrow> resolved \<Rightarrow> bool" where
  "seen m sc r \<longleftrightarrow> (\<forall>a \<in> snd ` set (rs_origins r). asset_visible m a sc)"

lemma set_dict_put: "set (dict_put k v d) \<subseteq> insert (k, v) (set d)"
  by (induction k v d rule: dict_put.induct) (simp_all, blast)

lemma snd_dict_put: "snd ` set (dict_put k v d) \<subseteq> insert v (snd ` set d)"
  using image_mono [OF set_dict_put [of k v d], of snd] by simp

lemma seen_found: "seen m sc r \<Longrightarrow> asset_visible m a sc \<Longrightarrow> seen m sc (found p a r)"
proof -
  assume "seen m sc r" "asset_visible m a sc"
  moreover have "snd ` set (rs_origins (found p a r)) \<subseteq> insert a (snd ` set (rs_origins r))" by (simp add: found_def snd_dict_put)
  ultimately show ?thesis unfolding seen_def by blast
qed

lemma seen_miss [simp]: "seen m sc (miss x r) = seen m sc r"
  by (simp add: seen_def miss_def)

lemma seen_asset: "seen m (Some s) r \<Longrightarrow> seen m (Some s) (resolve_asset m c (Some s) vw version a r)"
  by (auto simp: resolve_asset_def seen_found split: option.splits)

lemma seen_item: "seen m (Some s) r \<Longrightarrow> seen m (Some s) (resolve_item m c (Some s) vw it r)"
  by (auto simp: resolve_item_def Let_def seen_found split: option.splits) (auto simp: seen_def)

lemma seen_resolve: "seen m (Some s) (resolve_for_container m c (Some s) st aids items version)"
proof -
  have "seen m (Some s) (fold (resolve_item m c (Some s) vw) its r)" if "seen m (Some s) r" for its vw r
    using that by (induction its arbitrary: r) (simp_all add: seen_item)
  moreover have "seen m (Some s) (fold (resolve_asset m c (Some s) vw version) as r)" if "seen m (Some s) r" for as vw r
    using that by (induction as arbitrary: r) (simp_all add: seen_asset)
  moreover have "seen m (Some s) \<lparr>rs_paths = [], rs_missing = [], rs_origins = []\<rparr>" by (simp add: seen_def)
  ultimately show ?thesis by (simp only: resolve_for_container_def)
qed

lemma sent_origin: "a \<in> set (sent_media r) \<Longrightarrow> a \<in> snd ` set (rs_origins r)"
proof -
  assume "a \<in> set (sent_media r)"
  then obtain p where "map_of (rs_origins r) p = Some a" by (auto simp: sent_media_def List.map_filter_def)
  then have "(p, a) \<in> set (rs_origins r)" by (rule map_of_SomeD)
  then show ?thesis by force
qed

subsection \<open>Sending\<close>

text \<open>
  C36. Which of the media a restricted user sends to a container enter its project, exactly, when the container takes the paths within six hours of the marks: those
  that were sent as a copy of a media (a file already in the view of the container and named by its place is not linked), that the user owns, and that no mark of an
  earlier send holds back; and those sent twice, owned or not.  One that he sees only through a share, and sends once, is loaded and stays out of the project.
\<close>

theorem send_exact:
  assumes u: "restricted d uid" and m: "media_ok m" and mk: "distinct (map fst mk)"
    and t: "now \<le> later" "later \<le> now + no_link_ttl"
  shows "(q, a) \<in> set (md_project (fst (snd (registry_send c (user_scope m d srch now (Some uid)) s v now later True aids items version (m, mk)))))
    \<longleftrightarrow> (q, a) \<in> set (md_project m) \<or>
       (st_project s = Some q \<and> q \<noteq> 0 \<and>
        (let sent = sent_media (resolve_for_container m c (user_scope m d srch now (Some uid)) s aids items version) in
         a \<in> set sent \<and> (in_projects m (dr_projects d uid) a \<and> \<not> marked later (a, v) mk \<or> 2 \<le> count_list sent a)))"
proof -
  obtain sc where sc: "user_scope m d srch now (Some uid) = Some sc" using restricted_scope [OF u] by blast
  let ?r = "resolve_for_container m c (Some sc) s aids items version"
  let ?own = "owns_asset m (Some sc)"
  let ?only = "filter (\<lambda>a. a \<noteq> [] \<and> \<not> ?own a \<and> shared_asset sc a) (remdups (map snd (rs_origins ?r)))"
  let ?mk = "fold (\<lambda>a. mark_no_link now a v) ?only mk"
  have own: "?own b = in_projects m (dr_projects d uid) b" for b using owns_restricted [OF u m] sc by metis
  have prj: "sc_projects sc = dr_projects d uid" using restricted_scope [OF u, of m srch now] sc by auto
  have vis: "asset_visible m b (Some sc)" if "b \<in> set (sent_media ?r)" for b
    using seen_resolve [of m sc c s aids items version] sent_origin [OF that] by (auto simp: seen_def)
  have only: "b \<in> set ?only \<longleftrightarrow> \<not> in_projects m (dr_projects d uid) b" if "b \<in> set (sent_media ?r)" for b
    using vis [OF that] sent_origin [OF that] own [of b]
    by (auto simp: asset_visible_def prj split: if_splits)
  have ne: "[] \<notin> set (sent_media ?r)" using vis [of "[]"] by (auto simp: asset_visible_def)
  have marked: "marked later (b, v) ?mk \<longleftrightarrow> \<not> in_projects m (dr_projects d uid) b \<or> marked later (b, v) mk"
    if "b \<in> set (sent_media ?r)" for b
    using marks_fold [OF mk t, of v ?only "(b, v)"] only [OF that] by (auto simp: image_iff)
  have "(q, a) \<in> set (md_project (fst (fold (link_path (rs_origins ?r) later v (st_project s)) (rs_paths ?r) (m, ?mk)))) \<longleftrightarrow>
     (q, a) \<in> set (md_project m) \<or>
     (st_project s = Some q \<and> q \<noteq> 0 \<and> a \<in> set (sent_media ?r) \<and> (\<not> marked later (a, v) ?mk \<or> 2 \<le> count_list (sent_media ?r) a))"
    unfolding sent_media_def
    by (rule links_exact) (use marks_fold [OF mk t, of v ?only] ne in \<open>simp_all add: sent_media_def\<close>)
  moreover have "rs_paths ?r = [] \<Longrightarrow> sent_media ?r = []" by (simp add: sent_media_def List.map_filter_def)
  ultimately show ?thesis
    using marked [of a] by (auto simp: registry_send_def Let_def sc guard_container_load_def)
qed

text \<open>
  The demonstration: user 2 also has the media c; the container 7 of node 1 is in project 30, and the files of a and c are on its node.
\<close>

definition demo_load :: media_db where
  "demo_load = demo_media\<lparr>md_assets := [''a'', ''b'', ''c''], md_project := [(10, ''a''), (10, ''b''), (20, ''c'')]\<rparr>"

definition demo_file :: "string \<Rightarrow> string \<Rightarrow> file_row" where
  "demo_file a p = \<lparr>fr_node = 1, fr_share = 0, fr_path = p, fr_asset = Some a, fr_main = True, fr_present = True, fr_version = original\<rparr>"

definition demo_catalogue :: catalogue where
  "demo_catalogue =
     \<lparr>ct_info = [(''a'', (''A'', None)), (''b'', (''B'', None)), (''c'', (''C'', None))], ct_versions = [],
      ct_files = [demo_file ''a'' ''x'', demo_file ''c'' ''z'']\<rparr>"

definition demo_site :: site where
  "demo_site = \<lparr>st_node = Some 1, st_project = Some 30, st_folder = None\<rparr>"

definition demo_send :: "int \<Rightarrow> bool \<Rightarrow> string list \<Rightarrow> media_db \<times> marks \<Rightarrow> answer \<times> media_db \<times> marks" where
  "demo_send uid took aids y =
     registry_send demo_catalogue (user_scope (fst y) demo_dir demo_find 50 (Some uid)) demo_site 7 50 51 took aids [] None y"

lemma demo_load_facts:
  "media_ok demo_load"
  "sent_media (resolve_for_container demo_load demo_catalogue (user_scope demo_load demo_dir demo_find 50 (Some 2)) demo_site
     [''a'', ''c''] [] None) = [''a'', ''c'']"
  "sent_media (resolve_for_container demo_load demo_catalogue (user_scope demo_load demo_dir demo_find 50 (Some 2)) demo_site
     [''a'', ''a''] [] None) = [''a'', ''a'']"
  "in_projects demo_load (dr_projects demo_dir 2) ''c''" "\<not> in_projects demo_load (dr_projects demo_dir 2) ''a''"
  "(30, ''a'') \<notin> set (md_project demo_load)"
  by code_simp+

theorem send_exact_witness:
  "(30, ''c'') \<in> set (md_project (fst (snd (demo_send 2 True [''a'', ''c''] (demo_load, []))))) \<and>
   (30, ''a'') \<notin> set (md_project (fst (snd (demo_send 2 True [''a'', ''c''] (demo_load, []))))) \<and>
   (30, ''a'') \<in> set (md_project (fst (snd (demo_send 2 True [''a'', ''a''] (demo_load, [])))))"
  using send_exact [of demo_dir 2 demo_load "[]" 50 51 30 "''c''" demo_catalogue demo_find demo_site 7 "[''a'', ''c'']" "[]" None]
    send_exact [of demo_dir 2 demo_load "[]" 50 51 30 "''a''" demo_catalogue demo_find demo_site 7 "[''a'', ''c'']" "[]" None]
    send_exact [of demo_dir 2 demo_load "[]" 50 51 30 "''a''" demo_catalogue demo_find demo_site 7 "[''a'', ''a'']" "[]" None]
    demo_media_ok(2) demo_load_facts
  by (simp add: demo_send_def no_link_ttl_def marked_def demo_site_def)

text \<open>
  A media sent twice (a playlist with the same clip at two places) is marked once and linked twice: the second link finds no mark, and
  the shared media enters the project of the container.
\<close>

lemma sent_twice_spreads:
  "asset_allows demo_load (user_scope demo_load demo_dir demo_find 50 (Some 2)) ''a'' ''owner'' = False"
  "(30, ''a'') \<in> set (md_project (fst (snd (demo_send 2 True [''a'', ''a''] (demo_load, [])))))"
  by code_simp+

text \<open>
  A send the container refuses leaves its mark: the next send of the same media to that container, by its owner, does not bring it
  into the project.
\<close>

lemma refused_send_blocks_owner:
  "(30, ''a'') \<in> set (md_project (fst (snd (demo_send 1 True [''a''] (demo_load, [])))))"
  "(30, ''a'') \<notin> set (md_project (fst (snd (demo_send 1 True [''a''] (snd (demo_send 2 False [''a''] (demo_load, [])))))))"
  by code_simp+

end
