(* ===== verification/Spec2Isabelle.thy ===== *)
theory Spec2Isabelle
  imports Pool_Properties Net_Properties Playout_Properties Macro_Properties Farm_Properties
    Vmid_Locks_Properties Edit_Lock Gpu_Pool Tally_Mixer_Properties Tally_Readers Share_Load_Properties
begin

text \<open>
  The decision logic of the bobistudio orchestrator (the Python package under \<open>src/app\<close>): the allocators, the playout groups,
  the macros, the transcoding farm, the tally, the sharing of media and the locks.

  \<^bold>\<open>Parts.\<close>  The orchestrator creates containers on nodes.  For each container it picks cpu cores
  (\<open>core_pool.py\<close>), an address and a number, and the multicast groups of its flows (\<open>allocations.py\<close> over the ledgers of
  \<open>database.py\<close>).  The playout groups (\<open>playout_groups.py\<close>) drive several player containers from one playlist.  The macros
  (\<open>macros.py\<close>) run sequences of actions on the containers, written as blocks or as a graph.  The farm
  (\<open>transcode_farm.py\<close>) spreads transcoding jobs over the transcoder containers of the nodes.  Operations
  on a container run in background threads under the locks of \<open>vmlocks.py\<close>; people editing one hold the soft lock of
  \<open>edit_lock.py\<close>.  The tally (\<open>tally.py\<close>) keeps
  which colour each flow has on each level, as the controllers and the mixers state it, propagates it back through the graph of the elements and tells the
  walls.  The data base of the media (\<open>media_registry.py\<close>) shows a restricted user the media of his projects and what was shared with him
  (\<open>media_sharing.py\<close>), and brings what is loaded into a container into its project.  The parts meet in the data base
  (a container row, a node row, the ledgers) and in the list of containers, which each part reads.

  \<^bold>\<open>Theories.\<close>

  \<^item> \<open>Bobi_Prelude\<close>, \<open>Json\<close>: Python texts, dictionaries and lists; JSON values with their truth value and conversions.
  \<^item> \<open>Cpuset\<close> (\<open>parse_cpuset\<close>, \<open>fmt_cpuset\<close>), \<open>Pool_State\<close> (node rows, container rows, \<open>node_core_alloc\<close>),
    \<open>Pool_Topology\<close> (the texts of the node agent, the footprint of the engine, the derived pool), \<open>Pool_Numa\<close>
    (\<open>_choisir_numa\<close>, the score of a placement), \<open>Pool_Alloc\<close> (\<open>allocate_cores\<close>, the purge of orphans), \<open>Pool_Shared\<close>
    (\<open>effective_cpuset\<close>, \<open>reserve_engine_cores\<close>), \<open>Pool_Capacity\<close> (capacity, alerts, grid, caches): the cores of a node.
    \<open>Pool_Stability\<close> and \<open>Pool_Properties\<close>: exclusivity of cores and of hyper-threading siblings, the frame of an
    allocation, when it is granted, its stability, the pool left to the others.
  \<^item> \<open>Ipv4\<close>, \<open>Ledger\<close>, \<open>Net_State\<close>, \<open>Net_Alloc\<close>, \<open>Net_Race\<close>, \<open>Net_Mcast\<close>, \<open>Net_Replan\<close>: addresses, numbers and multicast
    groups.  \<open>Net_Race\<close> has \<open>allocate_container_ip\<close> statement by statement, from its first read to the write of the address, for several calls at once.  \<open>Ledger\<close> states the contract of a reservation table as a locale (a scan of candidates over an \<open>INSERT\<close> under
    a primary key, by several clients at once) that the three tables of the data base interpret in \<open>Net_State\<close>.
    \<open>Net_Mcast_Facts\<close> and \<open>Net_Properties\<close>: soundness and completeness of an allocation, no duplicate between
    concurrent allocations unless an address is written in the middle of another call (and then there may be one), growing numbers, no theft between owners, strict ranges, a re-planning that stays in its part.
  \<^item> \<open>Playout_State\<close> (groups, items, the plan of the outputs), \<open>Playout_Ops\<close> (the pure operations of the playlist),
    \<open>Playout_Config\<close> (validation and the table of groups), \<open>Playout_Engine\<close> and \<open>Playout_Pass\<close> (the commands and one pass of
    the engine over a group, whose readings of players and mixer come from the world): the playout groups.
    \<open>Playout_Facts\<close>, \<open>Playout_Steps\<close>, \<open>Playout_Edits\<close>, \<open>Playout_Table\<close>, \<open>Playout_Pass_Facts\<close>,
    \<open>Playout_Properties\<close>: the rotation, takes in and out of order, edits that never touch what is on air, the invariant of
    the table, and what a pass may do to the players.
  \<^item> \<open>Macro_State\<close> (blocks, graphs, \<open>validate_graph\<close>), \<open>Macro_Compile\<close> (\<open>blocks_to_graph\<close>, \<open>_layout\<close>), \<open>Macro_Parse\<close>
    (\<open>graph_to_blocks\<close>), \<open>Macro_Run\<close> (\<open>_run_steps\<close>, the token interpreter of \<open>_GraphCtx\<close>), \<open>Macro_Triggers\<close> (runs and
    permanent triggers).  \<open>Macro_Shape\<close>, \<open>Macro_Graph\<close>, \<open>Macro_Wired\<close>, \<open>Macro_Reach\<close>, \<open>Macro_Roundtrip\<close>, \<open>Macro_Sound\<close>,
    \<open>Macro_Properties\<close>: a compiled graph is valid, is read back as the blocks it came from, runs like them, and every run ends.
  \<^item> \<open>Farm_State\<close> (jobs, transcoders, the dictionaries kept in memory), \<open>Farm_Prog\<close> (programs as interaction trees: atomic actions
    on the shared state, questions to the world, exceptions, threads), \<open>Farm_Paths\<close>, \<open>Farm_Dispatch\<close> (\<open>_candidates\<close>,
    \<open>_dispatch\<close>, \<open>_requeue\<close>, \<open>_cleanup\<close>), \<open>Farm_Follow\<close> (\<open>_follow\<close>, the threads of the transfers, \<open>_finish\<close>),
    \<open>Farm_Ops\<close> (the requests of the users), \<open>Farm_Tick\<close> (\<open>tick\<close>, and the interleaving of all threads with restarts).
    \<open>Farm_Inv\<close> and \<open>Farm_Keeps\<close>: the invariant of the table and the transitions each thread may make, proved for every atomic
    action of every program; \<open>Farm_Order\<close>: the reference plan of a pass over the queue; \<open>Farm_Properties\<close>: the properties.
  \<^item> \<open>Tally_State\<close> (\<open>poser_tally\<close>, \<open>poser_cases\<close>, \<open>flux_tally\<close>, \<open>resolve_ref\<close>, the carriers, the followers), \<open>Tally_Propagate\<close>
    (\<open>_entrees_contributives\<close>, \<open>propager\<close>), \<open>Tally_Mixer\<close> (\<open>_mixer_publisher_tick\<close>), \<open>Tally_Turn\<close> (one turn of \<open>_distributor\<close>):
    the tally.  \<open>Tally_Facts\<close> and \<open>Tally_Properties\<close>: the displayed layer is the sum of the contributions in every interleaving,
    and a writer replaces exactly its own; \<open>Tally_Walk\<close> and \<open>Tally_Air\<close>: what the propagation lights, and where its cap and its
    order show; \<open>Tally_Mixer_Properties\<close>: what the mixers state after a tick; \<open>Tally_Readers\<close>: the two readers of the result agree where no follower
    is declared and no parent is the reference of a port, and not elsewhere.
  \<^item> \<open>Share_State\<close> (scopes, visible bins, the content of a bin: \<open>asset_visible\<close>, \<open>scope_sql\<close>, \<open>_visible_bin_ids\<close>, \<open>bin_content\<close>), \<open>Share_Ops\<close>
    (\<open>_evaluate\<close>, \<open>asset_allows\<close>, \<open>share\<close>, \<open>revoke\<close>, \<open>purge_expired\<close>, the marks of a load), \<open>Share_Load\<close> (\<open>resolve_for_container\<close>,
    \<open>registry_send\<close>): the sharing of media.  \<open>Share_Properties\<close>: who may do what with a media, exactly; the lists and the tests agree; the table of the
    shares; the descendants of a bin.  \<open>Share_Load_Properties\<close>: what a send brings into a project, and how a media sent twice escapes its share.
  \<^item> \<open>Vmid_Locks\<close> and \<open>Vmid_Locks_Properties\<close> (\<open>_lock_for\<close>, \<open>verrou_vmid\<close>, \<open>verrou_vmids\<close>, \<open>est_verrouille\<close>, over any number of
    interleaved threads): one holder at a time, bodies that overlap only after an alert, and the end of every operation.
    \<open>Edit_Lock\<close> (\<open>etat\<close>, \<open>prendre\<close>, \<open>rendre\<close>): an editor in time keeps his lock.  \<open>Gpu_Pool\<close> (\<open>allocate_gpu\<close>): the balance
    of the cards of a node.

  \<^bold>\<open>Bounds and fuel.\<close>  \<open>next_free_vmid\<close> makes the 100000 tries of the code; a number is always found first when the table of
  reservations is sound.  \<open>graph_to_blocks\<close> takes fuel, twice the number of nodes and two: no call runs out of it on a
  compiled graph (the round trip), and \<open>Starved\<close> is an outcome of its own.  The token interpreter terminates by \<open>run_bound\<close>: the
  visits that \<open>NODE_VISITS_MAX\<close> leaves to each node bound the steps, whatever the scheduler does.  The programs of the farm
  are trees that contain no endless loop: each tick, request and transfer ends after as many answers as its path has questions.  The walk of the tally
  terminates because no entry of its stack is expanded below the cap of the code (a multiset of the remaining depths falls).  \<open>run_on\<close>
  and \<open>drive\<close> take a number of steps, and are only used to exhibit executions.

  \<^bold>\<open>Abstractions.\<close>  An action is atomic where the code makes one statement on the data base or holds a lock.  What
  other machines answer (HTTP requests to containers, commands on hosts, searches in the media registry, probes), the clock and the
  random tokens are answers of the world, over which every theorem quantifies.  Numbers are unbounded integers and rationals, as
  in Python; a JSON value of a type a protocol does not foresee is an exception or outside the types, as each
  theory says.  The functions of \<open>services.audio\<close> and \<open>services.storage\<close>, which are not part of the repository, are fields
  of the state (readings of a console, granted shares).

  \<^bold>\<open>Not modelled.\<close>  Routes and the web interface, the drivers of Docker and of the node agent, the indexing, import and copy of files in the media registry, metrics and the
  programs that run inside the containers; the ports that \<open>plugins.derive_wiring\<close> reads from the manifests are data here: they are input, output and calls to other systems.  Of the modelled
  modules: views and texts for the interface, logs and journals, the re-application of cpusets to running containers, the execution
  of one leaf step of a macro and the evaluation of a condition (fields of the world), the thread loops that call a pass or a tick
  for ever, the texts of the labels that \<open>tally.py\<close> pushes with the colours,
  the author of a write that \<open>edit_lock.py\<close> keeps per thread, the time to live and the rate in the requests of the farm.
\<close>

end
